(* ===== verification/Pty_Prelude.thy ===== *)
theory Pty_Prelude
  imports Main "HOL-Library.Word"
begin

text \<open>
  Shared vocabulary of the development: the machine integers and strings of the Rust sources,
  big-endian byte layout, and the two interfaces that several components implement.

  \<^item> Fixed-width integers are words. A signed \<open>i32\<close> or \<open>i64\<close> is a word read by \<open>sint\<close> where its
    wrap-around matters, and an \<open>int\<close> with the range check written out where the source checks it.
  \<^item> A Rust \<open>Vec<u8>\<close> or \<open>&[u8]\<close> is a list of bytes. A Rust \<open>char\<close> is a Unicode scalar value, here
    its number, and a \<open>String\<close> read through \<open>chars()\<close> is a list of scalars. \<open>ustr\<close> and \<open>bstr\<close> turn
    an ASCII literal into these.
  \<^item> \<open>codec\<close> is the contract of an encoder and its decoder; \<open>chunked_stream\<close> is the contract of a
    decoder that is fed a stream in pieces.
\<close>

unbundle bit_operations_syntax

type_synonym u8 = "8 word"
type_synonym u16 = "16 word"
type_synonym u32 = "32 word"
type_synonym u64 = "64 word"
type_synonym i32 = "32 word"
type_synonym bytes = "u8 list"

text \<open>A Unicode scalar value and a string of them.\<close>

type_synonym rchar = nat
type_synonym rstr = "rchar list"

definition bstr :: "string \<Rightarrow> bytes" where
  "bstr s = map of_char s"

definition ustr :: "string \<Rightarrow> rstr" where
  "ustr s = map of_char s"

lemma ustr_inject [simp]: "ustr a = ustr b \<longleftrightarrow> a = b"
  by (auto simp: ustr_def inj_def intro: map_injective)

named_theorems const_defs \<open>constants of the sources, unfolded for evaluation\<close>
named_theorems codec_simps \<open>decoding what was encoded\<close>

section \<open>Big-endian integers\<close>

text \<open>\<open>u16::to_be_bytes\<close>, \<open>u32::to_be_bytes\<close> and their inverses.\<close>

definition u16_to_be_bytes :: "u16 \<Rightarrow> bytes" where
  "u16_to_be_bytes w = [ucast (drop_bit 8 w), ucast w]"

definition u16_from_be_bytes :: "u8 \<Rightarrow> u8 \<Rightarrow> u16" where
  "u16_from_be_bytes a b = push_bit 8 (ucast a) OR ucast b"

definition u32_to_be_bytes :: "u32 \<Rightarrow> bytes" where
  "u32_to_be_bytes w =
     [ucast (drop_bit 24 w), ucast (drop_bit 16 w), ucast (drop_bit 8 w), ucast w]"

definition u32_from_be_bytes :: "u8 \<Rightarrow> u8 \<Rightarrow> u8 \<Rightarrow> u8 \<Rightarrow> u32" where
  "u32_from_be_bytes a b c d =
     push_bit 24 (ucast a) OR push_bit 16 (ucast b) OR push_bit 8 (ucast c) OR ucast d"

lemma length_u16_to_be_bytes [simp]: "length (u16_to_be_bytes w) = 2"
  by (simp add: u16_to_be_bytes_def)

lemma length_u32_to_be_bytes [simp]: "length (u32_to_be_bytes w) = 4"
  by (simp add: u32_to_be_bytes_def)

lemma u16_be_roundtrip [simp, codec_simps]:
  "u16_from_be_bytes (ucast (drop_bit 8 w)) (ucast w) = w"
  unfolding u16_from_be_bytes_def
  by (rule bit_word_eqI) (auto simp: bit_simps)

lemma u32_be_roundtrip [simp, codec_simps]:
  "u32_from_be_bytes (ucast (drop_bit 24 w)) (ucast (drop_bit 16 w)) (ucast (drop_bit 8 w))
     (ucast w) = w"
proof (rule bit_word_eqI)
  fix n
  assume "n < LENGTH(32)"
  then consider "n < 8" | "8 \<le> n \<and> n < 16" | "16 \<le> n \<and> n < 24" | "24 \<le> n \<and> n < 32"
    by fastforce
  then show "bit (u32_from_be_bytes (ucast (drop_bit 24 w)) (ucast (drop_bit 16 w))
      (ucast (drop_bit 8 w)) (ucast w)) n = bit w n"
    by cases (auto simp: u32_from_be_bytes_def bit_simps)
qed

lemma not_bit_u8_beyond: "8 \<le> n \<Longrightarrow> \<not> bit (a :: u8) n"
  using bit_imp_le_length [of a n] by auto

lemma u32_be_bytes_of_from [simp]:
  "u32_to_be_bytes (u32_from_be_bytes a b c d) = [a, b, c, d]"
  unfolding u32_to_be_bytes_def u32_from_be_bytes_def
  by (auto intro!: bit_word_eqI simp: bit_simps not_bit_u8_beyond)

section \<open>Encoders and decoders\<close>

text \<open>
  An encoder, a decoder that may refuse, and the values the encoder is defined for. The client
  facts follow from the one law.
\<close>

locale codec =
  fixes valid :: "'a \<Rightarrow> bool"
    and enc :: "'a \<Rightarrow> 'b"
    and dec :: "'b \<Rightarrow> 'a option"
  assumes dec_enc: "valid x \<Longrightarrow> dec (enc x) = Some x"
begin

lemma enc_inj: "valid x \<Longrightarrow> valid y \<Longrightarrow> enc x = enc y \<Longrightarrow> x = y"
  by (metis dec_enc option.inject)

lemma dec_enc_map:
  "list_all valid xs \<Longrightarrow> map (dec \<circ> enc) xs = map Some xs"
  by (induction xs) (auto simp: dec_enc)

end

section \<open>Decoders fed in pieces\<close>

text \<open>
  A stream decoder keeps a state between reads. \<open>feed\<close> takes the next piece and yields what it
  recognised, or an error. \<open>feed_all\<close> is a client that feeds piece after piece, keeps what it was
  given and stops at the first error.
\<close>

primrec feed_all :: "('s \<Rightarrow> 'a list \<Rightarrow> ('e + 'o list) \<times> 's) \<Rightarrow> 's \<Rightarrow> 'a list list
    \<Rightarrow> 'o list \<times> 'e option \<times> 's" where
  "feed_all feed s [] = ([], None, s)"
| "feed_all feed s (c # cs) =
     (case feed s c of
        (Inl e, s') \<Rightarrow> ([], Some e, s')
      | (Inr ps, s') \<Rightarrow> (case feed_all feed s' cs of (qs, e, s'') \<Rightarrow> (ps @ qs, e, s'')))"

text \<open>
  The contract: a piece may be split anywhere. \<open>obs\<close> is what a client observes of an output; it
  may be blind to where one piece ended and the next began. The client fact is that neither the
  observation, nor the final state, nor the error depends on how the transport cut the stream.
\<close>

locale chunked_stream =
  fixes feed :: "'s \<Rightarrow> 'a list \<Rightarrow> ('e + 'o list) \<times> 's"
    and invar :: "'s \<Rightarrow> bool"
    and obs :: "'o list \<Rightarrow> 'v list"
  assumes obs_Nil: "obs [] = []"
    and obs_append: "obs (ps @ qs) = obs ps @ obs qs"
    and feed_Nil: "invar s \<Longrightarrow> feed s [] = (Inr [], s)"
    and invar_feed: "invar s \<Longrightarrow> feed s xs = (r, s') \<Longrightarrow> invar s'"
    and feed_append_ok: "\<lbrakk> invar s; feed s xs = (Inr ps, s'); feed s' ys = (Inr qs, s'') \<rbrakk> \<Longrightarrow>
           \<exists>rs. feed s (xs @ ys) = (Inr rs, s'') \<and> obs rs = obs ps @ obs qs"
    and feed_append_fails: "\<lbrakk> invar s; feed s xs = (Inr ps, s'); feed s' ys = (Inl e, s'') \<rbrakk> \<Longrightarrow>
           feed s (xs @ ys) = (Inl e, s'')"
    and feed_fails_append: "\<lbrakk> invar s; feed s xs = (Inl e, s') \<rbrakk> \<Longrightarrow>
           feed s (xs @ ys) = (Inl e, s')"
begin

lemma feed_all_concat:
  "invar s \<Longrightarrow> feed_all feed s cs = (ps, e, s') \<Longrightarrow>
     (case e of
        None \<Rightarrow> \<exists>rs. feed s (concat cs) = (Inr rs, s') \<and> obs rs = obs ps
      | Some err \<Rightarrow> feed s (concat cs) = (Inl err, s'))"
proof (induction cs arbitrary: s ps e s')
  case Nil
  then show ?case by (auto simp: feed_Nil)
next
  case (Cons c cs)
  obtain r t where ft: "feed s c = (r, t)" by (cases "feed s c")
  with Cons.prems have t: "invar t" by (blast intro: invar_feed)
  show ?case
  proof (cases r)
    case (Inl err)
    with Cons.prems ft show ?thesis by (auto simp: feed_fails_append)
  next
    case (Inr as)
    obtain qs e' s'' where rest: "feed_all feed t cs = (qs, e', s'')"
      by (cases "feed_all feed t cs")
    with Cons.prems ft Inr have eq: "ps = as @ qs" "e = e'" "s' = s''" by auto
    show ?thesis
    proof (cases e')
      case None
      with Cons.IH [OF t rest] obtain rs
        where "feed t (concat cs) = (Inr rs, s'')" "obs rs = obs qs" by auto
      with Cons.prems(1) ft Inr None eq show ?thesis
        using feed_append_ok [of s c as t "concat cs" rs s''] by (auto simp: obs_append)
    next
      case (Some err)
      with Cons.IH [OF t rest] have "feed t (concat cs) = (Inl err, s'')" by simp
      with Cons.prems(1) ft Inr Some eq show ?thesis
        using feed_append_fails [of s c as t "concat cs" err s''] by simp
    qed
  qed
qed

lemma chunking_irrelevant:
  assumes "invar s" and "concat cs = concat ds"
    and "feed_all feed s cs = (ps, e, s')" and "feed_all feed s ds = (qs, f, s'')"
  shows "e = f \<and> s' = s'' \<and> (e = None \<longrightarrow> obs ps = obs qs)"
  using feed_all_concat [OF assms(1,3)] feed_all_concat [OF assms(1,4)] assms(2)
  by (auto split: option.splits)

end

end
