(* ===== verification/Wire_Protocol.thy ===== *)
theory Wire_Protocol
  imports Pty_Prelude
begin

text \<open>
  The wire protocol between a client and a session daemon
  (\<^verbatim>\<open>crates/pty-core/src/protocol.rs\<close>): message types, the frame
  \<open>[type: u8][length: u32 BE][payload]\<close>, the payload layouts, the streaming \<open>PacketReader\<close> and the
  blocking \<open>read_packet\<close>. JSON text is produced and read by \<open>serde_json\<close>, which is not part of
  the repository: the functions that use it take the serialiser or the parser as an argument.
\<close>

section \<open>Message types\<close>

datatype MessageType =
    Data | Attach | Detach | Resize | Exit | Screen | Peek | Status
  | AcceptedSocketOwnership | LifecycleCas | Geometry | ResetInputModes
  | ConnectionError | History | Unknown u8

definition from_u8 :: "u8 \<Rightarrow> MessageType" where
  "from_u8 b =
     (if b = 0 then Data
      else if b = 1 then Attach
      else if b = 2 then Detach
      else if b = 3 then Resize
      else if b = 4 then Exit
      else if b = 5 then Screen
      else if b = 6 then Peek
      else if b = 7 then Status
      else if b = 10 then Geometry
      else if b = 11 then ResetInputModes
      else if b = 12 then ConnectionError
      else if b = 13 then History
      else if b = 8 then AcceptedSocketOwnership
      else if b = 9 then LifecycleCas
      else Unknown b)"

fun as_u8 :: "MessageType \<Rightarrow> u8" where
  "as_u8 Data = 0"
| "as_u8 Attach = 1"
| "as_u8 Detach = 2"
| "as_u8 Resize = 3"
| "as_u8 Exit = 4"
| "as_u8 Screen = 5"
| "as_u8 Peek = 6"
| "as_u8 Status = 7"
| "as_u8 AcceptedSocketOwnership = 8"
| "as_u8 LifecycleCas = 9"
| "as_u8 Geometry = 10"
| "as_u8 ResetInputModes = 11"
| "as_u8 ConnectionError = 12"
| "as_u8 History = 13"
| "as_u8 (Unknown b) = b"

text \<open>
  A message type is canonical when \<open>from_u8\<close> can produce it. \<open>Unknown 0\<close> is a value of the Rust
  type, but no reader returns it.
\<close>

definition canonical_type :: "MessageType \<Rightarrow> bool" where
  "canonical_type t \<longleftrightarrow> (case t of Unknown b \<Rightarrow> b > 13 | _ \<Rightarrow> True)"

lemma as_u8_from_u8 [simp]: "as_u8 (from_u8 b) = b"
  by (simp add: from_u8_def)

lemma u8_le_13_cases:
  "(b :: u8) \<le> 13 \<Longrightarrow> b \<in> {0, 1, 2, 3, 4, 5, 6, 7, 8, 9, 10, 11, 12, 13}"
proof -
  assume "b \<le> 13"
  then have "unat b \<le> 13" by (simp add: word_le_nat_alt)
  then have "unat b \<in> set [0..<14]" by simp
  then have "word_of_nat (unat b) \<in> (word_of_nat ` set [0..<14] :: u8 set)" by (rule imageI)
  moreover have "(word_of_nat ` set [0..<14] :: u8 set) =
      {0, 1, 2, 3, 4, 5, 6, 7, 8, 9, 10, 11, 12, 13}"
    by (simp add: upt_rec numeral_eq_Suc [symmetric])
  ultimately show ?thesis by simp
qed

lemma from_u8_Unknown: "b > 13 \<Longrightarrow> from_u8 b = Unknown b"
  by (auto simp: from_u8_def)

lemma canonical_from_u8 [simp]: "canonical_type (from_u8 b)"
proof (cases "b \<le> 13")
  case True
  then show ?thesis
    by (drule_tac u8_le_13_cases) (auto simp: from_u8_def canonical_type_def)
next
  case False
  then show ?thesis by (simp add: from_u8_Unknown canonical_type_def)
qed

lemma from_u8_as_u8: "canonical_type t \<Longrightarrow> from_u8 (as_u8 t) = t"
  by (cases t) (auto simp: canonical_type_def from_u8_Unknown, simp_all add: from_u8_def)

interpretation type_byte: codec canonical_type as_u8 "\<lambda>b. Some (from_u8 b)"
  by unfold_locales (simp add: from_u8_as_u8)

section \<open>Frames\<close>

record Packet =
  ptype :: MessageType
  payload :: bytes

definition HEADER_SIZE :: nat where
  "HEADER_SIZE = 5"

definition MAX_PACKET_LENGTH :: nat where
  "MAX_PACKET_LENGTH = 32 * 1024 * 1024"

lemmas frame_consts [const_defs] = HEADER_SIZE_def MAX_PACKET_LENGTH_def

text \<open>The length is cut to 32 bits, as \<open>payload.len() as u32\<close> does.\<close>

definition encode_packet :: "MessageType \<Rightarrow> bytes \<Rightarrow> bytes" where
  "encode_packet t pl =
     [as_u8 t] @ u32_to_be_bytes (word_of_nat (length pl)) @ pl"

definition encode :: "Packet \<Rightarrow> bytes" where
  "encode p = encode_packet (ptype p) (payload p)"

section \<open>Payloads\<close>

definition encode_data :: "bytes \<Rightarrow> bytes" where
  "encode_data d = encode_packet Data d"

definition size_payload :: "u16 \<Rightarrow> u16 \<Rightarrow> bytes" where
  "size_payload rows cols = u16_to_be_bytes rows @ u16_to_be_bytes cols"

definition size_cell_payload :: "u16 \<Rightarrow> u16 \<Rightarrow> u16 \<Rightarrow> u16 \<Rightarrow> bytes" where
  "size_cell_payload rows cols cell_width cell_height =
     size_payload rows cols @ u16_to_be_bytes cell_width @ u16_to_be_bytes cell_height"

definition encode_attach :: "u16 \<Rightarrow> u16 \<Rightarrow> bytes" where
  "encode_attach rows cols = encode_packet Attach (size_payload rows cols)"

definition encode_attach_with_cell :: "u16 \<Rightarrow> u16 \<Rightarrow> u16 \<Rightarrow> u16 \<Rightarrow> bytes" where
  "encode_attach_with_cell rows cols cw ch = encode_packet Attach (size_cell_payload rows cols cw ch)"

text \<open>The identity an ATTACH may carry, and what the daemon keeps of an attached client.\<close>

record AttachIdentity =
  ai_pid :: u32
  ai_tty :: "rstr option"

record AttachedClient =
  pid :: "u32 option"
  tty :: "rstr option"
  attached_at :: rstr

definition encode_attach_with_identity_and_cell ::
  "(AttachIdentity \<Rightarrow> bytes) \<Rightarrow> u16 \<Rightarrow> u16 \<Rightarrow> u16 \<Rightarrow> u16 \<Rightarrow> u32 \<Rightarrow> rstr option \<Rightarrow> bytes" where
  "encode_attach_with_identity_and_cell to_json rows cols cw ch p t =
     encode_packet Attach
       (size_cell_payload rows cols cw ch @ to_json \<lparr>ai_pid = p, ai_tty = t\<rparr>)"

definition encode_attach_with_identity ::
  "(AttachIdentity \<Rightarrow> bytes) \<Rightarrow> u16 \<Rightarrow> u16 \<Rightarrow> u32 \<Rightarrow> rstr option \<Rightarrow> bytes" where
  "encode_attach_with_identity to_json rows cols p t =
     encode_attach_with_identity_and_cell to_json rows cols 0 0 p t"

text \<open>\<open>payload.get(8..)\<close> is \<open>None\<close> on fewer than eight bytes and an empty suffix on exactly eight.\<close>

definition decode_attach_identity ::
  "(bytes \<Rightarrow> AttachIdentity option) \<Rightarrow> bytes \<Rightarrow> u32 option \<times> rstr option" where
  "decode_attach_identity from_json pl =
     (if length pl < 8 then (None, None)
      else (case from_json (drop 8 pl) of
              Some identity \<Rightarrow> (Some (ai_pid identity), ai_tty identity)
            | None \<Rightarrow> (None, None)))"

definition encode_detach :: bytes where
  "encode_detach = encode_packet Detach []"

datatype ConnectionErrorReason = ClientTooSlow

definition encode_connection_error :: "ConnectionErrorReason \<Rightarrow> bytes" where
  "encode_connection_error reason =
     [as_u8 ConnectionError, 0, 0, 0, 1, (case reason of ClientTooSlow \<Rightarrow> 0)]"

definition decode_connection_error :: "bytes \<Rightarrow> ConnectionErrorReason option" where
  "decode_connection_error pl = (if pl = [0] then Some ClientTooSlow else None)"

definition encode_resize :: "u16 \<Rightarrow> u16 \<Rightarrow> bytes" where
  "encode_resize rows cols = encode_packet Resize (size_payload rows cols)"

definition encode_resize_with_cell :: "u16 \<Rightarrow> u16 \<Rightarrow> u16 \<Rightarrow> u16 \<Rightarrow> bytes" where
  "encode_resize_with_cell rows cols cw ch = encode_packet Resize (size_cell_payload rows cols cw ch)"

definition encode_geometry :: "u16 \<Rightarrow> u16 \<Rightarrow> bytes" where
  "encode_geometry rows cols = encode_packet Geometry (size_payload rows cols)"

definition encode_exit :: "i32 \<Rightarrow> bytes" where
  "encode_exit code = encode_packet Exit (u32_to_be_bytes code)"

definition encode_peek :: "bool \<Rightarrow> bool \<Rightarrow> bytes" where
  "encode_peek plain full =
     encode_packet Peek [(of_bool plain) OR push_bit 1 (of_bool full)]"

definition decode_peek :: "bytes \<Rightarrow> bool \<times> bool" where
  "decode_peek pl =
     (let flags = (case pl of [] \<Rightarrow> 0 | b # _ \<Rightarrow> b) in (flags AND 1 \<noteq> 0, flags AND 2 \<noteq> 0))"

definition encode_screen :: "bytes \<Rightarrow> bytes" where
  "encode_screen d = encode_packet Screen d"

definition encode_status :: bytes where
  "encode_status = encode_packet Status []"

definition encode_status_clients :: bytes where
  "encode_status_clients = encode_packet Status (bstr ''clients'')"

definition encode_status_response :: "bytes \<Rightarrow> bytes" where
  "encode_status_response json = encode_packet Status json"

definition decode_size :: "bytes \<Rightarrow> u16 \<times> u16" where
  "decode_size pl =
     (if length pl < 4 then (24, 80)
      else (u16_from_be_bytes (pl ! 0) (pl ! 1), u16_from_be_bytes (pl ! 2) (pl ! 3)))"

definition decode_cell :: "bytes \<Rightarrow> (u16 \<times> u16) option" where
  "decode_cell pl =
     (if length pl < 8 then None
      else let width = u16_from_be_bytes (pl ! 4) (pl ! 5);
               height = u16_from_be_bytes (pl ! 6) (pl ! 7)
           in if width > 0 \<and> height > 0 then Some (width, height) else None)"

definition decode_geometry :: "bytes \<Rightarrow> u16 \<times> u16" where
  "decode_geometry pl = decode_size pl"

definition decode_exit :: "bytes \<Rightarrow> i32" where
  "decode_exit pl =
     (if length pl < 4 then -1
      else u32_from_be_bytes (pl ! 0) (pl ! 1) (pl ! 2) (pl ! 3))"

section \<open>Readiness control requests\<close>

record TcpConnectionTuple =
  local_address :: rstr
  local_port :: u16
  remote_address :: rstr
  remote_port :: u16

record AcceptedSocketOwnershipRequest =
  aso_expected_generation :: rstr
  connection :: TcpConnectionTuple

definition validate_accepted_socket :: "AcceptedSocketOwnershipRequest \<Rightarrow> bool" where
  "validate_accepted_socket r \<longleftrightarrow>
     aso_expected_generation r \<noteq> []
     \<and> local_address (connection r) \<noteq> []
     \<and> local_port (connection r) > 0
     \<and> remote_address (connection r) \<noteq> []
     \<and> remote_port (connection r) > 0"

record LifecycleCompareAndSetRequest =
  cas_expected_generation :: rstr
  cas_tag :: rstr
  cas_expected_value :: rstr
  cas_value :: rstr

definition validate_lifecycle_cas :: "LifecycleCompareAndSetRequest \<Rightarrow> bool" where
  "validate_lifecycle_cas r \<longleftrightarrow> cas_expected_generation r \<noteq> [] \<and> cas_tag r \<noteq> []"

text \<open>\<open>encode_json\<close> falls back to an empty object when the serialiser fails.\<close>

definition encode_json :: "('a \<Rightarrow> bytes option) \<Rightarrow> MessageType \<Rightarrow> 'a \<Rightarrow> bytes" where
  "encode_json to_vec t v =
     encode_packet t (case to_vec v of Some b \<Rightarrow> b | None \<Rightarrow> bstr ''{}'')"

definition decode_accepted_socket_ownership_request ::
  "(bytes \<Rightarrow> AcceptedSocketOwnershipRequest option) \<Rightarrow> bytes
     \<Rightarrow> AcceptedSocketOwnershipRequest option" where
  "decode_accepted_socket_ownership_request from_slice pl =
     (case from_slice pl of
        None \<Rightarrow> None
      | Some r \<Rightarrow> if validate_accepted_socket r then Some r else None)"

definition decode_lifecycle_compare_and_set_request ::
  "(bytes \<Rightarrow> LifecycleCompareAndSetRequest option) \<Rightarrow> bytes
     \<Rightarrow> LifecycleCompareAndSetRequest option" where
  "decode_lifecycle_compare_and_set_request from_slice pl =
     (case from_slice pl of
        None \<Rightarrow> None
      | Some r \<Rightarrow> if validate_lifecycle_cas r then Some r else None)"

section \<open>The streaming reader\<close>

datatype wire_error = PacketTooLarge nat | UnexpectedEof | OtherIo nat

text \<open>
  \<open>PacketReader\<close> is its buffer. \<open>feed_loop\<close> is the loop of \<open>feed\<close>: it returns the packets or the
  error, and the buffer that stays behind. Each turn of the loop drops at least the header.
\<close>

record PacketReader =
  buffer :: bytes

definition new_reader :: PacketReader where
  "new_reader = \<lparr>buffer = []\<rparr>"

definition declared_length :: "bytes \<Rightarrow> nat" where
  "declared_length b = unat (u32_from_be_bytes (b ! 1) (b ! 2) (b ! 3) (b ! 4))"

definition taken_packet :: "bytes \<Rightarrow> Packet" where
  "taken_packet b =
     \<lparr>ptype = from_u8 (b ! 0), payload = take (declared_length b) (drop HEADER_SIZE b)\<rparr>"

function feed_loop :: "bytes \<Rightarrow> Packet list \<Rightarrow> (wire_error + Packet list) \<times> bytes" where
  "feed_loop buf packets =
     (if length buf < HEADER_SIZE then (Inr packets, buf)
      else if declared_length buf > MAX_PACKET_LENGTH
        then (Inl (PacketTooLarge (declared_length buf)), [])
      else if length buf < HEADER_SIZE + declared_length buf then (Inr packets, buf)
      else feed_loop (drop (HEADER_SIZE + declared_length buf) buf)
             (packets @ [taken_packet buf]))"
  by pat_completeness auto
termination
  by (relation "measure (\<lambda>(buf, packets). length buf)") (auto simp: HEADER_SIZE_def)

declare feed_loop.simps [simp del]

definition feed :: "PacketReader \<Rightarrow> bytes \<Rightarrow> (wire_error + Packet list) \<times> PacketReader" where
  "feed r data =
     (case feed_loop (buffer r @ data) [] of (res, buf) \<Rightarrow> (res, r\<lparr>buffer := buf\<rparr>))"

section \<open>The blocking reader\<close>

text \<open>
  A blocking \<open>Read\<close>: the bytes it will still deliver, and how it ends after them: an end of file,
  or an I/O error. \<open>read_exact\<close> reports \<open>UnexpectedEof\<close> when the stream ends early.
\<close>

record byte_source =
  available :: bytes
  failure :: "wire_error option"

definition read_exact :: "byte_source \<Rightarrow> nat \<Rightarrow> (wire_error + bytes) \<times> byte_source" where
  "read_exact src n =
     (if n \<le> length (available src)
      then (Inr (take n (available src)), src\<lparr>available := drop n (available src)\<rparr>)
      else (Inl (case failure src of None \<Rightarrow> UnexpectedEof | Some e \<Rightarrow> e),
            src\<lparr>available := []\<rparr>))"

definition read_packet :: "byte_source \<Rightarrow> (wire_error + Packet option) \<times> byte_source" where
  "read_packet src =
     (case read_exact src HEADER_SIZE of
        (Inl e, src') \<Rightarrow> (if e = UnexpectedEof then Inr None else Inl e, src')
      | (Inr header, src') \<Rightarrow>
          (if declared_length header > MAX_PACKET_LENGTH
           then (Inl (PacketTooLarge (declared_length header)), src')
           else (case read_exact src' (declared_length header) of
                   (Inl e, src'') \<Rightarrow> (Inl e, src'')
                 | (Inr body, src'') \<Rightarrow>
                     (Inr (Some \<lparr>ptype = from_u8 (header ! 0), payload = body\<rparr>), src''))))"

section \<open>Facts about the reader\<close>

definition valid_packet :: "Packet \<Rightarrow> bool" where
  "valid_packet p \<longleftrightarrow> canonical_type (ptype p) \<and> length (payload p) \<le> MAX_PACKET_LENGTH"

lemma length_encode [simp]: "length (encode p) = HEADER_SIZE + length (payload p)"
  by (simp add: encode_def encode_packet_def HEADER_SIZE_def)

lemma nth_u32_to_be_bytes:
  "u32_from_be_bytes (u32_to_be_bytes w ! 0) (u32_to_be_bytes w ! 1)
     (u32_to_be_bytes w ! 2) (u32_to_be_bytes w ! 3) = w"
  by (simp add: u32_to_be_bytes_def)

lemma declared_length_append:
  "HEADER_SIZE \<le> length xs \<Longrightarrow> declared_length (xs @ ys) = declared_length xs"
  by (simp add: declared_length_def HEADER_SIZE_def nth_append)

lemma declared_length_encode:
  "valid_packet p \<Longrightarrow> declared_length (encode p @ rest) = length (payload p)"
  by (simp add: declared_length_def encode_def encode_packet_def u32_to_be_bytes_def
      valid_packet_def MAX_PACKET_LENGTH_def unat_of_nat)

text \<open>The three ways one turn of the loop can go.\<close>

lemma feed_loop_waits:
  "length buf < HEADER_SIZE \<or>
     declared_length buf \<le> MAX_PACKET_LENGTH \<and> length buf < HEADER_SIZE + declared_length buf \<Longrightarrow>
   feed_loop buf acc = (Inr acc, buf)"
  by (subst feed_loop.simps) auto

lemma feed_loop_refuses:
  "HEADER_SIZE \<le> length buf \<Longrightarrow> MAX_PACKET_LENGTH < declared_length buf \<Longrightarrow>
   feed_loop buf acc = (Inl (PacketTooLarge (declared_length buf)), [])"
  by (subst feed_loop.simps) auto

lemma feed_loop_takes:
  "HEADER_SIZE + declared_length buf \<le> length buf \<Longrightarrow> declared_length buf \<le> MAX_PACKET_LENGTH \<Longrightarrow>
   feed_loop buf acc =
     feed_loop (drop (HEADER_SIZE + declared_length buf) buf) (acc @ [taken_packet buf])"
  by (subst feed_loop.simps) auto

lemma feed_loop_induct [case_names waits refuses takes]:
  assumes waits: "\<And>buf acc. length buf < HEADER_SIZE \<or> declared_length buf \<le> MAX_PACKET_LENGTH
        \<and> length buf < HEADER_SIZE + declared_length buf \<Longrightarrow> P buf acc"
    and refuses: "\<And>buf acc. HEADER_SIZE \<le> length buf \<Longrightarrow> MAX_PACKET_LENGTH < declared_length buf
        \<Longrightarrow> P buf acc"
    and takes: "\<And>buf acc. HEADER_SIZE + declared_length buf \<le> length buf \<Longrightarrow>
        declared_length buf \<le> MAX_PACKET_LENGTH \<Longrightarrow>
        (\<And>acc. P (drop (HEADER_SIZE + declared_length buf) buf) acc) \<Longrightarrow> P buf acc"
  shows "P buf acc"
proof (induction "length buf" arbitrary: buf acc rule: less_induct)
  case less
  have "\<And>acc. P (drop (HEADER_SIZE + declared_length buf) buf) acc"
    if "HEADER_SIZE + declared_length buf \<le> length buf"
    using that by (intro less) (simp add: HEADER_SIZE_def)
  then show ?case
    using waits [of buf] refuses [of buf] takes [of buf] by (meson not_le)
qed

lemma feed_loop_encode:
  assumes "valid_packet p"
  shows "feed_loop (encode p @ rest) acc = feed_loop rest (acc @ [p])"
proof -
  note dl = declared_length_encode [OF assms, of rest]
  have "take (length (payload p)) (drop HEADER_SIZE (encode p @ rest)) = payload p"
    by (simp add: encode_def encode_packet_def HEADER_SIZE_def u32_to_be_bytes_def)
  moreover have "from_u8 ((encode p @ rest) ! 0) = ptype p"
    using assms by (simp add: encode_def encode_packet_def valid_packet_def from_u8_as_u8)
  ultimately have "taken_packet (encode p @ rest) = p"
    by (simp add: taken_packet_def dl)
  with feed_loop_takes [of "encode p @ rest" acc] assms show ?thesis
    by (simp add: dl valid_packet_def)
qed

lemma feed_loop_encode_list:
  "list_all valid_packet ps \<Longrightarrow>
     feed_loop (concat (map encode ps) @ rest) acc = feed_loop rest (acc @ ps)"
  by (induction ps arbitrary: acc) (simp_all add: feed_loop_encode)

lemma feed_loop_Nil [simp]: "feed_loop [] acc = (Inr acc, [])"
  by (simp add: feed_loop_waits HEADER_SIZE_def)

text \<open>The loop only appends to the packets it already has.\<close>

lemma feed_loop_acc:
  "feed_loop buf acc =
     (case feed_loop buf [] of
        (Inl e, b) \<Rightarrow> (Inl e, b)
      | (Inr ps, b) \<Rightarrow> (Inr (acc @ ps), b))"
proof (induction buf acc rule: feed_loop_induct)
  case (takes buf acc)
  from takes(3) [of "acc @ [taken_packet buf]"] takes(3) [of "[taken_packet buf]"]
  show ?case
    by (simp add: feed_loop_takes [OF takes(1,2)] split: prod.splits sum.splits)
qed (simp_all add: feed_loop_waits feed_loop_refuses)

lemma feed_loop_append:
  "(case feed_loop xs acc of
      (Inl e, b) \<Rightarrow> feed_loop (xs @ ys) acc = (Inl e, b)
    | (Inr ps, b) \<Rightarrow> feed_loop (xs @ ys) acc = feed_loop (b @ ys) ps)"
proof (induction xs acc rule: feed_loop_induct)
  case (waits buf acc)
  then show ?case by (simp add: feed_loop_waits)
next
  case (refuses buf acc)
  then show ?case
    by (simp add: feed_loop_refuses [of buf] feed_loop_refuses [of "buf @ ys"]
        declared_length_append)
next
  case (takes buf acc)
  then have h: "HEADER_SIZE \<le> length buf" and ne: "buf \<noteq> []" by (auto simp: HEADER_SIZE_def)
  then have "taken_packet (buf @ ys) = taken_packet buf"
    using takes(1) by (simp add: taken_packet_def declared_length_append nth_append)
  with takes(1,2) h have "feed_loop (buf @ ys) acc =
      feed_loop (drop (HEADER_SIZE + declared_length buf) buf @ ys) (acc @ [taken_packet buf])"
    by (simp add: feed_loop_takes [of "buf @ ys"] declared_length_append)
  with takes(3) [of "acc @ [taken_packet buf]"] show ?case
    by (simp add: feed_loop_takes [OF takes(1,2)] split: prod.splits sum.splits)
qed

text \<open>What the loop leaves behind holds no complete packet.\<close>

lemma feed_loop_residue:
  "feed_loop buf acc = (Inr ps, b) \<Longrightarrow> feed_loop b [] = (Inr [], b)"
proof (induction buf acc rule: feed_loop_induct)
  case (waits buf acc)
  then show ?case using feed_loop_waits [of buf] by simp
qed (simp_all add: feed_loop_refuses feed_loop_takes)

lemma feed_loop_error:
  "feed_loop buf acc = (Inl e, b) \<Longrightarrow> b = [] \<and> (\<exists>n > MAX_PACKET_LENGTH. e = PacketTooLarge n)"
  by (induction buf acc rule: feed_loop_induct)
    (auto simp: feed_loop_waits feed_loop_refuses feed_loop_takes)

lemma feed_loop_residue_bound:
  "feed_loop buf acc = (Inr ps, b) \<Longrightarrow> length b < HEADER_SIZE + MAX_PACKET_LENGTH"
proof (induction buf acc rule: feed_loop_induct)
  case (waits buf acc)
  then show ?case using feed_loop_waits [of buf acc] by auto
qed (simp_all add: feed_loop_refuses feed_loop_takes)

lemma five_Cons:
  "HEADER_SIZE \<le> length b \<Longrightarrow> b = [b ! 0, b ! 1, b ! 2, b ! 3, b ! 4] @ drop HEADER_SIZE b"
  by (auto simp: HEADER_SIZE_def Suc_le_length_iff numeral_eq_Suc)

text \<open>A packet taken off the buffer is, byte for byte, the frame it came from.\<close>

lemma encode_taken_packet:
  assumes "HEADER_SIZE + declared_length b \<le> length b"
  shows "encode (taken_packet b) = take (HEADER_SIZE + declared_length b) b"
proof -
  have len: "length (take (declared_length b) (drop HEADER_SIZE b)) = declared_length b"
    using assms by simp
  have "(word_of_nat (declared_length b) :: u32) = u32_from_be_bytes (b ! 1) (b ! 2) (b ! 3) (b ! 4)"
    by (simp add: declared_length_def)
  then have "encode (taken_packet b)
      = [b ! 0, b ! 1, b ! 2, b ! 3, b ! 4] @ take (declared_length b) (drop HEADER_SIZE b)"
    using len by (simp add: encode_def encode_packet_def taken_packet_def)
  moreover have "take HEADER_SIZE b = [b ! 0, b ! 1, b ! 2, b ! 3, b ! 4]"
    using five_Cons [of b] assms
    by (metis (no_types, opaque_lifting) add_leD1 append_eq_conv_conj append_take_drop_id
        append_same_eq)
  ultimately show ?thesis by (simp add: take_add)
qed

lemma feed_loop_lossless:
  "feed_loop buf acc = (Inr ps, b) \<Longrightarrow>
     concat (map encode acc) @ buf = concat (map encode ps) @ b"
proof (induction buf acc rule: feed_loop_induct)
  case (takes buf acc)
  from takes(3) [of "acc @ [taken_packet buf]"] takes(4) show ?case
    by (simp add: feed_loop_takes [OF takes(1,2)] encode_taken_packet [OF takes(1)])
qed (auto simp: feed_loop_waits feed_loop_refuses)

lemma feed_loop_valid:
  "feed_loop buf acc = (Inr ps, b) \<Longrightarrow> list_all valid_packet acc \<Longrightarrow> list_all valid_packet ps"
  by (induction buf acc rule: feed_loop_induct)
    (auto simp: feed_loop_waits feed_loop_refuses feed_loop_takes valid_packet_def taken_packet_def)

text \<open>The reader is a stream decoder in the sense of \<open>chunked_stream\<close>; its output is observed as is.\<close>

definition reader_invar :: "PacketReader \<Rightarrow> bool" where
  "reader_invar r \<longleftrightarrow> feed_loop (buffer r) [] = (Inr [], buffer r)"

interpretation reader: chunked_stream feed reader_invar "\<lambda>ps. ps"
proof unfold_locales
  fix r assume "reader_invar r"
  then show "feed r [] = (Inr [], r)" by (simp add: feed_def reader_invar_def)
next
  fix r xs res r' assume "feed r xs = (res, r')"
  then show "reader_invar r'"
    by (cases res)
      (auto simp: feed_def reader_invar_def dest: feed_loop_residue feed_loop_error split: prod.splits)
next
  fix r xs ps r' ys qs r''
  assume "feed r xs = (Inr ps, r')" "feed r' ys = (Inr qs, r'')"
  then show "\<exists>rs. feed r (xs @ ys) = (Inr rs, r'') \<and> rs = ps @ qs"
    using feed_loop_append [where xs = "buffer r @ xs" and acc = "[]" and ys = ys] feed_loop_acc [of "buffer r' @ ys" ps]
    by (auto simp: feed_def split: prod.splits)
next
  fix r xs ps r' ys e r''
  assume "feed r xs = (Inr ps, r')" "feed r' ys = (Inl e, r'')"
  then show "feed r (xs @ ys) = (Inl e, r'')"
    using feed_loop_append [where xs = "buffer r @ xs" and acc = "[]" and ys = ys] feed_loop_acc [of "buffer r' @ ys" ps]
    by (auto simp: feed_def split: prod.splits)
next
  fix r xs e r' ys
  assume "feed r xs = (Inl e, r')"
  then show "feed r (xs @ ys) = (Inl e, r')"
    using feed_loop_append [where xs = "buffer r @ xs" and acc = "[]" and ys = ys]
    by (auto simp: feed_def split: prod.splits)
qed simp_all

lemma reader_invar_new [simp]: "reader_invar new_reader"
  by (simp add: reader_invar_def new_reader_def)

section \<open>Properties of the wire protocol\<close>

text \<open>
  C1. Any list of packets with known or preserved types and payloads within the limit, encoded
  back to back and delivered to a fresh reader in pieces cut anywhere, comes out as exactly these
  packets, in order, with no error and an empty buffer.
\<close>

theorem packets_survive_any_chunking:
  assumes "list_all valid_packet ps" and "concat cs = concat (map encode ps)"
  shows "feed_all feed new_reader cs = (ps, None, new_reader)"
proof -
  have "feed new_reader (concat cs) = (Inr ps, new_reader)"
    using feed_loop_encode_list [OF assms(1), of "[]" "[]"] assms(2)
    by (simp add: feed_def new_reader_def)
  moreover obtain qs e r where "feed_all feed new_reader cs = (qs, e, r)"
    by (cases "feed_all feed new_reader cs")
  ultimately show ?thesis
    using reader.feed_all_concat [OF reader_invar_new] by (fastforce split: option.splits)
qed

theorem packets_survive_any_chunking_witness:
  "feed_all feed new_reader [[0, 0, 0], [0, 2, 104], [105, 2, 0, 0], [0, 0]] =
     ([\<lparr>ptype = Data, payload = [104, 105]\<rparr>, \<lparr>ptype = Detach, payload = []\<rparr>], None, new_reader)"
  by (rule packets_survive_any_chunking)
    (simp_all add: valid_packet_def canonical_type_def MAX_PACKET_LENGTH_def encode_def
      encode_packet_def u32_to_be_bytes_def)

text \<open>
  Whatever bytes arrive, a feed that succeeds loses and invents nothing: the packets it
  returns re-encode to the bytes consumed, the rest stays in the buffer, every packet is within
  the length limit, and the buffer never reaches the size of one largest frame.
\<close>

theorem feed_lossless:
  assumes "feed r data = (Inr ps, r')"
  shows "concat (map encode ps) @ buffer r' = buffer r @ data
    \<and> list_all valid_packet ps
    \<and> length (buffer r') < HEADER_SIZE + MAX_PACKET_LENGTH"
  using assms feed_loop_lossless [of "buffer r @ data" "[]"] feed_loop_valid [of "buffer r @ data" "[]"]
    feed_loop_residue_bound [of "buffer r @ data" "[]"]
  by (auto simp: feed_def split: prod.splits)

theorem feed_lossless_witness:
  "concat (map encode [\<lparr>ptype = Data, payload = [7]\<rparr>]) @ [2, 0]
     = [0, 0, 0, 0] @ [1, 7, 2, 0]"
proof -
  have "feed \<lparr>buffer = [0, 0, 0, 0]\<rparr> [1, 7, 2, 0] =
      (Inr [\<lparr>ptype = Data, payload = [7]\<rparr>], \<lparr>buffer = [2, 0]\<rparr>)"
    by (simp add: feed_def feed_loop.simps taken_packet_def declared_length_def
        u32_from_be_bytes_def from_u8_def frame_consts)
  from feed_lossless [OF this] show ?thesis by simp
qed

text \<open>
  A header that declares more than the limit ends the stream whatever its surroundings: after
  any packets before it, any bytes after it and any cutting of the stream, the reader reports the
  declared length and empties its buffer, so nothing behind the bad header is ever decoded.
\<close>

theorem oversized_header_ends_the_stream:
  assumes "list_all valid_packet ps" and "length header = HEADER_SIZE"
    and "declared_length header > MAX_PACKET_LENGTH"
    and "concat cs = concat (map encode ps) @ header @ rest"
  shows "\<exists>qs. feed_all feed new_reader cs =
           (qs, Some (PacketTooLarge (declared_length header)), new_reader)"
proof -
  have "feed_loop (header @ rest) ps = (Inl (PacketTooLarge (declared_length header)), [])"
    using assms(2,3) by (simp add: feed_loop_refuses declared_length_append)
  then have "feed new_reader (concat cs) =
      (Inl (PacketTooLarge (declared_length header)), new_reader)"
    using feed_loop_encode_list [OF assms(1), of "header @ rest" "[]"] assms(4)
    by (simp add: feed_def new_reader_def)
  moreover obtain qs e r where "feed_all feed new_reader cs = (qs, e, r)"
    by (cases "feed_all feed new_reader cs")
  ultimately show ?thesis
    using reader.feed_all_concat [OF reader_invar_new] by (fastforce split: option.splits)
qed

theorem oversized_header_ends_the_stream_witness:
  "\<exists>qs. feed_all feed new_reader [[2, 0, 0], [0, 0, 0, 255], [255, 255, 255, 1, 1]] =
           (qs, Some (PacketTooLarge (declared_length [0, 255, 255, 255, 255])), new_reader)"
  by (rule oversized_header_ends_the_stream
        [where ps = "[\<lparr>ptype = Detach, payload = []\<rparr>]" and rest = "[1, 1]"])
    (simp_all add: valid_packet_def canonical_type_def frame_consts encode_def
      encode_packet_def u32_to_be_bytes_def declared_length_def u32_from_be_bytes_def)

text \<open>
  The blocking reader and the streaming reader agree on framing: when the stream reader finds
  a first packet in the bytes a source holds, \<open>read_packet\<close> returns that packet, and the rest of the
  stream decodes to the rest of the packets.
\<close>

theorem read_packet_agrees_with_feed:
  assumes "feed_loop (available src) [] = (Inr (p # ps), b)"
  shows "\<exists>src'. read_packet src = (Inr (Some p), src')
           \<and> feed_loop (available src') [] = (Inr ps, b) \<and> failure src' = failure src"
proof -
  define bs where "bs = available src"
  have t: "HEADER_SIZE + declared_length bs \<le> length bs" "declared_length bs \<le> MAX_PACKET_LENGTH"
    using assms feed_loop_waits [of bs "[]"] feed_loop_refuses [of bs "[]"] not_le
    by (fastforce simp: bs_def)+
  have dl: "declared_length (take HEADER_SIZE bs) = declared_length bs"
    using t(1) by (simp add: declared_length_def HEADER_SIZE_def)
  have rd: "read_packet src = (Inr (Some (taken_packet bs)),
      src\<lparr>available := drop (HEADER_SIZE + declared_length bs) bs\<rparr>)"
    using t dl by (simp add: read_packet_def read_exact_def bs_def taken_packet_def HEADER_SIZE_def
        add.commute)
  have "feed_loop (drop (HEADER_SIZE + declared_length bs) bs) [taken_packet bs] = (Inr (p # ps), b)"
    using assms feed_loop_takes [OF t, of "[]"] by (simp add: bs_def)
  then have "p = taken_packet bs"
    and "feed_loop (drop (HEADER_SIZE + declared_length bs) bs) [] = (Inr ps, b)"
    using feed_loop_acc [of "drop (HEADER_SIZE + declared_length bs) bs" "[taken_packet bs]"]
    by (auto split: prod.splits sum.splits)
  with rd show ?thesis by simp
qed

theorem read_packet_agrees_with_feed_witness:
  "\<exists>src'. read_packet \<lparr>available = [0, 0, 0, 0, 1, 9, 4], failure = None\<rparr> =
       (Inr (Some \<lparr>ptype = Data, payload = [9]\<rparr>), src')
     \<and> feed_loop (available src') [] = (Inr [], [4]) \<and> failure src' = None"
proof -
  have "feed_loop (available \<lparr>available = [0, 0, 0, 0, 1, 9, 4], failure = None\<rparr>) [] =
      (Inr [\<lparr>ptype = Data, payload = [9]\<rparr>], [4])"
    by (simp add: feed_loop.simps taken_packet_def declared_length_def u32_from_be_bytes_def
        from_u8_def frame_consts)
  from read_packet_agrees_with_feed [OF this] show ?thesis by simp
qed

text \<open>
  The size payload carries an optional suffix: whatever an ATTACH or RESIZE appends after
  rows and columns, every reader of the size takes the same rows and columns; the cell extent is
  read back exactly when both of its sides are positive, and is absent from the four-byte form.
\<close>

theorem size_payload_suffix_compatible:
  "decode_size (size_payload rows cols @ suffix) = (rows, cols)
   \<and> decode_size (size_cell_payload rows cols cw ch @ suffix) = (rows, cols)
   \<and> decode_cell (size_payload rows cols) = None
   \<and> decode_cell (size_cell_payload rows cols cw ch @ suffix) =
       (if cw > 0 \<and> ch > 0 then Some (cw, ch) else None)"
  by (simp add: decode_size_def decode_cell_def size_payload_def size_cell_payload_def
      u16_to_be_bytes_def)

text \<open>
  A client identity written by ATTACH is read back by the daemon, given a JSON parser that
  inverts the serialiser, and the legacy four-byte and eight-byte payloads carry no identity,
  given that the parser refuses an empty text.
\<close>

theorem attach_identity_roundtrip:
  assumes "\<And>i. from_json (to_json i) = Some i" and "from_json [] = None"
  shows "\<exists>pl. encode_attach_with_identity_and_cell to_json rows cols cw ch p t = encode_packet Attach pl
       \<and> decode_attach_identity from_json pl = (Some p, t)
       \<and> decode_size pl = (rows, cols)
       \<and> decode_attach_identity from_json (size_payload rows cols) = (None, None)
       \<and> decode_attach_identity from_json (size_cell_payload rows cols cw ch) = (None, None)"
  using assms
  by (intro exI [of _ "size_cell_payload rows cols cw ch @ to_json \<lparr>ai_pid = p, ai_tty = t\<rparr>"])
    (simp add: encode_attach_with_identity_and_cell_def decode_attach_identity_def decode_size_def
      size_payload_def size_cell_payload_def u16_to_be_bytes_def)

text \<open>A text format for identities that stands in for JSON: the hypotheses of C6 hold for it.\<close>

fun sample_read_scalars :: "nat \<Rightarrow> bytes \<Rightarrow> rstr" where
  "sample_read_scalars k [] = []"
| "sample_read_scalars k (b # bs) =
     (if b = 0 then k # sample_read_scalars 0 bs else sample_read_scalars (Suc k) bs)"

definition sample_to_json :: "AttachIdentity \<Rightarrow> bytes" where
  "sample_to_json i = u32_to_be_bytes (ai_pid i) @
     (case ai_tty i of
        None \<Rightarrow> []
      | Some s \<Rightarrow> 1 # concat (map (\<lambda>n. replicate n 1 @ [0]) s))"

definition sample_from_json :: "bytes \<Rightarrow> AttachIdentity option" where
  "sample_from_json b =
     (if length b < 4 then None
      else Some \<lparr>ai_pid = u32_from_be_bytes (b ! 0) (b ! 1) (b ! 2) (b ! 3),
                 ai_tty = (case drop 4 b of [] \<Rightarrow> None | _ # s \<Rightarrow> Some (sample_read_scalars 0 s))\<rparr>)"

lemma sample_read_one:
  "sample_read_scalars k (replicate n 1 @ 0 # bs) = (k + n) # sample_read_scalars 0 bs"
  by (induction n arbitrary: k) simp_all

lemma sample_read_all: "sample_read_scalars 0 (concat (map (\<lambda>n. replicate n 1 @ [0]) s)) = s"
  by (induction s) (simp_all add: sample_read_one)

lemma sample_json_inverse: "sample_from_json (sample_to_json i) = Some i"
  by (cases i)
    (simp add: sample_from_json_def sample_to_json_def u32_to_be_bytes_def sample_read_all
      split: option.splits)

theorem attach_identity_roundtrip_witness:
  "\<exists>pl. encode_attach_with_identity_and_cell sample_to_json 24 80 9 18 4242 (Some [112, 116, 115])
         = encode_packet Attach pl
       \<and> decode_attach_identity sample_from_json pl = (Some 4242, Some [112, 116, 115])
       \<and> decode_size pl = (24, 80)
       \<and> decode_attach_identity sample_from_json (size_payload 24 80) = (None, None)
       \<and> decode_attach_identity sample_from_json (size_cell_payload 24 80 9 18) = (None, None)"
  by (rule attach_identity_roundtrip, rule sample_json_inverse, simp add: sample_from_json_def)

text \<open>
  Exit codes, peek flags and the rejection reason survive the wire, and a payload too short
  for its field reads as the documented default.
\<close>

theorem control_payload_roundtrips:
  "decode_exit (u32_to_be_bytes code @ rest) = code
   \<and> (\<exists>pl. encode_peek plain full = encode_packet Peek pl \<and> decode_peek pl = (plain, full))
   \<and> decode_peek [] = (False, False)
   \<and> (\<exists>pl. encode_connection_error reason = encode_packet ConnectionError pl
          \<and> decode_connection_error pl = Some reason)
   \<and> (length short < 4 \<longrightarrow> decode_exit short = -1 \<and> decode_size short = (24, 80))"
proof -
  have "encode_connection_error reason = encode_packet ConnectionError [0]"
    by (cases reason) (simp add: encode_connection_error_def encode_packet_def u32_to_be_bytes_def)
  moreover have "decode_connection_error [0] = Some reason"
    by (cases reason) (simp add: decode_connection_error_def)
  moreover have "decode_peek [of_bool plain OR push_bit 1 (of_bool full)] = (plain, full)"
    by (cases plain; cases full) (simp_all add: decode_peek_def)
  ultimately show ?thesis
    by (auto simp: decode_exit_def decode_size_def u32_to_be_bytes_def encode_peek_def
        decode_peek_def)
qed

theorem control_payload_roundtrips_witness:
  "length ([1, 2] :: bytes) < 4 \<and> decode_exit [1, 2] = -1 \<and> decode_size [1, 2] = (24, 80)"
  using control_payload_roundtrips [where short = "[1, 2]"] by auto

end
