(* ===== verification/Output_Scanner.thy ===== *)
theory Output_Scanner
  imports Pty_Prelude
begin

text \<open>
  The streaming tokenizer over the child's output
  (\<^verbatim>\<open>crates/pty-terminal/src/strip.rs\<close>): CSI and OSC sequences are recognised across reads,
  terminal queries are removed from what clients receive, everything else passes through. The
  theory models the whole file: the query predicates of \<open>Csi\<close> and \<open>Osc\<close>, the state machine of
  \<open>OutputScanner::feed\<close>, \<open>parse_csi\<close>, \<open>make_osc\<close> and \<open>strip_terminal_queries\<close>. The typed reading of
  an OSC 5522 request is in \<open>Enhanced_Paste\<close>.
\<close>

definition MAX_CSI :: nat where
  "MAX_CSI = 64"

definition MAX_OSC :: nat where
  "MAX_OSC = 4096"

text \<open>The metadata limit of enhanced paste (\<^verbatim>\<open>crates/pty-terminal/src/enhanced_paste.rs\<close>).\<close>

definition MAX_METADATA :: nat where
  "MAX_METADATA = 64 * 1024"

lemmas scanner_consts [const_defs] = MAX_CSI_def MAX_OSC_def MAX_METADATA_def

section \<open>Integers in text\<close>

text \<open>
  \<open>str::parse::<u32>()\<close>: an optional \<open>+\<close>, at least one ASCII digit, nothing else, and the value
  within range. Bytes that are not UTF-8 hold a byte that is not a digit, so the \<open>from_utf8\<close> before
  it refuses nothing more.
\<close>

definition is_digit :: "u8 \<Rightarrow> bool" where
  "is_digit b \<longleftrightarrow> 48 \<le> b \<and> b \<le> 57"

definition decimal_value :: "bytes \<Rightarrow> nat" where
  "decimal_value ds = foldl (\<lambda>v d. v * 10 + unat (d - 48)) 0 ds"

definition parse_u32 :: "bytes \<Rightarrow> nat option" where
  "parse_u32 s =
     (let ds = (case s of b # rest \<Rightarrow> if b = 43 then rest else s | [] \<Rightarrow> []) in
      if ds \<noteq> [] \<and> list_all is_digit ds \<and> decimal_value ds < 2 ^ 32
      then Some (decimal_value ds) else None)"

text \<open>\<open>slice.split(|b| b == sep)\<close>: always at least one field.\<close>

fun split_on :: "'a \<Rightarrow> 'a list \<Rightarrow> 'a list list" where
  "split_on sep [] = [[]]"
| "split_on sep (b # bs) =
     (if b = sep then [] # split_on sep bs
      else (case split_on sep bs of f # fs \<Rightarrow> (b # f) # fs | [] \<Rightarrow> [[b]]))"

lemma split_on_none: "sep \<notin> set a \<Longrightarrow> split_on sep a = [a]"
  by (induction a) auto

lemma split_on_field: "sep \<notin> set a \<Longrightarrow> split_on sep (a @ sep # b) = a # split_on sep b"
  by (induction a) auto

section \<open>CSI sequences\<close>

datatype Terminator = Bel | St

record Csi =
  raw :: bytes
  prefix :: "u8 option"
  intermediates :: bytes
  params :: "u16 list"
  final_byte :: u8

definition param :: "Csi \<Rightarrow> nat \<Rightarrow> u16 \<Rightarrow> u16" where
  "param c i dflt = (if i < length (params c) then params c ! i else dflt)"

text \<open>ASCII letters of the sequences: \<open>c\<close> 99, \<open>h\<close> 104, \<open>l\<close> 108, \<open>m\<close> 109, \<open>n\<close> 110, \<open>p\<close> 112, \<open>q\<close> 113,
  \<open>t\<close> 116, \<open>u\<close> 117, \<open>$\<close> 36, \<open><\<close> 60, \<open>>\<close> 62, \<open>?\<close> 63.\<close>

definition is_da1_query :: "Csi \<Rightarrow> bool" where
  "is_da1_query c \<longleftrightarrow> final_byte c = 99 \<and> prefix c = None \<and> intermediates c = []
     \<and> (params c = [] \<or> params c ! 0 = 0)"

definition is_da2_query :: "Csi \<Rightarrow> bool" where
  "is_da2_query c \<longleftrightarrow> final_byte c = 99 \<and> prefix c = Some 62 \<and> intermediates c = []"

definition is_dsr_query :: "Csi \<Rightarrow> bool" where
  "is_dsr_query c \<longleftrightarrow> final_byte c = 110 \<and> prefix c = None \<and> intermediates c = []
     \<and> length (params c) = 1 \<and> params c ! 0 = 6"

definition is_xtversion_query :: "Csi \<Rightarrow> bool" where
  "is_xtversion_query c \<longleftrightarrow> final_byte c = 113 \<and> prefix c = Some 62 \<and> intermediates c = []"

definition size_query :: "Csi \<Rightarrow> u16 option" where
  "size_query c =
     (if final_byte c = 116 \<and> prefix c = None \<and> intermediates c = []
      then (if params c \<in> {[14], [16], [18], [19]} then Some (params c ! 0) else None)
      else None)"

definition is_stripped_query :: "Csi \<Rightarrow> bool" where
  "is_stripped_query c \<longleftrightarrow>
     (prefix c = Some 63 \<and> final_byte c = 109 \<and> intermediates c = [] \<and> params c = [4])
     \<or> is_da1_query c
     \<or> is_da2_query c
     \<or> is_dsr_query c
     \<or> is_xtversion_query c
     \<or> (final_byte c = 110 \<and> prefix c = None \<and> intermediates c = [] \<and> params c = [5])
     \<or> (final_byte c = 112 \<and> prefix c = Some 63 \<and> intermediates c = [36] \<and> params c \<noteq> [])
     \<or> (final_byte c = 117 \<and> prefix c = Some 63 \<and> intermediates c = [] \<and> params c = [])
     \<or> size_query c \<noteq> None"

definition is_mode_query :: "Csi \<Rightarrow> u16 \<Rightarrow> bool" where
  "is_mode_query c mode \<longleftrightarrow>
     final_byte c = 112 \<and> prefix c = Some 63 \<and> intermediates c = [36] \<and> params c = [mode]"

definition kitty_push :: "Csi \<Rightarrow> u8 option" where
  "kitty_push c =
     (if final_byte c = 117 \<and> prefix c = Some 62 \<and> intermediates c = []
      then Some (ucast (min (param c 0 0) 255)) else None)"

definition is_kitty_pop :: "Csi \<Rightarrow> bool" where
  "is_kitty_pop c \<longleftrightarrow> final_byte c = 117 \<and> prefix c = Some 60 \<and> intermediates c = []"

definition dec_modes :: "Csi \<Rightarrow> (u16 list \<times> bool) option" where
  "dec_modes c =
     (if prefix c = Some 63 \<and> intermediates c = []
      then (if final_byte c = 104 then Some (params c, True)
            else if final_byte c = 108 then Some (params c, False)
            else None)
      else None)"

section \<open>OSC sequences\<close>

record Osc =
  osc_raw :: bytes
  osc_payload :: bytes
  terminator :: Terminator

definition osc_split :: "Osc \<Rightarrow> nat option \<times> bytes" where
  "osc_split o' =
     (let p = osc_payload o';
          ident = takeWhile (\<lambda>b. b \<noteq> 59) p;
          data = drop (length ident + 1) p
      in (parse_u32 ident, data))"

definition is_alphanumeric :: "u8 \<Rightarrow> bool" where
  "is_alphanumeric b \<longleftrightarrow> is_digit b \<or> 65 \<le> b \<and> b \<le> 90 \<or> 97 \<le> b \<and> b \<le> 122"

definition strip_suffix :: "bytes \<Rightarrow> bytes \<Rightarrow> bytes option" where
  "strip_suffix suf s =
     (if length suf \<le> length s \<and> drop (length s - length suf) s = suf
      then Some (take (length s - length suf) s) else None)"

definition clipboard_read_selection :: "Osc \<Rightarrow> bytes option" where
  "clipboard_read_selection o' =
     (case osc_split o' of (ident, data) \<Rightarrow>
        (case strip_suffix [59, 63] data of
           None \<Rightarrow> None
         | Some selection \<Rightarrow>
             if ident = Some 52 \<and> selection \<noteq> [] \<and> length selection \<le> 16
                \<and> list_all is_alphanumeric selection
             then Some selection else None))"

text \<open>The \<open>index;?\<close> pairs of an OSC 4, taken two fields at a time; a last single field is dropped.\<close>

fun palette_pairs :: "bytes list \<Rightarrow> (nat \<times> nat option) list" where
  "palette_pairs (a # b # rest) =
     (case (if b = [63] then parse_u32 a else None) of
        Some index \<Rightarrow> (4, Some index) # palette_pairs rest
      | None \<Rightarrow> palette_pairs rest)"
| "palette_pairs _ = []"

definition color_query :: "Osc \<Rightarrow> (nat \<times> nat option) list option" where
  "color_query o' =
     (case osc_split o' of (ident, data) \<Rightarrow>
        (case ident of
           None \<Rightarrow> None
         | Some n \<Rightarrow>
             if n \<in> {10, 11} \<and> data = [63] then Some [(n, None)]
             else if n = 4 \<and> 63 \<in> set data then Some (palette_pairs (split_on 59 data))
             else None))"

section \<open>The scanner\<close>

datatype Token = Raw bytes | Ris | CsiTok Csi | OscTok Osc

fun token_raw :: "Token \<Rightarrow> bytes" where
  "token_raw (Raw b) = b"
| "token_raw Ris = [27, 99]"
| "token_raw (CsiTok c) = raw c"
| "token_raw (OscTok o') = osc_raw o'"

datatype State = Ground | Esc | InCsi | InOsc | OscEsc

record OutputScanner =
  state :: State
  seq :: bytes

definition new_scanner :: OutputScanner where
  "new_scanner = \<lparr>state = Ground, seq = []\<rparr>"

definition reset :: "OutputScanner \<Rightarrow> OutputScanner" where
  "reset sc = sc\<lparr>state := Ground, seq := []\<rparr>"

definition pending :: "OutputScanner \<Rightarrow> bytes" where
  "pending sc = seq sc"

definition osc_limit :: "bytes \<Rightarrow> nat" where
  "osc_limit s =
     (if take 7 s = [27, 93, 53, 53, 50, 50, 59] then MAX_METADATA else MAX_OSC)"

definition csi_digits :: "bytes \<Rightarrow> u16" where
  "csi_digits part =
     word_of_nat (foldl (\<lambda>v d. if is_digit d then min (v * 10 + unat (d - 48)) 65535 else v) 0
       (takeWhile (\<lambda>b. b \<noteq> 58) part))"

definition parse_csi :: "bytes \<Rightarrow> Csi" where
  "parse_csi s =
     (let body = take (length s - 3) (drop 2 s);
          fin = s ! (length s - 1);
          pre = (case body of b # _ \<Rightarrow> if 60 \<le> b \<and> b \<le> 63 then Some b else None | [] \<Rightarrow> None);
          pb = (case pre of Some _ \<Rightarrow> drop 1 body | None \<Rightarrow> body);
          is_inter = (\<lambda>b. 32 \<le> b \<and> b \<le> (47 :: u8));
          num = takeWhile (\<lambda>b. \<not> is_inter b) pb;
          inter = dropWhile (\<lambda>b. \<not> is_inter b) pb
      in \<lparr>raw = s, prefix = pre, intermediates = inter,
          params = (if num = [] then [] else map csi_digits (split_on 59 num)),
          final_byte = fin\<rparr>)"

definition make_osc :: "bytes \<Rightarrow> Terminator \<Rightarrow> Osc" where
  "make_osc s t =
     (let e = (case t of Bel \<Rightarrow> length s - 1 | St \<Rightarrow> length s - 2)
      in \<lparr>osc_raw = s, osc_payload = take (e - 2) (drop 2 s), terminator = t\<rparr>)"

text \<open>
  One byte of \<open>feed\<close>. The loop's variables are the scanner, the bytes \<open>raw\<close> collected since the last
  token and the tokens \<open>out\<close>. \<open>flush_raw\<close> turns collected bytes into a token. The \<open>OscEsc\<close> branch that
  steps the index back is the \<open>Esc\<close> branch on the same byte, which always consumes it.
\<close>

record scan =
  scanner :: OutputScanner
  rawbuf :: bytes
  out :: "Token list"

definition flush_raw :: "bytes \<Rightarrow> Token list \<Rightarrow> Token list" where
  "flush_raw r ts = (if r = [] then ts else ts @ [Raw r])"

definition goto :: "State \<Rightarrow> bytes \<Rightarrow> OutputScanner" where
  "goto st s = \<lparr>state = st, seq = s\<rparr>"

definition emit :: "scan \<Rightarrow> Token \<Rightarrow> scan" where
  "emit z t = \<lparr>scanner = goto Ground [], rawbuf = [], out = flush_raw (rawbuf z) (out z) @ [t]\<rparr>"

definition give_up :: "scan \<Rightarrow> bytes \<Rightarrow> OutputScanner \<Rightarrow> scan" where
  "give_up z s sc = z\<lparr>scanner := sc, rawbuf := rawbuf z @ s\<rparr>"

definition hold :: "scan \<Rightarrow> OutputScanner \<Rightarrow> scan" where
  "hold z sc = z\<lparr>scanner := sc\<rparr>"

definition ground_byte :: "scan \<Rightarrow> u8 \<Rightarrow> scan" where
  "ground_byte z b =
     (if b = 27 then hold z (goto Esc [b])
      else z\<lparr>rawbuf := rawbuf z @ [b]\<rparr>)"

definition esc_byte :: "scan \<Rightarrow> bytes \<Rightarrow> u8 \<Rightarrow> scan" where
  "esc_byte z s b =
     (if b = 99 then emit z Ris
      else if b = 91 then hold z (goto InCsi (s @ [b]))
      else if b = 93 then hold z (goto InOsc (s @ [b]))
      else if b = 27 then give_up z s (goto Esc [b])
      else give_up z (s @ [b]) (goto Ground []))"

definition csi_byte :: "scan \<Rightarrow> bytes \<Rightarrow> u8 \<Rightarrow> scan" where
  "csi_byte z s b =
     (if 64 \<le> b \<and> b \<le> 126 then emit z (CsiTok (parse_csi (s @ [b])))
      else if b = 27 then give_up z s (goto Esc [b])
      else if b = 24 \<or> b = 26 then give_up z (s @ [b]) (goto Ground [])
      else if length (s @ [b]) > MAX_CSI then give_up z (s @ [b]) (goto Ground [])
      else hold z (goto InCsi (s @ [b])))"

definition osc_byte :: "scan \<Rightarrow> bytes \<Rightarrow> u8 \<Rightarrow> scan" where
  "osc_byte z s b =
     (if b = 7 then emit z (OscTok (make_osc (s @ [b]) Bel))
      else if b = 27 then hold z (goto OscEsc (s @ [b]))
      else if b = 24 \<or> b = 26 then give_up z (s @ [b]) (goto Ground [])
      else if length (s @ [b]) > osc_limit (s @ [b]) + 2 then give_up z (s @ [b]) (goto Ground [])
      else hold z (goto InOsc (s @ [b])))"

definition osc_esc_byte :: "scan \<Rightarrow> bytes \<Rightarrow> u8 \<Rightarrow> scan" where
  "osc_esc_byte z s b =
     (if b = 92 then emit z (OscTok (make_osc (s @ [b]) St))
      else esc_byte (give_up z (butlast s) (goto Esc [27])) [27] b)"

definition scan_byte :: "scan \<Rightarrow> u8 \<Rightarrow> scan" where
  "scan_byte z b =
     (case state (scanner z) of
        Ground \<Rightarrow> ground_byte z b
      | Esc \<Rightarrow> esc_byte z (seq (scanner z)) b
      | InCsi \<Rightarrow> csi_byte z (seq (scanner z)) b
      | InOsc \<Rightarrow> osc_byte z (seq (scanner z)) b
      | OscEsc \<Rightarrow> osc_esc_byte z (seq (scanner z)) b)"

definition scan_feed :: "OutputScanner \<Rightarrow> bytes \<Rightarrow> Token list \<times> OutputScanner" where
  "scan_feed sc data =
     (let z = foldl scan_byte \<lparr>scanner = sc, rawbuf = [], out = []\<rparr> data
      in (flush_raw (rawbuf z) (out z), scanner z))"

definition keeps_token :: "Token \<Rightarrow> bool" where
  "keeps_token t =
     (case t of
        CsiTok c \<Rightarrow> \<not> is_stripped_query c
      | OscTok o' \<Rightarrow> color_query o' = None
      | _ \<Rightarrow> True)"

definition strip_terminal_queries :: "bytes \<Rightarrow> bytes" where
  "strip_terminal_queries data =
     (case scan_feed new_scanner data of
        (toks, sc) \<Rightarrow> concat (map token_raw (filter keeps_token toks)) @ pending sc)"

section \<open>Facts about the scanner\<close>

named_theorems scan_defs \<open>one byte of the scanner, unfolded\<close>

lemmas scan_step_defs [scan_defs] = scan_byte_def ground_byte_def esc_byte_def csi_byte_def
  osc_byte_def osc_esc_byte_def emit_def give_up_def hold_def goto_def

text \<open>
  What is held back between bytes: nothing in the ground state, one escape after \<open>ESC\<close>, and a
  bounded candidate sequence with its introducer in the other states.
\<close>

definition scanner_invar :: "OutputScanner \<Rightarrow> bool" where
  "scanner_invar sc \<longleftrightarrow>
     (case state sc of
        Ground \<Rightarrow> seq sc = []
      | Esc \<Rightarrow> seq sc = [27]
      | InCsi \<Rightarrow> take 2 (seq sc) = [27, 91] \<and> length (seq sc) \<le> MAX_CSI
      | InOsc \<Rightarrow> take 2 (seq sc) = [27, 93] \<and> length (seq sc) \<le> osc_limit (seq sc) + 2
      | OscEsc \<Rightarrow> (\<exists>s. seq sc = s @ [27] \<and> take 2 s = [27, 93] \<and> length s \<le> osc_limit s + 2))"

lemma scanner_invar_new [simp]: "scanner_invar new_scanner"
  by (simp add: scanner_invar_def new_scanner_def)

lemma take_2_length: "take 2 s = [a, b] \<Longrightarrow> 2 \<le> length s"
  by (metis One_nat_def length_Cons length_take list.size(3) min.cobounded1 numeral_2_eq_2)

lemma scanner_invar_esc_byte: "scanner_invar (scanner (esc_byte z [27] b))"
  by (simp add: scanner_invar_def esc_byte_def emit_def give_up_def hold_def goto_def scanner_consts
      osc_limit_def)

lemma scanner_invar_csi_byte:
  "take 2 s = [27, 91] \<Longrightarrow> scanner_invar (scanner (csi_byte z s b))"
  by (auto simp: scanner_invar_def csi_byte_def emit_def give_up_def hold_def goto_def dest: take_2_length)

lemma scanner_invar_osc_byte:
  "take 2 s = [27, 93] \<Longrightarrow> length s \<le> osc_limit s + 2 \<Longrightarrow> scanner_invar (scanner (osc_byte z s b))"
  by (auto simp: scanner_invar_def osc_byte_def emit_def give_up_def hold_def goto_def dest: take_2_length)

lemma scanner_invar_step:
  assumes "scanner_invar (scanner z)"
  shows "scanner_invar (scanner (scan_byte z b))"
proof (cases "state (scanner z)")
  case Ground
  with assms show ?thesis by (simp add: scan_defs scanner_invar_def)
next
  case Esc
  with assms have "seq (scanner z) = [27]" by (simp add: scanner_invar_def)
  with Esc show ?thesis by (simp add: scan_byte_def scanner_invar_esc_byte)
next
  case InCsi
  with assms show ?thesis
    using scanner_invar_csi_byte by (simp add: scan_byte_def scanner_invar_def [of "scanner z"])
next
  case InOsc
  with assms show ?thesis
    using scanner_invar_osc_byte by (simp add: scan_byte_def scanner_invar_def [of "scanner z"])
next
  case OscEsc
  then show ?thesis
    by (simp add: scan_byte_def osc_esc_byte_def scanner_invar_esc_byte)
      (simp add: emit_def scanner_invar_def goto_def)
qed

lemma scanner_invar_feed:
  "scanner_invar (scanner z) \<Longrightarrow> scanner_invar (scanner (foldl scan_byte z data))"
  by (induction data arbitrary: z) (simp_all add: scanner_invar_step)

text \<open>The bytes a scan has accounted for: those of its tokens, the collected ones, the held ones.\<close>

definition scan_bytes :: "scan \<Rightarrow> bytes" where
  "scan_bytes z = concat (map token_raw (out z)) @ rawbuf z @ seq (scanner z)"

lemma token_raw_made [simp]:
  "raw (parse_csi s) = s" "osc_raw (make_osc s t) = s"
  by (simp_all add: parse_csi_def make_osc_def Let_def)

lemma flush_raw_bytes [simp]:
  "concat (map token_raw (flush_raw r ts)) = concat (map token_raw ts) @ r"
  by (simp add: flush_raw_def)

lemma scan_bytes_step:
  "scanner_invar (scanner z) \<Longrightarrow> scan_bytes (scan_byte z b) = scan_bytes z @ [b]"
  by (auto simp: scanner_invar_def scan_bytes_def scan_defs split: State.splits)

lemma scan_bytes_feed:
  "scanner_invar (scanner z) \<Longrightarrow> scan_bytes (foldl scan_byte z data) = scan_bytes z @ data"
proof (induction data arbitrary: z)
  case (Cons b data)
  then show ?case
    by (simp add: scanner_invar_step scan_bytes_step)
qed simp

text \<open>
  What a consumer can tell of a token list: every recognised sequence, and the raw bytes one by
  one. Where one run of raw bytes was cut by a read is not observable.
\<close>

datatype atom = Byte u8 | Whole Token

fun atoms_of :: "Token \<Rightarrow> atom list" where
  "atoms_of (Raw b) = map Byte b"
| "atoms_of t = [Whole t]"

definition atoms :: "Token list \<Rightarrow> atom list" where
  "atoms ts = concat (map atoms_of ts)"

lemma atoms_simps [simp]:
  "atoms [] = []" "atoms (t # ts) = atoms_of t @ atoms ts" "atoms (ts @ us) = atoms ts @ atoms us"
  by (simp_all add: atoms_def)

lemma atoms_flush_raw [simp]: "atoms (flush_raw r ts) = atoms ts @ map Byte r"
  by (simp add: flush_raw_def)

definition scan_atoms :: "scan \<Rightarrow> atom list" where
  "scan_atoms z = atoms (out z) @ map Byte (rawbuf z)"

text \<open>The next byte acts on the scanner alone: what it adds does not depend on what was collected.\<close>

lemma scan_byte_shift:
  "scanner (scan_byte z b) = scanner (scan_byte \<lparr>scanner = scanner z, rawbuf = [], out = []\<rparr> b)
   \<and> scan_atoms (scan_byte z b) =
       scan_atoms z @ scan_atoms (scan_byte \<lparr>scanner = scanner z, rawbuf = [], out = []\<rparr> b)"
  by (simp add: scan_atoms_def scan_defs split: State.splits)

lemma foldl_scan_shift:
  "scanner (foldl scan_byte z data) =
     scanner (foldl scan_byte \<lparr>scanner = scanner z, rawbuf = [], out = []\<rparr> data)
   \<and> scan_atoms (foldl scan_byte z data) =
       scan_atoms z @ scan_atoms (foldl scan_byte \<lparr>scanner = scanner z, rawbuf = [], out = []\<rparr> data)"
proof (induction data arbitrary: z)
  case Nil
  then show ?case by (simp add: scan_atoms_def)
next
  case (Cons b data)
  let ?e = "\<lparr>scanner = scanner z, rawbuf = [], out = []\<rparr>"
  from Cons [of "scan_byte z b"] Cons [of "scan_byte ?e b"] scan_byte_shift [of z b]
  show ?case by simp
qed

text \<open>The scanner as a stream decoder that never fails.\<close>

definition scan_feed_ok :: "OutputScanner \<Rightarrow> bytes \<Rightarrow> (unit + Token list) \<times> OutputScanner" where
  "scan_feed_ok sc data = (case scan_feed sc data of (ts, sc') \<Rightarrow> (Inr ts, sc'))"

lemma scan_feed_append:
  "atoms (fst (scan_feed sc (xs @ ys))) =
     atoms (fst (scan_feed sc xs)) @ atoms (fst (scan_feed (snd (scan_feed sc xs)) ys))
   \<and> snd (scan_feed sc (xs @ ys)) = snd (scan_feed (snd (scan_feed sc xs)) ys)"
  using foldl_scan_shift [of "foldl scan_byte \<lparr>scanner = sc, rawbuf = [], out = []\<rparr> xs" ys]
  by (simp add: scan_feed_def scan_atoms_def Let_def)

interpretation scan: chunked_stream scan_feed_ok "\<lambda>_. True" atoms
proof unfold_locales
  fix sc xs ts sc' ys us sc''
  assume "scan_feed_ok sc xs = (Inr ts, sc')" "scan_feed_ok sc' ys = (Inr us, sc'')"
  then show "\<exists>rs. scan_feed_ok sc (xs @ ys) = (Inr rs, sc'') \<and> atoms rs = atoms ts @ atoms us"
    using scan_feed_append [of sc xs ys]
    by (auto simp: scan_feed_ok_def split: prod.splits)
qed (auto simp: scan_feed_ok_def scan_feed_def flush_raw_def split: prod.splits)

text \<open>What clients receive of a token list, and that it only depends on the atoms.\<close>

definition kept :: "Token list \<Rightarrow> bytes" where
  "kept ts = concat (map token_raw (filter keeps_token ts))"

fun kept_atom :: "atom \<Rightarrow> bytes" where
  "kept_atom (Byte b) = [b]"
| "kept_atom (Whole t) = (if keeps_token t then token_raw t else [])"

lemma concat_map_singleton [simp]: "concat (map (\<lambda>b. [b]) bs) = bs"
  by (induction bs) auto

lemma kept_atoms: "kept ts = concat (map kept_atom (atoms ts))"
proof (induction ts)
  case (Cons t ts)
  then show ?case by (cases t) (simp_all add: kept_def keeps_token_def comp_def)
qed (simp add: kept_def)

lemma bytes_atoms:
  "concat (map token_raw ts) =
     concat (map (\<lambda>a. case a of Byte b \<Rightarrow> [b] | Whole t \<Rightarrow> token_raw t) (atoms ts))"
proof (induction ts)
  case (Cons t ts)
  then show ?case by (cases t) (simp_all add: comp_def)
qed simp

lemma feed_all_scan_ok: "feed_all scan_feed_ok sc cs = (ts, e, sc') \<Longrightarrow> e = None"
  by (induction cs arbitrary: sc ts) (auto simp: scan_feed_ok_def split: prod.splits)

lemma feed_all_scan_concat:
  assumes "feed_all scan_feed_ok sc cs = (ts, e, sc')"
  shows "\<exists>rs. scan_feed sc (concat cs) = (rs, sc') \<and> atoms rs = atoms ts"
  using scan.feed_all_concat [OF TrueI assms] feed_all_scan_ok [OF assms]
  by (auto simp: scan_feed_ok_def split: prod.splits)

lemma scan_feed_accounts:
  assumes "scanner_invar sc" and "scan_feed sc data = (ts, sc')"
  shows "concat (map token_raw ts) @ pending sc' = pending sc @ data" and "scanner_invar sc'"
  using scan_bytes_feed [of "\<lparr>scanner = sc, rawbuf = [], out = []\<rparr>" data]
    scanner_invar_feed [of "\<lparr>scanner = sc, rawbuf = [], out = []\<rparr>" data] assms
  by (auto simp: scan_feed_def scan_bytes_def pending_def Let_def)

lemma osc_limit_bound: "osc_limit s \<le> MAX_METADATA"
  by (simp add: osc_limit_def scanner_consts)

lemma pending_bound: "scanner_invar sc \<Longrightarrow> length (pending sc) \<le> MAX_METADATA + 3"
  using osc_limit_bound [of "seq sc"] osc_limit_bound [of "butlast (seq sc)"]
  by (auto simp: scanner_invar_def pending_def scanner_consts split: State.splits)

lemma foldl_scan_text:
  "state (scanner z) = Ground \<Longrightarrow> 27 \<notin> set data \<Longrightarrow>
     foldl scan_byte z data = z\<lparr>rawbuf := rawbuf z @ data\<rparr>"
  by (induction data arbitrary: z) (auto simp: scan_byte_def ground_byte_def)

text \<open>One byte at a scan given field by field, for evaluation.\<close>

lemma scan_byte_eval:
  "scan_byte \<lparr>scanner = \<lparr>state = Ground, seq = s\<rparr>, rawbuf = r, out = ts\<rparr> b =
     (if b = 27 then \<lparr>scanner = \<lparr>state = Esc, seq = [27]\<rparr>, rawbuf = r, out = ts\<rparr>
      else \<lparr>scanner = \<lparr>state = Ground, seq = s\<rparr>, rawbuf = r @ [b], out = ts\<rparr>)"
  "scan_byte \<lparr>scanner = \<lparr>state = Esc, seq = s\<rparr>, rawbuf = r, out = ts\<rparr> b =
     esc_byte \<lparr>scanner = \<lparr>state = Esc, seq = s\<rparr>, rawbuf = r, out = ts\<rparr> s b"
  "scan_byte \<lparr>scanner = \<lparr>state = InCsi, seq = s\<rparr>, rawbuf = r, out = ts\<rparr> b =
     csi_byte \<lparr>scanner = \<lparr>state = InCsi, seq = s\<rparr>, rawbuf = r, out = ts\<rparr> s b"
  "scan_byte \<lparr>scanner = \<lparr>state = InOsc, seq = s\<rparr>, rawbuf = r, out = ts\<rparr> b =
     osc_byte \<lparr>scanner = \<lparr>state = InOsc, seq = s\<rparr>, rawbuf = r, out = ts\<rparr> s b"
  "scan_byte \<lparr>scanner = \<lparr>state = OscEsc, seq = s\<rparr>, rawbuf = r, out = ts\<rparr> b =
     osc_esc_byte \<lparr>scanner = \<lparr>state = OscEsc, seq = s\<rparr>, rawbuf = r, out = ts\<rparr> s b"
  by (simp_all add: scan_byte_def ground_byte_def hold_def goto_def)

lemmas scan_eval = scan_byte_eval esc_byte_def csi_byte_def osc_byte_def osc_esc_byte_def emit_def
  give_up_def hold_def goto_def flush_raw_def osc_limit_def scanner_consts scan_feed_ok_def
  scan_feed_def new_scanner_def

section \<open>Properties of the scanner\<close>

text \<open>
  However the child's output is cut into reads, the scanner accounts for every byte: the raw
  bytes of its tokens followed by what it still holds back are exactly the input, and what it
  holds back is a bounded partial sequence.
\<close>

theorem scanner_lossless_and_bounded:
  assumes "feed_all scan_feed_ok new_scanner cs = (ts, e, sc)"
  shows "concat (map token_raw ts) @ pending sc = concat cs
    \<and> e = None \<and> scanner_invar sc \<and> length (pending sc) \<le> MAX_METADATA + 3"
proof -
  from feed_all_scan_concat [OF assms] obtain rs
    where rs: "scan_feed new_scanner (concat cs) = (rs, sc)" "atoms rs = atoms ts" by blast
  have "concat (map token_raw ts) = concat (map token_raw rs)"
    using rs(2) by (simp add: bytes_atoms)
  with scan_feed_accounts [OF scanner_invar_new rs(1)] feed_all_scan_ok [OF assms] pending_bound
  show ?thesis by (auto simp: pending_def new_scanner_def)
qed

theorem scanner_lossless_and_bounded_witness:
  "concat (map token_raw [Raw [97], CsiTok (parse_csi [27, 91, 99])]) @ [27, 93]
     = concat [[97, 27], [91, 99, 27], [93]]"
proof -
  have "feed_all scan_feed_ok new_scanner [[97, 27], [91, 99, 27], [93]] =
      ([Raw [97], CsiTok (parse_csi [27, 91, 99])], None, \<lparr>state = InOsc, seq = [27, 93]\<rparr>)"
    by (simp add: scan_eval)
  from scanner_lossless_and_bounded [OF this] show ?thesis by (simp add: pending_def)
qed

text \<open>
  A query split across reads is recognised as if it had come whole: for two cuttings of the
  same output the scanner ends in the same state and yields the same sequences with the same bytes
  between them.
\<close>

theorem scanner_chunking_irrelevant:
  assumes "concat cs = concat ds"
    and "feed_all scan_feed_ok new_scanner cs = (ts, e, sc)"
    and "feed_all scan_feed_ok new_scanner ds = (us, f, sd)"
  shows "sc = sd \<and> atoms ts = atoms us \<and> kept ts = kept us"
  using scan.chunking_irrelevant [OF TrueI assms] feed_all_scan_ok [OF assms(2)]
  by (simp add: kept_atoms)

theorem scanner_chunking_irrelevant_witness:
  "atoms [Raw [97], Raw [98], CsiTok (parse_csi [27, 91, 54, 110])]
     = atoms [Raw [97, 98], CsiTok (parse_csi [27, 91, 54, 110])]"
proof -
  have a: "feed_all scan_feed_ok new_scanner [[97], [98, 27], [91, 54], [110]] =
      ([Raw [97], Raw [98], CsiTok (parse_csi [27, 91, 54, 110])], None, new_scanner)"
    by (simp add: scan_eval)
  have b: "feed_all scan_feed_ok new_scanner [[97, 98, 27, 91, 54, 110]] =
      ([Raw [97, 98], CsiTok (parse_csi [27, 91, 54, 110])], None, new_scanner)"
    by (simp add: scan_eval)
  from scanner_chunking_irrelevant [OF _ a b] show ?thesis by simp
qed



text \<open>Spellings of the queries a session answers itself, as the child may write them.\<close>

definition answered_queries :: "bytes list" where
  "answered_queries =
     [[27, 93, 49, 48, 59, 63, 7], [27, 93, 49, 48, 59, 63, 27, 92],
      [27, 93, 49, 49, 59, 63, 7], [27, 93, 49, 49, 59, 63, 27, 92],
      [27, 93, 52, 59, 55, 59, 63, 7], [27, 93, 52, 59, 48, 59, 63, 27, 92],
      [27, 91, 99], [27, 91, 48, 99], [27, 91, 62, 99], [27, 91, 62, 48, 99],
      [27, 91, 54, 110], [27, 91, 53, 110], [27, 91, 62, 48, 113], [27, 91, 62, 113],
      [27, 91, 63, 117], [27, 91, 63, 50, 48, 48, 52, 36, 112],
      [27, 91, 49, 52, 116], [27, 91, 49, 54, 116], [27, 91, 49, 56, 116]]"

text \<open>A sequence that the scanner recognises from the ground state as one query token.\<close>

definition scans_to_query :: "bytes \<Rightarrow> bool" where
  "scans_to_query q \<longleftrightarrow>
     (case scan_feed new_scanner q of (ts, sc) \<Rightarrow>
        sc = new_scanner \<and> length ts = 1 \<and> list_all (\<lambda>t. \<not> keeps_token t) ts)"

lemma strip_around_query:
  assumes q: "scans_to_query q" and t1: "27 \<notin> set t1" and t2: "27 \<notin> set t2"
  shows "strip_terminal_queries (t1 @ q @ t2) = t1 @ t2"
proof -
  let ?z0 = "\<lparr>scanner = new_scanner, rawbuf = [], out = []\<rparr>"
  let ?z1 = "?z0\<lparr>rawbuf := t1\<rparr>"
  define z2 where "z2 = foldl scan_byte ?z1 q"
  have z1: "foldl scan_byte ?z0 t1 = ?z1"
    using foldl_scan_text [of ?z0 t1] t1 by (simp add: new_scanner_def)
  obtain t where t: "fst (scan_feed new_scanner q) = [t]" "\<not> keeps_token t"
    and sc: "snd (scan_feed new_scanner q) = new_scanner"
    using q by (auto simp: scans_to_query_def length_Suc_conv split: prod.splits)
  have z2s: "scanner z2 = new_scanner" and z2a: "scan_atoms z2 = map Byte t1 @ atoms [t]"
    using foldl_scan_shift [of ?z1 q] t(1) sc
    by (auto simp: z2_def scan_feed_def scan_atoms_def Let_def
        simp flip: atoms_flush_raw)
  define z3 where "z3 = foldl scan_byte z2 t2"
  have z3: "z3 = z2\<lparr>rawbuf := rawbuf z2 @ t2\<rparr>"
    using foldl_scan_text [of z2 t2] t2 z2s by (simp add: z3_def new_scanner_def)
  have "kept (flush_raw (rawbuf z3) (out z3)) = concat (map kept_atom (scan_atoms z3))"
    by (simp add: kept_atoms scan_atoms_def)
  also have "scan_atoms z3 = map Byte t1 @ atoms [t] @ map Byte t2"
    using z3 z2a by (simp add: scan_atoms_def)
  also have "concat (map kept_atom \<dots>) = t1 @ t2"
    using t(2) by (cases t) (auto simp: comp_def keeps_token_def)
  finally have k: "kept (flush_raw (rawbuf z3) (out z3)) = t1 @ t2" .
  have "foldl scan_byte ?z0 (t1 @ q @ t2) = z3"
    by (simp add: z1 z2_def z3_def)
  with k z3 z2s show ?thesis
    by (simp add: strip_terminal_queries_def scan_feed_def kept_def pending_def new_scanner_def
        Let_def)
qed

lemma answered_queries_scan: "list_all scans_to_query answered_queries"
  by (simp add: answered_queries_def scans_to_query_def scan_eval keeps_token_def
      is_stripped_query_def is_da1_query_def is_da2_query_def is_dsr_query_def
      is_xtversion_query_def size_query_def color_query_def osc_split_def parse_u32_def
      make_osc_def parse_csi_def csi_digits_def is_digit_def decimal_value_def)

text \<open>
  Each spelling of a query the session terminal answers is removed from what clients
  receive, wherever it stands in plain text, and the text around it is untouched.
\<close>

theorem answered_queries_are_stripped:
  assumes "q \<in> set answered_queries" and "27 \<notin> set t1" and "27 \<notin> set t2"
  shows "strip_terminal_queries (t1 @ q @ t2) = t1 @ t2"
  using assms answered_queries_scan by (intro strip_around_query) (auto simp: list_all_iff)

theorem answered_queries_are_stripped_witness:
  "strip_terminal_queries ([104, 105] @ [27, 91, 54, 110] @ [33]) = [104, 105] @ [33]"
  by (rule answered_queries_are_stripped) (simp_all add: answered_queries_def)

text \<open>
  Removing a query can join the bytes around it into a new one: a lone escape, a query, and the
  tail of another query leave a query in what clients receive. The scanner's own documentation
  says that queries are removed.
\<close>

lemma strip_can_form_a_query:
  "strip_terminal_queries [27, 27, 91, 99, 91, 99] = [27, 91, 99] \<and> [27, 91, 99] \<in> set answered_queries"
  by (simp add: strip_terminal_queries_def scan_eval keeps_token_def is_stripped_query_def
      is_da1_query_def parse_csi_def pending_def answered_queries_def)

end
