(* ===== verification/Text_Numbers.thy ===== *)
theory Text_Numbers
  imports Pty_Prelude
begin

text \<open>
  Decimal numbers in text: Rust's integer formatting (\<open>{}\<close>, \<open>{:02}\<close>) and the digit runs the parsers
  of the sources read, over strings of Unicode scalars, with the facts that connect the two.
\<close>

definition digit_char :: "rchar \<Rightarrow> bool" where
  "digit_char c \<longleftrightarrow> 48 \<le> c \<and> c \<le> 57"

fun dec :: "nat \<Rightarrow> rstr" where
  "dec n = (if n < 10 then [48 + n] else dec (n div 10) @ [48 + n mod 10])"

declare dec.simps [simp del]

text \<open>\<open>{n:0w}\<close> for a non-negative number.\<close>

definition dec_pad :: "nat \<Rightarrow> nat \<Rightarrow> rstr" where
  "dec_pad w n = replicate (w - length (dec n)) 48 @ dec n"

definition dec_int :: "int \<Rightarrow> rstr" where
  "dec_int i = (if i < 0 then 45 # dec (nat (- i)) else dec (nat i))"

text \<open>\<open>{i:0w}\<close> for a signed number: the sign counts towards the width.\<close>

definition dec_int_pad :: "nat \<Rightarrow> int \<Rightarrow> rstr" where
  "dec_int_pad w i = (if i < 0 then 45 # dec_pad (w - 1) (nat (- i)) else dec_pad w (nat i))"

text \<open>The value of a run of digits.\<close>

definition digits_value :: "rstr \<Rightarrow> nat" where
  "digits_value s = foldl (\<lambda>v c. 10 * v + (c - 48)) 0 s"

lemma dec_ne_Nil [simp]: "dec n \<noteq> []"
  by (subst dec.simps) simp

lemma dec_digits: "list_all digit_char (dec n)"
proof (induction n rule: dec.induct)
  case (1 n)
  moreover have "digit_char (48 + n mod 10)" "n < 10 \<Longrightarrow> digit_char (48 + n)"
    by (auto simp: digit_char_def)
  ultimately show ?case by (subst dec.simps) simp
qed

lemma digits_value_snoc: "digits_value (s @ [c]) = 10 * digits_value s + (c - 48)"
  by (simp add: digits_value_def)

lemma digits_value_dec [simp]: "digits_value (dec n) = n"
proof (induction n rule: dec.induct)
  case (1 n)
  show ?case
  proof (cases "n < 10")
    case True
    then show ?thesis by (subst dec.simps) (simp add: digits_value_def)
  next
    case False
    with 1 show ?thesis by (subst dec.simps) (simp add: digits_value_snoc)
  qed
qed

lemma digits_value_zeros: "digits_value (replicate k 48 @ s) = digits_value s"
  by (induction k) (simp_all add: digits_value_def)

lemma digits_value_dec_pad [simp]: "digits_value (dec_pad w n) = n"
  by (simp add: dec_pad_def digits_value_zeros)

lemma dec_pad_digits: "list_all digit_char (dec_pad w n)"
  using dec_digits [of n] by (auto simp: dec_pad_def list_all_iff digit_char_def)

lemma length_dec_le: "0 < w \<Longrightarrow> n < 10 ^ w \<Longrightarrow> length (dec n) \<le> w"
proof (induction n arbitrary: w rule: dec.induct)
  case (1 n)
  show ?case
  proof (cases "n < 10")
    case True
    with 1 show ?thesis by (subst dec.simps) simp
  next
    case False
    with 1 obtain v where v: "w = Suc v" "0 < v" by (cases w; cases "w - 1") auto
    with 1 False have "length (dec (n div 10)) \<le> v" by (simp add: div_less_iff_less_mult mult.commute)
    with False v show ?thesis by (subst dec.simps) simp
  qed
qed

lemma length_dec_pad: "0 < w \<Longrightarrow> n < 10 ^ w \<Longrightarrow> length (dec_pad w n) = w"
  using length_dec_le [of w n] by (simp add: dec_pad_def)

lemma takeWhile_digits:
  "list_all digit_char ds \<Longrightarrow> (case rest of [] \<Rightarrow> True | c # _ \<Rightarrow> \<not> digit_char c) \<Longrightarrow>
     takeWhile digit_char (ds @ rest) = ds"
  by (cases rest) (simp_all add: takeWhile_append list_all_iff)

lemma dropWhile_digits:
  "list_all digit_char ds \<Longrightarrow> (case rest of [] \<Rightarrow> True | c # _ \<Rightarrow> \<not> digit_char c) \<Longrightarrow>
     dropWhile digit_char (ds @ rest) = rest"
  by (cases rest) (simp_all add: dropWhile_append list_all_iff)

end
