(* ===== verification/Time_Format.thy ===== *)
theory Time_Format
  imports Text_Numbers
begin

text \<open>
  Timestamps of the registry (\<^verbatim>\<open>crates/pty-core/src/registry/time.rs\<close>): ISO-8601 text with
  milliseconds and the civil calendar behind it. The strings are read byte by byte in the source;
  every byte a successful parse inspects is ASCII, so scalars and bytes index alike. The calendar
  is computed in \<open>i64\<close>; the values stay far below its range, so \<open>int\<close> is used.
\<close>

section \<open>The civil calendar\<close>

definition days_from_civil :: "int \<Rightarrow> int \<Rightarrow> int \<Rightarrow> int" where
  "days_from_civil y0 m d =
     (let y = (if m \<le> 2 then y0 - 1 else y0);
          era = y div 400;
          yoe = y - era * 400;
          mp = (m + 9) mod 12;
          doy = (153 * mp + 2) div 5 + d - 1;
          doe = yoe * 365 + yoe div 4 - yoe div 100 + doy
      in era * 146097 + doe - 719468)"

definition civil_from_days :: "int \<Rightarrow> int \<times> int \<times> int" where
  "civil_from_days z0 =
     (let z = z0 + 719468;
          era = z div 146097;
          doe = z - era * 146097;
          yoe = (doe - doe div 1460 + doe div 36524 - doe div 146096) div 365;
          y = yoe + era * 400;
          doy = doe - (365 * yoe + yoe div 4 - yoe div 100);
          mp = (5 * doy + 2) div 153;
          d = doy - (153 * mp + 2) div 5 + 1;
          m = (if mp < 10 then mp + 3 else mp - 9)
      in ((if m \<le> 2 then y + 1 else y), m, d))"

section \<open>Formatting\<close>

definition iso8601_from_epoch_ms :: "int \<Rightarrow> rstr" where
  "iso8601_from_epoch_ms ms =
     (let days = ms div 86400000;
          rem = ms mod 86400000;
          (y, m, d) = civil_from_days days;
          hh = rem div 3600000;
          mm = (rem div 60000) mod 60;
          ss = (rem div 1000) mod 60;
          mmm = rem mod 1000
      in dec_int_pad 4 y @ [45] @ dec_int_pad 2 m @ [45] @ dec_int_pad 2 d @ [84]
         @ dec_int_pad 2 hh @ [58] @ dec_int_pad 2 mm @ [58] @ dec_int_pad 2 ss
         @ [46] @ dec_int_pad 3 mmm @ [90])"

section \<open>Parsing\<close>

text \<open>\<open>num(b, from, len)\<close>: a fixed-width field of digits.\<close>

definition num :: "rstr \<Rightarrow> nat \<Rightarrow> nat \<Rightarrow> int option" where
  "num b i n =
     (if i + n \<le> length b \<and> list_all digit_char (take n (drop i b))
      then Some (int (digits_value (take n (drop i b)))) else None)"

definition at :: "rstr \<Rightarrow> nat \<Rightarrow> rchar option" where
  "at b i = (if i < length b then Some (b ! i) else None)"

text \<open>
  The optional time of day: hour, minute, second, millisecond and the position after it. The
  fraction is padded to three digits and cut after them.
\<close>

definition parse_fraction :: "rstr \<Rightarrow> nat \<Rightarrow> (int \<times> nat) option" where
  "parse_fraction b pos =
     (let start = pos + 1;
          frac = takeWhile digit_char (drop start b);
          scaled = frac @ replicate (3 - length frac) 48
      in if frac = [] then None
         else Some (int (digits_value (take 3 scaled)), start + length frac))"

definition parse_time_of_day :: "rstr \<Rightarrow> (int \<times> int \<times> int \<times> int \<times> nat) option" where
  "parse_time_of_day b =
     (case num b 11 2 of None \<Rightarrow> None | Some hour \<Rightarrow>
        if at b 13 \<noteq> Some 58 then None
        else (case num b 14 2 of None \<Rightarrow> None | Some minute \<Rightarrow>
          (case (if at b 16 = Some 58
                 then (case num b 17 2 of None \<Rightarrow> None | Some second \<Rightarrow>
                         if at b 19 = Some 46
                         then (case parse_fraction b 19 of
                                 None \<Rightarrow> None
                               | Some (milli, e) \<Rightarrow> Some (second, milli, e))
                         else Some (second, 0, 19))
                 else Some (0, 0, 16)) of
             None \<Rightarrow> None
           | Some (second, milli, pos) \<Rightarrow>
               if hour > 24 \<or> minute > 59 \<or> second > 59 then None
               else Some (hour, minute, second, milli, pos))))"

definition parse_zone :: "rstr \<Rightarrow> nat \<Rightarrow> int option" where
  "parse_zone b pos =
     (case at b pos of
        None \<Rightarrow> Some 0
      | Some c \<Rightarrow>
          if c = 90 then (if pos + 1 \<noteq> length b then None else Some 0)
          else if c = 43 \<or> c = 45
          then (case num b (pos + 1) 2 of None \<Rightarrow> None | Some oh \<Rightarrow>
                  if at b (pos + 3) \<noteq> Some 58 then None
                  else (case num b (pos + 4) 2 of None \<Rightarrow> None | Some om \<Rightarrow>
                    if pos + 6 \<noteq> length b then None
                    else let off = (oh * 60 + om) * 60000
                         in Some (if c = 43 then - off else off)))
          else None)"

definition parse_iso8601_ms :: "rstr \<Rightarrow> int option" where
  "parse_iso8601_ms b =
     (case num b 0 4 of None \<Rightarrow> None | Some year \<Rightarrow>
      if at b 4 \<noteq> Some 45 then None
      else (case num b 5 2 of None \<Rightarrow> None | Some month \<Rightarrow>
      if at b 7 \<noteq> Some 45 then None
      else (case num b 8 2 of None \<Rightarrow> None | Some day \<Rightarrow>
      if \<not> (1 \<le> month \<and> month \<le> 12) \<or> \<not> (1 \<le> day \<and> day \<le> 31) then None
      else (case (if at b 10 = Some 84 then parse_time_of_day b else Some (0, 0, 0, 0, 10)) of
              None \<Rightarrow> None
            | Some (hour, minute, second, milli, pos) \<Rightarrow>
      (case parse_zone b pos of None \<Rightarrow> None | Some offset_ms \<Rightarrow>
         Some (days_from_civil year month day * 86400000 + hour * 3600000 + minute * 60000
               + second * 1000 + milli + offset_ms))))))"

section \<open>Facts about the calendar\<close>

text \<open>Inside one 400-year era: the year of a day, and the day a year starts on.\<close>

definition leapless_day :: "int \<Rightarrow> int" where
  "leapless_day d = d - d div 1460 + d div 36524 - d div 146096"

definition year_start :: "int \<Rightarrow> int" where
  "year_start y = 365 * y + y div 4 - y div 100"

lemma leapless_step:
  assumes "0 \<le> d" "d < 146096"
  shows "leapless_day d \<le> leapless_day (d + 1)"
proof (cases "d = 146095")
  case True
  then show ?thesis by (simp add: leapless_day_def)
next
  case False
  with assms have z: "d div 146096 = 0" "(d + 1) div 146096 = 0" by auto
  have "(d + 1) div 1460 \<le> (d + 1 * 1460) div 1460" by (rule zdiv_mono1) auto
  then have "(d + 1) div 1460 \<le> d div 1460 + 1" by simp
  moreover have "d div 36524 \<le> (d + 1) div 36524" by (rule zdiv_mono1) auto
  ultimately show ?thesis by (simp add: leapless_day_def z)
qed

lemma leapless_mono: "a \<le> b \<Longrightarrow> 0 \<le> a \<Longrightarrow> b \<le> 146096 \<Longrightarrow> leapless_day a \<le> leapless_day b"
proof (induction b rule: int_ge_induct)
  case (step i)
  then show ?case using leapless_step [of i] by simp
qed simp_all

lemma year_of_day_mono:
  "a \<le> b \<Longrightarrow> 0 \<le> a \<Longrightarrow> b \<le> 146096 \<Longrightarrow> leapless_day a div 365 \<le> leapless_day b div 365"
  by (intro zdiv_mono1 leapless_mono) simp_all

text \<open>The first and the last day of each of the 400 years, checked one by one.\<close>

lemma era_year_ends:
  "list_all (\<lambda>y. leapless_day (year_start y) div 365 = y
     \<and> leapless_day (min 146096 (year_start (y + 1) - 1)) div 365 = y) [0..399]"
  by code_simp

lemma era_year_end:
  "0 \<le> y \<Longrightarrow> y \<le> 399 \<Longrightarrow> leapless_day (year_start y) div 365 = y
     \<and> leapless_day (min 146096 (year_start (y + 1) - 1)) div 365 = y"
  using era_year_ends by (simp add: list_all_iff)

lemma year_start_nonneg: "0 \<le> y \<Longrightarrow> 0 \<le> year_start y"
  using zdiv_mono2 [of y 4 100] by (simp add: year_start_def)

lemma year_length: "year_start (y + 1) \<le> year_start y + 366"
proof -
  have "(y + 1) div 4 \<le> (y + 1 * 4) div 4" by (rule zdiv_mono1) auto
  moreover have "y div 100 \<le> (y + 1) div 100" by (rule zdiv_mono1) auto
  ultimately show ?thesis by (simp add: year_start_def)
qed

lemma year_start_upper: "0 \<le> y \<Longrightarrow> y \<le> 399 \<Longrightarrow> year_start y \<le> 146096"
  using zdiv_mono1 [of y 399 4] pos_imp_zdiv_nonneg_iff [of 100 y] by (simp add: year_start_def)

lemmas year_start_bounds = year_start_nonneg year_length year_start_upper

lemma day_in_its_year:
  assumes "0 \<le> doe" "doe \<le> 146096" and y: "y = leapless_day doe div 365"
  shows "0 \<le> y" "y \<le> 399" "year_start y \<le> doe" "doe \<le> year_start y + 365"
proof -
  have "leapless_day 0 div 365 \<le> y" "y \<le> leapless_day 146096 div 365"
    unfolding y using assms by (simp_all add: year_of_day_mono)
  then show b: "0 \<le> y" "y \<le> 399" by (simp_all add: leapless_day_def)
  show "year_start y \<le> doe"
  proof (rule ccontr)
    assume n: "\<not> year_start y \<le> doe"
    then have "y \<noteq> 0" using assms(1) by (auto simp: year_start_def)
    with n b assms have "leapless_day doe div 365
        \<le> leapless_day (min 146096 (year_start ((y - 1) + 1) - 1)) div 365"
      by (intro year_of_day_mono) (auto simp: year_start_bounds)
    with b \<open>y \<noteq> 0\<close> y show False using era_year_end [of "y - 1"] by simp
  qed
  show "doe \<le> year_start y + 365"
  proof (rule ccontr)
    assume n: "\<not> doe \<le> year_start y + 365"
    then have s: "year_start (y + 1) \<le> doe" using year_length [of y] by simp
    have "y \<noteq> 399" using n assms(2) by (auto simp: year_start_def)
    with s b assms have "leapless_day (year_start (y + 1)) div 365 \<le> leapless_day doe div 365"
      by (intro year_of_day_mono) (auto simp: year_start_bounds)
    with b \<open>y \<noteq> 399\<close> y show False using era_year_end [of "y + 1"] by simp
  qed
qed

text \<open>The month and the day inside a March-based year.\<close>

lemma month_of_day:
  fixes doy mp :: int
  assumes "0 \<le> doy" "doy \<le> 365" and mp: "mp = (5 * doy + 2) div 153"
  shows "0 \<le> mp" "mp \<le> 11"
    "1 \<le> doy - (153 * mp + 2) div 5 + 1" "doy - (153 * mp + 2) div 5 + 1 \<le> 31"
proof -
  have b: "153 * mp \<le> 5 * doy + 2" "5 * doy + 2 < 153 * mp + 153"
    using mp by auto
  with assms show mr: "0 \<le> mp" "mp \<le> 11" by auto
  then have "mp \<in> set [0..11]" by simp
  then have "mp \<in> {0, 1, 2, 3, 4, 5, 6, 7, 8, 9, 10, 11}" by (simp add: upto_rec1)
  with b assms(1,2) show "1 \<le> doy - (153 * mp + 2) div 5 + 1" "doy - (153 * mp + 2) div 5 + 1 \<le> 31"
    by auto
qed

lemma civil_from_days_correct:
  assumes "civil_from_days z0 = (y, m, d)"
  shows "days_from_civil y m d = z0" "1 \<le> m" "m \<le> 12" "1 \<le> d" "d \<le> 31"
proof -
  define z where "z = z0 + 719468"
  define era where "era = z div 146097"
  define doe where "doe = z - era * 146097"
  define yoe where "yoe = leapless_day doe div 365"
  define doy where "doy = doe - year_start yoe"
  define mp where "mp = (5 * doy + 2) div 153"
  have doe: "0 \<le> doe" "doe \<le> 146096"
    by (auto simp: doe_def era_def minus_div_mult_eq_mod)
  note yr = day_in_its_year [OF doe yoe_def]
  have doy: "0 \<le> doy" "doy \<le> 365" using yr by (auto simp: doy_def)
  note mo = month_of_day [OF doy mp_def]
  have "civil_from_days z0 =
      (let m = (if mp < 10 then mp + 3 else mp - 9);
           y = yoe + era * 400
       in ((if m \<le> 2 then y + 1 else y), m, doy - (153 * mp + 2) div 5 + 1))"
    by (simp only: civil_from_days_def Let_def mp_def doy_def yoe_def doe_def era_def z_def
        leapless_day_def year_start_def)
  with assms have dd: "d = doy - (153 * mp + 2) div 5 + 1"
    and mm: "m = (if mp < 10 then mp + 3 else mp - 9)"
    and yy: "y = (if m \<le> 2 then yoe + era * 400 + 1 else yoe + era * 400)"
    by (auto simp: Let_def)
  show "1 \<le> m" "m \<le> 12" "1 \<le> d" "d \<le> 31" using mm dd mo by auto
  have y': "(if m \<le> 2 then y - 1 else y) = yoe + era * 400" using yy by simp
  have e: "(yoe + era * 400) div 400 = era" using yr by simp
  have mp: "(m + 9) mod 12 = mp" using mm mo(1,2) by (simp split: if_splits)
  have "days_from_civil y m d =
      era * 146097 + ((yoe + era * 400 - era * 400) * 365 + (yoe + era * 400 - era * 400) div 4
        - (yoe + era * 400 - era * 400) div 100 + ((153 * mp + 2) div 5 + d - 1)) - 719468"
    by (simp only: days_from_civil_def Let_def y' e mp)
  also have "\<dots> = era * 146097 + (year_start yoe + doy) - 719468"
    by (simp add: dd year_start_def)
  also have "\<dots> = z0" by (simp add: doy_def doe_def z_def)
  finally show "days_from_civil y m d = z0" .
qed

section \<open>Facts about the text\<close>

text \<open>The canonical layout, written out character by character.\<close>

lemma parse_layout:
  assumes "list_all digit_char [y1, y2, y3, y4, m1, m2, d1, d2, h1, h2, n1, n2, s1, s2, f1, f2, f3]"
  shows "parse_iso8601_ms [y1, y2, y3, y4, 45, m1, m2, 45, d1, d2, 84, h1, h2, 58, n1, n2, 58,
      s1, s2, 46, f1, f2, f3, 90] =
    (let month = int (digits_value [m1, m2]); day = int (digits_value [d1, d2]);
         hour = int (digits_value [h1, h2]); minute = int (digits_value [n1, n2]);
         second = int (digits_value [s1, s2])
     in if \<not> (1 \<le> month \<and> month \<le> 12) \<or> \<not> (1 \<le> day \<and> day \<le> 31) then None
        else if hour > 24 \<or> minute > 59 \<or> second > 59 then None
        else Some (days_from_civil (int (digits_value [y1, y2, y3, y4])) month day * 86400000
               + hour * 3600000 + minute * 60000 + second * 1000 + int (digits_value [f1, f2, f3])))"
proof -
  have z: "\<not> digit_char 90" by (simp add: digit_char_def)
  show ?thesis
    using assms
    by (simp add: parse_iso8601_ms_def num_def at_def parse_time_of_day_def parse_fraction_def
        parse_zone_def Let_def z)
qed

text \<open>A padded field of width two, three or four is that many digits with its value.\<close>

lemma dec_int_pad_digits:
  assumes "0 < n" "0 \<le> v" "v < 10 ^ n"
  shows "length (dec_int_pad n v) = n \<and> list_all digit_char (dec_int_pad n v)
    \<and> int (digits_value (dec_int_pad n v)) = v"
  using assms by (simp add: dec_int_pad_def length_dec_pad nat_less_iff dec_pad_digits)

lemma dec_int_pad_2:
  "0 \<le> v \<Longrightarrow> v < 100 \<Longrightarrow> \<exists>a b. dec_int_pad 2 v = [a, b] \<and> list_all digit_char [a, b]
     \<and> int (digits_value [a, b]) = v"
  using dec_int_pad_digits [of 2 v]
  by (auto simp: numeral_eq_Suc length_Suc_conv)

lemma dec_int_pad_3:
  "0 \<le> v \<Longrightarrow> v < 1000 \<Longrightarrow> \<exists>a b c. dec_int_pad 3 v = [a, b, c] \<and> list_all digit_char [a, b, c]
     \<and> int (digits_value [a, b, c]) = v"
  using dec_int_pad_digits [of 3 v]
  by (auto simp: numeral_eq_Suc length_Suc_conv)

lemma dec_int_pad_4:
  "0 \<le> v \<Longrightarrow> v < 10000 \<Longrightarrow> \<exists>a b c d. dec_int_pad 4 v = [a, b, c, d]
     \<and> list_all digit_char [a, b, c, d] \<and> int (digits_value [a, b, c, d]) = v"
  using dec_int_pad_digits [of 4 v]
  by (auto simp: numeral_eq_Suc length_Suc_conv)

lemma parse_canonical:
  assumes "0 \<le> y" "y \<le> 9999" "1 \<le> m" "m \<le> 12" "1 \<le> d" "d \<le> 31"
    and "0 \<le> hh" "hh \<le> 24" "0 \<le> mm" "mm \<le> 59" "0 \<le> ss" "ss \<le> 59" "0 \<le> ms" "ms \<le> 999"
  shows "parse_iso8601_ms
      (dec_int_pad 4 y @ [45] @ dec_int_pad 2 m @ [45] @ dec_int_pad 2 d @ [84]
       @ dec_int_pad 2 hh @ [58] @ dec_int_pad 2 mm @ [58] @ dec_int_pad 2 ss
       @ [46] @ dec_int_pad 3 ms @ [90]) =
     Some (days_from_civil y m d * 86400000 + hh * 3600000 + mm * 60000 + ss * 1000 + ms)"
proof -
  obtain y1 y2 y3 y4 where y: "dec_int_pad 4 y = [y1, y2, y3, y4]"
      "list_all digit_char [y1, y2, y3, y4]" "int (digits_value [y1, y2, y3, y4]) = y"
    using dec_int_pad_4 [of y] assms by auto
  obtain m1 m2 where m: "dec_int_pad 2 m = [m1, m2]" "list_all digit_char [m1, m2]"
      "int (digits_value [m1, m2]) = m" using dec_int_pad_2 [of m] assms by auto
  obtain d1 d2 where d: "dec_int_pad 2 d = [d1, d2]" "list_all digit_char [d1, d2]"
      "int (digits_value [d1, d2]) = d" using dec_int_pad_2 [of d] assms by auto
  obtain h1 h2 where h: "dec_int_pad 2 hh = [h1, h2]" "list_all digit_char [h1, h2]"
      "int (digits_value [h1, h2]) = hh" using dec_int_pad_2 [of hh] assms by auto
  obtain n1 n2 where n: "dec_int_pad 2 mm = [n1, n2]" "list_all digit_char [n1, n2]"
      "int (digits_value [n1, n2]) = mm" using dec_int_pad_2 [of mm] assms by auto
  obtain s1 s2 where s: "dec_int_pad 2 ss = [s1, s2]" "list_all digit_char [s1, s2]"
      "int (digits_value [s1, s2]) = ss" using dec_int_pad_2 [of ss] assms by auto
  obtain f1 f2 f3 where f: "dec_int_pad 3 ms = [f1, f2, f3]" "list_all digit_char [f1, f2, f3]"
      "int (digits_value [f1, f2, f3]) = ms" using dec_int_pad_3 [of ms] assms by auto
  have "list_all digit_char [y1, y2, y3, y4, m1, m2, d1, d2, h1, h2, n1, n2, s1, s2, f1, f2, f3]"
    using y(2) m(2) d(2) h(2) n(2) s(2) f(2) by simp
  from parse_layout [OF this] show ?thesis
    unfolding y(1) m(1) d(1) h(1) n(1) s(1) f(1)
    using assms by (simp add: y(3) m(3) d(3) h(3) n(3) s(3) f(3) Let_def)
qed

lemma time_of_day_split:
  fixes r :: int
  shows "r div 3600000 * 3600000 + (r div 60000 mod 60) * 60000 + (r div 1000 mod 60) * 1000
    + r mod 1000 = r"
proof -
  have "r div 1000 div 60 = r div 60000" "r div 60000 div 60 = r div 3600000"
    using zdiv_zmult2_eq [of 60 r 1000] zdiv_zmult2_eq [of 60 r 60000] by simp_all
  moreover have "r = r div 1000 * 1000 + r mod 1000"
    "r div 1000 = r div 1000 div 60 * 60 + r div 1000 mod 60"
    "r div 60000 = r div 60000 div 60 * 60 + r div 60000 mod 60" by simp_all
  ultimately show ?thesis by presburger
qed

section \<open>Properties of timestamps\<close>

text \<open>
  The calendar is exact in both directions: the date of every day number, however far from
  the epoch, has a month from 1 to 12 and a day from 1 to 31 and is the date of that day.
\<close>

theorem civil_calendar_roundtrip:
  assumes "civil_from_days z = (y, m, d)"
  shows "days_from_civil y m d = z \<and> 1 \<le> m \<and> m \<le> 12 \<and> 1 \<le> d \<and> d \<le> 31"
  using civil_from_days_correct [OF assms] by simp

theorem civil_calendar_roundtrip_witness:
  "days_from_civil 2026 9 2 = 20698 \<and> 1 \<le> (9 :: int) \<and> (9 :: int) \<le> 12"
proof -
  have "civil_from_days 20698 = (2026, 9, 2)" by code_simp
  from civil_calendar_roundtrip [OF this] show ?thesis by simp
qed

lemma iso8601_reads_back:
  assumes "civil_from_days (ms div 86400000) = (y, m, d)" and "0 \<le> y" and "y \<le> 9999"
  shows "parse_iso8601_ms (iso8601_from_epoch_ms ms) = Some ms"
proof -
  define rem where "rem = ms mod 86400000"
  have r: "0 \<le> rem" "rem < 86400000" by (simp_all add: rem_def)
  note c = civil_from_days_correct [OF assms(1)]
  have lt: "k mod 60 \<le> 59" "0 \<le> k mod 60" "k mod 1000 \<le> 999" "0 \<le> k mod 1000" for k :: int
    using pos_mod_bound [of 60 k] pos_mod_bound [of 1000 k] by simp_all
  have h: "0 \<le> rem div 3600000" "rem div 3600000 \<le> 24"
    using r zdiv_mono1 [of rem 86400000 3600000] by (simp_all add: pos_imp_zdiv_nonneg_iff)
  have t: "iso8601_from_epoch_ms ms =
      dec_int_pad 4 y @ [45] @ dec_int_pad 2 m @ [45] @ dec_int_pad 2 d @ [84]
      @ dec_int_pad 2 (rem div 3600000) @ [58] @ dec_int_pad 2 (rem div 60000 mod 60) @ [58]
      @ dec_int_pad 2 (rem div 1000 mod 60) @ [46] @ dec_int_pad 3 (rem mod 1000) @ [90]"
    by (simp only: iso8601_from_epoch_ms_def Let_def assms(1) prod.case rem_def)
  have "parse_iso8601_ms (iso8601_from_epoch_ms ms) = Some (days_from_civil y m d * 86400000
      + rem div 3600000 * 3600000 + (rem div 60000 mod 60) * 60000 + (rem div 1000 mod 60) * 1000
      + rem mod 1000)"
    unfolding t by (rule parse_canonical [OF assms(2,3) c(2-5) h lt(2,1) lt(2,1) lt(4,3)])
  moreover have "z * 86400000 + rem div 3600000 * 3600000 + (rem div 60000 mod 60) * 60000
      + (rem div 1000 mod 60) * 1000 + rem mod 1000 = z * 86400000 + rem" for z
    using time_of_day_split [of rem] by linarith
  ultimately show ?thesis using c(1) by (simp only: rem_def div_mult_mod_eq)
qed

text \<open>
  A timestamp written by the registry reads back to the millisecond, for every instant of
  the years 0 to 9999.
\<close>

theorem iso8601_roundtrip:
  assumes "civil_from_days (ms div 86400000) = (y, m, d)" and "0 \<le> y" and "y \<le> 9999"
  shows "parse_iso8601_ms (iso8601_from_epoch_ms ms) = Some ms"
  by (rule iso8601_reads_back [OF assms])

theorem iso8601_roundtrip_witness:
  "parse_iso8601_ms (iso8601_from_epoch_ms 1775384103000) = Some 1775384103000"
  by (rule iso8601_roundtrip [of _ 2026 4 5]) code_simp+

end
