(* ===== verification/Durations.thy ===== *)
theory Durations
  imports Text_Numbers
begin

text \<open>
  Compact durations (\<^verbatim>\<open>crates/pty-core/src/duration.rs\<close>). The source walks the bytes of the
  trimmed text; a last character of several bytes and a last character that is no unit are both
  refused, so the scalars decide alike. Milliseconds are an \<open>i64\<close>: a number or a product outside it is
  \<open>None\<close>.
\<close>

section \<open>White space and case\<close>

text \<open>\<open>char::is_whitespace\<close>, the Unicode property, and \<open>u8::is_ascii_whitespace\<close>.\<close>

definition is_whitespace :: "rchar \<Rightarrow> bool" where
  "is_whitespace c \<longleftrightarrow>
     9 \<le> c \<and> c \<le> 13 \<or> c = 32 \<or> c = 0x85 \<or> c = 0xA0 \<or> c = 0x1680
     \<or> 0x2000 \<le> c \<and> c \<le> 0x200A \<or> c = 0x2028 \<or> c = 0x2029 \<or> c = 0x202F \<or> c = 0x205F
     \<or> c = 0x3000"

definition is_ascii_whitespace :: "rchar \<Rightarrow> bool" where
  "is_ascii_whitespace c \<longleftrightarrow> c = 32 \<or> c = 9 \<or> c = 10 \<or> c = 12 \<or> c = 13"

definition trim_matches :: "(rchar \<Rightarrow> bool) \<Rightarrow> rstr \<Rightarrow> rstr" where
  "trim_matches p s = rev (dropWhile p (rev (dropWhile p s)))"

definition trim :: "rstr \<Rightarrow> rstr" where
  "trim s = trim_matches is_whitespace s"

definition ascii_lower :: "rchar \<Rightarrow> rchar" where
  "ascii_lower c = (if 65 \<le> c \<and> c \<le> 90 then c + 32 else c)"

definition I64_MAX :: int where
  "I64_MAX = 2 ^ 63 - 1"

section \<open>Parsing and formatting\<close>

definition unit_ms :: "rchar \<Rightarrow> int option" where
  "unit_ms c =
     (if c = 115 then Some 1000
      else if c = 109 then Some (60 * 1000)
      else if c = 104 then Some (60 * 60 * 1000)
      else if c = 100 then Some (24 * 60 * 60 * 1000)
      else None)"

definition parse_duration :: "rstr \<Rightarrow> int option" where
  "parse_duration input =
     (let s = trim input;
          digits = takeWhile digit_char s;
          rest = dropWhile is_ascii_whitespace (drop (length digits) s)
      in if s = [] \<or> digits = [] then None
         else (case rest of
                 [u] \<Rightarrow>
                   (case unit_ms (ascii_lower u) of
                      None \<Rightarrow> None
                    | Some ms \<Rightarrow>
                        (let n = int (digits_value digits) in
                         if n > I64_MAX then None
                         else if n * ms > I64_MAX then None
                         else Some (n * ms)))
               | _ \<Rightarrow> None))"

text \<open>\<open>/\<close> on \<open>i64\<close> truncates towards zero.\<close>

definition rust_div :: "int \<Rightarrow> int \<Rightarrow> int" where
  "rust_div a b = sgn a * sgn b * (\<bar>a\<bar> div \<bar>b\<bar>)"

definition format_duration :: "int \<Rightarrow> rstr" where
  "format_duration ms =
     (let seconds = max (rust_div ms 1000) 0 in
      if seconds < 60 then dec_int seconds @ [115]
      else let minutes = seconds div 60 in
      if minutes < 60 then
        (let s = seconds mod 60 in
         if s = 0 then dec_int minutes @ [109] else dec_int minutes @ [109] @ dec_int s @ [115])
      else let hours = minutes div 60 in
      if hours < 24 then
        (let m = minutes mod 60 in
         if m = 0 then dec_int hours @ [104] else dec_int hours @ [104] @ dec_int m @ [109])
      else let days = hours div 24; h = hours mod 24 in
        if h = 0 then dec_int days @ [100] else dec_int days @ [100] @ dec_int h @ [104])"

section \<open>Facts\<close>

lemma dropWhile_all: "list_all p s \<Longrightarrow> dropWhile p (s @ t) = dropWhile p t"
  by (induction s) auto

lemma trim_matches_around:
  assumes "list_all p a" "list_all p b" "s \<noteq> []" "\<not> p (hd s)" "\<not> p (last s)"
  shows "trim_matches p (a @ s @ b) = s"
proof -
  have "dropWhile p (a @ s @ b) = s @ b"
    using assms by (simp add: dropWhile_all) (cases s; simp)
  moreover have "dropWhile p (rev (s @ b)) = rev s"
  proof -
    have "list_all p (rev b)" using assms(2) by (simp add: list_all_iff)
    then have "dropWhile p (rev b @ rev s) = dropWhile p (rev s)" by (rule dropWhile_all)
    also have "\<dots> = rev s" using assms(3,5) by (cases s rule: rev_cases) simp_all
    finally show ?thesis by simp
  qed
  ultimately show ?thesis by (simp add: trim_matches_def)
qed

lemma digit_not_whitespace: "digit_char c \<Longrightarrow> \<not> is_whitespace c \<and> \<not> is_ascii_whitespace c"
  by (auto simp: digit_char_def is_whitespace_def is_ascii_whitespace_def)

lemma hd_dec_digit: "digit_char (hd (dec n))"
  using dec_digits [of n] by (cases "dec n") (auto simp: dec_ne_Nil [THEN notE])

lemma unit_char: "unit_ms (ascii_lower u) = Some ms \<Longrightarrow>
   \<not> is_whitespace u \<and> \<not> digit_char u \<and> \<not> is_ascii_whitespace u \<and> 0 < ms"
  by (auto simp: unit_ms_def ascii_lower_def is_whitespace_def is_ascii_whitespace_def
      digit_char_def split: if_splits)

lemma parse_duration_parts:
  assumes ws: "list_all is_whitespace pre" "list_all is_whitespace post"
    and gap: "list_all is_ascii_whitespace gap"
    and u: "unit_ms (ascii_lower u) = Some ms"
  shows "parse_duration (pre @ dec n @ gap @ [u] @ post) =
    (if int n * ms \<le> I64_MAX then Some (int n * ms) else None)"
proof -
  have t: "trim (pre @ (dec n @ gap @ [u]) @ post) = dec n @ gap @ [u]"
    unfolding trim_def
    using ws unit_char [OF u] hd_dec_digit [of n] digit_not_whitespace
    by (intro trim_matches_around) (simp_all add: hd_append)
  have nd: "case gap @ [u] of [] \<Rightarrow> True | c # _ \<Rightarrow> \<not> digit_char c"
    using gap unit_char [OF u]
    by (cases gap) (auto simp: digit_not_whitespace dest: digit_not_whitespace)
  have tw: "takeWhile digit_char (dec n @ gap @ [u]) = dec n"
    using takeWhile_digits [OF dec_digits nd] .
  have dw: "dropWhile is_ascii_whitespace (gap @ [u]) = [u]"
    using gap unit_char [OF u] by (simp add: dropWhile_all)
  have big: "I64_MAX < int n * ms" if "I64_MAX < int n"
    using that unit_char [OF u] mult_left_mono [of 1 ms "int n"] by simp
  show ?thesis
    using t tw dw u big by (auto simp: parse_duration_def Let_def)
qed

section \<open>Properties of durations\<close>

text \<open>
  A number and a unit, in either case, with white space around them and between them, is
  read as that many milliseconds exactly, and as nothing when it does not fit in 64 bits.
\<close>

theorem parse_duration_exact:
  assumes "list_all is_whitespace pre" and "list_all is_whitespace post"
    and "list_all is_ascii_whitespace gap"
    and "(u, ms) \<in> {(115, 1000), (83, 1000), (109, 60000), (77, 60000),
                     (104, 3600000), (72, 3600000), (100, 86400000), (68, 86400000)}"
  shows "parse_duration (pre @ dec n @ gap @ [u] @ post) =
    (if int n * ms \<le> I64_MAX then Some (int n * ms) else None)"
  using assms(4)
  by (intro parse_duration_parts [OF assms(1-3)]) (auto simp: unit_ms_def ascii_lower_def)

theorem parse_duration_exact_witness:
  "parse_duration ([32] @ dec 7 @ [32, 9] @ [68] @ [10]) =
    (if int 7 * 86400000 \<le> I64_MAX then Some (int 7 * 86400000) else None)"
  by (rule parse_duration_exact) (simp_all add: is_whitespace_def is_ascii_whitespace_def)

end
