(* ===== verification/Names.thy ===== *)
theory Names
  imports Durations Time_Format
begin

text \<open>
  Session ids and display names (\<^verbatim>\<open>crates/pty-core/src/registry/names.rs\<close>): the checks, in the
  order the code makes them, the random id drawn from eight bytes, the automatic display name of
  \<^verbatim>\<open>pty run\<close> and the short forms \<^verbatim>\<open>pty list\<close> prints. An error is a constructor that keeps what the
  text of the message is built from. Bytes of the random source, the home directory, the clock and the
  path of the socket are arguments.
\<close>

section \<open>Lengths of a string\<close>

text \<open>\<open>str::len\<close> counts UTF-8 bytes, \<open>encode_utf16().count()\<close> UTF-16 units.\<close>

definition utf8_width :: "rchar \<Rightarrow> nat" where
  "utf8_width c = (if c < 0x80 then 1 else if c < 0x800 then 2 else if c < 0x10000 then 3 else 4)"

definition utf8_len :: "rstr \<Rightarrow> nat" where
  "utf8_len s = sum_list (map utf8_width s)"

definition utf16_len :: "rstr \<Rightarrow> nat" where
  "utf16_len s = sum_list (map (\<lambda>c. if c < 0x10000 then 1 else 2) s)"

definition is_control :: "rchar \<Rightarrow> bool" where
  "is_control c \<longleftrightarrow> c < 0x20 \<or> 0x7F \<le> c \<and> c \<le> 0x9F"

section \<open>Checks\<close>

datatype name_error =
    NameEmpty
  | NameIsDots rstr
  | NameTooLong
  | NameBadChars rstr
  | NameTooLongForSidecars
  | SocketPathTooLong rstr nat nat
  | DisplayEmpty
  | DisplayUntrimmed
  | DisplayTooLong
  | DisplayControl

definition is_name_char :: "rchar \<Rightarrow> bool" where
  "is_name_char c \<longleftrightarrow>
     48 \<le> c \<and> c \<le> 57 \<or> 65 \<le> c \<and> c \<le> 90 \<or> 97 \<le> c \<and> c \<le> 122 \<or> c = 46 \<or> c = 95 \<or> c = 45"

definition validate_name_lexical :: "rstr \<Rightarrow> name_error + unit" where
  "validate_name_lexical name =
     (if name = [] then Inl NameEmpty
      else if name = ustr ''.'' \<or> name = ustr ''..'' then Inl (NameIsDots name)
      else if utf16_len name > 255 then Inl NameTooLong
      else if \<not> list_all is_name_char name then Inl (NameBadChars name)
      else if utf8_len name > 209 then Inl NameTooLongForSidecars
      else Inr ())"

definition SUN_PATH_MAX :: "bool \<Rightarrow> nat" where
  "SUN_PATH_MAX macos = (if macos then 103 else 104)"

definition validate_name :: "bool \<Rightarrow> (rstr \<Rightarrow> rstr) \<Rightarrow> rstr \<Rightarrow> name_error + unit" where
  "validate_name macos socket_path name =
     (case validate_name_lexical name of
        Inl e \<Rightarrow> Inl e
      | Inr _ \<Rightarrow>
          (let byte_len = utf8_len (socket_path name) in
           if byte_len > SUN_PATH_MAX macos
           then Inl (SocketPathTooLong name byte_len (byte_len - SUN_PATH_MAX macos))
           else Inr ()))"

definition is_js_whitespace :: "rchar \<Rightarrow> bool" where
  "is_js_whitespace c \<longleftrightarrow>
     c = 9 \<or> c = 0xA \<or> c = 0xB \<or> c = 0xC \<or> c = 0xD \<or> c = 0x20 \<or> c = 0xA0 \<or> c = 0x1680
     \<or> 0x2000 \<le> c \<and> c \<le> 0x200A \<or> c = 0x2028 \<or> c = 0x2029 \<or> c = 0x202F \<or> c = 0x205F
     \<or> c = 0x3000 \<or> c = 0xFEFF"

definition js_trim :: "rstr \<Rightarrow> rstr" where
  "js_trim s = trim_matches is_js_whitespace s"

definition validate_display_name :: "rstr \<Rightarrow> name_error + unit" where
  "validate_display_name name =
     (if name = [] then Inl DisplayEmpty
      else if name \<noteq> js_trim name then Inl DisplayUntrimmed
      else if length name > 160 then Inl DisplayTooLong
      else if list_ex (\<lambda>c. is_control c \<or> c = 0x2028 \<or> c = 0x2029) name then Inl DisplayControl
      else Inr ())"

section \<open>Random ids\<close>

definition SESSION_ID_ALPHABET :: rstr where
  "SESSION_ID_ALPHABET = ustr ''23456789abcdefghjkmnpqrstuvwxyz''"

definition random_session_name :: "bytes \<Rightarrow> rstr" where
  "random_session_name random_bytes =
     map (\<lambda>b. SESSION_ID_ALPHABET ! (unat b mod length SESSION_ID_ALPHABET)) random_bytes"

section \<open>The automatic display name\<close>

definition trim_end_matches :: "(rchar \<Rightarrow> bool) \<Rightarrow> rstr \<Rightarrow> rstr" where
  "trim_end_matches p s = rev (dropWhile p (rev s))"

definition after_last :: "rchar \<Rightarrow> rstr \<Rightarrow> rstr" where
  "after_last c s = rev (takeWhile (\<lambda>x. x \<noteq> c) (rev s))"

definition basename :: "rstr \<Rightarrow> rstr" where
  "basename p =
     (let trimmed = trim_end_matches (\<lambda>c. c = 47) p in
      if trimmed = [] then [] else after_last 47 trimmed)"

text \<open>The final \<^verbatim>\<open>.ext\<close> goes when something follows the dot.\<close>

definition strip_extension :: "rstr \<Rightarrow> rstr" where
  "strip_extension base =
     (if 46 \<in> set base \<and> after_last 46 base \<noteq> []
      then take (length base - length (after_last 46 base) - 1) base
      else base)"

fun sanitize_loop :: "rstr \<Rightarrow> rstr \<Rightarrow> rstr" where
  "sanitize_loop out [] = out"
| "sanitize_loop out (x # xs) =
     (let c = if is_name_char x then x else 45 in
      if c = 45 \<and> out \<noteq> [] \<and> last out = 45 then sanitize_loop out xs
      else sanitize_loop (out @ [c]) xs)"

definition sanitize_display_name :: "rstr \<Rightarrow> rstr" where
  "sanitize_display_name candidate = trim_matches (\<lambda>c. c = 45) (sanitize_loop [] candidate)"

definition auto_display_name :: "rstr \<Rightarrow> rstr \<Rightarrow> rstr list \<Rightarrow> rstr" where
  "auto_display_name cwd cmd args =
     (let dir_part = basename cwd;
          cmd_base = basename cmd;
          first_arg = find (\<lambda>a. \<not> (a \<noteq> [] \<and> hd a = 45) \<and> utf16_len a < 30) args;
          cmd_part =
            (case first_arg of
               None \<Rightarrow> cmd_base
             | Some first \<Rightarrow>
                 (let arg_base = strip_extension (basename first) in
                  if arg_base \<noteq> [] \<and> list_all is_name_char arg_base
                  then cmd_base @ [45] @ arg_base else cmd_base))
      in sanitize_display_name (dir_part @ [45] @ cmd_part))"

section \<open>Short forms for listings\<close>

definition strip_prefix :: "rstr \<Rightarrow> rstr \<Rightarrow> rstr option" where
  "strip_prefix pre s = (if take (length pre) s = pre then Some (drop (length pre) s) else None)"

definition short_path :: "rstr \<Rightarrow> rstr \<Rightarrow> rstr" where
  "short_path home p =
     (if home = [] then p
      else if p = home then ustr ''~''
      else (case strip_prefix (home @ ustr ''/'') p of
              Some rest \<Rightarrow> ustr ''~/'' @ rest
            | None \<Rightarrow> p))"

definition time_ago_from_seconds :: "int \<Rightarrow> rstr" where
  "time_ago_from_seconds seconds =
     (if seconds < 60 then dec_int seconds @ ustr ''s ago''
      else let minutes = seconds div 60 in
      if minutes < 60 then dec_int minutes @ ustr ''m ago''
      else let hours = minutes div 60 in
      if hours < 24 then dec_int hours @ ustr ''h ago''
      else dec_int (hours div 24) @ ustr ''d ago'')"

definition time_ago :: "int \<Rightarrow> rstr \<Rightarrow> rstr" where
  "time_ago now_ms stamp =
     (case parse_iso8601_ms stamp of
        Some t \<Rightarrow> time_ago_from_seconds ((now_ms - t) div 1000)
      | None \<Rightarrow> ustr ''NaNs ago'')"

section \<open>Facts\<close>

lemma name_char_ascii: "is_name_char c \<Longrightarrow> c < 0x80"
  by (auto simp: is_name_char_def)

lemma utf8_len_ascii: "list_all is_name_char s \<Longrightarrow> utf8_len s = length s"
  by (induction s) (auto simp: utf8_len_def utf8_width_def dest: name_char_ascii)

lemma utf16_len_ascii: "list_all is_name_char s \<Longrightarrow> utf16_len s = length s"
  by (induction s) (auto simp: utf16_len_def dest: name_char_ascii)

lemma name_char_visible:
  "is_name_char c \<Longrightarrow> \<not> is_js_whitespace c \<and> \<not> is_control c \<and> c \<noteq> 0x2028 \<and> c \<noteq> 0x2029"
  by (auto simp: is_name_char_def is_js_whitespace_def is_control_def)

lemma trim_matches_id:
  assumes "s = [] \<or> \<not> p (hd s) \<and> \<not> p (last s)"
  shows "trim_matches p s = s"
proof (cases "s = []")
  case False
  then show ?thesis using assms trim_matches_around [of p "[]" "[]" s] by simp
qed (simp add: trim_matches_def)

lemma trim_matches_trimmed:
  "trim_matches p s = [] \<or> \<not> p (hd (trim_matches p s)) \<and> \<not> p (last (trim_matches p s))"
proof (cases "trim_matches p s = []")
  case False
  let ?d = "dropWhile p s" and ?t = "trim_matches p s"
  have r: "?t = rev (dropWhile p (rev ?d))" by (simp add: trim_matches_def)
  then have ne: "dropWhile p (rev ?d) \<noteq> []" using False by simp
  then have l: "\<not> p (last ?t)" using r hd_dropWhile [of p "rev ?d"] by (simp add: last_rev)
  have split: "rev ?d = takeWhile p (rev ?d) @ dropWhile p (rev ?d)" by simp
  then have "?d = ?t @ rev (takeWhile p (rev ?d))" using r by (metis rev_append rev_rev_ident)
  then have "hd ?d = hd ?t" and "?d \<noteq> []" using False by (metis hd_append2, metis append_is_Nil_conv)
  then have "\<not> p (hd ?t)" using hd_dropWhile [of p s] by simp
  then show ?thesis using l by simp
qed simp

lemma trim_matches_infix: "\<exists>a b. s = a @ trim_matches p s @ b"
proof -
  let ?d = "dropWhile p s"
  have "s = takeWhile p s @ ?d" by simp
  moreover have "?d = trim_matches p s @ rev (takeWhile p (rev ?d))"
    unfolding trim_matches_def by (metis rev_append rev_rev_ident takeWhile_dropWhile_id)
  ultimately show ?thesis by metis
qed

definition dashes_apart :: "rstr \<Rightarrow> bool" where
  "dashes_apart s \<longleftrightarrow> successively (\<lambda>a b. \<not> (a = 45 \<and> b = 45)) s"

lemma sanitize_loop_clean:
  "list_all is_name_char out \<Longrightarrow> dashes_apart out \<Longrightarrow>
     list_all is_name_char (sanitize_loop out s) \<and> dashes_apart (sanitize_loop out s)"
proof (induction out s rule: sanitize_loop.induct)
  case (2 out x xs)
  show ?case
  proof (cases "(if is_name_char x then x else 45) = 45 \<and> out \<noteq> [] \<and> last out = 45")
    case True
    then show ?thesis using 2 by (simp add: Let_def)
  next
    case False
    have "is_name_char (45 :: nat)" by (simp add: is_name_char_def)
    then have "list_all is_name_char (out @ [if is_name_char x then x else 45])"
      using 2(3) by simp
    moreover have "dashes_apart (out @ [if is_name_char x then x else 45])"
      using 2(4) False by (auto simp: dashes_apart_def successively_append_iff)
    ultimately show ?thesis using 2(2) [OF refl False] False by (simp only: sanitize_loop.simps Let_def if_False)
  qed
qed simp

lemma sanitize_loop_fixed:
  "list_all is_name_char s \<Longrightarrow> dashes_apart (out @ s) \<Longrightarrow> sanitize_loop out s = out @ s"
proof (induction s arbitrary: out)
  case (Cons x xs)
  have "\<not> (x = 45 \<and> out \<noteq> [] \<and> last out = 45)"
    using Cons.prems(2) by (auto simp: dashes_apart_def successively_append_iff)
  then show ?case using Cons.IH [of "out @ [x]"] Cons.prems by auto
qed simp

lemma sanitize_clean:
  "list_all is_name_char (sanitize_display_name s)"
  "dashes_apart (sanitize_display_name s)"
  "sanitize_display_name s = [] \<or>
     hd (sanitize_display_name s) \<noteq> 45 \<and> last (sanitize_display_name s) \<noteq> 45"
proof -
  have c: "list_all is_name_char (sanitize_loop [] s)" "dashes_apart (sanitize_loop [] s)"
    using sanitize_loop_clean [of "[]" s] by (simp_all add: dashes_apart_def)
  obtain a b where ab: "sanitize_loop [] s = a @ sanitize_display_name s @ b"
    using trim_matches_infix [of "sanitize_loop [] s"] unfolding sanitize_display_name_def by blast
  show "list_all is_name_char (sanitize_display_name s)" using c(1) unfolding ab by simp
  show "dashes_apart (sanitize_display_name s)"
    using c(2) unfolding ab by (auto simp: dashes_apart_def successively_append_iff)
  show "sanitize_display_name s = [] \<or>
     hd (sanitize_display_name s) \<noteq> 45 \<and> last (sanitize_display_name s) \<noteq> 45"
    using trim_matches_trimmed [of "\<lambda>c. c = 45" "sanitize_loop [] s"]
    unfolding sanitize_display_name_def by simp
qed

lemma sanitize_fixed:
  assumes "list_all is_name_char s" "dashes_apart s" "s = [] \<or> hd s \<noteq> 45 \<and> last s \<noteq> 45"
  shows "sanitize_display_name s = s"
  unfolding sanitize_display_name_def
  using sanitize_loop_fixed [of s "[]"] assms by (simp add: trim_matches_id)

section \<open>Properties of names\<close>

text \<open>
  The lexical check accepts exactly the nonempty names of at most 209 letters, digits, dots,
  underscores and hyphens other than the two directory entries; such a name holds no path separator
  and its longest sidecar, with 14 bytes of suffix and 32 of temporary suffix, fits in 255 bytes.
\<close>

theorem validate_name_lexical_exact:
  "(validate_name_lexical name = Inr () \<longleftrightarrow>
      name \<noteq> [] \<and> name \<noteq> ustr ''.'' \<and> name \<noteq> ustr ''..'' \<and> list_all is_name_char name
      \<and> length name \<le> 209)
   \<and> (validate_name_lexical name = Inr () \<longrightarrow>
        47 \<notin> set name \<and> 0 \<notin> set name \<and> utf8_len name + 14 + 32 \<le> 255)"
proof -
  have "47 \<notin> set name \<and> 0 \<notin> set name" if "list_all is_name_char name"
    using that by (auto simp: list_all_iff is_name_char_def)
  then show ?thesis
    by (auto simp: validate_name_lexical_def utf8_len_ascii utf16_len_ascii)
qed

theorem validate_name_lexical_exact_witness:
  "validate_name_lexical (ustr ''web-1'') = Inr () \<and> 47 \<notin> set (ustr ''web-1'')"
  using validate_name_lexical_exact [of "ustr ''web-1''"]
  by (simp add: ustr_def is_name_char_def)

text \<open>
  A sanitized display name holds only name characters, no two adjacent dashes and no dash at
  either end; sanitizing again changes nothing; when it is not empty and has at most 160 characters
  the display name check accepts it. This holds of every automatic display name.
\<close>

theorem auto_display_name_clean:
  assumes "d = auto_display_name cwd cmd args"
  shows "list_all is_name_char d \<and> dashes_apart d
    \<and> (d = [] \<or> hd d \<noteq> 45 \<and> last d \<noteq> 45)
    \<and> sanitize_display_name d = d
    \<and> (d \<noteq> [] \<and> length d \<le> 160 \<longrightarrow> validate_display_name d = Inr ())"
proof -
  obtain s where s: "d = sanitize_display_name s" using assms by (auto simp: auto_display_name_def Let_def)
  have c: "list_all is_name_char d" "dashes_apart d" "d = [] \<or> hd d \<noteq> 45 \<and> last d \<noteq> 45"
    unfolding s by (rule sanitize_clean)+
  have "validate_display_name d = Inr ()" if "d \<noteq> []" "length d \<le> 160"
  proof -
    have "js_trim d = d" unfolding js_trim_def using c(1) that(1)
      by (intro trim_matches_id) (auto simp: list_all_iff name_char_visible)
    moreover have "\<not> list_ex (\<lambda>x. is_control x \<or> x = 0x2028 \<or> x = 0x2029) d"
      using c(1) by (auto simp: list_all_iff list_ex_iff dest: name_char_visible)
    ultimately show ?thesis using that by (simp add: validate_display_name_def)
  qed
  then show ?thesis using c sanitize_fixed [OF c] by simp
qed

theorem auto_display_name_clean_witness:
  "auto_display_name (ustr ''/srv/my  app/'') (ustr ''/bin/node'') [ustr ''-v'', ustr ''run.js'']
     = ustr ''my-app-node-run''
   \<and> validate_display_name (ustr ''my-app-node-run'') = Inr ()"
proof -
  have "auto_display_name (ustr ''/srv/my  app/'') (ustr ''/bin/node'') [ustr ''-v'', ustr ''run.js'']
     = ustr ''my-app-node-run''"
    by (simp add: auto_display_name_def basename_def trim_end_matches_def after_last_def
        strip_extension_def sanitize_display_name_def trim_matches_def is_name_char_def utf16_len_def
        ustr_def Let_def)
  then show ?thesis using auto_display_name_clean [OF refl, of "ustr ''/srv/my  app/''"
      "ustr ''/bin/node''" "[ustr ''-v'', ustr ''run.js'']"] by (simp add: ustr_def)
qed

text \<open>
  A random id has one character of the alphabet per random byte, and every id drawn from at
  least one and at most 209 bytes passes the lexical check.
\<close>

theorem random_session_name_valid:
  assumes "0 < length bs" and "length bs \<le> 209"
  shows "length (random_session_name bs) = length bs
    \<and> set (random_session_name bs) \<subseteq> set SESSION_ID_ALPHABET
    \<and> validate_name_lexical (random_session_name bs) = Inr ()"
proof -
  have l: "length SESSION_ID_ALPHABET = 31" by (simp add: SESSION_ID_ALPHABET_def ustr_def)
  have s: "set (random_session_name bs) \<subseteq> set SESSION_ID_ALPHABET"
    by (auto simp: random_session_name_def l)
  have a: "list_all is_name_char SESSION_ID_ALPHABET"
    by (simp add: SESSION_ID_ALPHABET_def ustr_def is_name_char_def)
  have d: "46 \<notin> set SESSION_ID_ALPHABET" by (simp add: SESSION_ID_ALPHABET_def ustr_def)
  have n: "list_all is_name_char (random_session_name bs)" "46 \<notin> set (random_session_name bs)"
    using s a d by (auto simp: list_all_iff)
  have len: "length (random_session_name bs) = length bs" by (simp add: random_session_name_def)
  moreover have "random_session_name bs \<noteq> ustr ''.''" "random_session_name bs \<noteq> ustr ''..''"
    using n(2) by (auto simp: ustr_def)
  ultimately show ?thesis
    using s n assms by (auto simp: validate_name_lexical_def utf8_len_ascii utf16_len_ascii)
qed

theorem random_session_name_valid_witness:
  "random_session_name [0, 31, 255] = ustr ''229''
   \<and> validate_name_lexical (random_session_name [0, 31, 255]) = Inr ()"
  using random_session_name_valid [of "[0, 31, 255]"]
  by (simp add: random_session_name_def SESSION_ID_ALPHABET_def ustr_def)

end
