(* ===== verification/Json_Values.thy ===== *)
theory Json_Values
  imports Pty_Prelude "HOL-Library.AList"
begin

text \<open>
  JSON values and insertion-ordered maps as the registry uses them. The type follows
  \<open>serde_json::Value\<close> with the feature \<open>preserve_order\<close>: a number is a nonnegative \<open>u64\<close>, a negative
  \<open>i64\<close> or a double, given by its bits; an object is an \<open>IndexMap\<close>, a list of entries with distinct
  keys in the order of insertion. \<open>IndexMap::insert\<close> replaces in place or appends (\<open>AList.update\<close>) and
  \<open>shift_remove\<close> closes the gap (\<open>AList.delete\<close>). Equality of objects and of numbers is the one of
  \<^verbatim>\<open>==\<close> in the source: the order of entries does not matter.
\<close>

type_synonym 'v imap = "(rstr \<times> 'v) list"

datatype number =
    PosInt u64
  | NegInt "64 word"
  | Float u64

datatype json =
    JNull
  | JBool bool
  | JNumber number
  | JString rstr
  | JArray "json list"
  | JObject "(rstr \<times> json) list"

abbreviation imap_get :: "'v imap \<Rightarrow> rstr \<Rightarrow> 'v option" where
  "imap_get \<equiv> map_of"

abbreviation imap_insert :: "rstr \<Rightarrow> 'v \<Rightarrow> 'v imap \<Rightarrow> 'v imap" where
  "imap_insert \<equiv> AList.update"

abbreviation shift_remove :: "rstr \<Rightarrow> 'v imap \<Rightarrow> 'v imap" where
  "shift_remove \<equiv> AList.delete"

definition contains_key :: "'v imap \<Rightarrow> rstr \<Rightarrow> bool" where
  "contains_key m k \<longleftrightarrow> map_of m k \<noteq> None"

definition imap_wf :: "'v imap \<Rightarrow> bool" where
  "imap_wf m \<longleftrightarrow> distinct (map fst m)"

section \<open>Equality\<close>

definition imap_eq :: "('v \<Rightarrow> 'w \<Rightarrow> bool) \<Rightarrow> 'v imap \<Rightarrow> 'w imap \<Rightarrow> bool" where
  "imap_eq eq a b \<longleftrightarrow>
     length a = length b
     \<and> list_all (\<lambda>(k, v). case map_of b k of None \<Rightarrow> False | Some w \<Rightarrow> eq v w) a"

fun number_eq :: "number \<Rightarrow> number \<Rightarrow> bool" where
  "number_eq (PosInt a) (PosInt b) \<longleftrightarrow> a = b"
| "number_eq (NegInt a) (NegInt b) \<longleftrightarrow> a = b"
| "number_eq (Float a) (Float b) \<longleftrightarrow> a = b \<or> a * 2 = 0 \<and> b * 2 = 0"
| "number_eq _ _ \<longleftrightarrow> False"

fun json_eq :: "json \<Rightarrow> json \<Rightarrow> bool" where
  "json_eq JNull JNull \<longleftrightarrow> True"
| "json_eq (JBool a) (JBool b) \<longleftrightarrow> a = b"
| "json_eq (JNumber a) (JNumber b) \<longleftrightarrow> number_eq a b"
| "json_eq (JString a) (JString b) \<longleftrightarrow> a = b"
| "json_eq (JArray a) (JArray b) \<longleftrightarrow> list_all2 json_eq a b"
| "json_eq (JObject a) (JObject b) \<longleftrightarrow>
     length a = length b
     \<and> list_all (\<lambda>(k, v). case map_of b k of None \<Rightarrow> False | Some w \<Rightarrow> json_eq v w) a"
| "json_eq _ _ \<longleftrightarrow> False"

fun json_wf :: "json \<Rightarrow> bool" where
  "json_wf (JArray a) \<longleftrightarrow> list_all json_wf a"
| "json_wf (JObject a) \<longleftrightarrow> distinct (map fst a) \<and> list_all (\<lambda>(k, v). json_wf v) a"
| "json_wf _ \<longleftrightarrow> True"

section \<open>Facts\<close>

lemma number_eq_refl [simp]: "number_eq n n"
  by (cases n) auto

lemma json_eq_refl: "json_wf v \<Longrightarrow> json_eq v v"
proof (induction v)
  case (JArray xs)
  then show ?case by (auto simp: list_all2_same list_all_iff)
next
  case (JObject kvs)
  have "json_eq v v" if "(k, v) \<in> set kvs" for k v
    using JObject.IH [OF that, of v] JObject.prems that by (auto simp: list_all_iff)
  moreover have "map_of kvs k = Some v" if "(k, v) \<in> set kvs" for k v
    using JObject.prems that by simp
  ultimately show ?case by (auto simp: list_all_iff)
qed auto

lemma imap_get_insert [simp]:
  "imap_get (imap_insert k v m) j = (if j = k then Some v else imap_get m j)"
  by (simp add: update_conv)

lemma imap_get_remove [simp]:
  "imap_get (shift_remove k m) j = (if j = k then None else imap_get m j)"
  by (simp add: delete_conv)

lemma imap_wf_insert [simp]: "imap_wf m \<Longrightarrow> imap_wf (imap_insert k v m)"
  by (simp add: imap_wf_def distinct_update)

lemma imap_wf_remove [simp]: "imap_wf m \<Longrightarrow> imap_wf (shift_remove k m)"
  by (simp add: imap_wf_def distinct_delete)

lemma imap_wf_Nil [simp]: "imap_wf []"
  by (simp add: imap_wf_def)

lemma insert_keeps_others:
  "\<not> p k \<Longrightarrow> filter (\<lambda>e. p (fst e)) (imap_insert k v m) = filter (\<lambda>e. p (fst e)) m"
  by (induction m) auto

lemma remove_keeps_others:
  "\<not> p k \<Longrightarrow> filter (\<lambda>e. p (fst e)) (shift_remove k m) = filter (\<lambda>e. p (fst e)) m"
  by (induction m) (auto simp: AList.delete_eq)

text \<open>Equal maps have the same keys, and related values under each key.\<close>

lemma imap_eq_get:
  assumes "imap_eq eq a b" and "imap_get a k = Some v"
  shows "\<exists>w. imap_get b k = Some w \<and> eq v w"
  using assms map_of_SomeD [OF assms(2)]
  by (force simp: imap_eq_def list_all_iff split: option.splits)

lemma imap_eq_keys:
  assumes "imap_eq eq a b" and "imap_wf a" and "imap_wf b"
  shows "set (map fst a) = set (map fst b)"
proof -
  have "set (map fst a) \<subseteq> set (map fst b)"
  proof
    fix k assume "k \<in> set (map fst a)"
    then obtain v where "imap_get a k = Some v" by (metis list.set_map map_of_eq_None_iff not_None_eq)
    then have "imap_get b k \<noteq> None" using imap_eq_get [OF assms(1)] by fastforce
    then show "k \<in> set (map fst b)" by (simp add: map_of_eq_None_iff)
  qed
  moreover have "card (set (map fst a)) = card (set (map fst b))"
    using assms by (simp add: imap_eq_def imap_wf_def distinct_card del: set_map)
  ultimately show ?thesis by (intro card_subset_eq) auto
qed

lemma imap_eq_get_iff:
  assumes "imap_eq (=) a b" and "imap_wf a" and "imap_wf b"
  shows "imap_get a = imap_get b"
proof
  fix k
  show "imap_get a k = imap_get b k"
  proof (cases "imap_get a k")
    case None
    then have "k \<notin> set (map fst b)" using imap_eq_keys [OF assms] by (simp add: map_of_eq_None_iff)
    then have "imap_get b k = None" by (simp add: map_of_eq_None_iff)
    then show ?thesis using None by simp
  next
    case (Some v)
    then show ?thesis using imap_eq_get [OF assms(1) Some] by auto
  qed
qed

lemma imap_eq_refl: "imap_wf a \<Longrightarrow> imap_eq (=) a a"
  by (auto simp: imap_eq_def imap_wf_def list_all_iff)

end
