(* ===== verification/Session_Metadata.thy ===== *)
theory Session_Metadata
  imports Json_Values "HOL-Library.Monad_Syntax"
begin

text \<open>
  The on-disk record of a session (\<^verbatim>\<open>crates/pty-core/src/registry/metadata.rs\<close>). The record has the
  fields of \<open>SessionMetadata\<close> in the order of the struct. \<open>to_map\<close> and \<open>from_map\<close> write out what the
  derived serializer and deserializer do with the attributes of the struct: camel-case keys, an
  absent optional field is omitted, a missing or null optional field is \<open>None\<close>, the plain fields
  have a default, and every unknown key lands in \<open>extra\<close> and is written back after the known ones.
  \<open>publication_map\<close> is the order of the first write and \<open>apply_metadata_diff\<close> the rewrite that
  keeps the rest of the file as it was.
\<close>

type_synonym TagMap = "rstr imap"
type_synonym EnvMap = "rstr imap"

record PublicationBinding =
  pb_operation :: rstr
  pb_digest :: rstr

record SessionMetadata =
  md_generation :: "rstr option"
  md_daemon_pid :: "i32 option"
  md_daemon_start_token :: "rstr option"
  md_daemon_boot_id :: "rstr option"
  md_recovery :: "json option"
  md_command :: rstr
  md_args :: "rstr list"
  md_display_command :: rstr
  md_cwd :: rstr
  md_rows :: "u16 option"
  md_cols :: "u16 option"
  md_ephemeral :: "bool option"
  md_created_at :: rstr
  md_display_name :: "rstr option"
  md_tags :: "TagMap option"
  md_publication_binding :: "PublicationBinding option"
  md_publication_root_id :: "rstr option"
  md_publication_capability :: "u32 option"
  md_isolate_env :: "bool option"
  md_extra_env :: "EnvMap option"
  md_session_env :: "EnvMap option"
  md_unset_env :: "rstr list option"
  md_env :: "EnvMap option"
  md_exit_code :: "i32 option"
  md_exited_at :: "rstr option"
  md_last_lines :: "rstr list option"
  md_last_attach_at :: "rstr option"
  md_last_output_at_ms :: "64 word option"
  md_client_generation :: "u64 option"
  md_extra :: "json imap"

section \<open>Values of the fields\<close>

definition json_int :: "int \<Rightarrow> json" where
  "json_int i = JNumber (if 0 \<le> i then PosInt (of_int i) else NegInt (of_int i))"

fun as_int :: "json \<Rightarrow> int option" where
  "as_int (JNumber (PosInt u)) = Some (uint u)"
| "as_int (JNumber (NegInt i)) = Some (sint i)"
| "as_int _ = None"

definition in_range :: "int \<Rightarrow> int \<Rightarrow> int option \<Rightarrow> int option" where
  "in_range lo hi v = (case v of Some i \<Rightarrow> if lo \<le> i \<and> i \<le> hi then Some i else None | None \<Rightarrow> None)"

definition as_i32 :: "json \<Rightarrow> i32 option" where
  "as_i32 v = map_option of_int (in_range (- (2 ^ 31)) (2 ^ 31 - 1) (as_int v))"

definition as_i64 :: "json \<Rightarrow> 64 word option" where
  "as_i64 v = map_option of_int (in_range (- (2 ^ 63)) (2 ^ 63 - 1) (as_int v))"

definition as_u16 :: "json \<Rightarrow> u16 option" where
  "as_u16 v = map_option of_int (in_range 0 (2 ^ 16 - 1) (as_int v))"

definition as_u32 :: "json \<Rightarrow> u32 option" where
  "as_u32 v = map_option of_int (in_range 0 (2 ^ 32 - 1) (as_int v))"

definition as_u64 :: "json \<Rightarrow> u64 option" where
  "as_u64 v = map_option of_int (in_range 0 (2 ^ 64 - 1) (as_int v))"

fun as_string :: "json \<Rightarrow> rstr option" where
  "as_string (JString s) = Some s"
| "as_string _ = None"

fun as_bool :: "json \<Rightarrow> bool option" where
  "as_bool (JBool b) = Some b"
| "as_bool _ = None"

fun as_strings :: "json \<Rightarrow> rstr list option" where
  "as_strings (JArray vs) = those (map as_string vs)"
| "as_strings _ = None"

fun as_string_map :: "json \<Rightarrow> rstr imap option" where
  "as_string_map (JObject kvs) = those (map (\<lambda>(k, v). map_option (Pair k) (as_string v)) kvs)"
| "as_string_map _ = None"

definition string_map_value :: "rstr imap \<Rightarrow> json" where
  "string_map_value m = JObject (map (\<lambda>(k, v). (k, JString v)) m)"

definition strings_value :: "rstr list \<Rightarrow> json" where
  "strings_value ss = JArray (map JString ss)"

definition binding_value :: "PublicationBinding \<Rightarrow> json" where
  "binding_value b =
     JObject [(ustr ''operation'', JString (pb_operation b)), (ustr ''digest'', JString (pb_digest b))]"

text \<open>A derived struct also reads from a sequence of its fields; unknown keys are refused.\<close>

fun as_binding :: "json \<Rightarrow> PublicationBinding option" where
  "as_binding (JArray [a, b]) =
     do { x \<leftarrow> as_string a; y \<leftarrow> as_string b; Some \<lparr>pb_operation = x, pb_digest = y\<rparr> }"
| "as_binding (JObject kvs) =
     (if list_all (\<lambda>(k, v). k = ustr ''operation'' \<or> k = ustr ''digest'') kvs
      then do {
        x \<leftarrow> Option.bind (map_of kvs (ustr ''operation'')) as_string;
        y \<leftarrow> Option.bind (map_of kvs (ustr ''digest'')) as_string;
        Some \<lparr>pb_operation = x, pb_digest = y\<rparr> }
      else None)"
| "as_binding _ = None"

section \<open>The record as a JSON object\<close>

definition field_table :: "SessionMetadata \<Rightarrow> (rstr \<times> json option) list" where
  "field_table m =
     [(ustr ''generation'', map_option JString (md_generation m)),
      (ustr ''daemonPid'', map_option (\<lambda>w. json_int (sint w)) (md_daemon_pid m)),
      (ustr ''daemonStartToken'', map_option JString (md_daemon_start_token m)),
      (ustr ''daemonBootId'', map_option JString (md_daemon_boot_id m)),
      (ustr ''recovery'', md_recovery m),
      (ustr ''command'', Some (JString (md_command m))),
      (ustr ''args'', Some (strings_value (md_args m))),
      (ustr ''displayCommand'', Some (JString (md_display_command m))),
      (ustr ''cwd'', Some (JString (md_cwd m))),
      (ustr ''rows'', map_option (\<lambda>w. json_int (uint w)) (md_rows m)),
      (ustr ''cols'', map_option (\<lambda>w. json_int (uint w)) (md_cols m)),
      (ustr ''ephemeral'', map_option JBool (md_ephemeral m)),
      (ustr ''createdAt'', Some (JString (md_created_at m))),
      (ustr ''displayName'', map_option JString (md_display_name m)),
      (ustr ''tags'', map_option string_map_value (md_tags m)),
      (ustr ''publicationBinding'', map_option binding_value (md_publication_binding m)),
      (ustr ''publicationRootId'', map_option JString (md_publication_root_id m)),
      (ustr ''publicationCapability'',
        map_option (\<lambda>w. json_int (uint w)) (md_publication_capability m)),
      (ustr ''isolateEnv'', map_option JBool (md_isolate_env m)),
      (ustr ''extraEnv'', map_option string_map_value (md_extra_env m)),
      (ustr ''sessionEnv'', map_option string_map_value (md_session_env m)),
      (ustr ''unsetEnv'', map_option strings_value (md_unset_env m)),
      (ustr ''env'', map_option string_map_value (md_env m)),
      (ustr ''exitCode'', map_option (\<lambda>w. json_int (sint w)) (md_exit_code m)),
      (ustr ''exitedAt'', map_option JString (md_exited_at m)),
      (ustr ''lastLines'', map_option strings_value (md_last_lines m)),
      (ustr ''lastAttachAt'', map_option JString (md_last_attach_at m)),
      (ustr ''lastOutputAtMs'', map_option (\<lambda>w. json_int (sint w)) (md_last_output_at_ms m)),
      (ustr ''clientGeneration'', map_option (\<lambda>w. json_int (uint w)) (md_client_generation m))]"

definition known_keys :: "rstr list" where
  "known_keys = map ustr
     [''generation'', ''daemonPid'', ''daemonStartToken'', ''daemonBootId'', ''recovery'', ''command'',
      ''args'', ''displayCommand'', ''cwd'', ''rows'', ''cols'', ''ephemeral'', ''createdAt'',
      ''displayName'', ''tags'', ''publicationBinding'', ''publicationRootId'',
      ''publicationCapability'', ''isolateEnv'', ''extraEnv'', ''sessionEnv'', ''unsetEnv'', ''env'',
      ''exitCode'', ''exitedAt'', ''lastLines'', ''lastAttachAt'', ''lastOutputAtMs'',
      ''clientGeneration'']"

definition present :: "(rstr \<times> json option) list \<Rightarrow> json imap" where
  "present t = List.map_filter (\<lambda>(k, v). map_option (Pair k) v) t"

definition insert_all :: "json imap \<Rightarrow> json imap \<Rightarrow> json imap" where
  "insert_all new m = fold (\<lambda>(k, v). imap_insert k v) new m"

definition to_map :: "SessionMetadata \<Rightarrow> json imap" where
  "to_map m = insert_all (md_extra m) (present (field_table m))"

definition opt_field :: "(json \<Rightarrow> 'a option) \<Rightarrow> json imap \<Rightarrow> string \<Rightarrow> 'a option option" where
  "opt_field dec_value m k =
     (case imap_get m (ustr k) of
        None \<Rightarrow> Some None
      | Some JNull \<Rightarrow> Some None
      | Some v \<Rightarrow> map_option Some (dec_value v))"

definition plain_field :: "(json \<Rightarrow> 'a option) \<Rightarrow> 'a \<Rightarrow> json imap \<Rightarrow> string \<Rightarrow> 'a option" where
  "plain_field dec_value d m k =
     (case imap_get m (ustr k) of None \<Rightarrow> Some d | Some v \<Rightarrow> dec_value v)"

definition from_map :: "json imap \<Rightarrow> SessionMetadata option" where
  "from_map m = do {
     generation \<leftarrow> opt_field as_string m ''generation'';
     daemon_pid \<leftarrow> opt_field as_i32 m ''daemonPid'';
     daemon_start_token \<leftarrow> opt_field as_string m ''daemonStartToken'';
     daemon_boot_id \<leftarrow> opt_field as_string m ''daemonBootId'';
     recovery \<leftarrow> opt_field Some m ''recovery'';
     command \<leftarrow> plain_field as_string [] m ''command'';
     args \<leftarrow> plain_field as_strings [] m ''args'';
     display_command \<leftarrow> plain_field as_string [] m ''displayCommand'';
     cwd \<leftarrow> plain_field as_string [] m ''cwd'';
     rows \<leftarrow> opt_field as_u16 m ''rows'';
     cols \<leftarrow> opt_field as_u16 m ''cols'';
     ephemeral \<leftarrow> opt_field as_bool m ''ephemeral'';
     created_at \<leftarrow> plain_field as_string [] m ''createdAt'';
     display_name \<leftarrow> opt_field as_string m ''displayName'';
     tags \<leftarrow> opt_field as_string_map m ''tags'';
     publication_binding \<leftarrow> opt_field as_binding m ''publicationBinding'';
     publication_root_id \<leftarrow> opt_field as_string m ''publicationRootId'';
     publication_capability \<leftarrow> opt_field as_u32 m ''publicationCapability'';
     isolate_env \<leftarrow> opt_field as_bool m ''isolateEnv'';
     extra_env \<leftarrow> opt_field as_string_map m ''extraEnv'';
     session_env \<leftarrow> opt_field as_string_map m ''sessionEnv'';
     unset_env \<leftarrow> opt_field as_strings m ''unsetEnv'';
     env \<leftarrow> opt_field as_string_map m ''env'';
     exit_code \<leftarrow> opt_field as_i32 m ''exitCode'';
     exited_at \<leftarrow> opt_field as_string m ''exitedAt'';
     last_lines \<leftarrow> opt_field as_strings m ''lastLines'';
     last_attach_at \<leftarrow> opt_field as_string m ''lastAttachAt'';
     last_output_at_ms \<leftarrow> opt_field as_i64 m ''lastOutputAtMs'';
     client_generation \<leftarrow> opt_field as_u64 m ''clientGeneration'';
     Some \<lparr>md_generation = generation, md_daemon_pid = daemon_pid,
       md_daemon_start_token = daemon_start_token, md_daemon_boot_id = daemon_boot_id,
       md_recovery = recovery, md_command = command, md_args = args,
       md_display_command = display_command, md_cwd = cwd, md_rows = rows, md_cols = cols,
       md_ephemeral = ephemeral, md_created_at = created_at, md_display_name = display_name,
       md_tags = tags, md_publication_binding = publication_binding,
       md_publication_root_id = publication_root_id,
       md_publication_capability = publication_capability, md_isolate_env = isolate_env,
       md_extra_env = extra_env, md_session_env = session_env, md_unset_env = unset_env,
       md_env = env, md_exit_code = exit_code, md_exited_at = exited_at,
       md_last_lines = last_lines, md_last_attach_at = last_attach_at,
       md_last_output_at_ms = last_output_at_ms, md_client_generation = client_generation,
       md_extra = filter (\<lambda>e. fst e \<notin> set known_keys) m\<rparr>
   }"

section \<open>Derived facts of a record\<close>

definition has_exited :: "SessionMetadata \<Rightarrow> bool" where
  "has_exited m \<longleftrightarrow> md_exited_at m \<noteq> None"

definition process_start_token :: "SessionMetadata \<Rightarrow> rstr option" where
  "process_start_token m =
     (case md_recovery m of
        Some (JObject kvs) \<Rightarrow> Option.bind (imap_get kvs (ustr ''processStartToken'')) as_string
      | _ \<Rightarrow> None)"

definition daemon_start_token :: "SessionMetadata \<Rightarrow> rstr option" where
  "daemon_start_token m =
     (case md_daemon_start_token m of Some t \<Rightarrow> Some t | None \<Rightarrow> process_start_token m)"

section \<open>The first write\<close>

definition keep_if :: "bool \<Rightarrow> json option \<Rightarrow> json option" where
  "keep_if b v = (if b then v else None)"

definition publication_table :: "SessionMetadata \<Rightarrow> (rstr \<times> json option) list" where
  "publication_table m =
     [(ustr ''generation'', map_option JString (md_generation m)),
      (ustr ''daemonPid'', map_option (\<lambda>w. json_int (sint w)) (md_daemon_pid m)),
      (ustr ''daemonStartToken'', map_option JString (md_daemon_start_token m)),
      (ustr ''daemonBootId'', map_option JString (md_daemon_boot_id m)),
      (ustr ''recovery'', md_recovery m),
      (ustr ''command'', Some (JString (md_command m))),
      (ustr ''args'', Some (strings_value (md_args m))),
      (ustr ''displayCommand'', Some (JString (md_display_command m))),
      (ustr ''cwd'', Some (JString (md_cwd m))),
      (ustr ''rows'', map_option (\<lambda>w. json_int (uint w)) (md_rows m)),
      (ustr ''cols'', map_option (\<lambda>w. json_int (uint w)) (md_cols m)),
      (ustr ''ephemeral'', Some (JBool (md_ephemeral m = Some True))),
      (ustr ''createdAt'', Some (JString (md_created_at m))),
      (ustr ''publicationBinding'', map_option binding_value (md_publication_binding m)),
      (ustr ''publicationRootId'', map_option JString (md_publication_root_id m)),
      (ustr ''publicationCapability'',
        map_option (\<lambda>w. json_int (uint w)) (md_publication_capability m)),
      (ustr ''tags'', keep_if (md_tags m \<noteq> Some []) (map_option string_map_value (md_tags m))),
      (ustr ''displayName'',
        keep_if (md_display_name m \<noteq> Some []) (map_option JString (md_display_name m))),
      (ustr ''isolateEnv'', keep_if (md_isolate_env m = Some True) (Some (JBool True))),
      (ustr ''extraEnv'',
        keep_if (md_extra_env m \<noteq> Some []) (map_option string_map_value (md_extra_env m))),
      (ustr ''sessionEnv'',
        keep_if (md_session_env m \<noteq> Some []) (map_option string_map_value (md_session_env m))),
      (ustr ''unsetEnv'',
        keep_if (md_unset_env m \<noteq> Some []) (map_option strings_value (md_unset_env m))),
      (ustr ''env'', map_option string_map_value (md_env m))]"

definition exit_keys :: "rstr list" where
  "exit_keys = map ustr [''exitCode'', ''exitedAt'', ''lastLines'', ''lastAttachAt'',
     ''lastOutputAtMs'', ''clientGeneration'']"

definition publication_map :: "SessionMetadata \<Rightarrow> json imap" where
  "publication_map m =
     insert_all (md_extra m)
       (insert_all (present (map (\<lambda>k. (k, imap_get (to_map m) k)) exit_keys))
         (present (publication_table m)))"

section \<open>The rewrite\<close>

definition value_changed :: "json imap \<Rightarrow> rstr \<Rightarrow> json \<Rightarrow> bool" where
  "value_changed old k v = (case imap_get old k of None \<Rightarrow> True | Some w \<Rightarrow> \<not> json_eq w v)"

definition diff_maps :: "json imap \<Rightarrow> json imap \<Rightarrow> json imap \<Rightarrow> json imap" where
  "diff_maps old new m =
     fold (\<lambda>(k, v) acc. if \<not> contains_key new k then shift_remove k acc else acc) old
       (fold (\<lambda>(k, v) acc. if value_changed old k v then imap_insert k v acc else acc) new m)"

definition apply_metadata_diff :: "SessionMetadata \<Rightarrow> SessionMetadata \<Rightarrow> json imap \<Rightarrow> json imap" where
  "apply_metadata_diff before after m = diff_maps (to_map before) (to_map after) m"

section \<open>Facts about field values\<close>

lemma as_int_json_int:
  assumes "- 9223372036854775808 \<le> i" and "i < 18446744073709551616"
  shows "as_int (json_int i) = Some i"
proof (cases "0 \<le> i")
  case True
  then have "uint (of_int i :: u64) = i" using assms by (simp add: uint_word_of_int)
  then show ?thesis using True by (simp add: json_int_def)
next
  case False
  then have "sint (of_int i :: 64 word) = i" using assms
    by (simp add: signed_of_int signed_take_bit_int_eq_self)
  then show ?thesis using False by (simp add: json_int_def)
qed

lemma json_int_not_null [simp]: "json_int i \<noteq> JNull" "JNull \<noteq> json_int i"
  by (simp_all add: json_int_def)

lemma i32_roundtrip [codec_simps]: "as_i32 (json_int (sint (w :: i32))) = Some w"
proof -
  have b: "- 2147483648 \<le> sint w" "sint w < 2147483648"
    using sint_greater_eq [of w] sint_less [of w] by simp_all
  then have "as_int (json_int (sint w)) = Some (sint w)" by - (rule as_int_json_int; linarith)
  then show ?thesis using b by (simp add: as_i32_def in_range_def)
qed

lemma i64_roundtrip [codec_simps]: "as_i64 (json_int (sint (w :: 64 word))) = Some w"
proof -
  have b: "- 9223372036854775808 \<le> sint w" "sint w < 9223372036854775808"
    using sint_greater_eq [of w] sint_less [of w] by simp_all
  then have "as_int (json_int (sint w)) = Some (sint w)" by - (rule as_int_json_int; linarith)
  then show ?thesis using b by (simp add: as_i64_def in_range_def)
qed

lemma u16_roundtrip [codec_simps]: "as_u16 (json_int (uint (w :: u16))) = Some w"
proof -
  have b: "0 \<le> uint w" "uint w < 65536" using uint_bounded [of w] by simp_all
  then have "as_int (json_int (uint w)) = Some (uint w)" by - (rule as_int_json_int; linarith)
  then show ?thesis using b by (simp add: as_u16_def in_range_def)
qed

lemma u32_roundtrip [codec_simps]: "as_u32 (json_int (uint (w :: u32))) = Some w"
proof -
  have b: "0 \<le> uint w" "uint w < 4294967296" using uint_bounded [of w] by simp_all
  then have "as_int (json_int (uint w)) = Some (uint w)" by - (rule as_int_json_int; linarith)
  then show ?thesis using b by (simp add: as_u32_def in_range_def)
qed

lemma u64_roundtrip [codec_simps]: "as_u64 (json_int (uint (w :: u64))) = Some w"
proof -
  have b: "0 \<le> uint w" "uint w < 18446744073709551616" using uint_bounded [of w] by simp_all
  then have "as_int (json_int (uint w)) = Some (uint w)" by - (rule as_int_json_int; linarith)
  then show ?thesis using b by (simp add: as_u64_def in_range_def)
qed

lemma those_map_Some: "those (map Some xs) = Some xs"
  by (induction xs) auto

lemma strings_roundtrip [codec_simps]: "as_strings (strings_value ss) = Some ss"
  by (simp add: strings_value_def o_def those_map_Some)

lemma string_map_roundtrip [codec_simps]: "as_string_map (string_map_value m) = Some m"
  by (simp add: string_map_value_def o_def case_prod_beta those_map_Some)

lemma binding_roundtrip [codec_simps]: "as_binding (binding_value b) = Some b"
  by (simp add: binding_value_def)

lemma value_not_null [simp]:
  "strings_value ss \<noteq> JNull" "string_map_value m \<noteq> JNull" "binding_value b \<noteq> JNull"
  by (simp_all add: strings_value_def string_map_value_def binding_value_def)

section \<open>Facts about the maps\<close>

lemma present_Cons:
  "present ((k, v) # t) = (case v of Some x \<Rightarrow> (k, x) # present t | None \<Rightarrow> present t)"
  by (simp add: present_def map_filter_simps split: option.splits)

lemma present_Nil [simp]: "present [] = []"
  by (simp add: present_def map_filter_simps)

lemma present_keys: "k \<in> fst ` set (present t) \<Longrightarrow> k \<in> fst ` set t"
proof (induction t)
  case (Cons e t)
  then show ?case by (cases e) (auto simp: present_Cons split: option.splits)
qed simp

lemma present_get:
  "distinct (map fst t) \<Longrightarrow>
     imap_get (present t) k = (case map_of t k of Some v \<Rightarrow> v | None \<Rightarrow> None)"
proof (induction t)
  case (Cons e t)
  obtain j v where e: "e = (j, v)" by (cases e)
  have "imap_get (present t) j = None"
    using Cons.prems present_keys [of j t] e by (auto simp: map_of_eq_None_iff)
  then show ?case using Cons e by (auto simp: present_Cons split: option.splits)
qed simp

lemma present_wf: "distinct (map fst t) \<Longrightarrow> imap_wf (present t)"
proof (induction t)
  case (Cons e t)
  then show ?case using present_keys [of "fst e" t]
    by (cases e) (auto simp: present_Cons imap_wf_def split: option.splits)
qed simp

lemma insert_all_get:
  "imap_wf new \<Longrightarrow>
     imap_get (insert_all new m) k = (case imap_get new k of Some v \<Rightarrow> Some v | None \<Rightarrow> imap_get m k)"
proof (induction new arbitrary: m)
  case (Cons e new)
  obtain j v where e: "e = (j, v)" by (cases e)
  have "imap_get new j = None" and "imap_wf new"
    using Cons.prems e by (simp_all add: imap_wf_def map_of_eq_None_iff)
  then show ?case using Cons.IH [of "imap_insert j v m"] e
    by (simp add: insert_all_def split: option.splits)
qed (simp add: insert_all_def)

lemma insert_all_wf: "imap_wf m \<Longrightarrow> imap_wf (insert_all new m)"
  by (induction new arbitrary: m) (auto simp: insert_all_def)

lemma insert_new: "k \<notin> set (map fst m) \<Longrightarrow> imap_insert k v m = m @ [(k, v)]"
  by (induction m) auto

lemma insert_all_new:
  "imap_wf new \<Longrightarrow> set (map fst new) \<inter> set (map fst m) = {} \<Longrightarrow> insert_all new m = m @ new"
proof (induction new arbitrary: m)
  case (Cons e new)
  obtain k v where e: "e = (k, v)" by (cases e)
  have "imap_insert k v m = m @ [(k, v)]" using Cons.prems e by (intro insert_new) auto
  then show ?case using Cons.IH [of "m @ [(k, v)]"] Cons.prems e
    by (auto simp: insert_all_def imap_wf_def)
qed (simp add: insert_all_def)

lemma field_table_keys: "map fst (field_table m) = known_keys"
  by (simp add: field_table_def known_keys_def)

lemma known_keys_distinct: "distinct known_keys"
  by (simp add: known_keys_def distinct_map inj_on_def)

lemma field_table_distinct: "distinct (map fst (field_table m))"
  by (simp only: field_table_keys known_keys_distinct)

definition meta_wf :: "SessionMetadata \<Rightarrow> bool" where
  "meta_wf m \<longleftrightarrow>
     imap_wf (md_extra m) \<and> list_all (\<lambda>e. fst e \<notin> set known_keys) (md_extra m)
     \<and> md_recovery m \<noteq> Some JNull"

lemma to_map_get:
  "imap_wf (md_extra m) \<Longrightarrow>
     imap_get (to_map m) k =
       (case imap_get (md_extra m) k of
          Some v \<Rightarrow> Some v
        | None \<Rightarrow> (case map_of (field_table m) k of Some v \<Rightarrow> v | None \<Rightarrow> None))"
  by (simp add: to_map_def insert_all_get present_get [OF field_table_distinct] split: option.split)

lemma to_map_wf: "imap_wf (to_map m)"
  by (simp add: to_map_def insert_all_wf present_wf [OF field_table_distinct])

lemma known_not_extra:
  "meta_wf m \<Longrightarrow> k \<in> set known_keys \<Longrightarrow> imap_get (md_extra m) k = None"
  by (auto simp: meta_wf_def list_all_iff map_of_eq_None_iff)

lemma present_known: "k \<in> fst ` set (present (field_table m)) \<Longrightarrow> k \<in> set known_keys"
  using present_keys [of k "field_table m"] by (metis field_table_keys list.set_map)

lemma to_map_append: "meta_wf m \<Longrightarrow> to_map m = present (field_table m) @ md_extra m"
  unfolding to_map_def using present_known [of _ m]
  by (intro insert_all_new) (auto simp: meta_wf_def list_all_iff)

lemma to_map_extra:
  "meta_wf m \<Longrightarrow> filter (\<lambda>e. fst e \<notin> set known_keys) (to_map m) = md_extra m"
  using present_known [of _ m]
  by (auto simp: to_map_append meta_wf_def list_all_iff filter_empty_conv filter_id_conv)

lemma field_lookup:
  "meta_wf m \<Longrightarrow> map_of (field_table m) (ustr k) = Some v \<Longrightarrow> imap_get (to_map m) (ustr k) = v"
proof -
  assume w: "meta_wf m" and l: "map_of (field_table m) (ustr k) = Some v"
  then have "ustr k \<in> set known_keys" by (metis field_table_keys list.set_map map_of_eq_None_iff not_None_eq)
  then show ?thesis using w l known_not_extra [of m "ustr k"]
    by (simp add: to_map_get meta_wf_def)
qed

lemma opt_field_some:
  "imap_get m (ustr k) = Some v \<Longrightarrow> v \<noteq> JNull \<Longrightarrow> opt_field dec_value m k = map_option Some (dec_value v)"
  by (cases v) (simp_all add: opt_field_def)

lemma opt_field_lookup:
  assumes "imap_get m (ustr k) = map_option enc x"
    and "\<And>y. enc y \<noteq> JNull" and "\<And>y. dec_value (enc y) = Some y"
  shows "opt_field dec_value m k = Some x"
proof (cases x)
  case (Some y)
  then show ?thesis using assms opt_field_some [of m k "enc y" dec_value] by simp
qed (use assms in \<open>simp add: opt_field_def\<close>)

lemma to_map_opt_field:
  assumes "meta_wf m" and "map_of (field_table m) (ustr k) = Some (map_option enc x)"
    and "\<And>y. enc y \<noteq> JNull" and "\<And>y. dec_value (enc y) = Some y"
  shows "opt_field dec_value (to_map m) k = Some x"
  using field_lookup [OF assms(1,2)] assms(3,4) by (rule opt_field_lookup)

lemma to_map_plain_field:
  assumes "meta_wf m" and "map_of (field_table m) (ustr k) = Some (Some (enc x))"
    and "\<And>y. dec_value (enc y) = Some y"
  shows "plain_field dec_value d (to_map m) k = Some x"
  using field_lookup [OF assms(1,2)] assms(3) by (simp add: plain_field_def)

lemma recovery_field:
  assumes "meta_wf m"
  shows "opt_field Some (to_map m) ''recovery'' = Some (md_recovery m)"
proof -
  have "imap_get (to_map m) (ustr ''recovery'') = md_recovery m"
    by (rule field_lookup [OF assms]) (simp add: field_table_def)
  then show ?thesis using assms by (auto simp: opt_field_def meta_wf_def split: option.splits json.splits)
qed

lemma from_map_to_map: "meta_wf m \<Longrightarrow> from_map (to_map m) = Some m"
  by (simp add: from_map_def recovery_field to_map_extra
      to_map_opt_field [where enc = JString] to_map_opt_field [where enc = JBool]
      to_map_opt_field [where enc = strings_value] to_map_opt_field [where enc = string_map_value]
      to_map_opt_field [where enc = binding_value]
      to_map_opt_field [where enc = "\<lambda>w. json_int (sint w)"]
      to_map_opt_field [where enc = "\<lambda>w. json_int (uint w)"]
      to_map_plain_field [where enc = JString] to_map_plain_field [where enc = strings_value]
      field_table_def codec_simps)

lemma from_map_fields:
  assumes "from_map raw = Some m"
  shows "md_extra m = filter (\<lambda>e. fst e \<notin> set known_keys) raw"
    "opt_field as_string raw ''generation'' = Some (md_generation m)"
    "opt_field Some raw ''recovery'' = Some (md_recovery m)"
    "opt_field as_string_map raw ''tags'' = Some (md_tags m)"
    "opt_field as_binding raw ''publicationBinding'' = Some (md_publication_binding m)"
    "opt_field as_string raw ''publicationRootId'' = Some (md_publication_root_id m)"
    "opt_field as_u32 raw ''publicationCapability'' = Some (md_publication_capability m)"
    "opt_field as_bool raw ''isolateEnv'' = Some (md_isolate_env m)"
    "opt_field as_string_map raw ''extraEnv'' = Some (md_extra_env m)"
    "opt_field as_string_map raw ''sessionEnv'' = Some (md_session_env m)"
    "opt_field as_strings raw ''unsetEnv'' = Some (md_unset_env m)"
    "opt_field as_string_map raw ''env'' = Some (md_env m)"
    "opt_field as_string raw ''displayName'' = Some (md_display_name m)"
    "opt_field as_u64 raw ''clientGeneration'' = Some (md_client_generation m)"
    "plain_field as_string [] raw ''command'' = Some (md_command m)"
    "plain_field as_strings [] raw ''args'' = Some (md_args m)"
    "plain_field as_string [] raw ''cwd'' = Some (md_cwd m)"
  using assms by (clarsimp simp: from_map_def bind_eq_Some_conv)+

lemma from_map_wf:
  assumes "imap_wf raw" and "from_map raw = Some m"
  shows "meta_wf m"
proof -
  have "md_recovery m \<noteq> Some JNull"
    using from_map_fields(3) [OF assms(2)]
    by (cases "imap_get raw (ustr ''recovery'')") (auto simp: opt_field_def split: json.splits)
  then show ?thesis
    using assms(1) from_map_fields(1) [OF assms(2)]
    by (simp add: meta_wf_def imap_wf_def distinct_map_filter list_all_iff)
qed

section \<open>The first write reads back\<close>

definition nonempty :: "'a list option \<Rightarrow> 'a list option" where
  "nonempty x = (if x = Some [] then None else x)"

definition published_form :: "SessionMetadata \<Rightarrow> SessionMetadata" where
  "published_form m = m
     \<lparr>md_ephemeral := Some (md_ephemeral m = Some True),
      md_tags := nonempty (md_tags m),
      md_display_name := nonempty (md_display_name m),
      md_isolate_env := (if md_isolate_env m = Some True then Some True else None),
      md_extra_env := nonempty (md_extra_env m),
      md_session_env := nonempty (md_session_env m),
      md_unset_env := nonempty (md_unset_env m)\<rparr>"

lemma keep_if_nonempty [simp]:
  "keep_if (x \<noteq> Some []) (map_option f x) = map_option f (nonempty x)"
  by (simp add: keep_if_def nonempty_def)

lemma keep_if_true [simp]:
  "keep_if (x = Some True) (Some (JBool True)) =
     map_option JBool (if x = Some True then Some True else None)"
  by (simp add: keep_if_def)

lemma present_append: "present (s @ t) = present s @ present t"
proof (induction s)
  case (Cons e s)
  then show ?case by (cases e) (simp add: present_Cons split: option.splits)
qed simp

lemma insert_all_present:
  assumes "distinct (map fst (s @ t))"
  shows "insert_all (present t) (present s) = present (s @ t)"
proof -
  have "x \<notin> fst ` set (present s)" if "x \<in> fst ` set (present t)" for x
    using that assms present_keys [of x s] present_keys [of x t] by auto
  then show ?thesis
    using assms by (simp add: present_append insert_all_new present_wf disjoint_iff)
qed

definition publication_fields :: "SessionMetadata \<Rightarrow> (rstr \<times> json option) list" where
  "publication_fields m = publication_table m @ drop 23 (field_table m)"

lemma exit_fields:
  "meta_wf m \<Longrightarrow> map (\<lambda>k. (k, imap_get (to_map m) k)) exit_keys = drop 23 (field_table m)"
  by (simp add: exit_keys_def field_table_def)
    (intro conjI field_lookup; simp add: field_table_def)

lemma publication_fields_set: "set (publication_fields m) = set (field_table (published_form m))"
  by (simp add: publication_fields_def publication_table_def field_table_def published_form_def
      insert_commute)

lemma publication_fields_keys: "set (map fst (publication_fields m)) = set known_keys"
  by (metis field_table_keys list.set_map publication_fields_set)

lemma publication_fields_distinct: "distinct (map fst (publication_fields m))"
  by (rule card_distinct)
    (simp add: publication_fields_keys distinct_card known_keys_distinct del: set_map,
     simp add: publication_fields_def publication_table_def field_table_def known_keys_def)

lemma publication_map_append:
  assumes "meta_wf m"
  shows "publication_map m = present (publication_fields m) @ md_extra m"
proof -
  have "insert_all (present (drop 23 (field_table m))) (present (publication_table m))
      = present (publication_fields m)"
    using publication_fields_distinct [of m] unfolding publication_fields_def
    by (rule insert_all_present)
  then have "publication_map m = insert_all (md_extra m) (present (publication_fields m))"
    using assms by (simp only: publication_map_def exit_fields)
  also have "\<dots> = present (publication_fields m) @ md_extra m"
    using assms present_keys [of _ "publication_fields m"] publication_fields_keys [of m]
    by (intro insert_all_new) (auto simp: meta_wf_def list_all_iff)
  finally show ?thesis .
qed

lemma from_map_cong:
  assumes "imap_get a = imap_get b"
    and "filter (\<lambda>e. fst e \<notin> set known_keys) a = filter (\<lambda>e. fst e \<notin> set known_keys) b"
  shows "from_map a = from_map b"
  by (simp only: from_map_def opt_field_def plain_field_def assms)

lemma from_map_publication_map:
  assumes w: "meta_wf m"
  shows "from_map (publication_map m) = Some (published_form m)"
proof -
  have w': "meta_wf (published_form m)" using w by (simp add: meta_wf_def published_form_def)
  have e: "md_extra (published_form m) = md_extra m" by (simp add: published_form_def)
  have "map_of (publication_fields m) = map_of (field_table (published_form m))"
    using publication_fields_set map_of_inject_set [OF publication_fields_distinct field_table_distinct]
    by blast
  then have "imap_get (present (publication_fields m)) = imap_get (present (field_table (published_form m)))"
    by (intro ext) (simp add: present_get publication_fields_distinct field_table_distinct)
  then have "imap_get (publication_map m) = imap_get (to_map (published_form m))"
    by (simp add: publication_map_append [OF w] to_map_append [OF w'] e)
  moreover have "filter (\<lambda>x. fst x \<notin> set known_keys) (publication_map m)
      = filter (\<lambda>x. fst x \<notin> set known_keys) (to_map (published_form m))"
    unfolding to_map_extra [OF w'] e publication_map_append [OF w]
    using w present_keys [of _ "publication_fields m"] publication_fields_keys [of m]
    by (auto simp: meta_wf_def list_all_iff filter_empty_conv filter_id_conv)
  ultimately show ?thesis using from_map_cong from_map_to_map [OF w'] by metis
qed

end
