(* ===== verification/Metadata_Diff.thy ===== *)
theory Metadata_Diff
  imports Session_Metadata
begin

text \<open>
  What a rewrite of a record does to the file (\<open>apply_metadata_diff\<close> of
  \<^verbatim>\<open>crates/pty-core/src/registry/metadata.rs\<close>), and the properties of the record's two written
  forms.
\<close>

section \<open>Lookup after a rewrite\<close>

lemma diff_inserts_get:
  "imap_wf new \<Longrightarrow>
   imap_get (fold (\<lambda>(k, v) acc. if value_changed old k v then imap_insert k v acc else acc) new m) j =
     (case imap_get new j of
        Some v \<Rightarrow> if value_changed old j v then Some v else imap_get m j
      | None \<Rightarrow> imap_get m j)"
proof (induction new arbitrary: m)
  case (Cons e new)
  obtain k v where e: "e = (k, v)" by (cases e)
  have n: "imap_get new k = None" and w: "imap_wf new"
    using Cons.prems e by (simp_all add: imap_wf_def map_of_eq_None_iff)
  show ?case using Cons.IH [OF w] n e by (simp split: option.splits)
qed simp

lemma diff_removes_get:
  "imap_get (fold (\<lambda>(k, v) acc. if \<not> contains_key new k then shift_remove k acc else acc) old m) j =
     (if imap_get old j \<noteq> None \<and> \<not> contains_key new j then None else imap_get m j)"
proof (induction old arbitrary: m)
  case (Cons e old)
  then show ?case by (cases e) auto
qed simp

lemma diff_maps_get:
  assumes "imap_wf new"
  shows "imap_get (diff_maps old new m) k =
    (case imap_get new k of
       Some v \<Rightarrow> if value_changed old k v then Some v else imap_get m k
     | None \<Rightarrow> if imap_get old k \<noteq> None then None else imap_get m k)"
  unfolding diff_maps_def diff_removes_get
  by (auto simp: diff_inserts_get [OF assms] contains_key_def split: option.splits)

definition touched :: "json imap \<Rightarrow> json imap \<Rightarrow> rstr \<Rightarrow> bool" where
  "touched old new k \<longleftrightarrow>
     (case imap_get new k of Some v \<Rightarrow> value_changed old k v | None \<Rightarrow> imap_get old k \<noteq> None)"

lemma diff_inserts_order:
  assumes "list_all (\<lambda>(k, v). value_changed old k v \<longrightarrow> \<not> p k) new"
  shows "filter (\<lambda>e. p (fst e))
      (fold (\<lambda>(k, v) acc. if value_changed old k v then imap_insert k v acc else acc) new m)
    = filter (\<lambda>e. p (fst e)) m"
  using assms
proof (induction new arbitrary: m)
  case (Cons e new)
  then show ?case by (cases e) (auto simp: insert_keeps_others)
qed simp

lemma diff_removes_order:
  assumes "list_all (\<lambda>(k, v). \<not> contains_key new k \<longrightarrow> \<not> p k) old"
  shows "filter (\<lambda>e. p (fst e))
      (fold (\<lambda>(k, v) acc. if \<not> contains_key new k then shift_remove k acc else acc) old m)
    = filter (\<lambda>e. p (fst e)) m"
  using assms
proof (induction old arbitrary: m)
  case (Cons e old)
  then show ?case by (cases e) (auto simp: remove_keeps_others)
qed simp

lemma diff_maps_order:
  assumes "imap_wf new"
  shows "filter (\<lambda>e. \<not> touched old new (fst e)) (diff_maps old new m)
    = filter (\<lambda>e. \<not> touched old new (fst e)) m"
proof -
  have "filter (\<lambda>e. \<not> touched old new (fst e))
      (fold (\<lambda>(k, v) acc. if value_changed old k v then imap_insert k v acc else acc) new m)
    = filter (\<lambda>e. \<not> touched old new (fst e)) m"
    by (rule diff_inserts_order) (use assms in \<open>auto simp: list_all_iff touched_def imap_wf_def\<close>)
  moreover have "list_all (\<lambda>(k, v). \<not> contains_key new k \<longrightarrow> \<not> \<not> touched old new k) old"
    by (auto simp: list_all_iff touched_def contains_key_def weak_map_of_SomeI split: option.splits)
  ultimately show ?thesis unfolding diff_maps_def by (subst diff_removes_order) auto
qed

lemma diff_maps_wf: "imap_wf m \<Longrightarrow> imap_wf (diff_maps old new m)"
proof -
  have "imap_wf (fold (\<lambda>(k, v) acc. if value_changed old k v then imap_insert k v acc else acc) new m)"
    if "imap_wf m" for m :: "json imap" using that by (induction new arbitrary: m) auto
  moreover have "imap_wf (fold (\<lambda>(k, v) acc. if \<not> contains_key new k then shift_remove k acc else acc) old m)"
    if "imap_wf m" for m :: "json imap" using that by (induction old arbitrary: m) auto
  ultimately show "imap_wf m \<Longrightarrow> imap_wf (diff_maps old new m)" by (simp add: diff_maps_def)
qed

text \<open>A key that is equal before and after, or absent from both, keeps what the file has for it.\<close>

lemma diff_maps_same:
  assumes "imap_wf new"
    and "(case imap_get old k of None \<Rightarrow> imap_get new k = None
          | Some v \<Rightarrow> \<exists>w. imap_get new k = Some w \<and> json_eq v w)"
  shows "imap_get (diff_maps old new m) k = imap_get m k"
  using assms by (auto simp: diff_maps_get value_changed_def split: option.splits)

section \<open>Properties of the record's written forms\<close>

text \<open>
  C29. A record written in either form is read back: in the order of the struct as itself, and in
  the order of the first write with the empty optional parts dropped and \<open>ephemeral\<close> made explicit.
  Unknown fields come back unchanged and in order.
\<close>

theorem metadata_roundtrip:
  assumes "meta_wf m"
  shows "from_map (to_map m) = Some m \<and> from_map (publication_map m) = Some (published_form m)"
  using assms by (simp add: from_map_to_map from_map_publication_map)

definition sample_meta :: SessionMetadata where
  "sample_meta = the (from_map
     [(ustr ''command'', JString (ustr ''sh'')), (ustr ''tags'', JObject []),
      (ustr ''daemonPid'', JNumber (PosInt 42)), (ustr ''color'', JNull)])"

theorem metadata_roundtrip_witness:
  "from_map (to_map sample_meta) = Some sample_meta
   \<and> from_map (publication_map sample_meta) = Some (published_form sample_meta)
   \<and> md_tags sample_meta = Some [] \<and> md_tags (published_form sample_meta) = None"
proof -
  have m: "from_map [(ustr ''command'', JString (ustr ''sh'')), (ustr ''tags'', JObject []),
      (ustr ''daemonPid'', JNumber (PosInt 42)), (ustr ''color'', JNull)] = Some sample_meta"
    by (simp add: sample_meta_def from_map_def opt_field_def plain_field_def as_i32_def in_range_def)
  have w: "meta_wf sample_meta" by (rule from_map_wf [OF _ m]) (simp add: imap_wf_def)
  have "md_tags sample_meta = Some []"
    by (simp add: sample_meta_def from_map_def opt_field_def plain_field_def as_i32_def in_range_def)
  then show ?thesis using metadata_roundtrip [OF w] by (simp add: published_form_def nonempty_def)
qed

text \<open>
  A rewrite sets exactly the keys whose value changed, removes exactly the keys that went away,
  and leaves every other entry of the file, known or not, where it was.
\<close>

theorem rewrite_changes_only_the_difference:
  assumes "imap_wf file"
  shows "imap_wf (apply_metadata_diff before after file)
    \<and> imap_get (apply_metadata_diff before after file) k =
        (case imap_get (to_map after) k of
           Some v \<Rightarrow> if value_changed (to_map before) k v then Some v else imap_get file k
         | None \<Rightarrow> if imap_get (to_map before) k \<noteq> None then None else imap_get file k)
    \<and> filter (\<lambda>e. \<not> touched (to_map before) (to_map after) (fst e))
        (apply_metadata_diff before after file)
      = filter (\<lambda>e. \<not> touched (to_map before) (to_map after) (fst e)) file"
  using assms diff_maps_get [OF to_map_wf] diff_maps_order [OF to_map_wf] diff_maps_wf
  by (simp add: apply_metadata_diff_def)

theorem rewrite_changes_only_the_difference_witness:
  "imap_get (apply_metadata_diff sample_meta (sample_meta\<lparr>md_display_name := Some (ustr ''web'')\<rparr>)
      [(ustr ''color'', JNull), (ustr ''command'', JString (ustr ''sh''))]) (ustr ''displayName'')
   = Some (JString (ustr ''web''))"
proof -
  let ?a = "sample_meta\<lparr>md_display_name := Some (ustr ''web'')\<rparr>"
  let ?f = "[(ustr ''color'', JNull), (ustr ''command'', JString (ustr ''sh''))]"
  have e: "sample_meta = the (from_map
     [(ustr ''command'', JString (ustr ''sh'')), (ustr ''tags'', JObject []),
      (ustr ''daemonPid'', JNumber (PosInt 42)), (ustr ''color'', JNull)])"
    by (simp add: sample_meta_def)
  have x: "md_extra sample_meta = [(ustr ''color'', JNull)]" "md_display_name sample_meta = None"
    by (simp_all add: e from_map_def opt_field_def plain_field_def as_i32_def in_range_def known_keys_def)
  have "imap_get (to_map ?a) (ustr ''displayName'') = Some (JString (ustr ''web''))"
    using x by (simp add: to_map_get imap_wf_def field_table_def)
  moreover have "imap_get (to_map sample_meta) (ustr ''displayName'') = None"
    using x by (simp add: to_map_get imap_wf_def field_table_def)
  ultimately show ?thesis
    using rewrite_changes_only_the_difference [of ?f sample_meta ?a "ustr ''displayName''"]
    by (simp add: imap_wf_def value_changed_def)
qed

end
