(* ===== verification/Registry_Mutate.thy ===== *)
theory Registry_Mutate
  imports Metadata_Diff Names "HOL-Library.List_Lexorder"
begin

text \<open>
  Read-modify-write of a session record (\<^verbatim>\<open>crates/pty-core/src/registry/mutate.rs\<close>): the mutation under
  the creation lock with its guards, the compare-and-set of one tag, and the presentation patches.
  What the registry on disk answers during one call is \<open>mutate_io\<close>: whether the lock was granted, what
  the two reads of the file return, and whether the atomic write succeeds. The closure the caller
  passes is a function on the record and on the variables it captures; those are threaded through.
  The result says which map was written and which hook ran.
\<close>

section \<open>Guards\<close>

record MutateOptions =
  expected_generation :: "rstr option"
  expected_metadata :: "SessionMetadata option"

definition no_options :: MutateOptions where
  "no_options = \<lparr>expected_generation = None, expected_metadata = None\<rparr>"

datatype MutateStatus =
    Busy
  | Missing
  | GenerationMismatch
  | Stale
  | Unchanged SessionMetadata
  | Changed SessionMetadata

fun mutate_status_text :: "MutateStatus \<Rightarrow> rstr" where
  "mutate_status_text Busy = ustr ''busy''"
| "mutate_status_text Missing = ustr ''missing''"
| "mutate_status_text GenerationMismatch = ustr ''generation-mismatch''"
| "mutate_status_text Stale = ustr ''stale''"
| "mutate_status_text (Unchanged _) = ustr ''unchanged''"
| "mutate_status_text (Changed _) = ustr ''changed''"

definition metadata_matches_observation :: "SessionMetadata \<Rightarrow> SessionMetadata \<Rightarrow> bool" where
  "metadata_matches_observation observed current =
     (if md_generation observed \<noteq> None \<or> md_generation current \<noteq> None
      then md_generation observed \<noteq> None \<and> md_generation observed = md_generation current
      else imap_eq json_eq (to_map observed) (to_map current))"

definition guards_hold :: "MutateOptions \<Rightarrow> SessionMetadata \<Rightarrow> bool" where
  "guards_hold options current =
     ((case expected_metadata options of
         Some expected \<Rightarrow> metadata_matches_observation expected current
       | None \<Rightarrow> True)
      \<and> (case expected_generation options of
           Some expected \<Rightarrow> md_generation current = Some expected
         | None \<Rightarrow> True))"

fun opt_map_eq :: "rstr imap option \<Rightarrow> rstr imap option \<Rightarrow> bool" where
  "opt_map_eq None None \<longleftrightarrow> True"
| "opt_map_eq (Some a) (Some b) \<longleftrightarrow> imap_eq (=) a b"
| "opt_map_eq _ _ \<longleftrightarrow> False"

definition operation :: "SessionMetadata \<Rightarrow> rstr option" where
  "operation m = Option.bind (md_tags m) (\<lambda>t. imap_get t (ustr ''st3.start-operation''))"

definition provenance_keys :: "rstr list" where
  "provenance_keys = map ustr [''publicationBinding'', ''publicationRootId'', ''publicationCapability'']"

definition launch_keys :: "rstr list" where
  "launch_keys = map ustr [''command'', ''args'', ''cwd'', ''isolateEnv'', ''extraEnv'', ''sessionEnv'',
     ''unsetEnv'', ''env'']"

definition provenance_changed :: "SessionMetadata \<Rightarrow> SessionMetadata \<Rightarrow> bool" where
  "provenance_changed before after \<longleftrightarrow>
     md_publication_binding before \<noteq> md_publication_binding after
     \<or> md_publication_root_id before \<noteq> md_publication_root_id after
     \<or> md_publication_capability before \<noteq> md_publication_capability after
     \<or> (md_publication_binding before \<noteq> None
        \<and> (operation before \<noteq> operation after \<or> contains_key (md_extra after) (ustr ''tags'')))
     \<or> list_ex (contains_key (md_extra after)) provenance_keys"

definition launch_changed :: "SessionMetadata \<Rightarrow> SessionMetadata \<Rightarrow> bool" where
  "launch_changed before after \<longleftrightarrow>
     md_publication_binding before \<noteq> None
     \<and> (md_command before \<noteq> md_command after
        \<or> md_args before \<noteq> md_args after
        \<or> md_cwd before \<noteq> md_cwd after
        \<or> md_isolate_env before \<noteq> md_isolate_env after
        \<or> \<not> opt_map_eq (md_extra_env before) (md_extra_env after)
        \<or> \<not> opt_map_eq (md_session_env before) (md_session_env after)
        \<or> md_unset_env before \<noteq> md_unset_env after
        \<or> \<not> opt_map_eq (md_env before) (md_env after)
        \<or> list_ex (contains_key (md_extra after)) launch_keys)"

section \<open>The mutation\<close>

record mutate_io =
  io_lock_taken :: bool
  io_first_read :: "json imap option"
  io_latest_read :: "json imap option"
  io_write_ok :: bool

record mutate_result =
  mr_status :: MutateStatus
  mr_written :: "json imap option"
  mr_published :: "SessionMetadata option"
  mr_unchanged :: "SessionMetadata option"

definition refused :: "MutateStatus \<Rightarrow> mutate_result" where
  "refused st = \<lparr>mr_status = st, mr_written = None, mr_published = None, mr_unchanged = None\<rparr>"

definition mutate_metadata_under_lock_core ::
  "mutate_io \<Rightarrow> ('s \<Rightarrow> SessionMetadata \<Rightarrow> 's \<times> SessionMetadata \<times> bool) \<Rightarrow> MutateOptions \<Rightarrow> 's
    \<Rightarrow> 's \<times> mutate_result" where
  "mutate_metadata_under_lock_core io mutate options s =
     (if \<not> io_lock_taken io then (s, refused Busy)
      else case io_first_read io of
        None \<Rightarrow> (s, refused Missing)
      | Some raw \<Rightarrow>
        (case from_map raw of
           None \<Rightarrow> (s, refused Missing)
         | Some before \<Rightarrow>
             if \<not> guards_hold options before then (s, refused GenerationMismatch)
             else
               (case mutate s before of
                  (s', after, accepted) \<Rightarrow>
                    if \<not> accepted then
                      (s', (refused (Unchanged before))\<lparr>mr_unchanged := Some before\<rparr>)
                    else if provenance_changed before after then (s', refused GenerationMismatch)
                    else if launch_changed before after then (s', refused GenerationMismatch)
                    else
                      (case io_latest_read io of
                         None \<Rightarrow> (s', refused Stale)
                       | Some latest_raw \<Rightarrow>
                           if \<not> imap_eq json_eq latest_raw raw then (s', refused Stale)
                           else if \<not> guards_hold options before then (s', refused GenerationMismatch)
                           else
                             (let file = apply_metadata_diff before after raw in
                              if \<not> io_write_ok io then (s', refused Stale)
                              else
                                (let published =
                                   (case from_map file of Some p \<Rightarrow> p | None \<Rightarrow> after)
                                 in (s', \<lparr>mr_status = Changed published, mr_written = Some file,
                                          mr_published = Some published, mr_unchanged = None\<rparr>)))))))"

section \<open>Compare-and-set of a tag\<close>

record TagCompareAndSetRequest =
  tcas_expected_generation :: rstr
  tcas_tag :: rstr
  tcas_expected_value :: rstr
  tcas_value :: rstr

definition validate_tag_cas :: "TagCompareAndSetRequest \<Rightarrow> bool" where
  "validate_tag_cas r \<longleftrightarrow> tcas_expected_generation r \<noteq> [] \<and> tcas_tag r \<noteq> []"

datatype TagCompareAndSetResult =
    CasChanged rstr
  | CasUnchanged rstr
  | CasValueMismatch "rstr option"
  | CasBusy
  | CasMissing
  | CasGenerationMismatch
  | CasStale

text \<open>The captured variables are \<open>current_value\<close> and \<open>matched\<close>.\<close>

definition cas_mutate ::
  "rstr \<Rightarrow> rstr \<Rightarrow> rstr \<Rightarrow> rstr option \<times> bool \<Rightarrow> SessionMetadata
    \<Rightarrow> (rstr option \<times> bool) \<times> SessionMetadata \<times> bool" where
  "cas_mutate tag expected_value val s m =
     (let current = Option.bind (md_tags m) (\<lambda>t. imap_get t tag) in
      if current \<noteq> Some expected_value then ((current, snd s), m, False)
      else if current = Some val then ((current, True), m, False)
      else ((current, True),
            m\<lparr>md_tags := Some (imap_insert tag val (case md_tags m of Some t \<Rightarrow> t | None \<Rightarrow> []))\<rparr>, True))"

text \<open>An empty tag panics: the result is \<open>None\<close>.\<close>

definition compare_and_set_tag_value ::
  "mutate_io \<Rightarrow> rstr \<Rightarrow> rstr \<Rightarrow> rstr \<Rightarrow> rstr \<Rightarrow> (TagCompareAndSetResult \<times> json imap option) option" where
  "compare_and_set_tag_value io generation tag expected_value val =
     (if tag = [] then None
      else
        (case mutate_metadata_under_lock_core io (cas_mutate tag expected_value val)
                \<lparr>expected_generation = Some generation, expected_metadata = None\<rparr> (None, False) of
           ((current, matched), r) \<Rightarrow>
             Some (case mr_status r of
                     Changed _ \<Rightarrow> CasChanged val
                   | Unchanged _ \<Rightarrow> if matched then CasUnchanged val else CasValueMismatch current
                   | Busy \<Rightarrow> CasBusy
                   | Missing \<Rightarrow> CasMissing
                   | GenerationMismatch \<Rightarrow> CasGenerationMismatch
                   | Stale \<Rightarrow> CasStale,
                   mr_written r)))"

section \<open>Presentation patches\<close>

record MetadataPatch =
  mp_display_name :: "rstr option option"
  mp_tags :: "rstr option imap option"

datatype patch_error =
    PatchNotObject
  | PatchUnknownField rstr
  | PatchDisplayNameType
  | PatchTagsType
  | PatchEmptyTagKey
  | PatchTagValueType rstr
  | PatchInvalidDisplayName name_error
  | ResultInvalidDisplayName name_error
  | ResultEmptyTagKey
  | EventLockRefused
  | MetadataBusy rstr
  | SessionNotFound rstr
  | MetadataChangedMeanwhile rstr

definition validate_patch :: "MetadataPatch \<Rightarrow> patch_error + unit" where
  "validate_patch p =
     (case (case mp_display_name p of
              Some (Some dn) \<Rightarrow>
                (case validate_display_name dn of Inl e \<Rightarrow> Inl (PatchInvalidDisplayName e) | Inr _ \<Rightarrow> Inr ())
            | _ \<Rightarrow> Inr ()) of
        Inl e \<Rightarrow> Inl e
      | Inr _ \<Rightarrow>
          (case mp_tags p of
             Some tags \<Rightarrow> if list_ex (\<lambda>e. fst e = []) tags then Inl PatchEmptyTagKey else Inr ()
           | None \<Rightarrow> Inr ()))"

fun patch_tags_from_json :: "rstr option imap \<Rightarrow> json imap \<Rightarrow> patch_error + rstr option imap" where
  "patch_tags_from_json out [] = Inr out"
| "patch_tags_from_json out ((k, v) # rest) =
     (if k = [] then Inl PatchEmptyTagKey
      else case v of
        JNull \<Rightarrow> patch_tags_from_json (imap_insert k None out) rest
      | JString s \<Rightarrow> patch_tags_from_json (imap_insert k (Some s) out) rest
      | _ \<Rightarrow> Inl (PatchTagValueType k))"

definition patch_display_name_from_json :: "json imap \<Rightarrow> patch_error + rstr option option" where
  "patch_display_name_from_json obj =
     (case imap_get obj (ustr ''displayName'') of
        None \<Rightarrow> Inr None
      | Some JNull \<Rightarrow> Inr (Some None)
      | Some (JString s) \<Rightarrow> Inr (Some (Some s))
      | Some _ \<Rightarrow> Inl PatchDisplayNameType)"

definition patch_from_json :: "json \<Rightarrow> patch_error + MetadataPatch" where
  "patch_from_json v =
     (case v of
        JObject obj \<Rightarrow>
          (case find (\<lambda>e. fst e \<noteq> ustr ''displayName'' \<and> fst e \<noteq> ustr ''tags'') obj of
             Some (key, _) \<Rightarrow> Inl (PatchUnknownField key)
           | None \<Rightarrow>
               (case patch_display_name_from_json obj of
                  Inl e \<Rightarrow> Inl e
                | Inr dn \<Rightarrow>
                    (case (case imap_get obj (ustr ''tags'') of
                             None \<Rightarrow> Inr None
                           | Some (JObject tags) \<Rightarrow>
                               (case patch_tags_from_json [] tags of Inl e \<Rightarrow> Inl e | Inr t \<Rightarrow> Inr (Some t))
                           | Some _ \<Rightarrow> Inl PatchTagsType) of
                       Inl e \<Rightarrow> Inl e
                     | Inr tags \<Rightarrow>
                         (let patch = \<lparr>mp_display_name = dn, mp_tags = tags\<rparr> in
                          case validate_patch patch of Inl e \<Rightarrow> Inl e | Inr _ \<Rightarrow> Inr patch))))
      | _ \<Rightarrow> Inl PatchNotObject)"

record MetadataChangeSnapshot =
  cs_display_name :: "rstr option option"
  cs_tags :: "rstr option imap option"

record PatchState =
  ps_previous_tags :: TagMap
  ps_next_tags :: TagMap
  ps_previous :: MetadataChangeSnapshot
  ps_value :: MetadataChangeSnapshot
  ps_error :: "patch_error option"

definition empty_snapshot :: MetadataChangeSnapshot where
  "empty_snapshot = \<lparr>cs_display_name = None, cs_tags = None\<rparr>"

definition new_patch_state :: PatchState where
  "new_patch_state = \<lparr>ps_previous_tags = [], ps_next_tags = [], ps_previous = empty_snapshot,
     ps_value = empty_snapshot, ps_error = None\<rparr>"

fun patch_tag_loop :: "TagMap \<Rightarrow> rstr list \<Rightarrow> TagMap \<Rightarrow> rstr option imap \<Rightarrow> rstr list \<times> TagMap" where
  "patch_tag_loop previous changed_keys next_tags [] = (changed_keys, next_tags)"
| "patch_tag_loop previous changed_keys next_tags ((key, requested) # rest) =
     (if imap_get previous key = requested then patch_tag_loop previous changed_keys next_tags rest
      else patch_tag_loop previous (changed_keys @ [key])
             (case requested of
                None \<Rightarrow> shift_remove key next_tags
              | Some v \<Rightarrow> imap_insert key v next_tags)
             rest)"

definition snapshot_of :: "TagMap \<Rightarrow> rstr list \<Rightarrow> rstr option imap" where
  "snapshot_of tags ks = fold (\<lambda>k. imap_insert k (imap_get tags k)) ks []"

definition patch_display_name ::
  "MetadataPatch \<Rightarrow> PatchState \<times> SessionMetadata \<Rightarrow> PatchState \<times> SessionMetadata" where
  "patch_display_name patch p =
     (case p of (st, m) \<Rightarrow>
       (case mp_display_name patch of
          None \<Rightarrow> (st, m)
        | Some requested \<Rightarrow>
            if md_display_name m = requested then (st, m)
            else (st\<lparr>ps_previous := (ps_previous st)\<lparr>cs_display_name := Some (md_display_name m)\<rparr>,
                     ps_value := (ps_value st)\<lparr>cs_display_name := Some requested\<rparr>\<rparr>,
                  m\<lparr>md_display_name := requested\<rparr>)))"

definition patch_tags ::
  "MetadataPatch \<Rightarrow> PatchState \<times> SessionMetadata \<Rightarrow> PatchState \<times> SessionMetadata" where
  "patch_tags patch p =
     (case p of (st, m) \<Rightarrow>
       (case mp_tags patch of
          None \<Rightarrow> (st, m)
        | Some tags \<Rightarrow>
            (case patch_tag_loop (ps_previous_tags st) [] (ps_next_tags st) tags of
               (changed, next_tags) \<Rightarrow>
                 (let st' = st\<lparr>ps_next_tags := next_tags\<rparr> in
                  if changed = [] then (st', m)
                  else
                    (let ks = sort changed in
                     (st'\<lparr>ps_previous :=
                            (ps_previous st')\<lparr>cs_tags := Some (snapshot_of (ps_previous_tags st') ks)\<rparr>,
                          ps_value := (ps_value st')\<lparr>cs_tags := Some (snapshot_of next_tags ks)\<rparr>\<rparr>,
                      m\<lparr>md_tags := if next_tags = [] then None else Some next_tags\<rparr>))))))"

definition patch_mutate ::
  "MetadataPatch \<Rightarrow> PatchState \<Rightarrow> SessionMetadata \<Rightarrow> PatchState \<times> SessionMetadata \<times> bool" where
  "patch_mutate patch st0 m0 =
     (let previous = (case md_tags m0 of Some t \<Rightarrow> t | None \<Rightarrow> []);
          st1 = st0\<lparr>ps_previous_tags := previous, ps_next_tags := previous\<rparr>
      in case patch_tags patch (patch_display_name patch (st1, m0)) of
           (st, m) \<Rightarrow>
             if cs_display_name (ps_previous st) = None \<and> cs_tags (ps_previous st) = None
             then (st, m, False)
             else
               (case (case md_display_name m of Some dn \<Rightarrow> validate_display_name dn | None \<Rightarrow> Inr ()) of
                  Inl e \<Rightarrow> (st\<lparr>ps_error := Some (ResultInvalidDisplayName e)\<rparr>, m, False)
                | Inr _ \<Rightarrow>
                    if (case md_tags m of Some t \<Rightarrow> list_ex (\<lambda>e. fst e = []) t | None \<Rightarrow> False)
                    then (st\<lparr>ps_error := Some ResultEmptyTagKey\<rparr>, m, False)
                    else (st, m, True)))"

datatype MetadataPatchEvent = MetadataChange | DisplayNameChange | TagsChange

datatype patch_record =
    RecMetadataChange MetadataChangeSnapshot MetadataChangeSnapshot
  | RecDisplayNameChange "rstr option" "rstr option"
  | RecTagsChange TagMap TagMap

definition patch_event :: "MetadataPatchEvent \<Rightarrow> PatchState \<Rightarrow> patch_record" where
  "patch_event ev st =
     (case ev of
        MetadataChange \<Rightarrow> RecMetadataChange (ps_previous st) (ps_value st)
      | DisplayNameChange \<Rightarrow>
          RecDisplayNameChange (Option.bind (cs_display_name (ps_previous st)) (\<lambda>x. x))
            (Option.bind (cs_display_name (ps_value st)) (\<lambda>x. x))
      | TagsChange \<Rightarrow> RecTagsChange (ps_previous_tags st) (ps_next_tags st))"

record MetadataPatchResult =
  pr_changed :: bool
  pr_metadata :: SessionMetadata

text \<open>The second component is the map written, the third the event appended.\<close>

definition apply_metadata_patch_by_id ::
  "bool \<Rightarrow> mutate_io \<Rightarrow> rstr \<Rightarrow> MetadataPatch \<Rightarrow> MetadataPatchEvent
    \<Rightarrow> (patch_error + MetadataPatchResult) \<times> json imap option \<times> patch_record option" where
  "apply_metadata_patch_by_id event_lock_taken io session patch ev =
     (case validate_patch patch of
        Inl e \<Rightarrow> (Inl e, None, None)
      | Inr _ \<Rightarrow>
          if \<not> event_lock_taken then (Inl EventLockRefused, None, None)
          else
            (case mutate_metadata_under_lock_core io (patch_mutate patch) no_options new_patch_state of
               (st, r) \<Rightarrow>
                 ((case ps_error st of
                     Some e \<Rightarrow> Inl e
                   | None \<Rightarrow>
                       (case mr_status r of
                          Busy \<Rightarrow> Inl (MetadataBusy session)
                        | Missing \<Rightarrow> Inl (SessionNotFound session)
                        | Stale \<Rightarrow> Inl (MetadataChangedMeanwhile session)
                        | GenerationMismatch \<Rightarrow> Inl (MetadataChangedMeanwhile session)
                        | Unchanged m \<Rightarrow> Inr \<lparr>pr_changed = False, pr_metadata = m\<rparr>
                        | Changed m \<Rightarrow> Inr \<lparr>pr_changed = True, pr_metadata = m\<rparr>)),
                  mr_written r,
                  map_option (\<lambda>_. patch_event ev st) (mr_published r))))"

definition set_display_name ::
  "bool \<Rightarrow> mutate_io \<Rightarrow> rstr \<Rightarrow> rstr option
    \<Rightarrow> (patch_error + MetadataPatchResult) \<times> json imap option \<times> patch_record option" where
  "set_display_name event_lock_taken io name display_name =
     apply_metadata_patch_by_id event_lock_taken io name
       \<lparr>mp_display_name = Some (if display_name = Some [] then None else display_name), mp_tags = None\<rparr>
       DisplayNameChange"

definition update_tags ::
  "bool \<Rightarrow> mutate_io \<Rightarrow> rstr \<Rightarrow> TagMap \<Rightarrow> rstr list
    \<Rightarrow> (patch_error + MetadataPatchResult) \<times> json imap option \<times> patch_record option" where
  "update_tags event_lock_taken io name updates removals =
     apply_metadata_patch_by_id event_lock_taken io name
       \<lparr>mp_display_name = None,
        mp_tags = Some (fold (\<lambda>k. imap_insert k None) removals
                          (map (\<lambda>(k, v). (k, Some v)) updates))\<rparr>
       TagsChange"

section \<open>Facts about the guards\<close>

lemma insert_all_other: "imap_get new k = None \<Longrightarrow> imap_get (insert_all new m) k = imap_get m k"
proof (induction new arbitrary: m)
  case (Cons e new)
  then show ?case by (cases e) (auto simp: insert_all_def split: if_splits)
qed (simp add: insert_all_def)

lemma to_map_field:
  assumes "imap_get (md_extra m) k = None" and "map_of (field_table m) k = Some v"
  shows "imap_get (to_map m) k = v"
  using assms by (simp add: to_map_def insert_all_other present_get [OF field_table_distinct])

lemma from_map_no_known:
  "from_map raw = Some m \<Longrightarrow> k \<in> set known_keys \<Longrightarrow> imap_get (md_extra m) k = None"
  by (auto simp: from_map_fields(1) map_of_eq_None_iff)

lemma json_eq_strings: "json_eq (strings_value a) (strings_value b) \<longleftrightarrow> a = b"
  by (simp add: strings_value_def list_all2_map1 list_all2_map2 list.rel_eq)

lemma json_eq_string_map: "json_eq (string_map_value a) (string_map_value b) \<longleftrightarrow> imap_eq (=) a b"
  by (auto simp: string_map_value_def imap_eq_def list_all_iff map_of_map split: option.splits)

lemma json_eq_int: "json_eq (json_int a) (json_int a)"
  by (simp add: json_int_def)

lemma json_eq_binding: "json_eq (binding_value a) (binding_value a)"
  by (simp add: binding_value_def)

lemmas json_eq_values = json_eq_strings json_eq_string_map json_eq_int json_eq_binding

definition opt_json_eq :: "json option \<Rightarrow> json option \<Rightarrow> bool" where
  "opt_json_eq a b =
     (case a of None \<Rightarrow> b = None | Some v \<Rightarrow> (case b of None \<Rightarrow> False | Some w \<Rightarrow> json_eq v w))"

text \<open>A known field that compares equal in both records keeps the value the file has for it.\<close>

lemma rewrite_keeps_field:
  assumes "from_map raw = Some before" and "k \<in> set known_keys"
    and "\<not> contains_key (md_extra after) k"
    and "opt_json_eq (the (map_of (field_table before) k)) (the (map_of (field_table after) k))"
  shows "imap_get (apply_metadata_diff before after raw) k = imap_get raw k"
proof -
  obtain v where v: "map_of (field_table before) k = Some v"
    by (metis assms(2) field_table_keys list.set_map map_of_eq_None_iff not_None_eq)
  obtain w where w: "map_of (field_table after) k = Some w"
    by (metis assms(2) field_table_keys list.set_map map_of_eq_None_iff not_None_eq)
  have "imap_get (to_map before) k = v"
    by (rule to_map_field [OF from_map_no_known [OF assms(1,2)] v])
  moreover have "imap_get (to_map after) k = w"
    by (rule to_map_field [OF _ w]) (use assms(3) in \<open>simp add: contains_key_def\<close>)
  ultimately show ?thesis
    unfolding apply_metadata_diff_def using assms(4) v w
    by (intro diff_maps_same [OF to_map_wf]) (auto simp: opt_json_eq_def split: option.splits)
qed

lemma opt_json_eq_map: "opt_json_eq (map_option f x) (map_option f x) \<longleftrightarrow> (\<forall>y. x = Some y \<longrightarrow> json_eq (f y) (f y))"
  by (cases x) (auto simp: opt_json_eq_def)

lemma opt_json_eq_env:
  "opt_json_eq (map_option string_map_value a) (map_option string_map_value b) \<longleftrightarrow> opt_map_eq a b"
  by (cases a; cases b) (auto simp: opt_json_eq_def json_eq_values)

lemma opt_json_eq_Some: "opt_json_eq (Some a) (Some b) \<longleftrightarrow> json_eq a b"
  by (simp add: opt_json_eq_def)

lemmas opt_json_simps = opt_json_eq_map opt_json_eq_env opt_json_eq_Some json_eq_values

lemma provenance_kept:
  assumes "from_map raw = Some before" and "\<not> provenance_changed before after"
    and "k \<in> set provenance_keys"
  shows "imap_get (apply_metadata_diff before after raw) k = imap_get raw k"
proof -
  have e: "\<not> contains_key (md_extra after) k"
    using assms(2,3) by (auto simp: provenance_changed_def list_ex_iff)
  have n: "k \<in> set known_keys" using assms(3) by (auto simp: provenance_keys_def known_keys_def)
  have "opt_json_eq (the (map_of (field_table before) k)) (the (map_of (field_table after) k))"
    using assms(2-) unfolding provenance_keys_def provenance_changed_def
    by (auto simp: field_table_def opt_json_simps)
  then show ?thesis by (rule rewrite_keeps_field [OF assms(1) n e])
qed

lemma launch_kept:
  assumes "from_map raw = Some before" and "\<not> launch_changed before after"
    and "md_publication_binding before \<noteq> None" and "k \<in> set launch_keys"
  shows "imap_get (apply_metadata_diff before after raw) k = imap_get raw k"
proof -
  have e: "\<not> contains_key (md_extra after) k"
    using assms(2-) by (auto simp: launch_changed_def list_ex_iff)
  have n: "k \<in> set known_keys" using assms(4) by (auto simp: launch_keys_def known_keys_def)
  have "opt_json_eq (the (map_of (field_table before) k)) (the (map_of (field_table after) k))"
    using assms(2-) unfolding launch_keys_def launch_changed_def
    by (auto simp: field_table_def opt_json_simps)
  then show ?thesis by (rule rewrite_keeps_field [OF assms(1) n e])
qed

definition file_operation :: "json imap \<Rightarrow> rstr option" where
  "file_operation file =
     (case imap_get file (ustr ''tags'') of
        Some (JObject kvs) \<Rightarrow> Option.bind (imap_get kvs (ustr ''st3.start-operation'')) as_string
      | _ \<Rightarrow> None)"

lemma as_string_map_get:
  "those (map (\<lambda>(k, v). map_option (Pair k) (as_string v)) kvs) = Some t \<Longrightarrow>
     Option.bind (imap_get kvs k) as_string = imap_get t k"
proof (induction kvs arbitrary: t)
  case (Cons e kvs)
  then show ?case by (cases e) (auto split: option.splits)
qed simp

lemma file_operation_from_map:
  assumes "from_map raw = Some m"
  shows "file_operation raw = operation m"
proof (cases "imap_get raw (ustr ''tags'')")
  case None
  then show ?thesis using from_map_fields(4) [OF assms]
    by (simp add: opt_field_def file_operation_def operation_def)
next
  case (Some v)
  then show ?thesis using from_map_fields(4) [OF assms]
    by (cases v) (auto simp: opt_field_def file_operation_def operation_def
        dest!: sym [of "Some _" "md_tags m"] as_string_map_get [where k = "ustr ''st3.start-operation''"])
qed

lemma operation_kept:
  assumes "from_map raw = Some before" and "\<not> provenance_changed before after"
    and "md_publication_binding before \<noteq> None"
  shows "file_operation (apply_metadata_diff before after raw) = file_operation raw"
proof -
  let ?t = "ustr ''tags''" and ?file = "apply_metadata_diff before after raw"
  have eq: "operation before = operation after" and e: "imap_get (md_extra after) ?t = None"
    using assms(2,3) by (auto simp: provenance_changed_def contains_key_def)
  have a: "imap_get (to_map after) ?t = map_option string_map_value (md_tags after)"
    by (rule to_map_field [OF e]) (simp add: field_table_def)
  have b: "imap_get (to_map before) ?t = map_option string_map_value (md_tags before)"
    by (rule to_map_field [OF from_map_no_known [OF assms(1)]])
      (simp_all add: field_table_def known_keys_def)
  have f: "imap_get ?file ?t = (case md_tags after of
       Some t \<Rightarrow> if value_changed (to_map before) ?t (string_map_value t)
                 then Some (string_map_value t) else imap_get raw ?t
     | None \<Rightarrow> if md_tags before \<noteq> None then None else imap_get raw ?t)"
    by (auto simp: apply_metadata_diff_def diff_maps_get [OF to_map_wf] a b split: option.split)
  have r: "file_operation raw = operation after" using file_operation_from_map [OF assms(1)] eq by simp
  have s: "Option.bind (imap_get (map (\<lambda>(k, v). (k, JString v)) t) k) as_string = imap_get t k" for t k
    by (simp add: map_of_map) (cases "imap_get t k"; simp)
  show ?thesis
  proof (cases "imap_get ?file ?t = imap_get raw ?t")
    case True
    then show ?thesis by (simp add: file_operation_def)
  next
    case False
    then show ?thesis using f r s
      by (auto simp: file_operation_def operation_def string_map_value_def split: option.splits if_splits)
  qed
qed

section \<open>Facts about the mutation\<close>

lemma core_written:
  assumes "mutate_metadata_under_lock_core io mutate options s = (s', r)" and "mr_written r = Some file"
  obtains raw before after latest p where
    "io_lock_taken io" "io_first_read io = Some raw" "from_map raw = Some before"
    "guards_hold options before" "mutate s before = (s', after, True)"
    "\<not> provenance_changed before after" "\<not> launch_changed before after"
    "io_latest_read io = Some latest" "imap_eq json_eq latest raw" "io_write_ok io"
    "file = apply_metadata_diff before after raw" "mr_status r = Changed p" "mr_published r = Some p"
    "p = (case from_map file of Some q \<Rightarrow> q | None \<Rightarrow> after)"
  using assms
  by (auto simp: mutate_metadata_under_lock_core_def refused_def Let_def
      split: if_splits option.splits prod.splits)

lemma core_status_written:
  assumes "mutate_metadata_under_lock_core io mutate options s = (s', r)"
  shows "(mr_written r \<noteq> None \<longleftrightarrow> (\<exists>p. mr_status r = Changed p))
    \<and> (\<forall>p. mr_published r = Some p \<longleftrightarrow> mr_status r = Changed p)
    \<and> (\<forall>m. mr_unchanged r = Some m \<longleftrightarrow> mr_status r = Unchanged m)"
  using assms
  by (auto simp: mutate_metadata_under_lock_core_def refused_def Let_def
      split: if_splits option.splits prod.splits)

section \<open>Properties of the mutation\<close>

text \<open>
  C4. A record is written only by a call that holds the lock, read the record, found it to match
  the expected generation or observation, whose closure accepted, and that read the same content
  again just before writing; the write is exactly the difference the closure made. The status is
  \<open>Changed\<close> exactly when a map was written, and the hooks run exactly on \<open>Changed\<close> and on
  \<open>Unchanged\<close>.
\<close>

theorem mutation_writes_only_when_guarded:
  assumes "mutate_metadata_under_lock_core io mutate options s = (s', r)"
  shows "(mr_written r \<noteq> None \<longleftrightarrow> (\<exists>p. mr_status r = Changed p))
    \<and> (\<forall>p. mr_published r = Some p \<longleftrightarrow> mr_status r = Changed p)
    \<and> (\<forall>m. mr_unchanged r = Some m \<longleftrightarrow> mr_status r = Unchanged m)
    \<and> (\<forall>file. mr_written r = Some file \<longrightarrow>
         (\<exists>raw before after latest.
            io_lock_taken io \<and> io_first_read io = Some raw \<and> from_map raw = Some before
            \<and> guards_hold options before \<and> mutate s before = (s', after, True)
            \<and> io_latest_read io = Some latest \<and> imap_eq json_eq latest raw
            \<and> file = apply_metadata_diff before after raw))"
proof -
  have "\<exists>raw before after latest.
            io_lock_taken io \<and> io_first_read io = Some raw \<and> from_map raw = Some before
            \<and> guards_hold options before \<and> mutate s before = (s', after, True)
            \<and> io_latest_read io = Some latest \<and> imap_eq json_eq latest raw
            \<and> w = apply_metadata_diff before after raw"
    if "mr_written r = Some w" for w
    by (rule core_written [OF assms that]) blast
  then show ?thesis using core_status_written [OF assms] by blast
qed

text \<open>
  C7. Provenance is immutable: whatever closure a caller passes, a record that is written has the
  publication binding, root and capability the file had; and when it is bound, also the launch inputs
  and the operation tag the file had.
\<close>

theorem publication_provenance_immutable:
  assumes "mutate_metadata_under_lock_core io mutate options s = (s', r)"
    and "mr_written r = Some file" and "io_first_read io = Some raw"
  shows "(\<forall>k \<in> set provenance_keys. imap_get file k = imap_get raw k)
    \<and> (imap_get raw (ustr ''publicationBinding'') \<notin> {None, Some JNull} \<longrightarrow>
         (\<forall>k \<in> set launch_keys. imap_get file k = imap_get raw k)
         \<and> file_operation file = file_operation raw)"
proof (rule core_written [OF assms(1,2)])
  fix raw' before after latest p
  assume *: "io_first_read io = Some raw'" "from_map raw' = Some before"
    "\<not> provenance_changed before after" "\<not> launch_changed before after"
    "file = apply_metadata_diff before after raw'"
  then have r: "raw' = raw" using assms(3) by simp
  have "md_publication_binding before \<noteq> None"
    if bound: "imap_get raw (ustr ''publicationBinding'') \<notin> {None, Some JNull}"
  proof -
    obtain v where "imap_get raw (ustr ''publicationBinding'') = Some v" "v \<noteq> JNull"
      using bound by (cases "imap_get raw (ustr ''publicationBinding'')") auto
    then show ?thesis using opt_field_some [of raw "''publicationBinding''" v as_binding]
        from_map_fields(5) [OF *(2)] r by (cases "as_binding v") (auto dest: sym)
  qed
  then show ?thesis
    using * r provenance_kept [OF *(2,3)] launch_kept [OF *(2,4)] operation_kept [OF *(2,3)] by blast
qed

section \<open>A concrete call\<close>

definition sample_file :: "json imap" where
  "sample_file =
     [(ustr ''generation'', JString (ustr ''g1'')), (ustr ''color'', JNull),
      (ustr ''publicationBinding'', JArray [JString (ustr ''op''), JString (ustr ''dg'')]),
      (ustr ''tags'', JObject [(ustr ''role'', JString (ustr ''web''))])]"

definition sample_before :: SessionMetadata where
  "sample_before = the (from_map sample_file)"

definition sample_io :: mutate_io where
  "sample_io = \<lparr>io_lock_taken = True, io_first_read = Some sample_file,
     io_latest_read = Some (rev sample_file), io_write_ok = True\<rparr>"

lemma sample_before_eq: "from_map sample_file = Some sample_before"
  by (simp add: sample_before_def sample_file_def from_map_def opt_field_def plain_field_def)

lemma sample_fields:
  "md_generation sample_before = Some (ustr ''g1'')" "md_extra sample_before = [(ustr ''color'', JNull)]"
  "md_tags sample_before = Some [(ustr ''role'', ustr ''web'')]"
  "md_display_name sample_before = None" 
  "md_publication_binding sample_before = Some \<lparr>pb_operation = ustr ''op'', pb_digest = ustr ''dg''\<rparr>"
  "md_extra_env sample_before = None" "md_session_env sample_before = None" "md_env sample_before = None"
  using from_map_fields [OF sample_before_eq]
  by (auto simp: sample_file_def known_keys_def opt_field_def)

lemma sample_reread: "imap_eq json_eq (rev sample_file) sample_file"
  by (simp add: sample_file_def imap_eq_def)

lemmas sample_eval = sample_io_def sample_before_eq sample_fields sample_reread no_options_def
  guards_hold_def provenance_changed_def launch_changed_def provenance_keys_def launch_keys_def
  contains_key_def operation_def mutate_metadata_under_lock_core_def Let_def

definition rename_web :: "unit \<Rightarrow> SessionMetadata \<Rightarrow> unit \<times> SessionMetadata \<times> bool" where
  "rename_web s m = (s, m\<lparr>md_display_name := Some (ustr ''web'')\<rparr>, True)"

lemma sample_core:
  "\<exists>p. mutate_metadata_under_lock_core sample_io rename_web no_options () =
     ((), \<lparr>mr_status = Changed p,
       mr_written = Some (apply_metadata_diff sample_before
          (sample_before\<lparr>md_display_name := Some (ustr ''web'')\<rparr>) sample_file),
       mr_published = Some p, mr_unchanged = None\<rparr>)"
  by (simp add: sample_eval rename_web_def)

theorem mutation_writes_only_when_guarded_witness:
  "\<exists>p. mr_status (snd (mutate_metadata_under_lock_core sample_io rename_web no_options ())) = Changed p
     \<and> mr_published (snd (mutate_metadata_under_lock_core sample_io rename_web no_options ())) = Some p"
proof -
  obtain p where c: "mr_status (snd (mutate_metadata_under_lock_core sample_io rename_web no_options ()))
      = Changed p" using sample_core by (metis mutate_result.select_convs(1) snd_conv)
  then show ?thesis
    using mutation_writes_only_when_guarded [of sample_io rename_web no_options "()" "()"
        "snd (mutate_metadata_under_lock_core sample_io rename_web no_options ())"]
    by (metis prod.collapse old.unit.exhaust)
qed

theorem publication_provenance_immutable_witness:
  "\<exists>file. mr_written (snd (mutate_metadata_under_lock_core sample_io rename_web no_options ())) = Some file
     \<and> imap_get file (ustr ''publicationBinding'')
         = Some (JArray [JString (ustr ''op''), JString (ustr ''dg'')])
     \<and> imap_get file (ustr ''command'') = None"
proof -
  let ?r = "snd (mutate_metadata_under_lock_core sample_io rename_web no_options ())"
  obtain w where w: "mr_written ?r = Some w" using sample_core by (metis mutate_result.select_convs(2) snd_conv)
  have "mutate_metadata_under_lock_core sample_io rename_web no_options () = ((), ?r)"
    by (simp add: prod_eq_iff)
  from publication_provenance_immutable [OF this w, of sample_file] w show ?thesis
    by (simp add: sample_io_def sample_file_def provenance_keys_def launch_keys_def)
qed

end
