(* ===== verification/Registry_Patch.thy ===== *)
theory Registry_Patch
  imports Registry_Mutate
begin

text \<open>
  What the compare-and-set of a tag and the presentation patches of
  \<^verbatim>\<open>crates/pty-core/src/registry/mutate.rs\<close> do to a record and to its file.
\<close>

section \<open>Values of a parsed file\<close>

lemma as_string_map_keys:
  "those (map (\<lambda>(k, v). map_option (Pair k) (as_string v)) kvs) = Some t \<Longrightarrow> map fst t = map fst kvs"
proof (induction kvs arbitrary: t)
  case (Cons e kvs)
  then show ?case by (cases e) (auto split: option.splits)
qed simp

lemma string_map_value_wf: "json_wf (string_map_value t) \<longleftrightarrow> imap_wf t"
  by (auto simp: string_map_value_def imap_wf_def list_all_iff o_def case_prod_beta)

lemma file_map_field_wf:
  assumes "json_wf (JObject raw)" and "opt_field as_string_map raw k = Some x"
  shows "pred_option imap_wf x"
proof (cases x)
  case xt: (Some t)
  obtain v where v: "imap_get raw (ustr k) = Some v" "as_string_map v = Some t"
    using assms(2) xt by (auto simp: opt_field_def split: option.splits json.splits)
  have "json_wf v" using assms(1) map_of_SomeD [OF v(1)] by (force simp: list_all_iff)
  then show ?thesis
    using v(2) xt by (cases v) (auto simp: imap_wf_def dest: as_string_map_keys)
qed simp

lemma file_recovery_wf:
  assumes "json_wf (JObject raw)" and "opt_field Some raw k = Some x"
  shows "pred_option json_wf x"
proof (cases x)
  case (Some v)
  then have "imap_get raw (ustr k) = Some v"
    using assms(2) by (auto simp: opt_field_def split: option.splits json.splits)
  then show ?thesis using assms(1) Some map_of_SomeD by (force simp: list_all_iff)
qed simp

lemma strings_value_wf: "json_wf (strings_value ss)"
  by (simp add: strings_value_def list_all_iff)

lemma json_int_wf: "json_wf (json_int i)"
  by (simp add: json_int_def)

lemma binding_value_wf: "json_wf (binding_value b)"
  by (simp add: binding_value_def)

lemma to_map_values_wf:
  assumes w: "json_wf (JObject raw)" and f: "from_map raw = Some m" and g: "imap_get (to_map m) k = Some v"
  shows "json_wf v"
proof (cases "imap_get (md_extra m) k")
  case (Some u)
  have "imap_wf (md_extra m)" using from_map_wf [OF _ f] w by (simp add: meta_wf_def imap_wf_def)
  then have "u = v" using g Some by (simp add: to_map_get)
  then have "(k, v) \<in> set raw" using map_of_SomeD [OF Some] from_map_fields(1) [OF f] by simp
  then show ?thesis using w by (auto simp: list_all_iff)
next
  case None
  have "imap_wf (md_extra m)" using from_map_wf [OF _ f] w by (simp add: meta_wf_def imap_wf_def)
  then have t: "map_of (field_table m) k = Some (Some v)"
    using g None by (simp add: to_map_get split: option.splits)
  have m: "pred_option imap_wf (md_tags m)" "pred_option imap_wf (md_extra_env m)"
    "pred_option imap_wf (md_session_env m)" "pred_option imap_wf (md_env m)"
    "pred_option json_wf (md_recovery m)"
    by (rule file_map_field_wf [OF w from_map_fields(4) [OF f]]
        file_map_field_wf [OF w from_map_fields(9) [OF f]]
        file_map_field_wf [OF w from_map_fields(10) [OF f]]
        file_map_field_wf [OF w from_map_fields(12) [OF f]]
        file_recovery_wf [OF w from_map_fields(3) [OF f]])+
  have "list_all (\<lambda>e. pred_option json_wf (snd e)) (field_table m)"
    using m by (simp add: field_table_def option.pred_map o_def strings_value_wf json_int_wf
        binding_value_wf string_map_value_wf option.pred_True)
  then show ?thesis using map_of_SomeD [OF t] by (auto simp: list_all_iff)
qed

section \<open>Compare-and-set\<close>

definition with_tag :: "rstr \<Rightarrow> rstr \<Rightarrow> SessionMetadata \<Rightarrow> SessionMetadata" where
  "with_tag tag val m =
     m\<lparr>md_tags := Some (imap_insert tag val (case md_tags m of Some t \<Rightarrow> t | None \<Rightarrow> []))\<rparr>"

definition tag_of :: "SessionMetadata \<Rightarrow> rstr \<Rightarrow> rstr option" where
  "tag_of m tag = Option.bind (md_tags m) (\<lambda>t. imap_get t tag)"

lemma with_tag_get: "tag_of (with_tag tag val m) k = (if k = tag then Some val else tag_of m k)"
  by (auto simp: with_tag_def tag_of_def split: option.splits)

lemma with_tag_other_fields:
  assumes "imap_wf (md_extra m)" and "k \<noteq> ustr ''tags''"
  shows "imap_get (to_map (with_tag tag val m)) k = imap_get (to_map m) k"
proof -
  have "map_of (field_table (with_tag tag val m)) k = map_of (field_table m) k"
    using assms(2) by (simp add: with_tag_def field_table_def)
  moreover have "md_extra (with_tag tag val m) = md_extra m" by (simp add: with_tag_def)
  ultimately show ?thesis using assms(1) by (simp add: to_map_get split: option.split)
qed

lemma with_tag_untouched:
  assumes "json_wf (JObject raw)" and "from_map raw = Some m" and "k \<noteq> ustr ''tags''"
  shows "\<not> touched (to_map m) (to_map (with_tag tag val m)) k"
proof -
  have "imap_wf (md_extra m)" using from_map_wf [OF _ assms(2)] assms(1) by (simp add: meta_wf_def imap_wf_def)
  from with_tag_other_fields [OF this assms(3)]
  show ?thesis using to_map_values_wf [OF assms(1,2), of k]
    by (auto simp: touched_def value_changed_def json_eq_refl split: option.split)
qed

lemma cas_file:
  assumes w: "json_wf (JObject raw)" and f: "from_map raw = Some m" and t: "md_tags m = Some tags"
    and e: "imap_get tags tag = Some expected" "expected \<noteq> val"
  defines "file' \<equiv> apply_metadata_diff m (with_tag tag val m) raw"
  shows "imap_get file' (ustr ''tags'') = Some (string_map_value (imap_insert tag val tags))"
    and "filter (\<lambda>x. fst x \<noteq> ustr ''tags'') file' = filter (\<lambda>x. fst x \<noteq> ustr ''tags'') raw"
proof -
  have wf: "imap_wf (md_extra m)" using from_map_wf [OF _ f] w by (simp add: meta_wf_def imap_wf_def)
  have x: "imap_get (md_extra m) (ustr ''tags'') = None"
    by (rule from_map_no_known [OF f]) (simp add: known_keys_def)
  have b: "imap_get (to_map m) (ustr ''tags'') = Some (string_map_value tags)"
    using x t by (intro to_map_field) (simp_all add: field_table_def)
  have a: "imap_get (to_map (with_tag tag val m)) (ustr ''tags'')
      = Some (string_map_value (imap_insert tag val tags))"
    using x t by (intro to_map_field) (simp_all add: field_table_def with_tag_def)
  have "\<not> imap_eq (=) tags (imap_insert tag val tags)"
    using imap_eq_get [of "(=)" tags "imap_insert tag val tags" tag expected] e by auto
  then show "imap_get file' (ustr ''tags'') = Some (string_map_value (imap_insert tag val tags))"
    by (simp add: file'_def apply_metadata_diff_def diff_maps_get [OF to_map_wf] a b value_changed_def
        json_eq_string_map)
  let ?p = "\<lambda>x. \<not> touched (to_map m) (to_map (with_tag tag val m)) (fst x)"
  let ?q = "\<lambda>x. fst x \<noteq> ustr ''tags''"
  have q: "filter ?q xs = filter ?q (filter ?p xs)" for xs :: "json imap"
    using with_tag_untouched [OF w f] by (induction xs) auto
  have "filter ?p file' = filter ?p raw"
    unfolding file'_def apply_metadata_diff_def by (rule diff_maps_order [OF to_map_wf])
  then show "filter ?q file' = filter ?q raw" using q [of file'] q [of raw] by simp
qed

lemma opt_map_eq_refl: "pred_option imap_wf x \<Longrightarrow> opt_map_eq x x"
  by (cases x) (auto simp: imap_eq_refl)

lemma from_map_no_alias:
  assumes "from_map raw = Some m"
  shows "\<not> list_ex (contains_key (md_extra m)) provenance_keys"
    "\<not> list_ex (contains_key (md_extra m)) launch_keys"
    "\<not> contains_key (md_extra m) (ustr ''tags'')"
proof -
  have "set provenance_keys \<subseteq> set known_keys" "set launch_keys \<subseteq> set known_keys"
    "ustr ''tags'' \<in> set known_keys"
    by (simp_all add: provenance_keys_def launch_keys_def known_keys_def)
  then show "\<not> list_ex (contains_key (md_extra m)) provenance_keys"
    "\<not> list_ex (contains_key (md_extra m)) launch_keys"
    "\<not> contains_key (md_extra m) (ustr ''tags'')"
    using from_map_no_known [OF assms] by (auto simp: list_ex_iff contains_key_def)
qed

text \<open>
  On a record of the expected generation, with a registry that does not change meanwhile, the
  compare-and-set reports a mismatch with the current value, or that the value is already there, or
  refuses to move the operation tag of a bound record, or writes; what it writes differs from the file
  in the tags alone, and there in this one tag. On a record of another generation nothing is written.
\<close>

theorem compare_and_set_tag_exact:
  assumes "io_lock_taken io" and "io_first_read io = Some raw" and "from_map raw = Some m"
    and "json_wf (JObject raw)" and "io_latest_read io = Some latest" and "imap_eq json_eq latest raw"
    and "io_write_ok io" and "tag \<noteq> []"
  shows "compare_and_set_tag_value io generation tag expected val =
      Some (if md_generation m \<noteq> Some generation then (CasGenerationMismatch, None)
            else if tag_of m tag \<noteq> Some expected then (CasValueMismatch (tag_of m tag), None)
            else if expected = val then (CasUnchanged val, None)
            else if md_publication_binding m \<noteq> None \<and> tag = ustr ''st3.start-operation''
              then (CasGenerationMismatch, None)
            else (CasChanged val, Some (apply_metadata_diff m (with_tag tag val m) raw)))
    \<and> (tag_of m tag = Some expected \<and> expected \<noteq> val \<longrightarrow>
         imap_get (apply_metadata_diff m (with_tag tag val m) raw) (ustr ''tags'')
           = Some (string_map_value (imap_insert tag val (the (md_tags m))))
         \<and> filter (\<lambda>e. fst e \<noteq> ustr ''tags'') (apply_metadata_diff m (with_tag tag val m) raw)
           = filter (\<lambda>e. fst e \<noteq> ustr ''tags'') raw)"
proof -
  let ?after = "with_tag tag val m"
  have op: "operation ?after = operation m \<longleftrightarrow> tag \<noteq> ustr ''st3.start-operation''"
    if "tag_of m tag = Some expected" "expected \<noteq> val"
    using that with_tag_get [of tag val m "ustr ''st3.start-operation''"]
    by (auto simp: operation_def tag_of_def)
  have x: "md_extra ?after = md_extra m" "md_publication_binding ?after = md_publication_binding m"
    "md_publication_root_id ?after = md_publication_root_id m"
    "md_publication_capability ?after = md_publication_capability m"
    by (simp_all add: with_tag_def)
  have pc: "provenance_changed m ?after \<longleftrightarrow>
      md_publication_binding m \<noteq> None \<and> tag = ustr ''st3.start-operation''"
    if "tag_of m tag = Some expected" "expected \<noteq> val"
    unfolding provenance_changed_def x using op [OF that] from_map_no_alias [OF assms(3)] by auto
  have env: "opt_map_eq (md_extra_env m) (md_extra_env m)" "opt_map_eq (md_session_env m) (md_session_env m)"
      "opt_map_eq (md_env m) (md_env m)"
    by (rule opt_map_eq_refl file_map_field_wf [OF assms(4) from_map_fields(9) [OF assms(3)]]
        file_map_field_wf [OF assms(4) from_map_fields(10) [OF assms(3)]]
        file_map_field_wf [OF assms(4) from_map_fields(12) [OF assms(3)]])+
  have lc: "\<not> launch_changed m ?after"
    unfolding launch_changed_def x using env from_map_no_alias [OF assms(3)] by (simp add: with_tag_def)
  have part2: "tag_of m tag = Some expected \<and> expected \<noteq> val \<longrightarrow>
         imap_get (apply_metadata_diff m ?after raw) (ustr ''tags'')
           = Some (string_map_value (imap_insert tag val (the (md_tags m))))
         \<and> filter (\<lambda>e. fst e \<noteq> ustr ''tags'') (apply_metadata_diff m ?after raw)
           = filter (\<lambda>e. fst e \<noteq> ustr ''tags'') raw"
    using cas_file [OF assms(4,3)] by (auto simp: tag_of_def bind_eq_Some_conv)
  show ?thesis
    using assms(1-3,5-8) pc lc part2
    by (auto simp: compare_and_set_tag_value_def mutate_metadata_under_lock_core_def cas_mutate_def
        tag_of_def [symmetric] with_tag_def [symmetric] guards_hold_def refused_def Let_def)
qed

theorem compare_and_set_tag_exact_witness:
  "\<exists>file. compare_and_set_tag_value sample_io (ustr ''g1'') (ustr ''role'') (ustr ''web'') (ustr ''api'')
       = Some (CasChanged (ustr ''api''), Some file)
     \<and> imap_get file (ustr ''tags'') = Some (string_map_value [(ustr ''role'', ustr ''api'')])
     \<and> filter (\<lambda>e. fst e \<noteq> ustr ''tags'') file = take 3 sample_file"
proof -
  have "compare_and_set_tag_value sample_io (ustr ''g1'') (ustr ''role'') (ustr ''web'') (ustr ''api'')
       = Some (CasChanged (ustr ''api''),
           Some (apply_metadata_diff sample_before
             (with_tag (ustr ''role'') (ustr ''api'') sample_before) sample_file))
     \<and> imap_get (apply_metadata_diff sample_before
             (with_tag (ustr ''role'') (ustr ''api'') sample_before) sample_file) (ustr ''tags'')
         = Some (string_map_value [(ustr ''role'', ustr ''api'')])
     \<and> filter (\<lambda>e. fst e \<noteq> ustr ''tags'') (apply_metadata_diff sample_before
             (with_tag (ustr ''role'') (ustr ''api'') sample_before) sample_file)
         = filter (\<lambda>e. fst e \<noteq> ustr ''tags'') sample_file"
    using compare_and_set_tag_exact [of sample_io sample_file sample_before "rev sample_file"
        "ustr ''role''" "ustr ''g1''" "ustr ''web''" "ustr ''api''"]
    by (simp add: sample_io_def sample_before_eq sample_reread sample_fields tag_of_def)
      (simp add: sample_file_def ustr_def)
  moreover have "filter (\<lambda>e. fst e \<noteq> ustr ''tags'') sample_file = take 3 sample_file"
    by (simp add: sample_file_def)
  ultimately show ?thesis by auto
qed

section \<open>Presentation patches\<close>

lemma patch_tag_loop_spec:
  "imap_wf tags \<Longrightarrow>
   patch_tag_loop previous changed next_tags tags = (changed', next') \<Longrightarrow>
     changed' = changed @ map fst (filter (\<lambda>(k, r). imap_get previous k \<noteq> r) tags)
     \<and> (\<forall>k. imap_get next' k =
          (case imap_get tags k of
             Some r \<Rightarrow> if imap_get previous k = r then imap_get next_tags k else r
           | None \<Rightarrow> imap_get next_tags k))"
proof (induction previous changed next_tags tags arbitrary: changed' next' rule: patch_tag_loop.induct)
  case (2 previous changed next_tags key requested rest)
  have n: "imap_get rest key = None" and w: "imap_wf rest"
    using "2.prems"(1) by (simp_all add: imap_wf_def map_of_eq_None_iff)
  show ?case
  proof (cases "imap_get previous key = requested")
    case True
    then show ?thesis using "2.IH"(1) [OF True w] "2.prems"(2) n by (auto split: option.splits)
  next
    case False
    then show ?thesis using "2.IH"(2) [OF False w] "2.prems"(2) n
      by (cases requested) (auto split: option.splits)
  qed
qed simp

lemma snapshot_of_get:
  "imap_get (fold (\<lambda>k. imap_insert k (f k)) ks m) k =
     (if k \<in> set ks then Some (f k) else imap_get m k)"
  by (induction ks arbitrary: m) auto

lemma snapshot_of_keys:
  "distinct ks \<Longrightarrow> set ks \<inter> set (map fst m) = {} \<Longrightarrow>
     map fst (fold (\<lambda>k. imap_insert k (f k)) ks m) = map fst m @ ks"
proof (induction ks arbitrary: m)
  case (Cons k ks)
  then show ?case using insert_new [of k m] by auto
qed simp

definition tags_or_empty :: "SessionMetadata \<Rightarrow> TagMap" where
  "tags_or_empty m = (case md_tags m of Some t \<Rightarrow> t | None \<Rightarrow> [])"

definition requested_tag :: "MetadataPatch \<Rightarrow> SessionMetadata \<Rightarrow> rstr \<Rightarrow> rstr option" where
  "requested_tag patch m k =
     (case Option.bind (mp_tags patch) (\<lambda>t. imap_get t k) of Some r \<Rightarrow> r | None \<Rightarrow> tag_of m k)"

definition requested_name :: "MetadataPatch \<Rightarrow> SessionMetadata \<Rightarrow> rstr option" where
  "requested_name patch m = (case mp_display_name patch of Some n \<Rightarrow> n | None \<Rightarrow> md_display_name m)"

lemma tag_of_or_empty: "tag_of m k = imap_get (tags_or_empty m) k"
  by (simp add: tag_of_def tags_or_empty_def split: option.splits)

definition changed_tags :: "MetadataPatch \<Rightarrow> SessionMetadata \<Rightarrow> rstr set" where
  "changed_tags patch m = {k. requested_tag patch m k \<noteq> tag_of m k}"

definition patch_wf :: "MetadataPatch \<Rightarrow> bool" where
  "patch_wf patch \<longleftrightarrow> pred_option imap_wf (mp_tags patch)"

lemma changed_list:
  fixes m :: SessionMetadata
  assumes "mp_tags patch = Some tags" and "imap_wf tags"
  defines "ks \<equiv> map fst (filter (\<lambda>(k, r). imap_get (tags_or_empty m) k \<noteq> r) tags)"
  shows "set ks = changed_tags patch m" and "distinct ks"
proof -
  show "distinct ks" using assms(2) by (simp add: ks_def imap_wf_def distinct_map_filter)
  have e: "(k, r) \<in> set tags \<longleftrightarrow> imap_get tags k = Some r" for k r
    using assms(2) by (simp add: imap_wf_def)
  have "k \<in> set ks \<longleftrightarrow> (\<exists>r. imap_get tags k = Some r \<and> imap_get (tags_or_empty m) k \<noteq> r)" for k
    by (auto simp: ks_def e [symmetric] image_iff)
  then show "set ks = changed_tags patch m"
    using assms(1) by (auto simp: changed_tags_def requested_tag_def tag_of_or_empty split: option.splits)
qed

text \<open>The state after the two parts of the patch.\<close>

lemma patch_parts:
  assumes "patch_wf patch"
    and "patch_tags patch (patch_display_name patch
           (new_patch_state\<lparr>ps_previous_tags := tags_or_empty m, ps_next_tags := tags_or_empty m\<rparr>, m))
         = (st, m')"
  shows "md_display_name m' = requested_name patch m"
    and "tag_of m' k = requested_tag patch m k"
    and "m' = m\<lparr>md_display_name := md_display_name m', md_tags := md_tags m'\<rparr>"
    and "cs_display_name (ps_previous st) =
          (if requested_name patch m = md_display_name m then None else Some (md_display_name m))"
    and "cs_tags (ps_previous st) =
          (if changed_tags patch m = {} then None
           else Some (snapshot_of (tags_or_empty m) (sorted_list_of_set (changed_tags patch m))))"
    and "ps_previous_tags st = tags_or_empty m" and "imap_get (ps_next_tags st) k = requested_tag patch m k"
    and "ps_error st = None"
    and "cs_display_name (ps_value st) =
          (if requested_name patch m = md_display_name m then None else Some (requested_name patch m))"
    and "cs_tags (ps_value st) =
          (if changed_tags patch m = {} then None
           else Some (snapshot_of (ps_next_tags st) (sorted_list_of_set (changed_tags patch m))))"
proof -
  let ?st1 = "new_patch_state\<lparr>ps_previous_tags := tags_or_empty m, ps_next_tags := tags_or_empty m\<rparr>"
  obtain st2 m2 where d: "patch_display_name patch (?st1, m) = (st2, m2)" by fastforce
  have d': "ps_previous_tags st2 = tags_or_empty m" "ps_next_tags st2 = tags_or_empty m"
    "md_tags m2 = md_tags m" "md_display_name m2 = requested_name patch m" "ps_error st2 = None"
    "cs_tags (ps_previous st2) = None" "cs_tags (ps_value st2) = None"
    "m2 = m\<lparr>md_display_name := md_display_name m2\<rparr>"
    "cs_display_name (ps_previous st2) =
       (if requested_name patch m = md_display_name m then None else Some (md_display_name m))"
    "cs_display_name (ps_value st2) =
       (if requested_name patch m = md_display_name m then None else Some (requested_name patch m))"
    using d by (auto simp: patch_display_name_def new_patch_state_def empty_snapshot_def requested_name_def
        split: option.splits if_splits)
  have t2: "tag_of m2 k = tag_of m k" using d'(3) by (simp add: tag_of_def)
  have pt: "patch_tags patch (st2, m2) = (st, m')" using assms(2) d by simp
  have *: "md_display_name m' = requested_name patch m
    \<and> tag_of m' k = requested_tag patch m k
    \<and> m' = m\<lparr>md_display_name := md_display_name m', md_tags := md_tags m'\<rparr>
    \<and> cs_display_name (ps_previous st) = cs_display_name (ps_previous st2)
    \<and> cs_display_name (ps_value st) = cs_display_name (ps_value st2)
    \<and> cs_tags (ps_previous st) =
          (if changed_tags patch m = {} then None
           else Some (snapshot_of (tags_or_empty m) (sorted_list_of_set (changed_tags patch m))))
    \<and> cs_tags (ps_value st) =
          (if changed_tags patch m = {} then None
           else Some (snapshot_of (ps_next_tags st) (sorted_list_of_set (changed_tags patch m))))
    \<and> ps_previous_tags st = tags_or_empty m \<and> imap_get (ps_next_tags st) k = requested_tag patch m k
    \<and> ps_error st = None"
  proof (cases "mp_tags patch")
    case None
    then have "changed_tags patch m = {}" by (simp add: changed_tags_def requested_tag_def)
    then show ?thesis using None pt d' t2
      by (auto simp: patch_tags_def requested_tag_def tag_of_or_empty)
  next
    case (Some tags)
    have w: "imap_wf tags" using assms(1) Some by (simp add: patch_wf_def)
    obtain ks nt where l: "patch_tag_loop (tags_or_empty m) [] (tags_or_empty m) tags = (ks, nt)"
      by fastforce
    note spec = patch_tag_loop_spec [OF w l]
    have ks: "set ks = changed_tags patch m" "distinct ks"
      using spec changed_list [OF Some w, of m] by simp_all
    have nt: "imap_get nt k = requested_tag patch m k" for k
      using spec Some by (simp add: requested_tag_def tag_of_or_empty split: option.split)
    have srt: "sort ks = sorted_list_of_set (changed_tags patch m)"
      using ks by (metis sorted_list_of_set_sort_remdups distinct_remdups_id)
    show ?thesis
    proof (cases "ks = []")
      case True
      then have "requested_tag patch m k = tag_of m k" using ks by (auto simp: changed_tags_def)
      then show ?thesis using True Some pt d' t2 l ks nt by (auto simp: patch_tags_def)
    next
      case False
      have "tag_of m' k = imap_get nt k"
        using False Some pt d' l by (auto simp: patch_tags_def tag_of_def Let_def)
      then show ?thesis using False Some pt d' l ks nt srt by (auto simp: patch_tags_def Let_def)
    qed
  qed
  then show "md_display_name m' = requested_name patch m"
    "tag_of m' k = requested_tag patch m k"
    "m' = m\<lparr>md_display_name := md_display_name m', md_tags := md_tags m'\<rparr>"
    "cs_display_name (ps_previous st) =
          (if requested_name patch m = md_display_name m then None else Some (md_display_name m))"
    "cs_tags (ps_previous st) =
          (if changed_tags patch m = {} then None
           else Some (snapshot_of (tags_or_empty m) (sorted_list_of_set (changed_tags patch m))))"
    "ps_previous_tags st = tags_or_empty m" "imap_get (ps_next_tags st) k = requested_tag patch m k"
    "ps_error st = None"
    "cs_display_name (ps_value st) =
          (if requested_name patch m = md_display_name m then None else Some (requested_name patch m))"
    "cs_tags (ps_value st) =
          (if changed_tags patch m = {} then None
           else Some (snapshot_of (ps_next_tags st) (sorted_list_of_set (changed_tags patch m))))"
    using d'(9,10) by auto
qed

lemma patch_mutate_parts:
  assumes "patch_mutate patch new_patch_state m = (st, m', accepted)"
  obtains st' where
    "patch_tags patch (patch_display_name patch
       (new_patch_state\<lparr>ps_previous_tags := tags_or_empty m, ps_next_tags := tags_or_empty m\<rparr>, m)) = (st', m')"
    "ps_previous st = ps_previous st'" "ps_value st = ps_value st'" "ps_next_tags st = ps_next_tags st'"
    "accepted \<longleftrightarrow> (cs_display_name (ps_previous st') \<noteq> None \<or> cs_tags (ps_previous st') \<noteq> None)
       \<and> (\<forall>dn. md_display_name m' = Some dn \<longrightarrow> validate_display_name dn = Inr ())
       \<and> (\<forall>t. md_tags m' = Some t \<longrightarrow> imap_get t [] = None)"
    "accepted \<Longrightarrow> st = st'"
proof -
  have e: "list_ex (\<lambda>x. fst x = []) t \<longleftrightarrow> imap_get t [] \<noteq> None" for t :: TagMap
    by (force simp: list_ex_iff map_of_eq_None_iff image_iff)
  show ?thesis
    using assms that unfolding patch_mutate_def tags_or_empty_def [symmetric] Let_def
    by (auto simp: e split: prod.splits if_splits sum.splits option.splits)
qed

text \<open>
  The patch sets the display name and exactly the tags it names, removes the ones it names with
  null, and keeps every other tag and every other field. It is accepted exactly when something
  changes and the outcome is valid. The snapshots of an accepted patch name, in order, exactly the
  tags that changed, with their old and new values, and the display name exactly when it changed.
\<close>

theorem patch_applies_exactly:
  assumes "patch_wf patch" and "patch_mutate patch new_patch_state m = (st, m', accepted)"
  shows "md_display_name m' = requested_name patch m
    \<and> (\<forall>k. tag_of m' k = requested_tag patch m k)
    \<and> m' = m\<lparr>md_display_name := md_display_name m', md_tags := md_tags m'\<rparr>
    \<and> (accepted \<longleftrightarrow>
         (requested_name patch m \<noteq> md_display_name m \<or> changed_tags patch m \<noteq> {})
         \<and> (\<forall>dn. requested_name patch m = Some dn \<longrightarrow> validate_display_name dn = Inr ())
         \<and> requested_tag patch m [] = None)
    \<and> (cs_display_name (ps_previous st), cs_display_name (ps_value st)) =
         (if requested_name patch m = md_display_name m then (None, None)
          else (Some (md_display_name m), Some (requested_name patch m)))
    \<and> (changed_tags patch m \<noteq> {} \<longrightarrow>
         (\<exists>old new. cs_tags (ps_previous st) = Some old \<and> cs_tags (ps_value st) = Some new
            \<and> map fst old = sorted_list_of_set (changed_tags patch m) \<and> map fst new = map fst old
            \<and> (\<forall>k \<in> changed_tags patch m.
                  imap_get old k = Some (tag_of m k) \<and> imap_get new k = Some (requested_tag patch m k))))"
proof (rule patch_mutate_parts [OF assms(2)])
  fix st'
  assume p: "patch_tags patch (patch_display_name patch
       (new_patch_state\<lparr>ps_previous_tags := tags_or_empty m, ps_next_tags := tags_or_empty m\<rparr>, m)) = (st', m')"
    and s: "ps_previous st = ps_previous st'" "ps_value st = ps_value st'" "ps_next_tags st = ps_next_tags st'"
    and a: "accepted \<longleftrightarrow> (cs_display_name (ps_previous st') \<noteq> None \<or> cs_tags (ps_previous st') \<noteq> None)
       \<and> (\<forall>dn. md_display_name m' = Some dn \<longrightarrow> validate_display_name dn = Inr ())
       \<and> (\<forall>t. md_tags m' = Some t \<longrightarrow> imap_get t [] = None)"
  note parts = patch_parts [OF assms(1) p]
  have "(\<forall>t. md_tags m' = Some t \<longrightarrow> imap_get t [] = None) \<longleftrightarrow> requested_tag patch m [] = None"
    using parts(2) [of "[]"] by (cases "md_tags m'") (auto simp: tag_of_def)
  then have acc: "accepted \<longleftrightarrow>
         (requested_name patch m \<noteq> md_display_name m \<or> changed_tags patch m \<noteq> {})
         \<and> (\<forall>dn. requested_name patch m = Some dn \<longrightarrow> validate_display_name dn = Inr ())
         \<and> requested_tag patch m [] = None"
    using a parts(1,4,5) by (auto split: if_splits)
  have fin: "finite (changed_tags patch m)"
  proof (cases "mp_tags patch")
    case (Some tags)
    then show ?thesis using changed_list(1) [of patch tags m] assms(1) by (metis List.finite_set patch_wf_def option.pred_inject(2))
  qed (simp add: changed_tags_def requested_tag_def)
  have snap: "\<exists>old new. cs_tags (ps_previous st) = Some old \<and> cs_tags (ps_value st) = Some new
            \<and> map fst old = sorted_list_of_set (changed_tags patch m) \<and> map fst new = map fst old
            \<and> (\<forall>k \<in> changed_tags patch m.
                  imap_get old k = Some (tag_of m k) \<and> imap_get new k = Some (requested_tag patch m k))"
    if "changed_tags patch m \<noteq> {}"
    using that s parts(5,10) parts(7) fin
    by (simp add: snapshot_of_def snapshot_of_get snapshot_of_keys tag_of_or_empty)
  show ?thesis using parts(1-4,9) acc snap s by auto
qed

definition sample_patch :: MetadataPatch where
  "sample_patch = \<lparr>mp_display_name = None,
     mp_tags = Some [(ustr ''role'', None), (ustr ''env'', Some (ustr ''prod''))]\<rparr>"

theorem patch_applies_exactly_witness:
  "\<exists>st m'. patch_mutate sample_patch new_patch_state sample_before = (st, m', True)
     \<and> tag_of m' (ustr ''role'') = None \<and> tag_of m' (ustr ''env'') = Some (ustr ''prod'')"
proof -
  obtain st m' acc where r: "patch_mutate sample_patch new_patch_state sample_before = (st, m', acc)"
    by (metis surj_pair)
  have w: "patch_wf sample_patch" by (simp add: patch_wf_def sample_patch_def imap_wf_def)
  have q: "requested_tag sample_patch sample_before (ustr ''role'') = None"
    "requested_tag sample_patch sample_before (ustr ''env'') = Some (ustr ''prod'')"
    "requested_tag sample_patch sample_before [] = None"
    "requested_name sample_patch sample_before = None"
    by (simp_all add: requested_tag_def requested_name_def sample_patch_def tag_of_def sample_fields)
      (simp_all add: ustr_def)
  have "ustr ''env'' \<in> changed_tags sample_patch sample_before"
    using q by (simp add: changed_tags_def tag_of_def sample_fields)
  then have "acc" using patch_applies_exactly [OF w r] q by auto
  then show ?thesis using patch_applies_exactly [OF w r] q r by auto
qed

text \<open>
  A patch appends its event exactly when it wrote the record, and then it reports a change; a
  patch that reports no change, or an error, wrote nothing and appended nothing.
\<close>

theorem patch_event_exactly_on_write:
  assumes "apply_metadata_patch_by_id event_lock_taken io session patch ev = (res, written, event)"
  shows "(event \<noteq> None \<longleftrightarrow> written \<noteq> None)
    \<and> (written \<noteq> None \<longleftrightarrow> (\<exists>p. res = Inr \<lparr>pr_changed = True, pr_metadata = p\<rparr>))
    \<and> (written \<noteq> None \<longrightarrow> event_lock_taken \<and> validate_patch patch = Inr ())"
proof (cases "validate_patch patch")
  case (Inr u)
  show ?thesis
  proof (cases event_lock_taken)
    case True
    obtain st r where c: "mutate_metadata_under_lock_core io (patch_mutate patch) no_options new_patch_state
        = (st, r)" by fastforce
    have "ps_error st = None" if "mr_written r = Some w" for w
    proof (rule core_written [OF c that])
      fix before after
      assume "patch_mutate patch new_patch_state before = (st, after, True)"
      then show "ps_error st = None"
        by (auto simp: patch_mutate_def patch_tags_def patch_display_name_def new_patch_state_def Let_def
            split: prod.splits if_splits sum.splits option.splits)
    qed
    then show ?thesis using assms Inr True c core_status_written [OF c]
      by (auto simp: apply_metadata_patch_by_id_def split: option.splits MutateStatus.splits)
  qed (use assms Inr in \<open>auto simp: apply_metadata_patch_by_id_def\<close>)
qed (use assms in \<open>auto simp: apply_metadata_patch_by_id_def\<close>)

theorem patch_event_exactly_on_write_witness:
  "\<exists>res. apply_metadata_patch_by_id False sample_io (ustr ''s'') sample_patch TagsChange = (res, None, None)"
proof -
  obtain res w e where r: "apply_metadata_patch_by_id False sample_io (ustr ''s'') sample_patch TagsChange
      = (res, w, e)" by (metis surj_pair)
  show ?thesis using patch_event_exactly_on_write [OF r] r by auto
qed

end
