(* ===== verification/Tags.thy ===== *)
theory Tags
  imports Session_Metadata Names
begin

text \<open>
  The tag rules shared by the command line, the daemon and gc
  (\<^verbatim>\<open>crates/pty-core/src/registry/tags.rs\<close>) and the newest output stamp
  (\<^verbatim>\<open>crates/pty-core/src/registry/activity.rs\<close>). Environment variables and the clock are arguments.
  \<open>to_lowercase\<close> is applied to ASCII letters only: its result is compared with four ASCII words, and
  the two scalars beyond ASCII whose lower case has an ASCII letter (U+0130 and U+212A, giving \<open>i\<close>
  and \<open>k\<close>) give no letter of these words.
\<close>

definition EXACT_RESERVED_TAG_KEYS :: "rstr list" where
  "EXACT_RESERVED_TAG_KEYS = map ustr [''ptyfile'', ''ptyfile.session'', ''ptyfile.tags'', ''strategy'']"

definition is_reserved_tag_key :: "rstr \<Rightarrow> bool" where
  "is_reserved_tag_key key \<longleftrightarrow> key \<in> set EXACT_RESERVED_TAG_KEYS \<or> (key \<noteq> [] \<and> hd key = 58)"

definition matches_all_tags :: "TagMap option \<Rightarrow> TagMap \<Rightarrow> bool" where
  "matches_all_tags session_tags wanted \<longleftrightarrow>
     list_all (\<lambda>(k, v). Option.bind session_tags (\<lambda>t. imap_get t k) = Some v) wanted"

definition FILTER_FLAG :: rstr where
  "FILTER_FLAG = ustr ''--filter-tag''"

text \<open>The error is the message about the missing \<^verbatim>\<open>key=value\<close>; the second result is what is left of
  the arguments.\<close>

fun extract_filter_tags_from :: "TagMap \<Rightarrow> rstr list \<Rightarrow> unit + TagMap \<times> rstr list" where
  "extract_filter_tags_from tags [] = Inr (tags, [])"
| "extract_filter_tags_from tags [a] = (if a = FILTER_FLAG then Inl () else Inr (tags, [a]))"
| "extract_filter_tags_from tags (a # kv # rest) =
     (if a \<noteq> FILTER_FLAG
      then (case extract_filter_tags_from tags (kv # rest) of
              Inl e \<Rightarrow> Inl e
            | Inr (t, left) \<Rightarrow> Inr (t, a # left))
      else if 61 \<notin> set kv then Inl ()
      else extract_filter_tags_from
             (imap_insert (takeWhile (\<lambda>c. c \<noteq> 61) kv) (tl (dropWhile (\<lambda>c. c \<noteq> 61) kv)) tags) rest)"

definition extract_filter_tags :: "rstr list \<Rightarrow> unit + TagMap \<times> rstr list" where
  "extract_filter_tags args = extract_filter_tags_from [] args"

definition KEEP_TAG :: rstr where
  "KEEP_TAG = ustr ''keep''"

definition KEEP_FALSEY :: "rstr list" where
  "KEEP_FALSEY = map ustr [''false'', ''0'', ''no'', ''off'']"

definition reads_as_no :: "rstr \<Rightarrow> bool" where
  "reads_as_no raw \<longleftrightarrow> map ascii_lower (js_trim raw) \<in> set KEEP_FALSEY"

definition is_keep_requested :: "TagMap option \<Rightarrow> bool" where
  "is_keep_requested tags =
     (case Option.bind tags (\<lambda>t. imap_get t KEEP_TAG) of None \<Rightarrow> False | Some raw \<Rightarrow> \<not> reads_as_no raw)"

definition DEFAULT_KEEP_MAX_AGE_MS :: int where
  "DEFAULT_KEEP_MAX_AGE_MS = 7 * 24 * 60 * 60 * 1000"

definition keep_anchor :: "SessionMetadata \<Rightarrow> rstr" where
  "keep_anchor m =
     (case md_exited_at m of
        Some s \<Rightarrow> if s \<noteq> [] then s else md_created_at m
      | None \<Rightarrow> md_created_at m)"

definition is_keep_expired :: "SessionMetadata option \<Rightarrow> int \<Rightarrow> int \<Rightarrow> bool" where
  "is_keep_expired metadata now_ms max_age_ms =
     (if max_age_ms \<le> 0 then True
      else case metadata of
        None \<Rightarrow> False
      | Some m \<Rightarrow>
          (case parse_iso8601_ms (keep_anchor m) of
             Some ts \<Rightarrow> now_ms - ts \<ge> max_age_ms
           | None \<Rightarrow> False))"

definition reap_on_exit_default :: "rstr option \<Rightarrow> bool" where
  "reap_on_exit_default var = (case var of None \<Rightarrow> True | Some raw \<Rightarrow> \<not> reads_as_no raw)"

definition should_reap_at_exit :: "TagMap option \<Rightarrow> bool \<Rightarrow> bool \<Rightarrow> bool" where
  "should_reap_at_exit tags ephemeral default_reap =
     (if is_keep_requested tags then False
      else if ephemeral then True
      else if Option.bind tags (\<lambda>t. imap_get t (ustr ''strategy'')) = Some (ustr ''permanent'') then False
      else default_reap)"

definition RETENTION_LOST_AT_TAG :: rstr where
  "RETENTION_LOST_AT_TAG = ustr ''retention.lost-at''"

definition GC_BOOKKEEPING_KEYS :: "rstr list" where
  "GC_BOOKKEEPING_KEYS =
     [ustr ''strategy.status'', ustr ''strategy.consecutive-fast-fails'',
      ustr ''strategy.last-respawn-at'', ustr ''strategy.command-hash'', RETENTION_LOST_AT_TAG]"

definition parse_retain_finished :: "rstr option \<Rightarrow> int option" where
  "parse_retain_finished raw =
     (case raw of
        None \<Rightarrow> None
      | Some s \<Rightarrow>
          if reads_as_no s then None
          else (case parse_duration s of
                  Some ms \<Rightarrow> if ms > 0 then Some ms else None
                | None \<Rightarrow> None))"

definition strip_gc_bookkeeping :: "TagMap option \<Rightarrow> TagMap option" where
  "strip_gc_bookkeeping tags =
     (case tags of
        None \<Rightarrow> None
      | Some t \<Rightarrow>
          if t = [] then Some t
          else (let kept = filter (\<lambda>e. fst e \<notin> set GC_BOOKKEEPING_KEYS) t in
                if kept \<noteq> [] then Some kept else None))"

record OutputActivity =
  oa_generation :: rstr
  oa_last_output_at_ms :: "64 word"

definition newest_output_at_ms :: "SessionMetadata \<Rightarrow> OutputActivity option \<Rightarrow> 64 word option" where
  "newest_output_at_ms m sidecar =
     (case sidecar of
        Some activity \<Rightarrow>
          if \<not> has_exited m \<and> md_generation m = Some (oa_generation activity)
          then Some (oa_last_output_at_ms activity) else md_last_output_at_ms m
      | None \<Rightarrow> md_last_output_at_ms m)"

section \<open>Facts\<close>

datatype argument = Word rstr | Filter rstr rstr

fun argument_words :: "argument \<Rightarrow> rstr list" where
  "argument_words (Word w) = [w]"
| "argument_words (Filter k v) = [FILTER_FLAG, k @ [61] @ v]"

fun plain_argument :: "argument \<Rightarrow> bool" where
  "plain_argument (Word w) \<longleftrightarrow> w \<noteq> FILTER_FLAG"
| "plain_argument (Filter k v) \<longleftrightarrow> 61 \<notin> set k"

fun argument_filter :: "argument \<Rightarrow> TagMap \<Rightarrow> TagMap" where
  "argument_filter (Word w) t = t"
| "argument_filter (Filter k v) t = imap_insert k v t"

lemma split_once_eq:
  "61 \<notin> set k \<Longrightarrow> takeWhile (\<lambda>c. c \<noteq> 61) (k @ [61] @ v) = k \<and> dropWhile (\<lambda>c. c \<noteq> 61) (k @ [61] @ v) = 61 # v"
  by (induction k) auto

lemma extract_word:
  "w \<noteq> FILTER_FLAG \<Longrightarrow> extract_filter_tags_from t (w # rest) =
     (case extract_filter_tags_from t rest of Inl e \<Rightarrow> Inl e | Inr (t', left) \<Rightarrow> Inr (t', w # left))"
  by (cases rest) auto

lemma extract_arguments:
  "list_all plain_argument items \<Longrightarrow>
     extract_filter_tags_from t (concat (map argument_words items)) =
       Inr (fold argument_filter items t, [w. Word w \<leftarrow> items])"
proof (induction items arbitrary: t)
  case (Cons item items)
  show ?case
  proof (cases item)
    case (Word w)
    then show ?thesis using Cons extract_word [of w] by simp
  next
    case (Filter k v)
    then show ?thesis using Cons split_once_eq [of k v] by simp
  qed
qed simp

section \<open>Properties of the tag rules\<close>

text \<open>
  From any argument list in which each filter flag is followed by a \<^verbatim>\<open>key=value\<close> word, exactly the
  filters are taken, the last value of a repeated key, and the other words stay in order; a value may
  itself hold an equals sign. A flag at the end, or before a word without one, is refused.
\<close>

theorem extract_filter_tags_exact:
  assumes "list_all plain_argument items"
  shows "extract_filter_tags (concat (map argument_words items)) =
      Inr (fold argument_filter items [], [w. Word w \<leftarrow> items])
    \<and> extract_filter_tags (concat (map argument_words items) @ [FILTER_FLAG]) = Inl ()
    \<and> (61 \<notin> set kv \<longrightarrow>
         extract_filter_tags (concat (map argument_words items) @ FILTER_FLAG # kv # rest) = Inl ())"
proof -
  have fail: "extract_filter_tags_from t (concat (map argument_words items) @ bad) = Inl ()"
    if "list_all plain_argument items" and "\<And>t. extract_filter_tags_from t bad = Inl ()" for t bad items
    using that
  proof (induction items arbitrary: t)
    case (Cons item items)
    show ?case
    proof (cases item)
      case (Word w)
      then show ?thesis using Cons extract_word [of w] by simp
    next
      case (Filter k v)
      then show ?thesis using Cons split_once_eq [of k v] by simp
    qed
  qed simp
  show ?thesis
    using extract_arguments [OF assms] fail [OF assms] by (simp add: extract_filter_tags_def)
qed

theorem extract_filter_tags_exact_witness:
  "extract_filter_tags [ustr ''ls'', FILTER_FLAG, ustr ''a=b=c'', ustr ''-v'']
     = Inr ([(ustr ''a'', ustr ''b=c'')], [ustr ''ls'', ustr ''-v''])"
  using extract_filter_tags_exact [of "[Word (ustr ''ls''), Filter (ustr ''a'') (ustr ''b=c''), Word (ustr ''-v'')]"]
  by (simp add: FILTER_FLAG_def ustr_def)

text \<open>
  A positive window keeps a tagged record exactly until that long after its exit, or after its
  creation when no exit was recorded, and forever when it has no readable time; a window of zero or
  less expires every record. Reaping at exit never touches a record that asks to be kept.
\<close>

theorem keep_expires_exactly:
  assumes "civil_from_days (t div 86400000) = (y, mo, d)" and "0 \<le> y" and "y \<le> 9999"
    and "keep_anchor m = iso8601_from_epoch_ms t"
  shows "(is_keep_expired (Some m) now age \<longleftrightarrow> age \<le> 0 \<or> t + age \<le> now)
    \<and> (is_keep_requested tags \<longrightarrow> \<not> should_reap_at_exit tags ephemeral default_reap)
    \<and> (0 < age \<and> parse_iso8601_ms (keep_anchor m') = None \<longrightarrow> \<not> is_keep_expired (Some m') now age)"
  using iso8601_reads_back [OF assms(1-3)] assms(4)
  by (auto simp: is_keep_expired_def should_reap_at_exit_def)

definition kept_meta :: SessionMetadata where
  "kept_meta = (the (from_map []))\<lparr>md_created_at := iso8601_from_epoch_ms 1775384103000\<rparr>"

theorem keep_expires_exactly_witness:
  "is_keep_expired (Some kept_meta) (1775384103000 + 5) 5 \<and> \<not> is_keep_expired (Some kept_meta) 1775384103000 5"
proof -
  have c: "civil_from_days (1775384103000 div 86400000) = (2026, 4, 5)" by code_simp
  have a: "keep_anchor kept_meta = iso8601_from_epoch_ms 1775384103000"
    by (simp add: keep_anchor_def kept_meta_def from_map_def opt_field_def plain_field_def)
  show ?thesis
    using keep_expires_exactly [OF c _ _ a, of "1775384103000 + 5" 5] keep_expires_exactly [OF c _ _ a, of 1775384103000 5]
    by simp
qed

end
