(* ===== verification/Input_Parser.thy ===== *)
theory Input_Parser
  imports Text_Numbers
begin

text \<open>
  Keyboard and mouse input (\<^verbatim>\<open>crates/pty-core/src/input.rs\<close>). The parser works on the characters of
  one chunk, after the lossy UTF-8 decoding of the standard library; the index into the characters
  is the rest of the list here. Each alternative of an escape sequence is a definition that
  returns the events and the rest, or \<open>None\<close> when the code falls through to the next one.
  Coordinates are \<open>i32\<close>: the cast from \<open>u32\<close> and the subtraction wrap.
\<close>

section \<open>Events\<close>

record KeyEvent =
  key_name :: rstr
  key_char :: "rstr option"
  key_ctrl :: bool
  key_alt :: bool
  key_shift :: bool

datatype MouseButton = LeftButton | MiddleButton | RightButton | NoButton

datatype MouseAction = Press | Release | Drag | Move | ScrollUp | ScrollDown

record MouseEvent =
  mouse_action :: MouseAction
  mouse_button :: MouseButton
  mouse_x :: int
  mouse_y :: int
  mouse_ctrl :: bool
  mouse_alt :: bool
  mouse_shift :: bool

datatype InputEvent = Key KeyEvent | Mouse MouseEvent

definition is_mouse_event :: "InputEvent \<Rightarrow> bool" where
  "is_mouse_event e = (case e of Mouse _ \<Rightarrow> True | Key _ \<Rightarrow> False)"

definition kitty_codepoint_name :: "nat \<Rightarrow> rstr option" where
  "kitty_codepoint_name cp =
     (if cp = 27 then Some (ustr ''escape'')
      else if cp = 13 then Some (ustr ''return'')
      else if cp = 9 then Some (ustr ''tab'')
      else if cp = 127 then Some (ustr ''backspace'')
      else None)"

definition named :: "rstr \<Rightarrow> bool \<Rightarrow> bool \<Rightarrow> bool \<Rightarrow> InputEvent" where
  "named name ctrl alt shift =
     Key \<lparr>key_name = name, key_char = None, key_ctrl = ctrl, key_alt = alt, key_shift = shift\<rparr>"

definition printable :: "rstr \<Rightarrow> bool \<Rightarrow> bool \<Rightarrow> bool \<Rightarrow> InputEvent" where
  "printable ch ctrl alt shift =
     Key \<lparr>key_name = ch, key_char = Some ch, key_ctrl = ctrl, key_alt = alt, key_shift = shift\<rparr>"

definition bit_set :: "nat \<Rightarrow> nat \<Rightarrow> bool" where
  "bit_set n i \<longleftrightarrow> odd (n div 2 ^ i)"

definition cell_coordinate :: "nat \<Rightarrow> int" where
  "cell_coordinate x = max (sint ((of_nat x :: i32) - 1)) 0"

definition decode_mouse :: "nat \<Rightarrow> nat \<Rightarrow> nat \<Rightarrow> bool \<Rightarrow> MouseEvent" where
  "decode_mouse button_code x y is_release =
     (let shift = bit_set button_code 2;
          alt = bit_set button_code 3;
          ctrl = bit_set button_code 4;
          motion = bit_set button_code 5;
          wheel = bit_set button_code 6;
          low = button_code mod 4;
          cx = cell_coordinate x;
          cy = cell_coordinate y
      in if wheel then
           \<lparr>mouse_action = if low = 0 then ScrollUp else ScrollDown, mouse_button = NoButton,
            mouse_x = cx, mouse_y = cy, mouse_ctrl = ctrl, mouse_alt = alt, mouse_shift = shift\<rparr>
         else
           (let button = (if low = 0 then LeftButton else if low = 1 then MiddleButton
                          else if low = 2 then RightButton else NoButton);
                action = (if is_release then Release
                          else if motion then (if button = NoButton then Move else Drag)
                          else Press)
            in \<lparr>mouse_action = action, mouse_button = button, mouse_x = cx, mouse_y = cy,
                mouse_ctrl = ctrl, mouse_alt = alt, mouse_shift = shift\<rparr>))"

section \<open>Escape sequences\<close>

definition U32_LIMIT :: nat where
  "U32_LIMIT = 2 ^ 32"

definition take_digits :: "rstr \<Rightarrow> nat option \<times> rstr" where
  "take_digits chars =
     (let digits = takeWhile digit_char chars in
      if digits = [] then (None, chars)
      else (if digits_value digits < U32_LIMIT then Some (digits_value digits) else None,
            dropWhile digit_char chars))"

definition letter_name :: "rchar \<Rightarrow> rstr option" where
  "letter_name c =
     (if c = 65 then Some (ustr ''up'')
      else if c = 66 then Some (ustr ''down'')
      else if c = 67 then Some (ustr ''right'')
      else if c = 68 then Some (ustr ''left'')
      else if c = 72 then Some (ustr ''home'')
      else if c = 70 then Some (ustr ''end'')
      else None)"

type_synonym parsed = "(InputEvent list \<times> rstr) option"

definition csi_mouse :: "rstr \<Rightarrow> parsed" where
  "csi_mouse s =
     (case s of
        [] \<Rightarrow> None
      | c # s1 \<Rightarrow>
          if c \<noteq> 60 then None
          else
            (case take_digits s1 of
               (Some b, c1 # s2) \<Rightarrow>
                 if c1 \<noteq> 59 then None
                 else
                   (case take_digits s2 of
                      (Some x, c2 # s3) \<Rightarrow>
                        if c2 \<noteq> 59 then None
                        else
                          (case take_digits s3 of
                             (Some y, f # rest) \<Rightarrow>
                               if f = 77 \<or> f = 109
                               then Some ([Mouse (decode_mouse b x y (f = 109))], rest)
                               else None
                           | _ \<Rightarrow> None)
                    | _ \<Rightarrow> None)
             | _ \<Rightarrow> None))"

definition csi_letter :: "rstr \<Rightarrow> parsed" where
  "csi_letter s =
     (case s of
        c # rest \<Rightarrow>
          (case letter_name c of
             Some name \<Rightarrow> Some ([named name False False False], rest)
           | None \<Rightarrow> None)
      | [] \<Rightarrow> None)"

definition wire_modifiers :: "nat \<Rightarrow> (bool \<Rightarrow> bool \<Rightarrow> bool \<Rightarrow> 'a) \<Rightarrow> 'a" where
  "wire_modifiers mods_raw f =
     (let mods = mods_raw - 1 in f (bit_set mods 2) (bit_set mods 1) (bit_set mods 0))"

definition csi_modified :: "rstr \<Rightarrow> parsed" where
  "csi_modified s =
     (case s of
        a # b # s1 \<Rightarrow>
          if a = 49 \<and> b = 59 then
            (case take_digits s1 of
               (Some mods_raw, c # rest) \<Rightarrow>
                 (case letter_name c of
                    Some name \<Rightarrow> Some ([wire_modifiers mods_raw (named name)], rest)
                  | None \<Rightarrow> None)
             | _ \<Rightarrow> None)
          else None
      | _ \<Rightarrow> None)"

definition csi_backtab :: "rstr \<Rightarrow> parsed" where
  "csi_backtab s =
     (case s of
        c # rest \<Rightarrow>
          if c = 90 then Some ([named (ustr ''backtab'') False False True], rest) else None
      | [] \<Rightarrow> None)"

definition csi_tilde :: "rstr \<Rightarrow> parsed" where
  "csi_tilde s =
     (case s of
        a # b # rest \<Rightarrow>
          if b = 126 then
            (if a = 51 then Some ([named (ustr ''delete'') False False False], rest)
             else if a = 53 then Some ([named (ustr ''pageup'') False False False], rest)
             else if a = 54 then Some ([named (ustr ''pagedown'') False False False], rest)
             else None)
          else None
      | _ \<Rightarrow> None)"

definition char_from_u32 :: "nat \<Rightarrow> rchar option" where
  "char_from_u32 code =
     (if code < 0xD800 \<or> 0xDFFF < code \<and> code \<le> 0x10FFFF then Some code else None)"

definition kitty_events :: "nat \<Rightarrow> bool \<Rightarrow> bool \<Rightarrow> bool \<Rightarrow> InputEvent list" where
  "kitty_events code ctrl alt shift =
     (if code = 9 \<and> shift then [named (ustr ''backtab'') ctrl alt shift]
      else case kitty_codepoint_name code of
        Some name \<Rightarrow> [named name ctrl alt shift]
      | None \<Rightarrow>
          (case char_from_u32 code of
             Some ch \<Rightarrow> [printable [ch] ctrl alt shift]
           | None \<Rightarrow> []))"

definition csi_kitty :: "rstr \<Rightarrow> parsed" where
  "csi_kitty s =
     (if s \<noteq> [] \<and> digit_char (hd s) then
        (case take_digits s of
           (Some code, s1) \<Rightarrow>
             (case (if s1 \<noteq> [] \<and> hd s1 = 59 then take_digits (tl s1) else (Some 1, s1)) of
                (Some mods_wire, c # rest) \<Rightarrow>
                  if c = 117 then Some (wire_modifiers mods_wire (kitty_events code), rest) else None
              | _ \<Rightarrow> None)
         | _ \<Rightarrow> None)
      else None)"

definition csi_unknown :: "rstr \<Rightarrow> InputEvent list \<times> rstr" where
  "csi_unknown s = ([], tl (dropWhile (\<lambda>c. \<not> (64 \<le> c \<and> c \<le> 126)) s))"

definition csi_sequence :: "rstr \<Rightarrow> InputEvent list \<times> rstr" where
  "csi_sequence s =
     (case csi_mouse s of Some r \<Rightarrow> r | None \<Rightarrow>
     (case csi_letter s of Some r \<Rightarrow> r | None \<Rightarrow>
     (case csi_modified s of Some r \<Rightarrow> r | None \<Rightarrow>
     (case csi_backtab s of Some r \<Rightarrow> r | None \<Rightarrow>
     (case csi_tilde s of Some r \<Rightarrow> r | None \<Rightarrow>
     (case csi_kitty s of Some r \<Rightarrow> r | None \<Rightarrow> csi_unknown s))))))"

section \<open>The parser\<close>

definition plain_char :: "rchar \<Rightarrow> InputEvent list" where
  "plain_char code =
     (if code = 0x0d then [named (ustr ''return'') False False False]
      else if code = 0x09 then [named (ustr ''tab'') False False False]
      else if code = 0x7f then [named (ustr ''backspace'') False False False]
      else if code = 0x1c then [named [92] True False False]
      else if 1 \<le> code \<and> code \<le> 0x1a then [named [code + 0x60] True False False]
      else if code \<ge> 0x20 then [printable [code] False False False]
      else [])"

definition escape_sequence :: "rstr \<Rightarrow> InputEvent list \<times> rstr" where
  "escape_sequence s =
     (case s of
        [] \<Rightarrow> ([named (ustr ''escape'') False False False], [])
      | c # rest \<Rightarrow>
          if c = 91 then csi_sequence rest
          else if c \<ge> 32 then ([printable [c] False True False], rest)
          else ([named (ustr ''escape'') False False False], s))"

lemma take_digits_shorter: "take_digits s = (n, rest) \<Longrightarrow> length rest \<le> length s"
  by (auto simp: take_digits_def Let_def length_dropWhile_le split: if_splits)

lemma csi_sequence_shorter: "length (snd (csi_sequence s)) \<le> length s"
proof -
  have u: "length (snd (csi_unknown s)) \<le> length s"
    using length_dropWhile_le [of "\<lambda>c. \<not> (64 \<le> c \<and> c \<le> 126)" s] by (simp add: csi_unknown_def)
  have m: "length rest \<le> length s" if "csi_mouse s = Some (e, rest)" for e rest
    using that by (auto simp: csi_mouse_def split: list.splits if_splits prod.splits option.splits
        dest!: take_digits_shorter)
  have l: "length rest \<le> length s" if "csi_letter s = Some (e, rest)" for e rest
    using that by (auto simp: csi_letter_def split: list.splits option.splits)
  have d: "length rest \<le> length s" if "csi_modified s = Some (e, rest)" for e rest
    using that by (auto simp: csi_modified_def split: list.splits if_splits prod.splits option.splits
        dest!: take_digits_shorter)
  have b: "length rest \<le> length s" if "csi_backtab s = Some (e, rest)" for e rest
    using that by (auto simp: csi_backtab_def split: list.splits if_splits)
  have t: "length rest \<le> length s" if "csi_tilde s = Some (e, rest)" for e rest
    using that by (auto simp: csi_tilde_def split: list.splits if_splits)
  have k: "length rest \<le> length s" if "csi_kitty s = Some (e, rest)" for e rest
    using that by (auto simp: csi_kitty_def split: list.splits if_splits prod.splits option.splits
        dest!: take_digits_shorter)
  show ?thesis
    using u m l d b t k unfolding csi_sequence_def by (auto split: option.split prod.split)
qed

lemma escape_sequence_shorter: "length (snd (escape_sequence s)) \<le> length s"
  using csi_sequence_shorter by (auto simp: escape_sequence_def le_SucI split: list.splits)

function parse_input :: "rstr \<Rightarrow> InputEvent list" where
  "parse_input [] = []"
| "parse_input (c # s) =
     (if c = 27 then fst (escape_sequence s) @ parse_input (snd (escape_sequence s))
      else plain_char c @ parse_input s)"
  by pat_completeness auto
termination
  by (relation "measure length") (simp_all add: le_imp_less_Suc escape_sequence_shorter)

definition parse_key :: "rstr \<Rightarrow> KeyEvent list" where
  "parse_key data = [k. Key k \<leftarrow> parse_input data]"

section \<open>Facts\<close>

lemma take_digits_dec:
  assumes "n < U32_LIMIT" and "case rest of [] \<Rightarrow> True | c # _ \<Rightarrow> \<not> digit_char c"
  shows "take_digits (dec n @ rest) = (Some n, rest)"
proof -
  have "takeWhile digit_char (dec n @ rest) = dec n" by (rule takeWhile_digits [OF dec_digits assms(2)])
  moreover have "dropWhile digit_char (dec n @ rest) = rest"
    by (rule dropWhile_digits [OF dec_digits assms(2)])
  ultimately show ?thesis using assms(1) by (simp add: take_digits_def)
qed

lemma digit_char_sep [simp]:
  "\<not> digit_char 59" "\<not> digit_char 77" "\<not> digit_char 109" "\<not> digit_char 117" "\<not> digit_char 126"
  by (simp_all add: digit_char_def)

lemma parse_plain: "list_all (\<lambda>c. c \<noteq> 27) a \<Longrightarrow> parse_input (a @ b) = concat (map plain_char a) @ parse_input b"
  by (induction a) auto

lemma cell_coordinate_exact: "0 < x \<Longrightarrow> x < 2 ^ 31 \<Longrightarrow> cell_coordinate x = int x - 1"
proof -
  assume a: "0 < x" "x < 2 ^ 31"
  have "(of_nat x :: i32) - 1 = of_int (int x - 1)" by simp
  then have "sint ((of_nat x :: i32) - 1) = int x - 1"
    using a by (simp add: signed_of_int signed_take_bit_int_eq_self del: of_int_diff)
  then show ?thesis using a by (simp add: cell_coordinate_def)
qed

section \<open>Properties of the input parser\<close>

text \<open>
  Text without an escape is one event per character in order, whatever follows it; a mouse
  report is one event with the cell it names, counted from zero, and leaves the rest to be parsed.
  A coordinate of two to the 31, one beyond the largest cell, wraps to that largest cell.
\<close>

theorem mouse_and_text_decode:
  assumes "list_all (\<lambda>c. 32 \<le> c \<and> c \<noteq> 127) typed" and "b < U32_LIMIT"
    and "0 < x" and "x < 2 ^ 31" and "0 < y" and "y < 2 ^ 31" and "f = 77 \<or> f = 109"
  shows "parse_input (typed @ [27, 91, 60] @ dec b @ [59] @ dec x @ [59] @ dec y @ [f] @ rest) =
      map (\<lambda>c. printable [c] False False False) typed
      @ [Mouse (decode_mouse b x y (f = 109))] @ parse_input rest
    \<and> mouse_x (decode_mouse b x y (f = 109)) = int x - 1
    \<and> mouse_y (decode_mouse b x y (f = 109)) = int y - 1
    \<and> cell_coordinate (2 ^ 31) = 2 ^ 31 - 1"
proof -
  have t: "list_all (\<lambda>c. c \<noteq> 27) typed" "concat (map plain_char typed) = map (\<lambda>c. printable [c] False False False) typed"
    using assms(1) by (induction typed) (auto simp: plain_char_def)
  have x: "x < U32_LIMIT" "y < U32_LIMIT" using assms(4,6) by (simp_all add: U32_LIMIT_def)
  have e: "take_digits (dec b @ 59 # r) = (Some b, 59 # r)" "take_digits (dec x @ 59 # r) = (Some x, 59 # r)"
    "take_digits (dec y @ f # r) = (Some y, f # r)" for r
    using take_digits_dec [OF assms(2), of "59 # r"] take_digits_dec [OF x(1), of "59 # r"]
      take_digits_dec [OF x(2), of "f # r"] assms(7) by auto
  have "csi_mouse ([60] @ dec b @ [59] @ dec x @ [59] @ dec y @ [f] @ rest)
      = Some ([Mouse (decode_mouse b x y (f = 109))], rest)"
    using assms(7) by (auto simp: csi_mouse_def e)
  then have "escape_sequence ([91, 60] @ dec b @ [59] @ dec x @ [59] @ dec y @ [f] @ rest)
      = ([Mouse (decode_mouse b x y (f = 109))], rest)"
    by (simp add: escape_sequence_def csi_sequence_def)
  then have "parse_input ([27, 91, 60] @ dec b @ [59] @ dec x @ [59] @ dec y @ [f] @ rest)
      = Mouse (decode_mouse b x y (f = 109)) # parse_input rest" by simp
  moreover have "mouse_x (decode_mouse b x y r) = cell_coordinate x
      \<and> mouse_y (decode_mouse b x y r) = cell_coordinate y" for r
    by (simp add: decode_mouse_def Let_def)
  moreover have "cell_coordinate (2 ^ 31) = 2 ^ 31 - 1"
    by (simp add: cell_coordinate_def)
  ultimately show ?thesis
    using parse_plain [OF t(1)] t(2) cell_coordinate_exact assms(3-6) by simp
qed

theorem mouse_and_text_decode_witness:
  "parse_input ([104] @ [27, 91, 60] @ dec 0 @ [59] @ dec 3 @ [59] @ dec 1 @ [77] @ []) =
     [printable [104] False False False,
      Mouse \<lparr>mouse_action = Press, mouse_button = LeftButton, mouse_x = 2, mouse_y = 0,
        mouse_ctrl = False, mouse_alt = False, mouse_shift = False\<rparr>]"
  using mouse_and_text_decode [of "[104]" 0 3 1 77 "[]"]
  by (simp add: U32_LIMIT_def decode_mouse_def bit_set_def cell_coordinate_def)

end
