(* ===== verification/Key_Specs.thy ===== *)
theory Key_Specs
  imports Input_Parser Durations
begin

text \<open>
  Named keys (\<^verbatim>\<open>crates/pty-core/src/keys.rs\<close>) and bracketed paste (\<^verbatim>\<open>crates/pty-core/src/paste.rs\<close>).
  \<open>to_lowercase\<close> of the standard library maps characters beyond ASCII by the Unicode tables; it is an
  argument, and the properties rely on it only through what it does on ASCII text. The set of
  modifiers is a list of which only membership is used; an error keeps what its message is
  about, without the fixed help sentence.
\<close>

section \<open>Tables\<close>

datatype key_error =
    AmbiguousSpec rstr
  | IncompleteSpec rstr
  | UnknownModifier rstr
  | UnknownKey rstr rstr
  | UnsupportedSlash rstr

definition key_table :: "(rstr \<times> rstr) list" where
  "key_table =
     [(ustr ''return'', [13]), (ustr ''enter'', [13]), (ustr ''tab'', [9]), (ustr ''escape'', [27]),
      (ustr ''esc'', [27]), (ustr ''space'', [32]), (ustr ''backspace'', [127]),
      (ustr ''delete'', [27] @ ustr ''[3~''), (ustr ''up'', [27] @ ustr ''[A''),
      (ustr ''down'', [27] @ ustr ''[B''), (ustr ''right'', [27] @ ustr ''[C''),
      (ustr ''left'', [27] @ ustr ''[D''), (ustr ''home'', [27] @ ustr ''[H''),
      (ustr ''end'', [27] @ ustr ''[F''), (ustr ''pageup'', [27] @ ustr ''[5~''),
      (ustr ''pagedown'', [27] @ ustr ''[6~''), (ustr ''f1'', [27] @ ustr ''OP''),
      (ustr ''f2'', [27] @ ustr ''OQ''), (ustr ''f3'', [27] @ ustr ''OR''),
      (ustr ''f4'', [27] @ ustr ''OS''), (ustr ''f5'', [27] @ ustr ''[15~''),
      (ustr ''f6'', [27] @ ustr ''[17~''), (ustr ''f7'', [27] @ ustr ''[18~''),
      (ustr ''f8'', [27] @ ustr ''[19~''), (ustr ''f9'', [27] @ ustr ''[20~''),
      (ustr ''f10'', [27] @ ustr ''[21~''), (ustr ''f11'', [27] @ ustr ''[23~''),
      (ustr ''f12'', [27] @ ustr ''[24~''), (ustr ''/'', ustr ''/'')]"

definition key_map :: "rstr \<Rightarrow> rstr option" where
  "key_map name = map_of key_table name"

definition csi_u_keycode :: "rstr \<Rightarrow> nat option" where
  "csi_u_keycode name =
     map_of [(ustr ''return'', 13), (ustr ''enter'', 13), (ustr ''tab'', 9), (ustr ''escape'', 27),
       (ustr ''esc'', 27), (ustr ''space'', 32), (ustr ''backspace'', 127)] name"

definition is_modifier :: "rstr \<Rightarrow> bool" where
  "is_modifier m \<longleftrightarrow> m = ustr ''ctrl'' \<or> m = ustr ''alt'' \<or> m = ustr ''shift''"

definition is_separator :: "rchar \<Rightarrow> bool" where
  "is_separator c \<longleftrightarrow> c = 43 \<or> c = 95 \<or> c = 45"

definition leading_c_dash :: "rstr \<Rightarrow> bool" where
  "leading_c_dash spec = (case spec of c # d # _ \<Rightarrow> (c = 67 \<or> c = 99) \<and> d = 45 | _ \<Rightarrow> False)"

definition normalize_modifier :: "rstr \<Rightarrow> nat \<Rightarrow> rstr \<Rightarrow> rstr" where
  "normalize_modifier m index spec =
     (if m = ustr ''c'' \<and> index = 0 \<and> leading_c_dash spec then ustr ''ctrl'' else m)"

definition is_lower_letter :: "rstr \<Rightarrow> bool" where
  "is_lower_letter base = (case base of [c] \<Rightarrow> 97 \<le> c \<and> c \<le> 122 | _ \<Rightarrow> False)"

definition is_supported_base :: "rstr \<Rightarrow> bool" where
  "is_supported_base base \<longleftrightarrow> key_map base \<noteq> None \<or> is_lower_letter base"

definition modifier_param :: "rstr list \<Rightarrow> nat" where
  "modifier_param mods =
     1 + (if ustr ''shift'' \<in> set mods then 1 else 0)
       + (if ustr ''alt'' \<in> set mods then 2 else 0)
       + (if ustr ''ctrl'' \<in> set mods then 4 else 0)"

section \<open>Resolution\<close>

fun split_keys :: "rstr \<Rightarrow> rstr list" where
  "split_keys [] = [[]]"
| "split_keys (c # s) =
     (if is_separator c then [] # split_keys s
      else (case split_keys s of p # ps \<Rightarrow> (c # p) # ps | [] \<Rightarrow> [[c]]))"

definition letter_key :: "rstr list \<Rightarrow> rstr \<Rightarrow> rstr" where
  "letter_key mods base =
     (let result = base;
          result = (if ustr ''shift'' \<in> set mods then map (\<lambda>c. c - 32) result else result);
          result = (if ustr ''ctrl'' \<in> set mods then [ascii_lower (hd result) - 96] else result)
      in if ustr ''alt'' \<in> set mods then 27 # result else result)"

definition named_key :: "rstr list \<Rightarrow> rstr \<Rightarrow> rstr \<Rightarrow> rstr" where
  "named_key mods base mapped =
     (let modp = modifier_param mods; body = drop 2 mapped in
      if base = ustr ''tab'' \<and> modp = 2 then [27] @ ustr ''[Z''
      else if take 2 mapped = [27, 91] \<and> body \<noteq> [] \<and> last body = 126
              \<and> butlast body \<noteq> [] \<and> list_all digit_char (butlast body)
        then [27, 91] @ butlast body @ [59] @ dec modp @ [126]
      else if take 2 mapped = [27, 91] \<and> length body = 1 \<and> 65 \<le> hd body \<and> hd body \<le> 90
        then [27, 91, 49, 59] @ dec modp @ body
      else if take 2 mapped = [27, 79] \<and> length body = 1 \<and> 65 \<le> hd body \<and> hd body \<le> 90
        then [27, 91, 49, 59] @ dec modp @ body
      else case csi_u_keycode base of
        Some keycode \<Rightarrow> [27, 91] @ dec keycode @ [59] @ dec modp @ [117]
      | None \<Rightarrow> mapped)"

definition slash_key :: "rstr \<Rightarrow> rstr list \<Rightarrow> key_error + rstr" where
  "slash_key spec mods =
     (if ustr ''shift'' \<in> set mods then Inl (UnsupportedSlash spec)
      else (let slash = (if ustr ''ctrl'' \<in> set mods then [0x1f] else ustr ''/'')
            in Inr (if ustr ''alt'' \<in> set mods then 27 # slash else slash)))"

definition resolve_chord :: "rstr \<Rightarrow> rstr list \<Rightarrow> key_error + rstr" where
  "resolve_chord spec raw_parts =
     (let parts = butlast raw_parts; base = last raw_parts in
      if base = [] \<or> list_ex (\<lambda>p. p = []) parts then Inl (IncompleteSpec spec)
      else
        (let mods = map (\<lambda>(i, m). normalize_modifier m i spec) (List.enumerate 0 parts) in
         if \<not> list_all is_modifier mods then Inl (UnknownModifier spec)
         else
           (case key_map base of
              None \<Rightarrow>
                if \<not> is_lower_letter base then Inl (UnknownKey base spec)
                else Inr (letter_key mods base)
            | Some mapped \<Rightarrow>
                if is_lower_letter base then Inr (letter_key mods base)
                else if base = ustr ''/'' then slash_key spec mods
                else if mods = [] then Inr mapped
                else Inr (named_key mods base mapped))))"

definition resolve_key :: "(rstr \<Rightarrow> rstr) \<Rightarrow> rstr \<Rightarrow> key_error + rstr" where
  "resolve_key to_lowercase spec =
     (let lower = to_lowercase spec;
          has_separator = list_ex is_separator lower;
          raw_parts = (if has_separator then split_keys lower else [lower]);
          raw_base = last raw_parts;
          raw_mods = map (\<lambda>(i, m). normalize_modifier m i spec) (List.enumerate 0 (butlast raw_parts));
          is_valid_chord = (raw_base \<noteq> [] \<and> raw_mods \<noteq> []
             \<and> list_all (\<lambda>m. m \<noteq> [] \<and> is_modifier m) raw_mods \<and> is_supported_base raw_base)
      in if has_separator \<and> key_map lower \<noteq> None \<and> is_valid_chord then Inl (AmbiguousSpec spec)
         else case key_map lower of
           Some mapped \<Rightarrow>
             if \<not> is_valid_chord then Inr mapped else resolve_chord spec raw_parts
         | None \<Rightarrow> resolve_chord spec raw_parts)"

definition parse_seq_value :: "(rstr \<Rightarrow> rstr) \<Rightarrow> rstr \<Rightarrow> key_error + rstr" where
  "parse_seq_value to_lowercase val =
     (if take 4 val = ustr ''key:'' then resolve_key to_lowercase (drop 4 val) else Inr val)"

definition BRACKETED_PASTE_START :: bytes where
  "BRACKETED_PASTE_START = 27 # bstr ''[200~''"

definition BRACKETED_PASTE_END :: bytes where
  "BRACKETED_PASTE_END = 27 # bstr ''[201~''"

definition wrap_bracketed_paste :: "bytes \<Rightarrow> bytes" where
  "wrap_bracketed_paste payload = BRACKETED_PASTE_START @ payload @ BRACKETED_PASTE_END"

section \<open>Facts\<close>

lemma key_names_plain: "key_map s = Some v \<Longrightarrow> \<not> list_ex is_separator s"
proof -
  assume "key_map s = Some v"
  then have "s \<in> set (map fst key_table)" by (force simp: key_map_def dest: map_of_SomeD)
  then show ?thesis by (auto simp: key_table_def is_separator_def ustr_def)
qed

lemma split_keys_plain: "\<not> list_ex is_separator s \<Longrightarrow> split_keys s = [s]"
  by (induction s) auto

lemma split_keys_part:
  "\<not> list_ex is_separator p \<Longrightarrow> is_separator c \<Longrightarrow> split_keys (p @ c # s) = p # split_keys s"
  by (induction p) auto

definition chord :: "rstr list \<Rightarrow> rstr \<Rightarrow> rstr" where
  "chord ms base = concat (map (\<lambda>m. m @ [43]) ms) @ base"

lemma modifier_plain: "is_modifier m \<Longrightarrow> \<not> list_ex is_separator m \<and> m \<noteq> [] \<and> m \<noteq> ustr ''c''"
  by (auto simp: is_modifier_def is_separator_def ustr_def)

lemma split_keys_chord:
  "list_all is_modifier ms \<Longrightarrow> \<not> list_ex is_separator base \<Longrightarrow> split_keys (chord ms base) = ms @ [base]"
proof (induction ms)
  case Nil
  then show ?case by (simp add: chord_def split_keys_plain)
next
  case (Cons m ms)
  then show ?case using split_keys_part [of m 43 "chord ms base"] modifier_plain [of m]
    by (simp add: chord_def is_separator_def)
qed

lemma normalize_modifiers:
  "list_all is_modifier ms \<Longrightarrow> map (\<lambda>(i, m). normalize_modifier m i spec) (List.enumerate n ms) = ms"
  by (induction ms arbitrary: n) (auto simp: normalize_modifier_def dest: modifier_plain)

lemma resolve_key_chord:
  assumes "to_lowercase (chord ms base) = chord ms base" and "ms \<noteq> []" and "list_all is_modifier ms"
    and "key_map base = Some mapped" and "\<not> is_lower_letter base" and "base \<noteq> ustr ''/''" and "base \<noteq> []"
  shows "resolve_key to_lowercase (chord ms base) = Inr (named_key ms base mapped)"
proof -
  have p: "\<not> list_ex is_separator base" by (rule key_names_plain [OF assms(4)])
  have s: "list_ex is_separator (chord ms base)"
    using assms(2) by (cases ms) (auto simp: chord_def is_separator_def)
  then have k: "key_map (chord ms base) = None" using key_names_plain by fastforce
  have "list_ex (\<lambda>q. q = []) ms = False" using assms(3) modifier_plain by (auto simp: list_ex_iff list_all_iff)
  then have "resolve_chord (chord ms base) (ms @ [base]) = Inr (named_key ms base mapped)"
    using assms(2-) by (simp add: resolve_chord_def normalize_modifiers)
  then show ?thesis
    using s k by (simp add: resolve_key_def assms(1) split_keys_chord [OF assms(3) p] Let_def)
qed

lemma modifier_param_small: "modifier_param ms < U32_LIMIT"
  by (simp add: modifier_param_def U32_LIMIT_def)

lemma wire_modifiers_param:
  "wire_modifiers (modifier_param ms) f =
     f (ustr ''ctrl'' \<in> set ms) (ustr ''alt'' \<in> set ms) (ustr ''shift'' \<in> set ms)"
  by (simp add: wire_modifiers_def modifier_param_def bit_set_def)

lemma letter_not_digit: "letter_name c = Some name \<Longrightarrow> \<not> digit_char c"
  by (auto simp: letter_name_def digit_char_def split: if_splits)

lemma parse_modified_letter:
  assumes "letter_name c = Some name" and "n < U32_LIMIT"
  shows "parse_input ([27, 91, 49, 59] @ dec n @ [c] @ rest) = wire_modifiers n (named name) # parse_input rest"
proof -
  have "take_digits (dec n @ c # rest) = (Some n, c # rest)"
    using take_digits_dec [OF assms(2), of "c # rest"] letter_not_digit [OF assms(1)] by simp
  then have "csi_modified ([49, 59] @ dec n @ [c] @ rest) = Some ([wire_modifiers n (named name)], rest)"
    using assms(1) by (simp add: csi_modified_def)
  moreover have "csi_mouse ([49, 59] @ dec n @ [c] @ rest) = None"
    "csi_letter ([49, 59] @ dec n @ [c] @ rest) = None"
    by (simp_all add: csi_mouse_def csi_letter_def letter_name_def)
  ultimately show ?thesis by (simp add: escape_sequence_def csi_sequence_def)
qed

lemma dec_codes: "dec 9 = [57]" "dec 13 = [49, 51]" "dec 27 = [50, 55]" "dec 32 = [51, 50]" "dec 127 = [49, 50, 55]"
  by (simp_all add: dec.simps)

lemma parse_kitty:
  assumes "code \<in> {9, 13, 27, 32, 127}" and "n < U32_LIMIT"
  shows "parse_input ([27, 91] @ dec code @ [59] @ dec n @ [117] @ rest)
    = wire_modifiers n (kitty_events code) @ parse_input rest"
proof -
  let ?s = "dec code @ [59] @ dec n @ [117] @ rest"
  have c: "code < U32_LIMIT" using assms(1) by (auto simp: U32_LIMIT_def)
  have "take_digits ?s = (Some code, [59] @ dec n @ [117] @ rest)"
    using take_digits_dec [OF c, of "[59] @ dec n @ [117] @ rest"] by simp
  moreover have "take_digits (dec n @ [117] @ rest) = (Some n, [117] @ rest)"
    using take_digits_dec [OF assms(2), of "[117] @ rest"] by simp
  moreover have "digit_char (hd ?s)" using assms(1) by (auto simp: digit_char_def dec_codes)
  ultimately have "csi_kitty ?s = Some (wire_modifiers n (kitty_events code), rest)"
    by (simp add: csi_kitty_def)
  moreover have "csi_mouse ?s = None" "csi_letter ?s = None" "csi_modified ?s = None"
    "csi_backtab ?s = None" "csi_tilde ?s = None"
    using assms(1)
    by (auto simp: csi_mouse_def csi_letter_def letter_name_def csi_modified_def csi_backtab_def csi_tilde_def
        dec_codes)
  ultimately show ?thesis by (simp add: escape_sequence_def csi_sequence_def)
qed

section \<open>Properties of key specifications\<close>

text \<open>The keys whose modified form the input parser knows, with the event it makes of them.\<close>

definition decoded_keys :: "(rstr \<times> (bool \<Rightarrow> bool \<Rightarrow> bool \<Rightarrow> InputEvent)) list" where
  "decoded_keys =
     map (\<lambda>n. (ustr n, named (ustr n))) [''up'', ''down'', ''right'', ''left'', ''home'', ''end'']
     @ [(ustr ''return'', named (ustr ''return'')), (ustr ''enter'', named (ustr ''return'')),
        (ustr ''escape'', named (ustr ''escape'')), (ustr ''esc'', named (ustr ''escape'')),
        (ustr ''backspace'', named (ustr ''backspace'')), (ustr ''space'', printable [32]),
        (ustr ''tab'', \<lambda>c a s. named (ustr (if s then ''backtab'' else ''tab'')) c a s)]"

lemma key_lookup:
  "key_map (ustr ''up'') = Some [27, 91, 65]" "key_map (ustr ''down'') = Some [27, 91, 66]"
  "key_map (ustr ''right'') = Some [27, 91, 67]" "key_map (ustr ''left'') = Some [27, 91, 68]"
  "key_map (ustr ''home'') = Some [27, 91, 72]" "key_map (ustr ''end'') = Some [27, 91, 70]"
  "key_map (ustr ''return'') = Some [13]" "key_map (ustr ''enter'') = Some [13]"
  "key_map (ustr ''escape'') = Some [27]" "key_map (ustr ''esc'') = Some [27]"
  "key_map (ustr ''backspace'') = Some [127]" "key_map (ustr ''space'') = Some [32]"
  "key_map (ustr ''tab'') = Some [9]"
  by (simp_all add: key_map_def key_table_def) (simp_all add: ustr_def)

lemma named_key_letter:
  "base \<noteq> ustr ''tab'' \<Longrightarrow> 65 \<le> c \<Longrightarrow> c \<le> 90 \<Longrightarrow>
     named_key ms base [27, 91, c] = [27, 91, 49, 59] @ dec (modifier_param ms) @ [c]"
  by (simp add: named_key_def Let_def)

lemma named_key_control:
  "csi_u_keycode base = Some code \<Longrightarrow> \<not> (base = ustr ''tab'' \<and> modifier_param ms = 2) \<Longrightarrow>
     named_key ms base [x] = [27, 91] @ dec code @ [59] @ dec (modifier_param ms) @ [117]"
  by (auto simp: named_key_def Let_def)

lemma decoded_classes:
  assumes "(base, ev) \<in> set decoded_keys" and "key_map base = Some mapped" and "base \<noteq> ustr ''tab''"
  shows "(\<exists>c name. mapped = [27, 91, c] \<and> 65 \<le> c \<and> c \<le> 90 \<and> letter_name c = Some name \<and> ev = named name)
    \<or> (\<exists>x code. mapped = [x] \<and> csi_u_keycode base = Some code \<and> code \<in> {9, 13, 27, 32, 127}
         \<and> (\<forall>c a s. kitty_events code c a s = [ev c a s]))"
  using assms
  by (auto simp: decoded_keys_def key_lookup csi_u_keycode_def kitty_events_def kitty_codepoint_name_def
      char_from_u32_def letter_name_def)

lemma decoded_named_key:
  assumes "(base, ev) \<in> set decoded_keys" and "key_map base = Some mapped"
  shows "parse_input (named_key ms base mapped @ rest) =
    ev (ustr ''ctrl'' \<in> set ms) (ustr ''alt'' \<in> set ms) (ustr ''shift'' \<in> set ms) # parse_input rest"
proof -
  have letter: ?thesis
    if "mapped = [27, 91, c]" "65 \<le> c" "c \<le> 90" "letter_name c = Some name" "ev = named name" "base \<noteq> ustr ''tab''"
    for c name
    using parse_modified_letter [OF that(4) modifier_param_small, of ms rest]
      named_key_letter [OF that(6,2,3), of ms] that by (simp add: wire_modifiers_param)
  have control: ?thesis
    if "mapped = [x]" "csi_u_keycode base = Some code" "code \<in> {9, 13, 27, 32, 127}"
      "\<And>c a s. kitty_events code c a s = [ev c a s]" "\<not> (base = ustr ''tab'' \<and> modifier_param ms = 2)"
    for x code
    using parse_kitty [OF that(3) modifier_param_small, of ms rest]
      named_key_control [OF that(2,5), of x] that(1,4) by (simp add: wire_modifiers_param)
  show ?thesis
  proof (cases "base = ustr ''tab''")
    case True
    then have m: "mapped = [9]" "ev = (\<lambda>c a s. named (ustr (if s then ''backtab'' else ''tab'')) c a s)"
      using assms by (auto simp: decoded_keys_def key_lookup)
    show ?thesis
    proof (cases "modifier_param ms = 2")
      case False
      show ?thesis by (rule control [of 9 9])
          (use m True False in \<open>auto simp: csi_u_keycode_def kitty_events_def kitty_codepoint_name_def\<close>)
    next
      case shift: True
      then have "ustr ''ctrl'' \<notin> set ms" "ustr ''alt'' \<notin> set ms" "ustr ''shift'' \<in> set ms"
        by (auto simp: modifier_param_def split: if_splits)
      moreover have "named_key ms base mapped = [27, 91, 90]"
        using True shift by (simp add: named_key_def Let_def ustr_def)
      ultimately show ?thesis
        using m by (simp add: escape_sequence_def csi_sequence_def csi_mouse_def csi_letter_def letter_name_def
            csi_modified_def csi_backtab_def split: list.splits)
    qed
  next
    case False
    from decoded_classes [OF assms False] show ?thesis
    proof (elim disjE exE conjE)
      fix c name
      assume "mapped = [27, 91, c]" "65 \<le> c" "c \<le> 90" "letter_name c = Some name" "ev = named name"
      then show ?thesis using False by (rule letter)
    next
      fix x code
      assume *: "mapped = [x]" "csi_u_keycode base = Some code" "code \<in> {9, 13, 27, 32, 127}"
        "\<forall>c a s. kitty_events code c a s = [ev c a s]"
      show ?thesis by (rule control [OF *(1-3)]) (use *(4) False in auto)
    qed
  qed
qed

text \<open>
  A chord of modifiers and one of these keys is encoded as bytes that the input parser reads as
  one event of that key with exactly those modifiers, whatever follows them.
\<close>

theorem chord_is_decoded:
  assumes "to_lowercase (chord ms base) = chord ms base"
    and "ms \<noteq> []" and "list_all is_modifier ms" and "(base, ev) \<in> set decoded_keys"
  shows "\<exists>out. resolve_key to_lowercase (chord ms base) = Inr out
    \<and> parse_input (out @ rest) =
        ev (ustr ''ctrl'' \<in> set ms) (ustr ''alt'' \<in> set ms) (ustr ''shift'' \<in> set ms) # parse_input rest"
proof -
  obtain mapped where m: "key_map base = Some mapped" using assms(4) by (auto simp: decoded_keys_def key_lookup)
  have b: "\<not> is_lower_letter base" "base \<noteq> ustr ''/''" "base \<noteq> []"
    using assms(4) by (auto simp: decoded_keys_def is_lower_letter_def ustr_def)
  show ?thesis
    using resolve_key_chord [of to_lowercase ms base mapped, OF assms(1-3) m b] decoded_named_key [OF assms(4) m] by blast
qed

theorem chord_is_decoded_witness:
  "\<exists>out. resolve_key (map ascii_lower) (ustr ''ctrl+shift+up'') = Inr out
     \<and> parse_input (out @ []) = [named (ustr ''up'') True False True]"
proof -
  have c: "chord [ustr ''ctrl'', ustr ''shift''] (ustr ''up'') = ustr ''ctrl+shift+up''"
    by (simp add: chord_def ustr_def)
  have "\<exists>out. resolve_key (map ascii_lower) (chord [ustr ''ctrl'', ustr ''shift''] (ustr ''up'')) = Inr out
    \<and> parse_input (out @ []) =
        named (ustr ''up'') (ustr ''ctrl'' \<in> set [ustr ''ctrl'', ustr ''shift''])
          (ustr ''alt'' \<in> set [ustr ''ctrl'', ustr ''shift'']) (ustr ''shift'' \<in> set [ustr ''ctrl'', ustr ''shift''])
        # parse_input []"
  proof (rule chord_is_decoded)
    show "map ascii_lower (chord [ustr ''ctrl'', ustr ''shift''] (ustr ''up''))
        = chord [ustr ''ctrl'', ustr ''shift''] (ustr ''up'')"
      by (simp add: c) (simp add: ustr_def ascii_lower_def)
  qed (simp_all add: is_modifier_def decoded_keys_def)
  then show ?thesis by (simp add: c)
qed

end
