(* ===== verification/Kill.thy ===== *)
theory Kill
  imports Pty_Prelude
begin

text \<open>
  The one call of \<open>kill(2)\<close> (\<^verbatim>\<open>crates/pty-core/src/kill.rs\<close>). A pid is a signed 32-bit number. The
  system call is an argument that maps its two arguments to its result, zero or an error number;
  \<open>send\<close> also returns the pid it passed, if it made the call.
\<close>

datatype Target = Process i32 | Group i32

definition raw_target :: "Target \<Rightarrow> i32 \<Rightarrow> i32 option" where
  "raw_target target signal =
     (case target of
        Process pid \<Rightarrow> if sint pid > 1 \<or> (pid = 1 \<and> signal = 0) then Some pid else None
      | Group pgid \<Rightarrow> if sint pgid > 1 then Some (- pgid) else None)"

definition EINVAL :: nat where
  "EINVAL = 22"

definition send :: "(i32 \<Rightarrow> i32 \<Rightarrow> nat) \<Rightarrow> Target \<Rightarrow> i32 \<Rightarrow> i32 option \<times> (nat + unit)" where
  "send kill target signal =
     (case raw_target target signal of
        None \<Rightarrow> (None, Inl EINVAL)
      | Some raw \<Rightarrow> (Some raw, if kill raw signal = 0 then Inr () else Inl (kill raw signal)))"

definition kill_process :: "(i32 \<Rightarrow> i32 \<Rightarrow> nat) \<Rightarrow> i32 \<Rightarrow> i32 \<Rightarrow> i32 option \<times> (nat + unit)" where
  "kill_process kill pid signal = send kill (Process pid) signal"

definition kill_group :: "(i32 \<Rightarrow> i32 \<Rightarrow> nat) \<Rightarrow> i32 \<Rightarrow> i32 \<Rightarrow> i32 option \<times> (nat + unit)" where
  "kill_group kill pgid signal = send kill (Group pgid) signal"

text \<open>What \<open>kill(2)\<close> reaches for a pid argument.\<close>

datatype reach = OneProcess int | OneGroup int | OwnGroup | Everything

definition reach_of :: "i32 \<Rightarrow> reach" where
  "reach_of raw =
     (if sint raw > 0 then OneProcess (sint raw)
      else if sint raw = 0 then OwnGroup
      else if sint raw = -1 then Everything
      else OneGroup (- sint raw))"

lemma sint_minus: "sint (x :: i32) > 1 \<Longrightarrow> sint (- x) = - sint x"
proof -
  assume a: "sint x > 1"
  have "sint x < 2 ^ 31" using sint_less [of x] by simp
  moreover have "- x = of_int (- sint x)" by simp
  ultimately show ?thesis using a
    by (simp add: signed_of_int signed_take_bit_int_eq_self del: of_int_minus of_int_sint)
qed


end
