(* ===== verification/Startup_Lease.thy ===== *)
theory Startup_Lease
  imports Registry_Mutate Text_Numbers
begin

text \<open>
  Startup leases (\<^verbatim>\<open>crates/pty-lifecycle/src/startup.rs\<close>): the value a launcher publishes while a session
  starts, its terminal values, and the delay until its deadline. Deadlines are nanoseconds of the
  boot's monotonic clock; the clock, the boot identity and the JSON printer are arguments.
\<close>

record StartupLeaseOptions =
  slo_timeout_ms :: "nat option"
  slo_lifecycle_tag :: rstr

record ArmedStartupLease =
  sl_generation :: rstr
  sl_lifecycle_tag :: rstr
  sl_boot_id :: rstr
  sl_deadline_monotonic_ns :: "nat option"
  sl_starting_value :: rstr

datatype StartupLeaseTerminalCause = CauseExit | CauseDeadline | CauseTeardownUnavailable

definition cause_text :: "StartupLeaseTerminalCause \<Rightarrow> rstr" where
  "cause_text c =
     ustr (case c of
       CauseExit \<Rightarrow> ''exit''
     | CauseDeadline \<Rightarrow> ''deadline''
     | CauseTeardownUnavailable \<Rightarrow> ''teardown-unavailable'')"

definition MAX_SAFE_INTEGER :: nat where
  "MAX_SAFE_INTEGER = 9007199254740991"

definition MAX_TIMER_DELAY_MS :: nat where
  "MAX_TIMER_DELAY_MS = 2147483647"

datatype lease_error = LeaseTimeout | LeaseEmptyTag | LeaseNoBootIdentity | LeaseNoClock

definition starting_object :: "rstr \<Rightarrow> rstr \<Rightarrow> nat option \<Rightarrow> json imap" where
  "starting_object generation boot_id deadline =
     (let m = imap_insert (ustr ''bootId'') (JString boot_id)
                (imap_insert (ustr ''generation'') (JString generation)
                  (imap_insert (ustr ''_tag'') (JString (ustr ''starting'')) []))
      in case deadline of
           Some t \<Rightarrow> imap_insert (ustr ''deadlineMonotonicNs'') (JString (dec t)) m
         | None \<Rightarrow> m)"

definition arm_startup_lease ::
  "(json \<Rightarrow> rstr) \<Rightarrow> rstr option \<Rightarrow> nat option \<Rightarrow> StartupLeaseOptions \<Rightarrow> rstr
    \<Rightarrow> lease_error + ArmedStartupLease" where
  "arm_startup_lease to_text boot now options generation =
     (if (case slo_timeout_ms options of Some t \<Rightarrow> t = 0 \<or> t > MAX_SAFE_INTEGER | None \<Rightarrow> False)
      then Inl LeaseTimeout
      else if slo_lifecycle_tag options = [] then Inl LeaseEmptyTag
      else case boot of
        None \<Rightarrow> Inl LeaseNoBootIdentity
      | Some boot_id \<Rightarrow>
          if boot_id = [] then Inl LeaseNoBootIdentity
          else
            (let armed = (\<lambda>deadline. Inr
                 \<lparr>sl_generation = generation, sl_lifecycle_tag = slo_lifecycle_tag options, sl_boot_id = boot_id,
                  sl_deadline_monotonic_ns = deadline,
                  sl_starting_value = to_text (JObject (starting_object generation boot_id deadline))\<rparr>)
             in case slo_timeout_ms options of
                  None \<Rightarrow> armed None
                | Some t \<Rightarrow>
                    (case now of
                       None \<Rightarrow> Inl LeaseNoClock
                     | Some n \<Rightarrow> armed (Some (n + t * 1000000)))))"

definition terminal_object :: "rstr \<Rightarrow> StartupLeaseTerminalCause \<Rightarrow> json imap" where
  "terminal_object generation c =
     [(ustr ''_tag'', JString (ustr ''terminal'')), (ustr ''generation'', JString generation),
      (ustr ''cause'', JString (cause_text c))]"

definition terminal_startup_lease_value ::
  "(json \<Rightarrow> rstr) \<Rightarrow> rstr \<Rightarrow> StartupLeaseTerminalCause \<Rightarrow> rstr" where
  "terminal_startup_lease_value to_text generation c = to_text (JObject (terminal_object generation c))"

definition startup_lease_deadline_cause :: "bool \<Rightarrow> StartupLeaseTerminalCause" where
  "startup_lease_deadline_cause containment_complete =
     (if containment_complete then CauseDeadline else CauseTeardownUnavailable)"

definition remaining_lease_delay :: "nat option \<Rightarrow> nat \<Rightarrow> nat" where
  "remaining_lease_delay now deadline =
     (case now of
        None \<Rightarrow> 0
      | Some n \<Rightarrow>
          (let remaining_ns = deadline - n;
               remaining_ms = (remaining_ns + 999999) div 1000000
           in min (if remaining_ms < 2 ^ 64 then remaining_ms else 2 ^ 64 - 1) MAX_TIMER_DELAY_MS))"

text \<open>The timer never fires early and ends: a zero delay means the deadline passed or the clock is
  unreadable, and waiting the delay reaches the deadline unless it was cut to the longest timer.\<close>

lemma remaining_lease_delay_zero:
  "remaining_lease_delay now deadline = 0 \<longleftrightarrow> (\<forall>n. now = Some n \<longrightarrow> deadline \<le> n)"
proof (cases now)
  case (Some n)
  have "(deadline - n + 999999) div 1000000 = 0 \<longleftrightarrow> deadline \<le> n" by (auto simp: div_eq_0_iff)
  then show ?thesis using Some by (auto simp: remaining_lease_delay_def Let_def min_def MAX_TIMER_DELAY_MS_def)
qed (simp add: remaining_lease_delay_def)

lemma remaining_lease_delay_reaches:
  assumes "now = Some n" and "remaining_lease_delay now deadline < MAX_TIMER_DELAY_MS"
  shows "deadline \<le> n + remaining_lease_delay now deadline * 1000000"
proof -
  let ?ms = "(deadline - n + 999999) div 1000000"
  have "MAX_TIMER_DELAY_MS < 2 ^ 64 - 1" by (simp add: MAX_TIMER_DELAY_MS_def)
  then have "remaining_lease_delay now deadline = ?ms"
    using assms by (auto simp: remaining_lease_delay_def Let_def min_def split: if_splits)
  moreover have "deadline - n \<le> ?ms * 1000000" by linarith
  ultimately show ?thesis by linarith
qed

text \<open>A terminal value written for a generation names this generation and its cause.\<close>

lemma terminal_object_reads:
  "imap_get (terminal_object generation c) (ustr ''_tag'') = Some (JString (ustr ''terminal''))"
  "imap_get (terminal_object generation c) (ustr ''generation'') = Some (JString generation)"
  "imap_get (terminal_object generation c) (ustr ''cause'') = Some (JString (cause_text c))"
  by (simp_all add: terminal_object_def ustr_def)

end
