(* ===== verification/Client_Queue.thy ===== *)
theory Client_Queue
  imports Wire_Protocol Transitions
begin

text \<open>
  One connection of the daemon and its outbound queue (\<open>Client\<close> of
  \<^verbatim>\<open>crates/pty/src/daemon/clients.rs\<close>). The queue holds what was sent to the writer thread and not yet
  dropped by it, the packet in flight included; \<open>pending_bytes\<close> counts the charges of these packets.
  The capacity of a vector is an argument of \<open>send\<close>, as the allocator chooses it. The writer's end of
  the channel may be gone, and its frame lock may be taken; both are flags that other threads
  set. Counters of 64 bits are natural numbers, they are only incremented by one per packet.
\<close>

section \<open>State\<close>

definition OUTBOUND_QUEUE_BYTES :: nat where
  "OUTBOUND_QUEUE_BYTES = 64 * 1024 * 1024"

definition OUTBOUND_ITEM_OVERHEAD :: nat where
  "OUTBOUND_ITEM_OVERHEAD = 64"

definition USIZE_LIMIT :: nat where
  "USIZE_LIMIT = 2 ^ 64"

datatype Out = OutBytes bytes nat | OutEnd | OutDestroy

datatype Role = Command | Writable | Readonly

datatype CutKind = CutAttach bool | CutPeek bool bool

datatype Phase = Live | Settling nat nat CutKind

record Client =
  c_queue :: "Out list"
  c_pending :: nat
  c_rejected :: bool
  c_writer_gone :: bool
  c_frame_locked :: bool
  c_shut :: bool
  c_notice :: "bytes option"
  c_role :: Role
  c_rows :: u16
  c_cols :: u16
  c_attach_seq :: nat
  c_generation :: nat
  c_phase :: Phase
  c_attached :: "AttachedClient option"

definition new_client :: "u16 \<Rightarrow> u16 \<Rightarrow> Client" where
  "new_client rows cols =
     \<lparr>c_queue = [], c_pending = 0, c_rejected = False, c_writer_gone = False, c_frame_locked = False,
      c_shut = False, c_notice = None, c_role = Command, c_rows = rows, c_cols = cols,
      c_attach_seq = 0, c_generation = 0, c_phase = Live, c_attached = None\<rparr>"

section \<open>Operations\<close>

definition out_charge :: "Out \<Rightarrow> nat" where
  "out_charge out = (case out of OutBytes _ charge \<Rightarrow> charge | _ \<Rightarrow> 0)"

text \<open>A packet that cannot be queued is dropped, which releases its charge.\<close>

definition send_out :: "Out \<Rightarrow> Client \<Rightarrow> Client" where
  "send_out out c =
     (if c_writer_gone c
      then c\<lparr>c_pending := c_pending c - out_charge out, c_shut := True\<rparr>
      else c\<lparr>c_queue := c_queue c @ [out]\<rparr>)"

definition reject_slow_client :: "Client \<Rightarrow> Client" where
  "reject_slow_client c =
     (if c_rejected c then c
      else c\<lparr>c_rejected := True,
             c_notice := if c_frame_locked c then c_notice c
                         else Some (encode_connection_error ClientTooSlow),
             c_shut := True\<rparr>)"

definition send :: "(bytes \<Rightarrow> nat) \<Rightarrow> bytes \<Rightarrow> Client \<Rightarrow> Client" where
  "send capacity data c =
     (if c_rejected c then c
      else
        (let charge = capacity data + OUTBOUND_ITEM_OVERHEAD in
         if charge \<ge> USIZE_LIMIT then reject_slow_client c
         else if c_pending c + charge \<ge> USIZE_LIMIT \<or> c_pending c + charge > OUTBOUND_QUEUE_BYTES
           then reject_slow_client c
         else send_out (OutBytes data charge) (c\<lparr>c_pending := c_pending c + charge\<rparr>)))"

text \<open>The writer thread is done with the packet at the head: it is dropped.\<close>

definition writer_done :: "Client \<Rightarrow> Client" where
  "writer_done c =
     (case c_queue c of
        [] \<Rightarrow> c
      | out # rest \<Rightarrow> c\<lparr>c_queue := rest, c_pending := c_pending c - out_charge out\<rparr>)"

text \<open>The writer thread ends: the receiver is dropped with everything still queued.\<close>

definition writer_ends :: "Client \<Rightarrow> Client" where
  "writer_ends c =
     c\<lparr>c_queue := [], c_pending := c_pending c - sum_list (map out_charge (c_queue c)),
       c_writer_gone := True\<rparr>"

definition is_settling :: "Client \<Rightarrow> bool" where
  "is_settling c = (case c_phase c of Settling _ _ _ \<Rightarrow> True | Live \<Rightarrow> False)"

definition gets_geometry :: "Client \<Rightarrow> bool" where
  "gets_geometry c \<longleftrightarrow> c_attach_seq c > 0 \<or> c_role c = Readonly"

definition constrains_size :: "Client \<Rightarrow> bool" where
  "constrains_size c \<longleftrightarrow> c_role c = Writable \<and> c_attach_seq c > 0"

section \<open>The queue invariant\<close>

definition queue_inv :: "Client \<Rightarrow> bool" where
  "queue_inv c \<longleftrightarrow>
     c_pending c = sum_list (map out_charge (c_queue c))
     \<and> c_pending c \<le> OUTBOUND_QUEUE_BYTES
     \<and> (\<forall>data charge. OutBytes data charge \<in> set (c_queue c) \<longrightarrow> OUTBOUND_ITEM_OVERHEAD \<le> charge)
     \<and> (c_rejected c \<longrightarrow> c_shut c)
     \<and> (c_writer_gone c \<longrightarrow> c_queue c = [])"

lemma new_client_queue_inv: "queue_inv (new_client rows cols)"
  by (simp add: queue_inv_def new_client_def)

lemma reject_queue_inv: "queue_inv c \<Longrightarrow> queue_inv (reject_slow_client c)"
  by (auto simp: queue_inv_def reject_slow_client_def)

lemma send_queue_inv: "queue_inv c \<Longrightarrow> queue_inv (send capacity data c)"
  by (auto simp: send_def Let_def reject_queue_inv)
    (auto simp: queue_inv_def send_out_def out_charge_def)

lemma send_out_queue_inv:
  "queue_inv c \<Longrightarrow> out = OutEnd \<or> out = OutDestroy \<Longrightarrow> queue_inv (send_out out c)"
  by (auto simp: queue_inv_def send_out_def out_charge_def)

lemma writer_done_queue_inv: "queue_inv c \<Longrightarrow> queue_inv (writer_done c)"
  by (auto simp: queue_inv_def writer_done_def split: list.splits)

lemma writer_ends_queue_inv: "queue_inv c \<Longrightarrow> queue_inv (writer_ends c)"
  by (auto simp: queue_inv_def writer_ends_def)

text \<open>What the threads that share a connection may do to it, in any order.\<close>

inductive client_step :: "Client \<Rightarrow> Client \<Rightarrow> bool" where
  step_send: "client_step c (send capacity data c)"
| step_end: "client_step c (send_out OutEnd c)"
| step_destroy: "client_step c (send_out OutDestroy c)"
| step_writer: "client_step c (writer_done c)"
| step_writer_ends: "client_step c (writer_ends c)"
| step_frame_lock: "client_step c (c\<lparr>c_frame_locked := b\<rparr>)"
| step_role: "client_step c (c\<lparr>c_role := r, c_rows := w, c_cols := h, c_attach_seq := n,
    c_generation := g, c_phase := p, c_attached := a\<rparr>)"

inductive_cases client_stepE: "client_step c d"

interpretation queue: invariant_system "\<lambda>c. \<exists>rows cols. c = new_client rows cols" client_step queue_inv
proof
  fix c
  assume "\<exists>rows cols. c = new_client rows cols"
  then show "queue_inv c" using new_client_queue_inv by blast
next
  fix c d
  assume i: "queue_inv c" and s: "client_step c d"
  from s show "queue_inv d"
    by cases (use i in \<open>auto simp: send_queue_inv send_out_queue_inv writer_done_queue_inv
        writer_ends_queue_inv out_charge_def\<close>, auto simp: queue_inv_def)
qed

lemma charges_count:
  assumes "\<forall>data charge. OutBytes data charge \<in> set q \<longrightarrow> OUTBOUND_ITEM_OVERHEAD \<le> charge"
  shows "OUTBOUND_ITEM_OVERHEAD * length (filter (\<lambda>out. out \<noteq> OutEnd \<and> out \<noteq> OutDestroy) q)
    \<le> sum_list (map out_charge q)"
  using assms
proof (induction q)
  case (Cons out q)
  then show ?case by (cases out) (auto simp: out_charge_def intro!: add_mono)
qed simp

section \<open>Properties of the queue\<close>

text \<open>
  C10. Whatever the threads that share a connection do and in whatever order, the pending count is the
  sum of the charges of the queued packets and stays within 64 MiB, so at most 1048576 packets are
  queued; a connection over the budget is marked, shut down, and takes no further packet.
\<close>

theorem outbound_queue_bounded:
  assumes "reachable (\<lambda>c. \<exists>rows cols. c = new_client rows cols) client_step c"
  shows "c_pending c = sum_list (map out_charge (c_queue c))
    \<and> c_pending c \<le> OUTBOUND_QUEUE_BYTES
    \<and> length (filter (\<lambda>out. out \<noteq> OutEnd \<and> out \<noteq> OutDestroy) (c_queue c)) \<le> 1048576
    \<and> (c_rejected c \<longrightarrow> c_shut c \<and> send capacity data c = c)
    \<and> (\<not> c_rejected c \<and> c_pending c + capacity data + OUTBOUND_ITEM_OVERHEAD > OUTBOUND_QUEUE_BYTES
        \<longrightarrow> c_rejected (send capacity data c) \<and> c_shut (send capacity data c)
            \<and> c_queue (send capacity data c) = c_queue c
            \<and> c_pending (send capacity data c) = c_pending c)"
proof -
  have i: "queue_inv c" by (rule queue.inv_reachable [OF assms])
  then have "OUTBOUND_ITEM_OVERHEAD * length (filter (\<lambda>out. out \<noteq> OutEnd \<and> out \<noteq> OutDestroy) (c_queue c))
      \<le> OUTBOUND_QUEUE_BYTES"
    using charges_count [of "c_queue c"] by (auto simp: queue_inv_def)
  moreover have "c_rejected (send capacity data c) \<and> c_shut (send capacity data c)
      \<and> c_queue (send capacity data c) = c_queue c \<and> c_pending (send capacity data c) = c_pending c"
    if "\<not> c_rejected c" "c_pending c + capacity data + OUTBOUND_ITEM_OVERHEAD > OUTBOUND_QUEUE_BYTES"
    using that by (auto simp: send_def reject_slow_client_def Let_def)
  ultimately show ?thesis
    using i by (auto simp: queue_inv_def send_def OUTBOUND_ITEM_OVERHEAD_def OUTBOUND_QUEUE_BYTES_def)
qed

theorem outbound_queue_bounded_witness:
  "c_pending (send length [1, 2, 3] (new_client 24 80)) = 67
   \<and> c_pending (send length [1, 2, 3] (new_client 24 80)) \<le> OUTBOUND_QUEUE_BYTES"
proof -
  have "reachable (\<lambda>c. \<exists>rows cols. c = new_client rows cols) client_step
      (send length [1, 2, 3] (new_client 24 80))"
    by (rule reachable_step [OF reachable_init]) (blast, rule step_send)
  from outbound_queue_bounded [OF this] show ?thesis
    by (simp add: send_def send_out_def new_client_def Let_def out_charge_def OUTBOUND_ITEM_OVERHEAD_def
        OUTBOUND_QUEUE_BYTES_def USIZE_LIMIT_def)
qed

end
