(* ===== verification/Btree_Map.thy ===== *)
theory Btree_Map
  imports Main
begin

text \<open>
  The map from connection numbers to connections, a \<open>BTreeMap\<close> of the standard library: entries in
  ascending order of the key. \<open>ordered_map\<close> is the contract its clients rely on; the list of entries
  implements it.
\<close>

locale ordered_map =
  fixes get :: "'m \<Rightarrow> nat \<Rightarrow> 'v option"
    and ins :: "nat \<Rightarrow> 'v \<Rightarrow> 'm \<Rightarrow> 'm"
    and rem :: "nat \<Rightarrow> 'm \<Rightarrow> 'm"
    and keys :: "'m \<Rightarrow> nat list"
    and ok :: "'m \<Rightarrow> bool"
  assumes get_ins: "ok m \<Longrightarrow> get (ins k v m) j = (if j = k then Some v else get m j)"
    and get_rem: "ok m \<Longrightarrow> get (rem k m) j = (if j = k then None else get m j)"
    and ok_ins: "ok m \<Longrightarrow> ok (ins k v m)"
    and ok_rem: "ok m \<Longrightarrow> ok (rem k m)"
    and keys_get: "ok m \<Longrightarrow> set (keys m) = {k. get m k \<noteq> None}"
    and keys_sorted: "ok m \<Longrightarrow> sorted_wrt (<) (keys m)"
begin

lemma keys_ins_present: "ok m \<Longrightarrow> get m k \<noteq> None \<Longrightarrow> keys (ins k v m) = keys m"
proof -
  assume o: "ok m" and p: "get m k \<noteq> None"
  have "set (keys (ins k v m)) = set (keys m)" using o p by (auto simp: keys_get ok_ins get_ins)
  then show ?thesis
    using keys_sorted [OF o] keys_sorted [OF ok_ins [OF o]]
    by (intro sorted_distinct_set_unique) (auto simp: strict_sorted_iff)
qed

lemma keys_rem: "ok m \<Longrightarrow> keys (rem k m) = filter (\<lambda>j. j \<noteq> k) (keys m)"
proof -
  assume o: "ok m"
  have "set (keys (rem k m)) = set (filter (\<lambda>j. j \<noteq> k) (keys m))" using o by (auto simp: keys_get ok_rem get_rem)
  moreover have "sorted_wrt (<) (filter (\<lambda>j. j \<noteq> k) (keys m))" using keys_sorted [OF o] by (rule sorted_wrt_filter)
  ultimately show ?thesis
    using keys_sorted [OF ok_rem [OF o]]
    by (intro sorted_distinct_set_unique) (auto simp: strict_sorted_iff)
qed

end

fun bt_insert :: "nat \<Rightarrow> 'v \<Rightarrow> (nat \<times> 'v) list \<Rightarrow> (nat \<times> 'v) list" where
  "bt_insert k v [] = [(k, v)]"
| "bt_insert k v ((j, w) # m) =
     (if k < j then (k, v) # (j, w) # m
      else if k = j then (k, v) # m
      else (j, w) # bt_insert k v m)"

definition bt_remove :: "nat \<Rightarrow> (nat \<times> 'v) list \<Rightarrow> (nat \<times> 'v) list" where
  "bt_remove k m = filter (\<lambda>e. fst e \<noteq> k) m"

definition bt_ok :: "(nat \<times> 'v) list \<Rightarrow> bool" where
  "bt_ok m \<longleftrightarrow> sorted_wrt (<) (map fst m)"

lemma bt_insert_get: "bt_ok m \<Longrightarrow> map_of (bt_insert k v m) j = (if j = k then Some v else map_of m j)"
  by (induction k v m rule: bt_insert.induct) (auto simp: bt_ok_def)

lemma bt_insert_keys: "set (map fst (bt_insert k v m)) = insert k (set (map fst m))"
  by (induction k v m rule: bt_insert.induct) auto

lemma bt_insert_ok: "bt_ok m \<Longrightarrow> bt_ok (bt_insert k v m)"
proof (induction k v m rule: bt_insert.induct)
  case (2 k v j w m)
  then show ?case using bt_insert_keys [of k v m] by (fastforce simp: bt_ok_def)
qed (simp add: bt_ok_def)

lemma bt_remove_get: "map_of (bt_remove k m) j = (if j = k then None else map_of m j)"
  by (induction m) (auto simp: bt_remove_def)

lemma bt_remove_ok: "bt_ok m \<Longrightarrow> bt_ok (bt_remove k m)"
  by (auto simp: bt_ok_def bt_remove_def sorted_wrt_map sorted_wrt_filter)

interpretation bt: ordered_map map_of bt_insert bt_remove "map fst" bt_ok
proof
  fix m :: "(nat \<times> 'v) list"
  assume "bt_ok m"
  show "set (map fst m) = {k. map_of m k \<noteq> None}" by (metis (mono_tags) Collect_cong Collect_mem_eq list.set_map map_of_eq_None_iff)
qed (simp_all add: bt_insert_get bt_insert_ok bt_remove_get bt_remove_ok, simp add: bt_ok_def)

lemma bt_ok_get_iff: "bt_ok m \<Longrightarrow> (k, v) \<in> set m \<longleftrightarrow> map_of m k = Some v"
  by (auto simp: bt_ok_def strict_sorted_iff dest: map_of_SomeD)

lemma bt_insert_set:
  "bt_ok m \<Longrightarrow> set (bt_insert k v m) = insert (k, v) {e \<in> set m. fst e \<noteq> k}"
  using bt_ok_get_iff [OF bt_insert_ok, of m] bt_ok_get_iff [of m] bt_insert_get [of m]
  by (auto split: if_splits)

lemma bt_map_ok: "bt_ok (map (\<lambda>(k, v). (k, f k v)) m) \<longleftrightarrow> bt_ok m"
  by (simp add: bt_ok_def o_def case_prod_beta)

lemma bt_map_get: "map_of (map (\<lambda>(k, v). (k, f k v)) m) k = map_option (f k) (map_of m k)"
  by (induction m) auto

end
