(* ===== verification/Daemon_State.thy ===== *)
theory Daemon_State
  imports Client_Queue Btree_Map Startup_Lease
begin

text \<open>
  The state of a session's daemon (\<open>Daemon\<close> of \<^verbatim>\<open>crates/pty/src/daemon/lifecycle.rs\<close>) and the access to its
  connections. The terminal is the emulator the actor wraps, a library: its state is a type variable
  and its operations are the fields of \<open>term_ops\<close>. One handler runs at one instant \<open>e_now\<close>
  (milliseconds), with the outside world's answers in \<open>env\<close>: the clocks, the registry during each
  metadata write, the allocator's capacity for a vector, the JSON reader and printer, and the
  inspection of the process table. What a handler does to the child, the terminal device, the
  record and the other threads is appended to \<open>d_effects\<close> in order.
\<close>

section \<open>State\<close>

record ClientFacts =
  cf_rows :: u16
  cf_cols :: u16
  cf_writable :: "(nat \<times> u16 \<times> u16) list"

definition unattached :: "u16 \<Rightarrow> u16 \<Rightarrow> ClientFacts" where
  "unattached rows cols = \<lparr>cf_rows = rows, cf_cols = cols, cf_writable = []\<rparr>"

datatype TerminalEvent =
    Bell
  | TitleChange rstr
  | Notification "rstr option" "rstr option" rstr
  | FocusRequest
  | CursorVisible
  | EnhancedPasteMode bool
  | EnhancedPasteRead bytes

datatype NotificationSource = Osc9 | Osc99 | Osc777

datatype LoggedEvent =
    LogBell
  | LogNotification "rstr option" "rstr option" "NotificationSource option"
  | LogFocusRequest

datatype actor_event = ActorChildExited | ActorShutdown

datatype Effect =
    WriteChild bytes
  | ResizePty u16 u16 nat nat
  | WriteRecord "json imap"
  | LogTerminalEvent LoggedEvent
  | LogSessionExit i32 "i32 option"
  | PublishActivity "64 word"
  | RetireActivity
  | FreezeTree
  | ResumeTree
  | SweepTemps
  | TellOperation actor_event

datatype screen_request = SerializeAttach | SerializePeek | SerializePeekFull | PlainViewport | PlainFull

record 't term_ops =
  t_rows :: "'t \<Rightarrow> u16"
  t_cols :: "'t \<Rightarrow> u16"
  t_cell :: "'t \<Rightarrow> nat \<times> nat"
  t_set_cell :: "nat \<times> nat \<Rightarrow> 't \<Rightarrow> 't"
  t_resize :: "u16 \<Rightarrow> u16 \<Rightarrow> 't \<Rightarrow> 't"
  t_screen :: "screen_request \<Rightarrow> 't \<Rightarrow> bytes"
  t_take_replies :: "'t \<Rightarrow> bytes \<times> 't"
  t_reset_input :: "'t \<Rightarrow> bytes \<times> 't"
  t_answering :: "bool \<Rightarrow> 't \<Rightarrow> 't"
  t_write :: "bytes \<Rightarrow> 't \<Rightarrow> bytes \<times> 't"
  t_take_events :: "'t \<Rightarrow> TerminalEvent list \<times> 't"
  t_end_stream :: "'t \<Rightarrow> 't"
  t_last_lines :: "'t \<Rightarrow> rstr list"
  t_history :: "rstr \<Rightarrow> bytes \<Rightarrow> 't \<Rightarrow> bytes option"

record ExitStatus =
  es_code :: "i32 option"
  es_signal :: "i32 option"

text \<open>The link to a launch operation that is not transferred yet; another thread sets \<open>ol_transferred\<close>.\<close>

record OperationLink =
  ol_transferred :: bool
  ol_deferred_exit :: "ExitStatus option"
  ol_ended :: bool

text \<open>Instants are milliseconds. \<open>d_teardown_tree\<close> keeps of the child's frozen process tree whether it was
  observed completely.\<close>

record 't Daemon =
  d_clients :: "(nat \<times> Client) list"
  d_actor :: 't
  d_attach_counter :: nat
  d_last_resize :: "nat option"
  d_settle :: nat
  d_exited :: bool
  d_exit_code :: i32
  d_child_status :: "ExitStatus option"
  d_generation :: rstr
  d_client_generation :: nat
  d_published_client_facts :: ClientFacts
  d_pending_attach_at :: "rstr option"
  d_client_meta_retry :: "(nat \<times> nat) option"
  d_pty_eof :: bool
  d_exit_drain_deadline :: "nat option"
  d_exit_meta_retry :: "(nat \<times> nat) option"
  d_exit_shutdown_at :: "nat option"
  d_shutdown_code :: "i32 option"
  d_external_kill :: bool
  d_last_output_at_ms :: "64 word option"
  d_activity_persist_at :: "nat option"
  d_temp_sweep_at :: nat
  d_startup_lease :: "ArmedStartupLease option"
  d_lease_timer :: "nat option"
  d_lease_disarmed :: bool
  d_deadline_pending_shutdown :: bool
  d_lease_terminal :: "rstr option"
  d_teardown_tree :: "bool option"
  d_teardown_frozen :: bool
  d_operation :: "OperationLink option"
  d_effects :: "Effect list"

record stats_view =
  sv_attached :: nat
  sv_read_only :: nat
  sv_connections :: "(u16 \<times> u16 \<times> nat \<times> bool \<times> bool) option list"
  sv_rows :: u16
  sv_cols :: u16
  sv_exited :: bool
  sv_exit_code :: "i32 option"

text \<open>The metadata writes of one turn of the serving loop meet the registry at different moments.\<close>

datatype io_use = IoClients | IoActivity | IoExitLease | IoExit | IoLease

datatype AcceptedSocketOwnershipResult =
    Owned i32
  | NotOwned
  | OwnershipUnavailable rstr

datatype LifecycleCompareAndSetResult =
    LcChanged rstr
  | LcUnchanged rstr
  | LcValueMismatch "rstr option"
  | LcMissing
  | LcGenerationMismatch
  | LcBusy
  | LcDeadlineExpired rstr
  | LcTerminal rstr
  | LcInvalidRequest rstr

record 't env =
  e_ops :: "'t term_ops"
  e_now :: nat
  e_stamp :: rstr
  e_epoch_ms :: "64 word"
  e_io :: "io_use \<Rightarrow> mutate_io"
  e_capacity :: "bytes \<Rightarrow> nat"
  e_identity :: "bytes \<Rightarrow> AttachIdentity option"
  e_clients_json :: "AttachedClient list \<Rightarrow> bytes"
  e_stats_json :: "stats_view \<Rightarrow> 't \<Rightarrow> bytes"
  e_unavailable_json :: bytes
  e_invalid_json :: bytes
  e_monotonic_ns :: "nat option"
  e_metadata :: "SessionMetadata option"
  e_freeze_complete :: bool
  e_inspect :: "TcpConnectionTuple \<Rightarrow> AcceptedSocketOwnershipResult"
  e_child_known :: bool
  e_json_text :: "json \<Rightarrow> rstr"
  e_parse_json :: "rstr \<Rightarrow> json option"
  e_ownership_request :: "bytes \<Rightarrow> AcceptedSocketOwnershipRequest option"
  e_ownership_json :: "AcceptedSocketOwnershipResult \<Rightarrow> bytes option"
  e_lifecycle_request :: "bytes \<Rightarrow> LifecycleCompareAndSetRequest option"
  e_lifecycle_json :: "LifecycleCompareAndSetResult \<Rightarrow> bytes option"

section \<open>Access to the connections\<close>

definition effect :: "Effect \<Rightarrow> 't Daemon \<Rightarrow> 't Daemon" where
  "effect e d = d\<lparr>d_effects := d_effects d @ [e]\<rparr>"

definition update_client :: "nat \<Rightarrow> (Client \<Rightarrow> Client) \<Rightarrow> 't Daemon \<Rightarrow> 't Daemon" where
  "update_client i f d =
     (case map_of (d_clients d) i of
        Some c \<Rightarrow> d\<lparr>d_clients := bt_insert i (f c) (d_clients d)\<rparr>
      | None \<Rightarrow> d)"

definition send_to_all :: "'t env \<Rightarrow> (Client \<Rightarrow> bool) \<Rightarrow> bytes \<Rightarrow> 't Daemon \<Rightarrow> 't Daemon" where
  "send_to_all e p packet d =
     d\<lparr>d_clients := map (\<lambda>(i, c). (i, if p c then send (e_capacity e) packet c else c)) (d_clients d)\<rparr>"

definition broadcast :: "'t env \<Rightarrow> bytes \<Rightarrow> 't Daemon \<Rightarrow> 't Daemon" where
  "broadcast e packet d = send_to_all e (\<lambda>c. \<not> is_settling c) packet d"

definition send_to :: "'t env \<Rightarrow> nat \<Rightarrow> bytes \<Rightarrow> 't Daemon \<Rightarrow> 't Daemon" where
  "send_to e i packet d = update_client i (send (e_capacity e) packet) d"

definition answering_client_available :: "(nat \<times> Client) list \<Rightarrow> bool" where
  "answering_client_available clients =
     list_ex (\<lambda>(_, c). c_role c = Writable \<and> c_attached c \<noteq> None \<and> \<not> is_settling c) clients"

definition attached_clients :: "(nat \<times> Client) list \<Rightarrow> AttachedClient list" where
  "attached_clients clients = List.map_filter (\<lambda>(_, c). c_attached c) clients"

definition write_input :: "bytes \<Rightarrow> 't Daemon \<Rightarrow> 't Daemon" where
  "write_input data d =
     (if data = [] \<or> d_child_status d \<noteq> None then d else effect (WriteChild data) d)"

definition notification_source :: "rstr \<Rightarrow> NotificationSource option" where
  "notification_source name =
     (if name = ustr ''osc9'' then Some Osc9
      else if name = ustr ''osc99'' then Some Osc99
      else if name = ustr ''osc777'' then Some Osc777
      else None)"

definition logged_event :: "TerminalEvent \<Rightarrow> LoggedEvent option" where
  "logged_event ev =
     (case ev of
        Bell \<Rightarrow> Some LogBell
      | TitleChange _ \<Rightarrow> None
      | Notification title body src \<Rightarrow> Some (LogNotification title body (notification_source src))
      | FocusRequest \<Rightarrow> Some LogFocusRequest
      | CursorVisible \<Rightarrow> None
      | EnhancedPasteMode _ \<Rightarrow> None
      | EnhancedPasteRead _ \<Rightarrow> None)"

definition forward_terminal_events :: "'t env \<Rightarrow> 't Daemon \<Rightarrow> 't Daemon" where
  "forward_terminal_events e d =
     (case t_take_events (e_ops e) (d_actor d) of
        (evs, actor) \<Rightarrow>
          d\<lparr>d_actor := actor, d_effects := d_effects d @ map LogTerminalEvent (List.map_filter logged_event evs)\<rparr>)"

definition write_pty :: "bytes \<Rightarrow> 't Daemon \<Rightarrow> 't Daemon" where
  "write_pty data d = write_input data d"

end
