(* ===== verification/Daemon_Lease.thy ===== *)
theory Daemon_Lease
  imports Daemon_State
begin

text \<open>
  The startup lease in the serving loop and the readiness requests
  (\<^verbatim>\<open>crates/pty/src/daemon/lifecycle.rs\<close>): the terminal value is written into the record under the
  generation fence, a client disarms the lease by a compare-and-set of its tag, and a passed
  deadline freezes the child's tree before its cause is chosen.
\<close>

section \<open>Settling the lease\<close>

definition lease_mutate :: "rstr \<Rightarrow> rstr \<Rightarrow> unit \<Rightarrow> SessionMetadata \<Rightarrow> unit \<times> SessionMetadata \<times> bool" where
  "lease_mutate tag terminal s m =
     (if Option.bind (md_tags m) (\<lambda>t. imap_get t tag) = Some terminal then (s, m, False)
      else (s, m\<lparr>md_tags := Some (imap_insert tag terminal (case md_tags m of Some t \<Rightarrow> t | None \<Rightarrow> []))\<rparr>, True))"

definition log_write :: "mutate_result \<Rightarrow> 't Daemon \<Rightarrow> 't Daemon" where
  "log_write r d = (case mr_written r of Some w \<Rightarrow> effect (WriteRecord w) d | None \<Rightarrow> d)"

definition settle_startup_lifecycle ::
  "'t env \<Rightarrow> io_use \<Rightarrow> StartupLeaseTerminalCause \<Rightarrow> bool \<Rightarrow> 't Daemon \<Rightarrow> rstr option \<times> 't Daemon" where
  "settle_startup_lifecycle e use_io cause force d =
     (case d_startup_lease d of
        None \<Rightarrow> (None, d)
      | Some lease \<Rightarrow>
          (case d_lease_terminal d of
             Some v \<Rightarrow> (Some v, d)
           | None \<Rightarrow>
               if d_lease_disarmed d \<and> \<not> force then (None, d)
               else
                 (let terminal = terminal_startup_lease_value (e_json_text e) (d_generation d) cause;
                      r = snd (mutate_metadata_under_lock_core (e_io e use_io)
                            (lease_mutate (sl_lifecycle_tag lease) terminal)
                            \<lparr>expected_generation = Some (d_generation d), expected_metadata = None\<rparr> ());
                      d1 = log_write r d
                  in case mr_status r of
                       Changed _ \<Rightarrow> (Some terminal,
                         d1\<lparr>d_lease_disarmed := True, d_lease_timer := None, d_lease_terminal := Some terminal\<rparr>)
                     | Unchanged _ \<Rightarrow> (Some terminal,
                         d1\<lparr>d_lease_disarmed := True, d_lease_timer := None, d_lease_terminal := Some terminal\<rparr>)
                     | GenerationMismatch \<Rightarrow> (None, d1\<lparr>d_lease_disarmed := True, d_lease_timer := None\<rparr>)
                     | Busy \<Rightarrow> (None, d1)
                     | Stale \<Rightarrow> (None, d1)
                     | Missing \<Rightarrow> (None, d1))))"

definition resume_frozen_tree :: "'t Daemon \<Rightarrow> 't Daemon" where
  "resume_frozen_tree d =
     (if \<not> d_teardown_frozen d then d
      else (effect ResumeTree d)\<lparr>d_teardown_frozen := False, d_teardown_tree := None\<rparr>)"

definition freeze_child_tree :: "'t env \<Rightarrow> 't Daemon \<Rightarrow> 't Daemon" where
  "freeze_child_tree e d =
     (effect FreezeTree d)\<lparr>d_teardown_tree := Some (e_freeze_complete e), d_teardown_frozen := True\<rparr>"

definition settle_startup_deadline :: "'t env \<Rightarrow> 't Daemon \<Rightarrow> rstr option \<times> 't Daemon" where
  "settle_startup_deadline e d =
     (let d1 = (if d_teardown_tree d = None then freeze_child_tree e d else d);
          complete = (d_teardown_tree d1 = Some True);
          (settled, d2) = settle_startup_lifecycle e IoLease (startup_lease_deadline_cause complete) False d1
      in (settled, if settled = None \<and> d_lease_disarmed d2 then resume_frozen_tree d2 else d2))"

definition service_startup_lease :: "'t env \<Rightarrow> 't Daemon \<Rightarrow> 't Daemon" where
  "service_startup_lease e d =
     (case d_lease_timer d of
        None \<Rightarrow> d
      | Some t \<Rightarrow>
          if t > e_now e then d
          else if d_deadline_pending_shutdown d then
            d\<lparr>d_deadline_pending_shutdown := False, d_lease_timer := None, d_external_kill := True,
              d_shutdown_code := if d_shutdown_code d = None then Some 124 else d_shutdown_code d\<rparr>
          else if d_lease_disarmed d then d\<lparr>d_lease_timer := None\<rparr>
          else case Option.bind (d_startup_lease d) sl_deadline_monotonic_ns of
            None \<Rightarrow> d\<lparr>d_lease_timer := None\<rparr>
          | Some deadline \<Rightarrow>
              (let remaining = remaining_lease_delay (e_monotonic_ns e) deadline in
               if remaining = 0 then
                 (case settle_startup_deadline e d of
                    (Some _, d1) \<Rightarrow> d1\<lparr>d_external_kill := True, d_shutdown_code := Some 124\<rparr>
                  | (None, d1) \<Rightarrow> d1\<lparr>d_lease_timer := Some (e_now e + 10)\<rparr>)
               else d\<lparr>d_lease_timer := Some (e_now e + remaining)\<rparr>))"

section \<open>Readiness requests\<close>

definition lease_expired :: "'t env \<Rightarrow> 't Daemon \<Rightarrow> bool" where
  "lease_expired e d =
     (case d_startup_lease d of
        None \<Rightarrow> False
      | Some lease \<Rightarrow>
          \<not> d_lease_disarmed d
          \<and> (case sl_deadline_monotonic_ns lease of
               None \<Rightarrow> False
             | Some deadline \<Rightarrow> (case e_monotonic_ns e of None \<Rightarrow> True | Some now \<Rightarrow> deadline \<le> now)))"

text \<open>The value a client wrote is the generation's terminal value.\<close>

definition names_terminal :: "'t env \<Rightarrow> rstr \<Rightarrow> rstr \<Rightarrow> bool" where
  "names_terminal e generation v =
     (case e_parse_json e v of
        Some (JObject m) \<Rightarrow>
          imap_get m (ustr ''_tag'') = Some (JString (ustr ''terminal''))
          \<and> imap_get m (ustr ''generation'') = Some (JString generation)
      | _ \<Rightarrow> False)"

definition after_lifecycle_cas :: "'t env \<Rightarrow> LifecycleCompareAndSetRequest \<Rightarrow> 't Daemon \<Rightarrow> 't Daemon" where
  "after_lifecycle_cas e req d =
     (let d1 = (case d_startup_lease d of
                  Some lease \<Rightarrow>
                    if cas_tag req = sl_lifecycle_tag lease \<and> cas_expected_value req = sl_starting_value lease
                       \<and> cas_value req \<noteq> sl_starting_value lease
                    then d\<lparr>d_lease_disarmed := True, d_lease_timer := None\<rparr> else d
                | None \<Rightarrow> d)
      in if cas_tag req = (case d_startup_lease d of Some lease \<Rightarrow> sl_lifecycle_tag lease | None \<Rightarrow> [])
            \<and> names_terminal e (d_generation d) (cas_value req)
         then d1\<lparr>d_lease_terminal := Some (cas_value req)\<rparr> else d1)"

definition expired_lifecycle :: "'t env \<Rightarrow> 't Daemon \<Rightarrow> LifecycleCompareAndSetResult \<times> 't Daemon" where
  "expired_lifecycle e d =
     (case settle_startup_deadline e d of
        (None, d1) \<Rightarrow> (LcBusy, d1)
      | (Some _, d1) \<Rightarrow>
          (LcDeadlineExpired (case d_lease_terminal d1 of Some v \<Rightarrow> v | None \<Rightarrow> []),
           d1\<lparr>d_deadline_pending_shutdown := True, d_lease_timer := Some (e_now e + 25)\<rparr>))"

text \<open>
  The compare-and-set panics on an empty tag. A decoded request has none
  (\<open>validate_lifecycle_cas\<close>), so that arm is not reached from \<open>on_lifecycle_cas\<close>.
\<close>

definition compare_and_set_lifecycle ::
  "'t env \<Rightarrow> LifecycleCompareAndSetRequest \<Rightarrow> 't Daemon \<Rightarrow> LifecycleCompareAndSetResult \<times> 't Daemon" where
  "compare_and_set_lifecycle e req d =
     (if cas_expected_generation req \<noteq> d_generation d then (LcGenerationMismatch, d)
      else case e_metadata e of
        None \<Rightarrow> (LcMissing, d)
      | Some current \<Rightarrow>
          if md_generation current \<noteq> Some (d_generation d) then (LcGenerationMismatch, d)
          else if d_exited d then
            (case settle_startup_lifecycle e IoLease CauseExit True d of
               (Some v, d1) \<Rightarrow> (LcTerminal v, d1)
             | (None, d1) \<Rightarrow>
                 (LcTerminal (terminal_startup_lease_value (e_json_text e) (d_generation d) CauseExit), d1))
          else if lease_expired e d then expired_lifecycle e d
          else
            (case compare_and_set_tag_value (e_io e IoLease) (cas_expected_generation req) (cas_tag req)
                    (cas_expected_value req) (cas_value req) of
               None \<Rightarrow> (LcInvalidRequest [], d)
             | Some (result, written) \<Rightarrow>
                 (let d1 = (case written of Some w \<Rightarrow> effect (WriteRecord w) d | None \<Rightarrow> d) in
                  case result of
                    CasChanged v \<Rightarrow> (LcChanged v, after_lifecycle_cas e req d1)
                  | CasUnchanged v \<Rightarrow> (LcUnchanged v, after_lifecycle_cas e req d1)
                  | CasValueMismatch v \<Rightarrow> (LcValueMismatch v, d1)
                  | CasMissing \<Rightarrow> (LcMissing, d1)
                  | CasGenerationMismatch \<Rightarrow> (LcGenerationMismatch, d1)
                  | CasBusy \<Rightarrow> (LcBusy, d1)
                  | CasStale \<Rightarrow> (LcBusy, d1))))"

definition on_lifecycle_cas :: "'t env \<Rightarrow> nat \<Rightarrow> bytes \<Rightarrow> 't Daemon \<Rightarrow> 't Daemon" where
  "on_lifecycle_cas e i pl d =
     (case (case decode_lifecycle_compare_and_set_request (e_lifecycle_request e) pl of
              Some req \<Rightarrow> compare_and_set_lifecycle e req d
            | None \<Rightarrow> (LcInvalidRequest (ustr ''invalid request payload''), d)) of
        (result, d1) \<Rightarrow> send_to e i (encode_json (e_lifecycle_json e) LifecycleCas result) d1)"

definition on_accepted_socket_ownership :: "'t env \<Rightarrow> nat \<Rightarrow> bytes \<Rightarrow> 't Daemon \<Rightarrow> 't Daemon" where
  "on_accepted_socket_ownership e i pl d =
     (let unavailable = (\<lambda>reason. OwnershipUnavailable (ustr reason));
          result =
            (case decode_accepted_socket_ownership_request (e_ownership_request e) pl of
               None \<Rightarrow> unavailable ''invalid-request''
             | Some req \<Rightarrow>
                 if aso_expected_generation req \<noteq> d_generation d then unavailable ''generation-mismatch''
                 else if d_exited d then unavailable ''child-exited''
                 else case e_metadata e of
                   None \<Rightarrow> unavailable ''metadata-unavailable''
                 | Some metadata \<Rightarrow>
                     if md_generation metadata \<noteq> Some (d_generation d) then unavailable ''generation-mismatch''
                     else if \<not> e_child_known e then unavailable ''process-identity-unavailable''
                     else e_inspect e (connection req))
      in send_to e i (encode_json (e_ownership_json e) AcceptedSocketOwnership result) d)"

lemma decoded_request_has_tag:
  "decode_lifecycle_compare_and_set_request f pl = Some req \<Longrightarrow>
     compare_and_set_tag_value io g (cas_tag req) x y \<noteq> None"
  by (auto simp: decode_lifecycle_compare_and_set_request_def validate_lifecycle_cas_def
      compare_and_set_tag_value_def split: option.splits if_splits prod.splits)

end
