(* ===== verification/Daemon_Clients.thy ===== *)
theory Daemon_Clients
  imports Daemon_Lease
begin

text \<open>
  The daemon's connections and the session's size: the packet handlers of
  \<^verbatim>\<open>crates/pty/src/daemon/clients.rs\<close>, the negotiation of \<^verbatim>\<open>geometry.rs\<close>, the counts of \<^verbatim>\<open>status.rs\<close>, and of
  \<^verbatim>\<open>lifecycle.rs\<close> the messages that touch them.
\<close>

section \<open>Geometry\<close>

definition broadcast_geometry :: "'t env \<Rightarrow> u16 \<Rightarrow> u16 \<Rightarrow> 't Daemon \<Rightarrow> 't Daemon" where
  "broadcast_geometry e rows cols d = send_to_all e gets_geometry (encode_geometry rows cols) d"

definition pixels :: "u16 \<Rightarrow> nat \<Rightarrow> nat" where
  "pixels cells extent = min (min (unat cells * extent) (2 ^ 32 - 1)) 65535"

definition resize_pty :: "'t env \<Rightarrow> u16 \<Rightarrow> u16 \<Rightarrow> 't Daemon \<Rightarrow> 't Daemon" where
  "resize_pty e rows cols d =
     (case t_cell (e_ops e) (d_actor d) of
        (w, h) \<Rightarrow> effect (ResizePty rows cols (pixels cols w) (pixels rows h)) d)"

definition smallest_size :: "Client list \<Rightarrow> u16 \<times> u16" where
  "smallest_size cs =
     fold (\<lambda>c (rows, cols).
        (if rows = 0 then c_rows c else min rows (c_rows c),
         if cols = 0 then c_cols c else min cols (c_cols c))) cs (0, 0)"

definition too_large :: "u16 \<Rightarrow> u16 \<Rightarrow> bool" where
  "too_large rows cols \<longleftrightarrow> rows > 4096 \<or> cols > 4096 \<or> unat rows * unat cols > 250000"

definition constraining :: "'t Daemon \<Rightarrow> Client list" where
  "constraining d = filter constrains_size (map snd (d_clients d))"

definition negotiate_size :: "'t env \<Rightarrow> 't Daemon \<Rightarrow> bool \<times> 't Daemon" where
  "negotiate_size e d =
     (case smallest_size (constraining d) of
        (rows, cols) \<Rightarrow>
          if rows = 0 \<or> cols = 0 then (False, d)
          else if too_large rows cols then (False, d)
          else if rows = t_rows (e_ops e) (d_actor d) \<and> cols = t_cols (e_ops e) (d_actor d) then (False, d)
          else
            (let d1 = d\<lparr>d_actor := t_resize (e_ops e) cols rows (d_actor d)\<rparr>;
                 d2 = broadcast_geometry e rows cols d1;
                 d3 = resize_pty e rows cols d2
             in case t_take_replies (e_ops e) (d_actor d3) of
                  (replies, actor) \<Rightarrow>
                    (True, (write_pty replies (d3\<lparr>d_actor := actor\<rparr>))\<lparr>d_last_resize := Some (e_now e)\<rparr>)))"

definition nudge_redraw :: "'t env \<Rightarrow> 't Daemon \<Rightarrow> 't Daemon" where
  "nudge_redraw e d =
     (let cols = t_cols (e_ops e) (d_actor d); rows = t_rows (e_ops e) (d_actor d) in
      if cols < 2 then d
      else
        (let d1 = resize_pty e rows (cols - 1) d;
             d2 = d1\<lparr>d_actor := t_resize (e_ops e) (cols - 1) rows (d_actor d1)\<rparr>;
             d3 = resize_pty e rows cols d2
         in d3\<lparr>d_actor := t_resize (e_ops e) cols rows (d_actor d3)\<rparr>))"

section \<open>The client facts in the record\<close>

definition client_facts :: "'t env \<Rightarrow> 't Daemon \<Rightarrow> ClientFacts" where
  "client_facts e d =
     \<lparr>cf_rows = t_rows (e_ops e) (d_actor d), cf_cols = t_cols (e_ops e) (d_actor d),
      cf_writable = map (\<lambda>(i, c). (i, c_rows c, c_cols c))
                      (filter (\<lambda>(i, c). constrains_size c) (d_clients d))\<rparr>"

definition client_mutate ::
  "rstr option \<Rightarrow> nat \<Rightarrow> unit \<Rightarrow> SessionMetadata \<Rightarrow> unit \<times> SessionMetadata \<times> bool" where
  "client_mutate attach_stamp gen s m =
     (let (m1, changed1) =
        (case attach_stamp of Some stamp \<Rightarrow> (m\<lparr>md_last_attach_at := Some stamp\<rparr>, True) | None \<Rightarrow> (m, False));
          (m2, changed2) =
        (if md_client_generation m1 \<noteq> Some (of_nat gen)
         then (m1\<lparr>md_client_generation := Some (of_nat gen)\<rparr>, True) else (m1, changed1))
      in (s, m2, changed2))"

definition CLIENT_METADATA_RETRY :: nat where
  "CLIENT_METADATA_RETRY = 2000"

definition write_client_generation :: "'t env \<Rightarrow> 't Daemon \<Rightarrow> 't Daemon" where
  "write_client_generation e d =
     (case mutate_metadata_under_lock_core (e_io e IoClients)
             (client_mutate (d_pending_attach_at d) (d_client_generation d))
             \<lparr>expected_generation = Some (d_generation d), expected_metadata = None\<rparr> () of
        (_, r) \<Rightarrow>
          (let d1 = (case mr_written r of Some w \<Rightarrow> effect (WriteRecord w) d | None \<Rightarrow> d) in
           if mr_status r = Busy \<or> mr_status r = Stale then
             (let deadline = (case d_client_meta_retry d of
                                Some (_, dl) \<Rightarrow> dl
                              | None \<Rightarrow> e_now e + CLIENT_METADATA_RETRY)
              in d1\<lparr>d_client_meta_retry :=
                      if e_now e < deadline then Some (e_now e + 10, deadline) else None\<rparr>)
           else d1\<lparr>d_pending_attach_at := None, d_client_meta_retry := None\<rparr>))"

definition note_client_change :: "'t env \<Rightarrow> rstr option \<Rightarrow> 't Daemon \<Rightarrow> 't Daemon" where
  "note_client_change e stamp d =
     (let facts = client_facts e d in
      if stamp = None \<and> facts = d_published_client_facts d then d
      else
        write_client_generation e
          (d\<lparr>d_published_client_facts := facts,
             d_client_generation := d_client_generation d + 1,
             d_pending_attach_at := if stamp \<noteq> None then stamp else d_pending_attach_at d,
             d_client_meta_retry := None\<rparr>))"

section \<open>Cuts\<close>

definition screen_of :: "'t env \<Rightarrow> CutKind \<Rightarrow> 't \<Rightarrow> bytes" where
  "screen_of e kind actor =
     t_screen (e_ops e)
       (case kind of
          CutAttach _ \<Rightarrow> SerializeAttach
        | CutPeek plain full \<Rightarrow>
            if plain then (if full then PlainFull else PlainViewport)
            else (if full then SerializePeekFull else SerializePeek))
       actor"

definition cut :: "'t env \<Rightarrow> nat \<Rightarrow> 't Daemon \<Rightarrow> 't Daemon" where
  "cut e i d =
     (case map_of (d_clients d) i of
        None \<Rightarrow> d
      | Some c \<Rightarrow>
          (case c_phase c of
             Live \<Rightarrow> d
           | Settling _ generation kind \<Rightarrow>
               if generation \<noteq> c_generation c then d
               else
                 (let d1 = update_client i (\<lambda>c.
                        let c1 = (send (e_capacity e) (encode_screen (screen_of e kind (d_actor d))) c)
                                   \<lparr>c_phase := Live\<rparr>
                        in if d_exited d then send (e_capacity e) (encode_exit (d_exit_code d)) c1 else c1) d
                  in if (case kind of CutAttach size_matched \<Rightarrow> \<not> size_matched | _ \<Rightarrow> False)
                        \<and> \<not> d_exited d
                        \<and> (case d_last_resize d of Some t0 \<Rightarrow> e_now e - t0 < d_settle d | None \<Rightarrow> False)
                     then nudge_redraw e d1 else d1)))"

definition schedule_cut :: "'t env \<Rightarrow> nat \<Rightarrow> nat \<Rightarrow> CutKind \<Rightarrow> nat option \<Rightarrow> 't Daemon \<Rightarrow> 't Daemon" where
  "schedule_cut e i generation kind delay d =
     (let deadline = e_now e + (case delay of Some t \<Rightarrow> t | None \<Rightarrow> 0);
          d1 = update_client i (\<lambda>c. c\<lparr>c_phase := Settling deadline generation kind\<rparr>) d
      in if delay = None then cut e i d1 else d1)"

definition due_cuts :: "nat \<Rightarrow> (nat \<times> Client) list \<Rightarrow> nat list" where
  "due_cuts now clients =
     List.map_filter (\<lambda>(i, c). case c_phase c of
        Settling deadline _ _ \<Rightarrow> if deadline \<le> now then Some i else None
      | Live \<Rightarrow> None) clients"

definition service_cuts :: "'t env \<Rightarrow> 't Daemon \<Rightarrow> 't Daemon" where
  "service_cuts e d = fold (cut e) (due_cuts (e_now e) (d_clients d)) d"

definition next_cut_deadline :: "'t Daemon \<Rightarrow> nat option" where
  "next_cut_deadline d =
     (case List.map_filter (\<lambda>(i, c). case c_phase c of Settling deadline _ _ \<Rightarrow> Some deadline | Live \<Rightarrow> None)
             (d_clients d) of
        [] \<Rightarrow> None
      | t # ts \<Rightarrow> Some (fold min ts t))"

section \<open>Packet handlers\<close>

definition adopt_cell_size :: "'t env \<Rightarrow> bytes \<Rightarrow> 't Daemon \<Rightarrow> bool \<times> 't Daemon" where
  "adopt_cell_size e pl d =
     (case decode_cell pl of
        Some (width, height) \<Rightarrow>
          (let cell = (unat width, unat height) in
           if t_cell (e_ops e) (d_actor d) \<noteq> cell
           then (True, d\<lparr>d_actor := t_set_cell (e_ops e) cell (d_actor d)\<rparr>)
           else (False, d))
      | None \<Rightarrow> (False, d))"

definition actor_geometry :: "'t env \<Rightarrow> 't Daemon \<Rightarrow> bytes" where
  "actor_geometry e d = encode_geometry (t_rows (e_ops e) (d_actor d)) (t_cols (e_ops e) (d_actor d))"

definition attach_delay :: "'t env \<Rightarrow> bool \<Rightarrow> 't Daemon \<Rightarrow> nat option" where
  "attach_delay e resized d =
     (if d_exited d then None
      else if resized then Some (d_settle d)
      else (case d_last_resize d of
              Some t0 \<Rightarrow> if e_now e - t0 < d_settle d then Some (d_settle d - (e_now e - t0)) else None
            | None \<Rightarrow> None))"

definition attach_client :: "'t env \<Rightarrow> bytes \<Rightarrow> u16 \<Rightarrow> u16 \<Rightarrow> nat \<Rightarrow> nat \<Rightarrow> Client \<Rightarrow> Client" where
  "attach_client e pl rows cols seq generation c =
     c\<lparr>c_role := Writable, c_rows := rows, c_cols := cols, c_attach_seq := seq, c_generation := generation,
       c_attached := Some (case decode_attach_identity (e_identity e) pl of
                             (p, t) \<Rightarrow> \<lparr>pid = p, tty = t, attached_at = e_stamp e\<rparr>)\<rparr>"

definition finish_attach :: "'t env \<Rightarrow> nat \<Rightarrow> nat \<Rightarrow> bool \<Rightarrow> bool \<Rightarrow> 't Daemon \<Rightarrow> 't Daemon" where
  "finish_attach e i generation size_matched cell_changed d2 =
     (let (resized, d3) = negotiate_size e d2;
          d4 = (if cell_changed \<and> \<not> resized
                then resize_pty e (t_rows (e_ops e) (d_actor d3)) (t_cols (e_ops e) (d_actor d3)) d3
                else d3);
          d5 = (if \<not> resized then send_to e i (actor_geometry e d4) d4 else d4);
          d6 = note_client_change e (Some (e_stamp e)) d5
      in schedule_cut e i generation (CutAttach size_matched) (attach_delay e resized d6) d6)"

definition on_attach :: "'t env \<Rightarrow> nat \<Rightarrow> bytes \<Rightarrow> 't Daemon \<Rightarrow> 't Daemon" where
  "on_attach e i pl d0 =
     (if length pl < 4 then d0
      else (case map_of (d_clients d0) i of
        None \<Rightarrow> d0
      | Some c \<Rightarrow>
          (let (rows, cols) = decode_size pl;
               (cell_changed, d1) = adopt_cell_size e pl d0;
               size_matched = (rows = t_rows (e_ops e) (d_actor d1) \<and> cols = t_cols (e_ops e) (d_actor d1));
               seq = d_attach_counter d1 + 1;
               generation = c_generation c + 1
           in finish_attach e i generation size_matched cell_changed
                (update_client i (attach_client e pl rows cols seq generation)
                  (d1\<lparr>d_attach_counter := seq\<rparr>)))))"

definition on_history :: "'t env \<Rightarrow> nat \<Rightarrow> bytes \<Rightarrow> 't Daemon \<Rightarrow> 't Daemon" where
  "on_history e i pl d =
     (if map_of (d_clients d) i = None then d
      else
        (let response =
           (if d_exited d then e_unavailable_json e
            else if length pl > 1024 then e_invalid_json e
            else (case t_history (e_ops e) (d_generation d) pl (d_actor d) of
                    Some r \<Rightarrow> r
                  | None \<Rightarrow> e_invalid_json e))
         in send_to e i (encode_packet History response) d))"

definition finish_peek :: "'t env \<Rightarrow> nat \<Rightarrow> nat \<Rightarrow> bool \<Rightarrow> bytes \<Rightarrow> 't Daemon \<Rightarrow> 't Daemon" where
  "finish_peek e i generation was_writable pl d1 =
     (let (resized, d2) = negotiate_size e d1;
          d3 = (if \<not> resized then send_to e i (actor_geometry e d2) d2 else d2);
          d4 = (if was_writable then note_client_change e None d3 else d3);
          (plain, full) = decode_peek pl
      in schedule_cut e i generation (CutPeek plain full) None d4)"

definition on_peek :: "'t env \<Rightarrow> nat \<Rightarrow> bytes \<Rightarrow> 't Daemon \<Rightarrow> 't Daemon" where
  "on_peek e i pl d =
     (case map_of (d_clients d) i of
        None \<Rightarrow> d
      | Some c \<Rightarrow>
          (let generation = c_generation c + 1 in
           finish_peek e i generation (constrains_size c) pl
             (update_client i (\<lambda>c. c\<lparr>c_role := Readonly, c_generation := generation\<rparr>) d)))"

definition on_data :: "nat \<Rightarrow> bytes \<Rightarrow> 't Daemon \<Rightarrow> 't Daemon" where
  "on_data i pl d =
     (case map_of (d_clients d) i of
        None \<Rightarrow> d
      | Some c \<Rightarrow> if \<not> d_exited d \<and> c_role c \<noteq> Readonly then write_input pl d else d)"

definition finish_resize :: "'t env \<Rightarrow> bytes \<Rightarrow> 't Daemon \<Rightarrow> 't Daemon" where
  "finish_resize e pl d1 =
     (let (cell_changed, d2) = adopt_cell_size e pl d1;
          (resized, d3) = negotiate_size e d2;
          d4 = (if cell_changed \<and> \<not> resized
                then resize_pty e (t_rows (e_ops e) (d_actor d3)) (t_cols (e_ops e) (d_actor d3)) d3
                else d3)
      in note_client_change e None d4)"

definition on_resize :: "'t env \<Rightarrow> nat \<Rightarrow> bytes \<Rightarrow> 't Daemon \<Rightarrow> 't Daemon" where
  "on_resize e i pl d =
     (case map_of (d_clients d) i of
        None \<Rightarrow> d
      | Some c \<Rightarrow>
          if c_role c \<noteq> Writable \<or> c_attach_seq c = 0 \<or> length pl < 4 then d
          else
            (let (rows, cols) = decode_size pl; seq = d_attach_counter d + 1
             in finish_resize e pl
                  (update_client i (\<lambda>c. c\<lparr>c_rows := rows, c_cols := cols, c_attach_seq := seq\<rparr>)
                    (d\<lparr>d_attach_counter := seq\<rparr>))))"

definition on_closed :: "'t env \<Rightarrow> nat \<Rightarrow> 't Daemon \<Rightarrow> 't Daemon" where
  "on_closed e i d =
     (case map_of (d_clients d) i of
        None \<Rightarrow> d
      | Some c \<Rightarrow>
          (let d1 = snd (negotiate_size e (d\<lparr>d_clients := bt_remove i (d_clients d)\<rparr>))
           in if constrains_size c then note_client_change e None d1 else d1))"

definition on_detach :: "'t env \<Rightarrow> nat \<Rightarrow> 't Daemon \<Rightarrow> 't Daemon" where
  "on_detach e i d = on_closed e i (update_client i (send_out OutEnd) d)"

definition collect_stats :: "'t env \<Rightarrow> 't Daemon \<Rightarrow> stats_view" where
  "collect_stats e d =
     (let term_rows = t_rows (e_ops e) (d_actor d); term_cols = t_cols (e_ops e) (d_actor d);
          cs = map snd (d_clients d)
      in \<lparr>sv_attached = length (filter (\<lambda>c. c_role c = Writable \<and> c_attach_seq c > 0) cs),
          sv_read_only = length (filter (\<lambda>c. c_role c = Readonly) cs),
          sv_connections =
            List.map_filter (\<lambda>c. case c_role c of
                Readonly \<Rightarrow> Some None
              | Writable \<Rightarrow>
                  if c_attach_seq c > 0
                  then Some (Some (c_rows c, c_cols c, c_attach_seq c,
                                   c_rows c = term_rows, c_cols c = term_cols))
                  else None
              | Command \<Rightarrow> None) cs,
          sv_rows = term_rows, sv_cols = term_cols, sv_exited = d_exited d,
          sv_exit_code = if d_exited d then Some (d_exit_code d) else None\<rparr>)"

definition on_status :: "'t env \<Rightarrow> nat \<Rightarrow> bytes \<Rightarrow> 't Daemon \<Rightarrow> 't Daemon" where
  "on_status e i pl d =
     (let json = (if pl = bstr ''clients'' then e_clients_json e (attached_clients (d_clients d))
                  else e_stats_json e (collect_stats e d) (d_actor d))
      in send_to e i (encode_status_response json) d)"

definition on_reset_input_modes :: "'t env \<Rightarrow> nat \<Rightarrow> bytes \<Rightarrow> 't Daemon \<Rightarrow> 't Daemon" where
  "on_reset_input_modes e i pl d =
     (case map_of (d_clients d) i of
        Some c \<Rightarrow>
          if pl = [] \<and> c_role c = Writable then
            (case t_reset_input (e_ops e) (d_actor d) of
               (output, actor) \<Rightarrow> broadcast e (encode_data output) (d\<lparr>d_actor := actor\<rparr>))
          else d
      | None \<Rightarrow> d)"

definition on_packet :: "'t env \<Rightarrow> nat \<Rightarrow> Packet \<Rightarrow> 't Daemon \<Rightarrow> 't Daemon" where
  "on_packet e i p d =
     (case ptype p of
        Attach \<Rightarrow> on_attach e i (payload p) d
      | Peek \<Rightarrow> on_peek e i (payload p) d
      | History \<Rightarrow> on_history e i (payload p) d
      | Data \<Rightarrow> on_data i (payload p) d
      | Resize \<Rightarrow> on_resize e i (payload p) d
      | Detach \<Rightarrow> on_detach e i d
      | Status \<Rightarrow> on_status e i (payload p) d
      | ResetInputModes \<Rightarrow> on_reset_input_modes e i (payload p) d
      | AcceptedSocketOwnership \<Rightarrow> on_accepted_socket_ownership e i (payload p) d
      | LifecycleCas \<Rightarrow> on_lifecycle_cas e i (payload p) d
      | _ \<Rightarrow> d)"

section \<open>Messages of the serving loop\<close>

definition on_connect :: "'t env \<Rightarrow> nat \<Rightarrow> 't Daemon \<Rightarrow> 't Daemon" where
  "on_connect e i d =
     d\<lparr>d_clients := bt_insert i (new_client (t_rows (e_ops e) (d_actor d)) (t_cols (e_ops e) (d_actor d)))
                      (d_clients d)\<rparr>"

definition ACTIVITY_PERSIST_DEBOUNCE :: nat where
  "ACTIVITY_PERSIST_DEBOUNCE = 1000"

definition stamp_output_activity :: "'t env \<Rightarrow> 't Daemon \<Rightarrow> 't Daemon" where
  "stamp_output_activity e d =
     d\<lparr>d_last_output_at_ms := Some (e_epoch_ms e),
       d_activity_persist_at :=
         (case d_activity_persist_at d of
            None \<Rightarrow> Some (e_now e + ACTIVITY_PERSIST_DEBOUNCE)
          | Some t \<Rightarrow> Some t)\<rparr>"

definition on_pty_data :: "'t env \<Rightarrow> bytes \<Rightarrow> 't Daemon \<Rightarrow> 't Daemon" where
  "on_pty_data e data d0 =
     (let d = stamp_output_activity e d0;
          actor0 = t_answering (e_ops e) (answering_client_available (d_clients d)) (d_actor d);
          (cleaned, actor1) = t_write (e_ops e) data actor0;
          (replies, actor2) = t_take_replies (e_ops e) actor1;
          d1 = write_pty replies (d\<lparr>d_actor := actor2\<rparr>);
          d2 = forward_terminal_events e d1
      in if cleaned \<noteq> [] then broadcast e (encode_data cleaned) d2 else d2)"

end
