(* ===== verification/Daemon_Laws.thy ===== *)
theory Daemon_Laws
  imports Daemon_Clients
begin

text \<open>
  How the handlers of \<^verbatim>\<open>Daemon_Clients\<close> act on the connections. \<open>book\<close> is a connection without its queue;
  most operations of a handler only send, so they leave every book alone. The invariant is
  stated on the books and on the queues separately and shown for every message of the serving
  loop, in any order.
\<close>

section \<open>Books\<close>

definition book :: "Client \<Rightarrow> Client" where
  "book c = c\<lparr>c_queue := [], c_pending := 0, c_rejected := False, c_writer_gone := False,
     c_frame_locked := False, c_shut := False, c_notice := None\<rparr>"

definition books :: "'t Daemon \<Rightarrow> (nat \<times> Client) list" where
  "books d = map (\<lambda>(i, c). (i, book c)) (d_clients d)"

lemma book_fields [simp]:
  "c_role (book c) = c_role c" "c_rows (book c) = c_rows c" "c_cols (book c) = c_cols c"
  "c_attach_seq (book c) = c_attach_seq c" "c_generation (book c) = c_generation c"
  "c_phase (book c) = c_phase c" "c_attached (book c) = c_attached c"
  by (simp_all add: book_def)

lemma book_send_out [simp]: "book (send_out out c) = book c"
  by (simp add: book_def send_out_def)

lemma book_reject [simp]: "book (reject_slow_client c) = book c"
  by (simp add: book_def reject_slow_client_def)

lemma book_send [simp]: "book (send capacity data c) = book c"
proof -
  have "book (c\<lparr>c_pending := n\<rparr>) = book c" for n by (simp add: book_def)
  then show ?thesis by (simp add: send_def Let_def)
qed

lemma book_writer [simp]: "book (writer_done c) = book c" "book (writer_ends c) = book c"
  by (simp_all add: book_def writer_done_def writer_ends_def split: list.split)

lemma send_fields [simp]:
  "c_role (send capacity data c) = c_role c" "c_rows (send capacity data c) = c_rows c"
  "c_cols (send capacity data c) = c_cols c" "c_attach_seq (send capacity data c) = c_attach_seq c"
  "c_generation (send capacity data c) = c_generation c" "c_phase (send capacity data c) = c_phase c"
  "c_attached (send capacity data c) = c_attached c"
  using book_fields [of "send capacity data c"] by simp_all

lemma books_get: "map_of (books d) i = map_option book (map_of (d_clients d) i)"
  by (simp add: books_def bt_map_get [where f = "\<lambda>_. book"])

lemma books_ok [simp]: "bt_ok (books d) \<longleftrightarrow> bt_ok (d_clients d)"
  by (simp add: books_def bt_map_ok [where f = "\<lambda>_. book"])

lemma bt_insert_map:
  "map (\<lambda>(i, c). (i, f c)) (bt_insert k v m) = bt_insert k (f v) (map (\<lambda>(i, c). (i, f c)) m)"
  by (induction k v m rule: bt_insert.induct) auto

lemma bt_insert_same: "bt_ok m \<Longrightarrow> map_of m k = Some v \<Longrightarrow> bt_insert k v m = m"
proof (induction k v m rule: bt_insert.induct)
  case (2 k v j w m)
  have "k \<notin> set (map fst m)" if "k < j" using 2(2) that by (auto simp: bt_ok_def)
  then show ?case using 2 by (auto simp: bt_ok_def map_of_eq_None_iff [symmetric] split: if_splits)
qed simp

lemma books_update:
  "books (update_client i f d) =
     (case map_of (d_clients d) i of Some c \<Rightarrow> bt_insert i (book (f c)) (books d) | None \<Rightarrow> books d)"
  by (simp add: update_client_def books_def bt_insert_map split: option.split)

lemma books_update_same:
  assumes "bt_ok (d_clients d)" and "\<And>c. book (f c) = book c"
  shows "books (update_client i f d) = books d"
  using assms bt_insert_same [of "books d" i]
  by (auto simp: books_update books_get split: option.split)

section \<open>What leaves the books alone\<close>

definition same_books :: "'t Daemon \<Rightarrow> 't Daemon \<Rightarrow> bool" where
  "same_books d d' \<longleftrightarrow> books d' = books d \<and> d_attach_counter d' = d_attach_counter d
     \<and> (bt_ok (d_clients d) \<longrightarrow> bt_ok (d_clients d'))
     \<and> ((\<forall>e \<in> set (d_clients d). queue_inv (snd e)) \<longrightarrow> (\<forall>e \<in> set (d_clients d'). queue_inv (snd e)))"

lemma same_books_refl [simp]: "same_books d d"
  by (simp add: same_books_def)

lemma same_books_trans: "same_books d d' \<Longrightarrow> same_books d' d'' \<Longrightarrow> same_books d d''"
  unfolding same_books_def by (elim conjE, intro conjI; (erule (1) trans | blast))

lemma same_books_fields:
  "d_clients d' = d_clients d \<Longrightarrow> d_attach_counter d' = d_attach_counter d \<Longrightarrow> same_books d d'"
  by (simp add: same_books_def books_def)

lemma same_books_send_to_all: "same_books d (send_to_all e p packet d)"
proof -
  let ?f = "\<lambda>i c. if p c then send (e_capacity e) packet c else c"
  have m: "d_clients (send_to_all e p packet d) = map (\<lambda>(i, c). (i, ?f i c)) (d_clients d)"
    by (simp add: send_to_all_def)
  have "books (send_to_all e p packet d) = books d"
    unfolding books_def m by (auto simp: o_def)
  moreover have "bt_ok (d_clients (send_to_all e p packet d)) \<longleftrightarrow> bt_ok (d_clients d)"
    unfolding m by (rule bt_map_ok [of ?f])
  moreover have "\<forall>x \<in> set (d_clients (send_to_all e p packet d)). queue_inv (snd x)"
    if "\<forall>x \<in> set (d_clients d). queue_inv (snd x)"
    using that unfolding m by (auto intro!: send_queue_inv simp: Ball_def)
  moreover have "d_attach_counter (send_to_all e p packet d) = d_attach_counter d"
    by (simp add: send_to_all_def)
  ultimately show ?thesis unfolding same_books_def by blast
qed

lemma same_books_effect: "same_books d (effect x d)"
  by (rule same_books_fields) (simp_all add: effect_def)

lemma same_books_write_input: "same_books d (write_input data d)"
  by (simp add: write_input_def same_books_effect)

lemma same_books_forward: "same_books d (forward_terminal_events e d)"
  by (rule same_books_fields) (simp_all add: forward_terminal_events_def split: prod.split)

lemma same_books_stamp: "same_books d (stamp_output_activity e d)"
  by (rule same_books_fields) (simp_all add: stamp_output_activity_def)

lemma same_books_resize_pty: "same_books d (resize_pty e rows cols d)"
  by (simp add: resize_pty_def same_books_effect split: prod.split)

lemma same_books_actor: "same_books d d' \<Longrightarrow> same_books d (d'\<lparr>d_actor := a\<rparr>)"
  by (simp add: same_books_def books_def)

lemma same_books_last_resize: "same_books d d' \<Longrightarrow> same_books d (d'\<lparr>d_last_resize := a\<rparr>)"
  by (simp add: same_books_def books_def)

lemmas same_books_after =
  same_books_trans [OF _ same_books_send_to_all] same_books_trans [OF _ same_books_effect]
  same_books_trans [OF _ same_books_write_input] same_books_trans [OF _ same_books_resize_pty]
  same_books_trans [OF _ same_books_forward] same_books_trans [OF _ same_books_stamp]
  same_books_actor same_books_last_resize same_books_refl

lemma same_books_negotiate: "same_books d (snd (negotiate_size e d))"
  unfolding negotiate_size_def write_pty_def broadcast_geometry_def Let_def
  by (simp split: prod.split) (intro allI impI same_books_after)

lemma same_books_nudge: "same_books d (nudge_redraw e d)"
  unfolding nudge_redraw_def Let_def by (simp, intro impI same_books_after)

lemma same_books_write_generation: "same_books d (write_client_generation e d)"
  unfolding write_client_generation_def Let_def
  by (rule same_books_fields) (auto simp: effect_def split: prod.split option.split)

lemma same_books_note: "same_books d (note_client_change e stamp d)"
  unfolding note_client_change_def Let_def
  by (auto intro!: same_books_trans [OF _ same_books_write_generation] same_books_fields)

lemma same_books_update:
  assumes "bt_ok (d_clients d)" and "\<And>c. book (f c) = book c" and "\<And>c. queue_inv c \<Longrightarrow> queue_inv (f c)"
  shows "same_books d (update_client i f d)"
proof -
  have "books (update_client i f d) = books d" by (rule books_update_same [OF assms(1,2)])
  moreover have "bt_ok (d_clients (update_client i f d))"
    using assms(1) by (simp add: update_client_def bt_insert_ok split: option.split)
  moreover have "\<forall>x \<in> set (d_clients (update_client i f d)). queue_inv (snd x)"
    if q: "\<forall>x \<in> set (d_clients d). queue_inv (snd x)"
  proof (cases "map_of (d_clients d) i")
    case (Some c)
    then have "queue_inv (f c)" using q map_of_SomeD [OF Some] assms(3) [of c] by force
    then show ?thesis using Some q assms(1) by (auto simp: update_client_def bt_insert_set)
  qed (use q in \<open>simp add: update_client_def\<close>)
  ultimately show ?thesis by (auto simp: same_books_def update_client_def split: option.split)
qed

lemma same_books_send_to: "bt_ok (d_clients d) \<Longrightarrow> same_books d (send_to e i packet d)"
  unfolding send_to_def by (rule same_books_update) (simp_all add: send_queue_inv)

lemma same_books_adopt: "same_books d (snd (adopt_cell_size e pl d))"
  by (auto simp: adopt_cell_size_def Let_def split: option.split intro: same_books_actor)

lemma settle_startup_keeps [simp]:
  "d_clients (snd (settle_startup_lifecycle e u cause force d)) = d_clients d"
  "d_attach_counter (snd (settle_startup_lifecycle e u cause force d)) = d_attach_counter d"
  by (simp_all add: settle_startup_lifecycle_def log_write_def effect_def Let_def
      split: option.split MutateStatus.split)

lemma settle_deadline_keeps [simp]:
  "d_clients (snd (settle_startup_deadline e d)) = d_clients d"
  "d_attach_counter (snd (settle_startup_deadline e d)) = d_attach_counter d"
proof -
  let ?d = "if d_teardown_tree d = None then freeze_child_tree e d else d"
  have "d_clients ?d = d_clients d" "d_attach_counter ?d = d_attach_counter d"
    by (simp_all add: freeze_child_tree_def effect_def)
  then show "d_clients (snd (settle_startup_deadline e d)) = d_clients d"
    "d_attach_counter (snd (settle_startup_deadline e d)) = d_attach_counter d"
    using settle_startup_keeps [of e IoLease "startup_lease_deadline_cause (d_teardown_tree ?d = Some True)" False ?d]
    by (simp_all add: settle_startup_deadline_def Let_def resume_frozen_tree_def effect_def case_prod_beta
        del: settle_startup_keeps)
qed

lemma service_lease_keeps [simp]:
  "d_clients (service_startup_lease e d) = d_clients d"
  "d_attach_counter (service_startup_lease e d) = d_attach_counter d"
proof -
  obtain v d1 where eq: "settle_startup_deadline e d = (v, d1)" by fastforce
  have "d_clients d1 = d_clients d" "d_attach_counter d1 = d_attach_counter d"
    using settle_deadline_keeps [of e d] by (simp_all add: eq)
  then show "d_clients (service_startup_lease e d) = d_clients d"
    "d_attach_counter (service_startup_lease e d) = d_attach_counter d"
    by (simp_all add: service_startup_lease_def Let_def eq split: option.split)
qed

lemma lifecycle_keeps [simp]:
  "d_clients (snd (compare_and_set_lifecycle e req d)) = d_clients d"
  "d_attach_counter (snd (compare_and_set_lifecycle e req d)) = d_attach_counter d"
proof -
  have a: "d_clients (after_lifecycle_cas e req x) = d_clients x"
    "d_attach_counter (after_lifecycle_cas e req x) = d_attach_counter x" for x :: "'a Daemon"
    by (simp_all add: after_lifecycle_cas_def Let_def split: option.split)
  obtain v d1 where eq: "settle_startup_deadline e d = (v, d1)" by fastforce
  have "d_clients d1 = d_clients d" "d_attach_counter d1 = d_attach_counter d"
    using settle_deadline_keeps [of e d] by (simp_all add: eq)
  then have b: "d_clients (snd (expired_lifecycle e d)) = d_clients d"
    "d_attach_counter (snd (expired_lifecycle e d)) = d_attach_counter d"
    by (simp_all add: expired_lifecycle_def eq split: option.split)
  obtain w d2 where ex: "settle_startup_lifecycle e IoLease CauseExit True d = (w, d2)" by fastforce
  have c: "d_clients d2 = d_clients d" "d_attach_counter d2 = d_attach_counter d"
    using settle_startup_keeps [of e IoLease CauseExit True d] by (simp_all add: ex)
  show "d_clients (snd (compare_and_set_lifecycle e req d)) = d_clients d"
    "d_attach_counter (snd (compare_and_set_lifecycle e req d)) = d_attach_counter d"
    by (simp_all add: compare_and_set_lifecycle_def a b c ex effect_def Let_def
        split: option.split prod.split TagCompareAndSetResult.split)
qed

lemma same_books_lifecycle: "bt_ok (d_clients d) \<Longrightarrow> same_books d (on_lifecycle_cas e i pl d)"
proof -
  assume o: "bt_ok (d_clients d)"
  have "same_books d (send_to e i packet (snd (compare_and_set_lifecycle e req d)))" for packet req
    by (rule same_books_trans [OF same_books_fields same_books_send_to]) (simp_all add: o)
  then show ?thesis
    using same_books_send_to [OF o] by (simp add: on_lifecycle_cas_def case_prod_beta split: option.split)
qed

lemma same_books_ownership: "bt_ok (d_clients d) \<Longrightarrow> same_books d (on_accepted_socket_ownership e i pl d)"
  unfolding on_accepted_socket_ownership_def Let_def by (rule same_books_send_to)

section \<open>The invariant\<close>

definition book_ok :: "nat \<Rightarrow> Client \<Rightarrow> bool" where
  "book_ok n c \<longleftrightarrow>
     c_attach_seq c \<le> n
     \<and> (c_role c = Writable \<longrightarrow> 0 < c_attach_seq c \<and> c_attached c \<noteq> None)
     \<and> (c_role c = Command \<longrightarrow> c_attach_seq c = 0 \<and> c_attached c = None \<and> c_phase c = Live)"

definition settle_ok :: "Client \<Rightarrow> bool" where
  "settle_ok c \<longleftrightarrow> (\<forall>deadline g k. c_phase c = Settling deadline g k \<longrightarrow> g = c_generation c)"

definition books_inv :: "nat \<Rightarrow> (nat \<times> Client) list \<Rightarrow> bool" where
  "books_inv n bs \<longleftrightarrow> (\<forall>x \<in> set bs. book_ok n (snd x) \<and> settle_ok (snd x))"

definition daemon_inv :: "'t Daemon \<Rightarrow> bool" where
  "daemon_inv d \<longleftrightarrow>
     bt_ok (d_clients d) \<and> (\<forall>x \<in> set (d_clients d). queue_inv (snd x))
     \<and> books_inv (d_attach_counter d) (books d)"

lemma book_ok_mono: "book_ok n c \<Longrightarrow> n \<le> n' \<Longrightarrow> book_ok n' c"
  by (auto simp: book_ok_def)

lemma books_inv_mono: "books_inv n bs \<Longrightarrow> n \<le> n' \<Longrightarrow> books_inv n' bs"
  unfolding books_inv_def using book_ok_mono by blast

lemma books_inv_insert:
  "bt_ok bs \<Longrightarrow> books_inv n bs \<Longrightarrow> book_ok n b \<Longrightarrow> settle_ok b \<Longrightarrow> books_inv n (bt_insert i b bs)"
  by (auto simp: books_inv_def bt_insert_set)

lemma daemon_inv_same: "same_books d d' \<Longrightarrow> daemon_inv d \<Longrightarrow> daemon_inv d'"
  by (simp add: same_books_def daemon_inv_def)

lemma book_ok_book [simp]: "book_ok n (book c) \<longleftrightarrow> book_ok n c" "settle_ok (book c) \<longleftrightarrow> settle_ok c"
  by (simp_all add: book_ok_def settle_ok_def)

lemma daemon_inv_client:
  assumes "daemon_inv d" and "map_of (d_clients d) i = Some c"
  shows "book_ok (d_attach_counter d) c" "settle_ok c" "queue_inv c"
  using assms map_of_SomeD [OF assms(2)]
  by (force simp: daemon_inv_def books_inv_def books_def)+

text \<open>An update of one connection that keeps its queue intact.\<close>

lemma daemon_inv_update:
  assumes i: "daemon_inv d"
    and f: "\<And>c. map_of (d_clients d) i = Some c \<Longrightarrow> queue_inv (f c) \<and> book_ok (d_attach_counter d) (f c) \<and> settle_ok (f c)"
  shows "daemon_inv (update_client i f d)"
proof (cases "map_of (d_clients d) i")
  case (Some c)
  have o: "bt_ok (d_clients d)" using i by (simp add: daemon_inv_def)
  have "bt_ok (bt_insert i (f c) (d_clients d))" using o by (rule bt_insert_ok)
  moreover have "\<forall>x \<in> set (bt_insert i (f c) (d_clients d)). queue_inv (snd x)"
    using f [OF Some] i o by (auto simp: daemon_inv_def bt_insert_set)
  moreover have "books_inv (d_attach_counter d) (bt_insert i (book (f c)) (books d))"
    using f [OF Some] i o by (intro books_inv_insert) (auto simp: daemon_inv_def)
  ultimately show ?thesis
    using Some books_update [of i f d] by (simp add: daemon_inv_def update_client_def)
qed (use i in \<open>simp add: update_client_def\<close>)

lemma update_client_get:
  "bt_ok (d_clients d) \<Longrightarrow> map_of (d_clients (update_client i f d)) j =
     (if j = i then map_option f (map_of (d_clients d) i) else map_of (d_clients d) j)"
  by (auto simp: update_client_def bt_insert_get split: option.split)

lemma cut_inv: "daemon_inv d \<Longrightarrow> daemon_inv (cut e i d)"
proof (cases "map_of (d_clients d) i")
  case (Some c)
  assume inv: "daemon_inv d"
  note ok = daemon_inv_client [OF inv Some]
  let ?f = "\<lambda>k c. let c1 = (send (e_capacity e) (encode_screen (screen_of e k (d_actor d))) c)\<lparr>c_phase := Live\<rparr>
       in if d_exited d then send (e_capacity e) (encode_exit (d_exit_code d)) c1 else c1"
  have q: "queue_inv (x\<lparr>c_phase := Live\<rparr>) \<longleftrightarrow> queue_inv x" for x by (simp add: queue_inv_def)
  have "daemon_inv (update_client i (?f k) d)" for k
  proof (rule daemon_inv_update [OF inv])
    fix c'
    assume "map_of (d_clients d) i = Some c'"
    then have "c' = c" using Some by simp
    then show "queue_inv (?f k c') \<and> book_ok (d_attach_counter d) (?f k c') \<and> settle_ok (?f k c')"
      using ok by (auto simp: Let_def send_queue_inv q book_ok_def settle_ok_def)
  qed
  then show ?thesis
    using inv Some by (auto simp: cut_def Let_def same_books_nudge split: Phase.split intro: daemon_inv_same [OF same_books_nudge])
qed (simp add: cut_def)

text \<open>Between the arrival of an ATTACH or PEEK and the scheduling of its cut.\<close>

definition arming :: "nat \<Rightarrow> nat \<Rightarrow> 't Daemon \<Rightarrow> bool" where
  "arming i g d \<longleftrightarrow>
     bt_ok (d_clients d) \<and> (\<forall>x \<in> set (d_clients d). queue_inv (snd x))
     \<and> (\<forall>x \<in> set (books d). book_ok (d_attach_counter d) (snd x)
          \<and> (fst x = i \<longrightarrow> c_generation (snd x) = g \<and> c_role (snd x) \<noteq> Command)
          \<and> (fst x \<noteq> i \<longrightarrow> settle_ok (snd x)))"

lemma arming_same: "same_books d d' \<Longrightarrow> arming i g d \<Longrightarrow> arming i g d'"
  by (simp add: same_books_def arming_def)

lemma arming_client:
  assumes "arming i g d" and "map_of (d_clients d) i = Some c"
  shows "queue_inv c" "book_ok (d_attach_counter d) c" "c_generation c = g" "c_role c \<noteq> Command"
proof -
  have m: "(i, c) \<in> set (d_clients d)" by (rule map_of_SomeD [OF assms(2)])
  then have b: "(i, book c) \<in> set (books d)" by (force simp: books_def)
  show "queue_inv c" using assms(1) m unfolding arming_def by (metis snd_conv)
  show "book_ok (d_attach_counter d) c" "c_generation c = g" "c_role c \<noteq> Command"
    using assms(1) b unfolding arming_def by (metis book_ok_book(1) book_fields(1,5) fst_conv snd_conv)+
qed

lemma arming_update:
  assumes inv: "daemon_inv d" and n: "d_attach_counter d \<le> n"
    and f: "\<And>c. map_of (d_clients d) i = Some c \<Longrightarrow>
      queue_inv (f c) \<and> book_ok n (f c) \<and> c_generation (f c) = g \<and> c_role (f c) \<noteq> Command"
    and p: "map_of (d_clients d) i = Some c"
  shows "arming i g (update_client i f (d\<lparr>d_attach_counter := n\<rparr>))"
proof -
  have o: "bt_ok (d_clients d)" using inv by (simp add: daemon_inv_def)
  have "d_clients (update_client i f (d\<lparr>d_attach_counter := n\<rparr>)) = bt_insert i (f c) (d_clients d)"
    "books (update_client i f (d\<lparr>d_attach_counter := n\<rparr>)) = bt_insert i (book (f c)) (books d)"
    "d_attach_counter (update_client i f (d\<lparr>d_attach_counter := n\<rparr>)) = n"
    using p by (simp_all add: update_client_def books_def bt_insert_map)
  moreover have "\<forall>x \<in> set (bt_insert i (f c) (d_clients d)). queue_inv (snd x)"
    using f [OF p] inv o by (auto simp: daemon_inv_def bt_insert_set)
  moreover have "\<forall>x \<in> set (bt_insert i (book (f c)) (books d)). book_ok n (snd x)
      \<and> (fst x = i \<longrightarrow> c_generation (snd x) = g \<and> c_role (snd x) \<noteq> Command)
      \<and> (fst x \<noteq> i \<longrightarrow> settle_ok (snd x))"
  proof -
    have "\<forall>x \<in> set (books d). book_ok n (snd x) \<and> settle_ok (snd x)"
      using inv books_inv_mono [OF _ n, of "books d"] by (simp add: daemon_inv_def books_inv_def)
    then show ?thesis using f [OF p] o by (simp add: bt_insert_set)
  qed
  ultimately show ?thesis using o by (simp add: arming_def bt_insert_ok)
qed

lemma schedule_cut_inv:
  assumes "arming i g d"
  shows "daemon_inv (schedule_cut e i g kind delay d)"
proof -
  let ?f = "\<lambda>t c. c\<lparr>c_phase := Settling t g kind\<rparr>"
  have o: "bt_ok (d_clients d)" using assms by (simp add: arming_def)
  have "daemon_inv (update_client i (?f t) d)" for t
  proof (cases "map_of (d_clients d) i")
    case None
    then have "\<forall>x \<in> set (books d). fst x \<noteq> i"
      by (auto simp: books_def dest!: weak_map_of_SomeI)
    then have "books_inv (d_attach_counter d) (books d)"
      using assms unfolding arming_def books_inv_def by blast
    then show ?thesis using None assms by (simp add: update_client_def daemon_inv_def arming_def)
  next
    case (Some c)
    have c: "queue_inv c" "book_ok (d_attach_counter d) c" "c_generation c = g" "c_role c \<noteq> Command"
      using arming_client [OF assms Some] by simp_all
    have q: "queue_inv (?f t c)" using c(1) by (simp add: queue_inv_def)
    have k: "book_ok (d_attach_counter d) (?f t c)" "settle_ok (?f t c)"
      using c by (auto simp: book_ok_def settle_ok_def)
    have "\<forall>x \<in> set (bt_insert i (?f t c) (d_clients d)). queue_inv (snd x)"
      using q assms o by (auto simp: arming_def bt_insert_set)
    moreover have "books_inv (d_attach_counter d) (bt_insert i (book (?f t c)) (books d))"
      using k assms o unfolding books_inv_def arming_def
      by (simp add: bt_insert_set)
    ultimately show ?thesis using Some o books_update [of i "?f t" d]
      by (simp add: update_client_def daemon_inv_def bt_insert_ok)
  qed
  then show ?thesis by (auto simp: schedule_cut_def Let_def intro: cut_inv)
qed

section \<open>Every handler keeps the invariant\<close>

lemma bt_ok_inv: "daemon_inv d \<Longrightarrow> bt_ok (d_clients d)" "arming i g d \<Longrightarrow> bt_ok (d_clients d)"
  by (simp_all add: daemon_inv_def arming_def)

lemma client_adopt [simp]: "d_clients (snd (adopt_cell_size e pl d)) = d_clients d"
  "d_attach_counter (snd (adopt_cell_size e pl d)) = d_attach_counter d"
  by (simp_all add: adopt_cell_size_def Let_def split: option.split prod.split)

lemma finish_attach_inv: "arming i g d \<Longrightarrow> daemon_inv (finish_attach e i g sm cc d)"
proof -
  assume a2: "arming i g d"
  obtain r d3 where ng: "negotiate_size e d = (r, d3)" by fastforce
  have a3: "arming i g d3" using arming_same [OF same_books_negotiate a2, of e] ng by simp
  define d4 where "d4 = (if cc \<and> \<not> r
       then resize_pty e (t_rows (e_ops e) (d_actor d3)) (t_cols (e_ops e) (d_actor d3)) d3 else d3)"
  have a4: "arming i g d4" using a3 arming_same [OF same_books_resize_pty a3] by (simp add: d4_def)
  define d5 where "d5 = (if \<not> r then send_to e i (actor_geometry e d4) d4 else d4)"
  have a5: "arming i g d5"
    using a4 arming_same [OF same_books_send_to [OF bt_ok_inv(2) [OF a4]] a4] by (simp add: d5_def)
  have a6: "arming i g (note_client_change e (Some (e_stamp e)) d5)"
    by (rule arming_same [OF same_books_note a5])
  show ?thesis
    unfolding finish_attach_def ng Let_def prod.case d4_def [symmetric] d5_def [symmetric]
    by (rule schedule_cut_inv [OF a6])
qed

lemma on_attach_inv:
  assumes inv: "daemon_inv d"
  shows "daemon_inv (on_attach e i pl d)"
proof (cases "length pl < 4 \<or> map_of (d_clients d) i = None")
  case True
  then show ?thesis using inv by (auto simp: on_attach_def)
next
  case False
  then obtain c where c: "map_of (d_clients d) i = Some c" by auto
  obtain rows cols where sz: "decode_size pl = (rows, cols)" by fastforce
  obtain cc d1 where ad: "adopt_cell_size e pl d = (cc, d1)" by fastforce
  have d1: "daemon_inv d1" using daemon_inv_same [OF same_books_adopt inv, of e pl] ad by simp
  have c1: "map_of (d_clients d1) i = Some c" using client_adopt(1) [of e pl d] ad c by simp
  have "arming i (c_generation c + 1) (update_client i
      (attach_client e pl rows cols (d_attach_counter d1 + 1) (c_generation c + 1))
      (d1\<lparr>d_attach_counter := d_attach_counter d1 + 1\<rparr>))"
    by (rule arming_update [OF d1 _ _ c1])
      (use daemon_inv_client [OF d1 c1] c1 in \<open>auto simp: attach_client_def queue_inv_def book_ok_def\<close>)
  from finish_attach_inv [OF this] show ?thesis using False c by (simp add: on_attach_def sz ad Let_def)
qed

lemma finish_peek_inv: "arming i g d \<Longrightarrow> daemon_inv (finish_peek e i g w pl d)"
proof -
  assume a1: "arming i g d"
  obtain r d2 where ng: "negotiate_size e d = (r, d2)" by fastforce
  have a2: "arming i g d2" using arming_same [OF same_books_negotiate a1, of e] ng by simp
  define d3 where "d3 = (if \<not> r then send_to e i (actor_geometry e d2) d2 else d2)"
  have a3: "arming i g d3"
    using a2 arming_same [OF same_books_send_to [OF bt_ok_inv(2) [OF a2]] a2] by (simp add: d3_def)
  have a4: "arming i g (if w then note_client_change e None d3 else d3)"
    using a3 arming_same [OF same_books_note a3] by simp
  show ?thesis
    unfolding finish_peek_def ng Let_def prod.case d3_def [symmetric]
    by (cases "decode_peek pl") (simp only: prod.case schedule_cut_inv [OF a4])
qed

lemma on_peek_inv:
  assumes inv: "daemon_inv d"
  shows "daemon_inv (on_peek e i pl d)"
proof (cases "map_of (d_clients d) i")
  case (Some c)
  have "arming i (c_generation c + 1)
      (update_client i (\<lambda>c'. c'\<lparr>c_role := Readonly, c_generation := c_generation c + 1\<rparr>)
        (d\<lparr>d_attach_counter := d_attach_counter d\<rparr>))"
    by (rule arming_update [OF inv _ _ Some])
      (use daemon_inv_client [OF inv Some] Some in \<open>auto simp: queue_inv_def book_ok_def\<close>)
  from finish_peek_inv [OF this] show ?thesis using Some by (simp add: on_peek_def Let_def)
qed (use inv in \<open>simp add: on_peek_def\<close>)

lemma finish_resize_inv: "daemon_inv d \<Longrightarrow> daemon_inv (finish_resize e pl d)"
  unfolding finish_resize_def Let_def
  by (auto split: prod.split intro!: daemon_inv_same [OF same_books_note]
      daemon_inv_same [OF same_books_resize_pty]
      dest!: arg_cong [where f = snd and x = "adopt_cell_size e pl d"] arg_cong [where f = snd and x = "negotiate_size _ _"])
    (metis daemon_inv_same same_books_adopt same_books_negotiate snd_conv)+

lemma on_resize_inv:
  assumes inv: "daemon_inv d"
  shows "daemon_inv (on_resize e i pl d)"
proof (cases "map_of (d_clients d) i")
  case (Some c)
  have n: "daemon_inv (d\<lparr>d_attach_counter := d_attach_counter d + 1\<rparr>)"
    using inv by (auto simp: daemon_inv_def books_def intro: books_inv_mono)
  have "daemon_inv (update_client i (\<lambda>c. c\<lparr>c_rows := rows, c_cols := cols,
      c_attach_seq := d_attach_counter d + 1\<rparr>) (d\<lparr>d_attach_counter := d_attach_counter d + 1\<rparr>))"
    if "c_role c = Writable" for rows cols
    by (rule daemon_inv_update [OF n])
      (use daemon_inv_client [OF inv Some] Some that in \<open>auto simp: queue_inv_def book_ok_def settle_ok_def\<close>)
  then show ?thesis using Some inv by (auto simp: on_resize_def Let_def split: prod.split intro: finish_resize_inv)
qed (use inv in \<open>simp add: on_resize_def\<close>)

lemma on_closed_inv:
  assumes inv: "daemon_inv d"
  shows "daemon_inv (on_closed e i d)"
proof -
  have r: "daemon_inv (d\<lparr>d_clients := bt_remove i (d_clients d)\<rparr>)"
  proof -
    have s: "books (d\<lparr>d_clients := bt_remove i (d_clients d)\<rparr>) = bt_remove i (books d)"
      by (simp add: books_def bt_remove_def filter_map o_def case_prod_beta)
    have "set (bt_remove i m) \<subseteq> set m" for m :: "(nat \<times> Client) list" by (auto simp: bt_remove_def)
    then show ?thesis using inv unfolding daemon_inv_def s books_inv_def
      by (auto simp: bt_remove_ok dest: subsetD)
  qed
  show ?thesis
    unfolding on_closed_def Let_def
    using inv daemon_inv_same [OF same_books_negotiate r, of e] daemon_inv_same [OF same_books_note]
    by (auto split: option.split)
qed

lemma on_detach_inv: "daemon_inv d \<Longrightarrow> daemon_inv (on_detach e i d)"
  unfolding on_detach_def
  by (intro on_closed_inv daemon_inv_same [OF same_books_update])
    (simp_all add: send_out_queue_inv bt_ok_inv)

lemma on_reset_inv: "daemon_inv d \<Longrightarrow> daemon_inv (on_reset_input_modes e i pl d)"
  unfolding on_reset_input_modes_def broadcast_def
  by (auto split: option.split prod.split intro!: daemon_inv_same [OF same_books_send_to_all]
      intro: daemon_inv_same [OF same_books_actor [OF same_books_refl]])

lemma on_packet_inv:
  assumes "daemon_inv d"
  shows "daemon_inv (on_packet e i p d)"
proof -
  note o = bt_ok_inv(1) [OF assms]
  have "daemon_inv (on_history e i pl d)" "daemon_inv (on_data i pl d)" "daemon_inv (on_status e i pl d)"
    "daemon_inv (on_accepted_socket_ownership e i pl d)" "daemon_inv (on_lifecycle_cas e i pl d)" for pl
    using assms daemon_inv_same [OF same_books_send_to [OF o] assms] daemon_inv_same [OF same_books_write_input assms]
      daemon_inv_same [OF same_books_ownership [OF o] assms] daemon_inv_same [OF same_books_lifecycle [OF o] assms]
    by (simp_all add: on_history_def on_data_def on_status_def Let_def split: option.split)
  then show ?thesis
    using assms unfolding on_packet_def
    by (cases "ptype p") (simp_all add: on_attach_inv on_peek_inv on_resize_inv on_detach_inv on_reset_inv)
qed

lemma on_connect_inv:
  assumes inv: "daemon_inv d"
  shows "daemon_inv (on_connect e i d)"
proof -
  let ?c = "new_client (t_rows (e_ops e) (d_actor d)) (t_cols (e_ops e) (d_actor d))"
  have k: "book_ok (d_attach_counter d) (book ?c)" "settle_ok (book ?c)"
    by (simp_all add: book_ok_def settle_ok_def) (simp_all add: new_client_def)
  have "books (on_connect e i d) = bt_insert i (book ?c) (books d)"
    by (simp add: on_connect_def books_def bt_insert_map)
  moreover have "d_clients (on_connect e i d) = bt_insert i ?c (d_clients d)" by (simp add: on_connect_def)
  moreover have "d_attach_counter (on_connect e i d) = d_attach_counter d" by (simp add: on_connect_def)
  ultimately show ?thesis
    using inv k books_inv_insert [of "books d"] new_client_queue_inv
    by (simp add: daemon_inv_def bt_insert_ok bt_insert_set)
qed

lemma same_books_pty_data: "same_books d (on_pty_data e data d)"
  unfolding on_pty_data_def Let_def broadcast_def write_pty_def
  by (simp split: prod.split) (intro allI impI conjI same_books_after)

lemma on_pty_data_inv: "daemon_inv d \<Longrightarrow> daemon_inv (on_pty_data e data d)"
  by (rule daemon_inv_same [OF same_books_pty_data])

lemma service_cuts_inv: "daemon_inv d \<Longrightarrow> daemon_inv (service_cuts e d)"
proof -
  have "daemon_inv d \<Longrightarrow> daemon_inv (fold (cut e) is d)" for "is" d
    by (induction "is" arbitrary: d) (auto intro: cut_inv)
  then show "daemon_inv d \<Longrightarrow> daemon_inv (service_cuts e d)" by (simp add: service_cuts_def)
qed

end
