(* ===== verification/Daemon_Exit.thy ===== *)
theory Daemon_Exit
  imports Daemon_Clients Tags
begin

text \<open>
  The end of a session (\<^verbatim>\<open>crates/pty/src/daemon/lifecycle.rs\<close>): the exit status and the end of the
  terminal's output arrive in either order, the exit is recorded once both did or 300 ms after the
  status, clients get EXIT, the record is written with retries, and the daemon stops 500 ms later.
  The last section is the serving loop: the queue that lets client messages pass waiting output,
  the dispatch of a message, the timers, and one turn. The teardown after the loop (\<open>close\<close>) signals
  and waits for processes and is not modelled, its reap decision is.
\<close>

section \<open>Exit status\<close>

definition EXIT_GRACE :: nat where "EXIT_GRACE = 500"
definition EXIT_DRAIN :: nat where "EXIT_DRAIN = 300"
definition EXIT_METADATA_RETRY :: nat where "EXIT_METADATA_RETRY = 400"
definition ACTIVITY_PERSIST_BUSY_RETRY :: nat where "ACTIVITY_PERSIST_BUSY_RETRY = 50"

text \<open>\<open>waitpid\<close>'s status word as Linux defines it: \<open>WIFSIGNALED\<close>, \<open>WTERMSIG\<close>, \<open>WIFEXITED\<close> and
  \<open>WEXITSTATUS\<close> on the low sixteen bits.\<close>

definition wtermsig :: "nat \<Rightarrow> nat" where
  "wtermsig status = status mod 128"

definition decode_wait_status :: "nat option \<Rightarrow> int \<times> int option" where
  "decode_wait_status status =
     (case status of
        None \<Rightarrow> (-1, None)
      | Some s \<Rightarrow>
          if wtermsig s \<noteq> 0 \<and> wtermsig s \<noteq> 127
          then (128 + int (wtermsig s), Some (int (wtermsig s)))
          else if wtermsig s = 0 then (int (s div 256 mod 256), None)
          else (-1, None))"

definition exit_code_of :: "ExitStatus \<Rightarrow> i32" where
  "exit_code_of status =
     (case es_signal status of
        Some signal \<Rightarrow> 128 + signal
      | None \<Rightarrow> (case es_code status of Some c \<Rightarrow> c | None \<Rightarrow> -1))"

section \<open>The exit record\<close>

definition exit_mutate ::
  "i32 \<Rightarrow> rstr \<Rightarrow> rstr list \<Rightarrow> 64 word option \<Rightarrow> unit \<Rightarrow> SessionMetadata \<Rightarrow> unit \<times> SessionMetadata \<times> bool" where
  "exit_mutate code stamp lines last_output s m =
     (let (m1, ch1) = (if md_exit_code m \<noteq> Some code then (m\<lparr>md_exit_code := Some code\<rparr>, True) else (m, False));
          (m2, ch2) = (if md_exited_at m1 = None then (m1\<lparr>md_exited_at := Some stamp\<rparr>, True) else (m1, ch1));
          (m3, ch3) = (if md_last_lines m2 \<noteq> Some lines then (m2\<lparr>md_last_lines := Some lines\<rparr>, True) else (m2, ch2));
          (m4, ch4) =
            (case last_output of
               Some out \<Rightarrow>
                 if md_last_output_at_ms m3 \<noteq> Some out then (m3\<lparr>md_last_output_at_ms := Some out\<rparr>, True) else (m3, ch3)
             | None \<Rightarrow> (m3, ch3))
      in (s, m4, ch4))"

text \<open>The sidecar is removed in the hook that runs after a write and after a decline.\<close>

definition save_exit_metadata :: "'t env \<Rightarrow> 't Daemon \<Rightarrow> MutateStatus \<times> 't Daemon" where
  "save_exit_metadata e d =
     (let r = snd (mutate_metadata_under_lock_core (e_io e IoExit)
                (exit_mutate (d_exit_code d) (e_stamp e) (t_last_lines (e_ops e) (d_actor d)) (d_last_output_at_ms d))
                \<lparr>expected_generation = Some (d_generation d), expected_metadata = None\<rparr> ());
          d1 = (case mr_written r of Some w \<Rightarrow> effect (WriteRecord w) d | None \<Rightarrow> d);
          d2 = (if mr_published r \<noteq> None \<or> mr_unchanged r \<noteq> None then effect RetireActivity d1 else d1)
      in (mr_status r, d2))"

definition persist_output_activity :: "'t env \<Rightarrow> 't Daemon \<Rightarrow> 't Daemon" where
  "persist_output_activity e d0 =
     (let d = d0\<lparr>d_activity_persist_at := None\<rparr> in
      if d_exited d then d
      else case d_last_output_at_ms d of
        None \<Rightarrow> d
      | Some stamped \<Rightarrow>
          (let r = snd (mutate_metadata_under_lock_core (e_io e IoActivity) (\<lambda>s m. (s, m, False))
                     \<lparr>expected_generation = Some (d_generation d), expected_metadata = None\<rparr> ());
               d1 = (if mr_unchanged r \<noteq> None then effect (PublishActivity stamped) d else d)
           in if mr_status r = Busy
              then d1\<lparr>d_activity_persist_at := Some (e_now e + ACTIVITY_PERSIST_BUSY_RETRY)\<rparr> else d1))"

section \<open>Messages and timers\<close>

definition finalize_exit :: "'t env \<Rightarrow> 't Daemon \<Rightarrow> 't Daemon" where
  "finalize_exit e d =
     (let status = (case d_child_status d of Some s \<Rightarrow> s | None \<Rightarrow> \<lparr>es_code = None, es_signal = None\<rparr>);
          code = exit_code_of status;
          d0 = snd (settle_startup_lifecycle e IoExitLease CauseExit True d);
          d1 = d0\<lparr>d_exited := True, d_exit_code := code, d_exit_drain_deadline := None,
                 d_actor := t_end_stream (e_ops e) (d_actor d0)\<rparr>;
          d2 = forward_terminal_events e d1;
          d3 = broadcast e (encode_exit code) d2;
          d4 = effect (LogSessionExit code (es_signal status)) d3;
          (saved, d5) = save_exit_metadata e d4;
          d6 = (if saved = Busy \<or> saved = Stale
                then d5\<lparr>d_exit_meta_retry := Some (e_now e + 10, e_now e + EXIT_METADATA_RETRY)\<rparr> else d5)
      in if d_shutdown_code d6 = None then d6\<lparr>d_exit_shutdown_at := Some (e_now e + EXIT_GRACE)\<rparr> else d6)"

definition on_pty_eof :: "'t env \<Rightarrow> 't Daemon \<Rightarrow> 't Daemon" where
  "on_pty_eof e d =
     (let d1 = d\<lparr>d_pty_eof := True\<rparr> in
      if d_child_status d1 \<noteq> None \<and> \<not> d_exited d1 then finalize_exit e d1 else d1)"

text \<open>A launch operation that is not transferred judges the exit and the kill itself.\<close>

definition holds :: "ExitStatus \<Rightarrow> 't Daemon \<Rightarrow> bool \<times> 't Daemon" where
  "holds status d =
     (case d_operation d of
        None \<Rightarrow> (False, d)
      | Some op \<Rightarrow>
          if ol_transferred op then (False, d)
          else if ol_deferred_exit op = None
          then (True, (effect (TellOperation ActorChildExited) d)
                  \<lparr>d_operation := Some (op\<lparr>ol_deferred_exit := Some status\<rparr>)\<rparr>)
          else (True, d))"

definition intercepts_kill :: "'t Daemon \<Rightarrow> bool \<times> 't Daemon" where
  "intercepts_kill d =
     (case d_operation d of
        None \<Rightarrow> (False, d)
      | Some op \<Rightarrow> if ol_transferred op then (False, d) else (True, effect (TellOperation ActorShutdown) d))"

definition on_child_exited :: "'t env \<Rightarrow> ExitStatus \<Rightarrow> 't Daemon \<Rightarrow> 't Daemon" where
  "on_child_exited e status d0 =
     (case holds status d0 of
        (True, d) \<Rightarrow> d
      | (False, d) \<Rightarrow>
          if d_child_status d \<noteq> None then d
          else
            (let d1 = d\<lparr>d_child_status := Some status\<rparr> in
             if d_pty_eof d1 then (if \<not> d_exited d1 then finalize_exit e d1 else d1)
             else d1\<lparr>d_exit_drain_deadline := Some (e_now e + EXIT_DRAIN)\<rparr>))"

definition on_external_kill :: "'t Daemon \<Rightarrow> 't Daemon" where
  "on_external_kill d0 =
     (case intercepts_kill d0 of
        (True, d) \<Rightarrow> d
      | (False, d) \<Rightarrow>
          if d_shutdown_code d = None then d\<lparr>d_external_kill := True, d_shutdown_code := Some 0\<rparr> else d)"

definition on_operation_transferred :: "'t env \<Rightarrow> 't Daemon \<Rightarrow> 't Daemon" where
  "on_operation_transferred e d =
     (case d_operation d of
        None \<Rightarrow> d
      | Some op \<Rightarrow>
          (case ol_deferred_exit op of
             None \<Rightarrow> d
           | Some status \<Rightarrow>
               on_child_exited e status (d\<lparr>d_operation := Some (op\<lparr>ol_deferred_exit := None\<rparr>)\<rparr>)))"

definition on_operation_end :: "i32 \<Rightarrow> 't Daemon \<Rightarrow> 't Daemon" where
  "on_operation_end code d =
     (let d1 = (case d_operation d of
                  Some op \<Rightarrow> d\<lparr>d_operation := Some (op\<lparr>ol_ended := True\<rparr>)\<rparr>
                | None \<Rightarrow> d)
      in if d_shutdown_code d1 = None then d1\<lparr>d_shutdown_code := Some code\<rparr> else d1)"

definition service_exit_drain :: "'t env \<Rightarrow> 't Daemon \<Rightarrow> 't Daemon" where
  "service_exit_drain e d =
     (case d_exit_drain_deadline d of
        Some t \<Rightarrow>
          if t \<le> e_now e then
            (let d1 = d\<lparr>d_exit_drain_deadline := None\<rparr> in
             if \<not> d_exited d1 \<and> d_child_status d1 \<noteq> None then finalize_exit e d1 else d1)
          else d
      | None \<Rightarrow> d)"

definition service_exit_retry :: "'t env \<Rightarrow> 't Daemon \<Rightarrow> 't Daemon" where
  "service_exit_retry e d =
     (case d_exit_meta_retry d of
        Some (t, deadline) \<Rightarrow>
          if t \<le> e_now e then
            (let (saved, d1) = save_exit_metadata e d in
             if (saved = Busy \<or> saved = Stale) \<and> e_now e < deadline
             then d1\<lparr>d_exit_meta_retry := Some (e_now e + 10, deadline)\<rparr>
             else d1\<lparr>d_exit_meta_retry := None\<rparr>)
          else d
      | None \<Rightarrow> d)"

definition service_shutdown :: "'t env \<Rightarrow> 't Daemon \<Rightarrow> 't Daemon" where
  "service_shutdown e d =
     (case d_exit_shutdown_at d of
        Some t \<Rightarrow>
          if t \<le> e_now e then
            (let d1 = d\<lparr>d_exit_shutdown_at := None\<rparr> in
             if d_shutdown_code d1 = None then d1\<lparr>d_shutdown_code := Some (d_exit_code d1)\<rparr> else d1)
          else d
      | None \<Rightarrow> d)"

definition service_activity :: "'t env \<Rightarrow> 't Daemon \<Rightarrow> 't Daemon" where
  "service_activity e d =
     (case d_activity_persist_at d of
        Some t \<Rightarrow> if t \<le> e_now e then persist_output_activity e d else d
      | None \<Rightarrow> d)"

definition service_client_retry :: "'t env \<Rightarrow> 't Daemon \<Rightarrow> 't Daemon" where
  "service_client_retry e d =
     (case d_client_meta_retry d of
        Some (t, _) \<Rightarrow> if t \<le> e_now e then write_client_generation e d else d
      | None \<Rightarrow> d)"

definition ATOMIC_TEMP_SWEEP_INTERVAL :: nat where "ATOMIC_TEMP_SWEEP_INTERVAL = 30000"

definition service_sweep :: "'t env \<Rightarrow> 't Daemon \<Rightarrow> 't Daemon" where
  "service_sweep e d =
     (if d_temp_sweep_at d \<le> e_now e
      then (effect SweepTemps d)\<lparr>d_temp_sweep_at := e_now e + ATOMIC_TEMP_SWEEP_INTERVAL\<rparr> else d)"

definition service_timers :: "'t env \<Rightarrow> 't Daemon \<Rightarrow> 't Daemon" where
  "service_timers e d =
     service_shutdown e (service_startup_lease e (service_exit_retry e (service_exit_drain e
       (service_client_retry e (service_activity e (service_sweep e (service_cuts e d)))))))"

definition reap_at_exit ::
  "rstr option \<Rightarrow> SessionMetadata option \<Rightarrow> rstr \<Rightarrow> bool \<Rightarrow> bool \<Rightarrow> bool \<Rightarrow> TagMap option \<Rightarrow> bool" where
  "reap_at_exit reap_env metadata generation external_kill ephemeral startup_lease config_tags =
     (if (case Option.bind metadata md_generation of Some g \<Rightarrow> g \<noteq> generation | None \<Rightarrow> False) then False
      else if startup_lease then False
      else if external_kill \<and> \<not> ephemeral then False
      else
        (let tags = (case Option.bind metadata md_tags of Some t \<Rightarrow> Some t | None \<Rightarrow> config_tags) in
         should_reap_at_exit tags ephemeral (reap_on_exit_default reap_env)))"

section \<open>The serving loop\<close>

datatype Msg =
    PtyData bytes
  | PtyEof
  | ChildExited ExitStatus
  | Connect nat
  | PacketMsg nat Packet
  | Closed nat
  | ExternalKill
  | OperationTransferred
  | OperationEnd i32

definition handle :: "'t env \<Rightarrow> Msg \<Rightarrow> 't Daemon \<Rightarrow> 't Daemon" where
  "handle e msg d =
     (case msg of
        PtyData data \<Rightarrow> on_pty_data e data d
      | PtyEof \<Rightarrow> on_pty_eof e d
      | ChildExited status \<Rightarrow> on_child_exited e status d
      | Connect i \<Rightarrow> on_connect e i d
      | PacketMsg i p \<Rightarrow> on_packet e i p d
      | Closed i \<Rightarrow> on_closed e i d
      | ExternalKill \<Rightarrow> on_external_kill d
      | OperationTransferred \<Rightarrow> on_operation_transferred e d
      | OperationEnd code \<Rightarrow> on_operation_end code d)"

text \<open>
  The channel is the list of the messages in it and whether its senders are gone. A scan takes at
  most 8192 messages; output, end of output and exit status are moved aside in order.
\<close>

definition is_bridge :: "Msg \<Rightarrow> bool" where
  "is_bridge msg = (case msg of PtyData _ \<Rightarrow> True | PtyEof \<Rightarrow> True | ChildExited _ \<Rightarrow> True | _ \<Rightarrow> False)"

datatype next_msg = Got Msg | Disconnected | WouldWait

fun scan_queue :: "nat \<Rightarrow> bool \<Rightarrow> Msg list \<Rightarrow> Msg list \<Rightarrow> next_msg \<times> Msg list \<times> Msg list" where
  "scan_queue 0 gone rx deferred =
     (case deferred of m # rest \<Rightarrow> (Got m, rx, rest) | [] \<Rightarrow>
       (case rx of m # rest \<Rightarrow> (Got m, rest, []) | [] \<Rightarrow> (if gone then Disconnected else WouldWait, [], [])))"
| "scan_queue (Suc n) gone [] deferred =
     (case deferred of m # rest \<Rightarrow> (Got m, [], rest) | [] \<Rightarrow> (if gone then Disconnected else WouldWait, [], []))"
| "scan_queue (Suc n) gone (m # rx) deferred =
     (if is_bridge m then scan_queue n gone rx (deferred @ [m]) else (Got m, rx, deferred))"

definition next_queued_message :: "bool \<Rightarrow> Msg list \<Rightarrow> Msg list \<Rightarrow> next_msg \<times> Msg list \<times> Msg list" where
  "next_queued_message gone rx deferred = scan_queue 8192 gone rx deferred"

definition next_deadline :: "'t Daemon \<Rightarrow> nat" where
  "next_deadline d =
     fold min (List.map_filter (\<lambda>t. t)
       [next_cut_deadline d, d_exit_drain_deadline d, d_exit_shutdown_at d,
        map_option fst (d_exit_meta_retry d), d_activity_persist_at d,
        map_option fst (d_client_meta_retry d), d_lease_timer d])
       (d_temp_sweep_at d)"

text \<open>One turn: a message or a timeout, the timers, and the exit status when the daemon is to stop.\<close>

definition serve_turn :: "'t env \<Rightarrow> 't env \<Rightarrow> Msg option \<Rightarrow> 't Daemon \<Rightarrow> i32 option \<times> 't Daemon" where
  "serve_turn e e' msg d =
     (let d1 = (case msg of Some m \<Rightarrow> handle e m d | None \<Rightarrow> d);
          d2 = service_timers e' d1
      in (d_shutdown_code d2, d2))"

definition disconnected_code :: "'t Daemon \<Rightarrow> i32" where
  "disconnected_code d = (if d_exited d then d_exit_code d else 0)"

definition assemble :: "'t \<Rightarrow> u16 \<Rightarrow> u16 \<Rightarrow> nat \<Rightarrow> nat \<Rightarrow> rstr \<Rightarrow> ArmedStartupLease option \<Rightarrow> nat option
    \<Rightarrow> OperationLink option \<Rightarrow> 't Daemon" where
  "assemble actor rows cols now settle generation lease monotonic op =
     \<lparr>d_clients = [], d_actor = actor, d_attach_counter = 0, d_last_resize = None, d_settle = settle,
      d_exited = False, d_exit_code = 0, d_child_status = None, d_generation = generation,
      d_client_generation = 0, d_published_client_facts = unattached rows cols, d_pending_attach_at = None,
      d_client_meta_retry = None, d_pty_eof = False, d_exit_drain_deadline = None, d_exit_meta_retry = None,
      d_exit_shutdown_at = None, d_shutdown_code = None, d_external_kill = False, d_last_output_at_ms = None,
      d_activity_persist_at = None, d_temp_sweep_at = now, d_startup_lease = lease,
      d_lease_timer = map_option (\<lambda>t. now + remaining_lease_delay monotonic t)
        (Option.bind lease sl_deadline_monotonic_ns),
      d_lease_disarmed = False, d_deadline_pending_shutdown = False, d_lease_terminal = None,
      d_teardown_tree = None, d_teardown_frozen = False, d_operation = op, d_effects = []\<rparr>"

end
