(* ===== verification/Daemon_Views.thy ===== *)
theory Daemon_Views
  imports Daemon_Laws Daemon_Exit
begin

text \<open>
  What each operation of the daemon leaves alone. The state is seen through two views, the end of the
  session and the startup lease; an operation outside a view's component keeps the view, and the
  equations are in \<open>view_simps\<close>. The operations of \<^verbatim>\<open>Daemon_Exit\<close> keep the connections' books.
\<close>

named_theorems view_simps \<open>what an operation leaves alone\<close>

section \<open>Views\<close>

definition exit_logs :: "'t Daemon \<Rightarrow> Effect list" where
  "exit_logs d = filter (\<lambda>x. case x of LogSessionExit _ _ \<Rightarrow> True | _ \<Rightarrow> False) (d_effects d)"

definition exit_view where
  "exit_view d = (d_exited d, d_exit_code d, d_child_status d, d_pty_eof d, d_exit_drain_deadline d,
     d_exit_shutdown_at d, exit_logs d)"

definition lease_view where
  "lease_view d = (d_startup_lease d, d_lease_terminal d, d_deadline_pending_shutdown d, d_shutdown_code d,
     d_generation d)"

lemmas views_def = exit_view_def lease_view_def exit_logs_def

lemma view_effect [view_simps]:
  "(\<And>code signal. x \<noteq> LogSessionExit code signal) \<Longrightarrow> exit_view (effect x d) = exit_view d"
  "lease_view (effect x d) = lease_view d"
  by (auto simp: effect_def views_def split: Effect.split)

lemma view_clients [view_simps]:
  "exit_view (d\<lparr>d_clients := cs\<rparr>) = exit_view d" "lease_view (d\<lparr>d_clients := cs\<rparr>) = lease_view d"
  "exit_view (d\<lparr>d_actor := a\<rparr>) = exit_view d" "lease_view (d\<lparr>d_actor := a\<rparr>) = lease_view d"
  "exit_view (d\<lparr>d_attach_counter := n\<rparr>) = exit_view d" "lease_view (d\<lparr>d_attach_counter := n\<rparr>) = lease_view d"
  "exit_view (d\<lparr>d_last_resize := t\<rparr>) = exit_view d" "lease_view (d\<lparr>d_last_resize := t\<rparr>) = lease_view d"
  by (simp_all add: views_def)

lemma view_update [view_simps]:
  "exit_view (update_client i f d) = exit_view d" "lease_view (update_client i f d) = lease_view d"
  by (simp_all add: update_client_def view_simps split: option.split)

lemma view_send [view_simps]:
  "exit_view (send_to_all e p packet d) = exit_view d" "lease_view (send_to_all e p packet d) = lease_view d"
  "exit_view (broadcast e packet d) = exit_view d" "lease_view (broadcast e packet d) = lease_view d"
  "exit_view (send_to e i packet d) = exit_view d" "lease_view (send_to e i packet d) = lease_view d"
  by (simp_all add: send_to_all_def broadcast_def send_to_def view_simps)

lemma view_write_input [view_simps]:
  "exit_view (write_input data d) = exit_view d" "lease_view (write_input data d) = lease_view d"
  by (simp_all add: write_input_def view_simps)

lemma view_resize_pty [view_simps]:
  "exit_view (resize_pty e r c d) = exit_view d" "lease_view (resize_pty e r c d) = lease_view d"
  by (simp_all add: resize_pty_def view_simps split: prod.split)

lemma view_forward [view_simps]:
  "exit_view (forward_terminal_events e d) = exit_view d" "lease_view (forward_terminal_events e d) = lease_view d"
proof -
  have "filter (\<lambda>x. case x of LogSessionExit _ _ \<Rightarrow> True | _ \<Rightarrow> False) (map LogTerminalEvent xs) = []" for xs
    by (induction xs) simp_all
  then show "exit_view (forward_terminal_events e d) = exit_view d"
    "lease_view (forward_terminal_events e d) = lease_view d"
    by (simp_all add: forward_terminal_events_def views_def split: prod.split)
qed

lemma view_negotiate [view_simps]:
  "exit_view (snd (negotiate_size e d)) = exit_view d" "lease_view (snd (negotiate_size e d)) = lease_view d"
  by (simp_all add: negotiate_size_def broadcast_geometry_def write_pty_def Let_def view_simps split: prod.split)

lemma view_nudge [view_simps]:
  "exit_view (nudge_redraw e d) = exit_view d" "lease_view (nudge_redraw e d) = lease_view d"
  by (simp_all add: nudge_redraw_def Let_def view_simps)

lemma view_write_generation [view_simps]:
  "exit_view (write_client_generation e d) = exit_view d" "lease_view (write_client_generation e d) = lease_view d"
proof -
  have "exit_view (x\<lparr>d_client_meta_retry := a\<rparr>) = exit_view x" "lease_view (x\<lparr>d_client_meta_retry := a\<rparr>) = lease_view x"
    "exit_view (x\<lparr>d_pending_attach_at := b, d_client_meta_retry := a\<rparr>) = exit_view x"
    "lease_view (x\<lparr>d_pending_attach_at := b, d_client_meta_retry := a\<rparr>) = lease_view x" for x :: "'a Daemon" and a b
    by (simp_all add: views_def)
  then show "exit_view (write_client_generation e d) = exit_view d"
    "lease_view (write_client_generation e d) = lease_view d"
    by (simp_all add: write_client_generation_def Let_def view_simps split: prod.split option.split)
qed

lemma view_note [view_simps]:
  "exit_view (note_client_change e s d) = exit_view d" "lease_view (note_client_change e s d) = lease_view d"
proof -
  have "exit_view (x\<lparr>d_published_client_facts := f, d_client_generation := g, d_pending_attach_at := b,
      d_client_meta_retry := a\<rparr>) = exit_view x"
    "lease_view (x\<lparr>d_published_client_facts := f, d_client_generation := g, d_pending_attach_at := b,
      d_client_meta_retry := a\<rparr>) = lease_view x" for x :: "'a Daemon" and a b f g
    by (simp_all add: views_def)
  then show "exit_view (note_client_change e s d) = exit_view d"
    "lease_view (note_client_change e s d) = lease_view d"
    by (simp_all add: note_client_change_def Let_def view_simps)
qed

lemma view_cut [view_simps]:
  "exit_view (cut e i d) = exit_view d" "lease_view (cut e i d) = lease_view d"
  by (simp_all add: cut_def Let_def view_simps split: option.split Phase.split)

lemma view_schedule [view_simps]:
  "exit_view (schedule_cut e i g k t d) = exit_view d" "lease_view (schedule_cut e i g k t d) = lease_view d"
  by (simp_all add: schedule_cut_def Let_def view_simps)

lemma view_service_cuts [view_simps]:
  "exit_view (service_cuts e d) = exit_view d" "lease_view (service_cuts e d) = lease_view d"
proof -
  have "exit_view (fold (cut e) xs d) = exit_view d" "lease_view (fold (cut e) xs d) = lease_view d" for xs
    by (induction xs arbitrary: d) (simp_all add: view_simps)
  then show "exit_view (service_cuts e d) = exit_view d" "lease_view (service_cuts e d) = lease_view d"
    by (simp_all add: service_cuts_def)
qed

lemma view_adopt [view_simps]:
  "exit_view (snd (adopt_cell_size e pl d)) = exit_view d" "lease_view (snd (adopt_cell_size e pl d)) = lease_view d"
  by (simp_all add: adopt_cell_size_def Let_def view_simps split: option.split prod.split)

section \<open>Packets\<close>

lemma view_attach [view_simps]:
  "exit_view (on_attach e i pl d) = exit_view d" "lease_view (on_attach e i pl d) = lease_view d"
  by (simp_all add: on_attach_def finish_attach_def Let_def view_simps case_prod_beta split: option.split)

lemma view_peek [view_simps]:
  "exit_view (on_peek e i pl d) = exit_view d" "lease_view (on_peek e i pl d) = lease_view d"
  by (simp_all add: on_peek_def finish_peek_def Let_def view_simps case_prod_beta split: option.split)

lemma view_resize [view_simps]:
  "exit_view (on_resize e i pl d) = exit_view d" "lease_view (on_resize e i pl d) = lease_view d"
  by (simp_all add: on_resize_def finish_resize_def Let_def view_simps case_prod_beta split: option.split)

lemma view_closed [view_simps]:
  "exit_view (on_closed e i d) = exit_view d" "lease_view (on_closed e i d) = lease_view d"
  by (simp_all add: on_closed_def Let_def view_simps split: option.split)

lemma view_detach [view_simps]:
  "exit_view (on_detach e i d) = exit_view d" "lease_view (on_detach e i d) = lease_view d"
  by (simp_all add: on_detach_def view_simps)

lemma view_plain_packets [view_simps]:
  "exit_view (on_history e i pl d) = exit_view d" "lease_view (on_history e i pl d) = lease_view d"
  "exit_view (on_data i pl d) = exit_view d" "lease_view (on_data i pl d) = lease_view d"
  "exit_view (on_status e i pl d) = exit_view d" "lease_view (on_status e i pl d) = lease_view d"
  "exit_view (on_reset_input_modes e i pl d) = exit_view d" "lease_view (on_reset_input_modes e i pl d) = lease_view d"
  "exit_view (on_accepted_socket_ownership e i pl d) = exit_view d"
  "lease_view (on_accepted_socket_ownership e i pl d) = lease_view d"
  by (simp_all add: on_history_def on_data_def on_status_def on_reset_input_modes_def
      on_accepted_socket_ownership_def Let_def view_simps split: option.split prod.split)

lemma view_connect [view_simps]:
  "exit_view (on_connect e i d) = exit_view d" "lease_view (on_connect e i d) = lease_view d"
  by (simp_all add: on_connect_def view_simps)

lemma view_pty_data [view_simps]:
  "exit_view (on_pty_data e data d) = exit_view d" "lease_view (on_pty_data e data d) = lease_view d"
proof -
  have "exit_view (stamp_output_activity e d) = exit_view d" "lease_view (stamp_output_activity e d) = lease_view d"
    by (simp_all add: stamp_output_activity_def views_def)
  then show "exit_view (on_pty_data e data d) = exit_view d" "lease_view (on_pty_data e data d) = lease_view d"
    by (simp_all add: on_pty_data_def write_pty_def Let_def view_simps case_prod_beta)
qed

section \<open>The lease and the exit record\<close>

lemma view_log_write [view_simps]:
  "exit_view (log_write r d) = exit_view d" "lease_view (log_write r d) = lease_view d"
  by (simp_all add: log_write_def view_simps split: option.split)

lemma exit_view_lease_fields [view_simps]:
  "exit_view (d\<lparr>d_lease_disarmed := a\<rparr>) = exit_view d" "exit_view (d\<lparr>d_lease_timer := b\<rparr>) = exit_view d"
  "exit_view (d\<lparr>d_lease_terminal := c\<rparr>) = exit_view d"
  "exit_view (d\<lparr>d_deadline_pending_shutdown := p\<rparr>) = exit_view d"
  "exit_view (d\<lparr>d_teardown_frozen := f\<rparr>) = exit_view d" "exit_view (d\<lparr>d_teardown_tree := t\<rparr>) = exit_view d"
  "exit_view (d\<lparr>d_external_kill := k\<rparr>) = exit_view d" "exit_view (d\<lparr>d_shutdown_code := s\<rparr>) = exit_view d"
  by (simp_all add: views_def)

lemma exit_view_settle [view_simps]: "exit_view (snd (settle_startup_lifecycle e u c f d)) = exit_view d"
  by (simp add: settle_startup_lifecycle_def Let_def view_simps split: option.split MutateStatus.split)

lemma exit_view_deadline [view_simps]: "exit_view (snd (settle_startup_deadline e d)) = exit_view d"
  by (simp add: settle_startup_deadline_def freeze_child_tree_def resume_frozen_tree_def Let_def view_simps
      case_prod_beta)

lemma exit_view_service_lease [view_simps]: "exit_view (service_startup_lease e d) = exit_view d"
proof -
  obtain v d1 where eq: "settle_startup_deadline e d = (v, d1)" by fastforce
  moreover have "exit_view d1 = exit_view d" using exit_view_deadline [of e d] eq by simp
  ultimately show ?thesis
    by (simp add: service_startup_lease_def Let_def view_simps split: option.split)
qed

lemma exit_view_lifecycle [view_simps]: "exit_view (on_lifecycle_cas e i pl d) = exit_view d"
proof -
  have a: "exit_view (after_lifecycle_cas e req x) = exit_view x" for req and x :: "'a Daemon"
    by (simp add: after_lifecycle_cas_def Let_def view_simps split: option.split)
  obtain v d1 where eq: "settle_startup_deadline e d = (v, d1)" by fastforce
  have "exit_view d1 = exit_view d" using exit_view_deadline [of e d] eq by simp
  then have b: "exit_view (snd (expired_lifecycle e d)) = exit_view d"
    by (simp add: expired_lifecycle_def eq view_simps split: option.split)
  obtain w d2 where ex: "settle_startup_lifecycle e IoLease CauseExit True d = (w, d2)" by fastforce
  have c: "exit_view d2 = exit_view d"
    using exit_view_settle [of e IoLease CauseExit True d] ex by simp
  have "exit_view (snd (compare_and_set_lifecycle e req d)) = exit_view d" for req
    by (simp add: compare_and_set_lifecycle_def a b c ex Let_def view_simps
        split: option.split prod.split TagCompareAndSetResult.split)
  then show ?thesis by (simp add: on_lifecycle_cas_def case_prod_beta view_simps split: option.split)
qed

lemma exit_view_packet [view_simps]: "exit_view (on_packet e i p d) = exit_view d"
  by (simp add: on_packet_def view_simps split: MessageType.split)

lemma view_save_exit [view_simps]:
  "exit_view (snd (save_exit_metadata e d)) = exit_view d" "lease_view (snd (save_exit_metadata e d)) = lease_view d"
  by (simp_all add: save_exit_metadata_def Let_def view_simps split: option.split)

lemma view_activity [view_simps]:
  "exit_view (service_activity e d) = exit_view d" "lease_view (service_activity e d) = lease_view d"
proof -
  have "exit_view (x\<lparr>d_activity_persist_at := t\<rparr>) = exit_view x" "lease_view (x\<lparr>d_activity_persist_at := t\<rparr>) = lease_view x"
    for x :: "'a Daemon" and t by (simp_all add: views_def)
  then show "exit_view (service_activity e d) = exit_view d" "lease_view (service_activity e d) = lease_view d"
    by (simp_all add: service_activity_def persist_output_activity_def Let_def view_simps split: option.split)
qed

lemma view_service_small [view_simps]:
  "exit_view (service_client_retry e d) = exit_view d" "lease_view (service_client_retry e d) = lease_view d"
  "exit_view (service_sweep e d) = exit_view d" "lease_view (service_sweep e d) = lease_view d"
proof -
  have "exit_view (x\<lparr>d_temp_sweep_at := t\<rparr>) = exit_view x" "lease_view (x\<lparr>d_temp_sweep_at := t\<rparr>) = lease_view x"
    for x :: "'a Daemon" and t by (simp_all add: views_def)
  then show "exit_view (service_client_retry e d) = exit_view d" "lease_view (service_client_retry e d) = lease_view d"
    "exit_view (service_sweep e d) = exit_view d" "lease_view (service_sweep e d) = lease_view d"
    by (simp_all add: service_client_retry_def service_sweep_def view_simps split: option.split)
qed

lemma view_exit_retry [view_simps]:
  "exit_view (service_exit_retry e d) = exit_view d" "lease_view (service_exit_retry e d) = lease_view d"
proof -
  have "exit_view (x\<lparr>d_exit_meta_retry := t\<rparr>) = exit_view x" "lease_view (x\<lparr>d_exit_meta_retry := t\<rparr>) = lease_view x"
    for x :: "'a Daemon" and t by (simp_all add: views_def)
  then show "exit_view (service_exit_retry e d) = exit_view d" "lease_view (service_exit_retry e d) = lease_view d"
    by (simp_all add: service_exit_retry_def Let_def case_prod_beta view_simps split: option.split)
qed

lemma exit_view_operation [view_simps]:
  "exit_view (d\<lparr>d_operation := x\<rparr>) = exit_view d" "lease_view (d\<lparr>d_operation := x\<rparr>) = lease_view d"
  "exit_view (snd (holds status d)) = exit_view d" "lease_view (snd (holds status d)) = lease_view d"
  "exit_view (snd (intercepts_kill d)) = exit_view d" "lease_view (snd (intercepts_kill d)) = lease_view d"
proof -
  show v: "exit_view (x\<lparr>d_operation := y\<rparr>) = exit_view x" "lease_view (x\<lparr>d_operation := y\<rparr>) = lease_view x"
    for x :: "'a Daemon" and y by (simp_all add: views_def)
  show "exit_view (snd (holds status d)) = exit_view d" "lease_view (snd (holds status d)) = lease_view d"
    "exit_view (snd (intercepts_kill d)) = exit_view d" "lease_view (snd (intercepts_kill d)) = lease_view d"
    by (simp_all add: holds_def intercepts_kill_def v view_simps split: option.split)
qed

section \<open>The exit in the books\<close>

lemma same_books_settle: "same_books d (snd (settle_startup_lifecycle e u c f d))"
  by (rule same_books_fields) simp_all

lemma same_books_save_exit: "same_books d (snd (save_exit_metadata e d))"
  by (rule same_books_fields) (simp_all add: save_exit_metadata_def Let_def effect_def split: option.split)

lemma same_books_finalize: "same_books d (finalize_exit e d)"
proof -
  define d0 where "d0 = snd (settle_startup_lifecycle e IoExitLease CauseExit True d)"
  define code where "code = exit_code_of (case d_child_status d of Some s \<Rightarrow> s | None \<Rightarrow> \<lparr>es_code = None, es_signal = None\<rparr>)"
  define d1 where "d1 = d0\<lparr>d_exited := True, d_exit_code := code, d_exit_drain_deadline := None,
      d_actor := t_end_stream (e_ops e) (d_actor d0)\<rparr>"
  have s1: "same_books d d1" unfolding d1_def
    by (rule same_books_trans [OF same_books_settle [of d e IoExitLease CauseExit True, folded d0_def]])
      (rule same_books_fields; simp)
  define d4 where "d4 = effect (LogSessionExit code
      (es_signal (case d_child_status d of Some s \<Rightarrow> s | None \<Rightarrow> \<lparr>es_code = None, es_signal = None\<rparr>)))
      (broadcast e (encode_exit code) (forward_terminal_events e d1))"
  have s4: "same_books d d4" unfolding d4_def broadcast_def using s1 by (intro same_books_after)
  have s5: "same_books d (snd (save_exit_metadata e d4))" by (rule same_books_trans [OF s4 same_books_save_exit])
  have r: "same_books d (x\<lparr>d_exit_meta_retry := a\<rparr>)" "same_books d (x\<lparr>d_exit_shutdown_at := b\<rparr>)"
    if "same_books d x" for x a b by (rule same_books_trans [OF that same_books_fields]; simp)+
  show ?thesis
    unfolding finalize_exit_def Let_def d0_def [symmetric] code_def [symmetric] d1_def [symmetric] d4_def [symmetric]
    by (simp add: case_prod_beta s5 r)
qed

lemma same_books_services:
  "same_books d (service_activity e d)" "same_books d (service_client_retry e d)" "same_books d (service_sweep e d)"
  "same_books d (service_exit_retry e d)" "same_books d (service_exit_drain e d)"
  "same_books d (service_startup_lease e d)" "same_books d (service_shutdown e d)"
proof -
  show "same_books d (service_activity e d)" "same_books d (service_sweep e d)" "same_books d (service_shutdown e d)"
    "same_books d (service_startup_lease e d)"
    by (rule same_books_fields; simp add: service_activity_def persist_output_activity_def service_sweep_def
        service_shutdown_def effect_def Let_def split: option.split)+
  show "same_books d (service_client_retry e d)"
    by (simp add: service_client_retry_def same_books_write_generation split: option.split prod.split)
  have "same_books d (x\<lparr>d_exit_meta_retry := a\<rparr>)" if "same_books d x" for x a
    by (rule same_books_trans [OF that same_books_fields]; simp)
  then show "same_books d (service_exit_retry e d)"
    by (simp add: service_exit_retry_def Let_def case_prod_beta same_books_save_exit split: option.split)
  have "same_books d (finalize_exit e (d\<lparr>d_exit_drain_deadline := None\<rparr>))"
    by (rule same_books_trans [OF same_books_fields same_books_finalize]) simp_all
  moreover have "same_books d (d\<lparr>d_exit_drain_deadline := None\<rparr>)" by (rule same_books_fields; simp)
  ultimately show "same_books d (service_exit_drain e d)"
    by (simp add: service_exit_drain_def Let_def split: option.split)
qed

lemma service_timers_inv: "daemon_inv d \<Longrightarrow> daemon_inv (service_timers e d)"
  unfolding service_timers_def
  by (intro daemon_inv_same [OF same_books_services(7)] daemon_inv_same [OF same_books_services(6)]
      daemon_inv_same [OF same_books_services(4)] daemon_inv_same [OF same_books_services(5)]
      daemon_inv_same [OF same_books_services(2)] daemon_inv_same [OF same_books_services(1)]
      daemon_inv_same [OF same_books_services(3)] service_cuts_inv)

lemma holds_clients [simp]:
  "d_clients (snd (holds status d)) = d_clients d" "d_attach_counter (snd (holds status d)) = d_attach_counter d"
  "d_clients (snd (intercepts_kill d)) = d_clients d" "d_attach_counter (snd (intercepts_kill d)) = d_attach_counter d"
  by (simp_all add: holds_def intercepts_kill_def effect_def split: option.split)

lemma same_books_child_exited: "same_books d (on_child_exited e status d)"
proof -
  obtain b d0 where h: "holds status d = (b, d0)" by fastforce
  have s0: "same_books d (d0\<lparr>d_child_status := s\<rparr>)" "same_books d d0" for s
    using holds_clients(1,2) [of status d] h by (simp_all add: same_books_fields)
  have "same_books d (finalize_exit e (d0\<lparr>d_child_status := s\<rparr>))"
    "same_books d (d0\<lparr>d_child_status := s, d_exit_drain_deadline := t\<rparr>)" for s t
    using s0 h holds_clients(1,2) [of status d]
    by (simp_all add: same_books_trans [OF s0(1) same_books_finalize] same_books_fields)
  then show ?thesis using s0 by (simp add: on_child_exited_def h Let_def split: bool.split)
qed

lemma handle_inv:
  assumes "daemon_inv d"
  shows "daemon_inv (handle e m d)"
proof -
  have k: "same_books d (on_external_kill d)"
    using holds_clients(3,4) [of d]
    by (cases "intercepts_kill d") (auto simp: on_external_kill_def intro: same_books_fields split: bool.split)
  have "same_books d (on_operation_transferred e d)" "same_books d (on_operation_end code d)" for code
    unfolding on_operation_transferred_def on_operation_end_def Let_def
    by (auto intro: same_books_fields same_books_trans [OF same_books_fields same_books_child_exited] split: option.split)
  moreover have "same_books d (on_pty_eof e d)"
    by (auto simp: on_pty_eof_def Let_def intro: same_books_fields same_books_trans [OF same_books_fields same_books_finalize])
  ultimately show ?thesis
    using assms k daemon_inv_same [OF same_books_child_exited assms]
    by (cases m) (auto simp: handle_def on_packet_inv on_closed_inv on_connect_inv on_pty_data_inv
        intro: daemon_inv_same)
qed

end
