(* ===== verification/Daemon_Session.thy ===== *)
theory Daemon_Session
  imports Daemon_Views
begin

text \<open>
  The daemon as a state machine: any sequence of messages, timer services and writer steps, with any
  answers of the outside world. The invariant of the connections, the end of the session and the
  startup deadline are shown for every reachable state.
\<close>

section \<open>Steps\<close>

inductive daemon_step :: "'t Daemon \<Rightarrow> 't Daemon \<Rightarrow> bool" where
  step_message: "daemon_step d (handle e m d)"
| step_timers: "daemon_step d (service_timers e d)"
| step_written: "daemon_step d (update_client i writer_done d)"
| step_writer_gone: "daemon_step d (update_client i writer_ends d)"
| step_locks_frame: "daemon_step d (update_client i (\<lambda>c. c\<lparr>c_frame_locked := b\<rparr>) d)"
| step_transfer: "d_operation d = Some op \<Longrightarrow> daemon_step d (d\<lparr>d_operation := Some (op\<lparr>ol_transferred := True\<rparr>)\<rparr>)"

inductive_cases daemon_stepE: "daemon_step d d'"

definition fresh_daemon :: "'t Daemon \<Rightarrow> bool" where
  "fresh_daemon d \<longleftrightarrow> (\<exists>actor rows cols now settle generation lease monotonic op.
     d = assemble actor rows cols now settle generation lease monotonic op)"

abbreviation session_state :: "'t Daemon \<Rightarrow> bool" where
  "session_state \<equiv> reachable fresh_daemon daemon_step"

text \<open>A turn of the loop is two steps.\<close>

lemma serve_turn_steps: "daemon_step\<^sup>*\<^sup>* d (snd (serve_turn e e' msg d))"
proof (cases msg)
  case (Some m)
  show ?thesis
    unfolding serve_turn_def Let_def Some
    using rtranclp.rtrancl_into_rtrancl [OF r_into_rtranclp [of daemon_step, OF step_message [of d e m]] step_timers]
    by simp
qed (auto simp: serve_turn_def Let_def intro: step_timers)

section \<open>The end of the session\<close>

definition exit_inv :: "'t Daemon \<Rightarrow> bool" where
  "exit_inv d \<longleftrightarrow>
     (d_exited d \<longrightarrow> d_child_status d \<noteq> None \<and> (d_exit_shutdown_at d \<noteq> None \<or> d_shutdown_code d \<noteq> None)
        \<and> d_exit_code d = exit_code_of (the (d_child_status d)))
     \<and> (d_child_status d \<noteq> None \<and> \<not> d_exited d \<longrightarrow> d_exit_drain_deadline d \<noteq> None)
     \<and> exit_logs d = (if d_exited d then [LogSessionExit (d_exit_code d) (es_signal (the (d_child_status d)))] else [])
     \<and> (d_deadline_pending_shutdown d \<longrightarrow> d_lease_terminal d \<noteq> None)"

text \<open>What finalising the exit does to the views.\<close>

lemma exit_viewD:
  assumes "exit_view x = exit_view y"
  shows "d_exited x = d_exited y" "d_exit_code x = d_exit_code y" "d_child_status x = d_child_status y"
    "d_pty_eof x = d_pty_eof y" "d_exit_drain_deadline x = d_exit_drain_deadline y"
    "d_exit_shutdown_at x = d_exit_shutdown_at y" "exit_logs x = exit_logs y"
  using assms by (simp_all add: exit_view_def)

lemma lease_viewD:
  assumes "lease_view x = lease_view y"
  shows "d_startup_lease x = d_startup_lease y" "d_lease_terminal x = d_lease_terminal y"
    "d_deadline_pending_shutdown x = d_deadline_pending_shutdown y" "d_shutdown_code x = d_shutdown_code y"
    "d_generation x = d_generation y"
  using assms by (simp_all add: lease_view_def)

lemma settle_lease:
  assumes "settle_startup_lifecycle e u c f d = (v, d1)"
  shows "d_deadline_pending_shutdown d1 = d_deadline_pending_shutdown d" "d_shutdown_code d1 = d_shutdown_code d"
    "d_external_kill d1 = d_external_kill d" "v \<noteq> None \<Longrightarrow> d_lease_terminal d1 = v"
    "d_lease_terminal d \<noteq> None \<Longrightarrow> d_lease_terminal d1 = d_lease_terminal d"
  using assms
  by (auto simp: settle_startup_lifecycle_def log_write_def effect_def Let_def
      split: option.splits MutateStatus.splits if_splits)

lemma finalize_exit_view:
  assumes s: "d_child_status d = Some s"
  shows "exit_view (finalize_exit e d) =
      (True, exit_code_of s, Some s, d_pty_eof d, None,
       if d_shutdown_code d = None then Some (e_now e + EXIT_GRACE) else d_exit_shutdown_at d,
       exit_logs d @ [LogSessionExit (exit_code_of s) (es_signal s)])"
    and "d_deadline_pending_shutdown (finalize_exit e d) = d_deadline_pending_shutdown d"
    and "d_shutdown_code (finalize_exit e d) = d_shutdown_code d"
    and "d_lease_terminal d \<noteq> None \<Longrightarrow> d_lease_terminal (finalize_exit e d) \<noteq> None"
proof -
  obtain v d0 where st: "settle_startup_lifecycle e IoExitLease CauseExit True d = (v, d0)" by fastforce
  note lease = settle_lease [OF st]
  have x0: "exit_view d0 = exit_view d" using exit_view_settle [of e IoExitLease CauseExit True d] st by simp
  define d1 where "d1 = d0\<lparr>d_exited := True, d_exit_code := exit_code_of s, d_exit_drain_deadline := None,
      d_actor := t_end_stream (e_ops e) (d_actor d0)\<rparr>"
  define d3 where "d3 = broadcast e (encode_exit (exit_code_of s)) (forward_terminal_events e d1)"
  have v3: "exit_view d3 = exit_view d1" "lease_view d3 = lease_view d0"
    by (simp_all add: d3_def view_simps) (simp add: d1_def views_def)
  define d4 where "d4 = effect (LogSessionExit (exit_code_of s) (es_signal s)) d3"
  obtain saved d5 where sv: "save_exit_metadata e d4 = (saved, d5)" by fastforce
  have v5: "exit_view d5 = exit_view d4" "lease_view d5 = lease_view d4"
    using view_save_exit [of e d4] sv by simp_all
  have e4: "exit_view d4 = (True, exit_code_of s, Some s, d_pty_eof d, None, d_exit_shutdown_at d,
      exit_logs d @ [LogSessionExit (exit_code_of s) (es_signal s)])"
    using exit_viewD [OF v3(1)] exit_viewD [OF x0] s
    by (simp add: d4_def effect_def d1_def exit_view_def exit_logs_def)
  have l4: "lease_view d4 = lease_view d0" using v3(2) by (simp add: d4_def view_simps)
  have f: "finalize_exit e d = (let d6 = (if saved = Busy \<or> saved = Stale
      then d5\<lparr>d_exit_meta_retry := Some (e_now e + 10, e_now e + EXIT_METADATA_RETRY)\<rparr> else d5)
      in if d_shutdown_code d6 = None then d6\<lparr>d_exit_shutdown_at := Some (e_now e + EXIT_GRACE)\<rparr> else d6)"
    by (simp add: finalize_exit_def s st sv [unfolded d4_def d3_def d1_def] Let_def)
  note d5 = lease_viewD [OF v5(2)] lease_viewD [OF l4]
  show "exit_view (finalize_exit e d) =
      (True, exit_code_of s, Some s, d_pty_eof d, None,
       if d_shutdown_code d = None then Some (e_now e + EXIT_GRACE) else d_exit_shutdown_at d,
       exit_logs d @ [LogSessionExit (exit_code_of s) (es_signal s)])"
    using e4 v5(1) d5 lease by (simp add: f Let_def exit_view_def exit_logs_def)
  show "d_deadline_pending_shutdown (finalize_exit e d) = d_deadline_pending_shutdown d"
    "d_shutdown_code (finalize_exit e d) = d_shutdown_code d"
    "d_lease_terminal d \<noteq> None \<Longrightarrow> d_lease_terminal (finalize_exit e d) \<noteq> None"
    using d5 lease by (simp_all add: f Let_def)
qed

lemma finalize_exit_inv:
  assumes "d_child_status d = Some s" "exit_logs d = []" "d_deadline_pending_shutdown d \<longrightarrow> d_lease_terminal d \<noteq> None"
  shows "exit_inv (finalize_exit e d)"
  using finalize_exit_view [OF assms(1), of e] assms(2,3)
  by (auto simp: exit_inv_def exit_view_def)

lemma finalize_exit_keeps_inv:
  assumes "exit_inv d" "\<not> d_exited d" "d_child_status d' \<noteq> None" "exit_logs d' = exit_logs d"
    "d_deadline_pending_shutdown d' = d_deadline_pending_shutdown d" "d_lease_terminal d' = d_lease_terminal d"
  shows "exit_inv (finalize_exit e d')"
proof -
  obtain s where "d_child_status d' = Some s" using assms(3) by auto
  then show ?thesis by (rule finalize_exit_inv) (use assms in \<open>simp_all add: exit_inv_def\<close>)
qed

lemma exit_inv_views:
  "exit_view d' = exit_view d \<Longrightarrow> lease_view d' = lease_view d \<Longrightarrow> exit_inv d \<Longrightarrow> exit_inv d'"
  by (simp add: exit_inv_def exit_view_def lease_view_def)

text \<open>The lease only moves towards its end.\<close>

lemma exit_inv_lease:
  "exit_view d' = exit_view d \<Longrightarrow> (d_shutdown_code d \<noteq> None \<Longrightarrow> d_shutdown_code d' \<noteq> None) \<Longrightarrow>
     (d_deadline_pending_shutdown d' \<Longrightarrow> d_lease_terminal d' \<noteq> None) \<Longrightarrow> exit_inv d \<Longrightarrow> exit_inv d'"
  unfolding exit_inv_def exit_view_def by auto

lemma settle_deadline_lease:
  assumes "settle_startup_deadline e d = (v, d1)"
  shows "d_deadline_pending_shutdown d1 = d_deadline_pending_shutdown d" "d_shutdown_code d1 = d_shutdown_code d"
    "d_external_kill d1 = d_external_kill d" "v \<noteq> None \<Longrightarrow> d_lease_terminal d1 = v"
    "d_lease_terminal d \<noteq> None \<Longrightarrow> d_lease_terminal d1 = d_lease_terminal d"
proof -
  define d0 where "d0 = (if d_teardown_tree d = None then freeze_child_tree e d else d)"
  obtain w d2 where st: "settle_startup_lifecycle e IoLease
      (startup_lease_deadline_cause (d_teardown_tree d0 = Some True)) False d0 = (w, d2)" by fastforce
  have d1: "v = w" "d1 = (if w = None \<and> d_lease_disarmed d2 then resume_frozen_tree d2 else d2)"
    using assms by (auto simp: settle_startup_deadline_def d0_def [symmetric] st Let_def)
  have d0: "d_deadline_pending_shutdown d0 = d_deadline_pending_shutdown d" "d_shutdown_code d0 = d_shutdown_code d"
    "d_external_kill d0 = d_external_kill d" "d_lease_terminal d0 = d_lease_terminal d"
    by (simp_all add: d0_def freeze_child_tree_def effect_def)
  show "d_deadline_pending_shutdown d1 = d_deadline_pending_shutdown d" "d_shutdown_code d1 = d_shutdown_code d"
    "d_external_kill d1 = d_external_kill d" "v \<noteq> None \<Longrightarrow> d_lease_terminal d1 = v"
    "d_lease_terminal d \<noteq> None \<Longrightarrow> d_lease_terminal d1 = d_lease_terminal d"
    using settle_lease [OF st] d0 d1 by (auto simp: resume_frozen_tree_def effect_def)
qed

lemma exit_inv_pending: "exit_inv d \<Longrightarrow> d_deadline_pending_shutdown d \<Longrightarrow> d_lease_terminal d \<noteq> None"
  by (simp add: exit_inv_def)

lemma service_lease_exit_inv:
  assumes "exit_inv d"
  shows "exit_inv (service_startup_lease e d)"
proof -
  obtain v d1 where st: "settle_startup_deadline e d = (v, d1)" by fastforce
  note settled = settle_deadline_lease [OF st] and p = exit_inv_pending [OF assms]
  show ?thesis
  proof (rule exit_inv_lease [OF exit_view_service_lease _ _ assms])
    show "d_shutdown_code d \<noteq> None \<Longrightarrow> d_shutdown_code (service_startup_lease e d) \<noteq> None"
      using settled by (auto simp: service_startup_lease_def st Let_def split: option.split)
    show "d_deadline_pending_shutdown (service_startup_lease e d) \<Longrightarrow> d_lease_terminal (service_startup_lease e d) \<noteq> None"
      using settled p by (auto simp: service_startup_lease_def st Let_def split: option.splits if_splits)
  qed
qed

lemma lifecycle_cas_lease:
  assumes p: "d_deadline_pending_shutdown d \<longrightarrow> d_lease_terminal d \<noteq> None"
    and r: "compare_and_set_lifecycle e req d = (res, d')"
  shows "d_shutdown_code d' = d_shutdown_code d \<and> (d_deadline_pending_shutdown d' \<longrightarrow> d_lease_terminal d' \<noteq> None)"
proof -
  have a: "d_shutdown_code (after_lifecycle_cas e req x) = d_shutdown_code x"
    "d_deadline_pending_shutdown (after_lifecycle_cas e req x) = d_deadline_pending_shutdown x"
    "d_lease_terminal x \<noteq> None \<Longrightarrow> d_lease_terminal (after_lifecycle_cas e req x) \<noteq> None" for x :: "'a Daemon"
    by (auto simp: after_lifecycle_cas_def Let_def split: option.split)
  obtain w d2 where ex: "settle_startup_lifecycle e IoLease CauseExit True d = (w, d2)" by fastforce
  obtain v d1 where st: "settle_startup_deadline e d = (v, d1)" by fastforce
  let ?d = "case snd (the (compare_and_set_tag_value (e_io e IoLease) (cas_expected_generation req) (cas_tag req)
      (cas_expected_value req) (cas_value req))) of Some w \<Rightarrow> effect (WriteRecord w) d | None \<Rightarrow> d"
  have f: "d_shutdown_code ?d = d_shutdown_code d" "d_deadline_pending_shutdown ?d = d_deadline_pending_shutdown d"
    "d_lease_terminal ?d = d_lease_terminal d"
    by (simp_all add: effect_def split: option.split)
  have "d' \<in> {d, d2, snd (expired_lifecycle e d), ?d, after_lifecycle_cas e req ?d}"
    using r by (auto simp: compare_and_set_lifecycle_def ex Let_def split: if_splits option.splits prod.splits
        TagCompareAndSetResult.splits)
  moreover have "d_shutdown_code (snd (expired_lifecycle e d)) = d_shutdown_code d
      \<and> (d_deadline_pending_shutdown (snd (expired_lifecycle e d)) \<longrightarrow> d_lease_terminal (snd (expired_lifecycle e d)) \<noteq> None)"
    using settle_deadline_lease [OF st] p by (auto simp: expired_lifecycle_def st split: option.splits)
  ultimately show ?thesis using p settle_lease [OF ex] f a [of ?d] by auto
qed

lemma packet_exit_inv:
  assumes "exit_inv d"
  shows "exit_inv (on_packet e i p d)"
proof (cases "ptype p = LifecycleCas")
  case True
  have "exit_inv (on_lifecycle_cas e i pl d)" for pl
  proof (cases "decode_lifecycle_compare_and_set_request (e_lifecycle_request e) pl")
    case (Some req)
    obtain res d' where r: "compare_and_set_lifecycle e req d = (res, d')" by fastforce
    have "on_lifecycle_cas e i pl d = send_to e i (encode_json (e_lifecycle_json e) LifecycleCas res) d'"
      by (simp add: on_lifecycle_cas_def Some r)
    moreover have "exit_view (on_lifecycle_cas e i pl d) = exit_view d" by (rule exit_view_lifecycle)
    ultimately show ?thesis
      using lifecycle_cas_lease [OF _ r] exit_inv_pending [OF assms] lease_viewD [OF view_send(6) [of e i _ d']]
      by (intro exit_inv_lease [OF exit_view_lifecycle _ _ assms]) auto
  next
    case None
    then show ?thesis using assms
      by (intro exit_inv_views [OF exit_view_lifecycle _ assms]) (simp add: on_lifecycle_cas_def view_simps)
  qed
  then show ?thesis by (simp add: on_packet_def True)
next
  case False
  then have "lease_view (on_packet e i p d) = lease_view d"
    by (simp add: on_packet_def view_simps split: MessageType.split)
  then show ?thesis by (rule exit_inv_views [OF exit_view_packet _ assms])
qed

lemma child_exited_exit_inv:
  assumes "exit_inv d"
  shows "exit_inv (on_child_exited e status d)"
proof -
  obtain b d0 where h: "holds status d = (b, d0)" by fastforce
  have i0: "exit_inv d0" using exit_inv_views [OF _ _ assms, of d0] exit_view_operation(3,4) [of status d] h by simp
  then have "exit_inv (finalize_exit e (d0\<lparr>d_child_status := Some status\<rparr>))" if "d_child_status d0 = None"
    using that by (intro finalize_exit_keeps_inv [of d0]) (auto simp: exit_inv_def exit_logs_def)
  moreover have "exit_inv (d0\<lparr>d_child_status := Some status, d_exit_drain_deadline := Some t\<rparr>)"
    "\<not> d_exited d0" if "d_child_status d0 = None" for t
    using that i0 by (auto simp: exit_inv_def exit_logs_def)
  ultimately show ?thesis using i0 by (auto simp: on_child_exited_def h Let_def split: bool.split)
qed

lemma handle_exit_inv:
  assumes "exit_inv d"
  shows "exit_inv (handle e m d)"
proof -
  have "exit_inv (on_pty_eof e d)"
  proof -
    have "exit_inv (finalize_exit e (d\<lparr>d_pty_eof := True\<rparr>))" if "d_child_status d \<noteq> None" "\<not> d_exited d"
      using that assms by (intro finalize_exit_keeps_inv [of d]) (simp_all add: exit_logs_def)
    moreover have "exit_inv (d\<lparr>d_pty_eof := True\<rparr>)" using assms by (simp add: exit_inv_def exit_logs_def)
    ultimately show ?thesis by (simp add: on_pty_eof_def Let_def)
  qed
  moreover have "exit_inv (on_external_kill d)"
  proof -
    obtain b d0 where h: "intercepts_kill d = (b, d0)" by fastforce
    have "exit_inv d0" using exit_inv_views [OF _ _ assms, of d0] exit_view_operation(5,6) [of d] h by simp
    then show ?thesis by (auto simp: on_external_kill_def h exit_inv_def exit_logs_def split: bool.split)
  qed
  moreover have "exit_inv (on_operation_transferred e d)"
    using assms child_exited_exit_inv exit_inv_views [OF exit_view_operation(1,2) assms]
    by (auto simp: on_operation_transferred_def split: option.split)
  moreover have "exit_inv (on_operation_end code d)" for code
    using assms by (auto simp: on_operation_end_def exit_inv_def exit_logs_def Let_def split: option.split)
  ultimately show ?thesis
    using assms by (cases m) (auto simp: handle_def packet_exit_inv child_exited_exit_inv
        intro: exit_inv_views [OF _ _ assms] simp: view_simps)
qed

lemma timers_exit_inv:
  assumes "exit_inv d"
  shows "exit_inv (service_timers e d)"
proof -
  have dr: "exit_inv (service_exit_drain e x)" if "exit_inv x" for x :: "'a Daemon"
  proof -
    have "exit_inv (finalize_exit e (x\<lparr>d_exit_drain_deadline := None\<rparr>))" if "d_child_status x \<noteq> None" "\<not> d_exited x"
      using that \<open>exit_inv x\<close> by (intro finalize_exit_keeps_inv [of x]) (simp_all add: exit_logs_def)
    moreover have "exit_inv (x\<lparr>d_exit_drain_deadline := None\<rparr>)" if "\<not> (\<not> d_exited x \<and> d_child_status x \<noteq> None)"
      using that \<open>exit_inv x\<close> by (auto simp: exit_inv_def exit_logs_def)
    ultimately show ?thesis using that by (auto simp: service_exit_drain_def Let_def split: option.split)
  qed
  have sh: "exit_inv (service_shutdown e x)" if "exit_inv x" for x :: "'a Daemon"
    using that by (auto simp: service_shutdown_def exit_inv_def exit_logs_def Let_def split: option.split)
  have "exit_inv (service_client_retry e (service_activity e (service_sweep e (service_cuts e d))))"
    by (rule exit_inv_views [OF _ _ assms]) (simp_all add: view_simps)
  then have "exit_inv (service_exit_retry e (service_exit_drain e
      (service_client_retry e (service_activity e (service_sweep e (service_cuts e d))))))"
    by (intro exit_inv_views [OF view_exit_retry] dr)
  then show ?thesis unfolding service_timers_def by (intro sh service_lease_exit_inv)
qed

section \<open>The daemon as an invariant system\<close>

lemma writer_step_inv:
  assumes "daemon_inv d" and "\<And>c. book (f c) = book c" and "\<And>c. queue_inv c \<Longrightarrow> queue_inv (f c)"
  shows "daemon_inv (update_client i f d)"
  by (rule daemon_inv_same [OF same_books_update [OF bt_ok_inv(1) [OF assms(1)] assms(2,3)] assms(1)])

interpretation session: invariant_system fresh_daemon daemon_step "\<lambda>d. daemon_inv d \<and> exit_inv d"
proof
  fix d :: "'t Daemon"
  assume "fresh_daemon d"
  then show "daemon_inv d \<and> exit_inv d"
    by (auto simp: fresh_daemon_def assemble_def daemon_inv_def exit_inv_def exit_logs_def books_inv_def books_def
        bt_ok_def)
next
  fix d d' :: "'t Daemon"
  assume i: "daemon_inv d \<and> exit_inv d" and s: "daemon_step d d'"
  from s show "daemon_inv d' \<and> exit_inv d'"
  proof cases
    case (step_transfer op)
    have "same_books d d'" using step_transfer by (simp add: same_books_fields)
    then show ?thesis
      using i exit_inv_views [OF exit_view_operation(1,2)] daemon_inv_same step_transfer by blast
  next
    case (step_locks_frame j b)
    have "daemon_inv d'" unfolding step_locks_frame
      by (rule writer_step_inv) (use i in \<open>auto simp: book_def queue_inv_def\<close>)
    then show ?thesis using i exit_inv_views [OF view_update] step_locks_frame by blast
  qed (use i in \<open>auto simp: handle_inv handle_exit_inv service_timers_inv timers_exit_inv writer_step_inv
        writer_done_queue_inv writer_ends_queue_inv intro: exit_inv_views [OF view_update]\<close>)
qed

section \<open>After the exit\<close>

text \<open>Once the exit is recorded the shutdown is due by a fixed instant, whatever follows.\<close>

definition ending :: "nat \<Rightarrow> 't Daemon \<Rightarrow> bool" where
  "ending t d \<longleftrightarrow> d_exited d \<and> d_child_status d \<noteq> None
     \<and> (d_shutdown_code d \<noteq> None \<or> (\<exists>u \<le> t. d_exit_shutdown_at d = Some u))"

lemma ending_views:
  "exit_view d' = exit_view d \<Longrightarrow> (d_shutdown_code d \<noteq> None \<Longrightarrow> d_shutdown_code d' \<noteq> None) \<Longrightarrow> ending t d \<Longrightarrow> ending t d'"
  unfolding ending_def exit_view_def by auto

lemma ending_lease_view: "exit_view d' = exit_view d \<Longrightarrow> lease_view d' = lease_view d \<Longrightarrow> ending t d \<Longrightarrow> ending t d'"
  by (rule ending_views) (simp_all add: lease_view_def)

lemma lifecycle_shutdown: "d_shutdown_code (snd (compare_and_set_lifecycle e req d)) = d_shutdown_code d"
proof -
  obtain w d2 where ex: "settle_startup_lifecycle e IoLease CauseExit True d = (w, d2)" by fastforce
  obtain v d1 where st: "settle_startup_deadline e d = (v, d1)" by fastforce
  have "d_shutdown_code (after_lifecycle_cas e req x) = d_shutdown_code x" for x :: "'a Daemon"
    by (simp add: after_lifecycle_cas_def Let_def split: option.split)
  then show ?thesis
    using settle_lease(2) [OF ex] settle_deadline_lease(2) [OF st]
    by (simp add: compare_and_set_lifecycle_def expired_lifecycle_def ex st effect_def Let_def
        split: option.split prod.split TagCompareAndSetResult.split)
qed

lemma packet_shutdown: "d_shutdown_code (on_packet e i p d) = d_shutdown_code d"
proof (cases "ptype p = LifecycleCas")
  case True
  have "d_shutdown_code (send_to e i x y) = d_shutdown_code y" for x y
    by (rule lease_viewD(4)) (simp add: view_simps)
  then show ?thesis
    by (simp add: on_packet_def True on_lifecycle_cas_def case_prod_beta lifecycle_shutdown split: option.split)
next
  case False
  show ?thesis
    by (rule lease_viewD(4)) (use False in \<open>simp add: on_packet_def view_simps split: MessageType.split\<close>)
qed

lemma service_lease_shutdown:
  "d_shutdown_code d \<noteq> None \<Longrightarrow> d_shutdown_code (service_startup_lease e d) \<noteq> None"
proof -
  assume a: "d_shutdown_code d \<noteq> None"
  obtain v d1 where st: "settle_startup_deadline e d = (v, d1)" by fastforce
  show ?thesis using a settle_deadline_lease(2) [OF st]
    by (auto simp: service_startup_lease_def st Let_def split: option.split)
qed

lemma ending_service_lease: "ending t d \<Longrightarrow> ending t (service_startup_lease e d)"
  by (erule ending_views [OF exit_view_service_lease, rotated]) (rule service_lease_shutdown)

lemma ending_handle:
  assumes "ending t d"
  shows "ending t (handle e m d)"
proof -
  have c: "ending t (on_child_exited e status x)" if "ending t x" for status and x :: "'a Daemon"
  proof -
    obtain b d0 where h: "holds status x = (b, d0)" by fastforce
    have "ending t d0" using ending_lease_view [OF _ _ that, of d0] exit_view_operation(3,4) [of status x] h by simp
    moreover then have "d_child_status d0 \<noteq> None" by (simp add: ending_def)
    ultimately show ?thesis by (auto simp: on_child_exited_def h split: bool.split)
  qed
  have "ending t (on_pty_eof e d)" using assms by (simp add: on_pty_eof_def ending_def)
  moreover have "ending t (on_external_kill d)"
  proof -
    obtain b d0 where h: "intercepts_kill d = (b, d0)" by fastforce
    have "ending t d0" using ending_lease_view [OF _ _ assms, of d0] exit_view_operation(5,6) [of d] h by simp
    then show ?thesis by (auto simp: on_external_kill_def h ending_def split: bool.split)
  qed
  moreover have "ending t (on_operation_transferred e d)"
    using assms c ending_lease_view [OF exit_view_operation(1,2) assms]
    by (auto simp: on_operation_transferred_def split: option.split)
  moreover have "ending t (on_operation_end code d)" for code
    using assms by (auto simp: on_operation_end_def ending_def Let_def split: option.split)
  moreover have "ending t (on_packet e i p d)" for i p
    by (rule ending_views [OF exit_view_packet _ assms]) (simp add: packet_shutdown)
  ultimately show ?thesis
    using assms by (cases m) (auto simp: handle_def c intro: ending_lease_view [OF _ _ assms] simp: view_simps)
qed

lemma ending_timers:
  assumes "ending t d"
  shows "ending t (service_timers e d) \<and> (t \<le> e_now e \<longrightarrow> d_shutdown_code (service_timers e d) \<noteq> None)"
proof -
  let ?x = "service_client_retry e (service_activity e (service_sweep e (service_cuts e d)))"
  have "ending t ?x" by (rule ending_lease_view [OF _ _ assms]) (simp_all add: view_simps)
  then have "ending t (service_exit_drain e ?x)"
    by (simp add: service_exit_drain_def ending_def Let_def split: option.split)
  then have "ending t (service_exit_retry e (service_exit_drain e ?x))"
    by (rule ending_lease_view [OF view_exit_retry])
  then have "ending t (service_startup_lease e (service_exit_retry e (service_exit_drain e ?x)))"
    by (rule ending_service_lease)
  moreover have "ending t (service_shutdown e y) \<and> (t \<le> e_now e \<longrightarrow> d_shutdown_code (service_shutdown e y) \<noteq> None)"
    if "ending t y" for y :: "'a Daemon"
    using that by (auto simp: service_shutdown_def ending_def Let_def split: option.split)
  ultimately show ?thesis unfolding service_timers_def by blast
qed

lemma ending_steps: "daemon_step\<^sup>*\<^sup>* d d' \<Longrightarrow> ending t d \<Longrightarrow> ending t d'"
proof (induction rule: rtranclp_induct)
  case (step y z)
  then have "ending t y" by simp
  with step(2) show ?case
    by cases (auto simp: ending_handle ending_timers intro: ending_lease_view [OF view_update]
        ending_lease_view [OF exit_view_operation(1,2)])
qed

text \<open>The timers at the drain deadline record the exit.\<close>

lemma timers_reach_exit:
  assumes inv: "exit_inv d" and st: "d_child_status d \<noteq> None"
    and dr: "\<And>t. d_exit_drain_deadline d = Some t \<Longrightarrow> t \<le> e_now e"
    and sh: "\<And>u. d_exit_shutdown_at d = Some u \<Longrightarrow> u \<le> T" and g: "e_now e + EXIT_GRACE \<le> T"
  shows "ending T (service_timers e d)"
proof -
  define x where "x = service_client_retry e (service_activity e (service_sweep e (service_cuts e d)))"
  have v: "exit_view x = exit_view d" "lease_view x = lease_view d" by (simp_all add: x_def view_simps)
  note xv = exit_viewD [OF v(1)] and ix = exit_inv_views [OF v inv]
  have "ending T (service_exit_drain e x)"
  proof (cases "d_exited d")
    case True
    then show ?thesis
      using ix xv sh st by (cases "d_exit_shutdown_at d")
        (auto simp: service_exit_drain_def ending_def exit_inv_def Let_def split: option.split)
  next
    case False
    then obtain t where t: "d_exit_drain_deadline x = Some t" "t \<le> e_now e"
      using ix xv st dr by (auto simp: exit_inv_def)
    obtain s where s: "d_child_status (x\<lparr>d_exit_drain_deadline := None\<rparr>) = Some s" using st xv by auto
    have "service_exit_drain e x = finalize_exit e (x\<lparr>d_exit_drain_deadline := None\<rparr>)"
      using t False xv s by (simp add: service_exit_drain_def)
    then show ?thesis
      using finalize_exit_view [OF s, of e] g
      by (auto simp: ending_def exit_view_def split: if_splits)
  qed
  then have "ending T (service_exit_retry e (service_exit_drain e x))"
    by (rule ending_lease_view [OF view_exit_retry])
  then have "ending T (service_startup_lease e (service_exit_retry e (service_exit_drain e x)))"
    by (rule ending_service_lease)
  then show ?thesis unfolding service_timers_def x_def [symmetric]
    by (auto simp: service_shutdown_def ending_def Let_def split: option.split)
qed

end
