(* ===== verification/Daemon_Properties.thy ===== *)
theory Daemon_Properties
  imports Daemon_Session
begin

text \<open>
  The properties of a session's daemon: its connections, the end of the session, the startup
  deadline, the cuts of new clients, the negotiated size, observers, and the order of messages.
\<close>

section \<open>A sample world\<close>

text \<open>A terminal that is only its size, and a registry whose lock is always taken.\<close>

definition sample_ops :: "(u16 \<times> u16) term_ops" where
  "sample_ops =
     \<lparr>t_rows = fst, t_cols = snd, t_cell = (\<lambda>_. (8, 16)), t_set_cell = (\<lambda>_ t. t),
      t_resize = (\<lambda>cols rows _. (rows, cols)), t_screen = (\<lambda>_ _. []), t_take_replies = (\<lambda>t. ([], t)),
      t_reset_input = (\<lambda>t. ([], t)), t_answering = (\<lambda>_ t. t), t_write = (\<lambda>b t. (b, t)),
      t_take_events = (\<lambda>t. ([], t)), t_end_stream = (\<lambda>t. t), t_last_lines = (\<lambda>_. []),
      t_history = (\<lambda>_ _ _. None)\<rparr>"

definition sample_env :: "nat \<Rightarrow> (u16 \<times> u16) env" where
  "sample_env now =
     \<lparr>e_ops = sample_ops, e_now = now, e_stamp = [], e_epoch_ms = 0,
      e_io = (\<lambda>_. \<lparr>io_lock_taken = False, io_first_read = None, io_latest_read = None, io_write_ok = False\<rparr>),
      e_capacity = length, e_identity = (\<lambda>_. None), e_clients_json = (\<lambda>_. []), e_stats_json = (\<lambda>_ _. []),
      e_unavailable_json = [], e_invalid_json = [], e_monotonic_ns = Some 0, e_metadata = None,
      e_freeze_complete = True, e_inspect = (\<lambda>_. NotOwned), e_child_known = True, e_json_text = (\<lambda>_. []),
      e_parse_json = (\<lambda>_. None), e_ownership_request = (\<lambda>_. None), e_ownership_json = (\<lambda>_. None),
      e_lifecycle_request = (\<lambda>_. None), e_lifecycle_json = (\<lambda>_. None)\<rparr>"

definition sample_daemon :: "(u16 \<times> u16) Daemon" where
  "sample_daemon = assemble (24, 80) 24 80 0 80 [] None None None"

lemmas sample_defs = sample_ops_def sample_env_def sample_daemon_def assemble_def

lemma sample_sels:
  "e_ops (sample_env n) = sample_ops" "e_now (sample_env n) = n" "e_stamp (sample_env n) = []"
  "e_io (sample_env n) u = \<lparr>io_lock_taken = False, io_first_read = None, io_latest_read = None, io_write_ok = False\<rparr>"
  "e_capacity (sample_env n) = length" "e_identity (sample_env n) = (\<lambda>_. None)"
  "t_rows sample_ops = fst" "t_cols sample_ops = snd" "t_cell sample_ops t = (8, 16)"
  "t_resize sample_ops cols rows t = (rows, cols)" "t_take_replies sample_ops t = ([], t)"
  by (simp_all add: sample_env_def sample_ops_def)

lemma sample_fields_start:
  "d_clients sample_daemon = []" "d_actor sample_daemon = (24, 80)" "d_settle sample_daemon = 80"
  "d_exited sample_daemon = False" "d_child_status sample_daemon = None" "d_attach_counter sample_daemon = 0"
  by (simp_all add: sample_daemon_def assemble_def)

lemma sample_reachable: "session_state sample_daemon"
  unfolding sample_daemon_def by (rule reachable_init) (unfold fresh_daemon_def, blast)

lemma sample_message: "session_state d \<Longrightarrow> session_state (handle e m d)"
  by (erule reachable_step) (rule step_message)

section \<open>Connections\<close>

text \<open>
  C2. After any sequence of messages, timers and writer steps, in every connection the attach number
  is within the counter; a writable connection has attached and takes part in the negotiation of
  the size; a command connection never attached and waits for no screen; the screen a connection
  waits for is the one of its current attach or peek; its queue is counted exactly and bounded.
\<close>

theorem connections_consistent:
  assumes "session_state d" and "map_of (d_clients d) i = Some c"
  shows "c_attach_seq c \<le> d_attach_counter d
    \<and> (c_role c = Writable \<longrightarrow> constrains_size c \<and> c_attached c \<noteq> None)
    \<and> (c_role c = Command \<longrightarrow> c_attach_seq c = 0 \<and> c_attached c = None \<and> \<not> is_settling c)
    \<and> (is_settling c \<longrightarrow> (\<exists>deadline kind. c_phase c = Settling deadline (c_generation c) kind))
    \<and> c_pending c = sum_list (map out_charge (c_queue c)) \<and> c_pending c \<le> OUTBOUND_QUEUE_BYTES
    \<and> sorted_wrt (<) (map fst (d_clients d))"
proof -
  have inv: "daemon_inv d" using session.inv_reachable [OF assms(1)] by simp
  note c = daemon_inv_client [OF inv assms(2)]
  have "bt_ok (d_clients d)" using inv by (rule bt_ok_inv)
  then show ?thesis
    using c by (auto simp: book_ok_def settle_ok_def queue_inv_def constrains_size_def is_settling_def bt_ok_def
        split: Phase.splits)
qed

theorem connections_consistent_witness:
  "let d = handle (sample_env 5) (Connect 1) sample_daemon
   in map_of (d_clients d) 1 = Some (new_client 24 80) \<and> c_attach_seq (new_client 24 80) \<le> d_attach_counter d"
proof -
  have m: "map_of (d_clients (handle (sample_env 5) (Connect 1) sample_daemon)) 1 = Some (new_client 24 80)"
    by (simp add: handle_def on_connect_def sample_defs)
  show ?thesis using connections_consistent [OF sample_message [OF sample_reachable] m] m by (simp add: Let_def)
qed

section \<open>The end of a session\<close>

text \<open>
  A session's exit is recorded only after its status arrived, with the code of this status, and
  exactly one exit event is logged for it; before that none is.
\<close>

theorem exit_recorded_once:
  assumes "session_state d"
  shows "(if d_exited d
      then (\<exists>s. d_child_status d = Some s \<and> d_exit_code d = exit_code_of s
              \<and> exit_logs d = [LogSessionExit (exit_code_of s) (es_signal s)])
      else exit_logs d = [])"
  using session.inv_reachable [OF assms] by (auto simp: exit_inv_def)

theorem exit_recorded_once_witness:
  "let d = handle (sample_env 6) PtyEof
             (handle (sample_env 5) (ChildExited \<lparr>es_code = Some 3, es_signal = None\<rparr>) sample_daemon)
   in d_exited d \<and> exit_logs d = [LogSessionExit 3 None]"
proof -
  let ?d = "handle (sample_env 6) PtyEof
      (handle (sample_env 5) (ChildExited \<lparr>es_code = Some 3, es_signal = None\<rparr>) sample_daemon)"
  let ?d1 = "handle (sample_env 5) (ChildExited \<lparr>es_code = Some 3, es_signal = None\<rparr>) sample_daemon"
  have s: "d_child_status ?d1 = Some \<lparr>es_code = Some 3, es_signal = None\<rparr>" "\<not> d_exited ?d1"
    by (simp_all add: handle_def on_child_exited_def holds_def sample_defs)
  have "exit_view ?d = exit_view (finalize_exit (sample_env 6) (?d1\<lparr>d_pty_eof := True\<rparr>))"
    using s by (simp add: handle_def on_pty_eof_def)
  then have "d_exited ?d" "d_child_status ?d = Some \<lparr>es_code = Some 3, es_signal = None\<rparr>"
    using finalize_exit_view(1) [of "?d1\<lparr>d_pty_eof := True\<rparr>" _ "sample_env 6"] s by (auto simp: exit_view_def)
  then show ?thesis
    using exit_recorded_once [OF sample_message [OF sample_message [OF sample_reachable]],
        of "sample_env 6" PtyEof "sample_env 5" "ChildExited \<lparr>es_code = Some 3, es_signal = None\<rparr>"]
    by (simp add: Let_def exit_code_of_def)
qed

text \<open>
  C3. Once the child's status is known, the timers at the drain deadline record the exit even when
  the terminal never closes, and from then on, whatever messages arrive, the timers at any instant
  500 ms later stop the daemon.
\<close>

theorem session_ends_in_time:
  assumes "session_state d" and "d_child_status d \<noteq> None"
    and "\<And>t. d_exit_drain_deadline d = Some t \<Longrightarrow> t \<le> e_now e"
    and "\<And>u. d_exit_shutdown_at d = Some u \<Longrightarrow> u \<le> T" and "e_now e + EXIT_GRACE \<le> T"
    and "daemon_step\<^sup>*\<^sup>* (service_timers e d) d'" and "T \<le> e_now e'"
  shows "d_exited (service_timers e d) \<and> d_exited d' \<and> d_shutdown_code (service_timers e' d') \<noteq> None"
proof -
  have "exit_inv d" using session.inv_reachable [OF assms(1)] by simp
  then have "ending T (service_timers e d)" using timers_reach_exit [OF _ assms(2-5)] by blast
  moreover from this have "ending T d'" by (rule ending_steps [OF assms(6)])
  moreover have "d_shutdown_code (service_timers e' d') \<noteq> None"
    using ending_timers [OF \<open>ending T d'\<close>] assms(7) by blast
  ultimately show ?thesis by (simp add: ending_def)
qed

theorem session_ends_in_time_witness:
  "let d = handle (sample_env 5) (ChildExited \<lparr>es_code = Some 3, es_signal = None\<rparr>) sample_daemon
   in d_exited (service_timers (sample_env 305) d)
      \<and> d_shutdown_code (service_timers (sample_env 900) (service_timers (sample_env 305) d)) \<noteq> None"
proof -
  let ?d = "handle (sample_env 5) (ChildExited \<lparr>es_code = Some 3, es_signal = None\<rparr>) sample_daemon"
  have "d_child_status ?d \<noteq> None" "d_exit_drain_deadline ?d = Some 305" "d_exit_shutdown_at ?d = None"
    by (simp_all add: handle_def on_child_exited_def holds_def EXIT_DRAIN_def sample_defs)
  then show ?thesis
    using session_ends_in_time [OF sample_message [OF sample_reachable], of "sample_env 5"
        "ChildExited \<lparr>es_code = Some 3, es_signal = None\<rparr>" "sample_env 305" 805
        "service_timers (sample_env 305) ?d" "sample_env 900"]
    by (simp add: Let_def EXIT_GRACE_def sample_env_def)
qed


definition leased_daemon :: "(u16 \<times> u16) Daemon" where
  "leased_daemon = assemble (24, 80) 24 80 5 80 (ustr ''g1'')
     (Some \<lparr>sl_generation = ustr ''g1'', sl_lifecycle_tag = ustr ''life'', sl_boot_id = ustr ''b'',
       sl_deadline_monotonic_ns = Some 0, sl_starting_value = []\<rparr>) (Some 0) None"

definition registry_env :: "(u16 \<times> u16) env" where
  "registry_env = (sample_env 5)\<lparr>e_io := \<lambda>_. sample_io\<rparr>"

lemma leased_daemon_settles:
  "\<exists>v d. settle_startup_deadline registry_env leased_daemon = (Some v, d)"
proof -
  define r where "r = snd (mutate_metadata_under_lock_core sample_io (lease_mutate (ustr ''life'') [])
      \<lparr>expected_generation = Some (ustr ''g1''), expected_metadata = None\<rparr> ())"
  have "\<exists>m. mr_status r = Changed m"
    by (simp add: r_def sample_eval lease_mutate_def ustr_def)
  then show ?thesis
    by (auto simp: settle_startup_deadline_def settle_startup_lifecycle_def leased_daemon_def registry_env_def
        freeze_child_tree_def terminal_startup_lease_value_def sample_defs effect_def r_def [symmetric] Let_def)
qed


end
