(* ===== verification/Daemon_Geometry.thy ===== *)
theory Daemon_Geometry
  imports Daemon_Properties
begin

text \<open>
  Screens and sizes: which connections a timer service gives their first screen, what the
  negotiation of the size computes, and what a connection that only watches can do.
\<close>

section \<open>Cuts\<close>

definition cut_client :: "'t env \<Rightarrow> 't Daemon \<Rightarrow> bytes \<Rightarrow> Client \<Rightarrow> Client" where
  "cut_client e d screen c =
     (let c1 = (send (e_capacity e) (encode_screen screen) c)\<lparr>c_phase := Live\<rparr>
      in if d_exited d then send (e_capacity e) (encode_exit (d_exit_code d)) c1 else c1)"

lemma nudge_fields [simp]:
  "d_clients (nudge_redraw e d) = d_clients d" "d_exited (nudge_redraw e d) = d_exited d"
  "d_exit_code (nudge_redraw e d) = d_exit_code d"
  by (simp_all add: nudge_redraw_def resize_pty_def effect_def Let_def split: prod.split)

lemma update_fields [simp]:
  "d_exited (update_client i f d) = d_exited d" "d_exit_code (update_client i f d) = d_exit_code d"
  "d_actor (update_client i f d) = d_actor d"
  by (simp_all add: update_client_def split: option.split)

lemma cut_effect:
  assumes "daemon_inv d" and "map_of (d_clients d) i = Some c" and "is_settling c"
  shows "\<exists>screen. \<forall>j. map_of (d_clients (cut e i d)) j =
           (if j = i then Some (cut_client e d screen c) else map_of (d_clients d) j)"
    and "d_exited (cut e i d) = d_exited d" and "d_exit_code (cut e i d) = d_exit_code d"
proof -
  obtain t k where ph: "c_phase c = Settling t (c_generation c) k"
    using daemon_inv_client(2) [OF assms(1,2)] assms(3)
    by (auto simp: settle_ok_def is_settling_def split: Phase.splits)
  let ?f = "\<lambda>c. let c1 = (send (e_capacity e) (encode_screen (screen_of e k (d_actor d))) c)\<lparr>c_phase := Live\<rparr>
      in if d_exited d then send (e_capacity e) (encode_exit (d_exit_code d)) c1 else c1"
  have cut: "d_clients (cut e i d) = d_clients (update_client i ?f d)"
    "d_exited (cut e i d) = d_exited d" "d_exit_code (cut e i d) = d_exit_code d"
    using assms(2) ph by (simp_all add: cut_def Let_def)
  then show "d_exited (cut e i d) = d_exited d" "d_exit_code (cut e i d) = d_exit_code d" by simp_all
  show "\<exists>screen. \<forall>j. map_of (d_clients (cut e i d)) j =
      (if j = i then Some (cut_client e d screen c) else map_of (d_clients d) j)"
    using assms(2) update_client_get [OF bt_ok_inv(1) [OF assms(1)], of i ?f]
    by (intro exI [where x = "screen_of e k (d_actor d)"])
      (simp add: cut cut_client_def Let_def)
qed

lemma cut_fold:
  assumes "daemon_inv d" and "distinct is" and "\<forall>i \<in> set is. \<exists>c. map_of (d_clients d) i = Some c \<and> is_settling c"
  shows "\<forall>j. if j \<in> set is
      then (\<exists>screen c. map_of (d_clients d) j = Some c
             \<and> map_of (d_clients (fold (cut e) is d)) j = Some (cut_client e d screen c))
      else map_of (d_clients (fold (cut e) is d)) j = map_of (d_clients d) j"
  using assms
proof (induction "is" arbitrary: d)
  case (Cons i "is")
  obtain c where c: "map_of (d_clients d) i = Some c" "is_settling c" using Cons.prems(3) by auto
  note cut = cut_effect [OF Cons.prems(1) c, of e]
  obtain screen where s: "\<And>j. map_of (d_clients (cut e i d)) j =
      (if j = i then Some (cut_client e d screen c) else map_of (d_clients d) j)" using cut(1) by blast
  have ni: "i \<notin> set is" "distinct is" using Cons.prems(2) by simp_all
  have "\<forall>j \<in> set is. \<exists>c. map_of (d_clients (cut e i d)) j = Some c \<and> is_settling c"
    using Cons.prems(3) ni by (auto simp: s)
  note IH = Cons.IH [OF cut_inv [OF Cons.prems(1)] ni(2) this]
  have cc: "cut_client e (cut e i d) = cut_client e d" using cut(2,3) by (simp add: cut_client_def fun_eq_iff Let_def)
  show ?case
  proof
    fix j
    show "if j \<in> set (i # is)
        then (\<exists>screen c. map_of (d_clients d) j = Some c
               \<and> map_of (d_clients (fold (cut e) (i # is) d)) j = Some (cut_client e d screen c))
        else map_of (d_clients (fold (cut e) (i # is) d)) j = map_of (d_clients d) j"
      using IH [rule_format, of j] ni c(1) by (cases "j = i") (auto simp: s cc split: if_splits)
  qed
qed simp

definition is_due :: "nat \<Rightarrow> Client \<Rightarrow> bool" where
  "is_due now c = (case c_phase c of Settling deadline _ _ \<Rightarrow> deadline \<le> now | Live \<Rightarrow> False)"

lemma due_cuts_filter: "due_cuts now m = map fst (filter (\<lambda>(i, c). is_due now c) m)"
proof (induction m)
  case (Cons x m)
  obtain i c where "x = (i, c)" by fastforce
  then show ?case using Cons
    by (cases "c_phase c") (simp_all add: due_cuts_def is_due_def map_filter_simps)
qed (simp add: due_cuts_def map_filter_simps)

lemma due_cuts_in:
  assumes "bt_ok m"
  shows "distinct (due_cuts now m)"
    and "i \<in> set (due_cuts now m) \<longleftrightarrow> (\<exists>c. map_of m i = Some c \<and> is_due now c)"
proof -
  have d: "distinct (map fst m)" using assms by (auto simp: bt_ok_def strict_sorted_iff)
  then show "distinct (due_cuts now m)" by (simp add: due_cuts_filter distinct_map_filter)
  show "i \<in> set (due_cuts now m) \<longleftrightarrow> (\<exists>c. map_of m i = Some c \<and> is_due now c)"
    using d by (force simp: due_cuts_filter)
qed

text \<open>
  A service of the timers gives every connection whose wait is over its screen, followed by the
  exit status when the child is gone, and puts it among the live ones; it leaves every other
  connection exactly as it was.
\<close>

theorem due_cuts_fire:
  assumes "session_state d"
  shows "case map_of (d_clients d) i of
      None \<Rightarrow> map_of (d_clients (service_cuts e d)) i = None
    | Some c \<Rightarrow>
        (case c_phase c of
           Settling deadline _ _ \<Rightarrow>
             if deadline \<le> e_now e
             then \<exists>screen. map_of (d_clients (service_cuts e d)) i = Some (cut_client e d screen c)
             else map_of (d_clients (service_cuts e d)) i = Some c
         | Live \<Rightarrow> map_of (d_clients (service_cuts e d)) i = Some c)"
proof -
  have inv: "daemon_inv d" using session.inv_reachable [OF assms] by simp
  note o = bt_ok_inv(1) [OF inv]
  have "\<forall>j \<in> set (due_cuts (e_now e) (d_clients d)). \<exists>c. map_of (d_clients d) j = Some c \<and> is_settling c"
    using due_cuts_in(2) [OF o, of _ "e_now e"] by (fastforce simp: is_settling_def is_due_def split: Phase.splits)
  note f = cut_fold [OF inv due_cuts_in(1) [OF o] this, rule_format, of i e, folded service_cuts_def]
  show ?thesis
  proof (cases "map_of (d_clients d) i")
    case (Some c)
    show ?thesis
    proof (cases "is_due (e_now e) c")
      case True
      then have "i \<in> set (due_cuts (e_now e) (d_clients d))" using Some by (simp add: due_cuts_in(2) [OF o])
      then obtain screen where "map_of (d_clients (service_cuts e d)) i = Some (cut_client e d screen c)"
        using f Some by auto
      then show ?thesis using Some True by (auto simp: is_due_def split: Phase.split)
    next
      case False
      then have "i \<notin> set (due_cuts (e_now e) (d_clients d))" using Some by (simp add: due_cuts_in(2) [OF o])
      then show ?thesis using f Some False by (auto simp: is_due_def split: Phase.split)
    qed
  next
    case None
    then show ?thesis using f by (simp add: due_cuts_in(2) [OF o])
  qed
qed

text \<open>A client of 10 by 20 attaches to a session of 24 by 80 and waits 80 ms for its screen.\<close>

definition attached_sample :: "(u16 \<times> u16) Daemon" where
  "attached_sample = handle (sample_env 6) (PacketMsg 1 \<lparr>ptype = Attach, payload = [0, 10, 0, 20]\<rparr>)
     (handle (sample_env 5) (Connect 1) sample_daemon)"

lemma attached_sample_client:
  "\<exists>c. map_of (d_clients attached_sample) 1 = Some c \<and> c_phase c = Settling 86 1 (CutAttach False)"
proof -
  define d1 where "d1 = sample_daemon\<lparr>d_clients := [(1, new_client 24 80)]\<rparr>"
  have d1: "handle (sample_env 5) (Connect 1) sample_daemon = d1"
    by (simp add: d1_def handle_def on_connect_def sample_sels sample_fields_start)
  define c2 where "c2 = attach_client (sample_env 6) [0, 10, 0, 20] 10 20 1 1 (new_client 24 80)"
  define d2 where "d2 = sample_daemon\<lparr>d_attach_counter := 1, d_clients := [(1, c2)]\<rparr>"
  have a: "on_attach (sample_env 6) 1 [0, 10, 0, 20] d1 = finish_attach (sample_env 6) 1 1 False False d2"
    by (simp add: on_attach_def d1_def decode_size_def u16_from_be_bytes_def adopt_cell_size_def decode_cell_def
        update_client_def sample_sels sample_fields_start Let_def d2_def c2_def)
      (simp add: new_client_def)
  have c2: "c_role c2 = Writable" "c_rows c2 = 10" "c_cols c2 = 20" "c_attach_seq c2 = 1"
    by (simp_all add: c2_def attach_client_def)
  have "smallest_size (constraining d2) = (10, 20)"
    by (simp add: d2_def constraining_def constrains_size_def c2 smallest_size_def)
  then obtain d3 where ng: "negotiate_size (sample_env 6) d2 = (True, d3)" "\<not> d_exited d3" "d_settle d3 = 80"
      "map_of (d_clients d3) 1 \<noteq> None"
    by (simp add: negotiate_size_def too_large_def sample_sels sample_fields_start d2_def Let_def
        resize_pty_def broadcast_geometry_def send_to_all_def effect_def write_pty_def write_input_def)
  define d6 where "d6 = note_client_change (sample_env 6) (Some []) d3"
  have d6: "\<not> d_exited d6" "d_settle d6 = 80" "map_of (d_clients d6) 1 \<noteq> None"
    using ng by (simp_all add: d6_def note_client_change_def write_client_generation_def
        mutate_metadata_under_lock_core_def refused_def sample_sels Let_def)
  have "finish_attach (sample_env 6) 1 1 False False d2 = update_client 1 (\<lambda>c. c\<lparr>c_phase := Settling 86 1 (CutAttach False)\<rparr>) d6"
    using d6 by (simp add: finish_attach_def ng sample_sels d6_def [symmetric] schedule_cut_def attach_delay_def Let_def)
  then have at: "attached_sample = update_client 1 (\<lambda>c. c\<lparr>c_phase := Settling 86 1 (CutAttach False)\<rparr>) d6"
    unfolding attached_sample_def d1 using a by (simp add: handle_def on_packet_def)
  have "bt_ok (d_clients d2)" by (simp add: d2_def bt_ok_def)
  then have o: "bt_ok (d_clients d6)"
    using same_books_trans [OF same_books_negotiate [of d2 "sample_env 6"] same_books_note [of _ "sample_env 6" "Some []"]]
    by (simp add: ng same_books_def d6_def)
  obtain y where "map_of (d_clients d6) 1 = Some y" using d6(3) by blast
  then show ?thesis unfolding at
    by (intro exI [where x = "y\<lparr>c_phase := Settling 86 1 (CutAttach False)\<rparr>"]) (simp add: update_client_get [OF o])
qed

theorem due_cuts_fire_witness:
  "\<exists>c. map_of (d_clients (service_cuts (sample_env 100) attached_sample)) 1 = Some c \<and> c_phase c = Live"
proof -
  obtain c where c: "map_of (d_clients attached_sample) 1 = Some c" "c_phase c = Settling 86 1 (CutAttach False)"
    using attached_sample_client by blast
  have "session_state attached_sample"
    unfolding attached_sample_def by (intro sample_message sample_reachable)
  from due_cuts_fire [OF this, where i = 1 and e = "sample_env 100"] c
  obtain screen where "map_of (d_clients (service_cuts (sample_env 100) attached_sample)) 1
      = Some (cut_client (sample_env 100) attached_sample screen c)" by (auto simp: sample_env_def)
  then show ?thesis by (simp add: cut_client_def Let_def)
qed

section \<open>The negotiated size\<close>

lemma smallest_positive:
  assumes "\<forall>c \<in> set cs. 0 < c_rows c \<and> 0 < c_cols c" and "0 < r" and "0 < k"
  shows "fold (\<lambda>c (rows, cols). (if rows = 0 then c_rows c else min rows (c_rows c),
           if cols = 0 then c_cols c else min cols (c_cols c))) cs (r, k)
    = (Min (insert r (c_rows ` set cs)), Min (insert k (c_cols ` set cs)))"
  using assms
proof (induction cs arbitrary: r k)
  case (Cons c cs)
  have p: "0 < min r (c_rows c)" "0 < min k (c_cols c)" using Cons.prems by auto
  have "Min (insert (min a b) S) = Min (insert a (insert b S))" if "finite S" for a b :: u16 and S
    using that by (cases "S = {}") (simp_all add: min.assoc)
  moreover have "r \<noteq> 0" "k \<noteq> 0" using Cons.prems by auto
  ultimately show ?case using Cons.IH [OF _ p] Cons.prems by simp
qed simp

lemma smallest_size_min:
  assumes "cs \<noteq> []" and "\<forall>c \<in> set cs. 0 < c_rows c \<and> 0 < c_cols c"
  shows "smallest_size cs = (Min (c_rows ` set cs), Min (c_cols ` set cs))"
proof -
  obtain c cs' where cs: "cs = c # cs'" using assms(1) by (cases cs) auto
  then show ?thesis using smallest_positive [of cs' "c_rows c" "c_cols c"] assms(2)
    by (simp add: smallest_size_def)
qed

lemma send_to_all_get:
  "map_of (d_clients (send_to_all e p packet d)) i =
     map_option (\<lambda>c. if p c then send (e_capacity e) packet c else c) (map_of (d_clients d) i)"
  by (simp add: send_to_all_def bt_map_get [where f = "\<lambda>_ c. if p c then send (e_capacity e) packet c else c"])

lemma negotiate_declines:
  assumes "smallest_size (constraining d) = (rows, cols)"
    and "rows = 0 \<or> cols = 0 \<or> too_large rows cols
      \<or> rows = t_rows (e_ops e) (d_actor d) \<and> cols = t_cols (e_ops e) (d_actor d)"
  shows "negotiate_size e d = (False, d)"
  using assms by (auto simp: negotiate_size_def)

lemma negotiate_resizes:
  assumes m: "smallest_size (constraining d) = (rows, cols)"
    and n: "rows \<noteq> 0" "cols \<noteq> 0" "\<not> too_large rows cols"
      "\<not> (rows = t_rows (e_ops e) (d_actor d) \<and> cols = t_cols (e_ops e) (d_actor d))"
  shows "fst (negotiate_size e d)"
    and "d_actor (snd (negotiate_size e d)) = snd (t_take_replies (e_ops e) (t_resize (e_ops e) cols rows (d_actor d)))"
    and "d_last_resize (snd (negotiate_size e d)) = Some (e_now e)"
    and "map_of (d_clients (snd (negotiate_size e d))) i =
      map_option (\<lambda>c. if gets_geometry c then send (e_capacity e) (encode_geometry rows cols) c else c)
        (map_of (d_clients d) i)"
proof -
  define d3 where "d3 = resize_pty e rows cols (broadcast_geometry e rows cols
      (d\<lparr>d_actor := t_resize (e_ops e) cols rows (d_actor d)\<rparr>))"
  have f: "d_actor d3 = t_resize (e_ops e) cols rows (d_actor d)"
    "d_clients d3 = d_clients (send_to_all e gets_geometry (encode_geometry rows cols) d)"
    by (simp_all add: d3_def resize_pty_def effect_def broadcast_geometry_def send_to_all_def split: prod.split)
  have w: "d_actor (write_pty x y) = d_actor y" "d_clients (write_pty x y) = d_clients y" for x and y :: "'a Daemon"
    by (simp_all add: write_pty_def write_input_def effect_def)
  have "negotiate_size e d = (True, (write_pty (fst (t_take_replies (e_ops e) (d_actor d3)))
      (d3\<lparr>d_actor := snd (t_take_replies (e_ops e) (d_actor d3))\<rparr>))\<lparr>d_last_resize := Some (e_now e)\<rparr>)"
    unfolding negotiate_size_def Let_def m prod.case d3_def [symmetric] using n by (simp add: case_prod_beta)
  then show "fst (negotiate_size e d)"
    "d_actor (snd (negotiate_size e d)) = snd (t_take_replies (e_ops e) (t_resize (e_ops e) cols rows (d_actor d)))"
    "d_last_resize (snd (negotiate_size e d)) = Some (e_now e)"
    "map_of (d_clients (snd (negotiate_size e d))) i =
      map_option (\<lambda>c. if gets_geometry c then send (e_capacity e) (encode_geometry rows cols) c else c)
        (map_of (d_clients d) i)"
    by (simp_all add: w f send_to_all_get)
qed



text \<open>
  C30. A connection that declares zero rows makes the negotiation forget the rows of every connection
  before it: the result is that of the connections after it alone.
\<close>

theorem zero_rows_forget_smaller_sizes:
  assumes "c_rows z = 0"
  shows "fst (smallest_size (cs @ z # ds)) = fst (smallest_size ds)"
proof -
  let ?step = "\<lambda>c (rows, cols). (if rows = 0 then c_rows c else min rows (c_rows c),
      if cols = 0 then c_cols c else min cols (c_cols c))"
  have k: "fst (fold ?step xs (r, a)) = fst (fold ?step xs (r, b))" for xs r a b
    by (induction xs arbitrary: r a b) simp_all
  obtain r a where "fold ?step cs (0, 0) = (r, a)" by fastforce
  then show ?thesis
    using assms k [of ds 0] by (simp add: smallest_size_def)
qed

theorem zero_rows_forget_smaller_sizes_witness:
  "smallest_size [new_client 24 80, new_client 0 80, new_client 30 80] = (30, 80)"
proof -
  have "fst (smallest_size ([new_client 24 80] @ new_client 0 80 # [new_client 30 80])) = 30"
    by (subst zero_rows_forget_smaller_sizes) (simp_all add: new_client_def smallest_size_def)
  then show ?thesis by (simp add: new_client_def smallest_size_def)
qed

end
