(* ===== verification/Daemon_Observers.thy ===== *)
theory Daemon_Observers
  imports Daemon_Geometry
begin

text \<open>
  Connections that only watch, and the order in which the serving loop takes messages.
\<close>

section \<open>Watching leaves the record and the child alone\<close>

definition touches_session :: "Effect \<Rightarrow> bool" where
  "touches_session x = (case x of WriteRecord _ \<Rightarrow> True | PublishActivity _ \<Rightarrow> True | RetireActivity \<Rightarrow> True
     | FreezeTree \<Rightarrow> True | ResumeTree \<Rightarrow> True | _ \<Rightarrow> False)"

definition record_view where
  "record_view d = (d_client_generation d, d_published_client_facts d, d_pending_attach_at d,
     filter touches_session (d_effects d))"

named_theorems record_simps \<open>what leaves the record alone\<close>

lemma record_effect [record_simps]: "\<not> touches_session x \<Longrightarrow> record_view (effect x d) = record_view d"
  by (simp add: effect_def record_view_def)

lemma record_fields [record_simps]:
  "record_view (d\<lparr>d_clients := cs\<rparr>) = record_view d" "record_view (d\<lparr>d_actor := a\<rparr>) = record_view d"
  "record_view (d\<lparr>d_last_resize := t\<rparr>) = record_view d"
  by (simp_all add: record_view_def)

lemma record_sends [record_simps]:
  "record_view (update_client i f d) = record_view d" "record_view (send_to e i packet d) = record_view d"
  "record_view (send_to_all e p packet d) = record_view d" "record_view (broadcast e packet d) = record_view d"
  "record_view (write_input data d) = record_view d" "record_view (resize_pty e r c d) = record_view d"
  by (simp_all add: send_to_def update_client_def send_to_all_def broadcast_def write_input_def resize_pty_def
      record_simps touches_session_def split: option.split prod.split)

lemma record_negotiate [record_simps]: "record_view (snd (negotiate_size e d)) = record_view d"
  by (simp add: negotiate_size_def broadcast_geometry_def write_pty_def Let_def record_simps split: prod.split)

lemma record_nudge [record_simps]: "record_view (nudge_redraw e d) = record_view d"
  by (simp add: nudge_redraw_def Let_def record_simps)

lemma record_cut [record_simps]:
  "record_view (cut e i d) = record_view d" "record_view (schedule_cut e i g k t d) = record_view d"
proof -
  show c: "record_view (cut e i x) = record_view x" for x
    by (simp add: cut_def Let_def record_simps split: option.split Phase.split)
  show "record_view (schedule_cut e i g k t d) = record_view d"
    by (simp add: schedule_cut_def Let_def record_simps c)
qed

lemma record_closed: "map_of (d_clients d) i = Some c \<Longrightarrow> \<not> constrains_size c \<Longrightarrow>
    record_view (on_closed e i d) = record_view d"
  by (simp add: on_closed_def Let_def record_simps)

lemma record_detach:
  assumes "map_of (d_clients d) i = Some c" and "\<not> constrains_size c" and "bt_ok (d_clients d)"
  shows "record_view (on_detach e i d) = record_view d"
proof -
  have "map_of (d_clients (update_client i (send_out OutEnd) d)) i = Some (send_out OutEnd c)"
    using assms by (simp add: update_client_get)
  moreover have "\<not> constrains_size (send_out OutEnd c)" using assms(2) by (simp add: constrains_size_def send_out_def)
  ultimately show ?thesis unfolding on_detach_def using record_closed by (metis record_sends(1))
qed

text \<open>
  A connection that is not writable, whatever it sends short of an attach or a lifecycle request,
  changes neither the session's record nor the published facts about clients; one that watches
  read-only cannot type, resize the session or reset its input modes at all.
\<close>

theorem observers_leave_the_record_alone:
  assumes "session_state d" and "map_of (d_clients d) i = Some c" and "c_role c \<noteq> Writable"
    and "ptype p \<noteq> Attach" and "ptype p \<noteq> LifecycleCas"
  shows "record_view (on_packet e i p d) = record_view d
    \<and> (c_role c = Readonly \<and> ptype p \<in> {Data, Resize, ResetInputModes} \<longrightarrow> on_packet e i p d = d)"
proof -
  have n: "\<not> constrains_size c" using assms(3) by (simp add: constrains_size_def)
  have o: "bt_ok (d_clients d)" using session.inv_reachable [OF assms(1)] bt_ok_inv(1) by blast
  have "record_view (on_packet e i p d) = record_view d"
    using assms(2-5) n record_detach [OF assms(2) n o]
    by (cases "ptype p") (simp_all add: on_packet_def on_peek_def finish_peek_def on_history_def on_data_def on_resize_def
        on_status_def on_reset_input_modes_def on_accepted_socket_ownership_def Let_def case_prod_beta record_simps)
  moreover have "on_packet e i p d = d" if "c_role c = Readonly" "ptype p \<in> {Data, Resize, ResetInputModes}"
    using that assms(2) by (auto simp: on_packet_def on_data_def on_resize_def on_reset_input_modes_def)
  ultimately show ?thesis by blast
qed

theorem observers_leave_the_record_alone_witness:
  "record_view (on_packet (sample_env 6) 1 \<lparr>ptype = Peek, payload = []\<rparr> (handle (sample_env 5) (Connect 1) sample_daemon))
     = record_view (handle (sample_env 5) (Connect 1) sample_daemon)"
proof -
  have "map_of (d_clients (handle (sample_env 5) (Connect 1) sample_daemon)) 1 = Some (new_client 24 80)"
    by (simp add: handle_def on_connect_def sample_sels sample_fields_start)
  from observers_leave_the_record_alone [OF sample_message [OF sample_reachable] this,
      where p = "\<lparr>ptype = Peek, payload = []\<rparr>" and e = "sample_env 6"]
  show ?thesis by (simp add: new_client_def)
qed

section \<open>The order of messages\<close>

text \<open>What one scan may do with the queue and the messages set aside.\<close>

definition in_order :: "nat \<Rightarrow> bool \<Rightarrow> Msg list \<Rightarrow> Msg list \<Rightarrow> next_msg \<Rightarrow> Msg list \<Rightarrow> Msg list \<Rightarrow> bool" where
  "in_order n gone rx deferred r rx' deferred' =
     (case r of
        Got m \<Rightarrow>
          (if is_bridge m
           then deferred @ filter is_bridge rx = m # deferred' @ filter is_bridge rx'
                \<and> filter (Not \<circ> is_bridge) rx' = filter (Not \<circ> is_bridge) rx
                \<and> (length rx < n \<longrightarrow> filter (Not \<circ> is_bridge) rx = [])
           else deferred @ filter is_bridge rx = deferred' @ filter is_bridge rx'
                \<and> filter (Not \<circ> is_bridge) rx = m # filter (Not \<circ> is_bridge) rx')
          \<and> (\<forall>x \<in> set deferred'. is_bridge x)
      | _ \<Rightarrow> rx = [] \<and> deferred = [] \<and> r = (if gone then Disconnected else WouldWait))"

lemma in_order_defer:
  "is_bridge m \<Longrightarrow> in_order n gone rx (deferred @ [m]) r rx' deferred' \<Longrightarrow>
     in_order (Suc n) gone (m # rx) deferred r rx' deferred'"
  by (auto simp: in_order_def split: next_msg.splits if_splits)

lemma scan_queue_order:
  assumes "\<forall>m \<in> set deferred. is_bridge m" and "0 < n \<or> deferred \<noteq> []"
    and "scan_queue n gone rx deferred = (r, rx', deferred')"
  shows "in_order n gone rx deferred r rx' deferred'"
  using assms
proof (induction n gone rx deferred rule: scan_queue.induct)
  case (1 gone rx deferred)
  then show ?case by (cases deferred) (auto simp: in_order_def)
next
  case (2 n gone deferred)
  then show ?case by (cases deferred) (auto simp: in_order_def)
next
  case (3 n gone m rx deferred)
  show ?case
  proof (cases "is_bridge m")
    case True
    then have "in_order n gone rx (deferred @ [m]) r rx' deferred'" using 3(2,4) by (intro 3(1)) simp_all
    with True show ?thesis by (rule in_order_defer)
  next
    case False
    then show ?thesis using 3(2,4) by (auto simp: in_order_def)
  qed
qed

text \<open>
  C8. The loop takes client and control messages in the order they were sent and ahead of waiting
  output, and it takes output, end of output and exit status in their own order; no message is
  lost or repeated, and it waits only when none is left. Within one scan of 8192 messages no output
  passes a waiting control message.
\<close>

theorem message_order:
  assumes "\<forall>m \<in> set deferred. is_bridge m"
    and "next_queued_message gone rx deferred = (r, rx', deferred')"
  shows "case r of
      Got m \<Rightarrow>
        (if is_bridge m
         then deferred @ filter is_bridge rx = m # deferred' @ filter is_bridge rx'
              \<and> filter (Not \<circ> is_bridge) rx' = filter (Not \<circ> is_bridge) rx
              \<and> (length rx < 8192 \<longrightarrow> filter (Not \<circ> is_bridge) rx = [])
         else deferred @ filter is_bridge rx = deferred' @ filter is_bridge rx'
              \<and> filter (Not \<circ> is_bridge) rx = m # filter (Not \<circ> is_bridge) rx')
        \<and> (\<forall>x \<in> set deferred'. is_bridge x)
    | _ \<Rightarrow> rx = [] \<and> deferred = [] \<and> r = (if gone then Disconnected else WouldWait)"
  using scan_queue_order [OF assms(1) _ assms(2) [unfolded next_queued_message_def]] by (simp add: in_order_def)

theorem message_order_witness:
  "\<exists>m rx' deferred'. next_queued_message False [PtyData [1], Closed 4, PtyEof] [PtyData [0]] = (Got m, rx', deferred')
     \<and> m = Closed 4 \<and> deferred' @ filter is_bridge rx' = [PtyData [0], PtyData [1], PtyEof]"
proof -
  have b: "\<forall>m \<in> set [PtyData [0]]. is_bridge m" by (simp add: is_bridge_def)
  have "next_queued_message False [PtyData [1], Closed 4, PtyEof] [PtyData [0]]
      = (Got (Closed 4), [PtyEof], [PtyData [0], PtyData [1]])"
  proof -
    have "(8192::nat) = Suc (Suc 8190)" by simp
    then show ?thesis unfolding next_queued_message_def by (simp only: scan_queue.simps) (simp add: is_bridge_def)
  qed
  from message_order [OF b this] this show ?thesis by (simp add: is_bridge_def)
qed

end
