(* ===== verification/Session_Lifecycle.thy ===== *)
theory Session_Lifecycle
  imports Daemon_Properties
begin

text \<open>
  What a daemon promises about the life of its session, as a machine of three transitions: the child
  ends with a status, the exit is recorded, the daemon stops. The daemon refines it: every step of
  the daemon is a sequence of these transitions.
\<close>

record session_life =
  life_status :: "ExitStatus option"
  life_recorded :: bool
  life_stopping :: bool

inductive life_step :: "session_life \<Rightarrow> session_life \<Rightarrow> bool" where
  life_ends: "life_status s = None \<Longrightarrow> \<not> life_recorded s \<Longrightarrow> life_step s (s\<lparr>life_status := Some st\<rparr>)"
| life_records: "life_status s \<noteq> None \<Longrightarrow> \<not> life_recorded s \<Longrightarrow> life_step s (s\<lparr>life_recorded := True\<rparr>)"
| life_stops: "\<not> life_stopping s \<Longrightarrow> life_step s (s\<lparr>life_stopping := True\<rparr>)"

definition life_of :: "'t Daemon \<Rightarrow> session_life" where
  "life_of d = \<lparr>life_status = d_child_status d, life_recorded = d_exited d,
     life_stopping = (d_shutdown_code d \<noteq> None)\<rparr>"

text \<open>The machine never goes back, and it records no exit before the end.\<close>

lemma life_forward:
  "life_step\<^sup>*\<^sup>* s t \<Longrightarrow>
     (life_status s \<noteq> None \<longrightarrow> life_status t = life_status s) \<and> (life_recorded s \<longrightarrow> life_recorded t)
     \<and> (life_stopping s \<longrightarrow> life_stopping t)
     \<and> (life_recorded t \<longrightarrow> life_recorded s \<or> life_status t \<noteq> None)"
  by (induction rule: rtranclp_induct) (auto elim!: life_step.cases)

lemma life_same:
  "exit_view d' = exit_view d \<Longrightarrow> d_shutdown_code d' = d_shutdown_code d \<Longrightarrow> life_of d' = life_of d"
  by (simp add: life_of_def exit_view_def)

lemma life_lease_view: "exit_view d' = exit_view d \<Longrightarrow> lease_view d' = lease_view d \<Longrightarrow> life_of d' = life_of d"
  by (rule life_same) (simp_all add: lease_view_def)

text \<open>A later stop, alone.\<close>

lemma life_stop:
  assumes "exit_view d' = exit_view d" and "d_shutdown_code d \<noteq> None \<longrightarrow> d_shutdown_code d' \<noteq> None"
  shows "life_step\<^sup>*\<^sup>* (life_of d) (life_of d')"
proof (cases "d_shutdown_code d = None \<and> d_shutdown_code d' \<noteq> None")
  case True
  then have "life_of d' = (life_of d)\<lparr>life_stopping := True\<rparr>"
    using assms(1) by (simp add: life_of_def exit_view_def)
  then show ?thesis using life_stops [of "life_of d"] True by (simp add: life_of_def r_into_rtranclp)
next
  case False
  then have "life_of d' = life_of d" using assms by (auto simp: life_of_def exit_view_def)
  then show ?thesis by simp
qed

text \<open>Recording the exit.\<close>

lemma life_finalize:
  assumes "d_child_status d = Some s" and "\<not> d_exited d"
  shows "life_step\<^sup>*\<^sup>* (life_of d) (life_of (finalize_exit e d))"
proof -
  have "life_of (finalize_exit e d) = (life_of d)\<lparr>life_recorded := True\<rparr>"
    using finalize_exit_view [OF assms(1), of e] assms(1) by (simp add: life_of_def exit_view_def)
  then show ?thesis using life_records [of "life_of d"] assms by (simp add: life_of_def r_into_rtranclp)
qed

lemma life_child_exited: "life_step\<^sup>*\<^sup>* (life_of d) (life_of (on_child_exited e status d))"
  if inv: "exit_inv d"
proof -
  obtain b d0 where h: "holds status d = (b, d0)" by fastforce
  have l0: "life_of d0 = life_of d"
    using exit_view_operation(3,4) [of status d] h by (intro life_lease_view) simp_all
  show ?thesis
  proof (cases "b \<or> d_child_status d0 \<noteq> None")
    case True
    then show ?thesis using l0 by (auto simp: on_child_exited_def h split: bool.split)
  next
    case False
    define d1 where "d1 = d0\<lparr>d_child_status := Some status\<rparr>"
    have n: "d_child_status d0 = None" "\<not> d_exited d0" using False l0 inv by (auto simp: life_of_def exit_inv_def)
    have "life_of d1 = (life_of d0)\<lparr>life_status := Some status\<rparr>" by (simp add: d1_def life_of_def)
    then have "life_step (life_of d0) (life_of d1)" using life_ends [of "life_of d0"] n by (simp add: life_of_def)
    moreover have "life_of (d1\<lparr>d_exit_drain_deadline := t\<rparr>) = life_of d1" for t by (simp add: life_of_def)
    moreover have "life_step\<^sup>*\<^sup>* (life_of d1) (life_of (finalize_exit e d1))"
      by (rule life_finalize) (use n in \<open>simp_all add: d1_def\<close>)
    ultimately show ?thesis
      using False n l0 by (auto simp: on_child_exited_def h d1_def Let_def intro: converse_rtranclp_into_rtranclp)
  qed
qed

lemma life_handle:
  assumes inv: "exit_inv d"
  shows "life_step\<^sup>*\<^sup>* (life_of d) (life_of (handle e m d))"
proof -
  have op: "life_of (d\<lparr>d_operation := x\<rparr>) = life_of d" "exit_inv (d\<lparr>d_operation := x\<rparr>)" for x
    using exit_inv_views [OF exit_view_operation(1,2) inv] by (simp_all add: life_of_def)
  have eof: "life_step\<^sup>*\<^sup>* (life_of d) (life_of (on_pty_eof e d))"
  proof -
    have same: "life_of (d\<lparr>d_pty_eof := True\<rparr>) = life_of d" by (simp add: life_of_def)
    show ?thesis
    proof (cases "d_child_status d \<noteq> None \<and> \<not> d_exited d")
      case True
      then obtain s where "d_child_status d = Some s" by auto
      then show ?thesis using True life_finalize [of "d\<lparr>d_pty_eof := True\<rparr>" s e]
        by (simp add: on_pty_eof_def same)
    next
      case False
      then show ?thesis using same by (auto simp: on_pty_eof_def Let_def)
    qed
  qed
  have kill: "life_step\<^sup>*\<^sup>* (life_of d) (life_of (on_external_kill d))"
  proof -
    obtain b d0 where h: "intercepts_kill d = (b, d0)" by fastforce
    have v: "exit_view d0 = exit_view d" "d_shutdown_code d0 = d_shutdown_code d"
      using exit_view_operation(5,6) [of d] h lease_viewD(4) [of d0 d] by simp_all
    show ?thesis
      by (rule life_stop) (use v in \<open>auto simp: on_external_kill_def h exit_view_lease_fields split: bool.split\<close>)
  qed
  have "life_step\<^sup>*\<^sup>* (life_of d) (life_of (on_operation_transferred e d))"
    using life_child_exited [OF op(2)] op(1) by (auto simp: on_operation_transferred_def split: option.split)
  moreover have "life_step\<^sup>*\<^sup>* (life_of d) (life_of (on_operation_end code d))" for code
    by (rule life_stop) (auto simp: on_operation_end_def Let_def exit_view_lease_fields exit_view_operation split: option.split)
  moreover have "life_of (on_packet e i p d) = life_of d" for i p
    by (rule life_same) (simp_all add: exit_view_packet packet_shutdown)
  moreover have "life_of (on_pty_data e x d) = life_of d" "life_of (on_connect e i d) = life_of d"
    "life_of (on_closed e i d) = life_of d" for x i
    by (rule life_lease_view; simp add: view_simps)+
  ultimately show ?thesis
    using eof kill life_child_exited [OF inv] by (cases m) (simp_all add: handle_def)
qed

lemma life_timers:
  assumes inv: "exit_inv d"
  shows "life_step\<^sup>*\<^sup>* (life_of d) (life_of (service_timers e d))"
proof -
  define x where "x = service_client_retry e (service_activity e (service_sweep e (service_cuts e d)))"
  have x: "life_of x = life_of d" by (rule life_lease_view) (simp_all add: x_def view_simps)
  have dr: "life_step\<^sup>*\<^sup>* (life_of x) (life_of (service_exit_drain e x))"
  proof -
    have same: "life_of (x\<lparr>d_exit_drain_deadline := None\<rparr>) = life_of x" by (simp add: life_of_def)
    have "life_step\<^sup>*\<^sup>* (life_of x) (life_of (finalize_exit e (x\<lparr>d_exit_drain_deadline := None\<rparr>)))"
      if a: "\<not> d_exited x" "d_child_status x \<noteq> None"
    proof -
      obtain s where "d_child_status x = Some s" using a by auto
      then show ?thesis using a life_finalize [of "x\<lparr>d_exit_drain_deadline := None\<rparr>" s e] by (simp add: same)
    qed
    then show ?thesis by (auto simp: service_exit_drain_def Let_def same split: option.split)
  qed
  let ?y = "service_exit_retry e (service_exit_drain e x)"
  have y: "life_of ?y = life_of (service_exit_drain e x)" by (rule life_lease_view) (simp_all add: view_simps)
  have l: "life_step\<^sup>*\<^sup>* (life_of ?y) (life_of (service_startup_lease e ?y))"
    by (rule life_stop [OF exit_view_service_lease]) (simp add: service_lease_shutdown)
  have "life_step\<^sup>*\<^sup>* (life_of z) (life_of (service_shutdown e z))" for z :: "'a Daemon"
  proof (cases "d_shutdown_code z = None \<and> d_shutdown_code (service_shutdown e z) \<noteq> None")
    case True
    then have "life_of (service_shutdown e z) = (life_of z)\<lparr>life_stopping := True\<rparr>"
      by (auto simp: service_shutdown_def life_of_def Let_def split: option.splits)
    then show ?thesis using life_stops [of "life_of z"] True by (simp add: life_of_def r_into_rtranclp)
  next
    case False
    then have "life_of (service_shutdown e z) = life_of z"
      by (auto simp: service_shutdown_def life_of_def Let_def split: option.splits)
    then show ?thesis by simp
  qed
  then show ?thesis
    unfolding service_timers_def x_def [symmetric] using x y dr l by (metis (no_types, lifting) rtranclp_trans)
qed

text \<open>
  C5. The daemon refines the life of a session: every step of it, message, timers or another thread,
  is a sequence of the transitions end, record and stop. So a status once known never changes, a
  recorded exit and a decided stop stay, and no exit is recorded for a running child.
\<close>

theorem daemon_refines_session_life:
  assumes "session_state d" and "daemon_step\<^sup>*\<^sup>* d d'"
  shows "life_step\<^sup>*\<^sup>* (life_of d) (life_of d')
    \<and> (d_child_status d \<noteq> None \<longrightarrow> d_child_status d' = d_child_status d)
    \<and> (d_exited d \<longrightarrow> d_exited d') \<and> (d_shutdown_code d \<noteq> None \<longrightarrow> d_shutdown_code d' \<noteq> None)"
proof -
  have "daemon_inv d \<and> exit_inv d" by (rule session.inv_reachable [OF assms(1)])
  with assms(2) have "life_step\<^sup>*\<^sup>* (life_of d) (life_of d') \<and> daemon_inv d' \<and> exit_inv d'"
  proof (induction rule: rtranclp_induct)
    case (step y z)
    have inv: "exit_inv y" using step by blast
    from step(2) have "life_step\<^sup>*\<^sup>* (life_of y) (life_of z)"
    proof cases
      case (step_message e m)
      then show ?thesis using life_handle [OF inv] by simp
    next
      case (step_timers e)
      then show ?thesis using life_timers [OF inv] by simp
    next
      case (step_transfer op)
      then show ?thesis by (simp add: life_of_def)
    qed (simp_all add: life_lease_view [OF view_update])
    then show ?case using step session.inv_step [OF _ step(2)] by (meson rtranclp_trans)
  qed simp
  then show ?thesis using life_forward [of "life_of d" "life_of d'"] by (simp add: life_of_def)
qed

theorem daemon_refines_session_life_witness:
  "let d = handle (sample_env 5) (ChildExited \<lparr>es_code = Some 3, es_signal = None\<rparr>) sample_daemon;
       d' = service_timers (sample_env 900) d
   in life_step\<^sup>*\<^sup>* (life_of d) (life_of d') \<and> d_child_status d' = Some \<lparr>es_code = Some 3, es_signal = None\<rparr>"
proof -
  let ?d = "handle (sample_env 5) (ChildExited \<lparr>es_code = Some 3, es_signal = None\<rparr>) sample_daemon"
  have "d_child_status ?d = Some \<lparr>es_code = Some 3, es_signal = None\<rparr>"
    by (simp add: handle_def on_child_exited_def holds_def sample_defs)
  then show ?thesis
    using daemon_refines_session_life [OF sample_message [OF sample_reachable] r_into_rtranclp [of daemon_step, OF step_timers],
        of "sample_env 5" "ChildExited \<lparr>es_code = Some 3, es_signal = None\<rparr>" "sample_env 900"]
    by (simp add: Let_def)
qed

end
