(* ===== verification/Input_Budget.thy ===== *)
theory Input_Budget
  imports Transitions "HOL-Library.Multiset"
begin

text \<open>
  The bound on client input the child has not taken yet (\<^verbatim>\<open>crates/pty/src/daemon/input_budget.rs\<close>). Reader
  threads hold the bytes of a packet before they pass it on and wait while the budget is spent; a
  hold is released when it is dropped. The condition variable is the guard of the step, the holds
  that exist are a multiset, and the counter of the source is kept beside them.
\<close>

definition INPUT_BUDGET :: nat where
  "INPUT_BUDGET = 1048576"

record InputBudget =
  ib_limit :: nat
  ib_pending :: nat

definition new_budget :: "nat \<Rightarrow> InputBudget" where
  "new_budget limit = \<lparr>ib_limit = limit, ib_pending = 0\<rparr>"

definition must_wait :: "nat \<Rightarrow> InputBudget \<Rightarrow> bool" where
  "must_wait n b \<longleftrightarrow> ib_pending b > 0 \<and> ib_pending b + n > ib_limit b"

text \<open>\<open>hold\<close> returns once it need not wait; \<open>None\<close> is the thread still waiting.\<close>

definition hold :: "nat \<Rightarrow> InputBudget \<Rightarrow> InputBudget option" where
  "hold n b = (if must_wait n b then None else Some (b\<lparr>ib_pending := ib_pending b + n\<rparr>))"

text \<open>The subtraction of \<open>drop\<close>, which panics below zero: \<open>None\<close>.\<close>

definition drop_hold :: "nat \<Rightarrow> InputBudget \<Rightarrow> InputBudget option" where
  "drop_hold n b = (if n \<le> ib_pending b then Some (b\<lparr>ib_pending := ib_pending b - n\<rparr>) else None)"

inductive budget_step :: "InputBudget \<times> nat multiset \<Rightarrow> InputBudget \<times> nat multiset \<Rightarrow> bool" where
  step_hold: "hold n b = Some b' \<Longrightarrow> budget_step (b, hs) (b', add_mset n hs)"
| step_drop: "n \<in># hs \<Longrightarrow> drop_hold n b = Some b' \<Longrightarrow> budget_step (b, hs) (b', hs - {#n#})"

inductive_cases budget_stepE: "budget_step s t"

definition budget_inv :: "nat \<Rightarrow> InputBudget \<times> nat multiset \<Rightarrow> bool" where
  "budget_inv limit s \<longleftrightarrow>
     ib_limit (fst s) = limit \<and> ib_pending (fst s) = sum_mset (snd s)
     \<and> (sum_mset (snd s) \<le> limit \<or> (\<exists>n. filter_mset (\<lambda>k. 0 < k) (snd s) = {#n#}))"

lemma sum_filter_positive: "sum_mset (filter_mset (\<lambda>k. 0 < k) hs) = (sum_mset hs :: nat)"
  by (induction hs) auto

lemma positive_part_empty: "sum_mset hs = (0::nat) \<longleftrightarrow> filter_mset (\<lambda>k. 0 < k) hs = {#}"
  using sum_filter_positive [of hs] by (induction hs) auto

lemma budget_hold_inv:
  assumes "budget_inv limit (b, hs)" and "hold n b = Some b'"
  shows "budget_inv limit (b', add_mset n hs)"
proof (cases "n = 0")
  case True
  then show ?thesis using assms by (auto simp: budget_inv_def hold_def split: if_splits)
next
  case False
  then show ?thesis
    using assms positive_part_empty [of hs]
    by (auto simp: budget_inv_def hold_def must_wait_def not_less split: if_splits)
qed

lemma budget_drop_inv:
  assumes "budget_inv limit (b, hs)" and "n \<in># hs" and "drop_hold n b = Some b'"
  shows "budget_inv limit (b', hs - {#n#})"
proof -
  obtain gs where gs: "hs = add_mset n gs" using assms(2) by (metis mset_add)
  have "sum_mset gs \<le> limit \<or> (\<exists>k. filter_mset (\<lambda>k. 0 < k) gs = {#k#})"
  proof (cases "sum_mset hs \<le> limit")
    case False
    then obtain m where m: "filter_mset (\<lambda>k. 0 < k) hs = {#m#}" using assms(1) by (auto simp: budget_inv_def)
    then have "n = 0 \<or> filter_mset (\<lambda>k. 0 < k) gs = {#}" using gs by (auto split: if_splits)
    then show ?thesis
    proof
      assume "n = 0"
      then show ?thesis using m gs by simp
    next
      assume "filter_mset (\<lambda>k. 0 < k) gs = {#}"
      then have "sum_mset gs = 0" using positive_part_empty by blast
      then have "sum_mset gs \<le> limit" by (metis le0)
      then show ?thesis ..
    qed
  qed (use gs in simp)
  then show ?thesis using assms(1,3) by (auto simp: budget_inv_def drop_hold_def gs split: if_splits)
qed

interpretation budget: invariant_system "\<lambda>s. s = (new_budget limit, {#})" budget_step "budget_inv limit" for limit
proof
  show "s = (new_budget limit, {#}) \<Longrightarrow> budget_inv limit s" for s by (simp add: budget_inv_def new_budget_def)
  show "budget_inv limit s \<Longrightarrow> budget_step s t \<Longrightarrow> budget_inv limit t" for s t
    by (erule budget_stepE) (auto intro: budget_hold_inv budget_drop_inv)
qed

text \<open>
  Whatever the readers hold and release in whatever order, the counter is the sum of the holds
  and within the budget, or one packet larger than it is alone; releasing never goes below zero;
  and a waiting packet can go on at the latest when every hold is released.
\<close>

theorem input_budget_exact:
  assumes "reachable (\<lambda>s. s = (new_budget limit, {#})) budget_step (b, hs)"
  shows "ib_pending b = sum_mset hs
    \<and> (ib_pending b \<le> limit \<or> (\<exists>n. filter_mset (\<lambda>k. 0 < k) hs = {#n#}))
    \<and> (\<forall>n. n \<in># hs \<longrightarrow> drop_hold n b \<noteq> None)
    \<and> (hold n b = None \<longrightarrow> sum_mset hs > 0 \<and> sum_mset hs + n > limit)"
proof -
  have inv: "budget_inv limit (b, hs)" by (rule budget.inv_reachable [OF assms])
  have "n \<le> sum_mset hs" if "n \<in># hs" for n using mset_add [OF that] by force
  then show ?thesis using inv by (auto simp: budget_inv_def drop_hold_def hold_def must_wait_def)
qed

theorem input_budget_exact_witness:
  "hold 5 \<lparr>ib_limit = 10, ib_pending = 8\<rparr> = None \<and> ib_pending \<lparr>ib_limit = 10, ib_pending = 8\<rparr> \<le> 10"
proof -
  have "hold 8 (new_budget 10) = Some \<lparr>ib_limit = 10, ib_pending = 8\<rparr>"
    by (simp add: hold_def must_wait_def new_budget_def)
  then have "reachable (\<lambda>s. s = (new_budget 10, {#})) budget_step (\<lparr>ib_limit = 10, ib_pending = 8\<rparr>, {#8#})"
    using reachable_step [OF reachable_init [of "\<lambda>s. s = (new_budget 10, {#})"], of "(new_budget 10, {#})" budget_step]
      step_hold [of 8 "new_budget 10" _ "{#}"] by simp
  from input_budget_exact [OF this] show ?thesis by (simp add: hold_def must_wait_def)
qed

end
