(* ===== verification/Base64_Codec.thy ===== *)
theory Base64_Codec
  imports Pty_Prelude
begin

text \<open>
  The base64 of the enhanced paste protocol: the encoder of
  \<^verbatim>\<open>crates/pty-terminal/src/graphics.rs\<close> (\<open>base64\<close>) and the strict decoder of
  \<^verbatim>\<open>crates/pty-terminal/src/enhanced_paste.rs\<close> (\<open>decode\<close>). The decoder refuses rather than repairs; the
  theory shows that it accepts exactly what the encoder writes.
\<close>

section \<open>Slices in chunks\<close>

text \<open>\<open>slice::chunks\<close>, which panics on the size 0; the sources use it on the sizes 3, 4 and 4096.\<close>

function chunks :: "nat \<Rightarrow> 'a list \<Rightarrow> 'a list list" where
  "chunks n xs = (if xs = [] \<or> n = 0 then [] else take n xs # chunks n (drop n xs))"
  by auto
termination by (relation "measure (\<lambda>(n, xs). length xs)") auto

declare chunks.simps [simp del]

text \<open>The shape of what \<open>chunks\<close> returns: full pieces, and a last one that is not empty.\<close>

fun chunked :: "nat \<Rightarrow> 'a list list \<Rightarrow> bool" where
  "chunked n [] \<longleftrightarrow> True"
| "chunked n [c] \<longleftrightarrow> c \<noteq> [] \<and> length c \<le> n"
| "chunked n (c # d # cs) \<longleftrightarrow> length c = n \<and> chunked n (d # cs)"

lemma chunks_Nil [simp]: "chunks n [] = []"
  by (simp add: chunks.simps)

lemma chunks_eq_Nil [simp]: "0 < n \<Longrightarrow> chunks n xs = [] \<longleftrightarrow> xs = []"
  by (subst chunks.simps) simp

lemma concat_chunks [simp]: "0 < n \<Longrightarrow> concat (chunks n xs) = xs"
  by (induction n xs rule: chunks.induct) (subst chunks.simps, simp)

lemma chunked_Cons:
  "chunked n (c # cs) \<longleftrightarrow>
     (if cs = [] then c \<noteq> [] \<and> length c \<le> n else length c = n \<and> chunked n cs)"
  by (cases cs) auto

lemma chunked_chunks: "0 < n \<Longrightarrow> chunked n (chunks n xs)"
proof (induction n xs rule: chunks.induct)
  case (1 n xs)
  show ?case
  proof (cases "xs = []")
    case False
    with 1 have "chunked n (chunks n (drop n xs))" by simp
    with False 1(2) show ?thesis
      by (subst chunks.simps) (simp add: chunked_Cons)
  qed simp
qed

lemma chunks_concat: "0 < n \<Longrightarrow> chunked n cs \<Longrightarrow> chunks n (concat cs) = cs"
proof (induction cs)
  case (Cons c cs)
  show ?case
  proof (cases "cs = []")
    case True
    with Cons.prems show ?thesis by (subst chunks.simps) simp
  next
    case False
    with Cons.prems have "length c = n" "chunked n cs" by (auto simp: chunked_Cons)
    with Cons show ?thesis by (subst chunks.simps) auto
  qed
qed simp

lemma chunked_length:
  "chunked n cs \<Longrightarrow> c \<in> set cs \<Longrightarrow> 0 < n \<Longrightarrow> 0 < length c \<and> length c \<le> n"
  by (induction cs) (auto simp: chunked_Cons split: if_splits)

lemma chunk_bounds:
  assumes "c \<in> set (chunks n xs)" and "0 < n"
  shows "c \<noteq> []" and "length c \<le> n"
  using chunked_length [OF chunked_chunks [OF assms(2), of xs] assms] by auto

lemma full_chunks: "list_all (\<lambda>c. length c = n) cs \<Longrightarrow> 0 < n \<Longrightarrow> chunks n (concat cs) = cs"
proof (rule chunks_concat)
  assume "list_all (\<lambda>c. length c = n) cs" "0 < n"
  then show "chunked n cs" by (induction cs) (auto simp: chunked_Cons)
qed

lemma full_chunks_of: "length xs mod n = 0 \<Longrightarrow> 0 < n \<Longrightarrow> list_all (\<lambda>c. length c = n) (chunks n xs)"
proof (induction n xs rule: chunks.induct)
  case (1 n xs)
  show ?case
  proof (cases "xs = []")
    case False
    with 1(2) have "n \<le> length xs" by (metis dvd_imp_le length_greater_0_conv mod_0_imp_dvd)
    with 1 False show ?thesis
      by (subst chunks.simps) (simp add: le_mod_geq)
  qed simp
qed

lemma length_chunks: "0 < n \<Longrightarrow> length (chunks n xs) = (length xs + n - 1) div n"
proof (induction n xs rule: chunks.induct)
  case (1 n xs)
  show ?case
  proof (cases "xs = []")
    case False
    have IH: "length (chunks n (drop n xs)) = (length xs - n + n - 1) div n"
      using 1 False by simp
    have "length xs + n - 1 = length xs - 1 + n" using False by (cases xs) simp_all
    then have "(length xs + n - 1) div n = Suc ((length xs - 1) div n)"
      using 1(2) by (metis Suc_eq_plus1 div_add_self2 less_not_refl2)
    moreover have "(length xs - n + n - 1) div n = (length xs - 1) div n"
      using False 1(2) by (cases "length xs \<le> n") simp_all
    ultimately show ?thesis using IH False 1(2) by (subst chunks.simps) simp
  qed (use 1(2) in simp)
qed

section \<open>The encoder\<close>

definition ALPHABET :: bytes where
  "ALPHABET = bstr ''ABCDEFGHIJKLMNOPQRSTUVWXYZabcdefghijklmnopqrstuvwxyz0123456789+/''"

definition sextet_char :: "u32 \<Rightarrow> nat \<Rightarrow> u8" where
  "sextet_char n k = ALPHABET ! unat (drop_bit k n AND 63)"

definition base64_chunk :: "bytes \<Rightarrow> bytes" where
  "base64_chunk chunk =
     (let b0 = chunk ! 0;
          b1 = (if 1 < length chunk then chunk ! 1 else 0);
          b2 = (if 2 < length chunk then chunk ! 2 else 0);
          n = push_bit 16 (ucast b0) OR push_bit 8 (ucast b1) OR ucast b2
      in [sextet_char n 18, sextet_char n 12,
          (if 1 < length chunk then sextet_char n 6 else 61),
          (if 2 < length chunk then sextet_char n 0 else 61)])"

definition base64 :: "bytes \<Rightarrow> bytes" where
  "base64 data = concat (map base64_chunk (chunks 3 data))"

section \<open>The decoder\<close>

definition b64_value :: "u8 \<Rightarrow> u32 option" where
  "b64_value b =
     (if 65 \<le> b \<and> b \<le> 90 then Some (ucast (b - 65))
      else if 97 \<le> b \<and> b \<le> 122 then Some (ucast (b - 97 + 26))
      else if 48 \<le> b \<and> b \<le> 57 then Some (ucast (b - 48 + 52))
      else if b = 43 then Some 62
      else if b = 47 then Some 63
      else None)"

fun read_sextets :: "u32 \<Rightarrow> bytes \<Rightarrow> u32 option" where
  "read_sextets w [] = Some w"
| "read_sextets w (b # bs) =
     (case b64_value b of None \<Rightarrow> None | Some v \<Rightarrow> read_sextets (push_bit 6 w OR v) bs)"

definition decode_chunk :: "bool \<Rightarrow> bytes \<Rightarrow> bytes option" where
  "decode_chunk is_last chunk =
     (let pad = length (takeWhile (\<lambda>b. b = 61) (rev chunk)) in
      if pad > 2 \<or> pad > 0 \<and> \<not> is_last then None
      else
        (case read_sextets 0 (take (4 - pad) chunk) of
           None \<Rightarrow> None
         | Some w \<Rightarrow>
             (let bs = u32_to_be_bytes (push_bit (6 * pad) w) in
              if pad > 0 \<and> list_ex (\<lambda>b. b \<noteq> 0) (drop (4 - pad) bs) then None
              else Some (drop 1 (take (4 - pad) bs)))))"

fun decode_chunks :: "bytes list \<Rightarrow> bytes option" where
  "decode_chunks [] = Some []"
| "decode_chunks (c # cs) =
     (case decode_chunk (cs = []) c of
        None \<Rightarrow> None
      | Some bs \<Rightarrow> (case decode_chunks cs of None \<Rightarrow> None | Some rest \<Rightarrow> Some (bs @ rest)))"

definition decode :: "bytes \<Rightarrow> bytes option" where
  "decode text' = (if length text' mod 4 \<noteq> 0 then None else decode_chunks (chunks 4 text'))"

section \<open>Sextets\<close>

lemma alphabet_values:
  "list_all (\<lambda>i. b64_value (ALPHABET ! i) = Some (word_of_nat i)) [0..<64]"
  by code_simp

lemma alphabet_ranges: "ALPHABET = map word_of_nat ([65..<91] @ [97..<123] @ [48..<58] @ [43, 47])"
  by code_simp

lemma unat_ucast_u32 [simp]: "unat (ucast (b :: u8) :: u32) = unat b"
  using unsigned_less [of b, where ?'a = nat] by (simp add: unsigned_ucast_eq take_bit_nat_eq_self_iff)

lemma and_63: "(w :: u32) AND 63 = take_bit 6 w"
  by (simp add: take_bit_eq_mask mask_eq_exp_minus_1)

lemma take_sextet: "v < 64 \<Longrightarrow> take_bit 6 (v :: u32) = v"
  by (subst word_unat_eq_iff)
    (simp add: unsigned_take_bit_eq take_bit_nat_eq_self_iff word_less_nat_alt)

lemma b64_value_Some:
  assumes "b64_value b = Some v"
  shows "v < 64" and "ALPHABET ! unat v = b" and "b \<noteq> 61"
proof -
  have split: "b64_value b = Some v \<Longrightarrow>
      65 \<le> b \<and> b \<le> 90 \<and> unat v = unat b - 65
      \<or> 97 \<le> b \<and> b \<le> 122 \<and> unat v = unat b - 97 + 26
      \<or> 48 \<le> b \<and> b \<le> 57 \<and> unat v = unat b - 48 + 52
      \<or> b = 43 \<and> unat v = 62 \<or> b = 47 \<and> unat v = 63"
    by (auto simp: b64_value_def unat_sub unat_word_ariths word_le_nat_alt
        split: if_splits)
  then consider (upper) "65 \<le> unat b" "unat b \<le> 90" "unat v = unat b - 65"
    | (lower) "97 \<le> unat b" "unat b \<le> 122" "unat v = unat b - 97 + 26"
    | (digit) "48 \<le> unat b" "unat b \<le> 57" "unat v = unat b - 48 + 52"
    | (plus) "b = 43" "unat v = 62" | (slash) "b = 47" "unat v = 63"
    using assms by (auto simp: word_le_nat_alt)
  then have "unat v < 64 \<and> ALPHABET ! unat v = b \<and> b \<noteq> 61"
    by cases (auto simp: alphabet_ranges nth_append simp del: upt_rec_numeral)
  then show "v < 64" and "ALPHABET ! unat v = b" and "b \<noteq> 61"
    by (auto simp: word_less_nat_alt)
qed

lemma b64_value_alphabet: "i < 64 \<Longrightarrow> b64_value (ALPHABET ! i) = Some (word_of_nat i)"
  using alphabet_values by (simp add: list_all_iff)

lemma b64_value_sextet [simp]: "b64_value (sextet_char n k) = Some (drop_bit k n AND 63)"
proof -
  have "drop_bit k n AND 63 < 64"
    using take_bit_nat_less_exp [of 6 "unat (drop_bit k n)"]
    by (simp add: and_63 word_less_nat_alt unsigned_take_bit_eq)
  then show ?thesis
    by (simp add: sextet_char_def b64_value_alphabet word_less_nat_alt)
qed

lemma sextet_char_not_pad [simp]: "sextet_char n k \<noteq> 61"
  using b64_value_sextet b64_value_Some(3) by blast

text \<open>Three bytes are four sextets, in both directions.\<close>

definition join3 :: "u8 \<Rightarrow> u8 \<Rightarrow> u8 \<Rightarrow> u32" where
  "join3 a b c = push_bit 16 (ucast a) OR push_bit 8 (ucast b) OR ucast c"

definition join4 :: "u32 \<Rightarrow> u32 \<Rightarrow> u32 \<Rightarrow> u32 \<Rightarrow> u32" where
  "join4 p q r s = push_bit 6 (push_bit 6 (push_bit 6 p OR q) OR r) OR s"

lemma join3_bytes [simp]: "u32_to_be_bytes (join3 a b c) = [0, a, b, c]"
proof -
  have "join3 a b c = u32_from_be_bytes 0 a b c"
    by (simp add: join3_def u32_from_be_bytes_def or.assoc)
  then show ?thesis by simp
qed

lemma join3_high: "24 \<le> i \<Longrightarrow> \<not> bit (join3 a b c) i"
  by (auto simp: join3_def bit_simps not_bit_u8_beyond)

lemma join4_sextets:
  assumes "\<And>i. 24 \<le> i \<Longrightarrow> \<not> bit n i"
  shows "join4 (take_bit 6 (drop_bit 18 n)) (take_bit 6 (drop_bit 12 n)) (take_bit 6 (drop_bit 6 n))
    (take_bit 6 n) = n"
proof (rule bit_word_eqI)
  fix i
  assume "i < LENGTH(32)"
  then consider "i < 6" | "6 \<le> i \<and> i < 12" | "12 \<le> i \<and> i < 18" | "18 \<le> i \<and> i < 24" | "24 \<le> i \<and> i < 32"
    by fastforce
  then show "bit (join4 (take_bit 6 (drop_bit 18 n)) (take_bit 6 (drop_bit 12 n))
      (take_bit 6 (drop_bit 6 n)) (take_bit 6 n)) i = bit n i"
    by cases (auto simp: join4_def bit_simps assms)
qed

lemma sextets_join4:
  shows "take_bit 6 (drop_bit 18 (join4 (take_bit 6 p) (take_bit 6 q) (take_bit 6 r) (take_bit 6 s)))
      = take_bit 6 p"
    and "take_bit 6 (drop_bit 12 (join4 (take_bit 6 p) (take_bit 6 q) (take_bit 6 r) (take_bit 6 s)))
      = take_bit 6 q"
    and "take_bit 6 (drop_bit 6 (join4 (take_bit 6 p) (take_bit 6 q) (take_bit 6 r) (take_bit 6 s)))
      = take_bit 6 r"
    and "take_bit 6 (join4 (take_bit 6 p) (take_bit 6 q) (take_bit 6 r) (take_bit 6 s)) = take_bit 6 s"
    and "24 \<le> i \<Longrightarrow> \<not> bit (join4 (take_bit 6 p) (take_bit 6 q) (take_bit 6 r) (take_bit 6 s)) i"
  by (auto intro!: bit_word_eqI simp: join4_def bit_simps)

section \<open>A chunk and back\<close>

lemma base64_chunk_join3:
  "base64_chunk [a] = [sextet_char (join3 a 0 0) 18, sextet_char (join3 a 0 0) 12, 61, 61]"
  "base64_chunk [a, b] =
     [sextet_char (join3 a b 0) 18, sextet_char (join3 a b 0) 12, sextet_char (join3 a b 0) 6, 61]"
  "base64_chunk [a, b, c] =
     [sextet_char (join3 a b c) 18, sextet_char (join3 a b c) 12, sextet_char (join3 a b c) 6,
      sextet_char (join3 a b c) 0]"
  by (simp_all add: base64_chunk_def join3_def Let_def numeral_2_eq_2)

lemma length_base64_chunk [simp]: "length (base64_chunk c) = 4"
  by (simp add: base64_chunk_def Let_def)

lemma short_chunk:
  assumes "c \<noteq> []" and "length c \<le> 3"
  obtains (one) a where "c = [a]" | (two) a b where "c = [a, b]" | (three) a b d where "c = [a, b, d]"
  using assms by (cases c; cases "tl c"; cases "tl (tl c)") auto

text \<open>The sextets that a short chunk leaves out are zero.\<close>

lemma sextet_of_short:
  "take_bit 6 (join3 a b 0) = 0" "take_bit 6 (drop_bit 6 (join3 a 0 0)) = 0"
  by (auto intro!: bit_word_eqI simp: join3_def bit_simps not_bit_u8_beyond)

lemma decode_base64_chunk:
  assumes "c \<noteq> []" and "length c \<le> 3" and "length c = 3 \<or> is_last"
  shows "decode_chunk is_last (base64_chunk c) = Some c"
  using assms(1,2)
proof (cases c rule: short_chunk)
  case (one a)
  have "push_bit 6 (push_bit 6 (push_bit 6 (take_bit 6 (drop_bit 18 (join3 a 0 0)))
      OR take_bit 6 (drop_bit 12 (join3 a 0 0)))) = join3 a 0 0"
    using join4_sextets [of "join3 a 0 0", OF join3_high] sextet_of_short(1) [of a 0]
    by (simp add: join4_def sextet_of_short)
  with one assms(3) show ?thesis
    by (simp add: decode_chunk_def base64_chunk_join3 and_63 Let_def numeral_eq_Suc)
next
  case (two a b)
  have "push_bit 6 (push_bit 6 (push_bit 6 (take_bit 6 (drop_bit 18 (join3 a b 0)))
      OR take_bit 6 (drop_bit 12 (join3 a b 0))) OR take_bit 6 (drop_bit 6 (join3 a b 0))) = join3 a b 0"
    using join4_sextets [of "join3 a b 0", OF join3_high]
    by (simp add: join4_def sextet_of_short)
  with two assms(3) show ?thesis
    by (simp add: decode_chunk_def base64_chunk_join3 and_63 Let_def)
next
  case (three a b d)
  have "join4 (take_bit 6 (drop_bit 18 (join3 a b d))) (take_bit 6 (drop_bit 12 (join3 a b d)))
      (take_bit 6 (drop_bit 6 (join3 a b d))) (take_bit 6 (join3 a b d)) = join3 a b d"
    by (rule join4_sextets) (rule join3_high)
  with three show ?thesis
    by (simp add: decode_chunk_def base64_chunk_join3 and_63 Let_def join4_def)
qed

lemma join3_of_bytes:
  assumes "\<And>i. 24 \<le> i \<Longrightarrow> \<not> bit n i"
  shows "join3 (ucast (drop_bit 16 n)) (ucast (drop_bit 8 n)) (ucast n) = n"
proof (rule bit_word_eqI)
  fix i
  assume "i < LENGTH(32)"
  then consider "i < 8" | "8 \<le> i \<and> i < 16" | "16 \<le> i \<and> i < 24" | "24 \<le> i \<and> i < 32"
    by fastforce
  then show "bit (join3 (ucast (drop_bit 16 n)) (ucast (drop_bit 8 n)) (ucast n)) i = bit n i"
    by cases (auto simp: join3_def bit_simps assms)
qed

text \<open>Four characters with a value, as the number the decoder reads from them.\<close>

lemma join4_of_values:
  assumes "b64_value w = Some p" "b64_value x = Some q" "b64_value y = Some r" "b64_value z = Some s"
    and "n = join4 p q r s"
  shows "sextet_char n 18 = w" "sextet_char n 12 = x" "sextet_char n 6 = y" "sextet_char n 0 = z"
    and "join3 (ucast (drop_bit 16 n)) (ucast (drop_bit 8 n)) (ucast n) = n"
proof -
  have t: "take_bit 6 p = p" "take_bit 6 q = q" "take_bit 6 r = r" "take_bit 6 s = s"
    using assms(1-4) by (auto intro: take_sextet dest: b64_value_Some(1))
  note sx = sextets_join4 [where p = p and q = q and r = r and s = s, unfolded t, folded assms(5)]
  show "sextet_char n 18 = w" "sextet_char n 12 = x" "sextet_char n 6 = y" "sextet_char n 0 = z"
    using assms(1-4) by (auto simp: sextet_char_def and_63 sx dest: b64_value_Some(2))
  show "join3 (ucast (drop_bit 16 n)) (ucast (drop_bit 8 n)) (ucast n) = n"
    by (rule join3_of_bytes) (rule sx(5))
qed

lemma b64_value_A [simp]: "b64_value 65 = Some 0"
  by (simp add: b64_value_def)

lemma b64_value_pad [simp]: "b64_value 61 = None"
  by (simp add: b64_value_def)

lemma decode_chunk_Some:
  assumes "decode_chunk is_last c = Some d" and "length c = 4"
  shows "base64_chunk d = c \<and> d \<noteq> [] \<and> length d \<le> 3 \<and> (length d = 3 \<or> is_last)"
proof -
  obtain w x y z where c: "c = [w, x, y, z]"
    using assms(2) by (auto simp: numeral_eq_Suc length_Suc_conv)
  consider (full) "z \<noteq> 61" | (two) "z = 61" "y \<noteq> 61" | (one) "z = 61" "y = 61" "x \<noteq> 61"
    | (none) "z = 61" "y = 61" "x = 61" by blast
  then show ?thesis
  proof cases
    case full
    then obtain p q r s where v: "b64_value w = Some p" "b64_value x = Some q" "b64_value y = Some r"
        "b64_value z = Some s" and d: "d = tl (u32_to_be_bytes (join4 p q r s))"
      using assms(1) by (auto simp: c decode_chunk_def Let_def join4_def u32_to_be_bytes_def
          split: option.splits)
    show ?thesis
      using join4_of_values [OF v refl]
      by (simp add: c d u32_to_be_bytes_def base64_chunk_join3)
  next
    case two
    then obtain p q r where v: "b64_value w = Some p" "b64_value x = Some q" "b64_value y = Some r"
        "b64_value 65 = Some 0"
      and d: "d = tl (take 3 (u32_to_be_bytes (join4 p q r 0)))" "ucast (join4 p q r 0) = (0 :: u8)" is_last
      using assms(1) by (auto simp: c decode_chunk_def Let_def join4_def u32_to_be_bytes_def
          split: option.splits if_splits)
    show ?thesis
      using join4_of_values [OF v refl] d(2,3) two
      by (simp add: c d(1) u32_to_be_bytes_def base64_chunk_join3)
  next
    case one
    then obtain p q where v: "b64_value w = Some p" "b64_value x = Some q" "b64_value 65 = Some 0"
        "b64_value 65 = Some 0"
      and d: "d = tl (take 2 (u32_to_be_bytes (join4 p q 0 0)))" "ucast (join4 p q 0 0) = (0 :: u8)"
        "ucast (drop_bit 8 (join4 p q 0 0)) = (0 :: u8)" is_last
      using assms(1) by (auto simp: c decode_chunk_def Let_def join4_def u32_to_be_bytes_def
          split: option.splits if_splits)
    show ?thesis
      using join4_of_values [OF v refl] d(2,3,4) one
      by (simp add: c d(1) u32_to_be_bytes_def base64_chunk_join3)
  next
    case none
    then show ?thesis using assms(1) by (simp add: c decode_chunk_def Let_def)
  qed
qed

section \<open>Texts\<close>

lemma decode_chunks_encoded:
  "chunked 3 ds \<Longrightarrow> decode_chunks (map base64_chunk ds) = Some (concat ds)"
proof (induction ds)
  case (Cons d ds)
  then have "decode_chunk (ds = []) (base64_chunk d) = Some d"
    by (intro decode_base64_chunk) (auto simp: chunked_Cons split: if_splits)
  with Cons show ?case by (auto simp: chunked_Cons split: if_splits)
qed simp

lemma decode_chunks_Some:
  "decode_chunks cs = Some data \<Longrightarrow> list_all (\<lambda>c. length c = 4) cs \<Longrightarrow>
     \<exists>ds. chunked 3 ds \<and> cs = map base64_chunk ds \<and> data = concat ds"
proof (induction cs arbitrary: data)
  case (Cons c cs)
  then obtain d rest where d: "decode_chunk (cs = []) c = Some d" "decode_chunks cs = Some rest"
    "data = d @ rest" by (auto split: option.splits)
  moreover from Cons.prems(2) have "list_all (\<lambda>c. length c = 4) cs" "length c = 4" by simp_all
  ultimately obtain ds where ds: "chunked 3 ds" "cs = map base64_chunk ds" "rest = concat ds"
    using Cons.IH by blast
  have "base64_chunk d = c \<and> d \<noteq> [] \<and> length d \<le> 3 \<and> (length d = 3 \<or> cs = [])"
    by (rule decode_chunk_Some) fact+
  with d(3) ds have "chunked 3 (d # ds) \<and> c # cs = map base64_chunk (d # ds) \<and> data = concat (d # ds)"
    by (cases "ds = []") (simp_all add: chunked_Cons)
  then show ?case by (rule exI)
qed simp

lemma length_base64: "length (base64 data) = (length data + 2) div 3 * 4"
proof -
  have "length (concat (map base64_chunk cs)) = length cs * 4" for cs
    by (induction cs) simp_all
  then show ?thesis by (simp add: base64_def length_chunks)
qed

lemma length_base64_le: "length data \<le> 3 * k \<Longrightarrow> length (base64 data) \<le> 4 * k"
  using div_le_mono [of "length data + 2" "3 * k + 2" 3] by (simp add: length_base64)

lemma decode_base64 [simp, codec_simps]: "decode (base64 data) = Some data"
proof -
  have "chunks 4 (base64 data) = map base64_chunk (chunks 3 data)"
    unfolding base64_def by (rule full_chunks) (simp_all add: list_all_iff)
  moreover have "length (base64 data) mod 4 = 0" by (simp add: length_base64)
  ultimately show ?thesis
    by (simp add: decode_def decode_chunks_encoded chunked_chunks)
qed

lemma decode_Some:
  assumes "decode t = Some data"
  shows "t = base64 data"
proof -
  from assms have m: "length t mod 4 = 0" and "decode_chunks (chunks 4 t) = Some data"
    by (auto simp: decode_def split: if_splits)
  with full_chunks_of [of t 4] obtain ds
    where ds: "chunked 3 ds" "chunks 4 t = map base64_chunk ds" "data = concat ds"
    using decode_chunks_Some by (metis zero_less_numeral)
  have "t = concat (chunks 4 t)" by simp
  also have "\<dots> = base64 data" by (simp add: ds base64_def chunks_concat)
  finally show ?thesis .
qed

interpretation b64: codec "\<lambda>_. True" base64 decode
  by unfold_locales simp

text \<open>The characters of an encoding are ASCII letters, digits, \<open>+\<close>, \<open>/\<close> and \<open>=\<close>.\<close>

definition b64_char :: "u8 \<Rightarrow> bool" where
  "b64_char b \<longleftrightarrow> b = 61 \<or> b64_value b \<noteq> None"

lemma base64_chars: "list_all b64_char (base64 data)"
proof -
  have "list_all b64_char (base64_chunk c)" for c
    by (simp add: base64_chunk_def b64_char_def Let_def)
  then show ?thesis by (auto simp: base64_def list_all_iff)
qed

text \<open>
  The strict decoder is the exact inverse of the encoder: a text is accepted with a result
  exactly when it is the encoding of this result. So every byte string survives the encoding, each
  has one accepted spelling, and a text with white space, missing padding, padding inside or
  leftover bits is refused.
\<close>

theorem decode_accepts_exactly_encodings:
  "decode t = Some data \<longleftrightarrow> t = base64 data"
  using decode_Some by auto

end
