(* ===== verification/Utf8.thy ===== *)
theory Utf8
  imports Pty_Prelude
begin

text \<open>
  UTF-8 as \<open>str::from_utf8\<close> and \<open>str::as_bytes\<close> of the standard library have it: the sources read
  bytes as text before they parse them, and hash or measure the bytes of a text. A text is a list of
  scalar values; the reader refuses overlong forms, surrogates and values beyond \<open>10FFFF\<close>.
\<close>

definition scalar :: "rchar \<Rightarrow> bool" where
  "scalar c \<longleftrightarrow> c < 55296 \<or> 57343 < c \<and> c < 1114112"

definition byte :: "nat \<Rightarrow> u8" where
  "byte n = word_of_nat n"

definition char_bytes :: "rchar \<Rightarrow> bytes" where
  "char_bytes c =
     map byte
       (if c < 128 then [c]
        else if c < 2048 then [192 + c div 64, 128 + c mod 64]
        else if c < 65536 then [224 + c div 4096, 128 + c div 64 mod 64, 128 + c mod 64]
        else [240 + c div 262144, 128 + c div 4096 mod 64, 128 + c div 64 mod 64, 128 + c mod 64])"

definition as_bytes :: "rstr \<Rightarrow> bytes" where
  "as_bytes s = concat (map char_bytes s)"

definition continuation :: "u8 \<Rightarrow> bool" where
  "continuation b \<longleftrightarrow> 128 \<le> unat b \<and> unat b < 192"

text \<open>The scalar value of two, three and four bytes, when they are well formed.\<close>

definition scalar2 :: "u8 \<Rightarrow> u8 \<Rightarrow> rchar option" where
  "scalar2 a b =
     (if 194 \<le> unat a \<and> unat a < 224 \<and> continuation b
      then Some ((unat a - 192) * 64 + (unat b - 128)) else None)"

definition scalar3 :: "u8 \<Rightarrow> u8 \<Rightarrow> u8 \<Rightarrow> rchar option" where
  "scalar3 a b c =
     (if 224 \<le> unat a \<and> unat a < 240 \<and> continuation b \<and> continuation c
         \<and> (unat a = 224 \<longrightarrow> 160 \<le> unat b) \<and> (unat a = 237 \<longrightarrow> unat b < 160)
      then Some ((unat a - 224) * 4096 + (unat b - 128) * 64 + (unat c - 128)) else None)"

definition scalar4 :: "u8 \<Rightarrow> u8 \<Rightarrow> u8 \<Rightarrow> u8 \<Rightarrow> rchar option" where
  "scalar4 a b c d =
     (if 240 \<le> unat a \<and> unat a < 245 \<and> continuation b \<and> continuation c \<and> continuation d
         \<and> (unat a = 240 \<longrightarrow> 144 \<le> unat b) \<and> (unat a = 244 \<longrightarrow> unat b < 144)
      then Some ((unat a - 240) * 262144 + (unat b - 128) * 4096 + (unat c - 128) * 64 + (unat d - 128))
      else None)"

fun from_utf8 :: "bytes \<Rightarrow> rstr option" where
  "from_utf8 [] = Some []"
| "from_utf8 (a # bs) =
     (if unat a < 128 then map_option ((#) (unat a)) (from_utf8 bs)
      else if unat a < 224 then
        (case bs of
           b # cs \<Rightarrow>
             (case scalar2 a b of None \<Rightarrow> None | Some x \<Rightarrow> map_option ((#) x) (from_utf8 cs))
         | _ \<Rightarrow> None)
      else if unat a < 240 then
        (case bs of
           b # c # ds \<Rightarrow>
             (case scalar3 a b c of None \<Rightarrow> None | Some x \<Rightarrow> map_option ((#) x) (from_utf8 ds))
         | _ \<Rightarrow> None)
      else
        (case bs of
           b # c # d # es \<Rightarrow>
             (case scalar4 a b c d of None \<Rightarrow> None | Some x \<Rightarrow> map_option ((#) x) (from_utf8 es))
         | _ \<Rightarrow> None))"

definition valid_utf8 :: "bytes \<Rightarrow> bool" where
  "valid_utf8 bs \<longleftrightarrow> from_utf8 bs \<noteq> None"

lemma ascii_utf8: "\<forall>b \<in> set bs. unat b < 128 \<Longrightarrow> from_utf8 bs = Some (map unat bs)"
  by (induction bs) auto

lemma ascii_valid: "\<forall>b \<in> set bs. unat b < 128 \<Longrightarrow> valid_utf8 bs"
  by (simp add: valid_utf8_def ascii_utf8)

lemma unat_byte [simp]: "n < 256 \<Longrightarrow> unat (byte n) = n"
  by (simp add: byte_def unsigned_of_nat take_bit_nat_eq_self_iff)

lemma char_split:
  "c div 64 * 64 + c mod 64 = (c :: nat)"
  "c div 4096 * 4096 + c div 64 mod 64 * 64 + c mod 64 = c"
  "c div 262144 * 262144 + c div 4096 mod 64 * 4096 + c div 64 mod 64 * 64 + c mod 64 = c"
proof -
  have d: "c div 4096 = c div 64 div 64" "c div 262144 = c div 64 div 64 div 64"
    by (simp_all add: div_mult2_eq [symmetric])
  show "c div 64 * 64 + c mod 64 = c" by simp
  show "c div 4096 * 4096 + c div 64 mod 64 * 64 + c mod 64 = c"
    unfolding d using div_mult_mod_eq [of "c div 64" 64] div_mult_mod_eq [of c 64] by linarith
  show "c div 262144 * 262144 + c div 4096 mod 64 * 4096 + c div 64 mod 64 * 64 + c mod 64 = c"
    unfolding d using div_mult_mod_eq [of "c div 64 div 64" 64] div_mult_mod_eq [of "c div 64" 64]
      div_mult_mod_eq [of c 64] by linarith
qed

lemma from_utf8_char:
  assumes "scalar c"
  shows "from_utf8 (char_bytes c @ rest) = map_option ((#) c) (from_utf8 rest)"
proof -
  consider (one) "c < 128" | (two) "128 \<le> c" "c < 2048" | (three) "2048 \<le> c" "c < 65536"
    | (four) "65536 \<le> c" "c < 1114112"
    using assms by (fastforce simp: scalar_def)
  then show ?thesis
  proof cases
    case one
    then show ?thesis by (simp add: char_bytes_def)
  next
    case two
    define q r where qr: "q = c div 64" "r = c mod 64"
    have c: "q * 64 + r = c" "r < 64" using char_split(1) [of c] by (simp_all add: qr)
    with two have "2 \<le> q" "q < 32" by linarith+
    moreover have "char_bytes c = [byte (192 + q), byte (128 + r)]"
      using two by (simp add: char_bytes_def qr)
    ultimately show ?thesis
      using c by (simp add: scalar2_def continuation_def)
  next
    case three
    define p q r where qr: "p = c div 4096" "q = c div 64 mod 64" "r = c mod 64"
    have c: "p * 4096 + q * 64 + r = c" "q < 64" "r < 64"
      using char_split(2) [of c] by (simp_all add: qr)
    with three have "p < 16" "p = 0 \<longrightarrow> 32 \<le> q" by linarith+
    moreover have "p = 13 \<longrightarrow> q < 32" using c assms three by (auto simp: scalar_def)
    moreover have "char_bytes c = [byte (224 + p), byte (128 + q), byte (128 + r)]"
      using three by (simp add: char_bytes_def qr)
    ultimately show ?thesis
      using c by (simp add: scalar3_def continuation_def)
  next
    case four
    define k p q r where qr: "k = c div 262144" "p = c div 4096 mod 64" "q = c div 64 mod 64" "r = c mod 64"
    have c: "k * 262144 + p * 4096 + q * 64 + r = c" "p < 64" "q < 64" "r < 64"
      using char_split(3) [of c] by (simp_all add: qr)
    with four have "k < 5" "k = 0 \<longrightarrow> 16 \<le> p" "k = 4 \<longrightarrow> p < 16" by linarith+
    moreover have "char_bytes c = [byte (240 + k), byte (128 + p), byte (128 + q), byte (128 + r)]"
      using four by (simp add: char_bytes_def qr)
    ultimately show ?thesis
      using c by (simp add: scalar4_def continuation_def)
  qed
qed

lemma from_utf8_as_bytes: "list_all scalar s \<Longrightarrow> from_utf8 (as_bytes s) = Some s"
  by (induction s) (simp_all add: as_bytes_def from_utf8_char)

interpretation utf8: codec "list_all scalar" as_bytes from_utf8
  by unfold_locales (rule from_utf8_as_bytes)

end
