(* ===== verification/Enhanced_Paste.thy ===== *)
theory Enhanced_Paste
  imports Base64_Codec Utf8 Output_Scanner
begin

text \<open>
  The paste events of the kitty clipboard protocol
  (\<^verbatim>\<open>crates/pty-terminal/src/enhanced_paste.rs\<close>): \<open>ReadRequest::parse\<close>, the typed reading of the OSC 5522
  request that the scanner finds in the child's output, and \<open>PastePacket::encode\<close>, the sequences a
  client answers with. A Rust string is its UTF-8 bytes here, since the file works on them. The
  \<open>Debug\<close> implementations, which only redact, are left out.
\<close>

definition MAX_PACKET :: nat where
  "MAX_PACKET = 1024 * 1024"

definition MAX_TRANSACTION :: nat where
  "MAX_TRANSACTION = 32 * 1024 * 1024"

definition MAX_ANSWER :: nat where
  "MAX_ANSWER = 48 * 1024 * 1024"

definition MAX_ID :: nat where
  "MAX_ID = 256"

definition MAX_MIME :: nat where
  "MAX_MIME = 255"

definition DATA_CHUNK :: nat where
  "DATA_CHUNK = 4096"

lemmas paste_consts [const_defs] = MAX_PACKET_def MAX_TRANSACTION_def MAX_ANSWER_def MAX_ID_def
  MAX_MIME_def DATA_CHUNK_def

section \<open>Strings of the standard library\<close>

text \<open>\<open>position\<close>, \<open>split_once\<close>, \<open>split_ascii_whitespace\<close> and \<open>join\<close>.\<close>

definition position :: "('a \<Rightarrow> bool) \<Rightarrow> 'a list \<Rightarrow> nat option" where
  "position P xs = (if list_ex P xs then Some (length (takeWhile (\<lambda>x. \<not> P x) xs)) else None)"

definition split_once :: "u8 \<Rightarrow> bytes \<Rightarrow> (bytes \<times> bytes) option" where
  "split_once sep s =
     (case position (\<lambda>b. b = sep) s of None \<Rightarrow> None | Some i \<Rightarrow> Some (take i s, drop (i + 1) s))"

definition is_ascii_whitespace :: "u8 \<Rightarrow> bool" where
  "is_ascii_whitespace b \<longleftrightarrow> b = 32 \<or> b = 9 \<or> b = 10 \<or> b = 12 \<or> b = 13"

definition split_ascii_whitespace :: "bytes \<Rightarrow> bytes list" where
  "split_ascii_whitespace s =
     filter (\<lambda>w. w \<noteq> []) (split_on 32 (map (\<lambda>b. if is_ascii_whitespace b then 32 else b) s))"

fun join :: "bytes \<Rightarrow> bytes list \<Rightarrow> bytes" where
  "join sep [] = []"
| "join sep [w] = w"
| "join sep (w # v # ws) = w @ sep @ join sep (v # ws)"

section \<open>Read requests\<close>

datatype Location = Clipboard | Primary

record ReadRequest =
  rr_mimes :: "bytes list"
  rr_location :: Location
  rr_id :: "bytes option"
  rr_password :: "bytes option"
  rr_name :: "bytes option"

definition valid_id :: "bytes \<Rightarrow> bool" where
  "valid_id s \<longleftrightarrow> s \<noteq> [] \<and> length s \<le> MAX_ID
     \<and> list_all (\<lambda>b. is_alphanumeric b \<or> b \<in> set (bstr ''-_+.'')) s"

definition valid_mime :: "bytes \<Rightarrow> bool" where
  "valid_mime s \<longleftrightarrow> s \<noteq> [] \<and> length s \<le> MAX_MIME \<and> list_all (\<lambda>b. 33 \<le> b \<and> b \<le> 126) s"

definition KEYS :: "bytes list" where
  "KEYS = map bstr [''type'', ''loc'', ''id'', ''pw'', ''name'', ''status'', ''mime'']"

text \<open>The variables of the loop over the \<open>key=value\<close> pairs.\<close>

record request_keys =
  k_kind :: "bytes option"
  k_location :: Location
  k_id :: "bytes option"
  k_password :: "bytes option"
  k_name :: "bytes option"
  k_seen :: "bool list"

definition no_keys :: request_keys where
  "no_keys = \<lparr>k_kind = None, k_location = Clipboard, k_id = None, k_password = None, k_name = None,
              k_seen = replicate (length KEYS) False\<rparr>"

definition mark_seen :: "bytes \<Rightarrow> request_keys \<Rightarrow> request_keys option" where
  "mark_seen key k =
     (case position (\<lambda>known. known = key) KEYS of
        None \<Rightarrow> Some k
      | Some i \<Rightarrow> if k_seen k ! i then None else Some (k\<lparr>k_seen := (k_seen k)[i := True]\<rparr>))"

definition match_key :: "bytes \<Rightarrow> bytes \<Rightarrow> request_keys \<Rightarrow> request_keys option" where
  "match_key key val k =
     (if key = bstr ''type'' then Some (k\<lparr>k_kind := Some val\<rparr>)
      else if key = bstr ''loc'' \<and> val = bstr ''primary'' then Some (k\<lparr>k_location := Primary\<rparr>)
      else if key = bstr ''loc'' then None
      else if key = bstr ''id'' then (if valid_id val then Some (k\<lparr>k_id := Some val\<rparr>) else None)
      else if key = bstr ''pw'' then
        (case decode val of None \<Rightarrow> None | Some _ \<Rightarrow> Some (k\<lparr>k_password := Some val\<rparr>))
      else if key = bstr ''name'' then
        (case decode val of
           None \<Rightarrow> None
         | Some nm \<Rightarrow> if valid_utf8 nm then Some (k\<lparr>k_name := Some nm\<rparr>) else None)
      else if key = bstr ''status'' \<or> key = bstr ''mime'' then None
      else Some k)"

fun parse_pairs :: "request_keys \<Rightarrow> bytes list \<Rightarrow> request_keys option" where
  "parse_pairs k [] = Some k"
| "parse_pairs k (pair # pairs) =
     (case split_once 61 pair of
        None \<Rightarrow> None
      | Some (key, val) \<Rightarrow>
          (case mark_seen key k of
             None \<Rightarrow> None
           | Some k1 \<Rightarrow>
               (case match_key key val k1 of
                  None \<Rightarrow> None
                | Some k2 \<Rightarrow> parse_pairs k2 pairs)))"

definition requested_mimes :: "bytes \<Rightarrow> bytes list option" where
  "requested_mimes pl =
     (case decode pl of
        None \<Rightarrow> None
      | Some ls \<Rightarrow>
          if \<not> valid_utf8 ls then None
          else
            (let ms = split_ascii_whitespace ls in
             if ms \<noteq> [] \<and> list_all valid_mime ms then Some ms else None))"

definition parse_request :: "bytes \<Rightarrow> ReadRequest option" where
  "parse_request osc =
     (if length osc > MAX_METADATA then None
      else if take 5 osc \<noteq> bstr ''5522;'' then None
      else
        (let rest = drop 5 osc;
             (metadata, pl) =
               (case position (\<lambda>b. b = 59) rest of
                  Some i \<Rightarrow> (take i rest, drop (i + 1) rest)
                | None \<Rightarrow> (rest, []))
         in
         if \<not> valid_utf8 metadata then None
         else
           (case parse_pairs no_keys (split_on 58 metadata) of
              None \<Rightarrow> None
            | Some k \<Rightarrow>
                if k_kind k \<noteq> Some (bstr ''read'') then None
                else
                  (case requested_mimes pl of
                     None \<Rightarrow> None
                   | Some ms \<Rightarrow>
                       Some \<lparr>rr_mimes = ms, rr_location = k_location k, rr_id = k_id k,
                             rr_password = k_password k, rr_name = k_name k\<rparr>))))"

section \<open>Packets\<close>

datatype ReadError = NotAvailable | Denied | PasteBusy

fun error_status :: "ReadError \<Rightarrow> bytes" where
  "error_status NotAvailable = bstr ''ENOSYS''"
| "error_status Denied = bstr ''EPERM''"
| "error_status PasteBusy = bstr ''EBUSY''"

datatype PastePacket =
  Listing Location "bytes option" "bytes list"
| ReadOk
| ReadData bytes bytes
| ReadDone
| ReadRefused ReadError

datatype PacketError = PacketInvalid | TooLarge

definition read_status :: "bytes \<Rightarrow> bytes option \<Rightarrow> bytes" where
  "read_status status ident =
     bstr ''type=read:status='' @ status
     @ (case ident of Some i \<Rightarrow> bstr '':id='' @ i | None \<Rightarrow> [])"

definition osc :: "bytes \<Rightarrow> bytes \<Rightarrow> bytes" where
  "osc metadata pl =
     [27, 93] @ bstr ''5522;'' @ metadata @ (if pl = [] then [] else 59 # pl) @ [27, 92]"

definition encode_listing :: "Location \<Rightarrow> bytes option \<Rightarrow> bytes list \<Rightarrow> PacketError + bytes" where
  "encode_listing location password mimes =
     (if mimes = [] \<or> \<not> list_all valid_mime mimes then Inl PacketInvalid
      else if (case password of Some pw \<Rightarrow> decode pw = None | None \<Rightarrow> False) then Inl PacketInvalid
      else
        (let pw_only = (case password of Some pw \<Rightarrow> bstr '':pw='' @ pw | None \<Rightarrow> []);
             keys = (if location = Primary then bstr '':loc=primary'' else []) @ pw_only;
             ls = join [32] mimes
         in
         if (length ls + 2) div 3 * 4 + length keys > MAX_METADATA then Inl TooLarge
         else
           Inr (osc (bstr ''type=read:status=OK'' @ keys) []
                @ concat (map (\<lambda>chunk. osc (bstr ''type=read:status=DATA:mime=Lg=='' @ pw_only) (base64 chunk))
                    (chunks DATA_CHUNK ls))
                @ osc (bstr ''type=read:status=DONE'' @ pw_only) [])))"

definition encode_data_packet :: "bytes option \<Rightarrow> bytes \<Rightarrow> bytes \<Rightarrow> PacketError + bytes" where
  "encode_data_packet ident mime data =
     (if \<not> valid_mime mime then Inl PacketInvalid
      else if length data > MAX_PACKET then Inl TooLarge
      else
        (let metadata = read_status (bstr ''DATA'') ident @ bstr '':mime='' @ base64 mime in
         Inr (concat (map (\<lambda>chunk. osc metadata (base64 chunk)) (chunks DATA_CHUNK data))
              @ (if data = [] then [27, 93] @ bstr ''5522;'' @ metadata @ [59, 27, 92] else []))))"

definition encode_paste :: "bytes option \<Rightarrow> PastePacket \<Rightarrow> PacketError + bytes" where
  "encode_paste ident packet =
     (if (case ident of Some i \<Rightarrow> \<not> valid_id i | None \<Rightarrow> False) then Inl PacketInvalid
      else
        (case packet of
           Listing location password mimes \<Rightarrow> encode_listing location password mimes
         | ReadOk \<Rightarrow> Inr (osc (read_status (bstr ''OK'') ident) [])
         | ReadData mime data \<Rightarrow> encode_data_packet ident mime data
         | ReadDone \<Rightarrow> Inr (osc (read_status (bstr ''DONE'') ident) [])
         | ReadRefused err \<Rightarrow> Inr (osc (read_status (error_status err) ident) [])))"

section \<open>Sequences\<close>

text \<open>
  What the program's terminal parser sees of a packet: sequences between \<open>ESC ]\<close> and \<open>ESC \\<close>.
\<close>

definition printable :: "u8 \<Rightarrow> bool" where
  "printable b \<longleftrightarrow> 32 \<le> b \<and> b \<le> 126"

definition sequences :: "bytes list \<Rightarrow> bytes" where
  "sequences ps = concat (map (\<lambda>p. [27, 93] @ p @ [27, 92]) ps)"

definition seq_payload :: "bytes \<Rightarrow> bytes \<Rightarrow> bytes" where
  "seq_payload metadata pl = bstr ''5522;'' @ metadata @ (if pl = [] then [] else 59 # pl)"

lemma osc_sequence: "osc metadata pl = sequences [seq_payload metadata pl]"
  by (simp add: osc_def sequences_def seq_payload_def)

lemma sequences_append: "sequences (ps @ qs) = sequences ps @ sequences qs"
  by (simp add: sequences_def)

lemma sequences_osc_map: "concat (map (\<lambda>c. osc m (f c)) cs) = sequences (map (\<lambda>c. seq_payload m (f c)) cs)"
  by (induction cs) (simp_all add: osc_sequence sequences_def)

text \<open>Metadata is made of printable characters other than the separator of the payload.\<close>

definition meta_char :: "u8 \<Rightarrow> bool" where
  "meta_char b \<longleftrightarrow> 33 \<le> b \<and> b \<le> 126 \<and> b \<noteq> 59"

lemma meta_char_printable: "meta_char b \<Longrightarrow> printable b"
  by (simp add: meta_char_def printable_def word_le_nat_alt)

lemma alphanumeric_meta: "is_alphanumeric b \<Longrightarrow> meta_char b"
  by (auto simp: is_alphanumeric_def is_digit_def meta_char_def word_le_nat_alt)

lemma b64_meta: "b64_char b \<Longrightarrow> meta_char b"
  by (auto simp: b64_char_def b64_value_def meta_char_def word_le_nat_alt split: if_splits)

lemma valid_id_meta: "valid_id i \<Longrightarrow> list_all meta_char i"
proof -
  have "meta_char b" if "is_alphanumeric b \<or> b \<in> set (bstr ''-_+.'')" for b
    using that by (auto simp: bstr_def dest: alphanumeric_meta) (simp_all add: meta_char_def)
  then show "valid_id i \<Longrightarrow> list_all meta_char i"
    by (auto simp: valid_id_def list_all_iff)
qed

lemma base64_meta: "list_all meta_char (base64 d)"
  using base64_chars [of d] by (auto simp: list_all_iff intro: b64_meta)

lemma password_meta: "decode pw \<noteq> None \<Longrightarrow> list_all meta_char pw"
  using decode_Some base64_meta by fastforce

text \<open>A sequence that carries a status is an answer, and an answer is not a request.\<close>

definition answer_payload :: "bytes \<Rightarrow> bool" where
  "answer_payload p \<longleftrightarrow>
     (\<exists>x rest. p = bstr ''5522;type=read:status='' @ x @ rest \<and> list_all meta_char x
        \<and> (rest = [] \<or> (\<exists>pl. rest = 59 # pl \<and> list_all b64_char pl)))"

lemma bstr_append: "bstr (s @ t) = bstr s @ bstr t"
  by (simp add: bstr_def)

lemma bstr_eval: "bstr [] = []" "bstr (c # s) = of_char c # bstr s"
  by (simp_all add: bstr_def)

lemma split_on_not_Nil [simp]: "split_on sep s \<noteq> []"
  by (induction s) (auto split: list.splits)

lemma split_on_Cons: "b \<noteq> sep \<Longrightarrow> split_on sep (b # bs) = (b # hd (split_on sep bs)) # tl (split_on sep bs)"
  by (cases "split_on sep bs") simp_all

lemma status_pair_refused: "parse_pairs no_keys (bstr ''type=read'' # (bstr ''status='' @ y) # fs) = None"
  by (simp add: split_once_def position_def mark_seen_def match_key_def no_keys_def KEYS_def bstr_eval)

lemma meta_ends:
  assumes "list_all meta_char m" and "rest = [] \<or> hd rest = 59"
  shows "takeWhile (\<lambda>b. b \<noteq> 59) (m @ rest) = m"
  using assms by (induction m) (auto simp: meta_char_def takeWhile_eq_Nil_iff)

lemma meta_utf8: "list_all meta_char m \<Longrightarrow> valid_utf8 m"
  by (rule ascii_valid) (auto simp: list_all_iff meta_char_def word_le_nat_alt)

lemma take_5522: "take 5 (bstr ''5522;'' @ x) = bstr ''5522;''" "drop 5 (bstr ''5522;'' @ x) = x"
  by (simp_all add: bstr_eval)

text \<open>Reading a sequence whose metadata is well formed.\<close>

lemma parse_request_meta:
  assumes "list_all meta_char m" and "rest = [] \<or> hd rest = 59"
  shows "parse_request (bstr ''5522;'' @ m @ rest) =
     (if length (bstr ''5522;'' @ m @ rest) > MAX_METADATA then None
      else
        (case parse_pairs no_keys (split_on 58 m) of
           None \<Rightarrow> None
         | Some k \<Rightarrow>
             if k_kind k \<noteq> Some (bstr ''read'') then None
             else
               (case requested_mimes (tl rest) of
                  None \<Rightarrow> None
                | Some ms \<Rightarrow>
                    Some \<lparr>rr_mimes = ms, rr_location = k_location k, rr_id = k_id k,
                          rr_password = k_password k, rr_name = k_name k\<rparr>)))"
proof -
  have "(case position (\<lambda>b. b = 59) (m @ rest) of
      Some i \<Rightarrow> (take i (m @ rest), drop (i + 1) (m @ rest)) | None \<Rightarrow> (m @ rest, [])) = (m, tl rest)"
  proof (cases rest)
    case Nil
    with assms(1) have "\<not> list_ex (\<lambda>b. b = 59) m" by (auto simp: list_ex_iff list_all_iff meta_char_def)
    with Nil show ?thesis by (simp add: position_def)
  next
    case (Cons b pl)
    with assms(2) show ?thesis
      using meta_ends [OF assms] by (simp add: position_def)
  qed
  then show ?thesis
    by (simp only: parse_request_def take_5522 Let_def split meta_utf8 [OF assms(1)] not_True_eq_False
        if_False simp_thms)
qed

lemma answer_is_no_request:
  assumes "answer_payload p"
  shows "parse_request p = None"
proof -
  from assms obtain x rest where p: "p = bstr ''5522;'' @ (bstr ''type=read:status='' @ x) @ rest"
    and x: "list_all meta_char x" and r: "rest = [] \<or> hd rest = 59"
    by (auto simp: answer_payload_def bstr_eval)
  have m: "list_all meta_char (bstr ''type=read:status='' @ x)"
    using x by (simp add: meta_char_def bstr_eval)
  have "split_on 58 (bstr ''type=read:status='' @ x) =
      bstr ''type=read'' # (bstr ''status='' @ hd (split_on 58 x)) # tl (split_on 58 x)"
    by (cases "split_on 58 x") (simp_all add: bstr_eval)
  then show ?thesis
    by (simp only: p parse_request_meta [OF m r] status_pair_refused option.case if_cancel)
qed

lemma answer_printable:
  assumes "answer_payload p"
  shows "list_all printable p"
proof -
  have pr: "list_all printable y" if "list_all meta_char y" for y
    using that by (auto simp: list_all_iff intro: meta_char_printable)
  have "list_all printable pl" if "list_all b64_char pl" for pl
    using that by (intro pr) (auto simp: list_all_iff intro: b64_meta)
  with assms pr show ?thesis
    by (auto simp: answer_payload_def) (simp_all add: printable_def bstr_eval)
qed

lemma answer_seq_payload:
  assumes "list_all meta_char x" and "pl = [] \<or> list_all b64_char pl"
  shows "answer_payload (seq_payload (bstr ''type=read:status='' @ x) pl)"
  unfolding answer_payload_def seq_payload_def
  by (rule exI [of _ x], rule exI [of _ "if pl = [] then [] else 59 # pl"]) (use assms in \<open>auto simp: bstr_eval\<close>)

text \<open>The identifier that an answer echoes, as metadata.\<close>

definition id_key :: "bytes option \<Rightarrow> bytes" where
  "id_key ident = (case ident of Some i \<Rightarrow> bstr '':id='' @ i | None \<Rightarrow> [])"

lemma read_status_eq: "read_status st ident = bstr ''type=read:status='' @ st @ id_key ident"
  by (simp add: read_status_def id_key_def)

lemma meta_literals [simp]:
  "list_all meta_char (bstr ''OK'')" "list_all meta_char (bstr ''DATA'')" "list_all meta_char (bstr ''DONE'')"
  "list_all meta_char (bstr '':mime='')" "list_all meta_char (bstr '':loc=primary'')"
  "list_all meta_char (bstr ''DATA:mime=Lg=='')" "list_all meta_char (bstr '':pw='')"
  "list_all meta_char (bstr '':id='')" "list_all meta_char (error_status e)"
  by (cases e; simp add: meta_char_def bstr_eval)+

lemma id_key_meta: "(case ident of Some i \<Rightarrow> valid_id i | None \<Rightarrow> True) \<Longrightarrow> list_all meta_char (id_key ident)"
  by (auto simp: id_key_def valid_id_meta split: option.splits)

lemma status_answer:
  "list_all meta_char (st @ x) \<Longrightarrow> answer_payload (seq_payload (bstr ''type=read:status='' @ st @ x) [])"
  using answer_seq_payload [of "st @ x" "[]"] by simp

lemma data_answers:
  assumes "list_all meta_char x"
  shows "\<forall>p \<in> set (map (\<lambda>c. seq_payload (bstr ''type=read:status='' @ x) (base64 c)) cs). answer_payload p"
  using assms base64_chars by (auto intro: answer_seq_payload)

definition answers :: "bytes \<Rightarrow> bool" where
  "answers bs \<longleftrightarrow> (\<exists>ps. ps \<noteq> [] \<and> bs = sequences ps \<and> (\<forall>p \<in> set ps. answer_payload p))"

lemma answers_osc:
  "list_all meta_char x \<Longrightarrow> pl = [] \<or> list_all b64_char pl \<Longrightarrow>
     answers (osc (bstr ''type=read:status='' @ x) pl)"
  unfolding answers_def osc_sequence
  by (rule exI [of _ "[seq_payload (bstr ''type=read:status='' @ x) pl]"])
    (simp add: answer_seq_payload)

lemma answers_append: "answers a \<Longrightarrow> answers b \<Longrightarrow> answers (a @ b)"
  unfolding answers_def using sequences_append by (metis Un_iff append_is_Nil_conv set_append)

lemma answers_map:
  assumes "list_all meta_char x" and "cs \<noteq> []"
  shows "answers (concat (map (\<lambda>c. osc (bstr ''type=read:status='' @ x) (base64 c)) cs))"
  unfolding answers_def sequences_osc_map
  using data_answers [OF assms(1), of cs] assms(2)
  by (intro exI [of _ "map (\<lambda>c. seq_payload (bstr ''type=read:status='' @ x) (base64 c)) cs"]) simp

lemma join_not_Nil: "mimes \<noteq> [] \<Longrightarrow> list_all valid_mime mimes \<Longrightarrow> join [32] mimes \<noteq> []"
  by (induction "[32 :: u8]" mimes rule: join.induct) (auto simp: valid_mime_def)

lemma answers_listing:
  assumes "encode_listing location password mimes = Inr bs"
  shows "answers bs"
proof -
  define pw where "pw = (case password of Some pw \<Rightarrow> bstr '':pw='' @ pw | None \<Rightarrow> [])"
  define keys where "keys = (if location = Primary then bstr '':loc=primary'' else []) @ pw"
  have ok: "mimes \<noteq> []" "list_all valid_mime mimes" "case password of Some pw \<Rightarrow> decode pw \<noteq> None | None \<Rightarrow> True"
    using assms by (auto simp: encode_listing_def split: if_splits option.splits)
  have bs: "bs = osc (bstr ''type=read:status='' @ bstr ''OK'' @ keys) []
      @ concat (map (\<lambda>c. osc (bstr ''type=read:status='' @ bstr ''DATA:mime=Lg=='' @ pw) (base64 c))
          (chunks DATA_CHUNK (join [32] mimes)))
      @ osc (bstr ''type=read:status='' @ bstr ''DONE'' @ pw) []"
    using assms
    by (auto simp: encode_listing_def Let_def pw_def keys_def bstr_eval split: if_splits)
  have "list_all meta_char pw"
    using ok(3) by (auto simp: pw_def password_meta split: option.splits)
  moreover have "list_all meta_char keys" using calculation by (simp add: keys_def)
  moreover have "chunks DATA_CHUNK (join [32] mimes) \<noteq> []"
    using join_not_Nil [OF ok(1,2)] by (simp add: DATA_CHUNK_def)
  ultimately show ?thesis
    unfolding bs by (intro answers_append answers_osc answers_map) simp_all
qed

lemma answers_data:
  assumes "encode_data_packet ident mime data = Inr bs" and "list_all meta_char (id_key ident)"
  shows "answers bs"
proof -
  define x where "x = bstr ''DATA'' @ id_key ident @ bstr '':mime='' @ base64 mime"
  have x: "list_all meta_char x" using assms(2) base64_meta by (simp add: x_def)
  have bs: "bs = concat (map (\<lambda>c. osc (bstr ''type=read:status='' @ x) (base64 c)) (chunks DATA_CHUNK data))
      @ (if data = [] then sequences [bstr ''5522;'' @ (bstr ''type=read:status='' @ x) @ [59]] else [])"
    using assms(1)
    by (auto simp: encode_data_packet_def Let_def read_status_eq x_def sequences_def split: if_splits)
  have "answer_payload (bstr ''5522;'' @ (bstr ''type=read:status='' @ x) @ [59])"
    unfolding answer_payload_def
    by (rule exI [of _ x], rule exI [of _ "[59]"]) (use x in \<open>simp add: bstr_eval\<close>)
  then have "answers (sequences [bstr ''5522;'' @ (bstr ''type=read:status='' @ x) @ [59]])"
    unfolding answers_def
    by (intro exI [of _ "[bstr ''5522;'' @ (bstr ''type=read:status='' @ x) @ [59]]"]) simp
  then show ?thesis
    using answers_map [OF x, of "chunks DATA_CHUNK data"] by (auto simp: bs DATA_CHUNK_def)
qed

lemma encode_paste_answers:
  assumes "encode_paste ident packet = Inr bs"
  shows "answers bs"
proof -
  have i: "list_all meta_char (id_key ident)"
    using assms by (intro id_key_meta) (auto simp: encode_paste_def split: if_splits option.splits)
  show ?thesis
    using assms i answers_listing answers_data
    by (cases packet) (auto simp: encode_paste_def read_status_eq intro!: answers_osc split: if_splits)
qed

text \<open>
  C28. What a client sends cannot be broken out of or be taken for a request. Whatever the packet, if
  it is encoded at all then its bytes are one or more complete OSC sequences: between the introducer
  and the terminator of each stand printable ASCII characters only, so neither the identifier, nor
  the types, nor the password, nor the data can end a sequence early or start another, and no
  sequence reads as a read request.
\<close>

theorem packets_stay_inside_their_sequences:
  assumes "encode_paste ident packet = Inr bs"
  shows "\<exists>ps. ps \<noteq> [] \<and> bs = concat (map (\<lambda>p. [27, 93] @ p @ [27, 92]) ps)
    \<and> list_all (\<lambda>p. list_all printable p \<and> parse_request p = None) ps"
proof -
  from encode_paste_answers [OF assms] obtain ps
    where "ps \<noteq> []" "bs = sequences ps" "\<forall>p \<in> set ps. answer_payload p"
    by (auto simp: answers_def)
  moreover from this(3) have "list_all (\<lambda>p. list_all printable p \<and> parse_request p = None) ps"
    by (induction ps) (auto simp: answer_printable answer_is_no_request)
  ultimately show ?thesis
    by (intro exI [of _ ps]) (simp add: sequences_def)
qed

theorem packets_stay_inside_their_sequences_witness:
  "\<exists>bs. encode_paste (Some (bstr ''w1'')) (ReadRefused Denied) = Inr bs
     \<and> (\<exists>ps. ps \<noteq> [] \<and> bs = concat (map (\<lambda>p. [27, 93] @ p @ [27, 92]) ps)
          \<and> list_all (\<lambda>p. list_all printable p \<and> parse_request p = None) ps)"
proof -
  have "\<not> \<not> valid_id (bstr ''w1'')"
    by (simp add: valid_id_def MAX_ID_def is_alphanumeric_def is_digit_def bstr_eval)
  then obtain bs where "encode_paste (Some (bstr ''w1'')) (ReadRefused Denied) = Inr bs"
    by (simp add: encode_paste_def)
  with packets_stay_inside_their_sequences [OF this] show ?thesis by blast
qed

section \<open>Answers through the scanner\<close>

text \<open>A short OSC 5522 sequence without control bytes is one token of the scanner.\<close>

lemma scan_osc_body:
  assumes "list_all printable p" and "take 7 s = [27, 93] @ bstr ''5522;''"
    and "length s + length p \<le> MAX_METADATA + 2"
  shows "foldl scan_byte \<lparr>scanner = \<lparr>state = InOsc, seq = s\<rparr>, rawbuf = r, out = ts\<rparr> p =
    \<lparr>scanner = \<lparr>state = InOsc, seq = s @ p\<rparr>, rawbuf = r, out = ts\<rparr>"
  using assms
proof (induction p arbitrary: s)
  case (Cons b p)
  have len: "7 \<le> length s"
    using arg_cong [OF Cons.prems(2), of length] by (simp add: bstr_eval)
  have b: "b \<noteq> 7" "b \<noteq> 27" "b \<noteq> 24" "b \<noteq> 26"
    using Cons.prems(1) by (auto simp: printable_def)
  have pre: "take 7 (s @ [b]) = [27, 93] @ bstr ''5522;''" using Cons.prems(2) len by simp
  then have "osc_limit (s @ [b]) = MAX_METADATA" by (simp add: osc_limit_def bstr_eval)
  then have "scan_byte \<lparr>scanner = \<lparr>state = InOsc, seq = s\<rparr>, rawbuf = r, out = ts\<rparr> b =
      \<lparr>scanner = \<lparr>state = InOsc, seq = s @ [b]\<rparr>, rawbuf = r, out = ts\<rparr>"
    using b Cons.prems(3) by (simp add: scan_byte_def osc_byte_def hold_def goto_def)
  with Cons.IH [of "s @ [b]"] pre Cons.prems show ?case by simp
qed simp

definition answer_token :: "bytes \<Rightarrow> Osc" where
  "answer_token p = \<lparr>osc_raw = [27, 93] @ p @ [27, 92], osc_payload = p, terminator = St\<rparr>"

lemma scan_answer:
  assumes "list_all printable p" and "take 5 p = bstr ''5522;''" and "length p \<le> MAX_METADATA"
  shows "foldl scan_byte \<lparr>scanner = new_scanner, rawbuf = [], out = ts\<rparr> ([27, 93] @ p @ [27, 92]) =
    \<lparr>scanner = new_scanner, rawbuf = [], out = ts @ [OscTok (answer_token p)]\<rparr>"
proof -
  define q where "q = drop 5 p"
  have p: "p = bstr ''5522;'' @ q" unfolding q_def using assms(2) by (metis append_take_drop_id)
  have q: "list_all printable q" using assms(1) by (simp add: p)
  have body: "foldl scan_byte \<lparr>scanner = \<lparr>state = InOsc, seq = [27, 93] @ bstr ''5522;''\<rparr>, rawbuf = [], out = ts\<rparr> q
      = \<lparr>scanner = \<lparr>state = InOsc, seq = [27, 93] @ p\<rparr>, rawbuf = [], out = ts\<rparr>"
    using scan_osc_body [OF q, of "[27, 93] @ bstr ''5522;''" "[]" ts] assms(3) by (simp add: p bstr_eval)
  have head: "foldl scan_byte \<lparr>scanner = new_scanner, rawbuf = [], out = ts\<rparr> ([27, 93] @ bstr ''5522;'')
      = \<lparr>scanner = \<lparr>state = InOsc, seq = [27, 93] @ bstr ''5522;''\<rparr>, rawbuf = [], out = ts\<rparr>"
    by (simp add: new_scanner_def bstr_eval scan_eval osc_limit_def MAX_OSC_def MAX_METADATA_def)
  have "foldl scan_byte \<lparr>scanner = new_scanner, rawbuf = [], out = ts\<rparr> ([27, 93] @ p @ [27, 92]) =
      foldl scan_byte (foldl scan_byte (foldl scan_byte \<lparr>scanner = new_scanner, rawbuf = [], out = ts\<rparr>
        ([27, 93] @ bstr ''5522;'')) q) [27, 92]"
    by (simp add: p)
  then show ?thesis
    unfolding head body
    by (simp add: scan_eval new_scanner_def flush_raw_def make_osc_def answer_token_def)
qed

lemma scan_answers:
  "\<forall>p \<in> set ps. list_all printable p \<and> take 5 p = bstr ''5522;'' \<and> length p \<le> MAX_METADATA \<Longrightarrow>
     foldl scan_byte \<lparr>scanner = new_scanner, rawbuf = [], out = ts\<rparr> (sequences ps) =
     \<lparr>scanner = new_scanner, rawbuf = [], out = ts @ map (\<lambda>p. OscTok (answer_token p)) ps\<rparr>"
proof (induction ps arbitrary: ts)
  case (Cons p ps)
  have "sequences (p # ps) = ([27, 93] @ p @ [27, 92]) @ sequences ps" by (simp add: sequences_def)
  with Cons scan_answer [of p ts] show ?case by (simp only: foldl_append) simp
qed (simp add: sequences_def)

text \<open>A data packet, written as its sequences, and how long they are.\<close>

definition data_metadata :: "bytes option \<Rightarrow> bytes \<Rightarrow> bytes" where
  "data_metadata ident mime = read_status (bstr ''DATA'') ident @ bstr '':mime='' @ base64 mime"

definition data_payloads :: "bytes option \<Rightarrow> bytes \<Rightarrow> bytes \<Rightarrow> bytes list" where
  "data_payloads ident mime data =
     map (\<lambda>c. bstr ''5522;'' @ data_metadata ident mime @ 59 # base64 c)
       (if data = [] then [[]] else chunks DATA_CHUNK data)"

definition id_ok :: "bytes option \<Rightarrow> bool" where
  "id_ok ident \<longleftrightarrow> (case ident of Some i \<Rightarrow> valid_id i | None \<Rightarrow> True)"

lemma base64_eq_Nil [simp]: "base64 d = [] \<longleftrightarrow> d = []"
  using length_base64 [of d] by (cases d) (auto simp: div_eq_0_iff)

lemma encode_paste_data:
  "encode_paste ident (ReadData mime data) = Inr bs \<longleftrightarrow>
     id_ok ident \<and> valid_mime mime \<and> length data \<le> MAX_PACKET \<and> bs = sequences (data_payloads ident mime data)"
proof -
  have "concat (map (\<lambda>c. osc (data_metadata ident mime) (base64 c)) (chunks DATA_CHUNK data))
      @ (if data = [] then [27, 93] @ bstr ''5522;'' @ data_metadata ident mime @ [59, 27, 92] else [])
      = sequences (data_payloads ident mime data)"
  proof (cases "data = []")
    case True
    then show ?thesis by (simp add: data_payloads_def sequences_def)
  next
    case False
    have "c \<noteq> []" if "c \<in> set (chunks DATA_CHUNK data)" for c
      using chunk_bounds(1) [OF that] by (simp add: DATA_CHUNK_def)
    then have "map (\<lambda>c. seq_payload (data_metadata ident mime) (base64 c)) (chunks DATA_CHUNK data)
        = data_payloads ident mime data"
      using False by (simp add: data_payloads_def seq_payload_def)
    with False show ?thesis by (simp add: sequences_osc_map)
  qed
  then show ?thesis
    by (auto simp: encode_paste_def encode_data_packet_def data_metadata_def id_ok_def Let_def
        split: option.splits)
qed

lemma data_metadata_length:
  assumes "id_ok ident" and "valid_mime mime"
  shows "length (data_metadata ident mime) \<le> 627"
proof -
  have "length (base64 mime) \<le> 340"
    using assms(2) length_base64_le [of mime 85] by (simp add: valid_mime_def MAX_MIME_def)
  with assms(1) show ?thesis
    by (auto simp: data_metadata_def read_status_def id_ok_def valid_id_def MAX_ID_def bstr_def
        split: option.splits)
qed

lemma data_metadata_meta: "id_ok ident \<Longrightarrow> list_all meta_char (data_metadata ident mime)"
  using id_key_meta [of ident] base64_meta
  by (simp add: data_metadata_def read_status_eq id_ok_def)
    (simp add: bstr_eval meta_char_def)

lemma data_payload_facts:
  assumes "id_ok ident" and "valid_mime mime" and "p \<in> set (data_payloads ident mime data)"
  shows "list_all printable p" and "take 5 p = bstr ''5522;''" and "length p \<le> 6097"
proof -
  obtain c where c: "p = bstr ''5522;'' @ data_metadata ident mime @ 59 # base64 c" "length c \<le> 4096"
    using assms(3) chunk_bounds(2) [of _ DATA_CHUNK data]
    by (auto simp: data_payloads_def DATA_CHUNK_def split: if_splits)
  have "list_all printable (data_metadata ident mime)" "list_all printable (base64 c)"
    using data_metadata_meta [OF assms(1), of mime] base64_meta [of c]
    by (auto simp: list_all_iff intro: meta_char_printable)
  then show "list_all printable p" by (simp add: c(1) printable_def bstr_eval)
  show "take 5 p = bstr ''5522;''" by (simp only: c(1) take_5522)
  have "length (base64 c) \<le> 5464" using c(2) length_base64_le [of c 1366] by simp
  with data_metadata_length [OF assms(1,2)] show "length p \<le> 6097" by (simp add: c(1) bstr_eval)
qed

lemma length_sequences:
  "\<forall>p \<in> set ps. length p \<le> n \<Longrightarrow> length (sequences ps) \<le> length ps * (n + 4)"
  by (induction ps) (auto simp: sequences_def)

text \<open>
  How a program reads one \<open>DATA\<close> sequence of an answer: the metadata up to the second semicolon, and
  the decoded rest.
\<close>

definition read_answer :: "bytes \<Rightarrow> (bytes \<times> bytes) option" where
  "read_answer p =
     (let m = takeWhile (\<lambda>b. b \<noteq> 59) (drop 5 p) in
      map_option (\<lambda>d. (m, d)) (decode (drop (length m + 6) p)))"

lemma read_answer_data:
  assumes "id_ok ident"
  shows "read_answer (bstr ''5522;'' @ data_metadata ident mime @ 59 # base64 c) = Some (data_metadata ident mime, c)"
proof -
  have "takeWhile (\<lambda>b. b \<noteq> 59) (data_metadata ident mime @ 59 # base64 c) = data_metadata ident mime"
    by (rule meta_ends [OF data_metadata_meta [OF assms]]) simp
  moreover have "drop (length m + 6) (bstr ''5522;'' @ m @ 59 # y) = y" for m y :: bytes
    by (simp add: bstr_eval numeral_eq_Suc)
  ultimately show ?thesis by (simp only: read_answer_def take_5522 Let_def decode_base64) simp
qed

text \<open>
  The data of a read survives the terminal. A data packet that is encoded, scanned by the
  tokenizer of this program, comes out as OSC 5522 sequences and nothing else, with no byte left
  over; each carries the status, the echoed identifier and the type, and at most 4096 bytes; joined
  they are the data. Empty data is one sequence.
\<close>

theorem paste_data_survives_the_scanner:
  assumes "encode_paste ident (ReadData mime data) = Inr bs"
  shows "\<exists>ts. scan_feed new_scanner bs = (map OscTok ts, new_scanner) \<and> ts \<noteq> []
    \<and> list_all (\<lambda>t. \<exists>c. read_answer (osc_payload t) = Some (data_metadata ident mime, c)
                        \<and> length c \<le> DATA_CHUNK) ts
    \<and> concat (map (\<lambda>t. snd (the (read_answer (osc_payload t)))) ts) = data"
proof -
  from assms have ok: "id_ok ident" "valid_mime mime" and bs: "bs = sequences (data_payloads ident mime data)"
    by (auto simp: encode_paste_data)
  define cs where "cs = (if data = [] then [[]] else chunks DATA_CHUNK data)"
  define ts where "ts = map answer_token (data_payloads ident mime data)"
  have ts: "ts = map (\<lambda>c. answer_token (bstr ''5522;'' @ data_metadata ident mime @ 59 # base64 c)) cs"
    by (simp add: ts_def cs_def data_payloads_def)
  have cs: "cs \<noteq> []" "concat cs = data" "\<forall>c \<in> set cs. length c \<le> DATA_CHUNK"
    using chunk_bounds(2) [of _ DATA_CHUNK data] by (auto simp: cs_def DATA_CHUNK_def)
  have "scan_feed new_scanner bs = (map OscTok ts, new_scanner)"
    using scan_answers [of "data_payloads ident mime data" "[]"] data_payload_facts [OF ok, of _ data]
    by (force simp: bs scan_feed_def ts_def flush_raw_def MAX_METADATA_def)
  moreover have "list_all (\<lambda>t. \<exists>c. read_answer (osc_payload t) = Some (data_metadata ident mime, c)
      \<and> length c \<le> DATA_CHUNK) ts"
    using cs(3) by (auto simp: ts list_all_iff answer_token_def read_answer_data [OF ok(1)])
  moreover have "concat (map (\<lambda>t. snd (the (read_answer (osc_payload t)))) ts) = data"
    by (simp add: ts answer_token_def read_answer_data [OF ok(1)] comp_def cs(2))
  ultimately show ?thesis using cs(1) by (intro exI [of _ ts]) (simp add: ts)
qed

theorem paste_data_survives_the_scanner_witness:
  "\<exists>bs ts. encode_paste None (ReadData (bstr ''text/plain'') [1, 2, 3]) = Inr bs
     \<and> scan_feed new_scanner bs = (map OscTok ts, new_scanner)
     \<and> concat (map (\<lambda>t. snd (the (read_answer (osc_payload t)))) ts) = [1, 2, 3]"
proof -
  have "valid_mime (bstr ''text/plain'')" by (simp add: valid_mime_def MAX_MIME_def bstr_eval)
  then have "\<exists>bs. encode_paste None (ReadData (bstr ''text/plain'') [1, 2, 3]) = Inr bs"
    by (simp add: encode_paste_data id_ok_def MAX_PACKET_def)
  then show ?thesis using paste_data_survives_the_scanner by blast
qed

section \<open>The size of an answer\<close>

lemma data_packet_length:
  assumes "encode_paste ident (ReadData mime data) = Inr bs" and "data \<noteq> []" and "DATA_CHUNK dvd length data"
  shows "length bs \<le> length data div DATA_CHUNK * 6101"
proof -
  from assms(1) have ok: "id_ok ident" "valid_mime mime" and bs: "bs = sequences (data_payloads ident mime data)"
    by (auto simp: encode_paste_data)
  obtain k where k: "length data = DATA_CHUNK * k" using assms(3) by blast
  then have "length (data_payloads ident mime data) = (4096 * k + 4095) div 4096"
    using assms(2) by (simp add: data_payloads_def length_chunks DATA_CHUNK_def)
  also have "\<dots> = k" by simp
  finally show ?thesis
    using length_sequences [of "data_payloads ident mime data" 6097] data_payload_facts(3) [OF ok, of _ data]
    by (simp add: bs k DATA_CHUNK_def)
qed

lemma status_length:
  assumes "encode_paste ident packet = Inr bs" and "packet = ReadOk \<or> packet = ReadDone"
  shows "length bs \<le> 290"
proof -
  have "id_ok ident" using assms by (auto simp: encode_paste_def id_ok_def split: if_splits option.splits)
  with assms show ?thesis
    by (auto simp: encode_paste_def osc_def read_status_def id_ok_def valid_id_def MAX_ID_def bstr_def
        split: if_splits option.splits)
qed

lemma data_packets_length:
  "list_all2 (\<lambda>(mime, data) bs. encode_paste ident (ReadData mime data) = Inr bs) ds bss \<Longrightarrow>
   list_all (\<lambda>(mime, data). data \<noteq> [] \<and> DATA_CHUNK dvd length data) ds \<Longrightarrow>
     length (concat bss) \<le> sum_list (map (\<lambda>(mime, data). length data) ds) div DATA_CHUNK * 6101"
proof (induction ds bss rule: list_all2_induct)
  case (Cons d ds b bss)
  obtain mime data where d: "d = (mime, data)" by (cases d)
  have "length b \<le> length data div DATA_CHUNK * 6101"
    using Cons.hyps(1) Cons.prems by (intro data_packet_length [of ident mime]) (simp_all add: d)
  moreover have "(length data + s) div DATA_CHUNK = length data div DATA_CHUNK + s div DATA_CHUNK" for s
    using Cons.prems by (simp add: d div_plus_div_distrib_dvd_left)
  ultimately show ?case using Cons by (simp add: d add_mult_distrib)
qed simp

text \<open>
  The bound on a held answer is large enough. An answer whose data comes in whole chunks and is
  within the limit of a transaction, whatever the identifier and the types, fits in \<open>MAX_ANSWER\<close>
  together with its opening and closing sequences.
\<close>

theorem full_answer_fits:
  assumes "encode_paste ident ReadOk = Inr first" and "encode_paste ident ReadDone = Inr final"
    and "list_all2 (\<lambda>(mime, data) bs. encode_paste ident (ReadData mime data) = Inr bs) ds bss"
    and "list_all (\<lambda>(mime, data). data \<noteq> [] \<and> DATA_CHUNK dvd length data) ds"
    and "sum_list (map (\<lambda>(mime, data). length data) ds) \<le> MAX_TRANSACTION"
  shows "length (first @ concat bss @ final) \<le> MAX_ANSWER"
proof -
  have "sum_list (map (\<lambda>(mime, data). length data) ds) div DATA_CHUNK \<le> 8192"
    using div_le_mono [OF assms(5), of DATA_CHUNK] by (simp add: MAX_TRANSACTION_def DATA_CHUNK_def)
  with data_packets_length [OF assms(3,4)] have "length (concat bss) \<le> 8192 * 6101"
    by (meson le_trans mult_le_mono1)
  moreover have "length first \<le> 290" "length final \<le> 290"
    using status_length assms(1,2) by blast+
  ultimately show ?thesis by (simp add: MAX_ANSWER_def)
qed

theorem full_answer_fits_witness:
  "\<exists>first final b. encode_paste None (ReadData (bstr ''image/png'') (replicate 4096 7)) = Inr b
     \<and> encode_paste None ReadOk = Inr first \<and> encode_paste None ReadDone = Inr final
     \<and> length (first @ concat [b] @ final) \<le> MAX_ANSWER"
proof -
  have "valid_mime (bstr ''image/png'')" by (simp add: valid_mime_def MAX_MIME_def bstr_eval)
  then obtain b where b: "encode_paste None (ReadData (bstr ''image/png'') (replicate 4096 7)) = Inr b"
    by (simp add: encode_paste_data id_ok_def MAX_PACKET_def)
  obtain first final where oc: "encode_paste None ReadOk = Inr first" "encode_paste None ReadDone = Inr final"
    by (simp add: encode_paste_def)
  have "length (first @ concat [b] @ final) \<le> MAX_ANSWER"
    by (rule full_answer_fits [OF oc, of "[(bstr ''image/png'', replicate 4096 7)]"])
      (simp_all add: b DATA_CHUNK_def MAX_TRANSACTION_def)
  with b oc show ?thesis by blast
qed

section \<open>Requests and their text\<close>

text \<open>What a parsed request may hold, and the text a program writes for one.\<close>

definition request_ok :: "ReadRequest \<Rightarrow> bool" where
  "request_ok r \<longleftrightarrow> rr_mimes r \<noteq> [] \<and> list_all valid_mime (rr_mimes r)
     \<and> id_ok (rr_id r)
     \<and> (case rr_password r of Some pw \<Rightarrow> decode pw \<noteq> None | None \<Rightarrow> True)
     \<and> (case rr_name r of Some nm \<Rightarrow> valid_utf8 nm | None \<Rightarrow> True)"

definition request_pairs :: "ReadRequest \<Rightarrow> bytes list" where
  "request_pairs r =
     [bstr ''type=read'']
     @ (if rr_location r = Primary then [bstr ''loc='' @ bstr ''primary''] else [])
     @ (case rr_id r of Some i \<Rightarrow> [bstr ''id='' @ i] | None \<Rightarrow> [])
     @ (case rr_password r of Some pw \<Rightarrow> [bstr ''pw='' @ pw] | None \<Rightarrow> [])
     @ (case rr_name r of Some nm \<Rightarrow> [bstr ''name='' @ base64 nm] | None \<Rightarrow> [])"

definition request_text :: "ReadRequest \<Rightarrow> bytes" where
  "request_text r =
     bstr ''5522;'' @ join [58] (request_pairs r) @ 59 # base64 (join [32] (rr_mimes r))"

lemma split_on_join:
  "ws \<noteq> [] \<Longrightarrow> list_all (\<lambda>w. sep \<notin> set w) ws \<Longrightarrow> split_on sep (join [sep] ws) = ws"
  by (induction "[sep]" ws rule: join.induct) (auto simp: split_on_none split_on_field)

lemma set_join: "set (join sep ws) \<subseteq> set sep \<union> \<Union> (set ` set ws)"
  by (induction sep ws rule: join.induct) auto

lemma requested_mimes_join:
  assumes "ms \<noteq> []" and "list_all valid_mime ms"
  shows "requested_mimes (base64 (join [32] ms)) = Some ms"
proof -
  have g: "\<forall>b \<in> set (join [32] ms). 32 \<le> b \<and> b \<le> 126"
    using set_join [of "[32]" ms] assms(2)
    by (fastforce simp: list_all_iff valid_mime_def word_le_nat_alt)
  have "unat b < 128" "\<not> is_ascii_whitespace b \<or> b = 32" if "b \<in> set (join [32] ms)" for b
    using g that by (auto simp: is_ascii_whitespace_def word_le_nat_alt)
  note ascii = this
  then have u: "valid_utf8 (join [32] ms)" by (intro ascii_valid) blast
  have "map (\<lambda>b. if is_ascii_whitespace b then 32 else b) (join [32] ms) = join [32] ms"
    using ascii(2) by (intro map_idI) auto
  moreover have "split_on 32 (join [32] ms) = ms"
    using assms by (intro split_on_join) (force simp: list_all_iff valid_mime_def)+
  moreover have "filter (\<lambda>w. w \<noteq> []) ms = ms"
    using assms(2) by (intro filter_True) (auto simp: list_all_iff valid_mime_def)
  ultimately have "split_ascii_whitespace (join [32] ms) = ms" by (simp add: split_ascii_whitespace_def)
  with u assms show ?thesis by (simp add: requested_mimes_def)
qed

text \<open>One known key at a time.\<close>

lemma split_once_field: "61 \<notin> set a \<Longrightarrow> split_once 61 (a @ 61 # v) = Some (a, v)"
proof -
  assume "61 \<notin> set a"
  then have "takeWhile (\<lambda>b. b \<noteq> 61) (a @ 61 # v) = a" by (induction a) auto
  then show ?thesis by (simp add: split_once_def position_def)
qed

lemma split_once_keys:
  "split_once 61 (bstr ''type=read'') = Some (bstr ''type'', bstr ''read'')"
  "split_once 61 (bstr ''loc='' @ v) = Some (bstr ''loc'', v)"
  "split_once 61 (bstr ''id='' @ v) = Some (bstr ''id'', v)"
  "split_once 61 (bstr ''pw='' @ v) = Some (bstr ''pw'', v)"
  "split_once 61 (bstr ''name='' @ v) = Some (bstr ''name'', v)"
  using split_once_field [of "bstr ''loc''" v] split_once_field [of "bstr ''id''" v]
    split_once_field [of "bstr ''pw''" v] split_once_field [of "bstr ''name''" v]
    split_once_field [of "bstr ''type''" "bstr ''read''"]
  by (simp_all add: bstr_eval)

lemma key_positions:
  "position (\<lambda>known. known = bstr ''type'') KEYS = Some 0"
  "position (\<lambda>known. known = bstr ''loc'') KEYS = Some 1"
  "position (\<lambda>known. known = bstr ''id'') KEYS = Some 2"
  "position (\<lambda>known. known = bstr ''pw'') KEYS = Some 3"
  "position (\<lambda>known. known = bstr ''name'') KEYS = Some 4"
  by (simp_all add: position_def KEYS_def bstr_eval)

lemma match_keys:
  "match_key (bstr ''type'') v k = Some (k\<lparr>k_kind := Some v\<rparr>)"
  "match_key (bstr ''loc'') (bstr ''primary'') k = Some (k\<lparr>k_location := Primary\<rparr>)"
  "match_key (bstr ''id'') v k = (if valid_id v then Some (k\<lparr>k_id := Some v\<rparr>) else None)"
  "match_key (bstr ''pw'') v k =
     (case decode v of None \<Rightarrow> None | Some _ \<Rightarrow> Some (k\<lparr>k_password := Some v\<rparr>))"
  "match_key (bstr ''name'') v k =
     (case decode v of
        None \<Rightarrow> None
      | Some nm \<Rightarrow> if valid_utf8 nm then Some (k\<lparr>k_name := Some nm\<rparr>) else None)"
  by (simp_all add: match_key_def bstr_eval)

lemma parse_pairs_keys:
  "parse_pairs k (bstr ''type=read'' # ps) =
     (if k_seen k ! 0 then None
      else parse_pairs (k\<lparr>k_seen := (k_seen k)[0 := True], k_kind := Some (bstr ''read'')\<rparr>) ps)"
  "parse_pairs k ((bstr ''loc='' @ bstr ''primary'') # ps) =
     (if k_seen k ! 1 then None
      else parse_pairs (k\<lparr>k_seen := (k_seen k)[1 := True], k_location := Primary\<rparr>) ps)"
  "parse_pairs k ((bstr ''id='' @ v) # ps) =
     (if k_seen k ! 2 \<or> \<not> valid_id v then None
      else parse_pairs (k\<lparr>k_seen := (k_seen k)[2 := True], k_id := Some v\<rparr>) ps)"
  "parse_pairs k ((bstr ''pw='' @ v) # ps) =
     (if k_seen k ! 3 \<or> decode v = None then None
      else parse_pairs (k\<lparr>k_seen := (k_seen k)[3 := True], k_password := Some v\<rparr>) ps)"
  "parse_pairs k ((bstr ''name='' @ base64 nm) # ps) =
     (if k_seen k ! 4 \<or> \<not> valid_utf8 nm then None
      else parse_pairs (k\<lparr>k_seen := (k_seen k)[4 := True], k_name := Some nm\<rparr>) ps)"
  by (simp_all add: split_once_keys mark_seen_def key_positions match_keys split: option.splits)

text \<open>The pairs of a request are read back, and are metadata without the separator.\<close>

lemma parse_request_pairs:
  assumes "request_ok r"
  shows "\<exists>k. parse_pairs no_keys (request_pairs r) = Some k \<and> k_kind k = Some (bstr ''read'')
    \<and> k_location k = rr_location r \<and> k_id k = rr_id r \<and> k_password k = rr_password r \<and> k_name k = rr_name r"
  using assms
  by (cases "rr_location r"; cases "rr_id r"; cases "rr_password r"; cases "rr_name r")
    (simp_all add: request_pairs_def request_ok_def id_ok_def parse_pairs_keys no_keys_def KEYS_def
      del: parse_pairs.simps(2))

lemma request_pairs_meta:
  assumes "request_ok r" and "p \<in> set (request_pairs r)"
  shows "list_all meta_char p" and "58 \<notin> set p"
proof -
  have id: "58 \<notin> set i" if "valid_id i" for i
    using that by (auto simp: valid_id_def list_all_iff is_alphanumeric_def is_digit_def bstr_eval)
  have b: "58 \<notin> set (base64 d)" for d
    using base64_chars [of d] by (auto simp: list_all_iff b64_char_def b64_value_def)
  then have pw: "58 \<notin> set pw" if "decode pw = Some d" for pw d
    using decode_Some [OF that] by simp
  have lit: "list_all meta_char (bstr ''type=read'')" "list_all meta_char (bstr ''loc='')"
    "list_all meta_char (bstr ''primary'')" "list_all meta_char (bstr ''id='')"
    "list_all meta_char (bstr ''pw='')" "list_all meta_char (bstr ''name='')"
    "58 \<notin> set (bstr ''type=read'')" "58 \<notin> set (bstr ''loc='')" "58 \<notin> set (bstr ''primary'')"
    "58 \<notin> set (bstr ''id='')" "58 \<notin> set (bstr ''pw='')" "58 \<notin> set (bstr ''name='')"
    by (simp_all add: bstr_eval meta_char_def)
  show "list_all meta_char p"
    using assms lit valid_id_meta password_meta base64_meta
    by (auto simp: request_pairs_def request_ok_def id_ok_def split: option.splits if_splits)
  show "58 \<notin> set p"
    using assms lit id b pw
    by (auto simp: request_pairs_def request_ok_def id_ok_def split: option.splits if_splits)
qed

lemma parse_request_text:
  assumes "request_ok r" and "length (request_text r) \<le> MAX_METADATA"
  shows "parse_request (request_text r) = Some r"
proof -
  let ?m = "join [58] (request_pairs r)" and ?rest = "59 # base64 (join [32] (rr_mimes r))"
  have "list_all meta_char ?m"
    using set_join [of "[58]" "request_pairs r"] request_pairs_meta(1) [OF assms(1)]
    by (fastforce simp: list_all_iff meta_char_def)
  moreover have "?rest = [] \<or> hd ?rest = 59" by simp
  moreover have "split_on 58 ?m = request_pairs r"
    using request_pairs_meta(2) [OF assms(1)]
    by (intro split_on_join) (auto simp: list_all_iff request_pairs_def)
  moreover have "requested_mimes (tl ?rest) = Some (rr_mimes r)"
    using assms(1) by (simp add: requested_mimes_join request_ok_def)
  moreover obtain k where "parse_pairs no_keys (request_pairs r) = Some k" "k_kind k = Some (bstr ''read'')"
    "k_location k = rr_location r" "k_id k = rr_id r" "k_password k = rr_password r" "k_name k = rr_name r"
    using parse_request_pairs [OF assms(1)] by blast
  ultimately show ?thesis
    using assms(2) parse_request_meta [of ?m ?rest] by (simp add: request_text_def)
qed

text \<open>What the loop over the pairs keeps.\<close>

definition keys_ok :: "request_keys \<Rightarrow> bool" where
  "keys_ok k \<longleftrightarrow> id_ok (k_id k)
     \<and> (case k_password k of Some pw \<Rightarrow> decode pw \<noteq> None | None \<Rightarrow> True)
     \<and> (case k_name k of Some nm \<Rightarrow> valid_utf8 nm | None \<Rightarrow> True)"

lemma mark_seen_keys_ok: "mark_seen key k = Some k' \<Longrightarrow> keys_ok k \<Longrightarrow> keys_ok k'"
  by (auto simp: mark_seen_def keys_ok_def split: option.splits if_splits)

lemma match_key_cases:
  assumes "match_key key v k = Some k'"
  obtains "k' = k\<lparr>k_kind := Some v\<rparr>" | "k' = k\<lparr>k_location := Primary\<rparr>"
    | "valid_id v" "k' = k\<lparr>k_id := Some v\<rparr>" | d where "decode v = Some d" "k' = k\<lparr>k_password := Some v\<rparr>"
    | nm where "valid_utf8 nm" "k' = k\<lparr>k_name := Some nm\<rparr>" | "k' = k"
proof -
  have chain: "(if c1 then Some (k\<lparr>k_kind := Some v\<rparr>)
      else if c2 then Some (k\<lparr>k_location := Primary\<rparr>)
      else if c3 then None
      else if c4 then (if valid_id v then Some (k\<lparr>k_id := Some v\<rparr>) else None)
      else if c5 then (case decode v of None \<Rightarrow> None | Some _ \<Rightarrow> Some (k\<lparr>k_password := Some v\<rparr>))
      else if c6 then
        (case decode v of
           None \<Rightarrow> None
         | Some nm \<Rightarrow> if valid_utf8 nm then Some (k\<lparr>k_name := Some nm\<rparr>) else None)
      else if c7 then None
      else Some k) = Some k' \<Longrightarrow> thesis"
    for c1 c2 c3 c4 c5 c6 c7
    using that by (auto split: if_split_asm option.split_asm)
  show thesis by (rule chain) (rule assms [unfolded match_key_def])
qed

lemma match_key_keys_ok: "match_key key v k = Some k' \<Longrightarrow> keys_ok k \<Longrightarrow> keys_ok k'"
  by (erule match_key_cases) (simp_all add: keys_ok_def id_ok_def)

lemma parse_pairs_keys_ok: "parse_pairs k ps = Some k' \<Longrightarrow> keys_ok k \<Longrightarrow> keys_ok k'"
  by (induction ps arbitrary: k)
    (auto split: option.splits, meson mark_seen_keys_ok match_key_keys_ok)

lemma parse_request_ok:
  assumes "parse_request p = Some r"
  shows "request_ok r \<and> length p \<le> MAX_METADATA"
proof -
  obtain pairs pl k ms where k: "parse_pairs no_keys pairs = Some k" "requested_mimes pl = Some ms"
      "r = \<lparr>rr_mimes = ms, rr_location = k_location k, rr_id = k_id k, rr_password = k_password k,
            rr_name = k_name k\<rparr>" "length p \<le> MAX_METADATA"
    using assms unfolding parse_request_def Let_def
    by (auto split: if_splits prod.splits option.splits simp: not_less)
  have "keys_ok no_keys" by (simp add: keys_ok_def no_keys_def id_ok_def)
  with k(1) have "keys_ok k" by (rule parse_pairs_keys_ok)
  moreover have "ms \<noteq> [] \<and> list_all valid_mime ms"
    using k(2) by (auto simp: requested_mimes_def Let_def split: option.splits if_splits)
  ultimately show ?thesis using k(3,4) by (simp add: request_ok_def keys_ok_def)
qed

text \<open>
  A read request is accepted with a meaning only when it is one: the types are at least one and
  each within RFC 6838, the identifier is short and of the safe alphabet, the password is base64, the
  name is UTF-8, and the sequence is within the limit. Conversely every such request can be asked:
  its text is read back to exactly this request.
\<close>

theorem read_requests_exact:
  "(parse_request p = Some q \<longrightarrow> request_ok q \<and> length p \<le> MAX_METADATA)
   \<and> (request_ok r \<and> length (request_text r) \<le> MAX_METADATA \<longrightarrow> parse_request (request_text r) = Some r)"
  using parse_request_ok parse_request_text by blast

theorem read_requests_exact_witness:
  "let r = \<lparr>rr_mimes = [bstr ''image/png'', bstr ''text/plain''], rr_location = Primary,
            rr_id = Some (bstr ''w1''), rr_password = None, rr_name = None\<rparr>
   in request_ok r \<and> parse_request (request_text r) = Some r"
proof -
  define r where "r = \<lparr>rr_mimes = [bstr ''image/png'', bstr ''text/plain''], rr_location = Primary,
            rr_id = Some (bstr ''w1''), rr_password = None, rr_name = None\<rparr>"
  have "request_ok r"
    by (simp add: r_def request_ok_def id_ok_def valid_id_def valid_mime_def MAX_ID_def MAX_MIME_def
        is_alphanumeric_def is_digit_def bstr_eval)
  moreover have "length (request_text r) \<le> MAX_METADATA"
    by (simp add: r_def request_text_def request_pairs_def length_base64 bstr_eval MAX_METADATA_def)
  ultimately show ?thesis
    using read_requests_exact [of "[]" r r] by (simp add: r_def [symmetric])
qed

end
