(* ===== verification/Tui_Scroll.thy ===== *)
theory Tui_Scroll
  imports Transitions Pty_Prelude
begin

text \<open>
  The scroll region behind the selectable lists and the grouped layout
  (\<^verbatim>\<open>crates/pty-tui/src/scroll.rs\<close>). Indexes are natural numbers; the subtractions that do not
  saturate in the source are guarded there, so they do not go below zero here either.
\<close>

section \<open>Scroll regions\<close>

record ScrollRegion =
  sr_offset :: nat
  sr_selected :: nat
  sr_total :: nat
  sr_viewport :: nat

definition new_region :: "nat \<Rightarrow> nat \<Rightarrow> ScrollRegion" where
  "new_region tot viewport = \<lparr>sr_offset = 0, sr_selected = 0, sr_total = tot, sr_viewport = viewport\<rparr>"

definition ensure_visible :: "ScrollRegion \<Rightarrow> ScrollRegion" where
  "ensure_visible r =
     (let offset = (if sr_selected r < sr_offset r then sr_selected r
                    else if sr_selected r \<ge> sr_offset r + sr_viewport r
                    then sr_selected r + 1 - sr_viewport r
                    else sr_offset r)
      in r\<lparr>sr_offset := min offset (sr_total r - sr_viewport r)\<rparr>)"

definition update_region :: "nat \<Rightarrow> nat option \<Rightarrow> ScrollRegion \<Rightarrow> ScrollRegion" where
  "update_region tot viewport r =
     ensure_visible (r\<lparr>sr_total := tot,
       sr_viewport := (case viewport of Some v \<Rightarrow> v | None \<Rightarrow> sr_viewport r),
       sr_selected := min (sr_selected r) (tot - 1)\<rparr>)"

definition scroll_up :: "ScrollRegion \<Rightarrow> ScrollRegion" where
  "scroll_up r = (if sr_selected r = 0 then r else ensure_visible (r\<lparr>sr_selected := sr_selected r - 1\<rparr>))"

definition scroll_down :: "ScrollRegion \<Rightarrow> ScrollRegion" where
  "scroll_down r =
     (if sr_selected r + 1 \<ge> sr_total r then r else ensure_visible (r\<lparr>sr_selected := sr_selected r + 1\<rparr>))"

definition page_up :: "ScrollRegion \<Rightarrow> ScrollRegion" where
  "page_up r = ensure_visible (r\<lparr>sr_selected := sr_selected r - sr_viewport r\<rparr>)"

definition page_down :: "ScrollRegion \<Rightarrow> ScrollRegion" where
  "page_down r = ensure_visible (r\<lparr>sr_selected := min (sr_selected r + sr_viewport r) (sr_total r - 1)\<rparr>)"

definition to_top :: "ScrollRegion \<Rightarrow> ScrollRegion" where
  "to_top r = ensure_visible (r\<lparr>sr_selected := 0\<rparr>)"

definition to_bottom :: "ScrollRegion \<Rightarrow> ScrollRegion" where
  "to_bottom r = ensure_visible (r\<lparr>sr_selected := sr_total r - 1\<rparr>)"

text \<open>The slice \<open>items[start..end]\<close>; it panics when the start is past the end, which cannot happen as
  \<open>start \<le> end\<close>.\<close>

definition visible_slice :: "'a list \<Rightarrow> ScrollRegion \<Rightarrow> 'a list" where
  "visible_slice items r =
     (let start = min (sr_offset r) (length items);
          stop = min (sr_offset r + sr_viewport r) (length items)
      in take (stop - start) (drop start items))"

section \<open>Grouped layout\<close>

datatype GroupedRow =
    Spacer
  | Header nat
  | Item nat nat nat bool

record GroupedLayout =
  gl_rows :: "GroupedRow list"
  gl_offset :: nat
  gl_total :: nat

text \<open>The rows of one group's items, from the running item index.\<close>

definition item_rows :: "nat \<Rightarrow> nat \<Rightarrow> nat \<Rightarrow> nat \<Rightarrow> GroupedRow list" where
  "item_rows selected g n index = map (\<lambda>k. Item g k (index + k) (index + k = selected)) [0..<n]"

text \<open>The loop over the groups: rows so far, item index, visual row of the selection.\<close>

fun group_loop :: "bool \<Rightarrow> nat \<Rightarrow> nat \<Rightarrow> nat list \<Rightarrow> GroupedRow list \<times> nat \<times> nat \<Rightarrow> GroupedRow list \<times> nat \<times> nat" where
  "group_loop headers selected g [] acc = acc"
| "group_loop headers selected g (n # sizes) (rows, index, visual) =
     (let rows1 = (if headers then (if rows \<noteq> [] then rows @ [Spacer] else rows) @ [Header g] else rows);
          visual1 = (if index \<le> selected \<and> selected < index + n
                     then length rows1 + (selected - index) else visual)
      in group_loop headers selected (g + 1) sizes (rows1 @ item_rows selected g n index, index + n, visual1))"

definition new_layout :: "ScrollRegion \<Rightarrow> nat list \<Rightarrow> bool \<Rightarrow> GroupedLayout" where
  "new_layout region sizes headers =
     (case group_loop headers (sr_selected region) 0 sizes ([], 0, 0) of
        (rows, tot, visual) \<Rightarrow>
          \<lparr>gl_rows = rows,
           gl_offset = (if visual \<ge> sr_viewport region then visual + 2 - sr_viewport region else 0),
           gl_total = tot\<rparr>)"

definition visible_rows :: "nat \<Rightarrow> GroupedLayout \<Rightarrow> GroupedRow list" where
  "visible_rows viewport l =
     (let start = min (gl_offset l) (length (gl_rows l));
          stop = min (gl_offset l + viewport) (length (gl_rows l))
      in take (stop - start) (drop start (gl_rows l)))"

section \<open>The selection stays in view\<close>

definition selected_ok :: "ScrollRegion \<Rightarrow> bool" where
  "selected_ok r \<longleftrightarrow> sr_selected r < sr_total r \<or> sr_total r = 0 \<and> sr_selected r = 0"

definition region_ok :: "ScrollRegion \<Rightarrow> bool" where
  "region_ok r \<longleftrightarrow> selected_ok r \<and> sr_offset r \<le> sr_total r - sr_viewport r
     \<and> (0 < sr_viewport r \<and> 0 < sr_total r \<longrightarrow>
          sr_offset r \<le> sr_selected r \<and> sr_selected r < sr_offset r + sr_viewport r)"

lemma ensure_visible_ok: "selected_ok r \<Longrightarrow> region_ok (ensure_visible r)"
  by (auto simp: region_ok_def selected_ok_def ensure_visible_def Let_def min_def)

inductive region_step :: "ScrollRegion \<Rightarrow> ScrollRegion \<Rightarrow> bool" where
  step_update: "region_step r (update_region tot viewport r)"
| step_up: "region_step r (scroll_up r)"
| step_down: "region_step r (scroll_down r)"
| step_page_up: "region_step r (page_up r)"
| step_page_down: "region_step r (page_down r)"
| step_top: "region_step r (to_top r)"
| step_bottom: "region_step r (to_bottom r)"

lemma region_step_ok:
  assumes "region_step r r'" and "region_ok r"
  shows "region_ok r'"
proof -
  have sel: "selected_ok r" using assms(2) by (simp add: region_ok_def)
  have a: "selected_ok (r\<lparr>sr_total := t, sr_viewport := v, sr_selected := min (sr_selected r) (t - 1)\<rparr>)" for t v
    by (auto simp: selected_ok_def min_def)
  have b: "selected_ok (r\<lparr>sr_selected := sr_selected r - k\<rparr>)" "selected_ok (r\<lparr>sr_selected := 0\<rparr>)"
    "selected_ok (r\<lparr>sr_selected := min k (sr_total r - 1)\<rparr>)" "selected_ok (r\<lparr>sr_selected := sr_total r - 1\<rparr>)" for k
    using sel by (auto simp: selected_ok_def min_def)
  have c: "selected_ok (r\<lparr>sr_selected := sr_selected r + 1\<rparr>)" if "\<not> sr_selected r + 1 \<ge> sr_total r"
    using that by (simp add: selected_ok_def)
  from assms(1) show ?thesis
    by cases (use assms(2) a b c in \<open>simp_all add: update_region_def scroll_up_def scroll_down_def page_up_def page_down_def
        to_top_def to_bottom_def ensure_visible_ok\<close>)
qed

interpretation region: invariant_system "\<lambda>r. \<exists>tot viewport. r = new_region tot viewport" region_step region_ok
proof
  fix r
  assume "\<exists>tot viewport. r = new_region tot viewport"
  then show "region_ok r" by (auto simp: region_ok_def selected_ok_def new_region_def)
qed (rule region_step_ok)

text \<open>
  Whatever the user does to a list, page by page, line by line or by resizing it, in a viewport
  of at least one row the selected item exists and is among the visible ones, and the viewport is
  never left partly empty while there are items above it.
\<close>

theorem selection_always_visible:
  assumes "reachable (\<lambda>r. \<exists>tot viewport. r = new_region tot viewport) region_step r"
    and "length items = sr_total r" and "0 < sr_viewport r" and "items \<noteq> []"
  shows "sr_selected r < length items
    \<and> visible_slice items r ! (sr_selected r - sr_offset r) = items ! sr_selected r
    \<and> sr_selected r - sr_offset r < length (visible_slice items r)
    \<and> length (visible_slice items r) = min (sr_viewport r) (length items)"
proof -
  have ok: "region_ok r" by (rule region.inv_reachable [OF assms(1)])
  have t: "0 < sr_total r" using assms(2,4) by (metis length_greater_0_conv)
  have v: "sr_selected r < length items" "sr_offset r \<le> sr_selected r"
    "sr_selected r < sr_offset r + sr_viewport r" "sr_offset r \<le> length items - sr_viewport r"
    using ok t assms(2,3) by (auto simp: region_ok_def selected_ok_def)
  have o: "sr_offset r \<le> length items" using v by linarith
  then have l: "length (visible_slice items r) = min (sr_viewport r) (length items)"
    using v by (auto simp: visible_slice_def Let_def min_def)
  moreover have "sr_selected r - sr_offset r < length (visible_slice items r)" using l v by auto
  moreover have "visible_slice items r ! (sr_selected r - sr_offset r) = items ! sr_selected r"
    using calculation(2) o v by (simp add: visible_slice_def Let_def)
  ultimately show ?thesis using v by simp
qed

theorem selection_always_visible_witness:
  "let r = to_bottom (new_region 5 2) in visible_slice [10, 11, 12, 13, 14::nat] r ! (sr_selected r - sr_offset r) = 14"
proof -
  have "reachable (\<lambda>r. \<exists>tot viewport. r = new_region tot viewport) region_step (to_bottom (new_region 5 2))"
    by (rule reachable_step [OF reachable_init]) (blast, rule step_bottom)
  from selection_always_visible [OF this, of "[10, 11, 12, 13, 14::nat]"] show ?thesis
    by (simp add: to_bottom_def ensure_visible_def new_region_def Let_def)
qed

section \<open>Grouped lists\<close>

text \<open>The loop counts the items and finds the row of the selected one.\<close>

lemma group_loop_selected:
  assumes "group_loop headers selected g sizes (rows, index, visual) = (rows', tot, visual')"
    and "index \<le> selected \<or> visual < length rows \<and> (\<exists>h k. rows ! visual = Item h k selected True)"
  shows "tot = index + sum_list sizes \<and> (\<exists>more. rows' = rows @ more)
    \<and> (selected < tot \<longrightarrow> visual' < length rows' \<and> (\<exists>h k. rows' ! visual' = Item h k selected True))"
  using assms
proof (induction headers selected g sizes "(rows, index, visual)" arbitrary: rows index visual
    rule: group_loop.induct)
  case (2 headers selected g n sizes rows index visual)
  define rows1 where "rows1 = (if headers then (if rows \<noteq> [] then rows @ [Spacer] else rows) @ [Header g] else rows)"
  define visual1 where "visual1 = (if index \<le> selected \<and> selected < index + n
      then length rows1 + (selected - index) else visual)"
  define rows2 where "rows2 = rows1 @ item_rows selected g n index"
  have loop: "group_loop headers selected (g + 1) sizes (rows2, index + n, visual1) = (rows', tot, visual')"
    using 2(2) by (simp add: rows1_def [symmetric] visual1_def [symmetric] rows2_def [symmetric] Let_def)
  have "\<exists>pre. rows1 = rows @ pre" unfolding rows1_def by auto
  then obtain pre where pre: "rows1 = rows @ pre" by blast
  have sel: "index + n \<le> selected \<or> visual1 < length rows2 \<and> (\<exists>h k. rows2 ! visual1 = Item h k selected True)"
  proof (cases "index \<le> selected \<and> selected < index + n")
    case True
    then obtain j where j: "selected = index + j" "j < n" using le_iff_add by auto
    then have "visual1 = length rows1 + j" by (simp add: visual1_def)
    then have "rows2 ! visual1 = Item g j selected True" "visual1 < length rows2"
      using j by (simp_all add: rows2_def item_rows_def)
    then show ?thesis by blast
  next
    case False
    then have "visual1 = visual" by (auto simp: visual1_def)
    then show ?thesis using False 2(3) by (auto simp: rows2_def pre nth_append)
  qed
  have "tot = index + n + sum_list sizes \<and> (\<exists>more. rows' = rows2 @ more)
      \<and> (selected < tot \<longrightarrow> visual' < length rows' \<and> (\<exists>h k. rows' ! visual' = Item h k selected True))"
    by (rule 2(1) [OF rows1_def visual1_def loop [unfolded rows2_def] sel [unfolded rows2_def], folded rows2_def])
  then show ?case by (auto simp: rows2_def pre)
qed auto

lemma slice_nth:
  assumes "a \<le> v" and "v < a + w" and "v < length xs"
  shows "take (min (a + w) (length xs) - min a (length xs)) (drop (min a (length xs)) xs) ! (v - a) = xs ! v"
    and "v - a < length (take (min (a + w) (length xs) - min a (length xs)) (drop (min a (length xs)) xs))"
  using assms by (auto simp: min_def)

text \<open>
  In a viewport of at least two rows the grouped list shows the selected item wherever it is,
  headers and spacers counted; in a viewport of one row it shows the row after it instead as soon
  as the selected item is not on the first row.
\<close>

theorem grouped_selection_visible:
  assumes "new_layout r sizes headers = l" and "sr_selected r < sum_list sizes"
  shows "gl_total l = sum_list sizes
    \<and> (2 \<le> sr_viewport r \<longrightarrow> (\<exists>g k. Item g k (sr_selected r) True \<in> set (visible_rows (sr_viewport r) l)))
    \<and> (sr_viewport r = 1 \<and> gl_offset l \<noteq> 0 \<longrightarrow>
          (\<exists>g k. gl_rows l ! (gl_offset l - 1) = Item g k (sr_selected r) True))"
proof -
  obtain rows tot visual where loop: "group_loop headers (sr_selected r) 0 sizes ([], 0, 0) = (rows, tot, visual)"
    by (metis prod_cases3)
  have sel: "tot = sum_list sizes" "visual < length rows" "\<exists>h k. rows ! visual = Item h k (sr_selected r) True"
    using group_loop_selected [OF loop] assms(2) by auto
  have l: "l = \<lparr>gl_rows = rows, gl_offset = (if visual \<ge> sr_viewport r then visual + 2 - sr_viewport r else 0),
      gl_total = tot\<rparr>" using assms(1) loop by (simp add: new_layout_def)
  have two: "rows ! visual \<in> set (visible_rows (sr_viewport r) l)" if "2 \<le> sr_viewport r"
  proof -
    have o: "gl_offset l \<le> visual" "visual < gl_offset l + sr_viewport r" using that l by auto
    then have "visible_rows (sr_viewport r) l ! (visual - gl_offset l) = rows ! visual"
      "visual - gl_offset l < length (visible_rows (sr_viewport r) l)"
      using slice_nth [OF o sel(2)] l by (simp_all add: visible_rows_def Let_def)
    then show ?thesis by (metis nth_mem)
  qed
  have one: "gl_offset l - 1 = visual" if "sr_viewport r = 1" "gl_offset l \<noteq> 0" using that l by auto
  have f: "gl_total l = tot" "gl_rows l = rows" using l by simp_all
  obtain h k where hk: "rows ! visual = Item h k (sr_selected r) True" using sel(3) by blast
  show ?thesis unfolding f using sel(1) two one hk by metis
qed

theorem grouped_selection_visible_witness:
  "let r = \<lparr>sr_offset = 0, sr_selected = 2, sr_total = 3, sr_viewport = 1\<rparr>; l = new_layout r [2, 1] True
   in gl_total l = 3 \<and> visible_rows 1 l = [] \<and> (\<exists>g k. gl_rows l ! (gl_offset l - 1) = Item g k 2 True)"
  using grouped_selection_visible [OF refl, of "\<lparr>sr_offset = 0, sr_selected = 2, sr_total = 3, sr_viewport = 1\<rparr>" "[2, 1]" True]
  by (simp add: Let_def new_layout_def item_rows_def visible_rows_def upt_rec numeral_2_eq_2)

end
