(* ===== verification/Tui_Fuzzy.thy ===== *)
theory Tui_Fuzzy
  imports Pty_Prelude "HOL-Library.Sublist"
begin

text \<open>
  Fuzzy matching in the pickers (\<^verbatim>\<open>crates/pty-tui/src/fuzzy.rs\<close>). The lower-case conversion of the
  standard library is an argument. \<open>can_match\<close> walks the two remaining suffixes; the search loops
  ahead of an index are \<open>List.find\<close> over the remaining indexes.
\<close>

section \<open>Matching\<close>

definition is_boundary :: "rstr \<Rightarrow> nat \<Rightarrow> bool" where
  "is_boundary s pos \<longleftrightarrow> pos = 0 \<or> s ! (pos - 1) \<in> {45, 95, 47, 32, 46}"

fun can_match :: "rstr \<Rightarrow> rstr \<Rightarrow> bool" where
  "can_match [] t = True"
| "can_match (q # qs) [] = False"
| "can_match (q # qs) (c # t) = (if c = q then can_match qs t else can_match (q # qs) t)"

definition boundary_ahead :: "rstr \<Rightarrow> rstr \<Rightarrow> nat \<Rightarrow> nat \<Rightarrow> nat option" where
  "boundary_ahead q t qi ti =
     List.find (\<lambda>ahead. t ! ahead = q ! qi \<and> is_boundary t ahead \<and> can_match (drop (qi + 1) q) (drop (ahead + 1) t))
       [ti..<length t]"

definition next_occurrence :: "rstr \<Rightarrow> rstr \<Rightarrow> nat \<Rightarrow> nat \<Rightarrow> nat option" where
  "next_occurrence q t qi ti = List.find (\<lambda>k. t ! k = q ! qi) [ti..<length t]"

function prefer_loop :: "rstr \<Rightarrow> rstr \<Rightarrow> nat \<Rightarrow> nat \<Rightarrow> nat list \<Rightarrow> nat list option" where
  "prefer_loop q t qi ti positions =
     (if qi < length q \<and> ti < length t then
        (case boundary_ahead q t qi ti of
           Some ahead \<Rightarrow> prefer_loop q t (qi + 1) (ahead + 1) (positions @ [ahead])
         | None \<Rightarrow>
             (case next_occurrence q t qi ti of
                None \<Rightarrow> None
              | Some k \<Rightarrow> prefer_loop q t (qi + 1) (k + 1) (positions @ [k])))
      else if qi = length q then Some positions else None)"
  by pat_completeness auto
termination by (relation "measure (\<lambda>(q, t, qi, ti, p). length q - qi)") auto

definition match_prefer_boundaries :: "rstr \<Rightarrow> rstr \<Rightarrow> nat list option" where
  "match_prefer_boundaries q t = prefer_loop q t 0 0 []"

fun greedy_positions :: "rstr \<Rightarrow> nat \<Rightarrow> rstr \<Rightarrow> nat list" where
  "greedy_positions [] ti t = []"
| "greedy_positions (q # qs) ti [] = []"
| "greedy_positions (q # qs) ti (c # t) =
     (if c = q then ti # greedy_positions qs (ti + 1) t else greedy_positions (q # qs) (ti + 1) t)"

definition find_best_match :: "rstr \<Rightarrow> rstr \<Rightarrow> nat list" where
  "find_best_match q t =
     (case match_prefer_boundaries q t of Some p \<Rightarrow> p | None \<Rightarrow> greedy_positions q 0 t)"

section \<open>Scoring\<close>

fun consecutive_bonus :: "nat option \<Rightarrow> int \<Rightarrow> nat list \<Rightarrow> int" where
  "consecutive_bonus prev consecutive [] = 0"
| "consecutive_bonus prev consecutive (p # ps) =
     (if prev \<noteq> None \<and> p = the prev + 1
      then (consecutive + 1) * 2 + consecutive_bonus (Some p) (consecutive + 1) ps
      else consecutive_bonus (Some p) 0 ps)"

definition boundary_bonus :: "rstr \<Rightarrow> nat list \<Rightarrow> int" where
  "boundary_bonus t positions = sum_list (map (\<lambda>pos. if pos = 0 \<or> is_boundary t pos then 3 else 0) positions)"

definition score_of :: "rstr \<Rightarrow> rstr \<Rightarrow> nat list \<Rightarrow> int" where
  "score_of q t positions =
     consecutive_bonus None 0 positions + boundary_bonus t positions
     + (if positions \<noteq> [] \<and> hd positions = 0 then 5 else 0)
     + max (10 - (int (length t) - int (length q))) 0"

definition fuzzy_match :: "(rstr \<Rightarrow> rstr) \<Rightarrow> rstr \<Rightarrow> rstr \<Rightarrow> int option" where
  "fuzzy_match lower query target =
     (if query = [] then Some 1
      else
        (let q = lower query; t = lower target in
         if length q > length t then None
         else if fold (\<lambda>c qi. if qi < length q \<and> c = q ! qi then qi + 1 else qi) t 0 < length q then None
         else Some (score_of q t (find_best_match q t))))"

definition fuzzy_matches :: "(rstr \<Rightarrow> rstr) \<Rightarrow> rstr \<Rightarrow> rstr \<Rightarrow> bool" where
  "fuzzy_matches lower query target \<longleftrightarrow> fuzzy_match lower query target \<noteq> None"

section \<open>Subsequences\<close>

lemma can_match_subseq: "can_match q t \<longleftrightarrow> subseq q t"
  by (induction q t rule: can_match.induct) auto

text \<open>The counting loop walks the query exactly as \<open>can_match\<close> does.\<close>

lemma count_loop:
  "qi \<le> length q \<Longrightarrow>
     fold (\<lambda>c qi. if qi < length q \<and> c = q ! qi then qi + 1 else qi) t qi \<le> length q
     \<and> (fold (\<lambda>c qi. if qi < length q \<and> c = q ! qi then qi + 1 else qi) t qi = length q
         \<longleftrightarrow> subseq (drop qi q) t)"
proof (induction t arbitrary: qi)
  case (Cons c t)
  show ?case
  proof (cases "qi < length q")
    case True
    then have d: "drop qi q = q ! qi # drop (qi + 1) q" by (simp add: Cons_nth_drop_Suc)
    show ?thesis using Cons.IH [of qi] Cons.IH [of "qi + 1"] True by (auto simp: d)
  next
    case False
    then show ?thesis using Cons.IH [of qi] Cons.prems by simp
  qed
next
  case Nil
  then show ?case by (auto dest: list_emb_length)
qed

text \<open>What a list of positions has to be.\<close>

definition spells :: "rstr \<Rightarrow> rstr \<Rightarrow> nat list \<Rightarrow> bool" where
  "spells q t ps \<longleftrightarrow> length ps = length q \<and> sorted_wrt (<) ps
     \<and> (\<forall>i < length ps. ps ! i < length t \<and> t ! (ps ! i) = q ! i)"

lemma find_upt:
  "List.find P [a..<b] = Some k \<Longrightarrow> a \<le> k \<and> k < b \<and> P k \<and> (\<forall>j. a \<le> j \<and> j < k \<longrightarrow> \<not> P j)"
  "List.find P [a..<b] = None \<Longrightarrow> \<forall>j. a \<le> j \<and> j < b \<longrightarrow> \<not> P j"
proof -
  show "List.find P [a..<b] = Some k \<Longrightarrow> a \<le> k \<and> k < b \<and> P k \<and> (\<forall>j. a \<le> j \<and> j < k \<longrightarrow> \<not> P j)"
  proof -
    assume "List.find P [a..<b] = Some k"
    then obtain i where i: "i < length [a..<b]" "P ([a..<b] ! i)" "k = [a..<b] ! i"
      "\<forall>j<i. \<not> P ([a..<b] ! j)" by (auto simp: find_Some_iff)
    have "\<not> P j" if "a \<le> j" "j < k" for j
      using i(4) [rule_format, of "j - a"] i(1,3) that by simp
    then show ?thesis using i by auto
  qed
  show "List.find P [a..<b] = None \<Longrightarrow> \<forall>j. a \<le> j \<and> j < b \<longrightarrow> \<not> P j" by (simp add: find_None_iff)
qed

text \<open>Skipping to the first occurrence keeps the rest matchable.\<close>

lemma subseq_first:
  assumes "subseq (x # qs) (drop ti t)"
  shows "\<exists>k. ti \<le> k \<and> k < length t \<and> t ! k = x \<and> (\<forall>j. ti \<le> j \<and> j < k \<longrightarrow> t ! j \<noteq> x) \<and> subseq qs (drop (k + 1) t)"
  using assms
proof (induction "length t - ti" arbitrary: ti)
  case 0
  then show ?case by simp
next
  case (Suc n)
  then have lt: "ti < length t" by simp
  then have d: "drop ti t = t ! ti # drop (ti + 1) t" by (simp add: Cons_nth_drop_Suc)
  show ?case
  proof (cases "t ! ti = x")
    case True
    then show ?thesis using Suc.prems lt by (intro exI [where x = ti]) (auto simp: d)
  next
    case False
    then have "subseq (x # qs) (drop (ti + 1) t)" using Suc.prems by (simp add: d)
    then obtain k where k: "ti + 1 \<le> k" "k < length t" "t ! k = x" "\<forall>j. ti + 1 \<le> j \<and> j < k \<longrightarrow> t ! j \<noteq> x"
      "subseq qs (drop (k + 1) t)" using Suc.hyps(1) [of "ti + 1"] Suc.hyps(2) by force
    then show ?thesis using False by (intro exI [where x = k]) (auto simp: le_Suc_eq less_eq_Suc_le, metis Suc_leI le_neq_implies_less)
  qed
qed

lemma prefer_loop_spells:
  assumes "subseq (drop qi q) (drop ti t)" and "spells (take qi q) t positions" and "qi \<le> length q"
    and "\<forall>p \<in> set positions. p < ti"
  shows "\<exists>ps. prefer_loop q t qi ti positions = Some ps \<and> spells q t ps"
  using assms
proof (induction q t qi ti positions rule: prefer_loop.induct)
  case (1 q t qi ti positions)
  show ?case
  proof (cases "qi < length q")
    case False
    then show ?thesis using 1(3-6) by simp
  next
    case True
    then have d: "drop qi q = q ! qi # drop (qi + 1) q" by (simp add: Cons_nth_drop_Suc)
    have ti: "ti < length t" using 1(3) d by (cases "ti < length t") auto
    have grow: "spells (take (qi + 1) q) t (positions @ [k])" "\<forall>p \<in> set (positions @ [k]). p < k + 1"
      if "ti \<le> k" "k < length t" "t ! k = q ! qi" for k
      using that 1(4,6) True
      by (fastforce simp: spells_def sorted_wrt_append take_Suc_conv_app_nth nth_append less_Suc_eq)+
    show ?thesis
    proof (cases "boundary_ahead q t qi ti")
      case (Some k)
      note f = find_upt(1) [OF Some [unfolded boundary_ahead_def]]
      have "\<exists>ps. prefer_loop q t (qi + 1) (k + 1) (positions @ [k]) = Some ps \<and> spells q t ps"
        using f grow [of k] True ti Some by (intro 1(2)) (auto simp: can_match_subseq)
      then show ?thesis using True ti Some by simp
    next
      case None
      obtain j where j: "ti \<le> j" "j < length t" "t ! j = q ! qi" "\<forall>i. ti \<le> i \<and> i < j \<longrightarrow> t ! i \<noteq> q ! qi"
        "subseq (drop (qi + 1) q) (drop (j + 1) t)" using subseq_first 1(3) d by metis
      obtain k where k: "next_occurrence q t qi ti = Some k"
        using find_upt(2) [of "\<lambda>k. t ! k = q ! qi" ti "length t"] j(1-3)
        by (cases "next_occurrence q t qi ti") (auto simp: next_occurrence_def)
      note f = find_upt(1) [OF k [unfolded next_occurrence_def]]
      have "k = j" using f j by (metis linorder_neqE_nat)
      then have "\<exists>ps. prefer_loop q t (qi + 1) (k + 1) (positions @ [k]) = Some ps \<and> spells q t ps"
        using j grow [of k] True ti None k by (intro 1(1)) auto
      then show ?thesis using True ti None k by simp
    qed
  qed
qed

text \<open>
  A target matches exactly when the query's characters occur in it in this order, case apart;
  then the positions that are scored spell the query from left to right, also when boundaries are
  preferred, and the score is not negative.
\<close>

theorem fuzzy_match_exact:
  "(fuzzy_matches lower query target \<longleftrightarrow> query = [] \<or> subseq (lower query) (lower target))
   \<and> (subseq (lower query) (lower target) \<longrightarrow>
        spells (lower query) (lower target) (find_best_match (lower query) (lower target)))
   \<and> (\<forall>score. fuzzy_match lower query target = Some score \<longrightarrow> 0 \<le> score)"
proof -
  let ?q = "lower query" and ?t = "lower target"
  have m: "fuzzy_matches lower query target \<longleftrightarrow> query = [] \<or> subseq ?q ?t"
    using count_loop [of 0 ?q ?t] list_emb_length [of "(=)" ?q ?t]
    by (auto simp: fuzzy_matches_def fuzzy_match_def Let_def)
  have p: "spells ?q ?t (find_best_match ?q ?t)" if "subseq ?q ?t"
    using prefer_loop_spells [of 0 ?q 0 ?t "[]"] that
    by (auto simp: find_best_match_def match_prefer_boundaries_def spells_def simp del: prefer_loop.simps)
  have "0 \<le> consecutive_bonus prev k ps" if "0 \<le> k" for prev k ps
    using that by (induction prev k ps rule: consecutive_bonus.induct) auto
  moreover have "0 \<le> boundary_bonus t ps" for t ps
    unfolding boundary_bonus_def by (induction ps) auto
  ultimately have "0 \<le> score_of q t ps" for q t ps
    unfolding score_of_def by (smt (verit))
  then show ?thesis using m p by (auto simp: fuzzy_match_def Let_def split: if_splits)
qed

theorem fuzzy_match_exact_witness:
  "fuzzy_matches (\<lambda>s. s) (ustr ''ns'') (ustr ''node-server'') \<and> \<not> fuzzy_matches (\<lambda>s. s) (ustr ''sn'') (ustr ''node-server'')"
  using fuzzy_match_exact [of "\<lambda>s. s" "ustr ''ns''" "ustr ''node-server''"]
    fuzzy_match_exact [of "\<lambda>s. s" "ustr ''sn''" "ustr ''node-server''"]
  by (simp add: ustr_def)

end
