(* ===== verification/Tui_Line_Edit.thy ===== *)
theory Tui_Line_Edit
  imports Transitions Pty_Prelude
begin

text \<open>
  The single-line text field (\<^verbatim>\<open>crates/pty-tui/src/line_edit.rs\<close>). A text is the list of its characters,
  the cursor counts characters. Which characters are letters or digits is the standard library's
  table, an argument. The styled rendering is not modelled, its three pieces of text are.
\<close>

section \<open>The field\<close>

record TextFieldState =
  tf_text :: rstr
  tf_cursor :: nat

record TuiKey =
  tk_name :: rstr
  tk_ch :: "rstr option"
  tk_ctrl :: bool
  tk_alt :: bool
  tk_shift :: bool

definition new_field :: "rstr \<Rightarrow> TextFieldState" where
  "new_field s = \<lparr>tf_text = s, tf_cursor = length s\<rparr>"

definition is_word_char :: "(rchar \<Rightarrow> bool) \<Rightarrow> rchar \<Rightarrow> bool" where
  "is_word_char alnum c \<longleftrightarrow> alnum c \<or> c = 95"

text \<open>The two loops of \<open>prev_word_boundary\<close> count back from a position over what they skip.\<close>

fun skip_back :: "(rchar \<Rightarrow> bool) \<Rightarrow> rstr \<Rightarrow> nat \<Rightarrow> nat" where
  "skip_back p s 0 = 0"
| "skip_back p s (Suc i) = (if p (s ! i) then skip_back p s i else Suc i)"

definition prev_word_boundary :: "(rchar \<Rightarrow> bool) \<Rightarrow> rstr \<Rightarrow> nat \<Rightarrow> nat" where
  "prev_word_boundary alnum s pos =
     skip_back (is_word_char alnum) s (skip_back (\<lambda>c. \<not> is_word_char alnum c) s (min pos (length s)))"

definition skip_forward :: "(rchar \<Rightarrow> bool) \<Rightarrow> rstr \<Rightarrow> nat \<Rightarrow> nat" where
  "skip_forward p s i = i + length (takeWhile p (drop i s))"

definition next_word_boundary :: "(rchar \<Rightarrow> bool) \<Rightarrow> rstr \<Rightarrow> nat \<Rightarrow> nat" where
  "next_word_boundary alnum s pos =
     skip_forward (is_word_char alnum) s (skip_forward (\<lambda>c. \<not> is_word_char alnum c) s (min pos (length s)))"

definition apply_text_key :: "(rchar \<Rightarrow> bool) \<Rightarrow> TuiKey \<Rightarrow> TextFieldState \<Rightarrow> TextFieldState option" where
  "apply_text_key alnum key state =
     (let chars = tf_text state; len = length chars; cursor = min (tf_cursor state) len; name = tk_name key;
          at_cursor = (\<lambda>c. Some (state\<lparr>tf_cursor := c\<rparr>));
          field = (\<lambda>cs c. Some \<lparr>tf_text = cs, tf_cursor = c\<rparr>)
      in
      if name = ustr ''backspace'' then
        (if cursor = 0 then Some state
         else field (take (cursor - 1) chars @ drop cursor chars) (cursor - 1))
      else if name = ustr ''delete'' then
        (if cursor \<ge> len then Some state else field (take cursor chars @ drop (cursor + 1) chars) cursor)
      else if name = ustr ''left'' then
        (if tk_alt key then at_cursor (prev_word_boundary alnum chars cursor)
         else if cursor = 0 then Some state else at_cursor (cursor - 1))
      else if name = ustr ''right'' then
        (if tk_alt key then at_cursor (next_word_boundary alnum chars cursor)
         else if cursor \<ge> len then Some state else at_cursor (cursor + 1))
      else if tk_alt key \<and> tk_ch key = Some (ustr ''b'') then at_cursor (prev_word_boundary alnum chars cursor)
      else if tk_alt key \<and> tk_ch key = Some (ustr ''f'') then at_cursor (next_word_boundary alnum chars cursor)
      else if name = ustr ''home'' \<or> name = ustr ''a'' \<and> tk_ctrl key then at_cursor 0
      else if name = ustr ''end'' \<or> name = ustr ''e'' \<and> tk_ctrl key then at_cursor len
      else if name = ustr ''u'' \<and> tk_ctrl key then field (drop cursor chars) 0
      else if name = ustr ''w'' \<and> tk_ctrl key then
        (let start = prev_word_boundary alnum chars cursor
         in field (take start chars @ drop cursor chars) start)
      else if name = ustr ''k'' \<and> tk_ctrl key then field (take cursor chars) cursor
      else (case tk_ch key of
              Some ch \<Rightarrow>
                if ch \<noteq> [] \<and> \<not> tk_ctrl key \<and> \<not> tk_alt key
                then field (take cursor chars @ ch @ drop cursor chars) (cursor + length ch)
                else None
            | None \<Rightarrow> None))"

definition render_field_text :: "rstr \<Rightarrow> nat \<Rightarrow> bool \<Rightarrow> rstr" where
  "render_field_text s cursor active =
     (if \<not> active then s
      else let c = min cursor (length s) in take c s @ [9608] @ drop c s)"

definition render_field_spans :: "rstr \<Rightarrow> nat \<Rightarrow> bool \<Rightarrow> rstr list" where
  "render_field_spans s cursor active =
     (if \<not> active then [s]
      else let c = min cursor (length s)
           in [take c s, if c < length s then [s ! c] else [32], drop (min (c + 1) (length s)) s])"

section \<open>Two halves of a line\<close>

text \<open>
  The specification: a line is the text before the cursor and the text after it, and every key is an
  operation on the two lists, without positions.
\<close>

definition word_left :: "(rchar \<Rightarrow> bool) \<Rightarrow> rstr \<times> rstr \<Rightarrow> rstr \<times> rstr" where
  "word_left w h =
     (let rest = rev (dropWhile w (dropWhile (\<lambda>c. \<not> w c) (rev (fst h))))
      in (rest, drop (length rest) (fst h) @ snd h))"

definition word_right :: "(rchar \<Rightarrow> bool) \<Rightarrow> rstr \<times> rstr \<Rightarrow> rstr \<times> rstr" where
  "word_right w h =
     (fst h @ takeWhile (\<lambda>c. \<not> w c) (snd h) @ takeWhile w (dropWhile (\<lambda>c. \<not> w c) (snd h)),
      dropWhile w (dropWhile (\<lambda>c. \<not> w c) (snd h)))"

definition edit_halves :: "(rchar \<Rightarrow> bool) \<Rightarrow> TuiKey \<Rightarrow> rstr \<times> rstr \<Rightarrow> (rstr \<times> rstr) option" where
  "edit_halves alnum key h =
     (let w = is_word_char alnum; name = tk_name key; b = fst h; a = snd h in
      if name = ustr ''backspace'' then Some (butlast b, a)
      else if name = ustr ''delete'' then Some (b, tl a)
      else if name = ustr ''left'' then
        Some (if tk_alt key then word_left w h else if b = [] then h else (butlast b, last b # a))
      else if name = ustr ''right'' then
        Some (if tk_alt key then word_right w h else if a = [] then h else (b @ [hd a], tl a))
      else if tk_alt key \<and> tk_ch key = Some (ustr ''b'') then Some (word_left w h)
      else if tk_alt key \<and> tk_ch key = Some (ustr ''f'') then Some (word_right w h)
      else if name = ustr ''home'' \<or> name = ustr ''a'' \<and> tk_ctrl key then Some ([], b @ a)
      else if name = ustr ''end'' \<or> name = ustr ''e'' \<and> tk_ctrl key then Some (b @ a, [])
      else if name = ustr ''u'' \<and> tk_ctrl key then Some ([], a)
      else if name = ustr ''w'' \<and> tk_ctrl key then Some (fst (word_left w h), a)
      else if name = ustr ''k'' \<and> tk_ctrl key then Some (b, [])
      else (case tk_ch key of
              Some ch \<Rightarrow> if ch \<noteq> [] \<and> \<not> tk_ctrl key \<and> \<not> tk_alt key then Some (b @ ch, a) else None
            | None \<Rightarrow> None))"

definition halves :: "TextFieldState \<Rightarrow> rstr \<times> rstr" where
  "halves f = (take (tf_cursor f) (tf_text f), drop (tf_cursor f) (tf_text f))"

definition field_ok :: "TextFieldState \<Rightarrow> bool" where
  "field_ok f \<longleftrightarrow> tf_cursor f \<le> length (tf_text f)"

section \<open>Words\<close>

lemma skip_back_dropWhile: "i \<le> length s \<Longrightarrow> skip_back p s i = length (dropWhile p (rev (take i s)))"
  by (induction p s i rule: skip_back.induct) (auto simp: take_Suc_conv_app_nth)

lemma skip_back_take: "i \<le> length s \<Longrightarrow> take (skip_back p s i) s = rev (dropWhile p (rev (take i s)))"
  by (induction p s i rule: skip_back.induct) (auto simp: take_Suc_conv_app_nth)

lemma skip_back_le: "skip_back p s i \<le> i"
  by (induction p s i rule: skip_back.induct) (auto simp: le_Suc_eq)

lemma prev_word_take:
  assumes "i \<le> length s"
  shows "take (prev_word_boundary alnum s i) s = fst (word_left (is_word_char alnum) (take i s, a))"
    and "prev_word_boundary alnum s i \<le> i"
proof -
  let ?w = "is_word_char alnum"
  define j where "j = skip_back (\<lambda>c. \<not> ?w c) s i"
  have j: "j \<le> i" "take j s = rev (dropWhile (\<lambda>c. \<not> ?w c) (rev (take i s)))"
    using skip_back_le skip_back_take [OF assms] by (simp_all add: j_def)
  have p: "prev_word_boundary alnum s i = skip_back ?w s j" using assms by (simp add: prev_word_boundary_def j_def)
  show "take (prev_word_boundary alnum s i) s = fst (word_left ?w (take i s, a))"
    using skip_back_take [of j s ?w] j assms by (simp add: p word_left_def)
  show "prev_word_boundary alnum s i \<le> i" unfolding p using skip_back_le [of ?w s j] j(1) by linarith
qed

lemma word_left_halves:
  assumes "i \<le> length s"
  shows "halves \<lparr>tf_text = s, tf_cursor = prev_word_boundary alnum s i\<rparr> = word_left (is_word_char alnum) (take i s, drop i s)"
proof -
  let ?k = "prev_word_boundary alnum s i"
  note p = prev_word_take(1) [OF assms, of alnum "drop i s"] prev_word_take(2) [OF assms, of alnum]
  then have "length (fst (word_left (is_word_char alnum) (take i s, drop i s))) = ?k"
    using assms by (metis length_take min.absorb2 order_trans)
  moreover have "drop ?k s = drop ?k (take i s) @ drop i s"
    using p(2) assms by (metis append_take_drop_id drop_append diff_is_0_eq drop0 length_take min.absorb2)
  ultimately show ?thesis using p by (simp add: halves_def word_left_def Let_def)
qed

lemma skip_forward_split:
  "i \<le> length s \<Longrightarrow> take (skip_forward p s i) s = take i s @ takeWhile p (drop i s)
     \<and> drop (skip_forward p s i) s = dropWhile p (drop i s) \<and> skip_forward p s i \<le> length s"
  using length_takeWhile_le [of p "drop i s"]
  by (auto simp: skip_forward_def take_add dropWhile_eq_drop add.commute takeWhile_eq_take [symmetric])

lemma word_right_halves:
  assumes "i \<le> length s"
  shows "halves \<lparr>tf_text = s, tf_cursor = next_word_boundary alnum s i\<rparr> = word_right (is_word_char alnum) (take i s, drop i s)"
  using skip_forward_split [OF assms, of "\<lambda>c. \<not> is_word_char alnum c"] assms
    skip_forward_split [of "skip_forward (\<lambda>c. \<not> is_word_char alnum c) s i" s "is_word_char alnum"]
  by (simp add: next_word_boundary_def halves_def word_right_def)

lemma next_word_le: "i \<le> length s \<Longrightarrow> next_word_boundary alnum s i \<le> length s"
  using skip_forward_split [of i s] skip_forward_split by (simp add: next_word_boundary_def)

section \<open>Refinement\<close>

text \<open>The positions of the field and the lists of the specification, key by key.\<close>

lemma halves_pair: "halves \<lparr>tf_text = s, tf_cursor = i\<rparr> = (take i s, drop i s)"
  by (simp add: halves_def)

lemma key_halves:
  assumes "i \<le> length s"
  shows "0 < i \<Longrightarrow> halves \<lparr>tf_text = take (i - 1) s @ drop i s, tf_cursor = i - 1\<rparr> = (butlast (take i s), drop i s)"
    and "i < length s \<Longrightarrow> halves \<lparr>tf_text = take i s @ drop (i + 1) s, tf_cursor = i\<rparr> = (take i s, tl (drop i s))"
    and "0 < i \<Longrightarrow> halves \<lparr>tf_text = s, tf_cursor = i - 1\<rparr> = (butlast (take i s), last (take i s) # drop i s)"
    and "i < length s \<Longrightarrow> halves \<lparr>tf_text = s, tf_cursor = i + 1\<rparr> = (take i s @ [hd (drop i s)], tl (drop i s))"
    and "halves \<lparr>tf_text = drop i s, tf_cursor = 0\<rparr> = ([], drop i s)"
    and "halves \<lparr>tf_text = take i s, tf_cursor = i\<rparr> = (take i s, [])"
    and "halves \<lparr>tf_text = take i s @ ch @ drop i s, tf_cursor = i + length ch\<rparr> = (take i s @ ch, drop i s)"
    and "halves \<lparr>tf_text = take (prev_word_boundary alnum s i) s @ drop i s, tf_cursor = prev_word_boundary alnum s i\<rparr>
      = (fst (word_left (is_word_char alnum) (take i s, drop i s)), drop i s)"
proof -
  have t: "drop (Suc i) s = tl (drop i s)" by (simp add: drop_Suc tl_drop)
  have b: "take (i - 1) s = butlast (take i s)" using assms by (simp add: butlast_take)
  have p: "prev_word_boundary alnum s i \<le> length s" using prev_word_take(2) [OF assms] assms by (meson order_trans)
  show "0 < i \<Longrightarrow> halves \<lparr>tf_text = take (i - 1) s @ drop i s, tf_cursor = i - 1\<rparr> = (butlast (take i s), drop i s)"
    using assms b by (simp add: halves_def min_def)
  show "i < length s \<Longrightarrow> halves \<lparr>tf_text = take i s @ drop (i + 1) s, tf_cursor = i\<rparr> = (take i s, tl (drop i s))"
    using assms t by (simp add: halves_def)
  show "0 < i \<Longrightarrow> halves \<lparr>tf_text = s, tf_cursor = i - 1\<rparr> = (butlast (take i s), last (take i s) # drop i s)"
    using assms b by (cases i) (simp_all add: halves_def take_Suc_conv_app_nth Cons_nth_drop_Suc)
  show "i < length s \<Longrightarrow> halves \<lparr>tf_text = s, tf_cursor = i + 1\<rparr> = (take i s @ [hd (drop i s)], tl (drop i s))"
    using t by (simp add: halves_def take_Suc_conv_app_nth hd_drop_conv_nth)
  show "halves \<lparr>tf_text = take (prev_word_boundary alnum s i) s @ drop i s, tf_cursor = prev_word_boundary alnum s i\<rparr>
      = (fst (word_left (is_word_char alnum) (take i s, drop i s)), drop i s)"
    unfolding prev_word_take(1) [OF assms, of alnum "drop i s", symmetric] using p by (simp add: halves_def)
qed (use assms in \<open>simp_all add: halves_def\<close>)

text \<open>
  Every editing key does to the field what the specification does to the two halves of the line,
  and is refused exactly when the specification refuses it; the cursor stays within the text.
\<close>

theorem editing_refines_halves:
  assumes "field_ok f"
  shows "map_option halves (apply_text_key alnum key f) = edit_halves alnum key (halves f)
    \<and> (\<forall>g. apply_text_key alnum key f = Some g \<longrightarrow> field_ok g)"
proof -
  obtain s i where f: "f = \<lparr>tf_text = s, tf_cursor = i\<rparr>" by (cases f)
  have i: "i \<le> length s" "min i (length s) = i" using assms by (simp_all add: f field_ok_def)
  note k = key_halves [OF i(1)] word_left_halves [OF i(1)] word_right_halves [OF i(1)]
  have fh: "halves f = (take i s, drop i s)" by (simp add: f halves_pair)
  have edge: "i = 0 \<Longrightarrow> halves f = (butlast (take i s), drop i s)" "length s \<le> i \<Longrightarrow> halves f = (take i s, tl (drop i s))"
    "take i s = [] \<longleftrightarrow> i = 0 \<or> s = []" "drop i s = [] \<longleftrightarrow> length s \<le> i" "s = [] \<Longrightarrow> i = 0"
    using i by (simp_all add: fh)
  have ends: "halves \<lparr>tf_text = s, tf_cursor = 0\<rparr> = ([], s)" "halves \<lparr>tf_text = s, tf_cursor = length s\<rparr> = (s, [])"
    by (simp_all add: halves_pair)
  have "map_option halves (apply_text_key alnum key f) = edit_halves alnum key (halves f)"
    unfolding apply_text_key_def edit_halves_def Let_def f TextFieldState.simps i(2) halves_pair fst_conv snd_conv
      if_distrib [of "map_option halves"]
    by (intro if_cong [OF refl])
      (use edge [unfolded f] k in \<open>simp_all add: ends fh [unfolded f] if_distrib [of "map_option halves"] split: option.split\<close>)
  moreover have "field_ok g" if "apply_text_key alnum key f = Some g" for g
  proof -
    have "prev_word_boundary alnum s i \<le> length s" using prev_word_take(2) [OF i(1), of alnum] i(1) by (rule order_trans)
    with that i next_word_le [OF i(1), of alnum] show ?thesis
      unfolding apply_text_key_def Let_def f TextFieldState.simps i(2)
      by (auto simp: field_ok_def split: if_splits option.splits)
  qed
  ultimately show ?thesis by blast
qed

theorem editing_refines_halves_witness:
  "apply_text_key (\<lambda>c. 97 \<le> c \<and> c \<le> 122) \<lparr>tk_name = ustr ''w'', tk_ch = None, tk_ctrl = True, tk_alt = False, tk_shift = False\<rparr>
     (new_field (ustr ''git status'')) = Some \<lparr>tf_text = ustr ''git '', tf_cursor = 4\<rparr>
   \<and> edit_halves (\<lambda>c. 97 \<le> c \<and> c \<le> 122) \<lparr>tk_name = ustr ''w'', tk_ch = None, tk_ctrl = True, tk_alt = False, tk_shift = False\<rparr>
       (halves (new_field (ustr ''git status''))) = Some (ustr ''git '', [])"
proof -
  let ?k = "\<lparr>tk_name = ustr ''w'', tk_ch = None, tk_ctrl = True, tk_alt = False, tk_shift = False\<rparr>"
  let ?a = "\<lambda>c::rchar. 97 \<le> c \<and> c \<le> 122"
  have a: "apply_text_key ?a ?k (new_field (ustr ''git status'')) = Some \<lparr>tf_text = ustr ''git '', tf_cursor = 4\<rparr>"
    by (simp add: apply_text_key_def new_field_def prev_word_boundary_def is_word_char_def ustr_def Let_def eval_nat_numeral)
  have "field_ok (new_field (ustr ''git status''))" by (simp add: field_ok_def new_field_def)
  from editing_refines_halves [OF this, of ?a ?k] a show ?thesis by (simp add: halves_def ustr_def)
qed

end
