(* ===== verification/Polling.thy ===== *)
theory Polling
  imports Main
begin

text \<open>
  Loops that ask, stop on the answer or on the clock, and sleep otherwise. Nothing in such a loop
  bounds its rounds, so it is a partial function; that it returns is a theorem about the clock.
\<close>

text \<open>\<open>ask k\<close> is the answer of the round \<open>k\<close> and \<open>clock k\<close> the time after it.\<close>

partial_function (option) poll_until ::
  "('a \<Rightarrow> bool) \<Rightarrow> nat \<Rightarrow> (nat \<Rightarrow> 'a) \<Rightarrow> (nat \<Rightarrow> nat) \<Rightarrow> nat \<Rightarrow> 'a option" where
  "poll_until stop deadline ask clock k =
     (if stop (ask k) \<or> deadline \<le> clock k then Some (ask k)
      else poll_until stop deadline ask clock (k + 1))"

text \<open>A sleep takes at least the time asked for: that is the premise on \<open>pause\<close> and \<open>clock\<close> below.\<close>

lemma poll_returns:
  assumes sleeps: "\<And>j. clock j + pause \<le> clock (Suc j)" and "deadline \<le> clock k + m * pause"
  shows "\<exists>n. k \<le> n \<and> n \<le> k + m \<and> poll_until stop deadline ask clock k = Some (ask n)
    \<and> (stop (ask n) \<or> deadline \<le> clock n)
    \<and> (\<forall>j. k \<le> j \<and> j < n \<longrightarrow> \<not> stop (ask j) \<and> clock j < deadline)"
  using assms(2)
proof (induction m arbitrary: k)
  case 0
  then show ?case by (intro exI [of _ k]) (auto simp: poll_until.simps)
next
  case (Suc m)
  show ?case
  proof (cases "stop (ask k) \<or> deadline \<le> clock k")
    case True
    then show ?thesis by (intro exI [of _ k]) (auto simp: poll_until.simps)
  next
    case False
    have "deadline \<le> clock (Suc k) + m * pause" using Suc.prems sleeps [of k] by simp
    from Suc.IH [OF this] obtain n where n: "Suc k \<le> n" "n \<le> Suc k + m"
        "poll_until stop deadline ask clock (Suc k) = Some (ask n)"
        "stop (ask n) \<or> deadline \<le> clock n"
        "\<forall>j. Suc k \<le> j \<and> j < n \<longrightarrow> \<not> stop (ask j) \<and> clock j < deadline"
      by blast
    have "\<forall>j. k \<le> j \<and> j < n \<longrightarrow> \<not> stop (ask j) \<and> clock j < deadline"
      using n(5) False by (metis Suc_leI le_neq_implies_less not_le)
    moreover have "poll_until stop deadline ask clock k = Some (ask n)"
      using n(3) False by (subst poll_until.simps) simp
    ultimately show ?thesis using n(1,2,4) by (intro exI [of _ n]) auto
  qed
qed

lemma poll_ends:
  assumes sleeps: "\<And>j. clock j + pause \<le> clock (Suc j)" and "0 < pause" and "started \<le> clock 0"
  shows "\<exists>n. n \<le> (cap + pause - 1) div pause
    \<and> poll_until stop (started + cap) ask clock 0 = Some (ask n)
    \<and> (stop (ask n) \<or> started + cap \<le> clock n)
    \<and> (\<forall>j<n. \<not> stop (ask j))"
proof -
  let ?m = "(cap + pause - 1) div pause"
  have "cap + pause - 1 < (?m + 1) * pause" using assms(2) by (metis Suc_eq_plus1 dividend_less_div_times add.commute mult.commute mult_Suc_right)
  then have "cap \<le> ?m * pause" by simp
  then have "started + cap \<le> clock 0 + ?m * pause" using assms(3) by simp
  from poll_returns [OF sleeps this, of stop ask] show ?thesis by auto
qed

end
