(* ===== verification/Operation_Lock.thy ===== *)
theory Operation_Lock
  imports Transitions Polling
begin

text \<open>
  The lock files of the launch operations (\<open>LockFile\<close> and \<open>OperationLock\<close> of
  \<^verbatim>\<open>crates/pty-core/src/operation/record.rs\<close>). A record lock belongs to the process, and closing any
  descriptor of a file drops every lock the process holds on it. \<open>lock_world\<close> is what the process has:
  the list \<open>OPEN\<close>, its live \<open>LockFile\<close> values, the descriptors it leaked on purpose, and the locks the
  kernel holds for it. The mutex around \<open>OPEN\<close> makes an open and a close one step each.
\<close>

type_synonym FileKey = "nat \<times> nat"

record lock_world =
  lw_open :: "FileKey list"
  lw_files :: "(nat \<times> FileKey) list"
  lw_leaked :: "FileKey list"
  lw_locks :: "(FileKey \<times> nat) list"
  lw_next :: nat

text \<open>
  A lock remembers the \<open>LockFile\<close> it was taken through; the kernel does not, it drops them by the file.
  The outcome of the \<open>open(2)\<close> and of the \<open>fstat(2)\<close> after it:
\<close>

datatype open_outcome = OpenFails | OpenUnknown FileKey | OpenKey FileKey

datatype lock_error = HeldByThisProcess | LockIo

text \<open>\<open>LockFile::open\<close>: \<open>poisoned\<close> is the mutex, \<open>before\<close> what the path named just before the open.\<close>

definition open_lock_file ::
  "bool \<Rightarrow> FileKey option \<Rightarrow> open_outcome \<Rightarrow> lock_world \<Rightarrow> (lock_error + nat) \<times> lock_world" where
  "open_lock_file poisoned before outcome w =
     (if poisoned then (Inl HeldByThisProcess, w)
      else if (case before of Some k \<Rightarrow> k \<in> set (lw_open w) | None \<Rightarrow> False) then (Inl HeldByThisProcess, w)
      else
        (case outcome of
           OpenFails \<Rightarrow> (Inl LockIo, w)
         | OpenUnknown k \<Rightarrow> (Inl LockIo, w\<lparr>lw_leaked := k # lw_leaked w\<rparr>)
         | OpenKey k \<Rightarrow>
             if k \<in> set (lw_open w) then (Inl HeldByThisProcess, w\<lparr>lw_leaked := k # lw_leaked w\<rparr>)
             else (Inr (lw_next w),
                   w\<lparr>lw_open := lw_open w @ [k], lw_files := (lw_next w, k) # lw_files w, lw_next := lw_next w + 1\<rparr>)))"

text \<open>The close of a descriptor, as the kernel does it, and \<open>Drop for LockFile\<close>.\<close>

definition close_descriptor :: "FileKey \<Rightarrow> lock_world \<Rightarrow> lock_world" where
  "close_descriptor k w = w\<lparr>lw_locks := filter (\<lambda>(k', h). k' \<noteq> k) (lw_locks w)\<rparr>"

definition drop_lock_file :: "nat \<Rightarrow> lock_world \<Rightarrow> lock_world" where
  "drop_lock_file h w =
     (case map_of (lw_files w) h of
        None \<Rightarrow> w
      | Some k \<Rightarrow>
          (let w1 = close_descriptor k w in
           w1\<lparr>lw_open := filter (\<lambda>k'. k' \<noteq> k) (lw_open w1), lw_files := filter (\<lambda>(h', k'). h' \<noteq> h) (lw_files w1)\<rparr>))"

text \<open>The answers of \<open>fcntl(F_SETLK)\<close>, and \<open>try_lock\<close>, which asks again after an interruption.\<close>

datatype fcntl_answer = Granted | Interrupted | Conflict | FcntlFails

fun try_lock :: "fcntl_answer list \<Rightarrow> (lock_error + bool) option" where
  "try_lock [] = None"
| "try_lock (Granted # as) = Some (Inr True)"
| "try_lock (Interrupted # as) = try_lock as"
| "try_lock (Conflict # as) = Some (Inr False)"
| "try_lock (FcntlFails # as) = Some (Inl LockIo)"

definition grant :: "nat \<Rightarrow> lock_world \<Rightarrow> lock_world" where
  "grant h w =
     (case map_of (lw_files w) h of None \<Rightarrow> w | Some k \<Rightarrow> w\<lparr>lw_locks := (k, h) # lw_locks w\<rparr>)"

text \<open>
  \<open>OperationLock::exclusive\<close> after the open: \<open>attempt k\<close> is what \<open>try_lock\<close> gives in the round \<open>k\<close>. The file
  is kept with the lock, and dropped on every other way out.
\<close>

definition EXCLUSIVE_POLL :: nat where "EXCLUSIVE_POLL = 5"

definition exclusive ::
  "nat \<Rightarrow> nat \<Rightarrow> (nat \<Rightarrow> lock_error + bool) \<Rightarrow> (nat \<Rightarrow> nat) \<Rightarrow> nat \<Rightarrow> lock_world \<Rightarrow> ((lock_error + nat option) \<times> lock_world) option" where
  "exclusive wait started attempt clock h w =
     map_option (\<lambda>a.
       case a of
         Inl e \<Rightarrow> (Inl e, drop_lock_file h w)
       | Inr True \<Rightarrow> (Inr (Some h), grant h w)
       | Inr False \<Rightarrow> (Inr None, drop_lock_file h w))
       (poll_until (\<lambda>a. a \<noteq> Inr False) (started + wait) attempt clock 0)"

definition shared_now :: "(lock_error + bool) \<Rightarrow> nat \<Rightarrow> lock_world \<Rightarrow> (lock_error + nat option) \<times> lock_world" where
  "shared_now attempt h w =
     (case attempt of
        Inl e \<Rightarrow> (Inl e, drop_lock_file h w)
      | Inr True \<Rightarrow> (Inr (Some h), grant h w)
      | Inr False \<Rightarrow> (Inr None, drop_lock_file h w))"

text \<open>\<open>OperationLock::holder\<close> opens, asks and drops; \<open>answer\<close> is the pid that \<open>F_GETLK\<close> names.\<close>

definition holder ::
  "bool \<Rightarrow> FileKey option \<Rightarrow> open_outcome \<Rightarrow> int option \<Rightarrow> lock_world \<Rightarrow> int option \<times> lock_world" where
  "holder poisoned before outcome answer w =
     (case open_lock_file poisoned before outcome w of
        (Inl e, w1) \<Rightarrow> (None, w1)
      | (Inr h, w1) \<Rightarrow> (answer, drop_lock_file h w1))"

section \<open>The rule of one descriptor\<close>

text \<open>What threads of the process do, one at a time: an open, a grant to a live file, a drop.\<close>

inductive lock_step :: "lock_world \<Rightarrow> lock_world \<Rightarrow> bool" where
  step_open: "lock_step w (snd (open_lock_file poisoned before outcome w))"
| step_grant: "lock_step w (grant h w)"
| step_drop: "lock_step w (drop_lock_file h w)"

definition lock_init :: "lock_world \<Rightarrow> bool" where
  "lock_init w \<longleftrightarrow> w = \<lparr>lw_open = [], lw_files = [], lw_leaked = [], lw_locks = [], lw_next = 0\<rparr>"

definition lock_inv :: "lock_world \<Rightarrow> bool" where
  "lock_inv w \<longleftrightarrow>
     distinct (lw_open w) \<and> distinct (map fst (lw_files w)) \<and> distinct (map snd (lw_files w))
     \<and> set (map snd (lw_files w)) = set (lw_open w)
     \<and> (\<forall>(h, k) \<in> set (lw_files w). h < lw_next w)
     \<and> (\<forall>(k, h) \<in> set (lw_locks w). (h, k) \<in> set (lw_files w))"

lemma lock_inv_open: "lock_inv w \<Longrightarrow> lock_inv (snd (open_lock_file poisoned before outcome w))"
  by (cases outcome) (auto simp: lock_inv_def open_lock_file_def split: option.splits)

lemma lock_inv_grant: "lock_inv w \<Longrightarrow> lock_inv (grant h w)"
  by (auto simp: lock_inv_def grant_def split: option.splits dest: map_of_SomeD)

lemma drop_files:
  assumes "lock_inv w" and "map_of (lw_files w) h = Some k"
  shows "set (filter (\<lambda>(h', k'). h' \<noteq> h) (lw_files w)) = {(h', k') \<in> set (lw_files w). k' \<noteq> k}"
proof -
  have m: "(h, k) \<in> set (lw_files w)" using assms(2) by (rule map_of_SomeD)
  have "h' = h \<longleftrightarrow> k' = k" if "(h', k') \<in> set (lw_files w)" for h' k'
    using that m assms(1) unfolding lock_inv_def
    by (metis (no_types, lifting) eq_key_imp_eq_value inj_on_contraD distinct_map prod.inject snd_conv)
  then show ?thesis by auto
qed

lemma lock_inv_drop: "lock_inv w \<Longrightarrow> lock_inv (drop_lock_file h w)"
proof (cases "map_of (lw_files w) h")
  case (Some k)
  assume i: "lock_inv w"
  note fs = drop_files [OF i Some]
  have "distinct (map f (filter P xs))" if "distinct (map f xs)" for f :: "nat \<times> FileKey \<Rightarrow> 'a" and P xs
    using that by (auto simp: distinct_map intro: inj_on_subset)
  then have d: "distinct (map fst (filter (\<lambda>(h', k'). h' \<noteq> h) (lw_files w)))"
      "distinct (map snd (filter (\<lambda>(h', k'). h' \<noteq> h) (lw_files w)))"
    using i by (auto simp: lock_inv_def distinct_map intro: inj_on_subset)
  have "set (map snd (lw_files w)) = set (lw_open w)" using i by (simp add: lock_inv_def)
  then have o: "snd ` {(h', k') \<in> set (lw_files w). k' \<noteq> k} = set (lw_open w) - {k}" by (force simp: image_iff)
  have f: "lw_files (drop_lock_file h w) = filter (\<lambda>(h', k'). h' \<noteq> h) (lw_files w)"
      "lw_open (drop_lock_file h w) = filter (\<lambda>k'. k' \<noteq> k) (lw_open w)"
      "lw_locks (drop_lock_file h w) = filter (\<lambda>(k', h). k' \<noteq> k) (lw_locks w)"
      "lw_next (drop_lock_file h w) = lw_next w"
    by (simp_all add: drop_lock_file_def Some Let_def close_descriptor_def)
  show ?thesis
    unfolding lock_inv_def f list.set_map fs o using i d by (auto simp: lock_inv_def)
qed (simp add: drop_lock_file_def)

interpretation lock_files: invariant_system lock_init lock_step lock_inv
proof
  show "lock_init s \<Longrightarrow> lock_inv s" for s by (simp add: lock_init_def lock_inv_def)
  show "lock_inv s \<Longrightarrow> lock_step s t \<Longrightarrow> lock_inv t" for s t
    by (erule lock_step.cases) (auto intro: lock_inv_open lock_inv_grant lock_inv_drop)
qed

text \<open>
  C33. A lock survives everything but its own end. Whatever the threads of the process do with lock
  files (opens that succeed, fail or are refused, queries of the holder, grants and closes), a lock
  that was taken through one \<open>LockFile\<close> is still held after each step, unless the step is the drop of
  that very file; although the kernel drops locks by file, no other close can reach it.
\<close>

theorem held_lock_survives:
  assumes "reachable lock_init lock_step w" and "(k, h) \<in> set (lw_locks w)" and "lock_step w w'"
  shows "(k, h) \<in> set (lw_locks w') \<or> w' = drop_lock_file h w"
  using assms(3)
proof cases
  case (step_open poisoned before outcome)
  then show ?thesis using assms(2) by (cases outcome) (auto simp: open_lock_file_def split: option.splits)
next
  case (step_grant h')
  then show ?thesis using assms(2) by (auto simp: grant_def split: option.splits)
next
  case (step_drop h')
  from assms(1) have i: "lock_inv w" by (rule lock_files.inv_reachable)
  then have hk: "(h, k) \<in> set (lw_files w)" using assms(2) by (auto simp: lock_inv_def)
  show ?thesis
  proof (cases "map_of (lw_files w) h'")
    case None
    then show ?thesis using assms(2) step_drop by (simp add: drop_lock_file_def)
  next
    case (Some k')
    show ?thesis
    proof (cases "h' = h")
      case False
      with hk have "(h, k) \<in> set (filter (\<lambda>(x, y). x \<noteq> h') (lw_files w))" by auto
      then have "k \<noteq> k'" unfolding drop_files [OF i Some] by auto
      with assms(2) Some show ?thesis
        by (simp add: step_drop drop_lock_file_def Let_def close_descriptor_def)
    qed (simp add: step_drop)
  qed
qed

text \<open>A process that holds a lock, and opens the file again under a name that changed under it.\<close>

definition example_locked :: lock_world where
  "example_locked = \<lparr>lw_open = [(1, 7)], lw_files = [(0, (1, 7))], lw_leaked = [], lw_locks = [((1, 7), 0)], lw_next = 1\<rparr>"

lemma example_locked_reachable: "reachable lock_init lock_step example_locked"
proof -
  let ?w0 = "\<lparr>lw_open = [], lw_files = [], lw_leaked = [], lw_locks = [], lw_next = 0\<rparr>"
  have "reachable lock_init lock_step ?w0" by (rule reachable_init) (simp add: lock_init_def)
  then have "reachable lock_init lock_step (snd (open_lock_file False None (OpenKey (1, 7)) ?w0))"
    by (rule reachable_step) (rule step_open)
  then have "reachable lock_init lock_step (grant 0 (snd (open_lock_file False None (OpenKey (1, 7)) ?w0)))"
    by (rule reachable_step) (rule step_grant)
  then show ?thesis by (simp add: open_lock_file_def grant_def example_locked_def)
qed

theorem held_lock_survives_witness:
  "((1, 7), 0) \<in> set (lw_locks (snd (open_lock_file False (Some (1, 8)) (OpenKey (1, 7)) example_locked)))
   \<and> lw_leaked (snd (open_lock_file False (Some (1, 8)) (OpenKey (1, 7)) example_locked)) = [(1, 7)]"
proof -
  let ?w = "snd (open_lock_file False (Some (1, 8)) (OpenKey (1, 7)) example_locked)"
  have s: "lock_step example_locked ?w" by (rule step_open)
  have l: "lw_leaked ?w = [(1, 7)]" by (simp add: example_locked_def open_lock_file_def)
  have d: "?w \<noteq> drop_lock_file 0 example_locked"
    using l by (auto simp: example_locked_def drop_lock_file_def close_descriptor_def)
  have h: "((1, 7), 0) \<in> set (lw_locks example_locked)" by (simp add: example_locked_def)
  from held_lock_survives [OF example_locked_reachable h s] d l show ?thesis by blast
qed

text \<open>Taking the write lock returns: after the wait at the latest, and the file is kept only with the lock.\<close>

theorem exclusive_returns:
  assumes "\<And>k. clock k + EXCLUSIVE_POLL \<le> clock (Suc k)" and "started \<le> clock 0"
  shows "\<exists>result w'. exclusive wait started attempt clock h w = Some (result, w')
    \<and> (result = Inr (Some h) \<and> w' = grant h w \<or> \<not> (\<exists>g. result = Inr (Some g)) \<and> w' = drop_lock_file h w)"
proof -
  from poll_ends [OF assms(1) _ assms(2), of wait "\<lambda>a. a \<noteq> Inr False" attempt]
  obtain n where "poll_until (\<lambda>a. a \<noteq> Inr False) (started + wait) attempt clock 0 = Some (attempt n)"
    by (auto simp: EXCLUSIVE_POLL_def)
  then show ?thesis
    by (cases "attempt n") (auto simp: exclusive_def split: bool.splits)
qed

end
