(* ===== verification/Operation_Envelope.thy ===== *)
theory Operation_Envelope
  imports Utf8 Names Json_Values
begin

text \<open>
  The envelope of a launch operation (\<^verbatim>\<open>crates/pty-core/src/operation/envelope.rs\<close>): the owner's
  declaration, one line of JSON that is validated and hashed byte for byte. JSON is read strictly: a
  key that appears twice in one object is refused, at any depth.

  The JSON reader and SHA-256 are libraries. The reader is the argument \<open>read\<close>: it hands over the
  value in document order, up to the place where the text stops being JSON, and whether the text
  ends after the value. The hash is the argument \<open>sha\<close>.
\<close>

section \<open>Strict JSON\<close>

text \<open>
  What the visitor is handed. An array or object says whether its closing bracket was reached;
  \<open>RBad\<close> stands where a value should be and is none.
\<close>

datatype raw_json =
    RNull
  | RBool bool
  | RNum number
  | RStr rstr
  | RArr "raw_json list" bool
  | RObj "(rstr \<times> raw_json) list" bool
  | RBad

datatype strict_failure = Duplicate rstr | Syntax

definition child_path :: "rstr \<Rightarrow> rstr \<Rightarrow> rstr" where
  "child_path path key = (if path = [] then key else path @ ustr ''.'' @ key)"

function (sequential)
      strict :: "rstr \<Rightarrow> raw_json \<Rightarrow> strict_failure + json"
  and visit_seq :: "rstr \<Rightarrow> nat \<Rightarrow> raw_json list \<Rightarrow> strict_failure + json list"
  and visit_map :: "rstr \<Rightarrow> json imap \<Rightarrow> (rstr \<times> raw_json) list \<Rightarrow> strict_failure + json imap" where
  "strict path RNull = Inr JNull"
| "strict path (RBool b) = Inr (JBool b)"
| "strict path (RNum n) = Inr (JNumber n)"
| "strict path (RStr s) = Inr (JString s)"
| "strict path (RArr xs closed) =
     (case visit_seq path 0 xs of
        Inl e \<Rightarrow> Inl e
      | Inr vs \<Rightarrow> if closed then Inr (JArray vs) else Inl Syntax)"
| "strict path (RObj kvs closed) =
     (case visit_map path [] kvs of
        Inl e \<Rightarrow> Inl e
      | Inr object \<Rightarrow> if closed then Inr (JObject object) else Inl Syntax)"
| "strict path RBad = Inl Syntax"
| "visit_seq path index [] = Inr []"
| "visit_seq path index (x # xs) =
     (case strict (child_path path (dec index)) x of
        Inl e \<Rightarrow> Inl e
      | Inr v \<Rightarrow>
          (case visit_seq path (index + 1) xs of Inl e \<Rightarrow> Inl e | Inr vs \<Rightarrow> Inr (v # vs)))"
| "visit_map path object [] = Inr object"
| "visit_map path object ((key, x) # kvs) =
     (if contains_key object key then Inl (Duplicate (child_path path key))
      else
        (case strict (child_path path key) x of
           Inl e \<Rightarrow> Inl e
         | Inr v \<Rightarrow> visit_map path (imap_insert key v object) kvs))"
  by pat_completeness auto
termination
  by (relation "measure (case_sum (\<lambda>(p, x). size x)
        (case_sum (\<lambda>(p, i, xs). size_list size xs)
           (\<lambda>(p, ob, kvs). size_list (size_prod (\<lambda>_. 0) size) kvs)))") auto

record EnvelopeError =
  ee_path :: rstr
  ee_reason :: rstr

definition envelope_error :: "rstr \<Rightarrow> rstr \<Rightarrow> EnvelopeError" where
  "envelope_error p r = \<lparr>ee_path = p, ee_reason = r\<rparr>"

text \<open>The path travels inside the reader's error message, up to a zero character.\<close>

fun strict_error :: "strict_failure \<Rightarrow> EnvelopeError" where
  "strict_error (Duplicate p) = envelope_error (takeWhile (\<lambda>c. c \<noteq> 0) p) (ustr ''duplicate-key'')"
| "strict_error Syntax = envelope_error [] (ustr ''malformed-json'')"

type_synonym json_reader = "rstr \<Rightarrow> raw_json \<times> bool"

definition parse_strict_json :: "json_reader \<Rightarrow> rstr \<Rightarrow> EnvelopeError + json" where
  "parse_strict_json read text' =
     (case read text' of
        (raw, ended) \<Rightarrow>
          (case strict [] raw of
             Inl e \<Rightarrow> Inl (strict_error e)
           | Inr v \<Rightarrow> if ended then Inr v else Inl (strict_error Syntax)))"

section \<open>The envelope\<close>

definition ENVELOPE_MAX_BYTES :: nat where
  "ENVELOPE_MAX_BYTES = 32 * 1024"

definition STRING_MAX_BYTES :: nat where
  "STRING_MAX_BYTES = 256"

definition BINDING_STRING_MAX_BYTES :: nat where
  "BINDING_STRING_MAX_BYTES = 1024"

definition BINDINGS_MAX :: nat where
  "BINDINGS_MAX = 64"

lemmas envelope_consts [const_defs] = ENVELOPE_MAX_BYTES_def STRING_MAX_BYTES_def
  BINDING_STRING_MAX_BYTES_def BINDINGS_MAX_def

definition FIELDS :: "rstr list" where
  "FIELDS = map ustr [''type'', ''version'', ''operationId'', ''owner'', ''origin'', ''subject'',
     ''runtimeId'', ''expectedIncarnation'', ''bindings'']"

record Envelope =
  en_line :: bytes
  en_sha256 :: rstr
  en_value :: json
  en_operation_id :: rstr
  en_owner :: rstr
  en_origin :: rstr
  en_subject :: rstr
  en_runtime_id :: rstr
  en_expected_incarnation :: "rstr option"

text \<open>\<open>format!("{byte:02x}")\<close>.\<close>

definition hex_digit :: "nat \<Rightarrow> rchar" where
  "hex_digit n = (if n < 10 then 48 + n else 87 + n)"

definition sha256_hex :: "(bytes \<Rightarrow> bytes) \<Rightarrow> bytes \<Rightarrow> rstr" where
  "sha256_hex sha bs = concat (map (\<lambda>b. [hex_digit (unat b div 16), hex_digit (unat b mod 16)]) (sha bs))"

definition operation_digest :: "(bytes \<Rightarrow> bytes) \<Rightarrow> rstr \<Rightarrow> rstr" where
  "operation_digest sha ident = sha256_hex sha (as_bytes ident)"

definition envelope_digest :: "(bytes \<Rightarrow> bytes) \<Rightarrow> Envelope \<Rightarrow> rstr" where
  "envelope_digest sha e = operation_digest sha (en_operation_id e)"

definition is_digest :: "rstr \<Rightarrow> bool" where
  "is_digest s \<longleftrightarrow> utf8_len s = 64
     \<and> list_all (\<lambda>b. 48 \<le> b \<and> b \<le> 57 \<or> 97 \<le> b \<and> b \<le> (102 :: u8)) (as_bytes s)"

definition identifying_string :: "json \<Rightarrow> rstr + rstr" where
  "identifying_string v =
     (case v of
        JString s \<Rightarrow>
          if s = [] then Inl (ustr ''empty'')
          else if utf8_len s > STRING_MAX_BYTES then Inl (ustr ''too-long'')
          else if list_ex (\<lambda>c. c < 32 \<or> c = 127) s then Inl (ustr ''control-character'')
          else Inr s
      | _ \<Rightarrow> Inl (ustr ''not-string''))"

text \<open>\<open>str::split_once\<close> on a character.\<close>

definition split_once_char :: "rchar \<Rightarrow> rstr \<Rightarrow> (rstr \<times> rstr) option" where
  "split_once_char sep s =
     (if sep \<in> set s
      then Some (takeWhile (\<lambda>c. c \<noteq> sep) s, drop (length (takeWhile (\<lambda>c. c \<noteq> sep) s) + 1) s) else None)"

definition is_incarnation_id :: "rstr \<Rightarrow> bool" where
  "is_incarnation_id s \<longleftrightarrow>
     (case split_once_char 58 s of
        None \<Rightarrow> False
      | Some (p, created_at) \<Rightarrow> p \<noteq> [] \<and> list_all digit_char p \<and> created_at \<noteq> [])"

definition ascii_alphabetic :: "rchar \<Rightarrow> bool" where
  "ascii_alphabetic c \<longleftrightarrow> 65 \<le> c \<and> c \<le> 90 \<or> 97 \<le> c \<and> c \<le> 122"

text \<open>The bytes of a key are ASCII exactly when its characters are, so characters are compared.\<close>

definition is_binding_key :: "rstr \<Rightarrow> bool" where
  "is_binding_key key \<longleftrightarrow> key \<noteq> [] \<and> utf8_len key \<le> 64 \<and> ascii_alphabetic (hd key)
     \<and> list_all (\<lambda>c. ascii_alphabetic c \<or> digit_char c \<or> c = 95 \<or> c = 46 \<or> c = 45) (tl key)"

definition is_u64 :: "json \<Rightarrow> bool" where
  "is_u64 v \<longleftrightarrow> (case v of JNumber (PosInt n) \<Rightarrow> True | _ \<Rightarrow> False)"

definition value_as_u64 :: "json \<Rightarrow> u64 option" where
  "value_as_u64 v = (case v of JNumber (PosInt n) \<Rightarrow> Some n | _ \<Rightarrow> None)"

definition validate_binding :: "rstr \<Rightarrow> json \<Rightarrow> EnvelopeError option" where
  "validate_binding key v =
     (let p = ustr ''bindings.'' @ key in
      if \<not> is_binding_key key then Some (envelope_error p (ustr ''invalid-key''))
      else
        (case v of
           JNull \<Rightarrow> None
         | JString s \<Rightarrow>
             if utf8_len s \<le> BINDING_STRING_MAX_BYTES then None
             else Some (envelope_error p (ustr ''too-long''))
         | JNumber n \<Rightarrow> if is_u64 v then None else Some (envelope_error p (ustr ''unsupported-value''))
         | _ \<Rightarrow> Some (envelope_error p (ustr ''unsupported-value''))))"

fun binding_loop :: "(rstr \<times> json) list \<Rightarrow> EnvelopeError + unit" where
  "binding_loop [] = Inr ()"
| "binding_loop ((key, v) # rest) =
     (case validate_binding key v of Some e \<Rightarrow> Inl e | None \<Rightarrow> binding_loop rest)"

definition validate_bindings :: "json \<Rightarrow> EnvelopeError + unit" where
  "validate_bindings v =
     (case v of
        JObject bindings \<Rightarrow>
          if length bindings > BINDINGS_MAX then Inl (envelope_error (ustr ''bindings'') (ustr ''too-many''))
          else binding_loop bindings
      | _ \<Rightarrow> Inl (envelope_error (ustr ''bindings'') (ustr ''not-object'')))"

text \<open>The \<open>?\<close> of the source.\<close>

definition and_then :: "'e + 'a \<Rightarrow> ('a \<Rightarrow> 'e + 'b) \<Rightarrow> 'e + 'b" where
  "and_then r f = (case r of Inl e \<Rightarrow> Inl e | Inr v \<Rightarrow> f v)"

definition field_string :: "json imap \<Rightarrow> rstr \<Rightarrow> EnvelopeError + rstr" where
  "field_string ob field =
     (case identifying_string (the (imap_get ob field)) of
        Inl r \<Rightarrow> Inl (envelope_error field r)
      | Inr s \<Rightarrow> Inr s)"

definition field_incarnation :: "json \<Rightarrow> EnvelopeError + rstr option" where
  "field_incarnation v =
     (let field = ustr ''expectedIncarnation'' in
      if v = JNull then Inr None
      else
        (case identifying_string v of
           Inl r \<Rightarrow> Inl (envelope_error field r)
         | Inr s \<Rightarrow>
             if \<not> is_incarnation_id s then Inl (envelope_error field (ustr ''not-pid-colon-created-at''))
             else Inr (Some s)))"

definition check_fields :: "json imap \<Rightarrow> EnvelopeError + unit" where
  "check_fields ob =
     (case find (\<lambda>key. key \<notin> set FIELDS) (map fst ob) of
        Some key \<Rightarrow> Inl (envelope_error key (ustr ''unknown-field''))
      | None \<Rightarrow>
          (case find (\<lambda>field. \<not> contains_key ob field) FIELDS of
             Some field \<Rightarrow> Inl (envelope_error field (ustr ''missing''))
           | None \<Rightarrow>
               if imap_get ob (ustr ''type'') \<noteq> Some (JString (ustr ''envelope''))
               then Inl (envelope_error (ustr ''type'') (ustr ''must-be-envelope''))
               else if Option.bind (imap_get ob (ustr ''version'')) value_as_u64 \<noteq> Some 1
                 \<or> \<not> (case imap_get ob (ustr ''version'') of Some v \<Rightarrow> is_u64 v | None \<Rightarrow> False)
               then Inl (envelope_error (ustr ''version'') (ustr ''unsupported''))
               else Inr ()))"

definition parse_envelope :: "json_reader \<Rightarrow> (bytes \<Rightarrow> bytes) \<Rightarrow> bytes \<Rightarrow> EnvelopeError + Envelope" where
  "parse_envelope read sha l =
     (if length l > ENVELOPE_MAX_BYTES then Inl (envelope_error [] (ustr ''too-large''))
      else
        (case from_utf8 l of
           None \<Rightarrow> Inl (envelope_error [] (ustr ''not-utf8''))
         | Some text' \<Rightarrow>
             and_then (parse_strict_json read text') (\<lambda>v.
               (case v of
                  JObject ob \<Rightarrow>
                    and_then (check_fields ob) (\<lambda>_.
                    and_then (field_string ob (ustr ''operationId'')) (\<lambda>oid.
                    and_then (field_string ob (ustr ''owner'')) (\<lambda>own.
                    and_then (field_string ob (ustr ''origin'')) (\<lambda>ori.
                    and_then (field_string ob (ustr ''subject'')) (\<lambda>sub.
                    and_then (field_string ob (ustr ''runtimeId'')) (\<lambda>rid.
                    and_then (field_incarnation (the (imap_get ob (ustr ''expectedIncarnation'')))) (\<lambda>inc.
                    and_then (validate_bindings (the (imap_get ob (ustr ''bindings'')))) (\<lambda>_.
                      Inr \<lparr>en_line = l, en_sha256 = sha256_hex sha l, en_value = v, en_operation_id = oid,
                           en_owner = own, en_origin = ori, en_subject = sub, en_runtime_id = rid,
                           en_expected_incarnation = inc\<rparr>))))))))
                | _ \<Rightarrow> Inl (envelope_error [] (ustr ''not-object''))))))"

section \<open>What strict reading accepts\<close>

text \<open>The tree without marks, and the trees that are complete and repeat no key in any object.\<close>

fun plain :: "raw_json \<Rightarrow> json" where
  "plain RNull = JNull"
| "plain (RBool b) = JBool b"
| "plain (RNum n) = JNumber n"
| "plain (RStr s) = JString s"
| "plain (RArr xs closed) = JArray (map plain xs)"
| "plain (RObj kvs closed) = JObject (map (\<lambda>(k, x). (k, plain x)) kvs)"
| "plain RBad = JNull"

fun raw_ok :: "raw_json \<Rightarrow> bool" where
  "raw_ok (RArr xs closed) \<longleftrightarrow> closed \<and> list_all raw_ok xs"
| "raw_ok (RObj kvs closed) \<longleftrightarrow>
     closed \<and> distinct (map fst kvs) \<and> list_all (\<lambda>(k, x). raw_ok x) kvs"
| "raw_ok RBad \<longleftrightarrow> False"
| "raw_ok _ \<longleftrightarrow> True"

lemma update_new: "key \<notin> fst ` set m \<Longrightarrow> imap_insert key v m = m @ [(key, v)]"
  by (induction m) auto

lemma contains_key_iff: "contains_key m k \<longleftrightarrow> k \<in> fst ` set m"
  by (auto simp: contains_key_def map_of_eq_None_iff)

definition new_keys :: "json imap \<Rightarrow> (rstr \<times> raw_json) list \<Rightarrow> bool" where
  "new_keys ob kvs \<longleftrightarrow> distinct (map fst kvs) \<and> fst ` set kvs \<inter> fst ` set ob = {}
     \<and> list_all (\<lambda>(k, x). raw_ok x) kvs"

lemma strict_cases:
  "if raw_ok x then strict p x = Inr (plain x) else isl (strict p x)"
  "if list_all raw_ok xs then visit_seq p i xs = Inr (map plain xs) else isl (visit_seq p i xs)"
  "if new_keys ob kvs then visit_map p ob kvs = Inr (ob @ map (\<lambda>(k, x). (k, plain x)) kvs)
   else isl (visit_map p ob kvs)"
proof (induction p x and p i xs and p ob kvs rule: strict_visit_seq_visit_map.induct)
  case (9 p i x xs)
  then show ?case by (auto split: sum.splits if_splits)
next
  case (11 p ob key x kvs)
  show ?case
  proof (cases "contains_key ob key")
    case True
    then show ?thesis by (auto simp: contains_key_iff new_keys_def)
  next
    case new: False
    show ?thesis
    proof (cases "raw_ok x")
      case True
      with 11(1) [OF new] have st: "strict (child_path p key) x = Inr (plain x)" by simp
      have up: "imap_insert key (plain x) ob = ob @ [(key, plain x)]"
        using new by (simp add: update_new contains_key_iff)
      have "new_keys ob ((key, x) # kvs) \<longleftrightarrow> new_keys (ob @ [(key, plain x)]) kvs"
        using True new by (auto simp: new_keys_def contains_key_iff)
      with 11(2) [OF new st] new st up show ?thesis by (simp split: if_splits)
    next
      case False
      with 11(1) [OF new] new show ?thesis by (auto simp: new_keys_def split: sum.splits)
    qed
  qed
qed (auto simp: new_keys_def split: sum.splits if_splits)

lemma strict_exact: "strict p x = Inr v \<longleftrightarrow> raw_ok x \<and> v = plain x"
  using strict_cases(1) [of x p] by (auto split: if_splits)

lemma parse_strict_json_exact:
  "parse_strict_json read t = Inr v \<longleftrightarrow> (\<exists>raw. read t = (raw, True) \<and> raw_ok raw \<and> v = plain raw)"
proof -
  obtain raw ended where r: "read t = (raw, ended)" by (cases "read t")
  show ?thesis
    using strict_cases(1) [of raw "[]"]
    by (cases "strict [] raw") (auto simp: parse_strict_json_def r split: if_splits)
qed

lemma raw_ok_json_wf: "raw_ok x \<Longrightarrow> json_wf (plain x)"
  by (induction x) (auto simp: list_all_iff comp_def case_prod_beta)

section \<open>What an envelope is\<close>

definition ident_ok :: "rstr \<Rightarrow> bool" where
  "ident_ok s \<longleftrightarrow> s \<noteq> [] \<and> utf8_len s \<le> STRING_MAX_BYTES \<and> \<not> list_ex (\<lambda>c. c < 32 \<or> c = 127) s"

definition binding_ok :: "rstr \<Rightarrow> json \<Rightarrow> bool" where
  "binding_ok key v \<longleftrightarrow> is_binding_key key
     \<and> (case v of
           JNull \<Rightarrow> True
         | JString s \<Rightarrow> utf8_len s \<le> BINDING_STRING_MAX_BYTES
         | JNumber (PosInt n) \<Rightarrow> True
         | _ \<Rightarrow> False)"

definition bindings_ok :: "json \<Rightarrow> bool" where
  "bindings_ok v \<longleftrightarrow>
     (case v of
        JObject bs \<Rightarrow> length bs \<le> BINDINGS_MAX \<and> list_all (\<lambda>(key, x). binding_ok key x) bs
      | _ \<Rightarrow> False)"

definition incarnation_field :: "rstr option \<Rightarrow> json" where
  "incarnation_field inc = (case inc of None \<Rightarrow> JNull | Some i \<Rightarrow> JString i)"

definition envelope_object :: "json imap \<Rightarrow> Envelope \<Rightarrow> bool" where
  "envelope_object ob e \<longleftrightarrow>
     set (map fst ob) = set FIELDS
     \<and> imap_get ob (ustr ''type'') = Some (JString (ustr ''envelope''))
     \<and> imap_get ob (ustr ''version'') = Some (JNumber (PosInt 1))
     \<and> imap_get ob (ustr ''operationId'') = Some (JString (en_operation_id e)) \<and> ident_ok (en_operation_id e)
     \<and> imap_get ob (ustr ''owner'') = Some (JString (en_owner e)) \<and> ident_ok (en_owner e)
     \<and> imap_get ob (ustr ''origin'') = Some (JString (en_origin e)) \<and> ident_ok (en_origin e)
     \<and> imap_get ob (ustr ''subject'') = Some (JString (en_subject e)) \<and> ident_ok (en_subject e)
     \<and> imap_get ob (ustr ''runtimeId'') = Some (JString (en_runtime_id e)) \<and> ident_ok (en_runtime_id e)
     \<and> imap_get ob (ustr ''expectedIncarnation'') = Some (incarnation_field (en_expected_incarnation e))
     \<and> (case en_expected_incarnation e of None \<Rightarrow> True | Some i \<Rightarrow> ident_ok i \<and> is_incarnation_id i)
     \<and> (case imap_get ob (ustr ''bindings'') of None \<Rightarrow> False | Some v \<Rightarrow> bindings_ok v)"

lemma and_then_Inr [simp]: "and_then r f = Inr v \<longleftrightarrow> (\<exists>x. r = Inr x \<and> f x = Inr v)"
  by (cases r) (simp_all add: and_then_def)

lemma identifying_string_Inr: "identifying_string v = Inr s \<longleftrightarrow> v = JString s \<and> ident_ok s"
  by (auto simp: identifying_string_def ident_ok_def not_less split: json.splits)

lemma field_string_Inr:
  "imap_get ob f = Some v \<Longrightarrow> field_string ob f = Inr s \<longleftrightarrow> v = JString s \<and> ident_ok s"
  by (auto simp: field_string_def identifying_string_Inr [symmetric] split: sum.splits)

lemma field_incarnation_Inr:
  "field_incarnation v = Inr inc \<longleftrightarrow> v = incarnation_field inc
     \<and> (case inc of None \<Rightarrow> True | Some i \<Rightarrow> ident_ok i \<and> is_incarnation_id i)"
proof (cases "identifying_string v")
  case (Inl r)
  moreover from Inl have "v \<noteq> JString i \<or> \<not> ident_ok i" for i
    using identifying_string_Inr [of v i] by auto
  ultimately show ?thesis
    by (auto simp: field_incarnation_def incarnation_field_def Let_def split: option.splits if_splits)
next
  case (Inr i)
  then have "v = JString i" "ident_ok i" by (simp_all add: identifying_string_Inr)
  with Inr show ?thesis
    by (auto simp: field_incarnation_def incarnation_field_def Let_def split: option.splits if_splits)
qed

lemma validate_binding_None: "validate_binding key v = None \<longleftrightarrow> binding_ok key v"
  by (auto simp: validate_binding_def binding_ok_def is_u64_def Let_def split: json.splits number.splits)

lemma binding_loop_Inr: "binding_loop bs = Inr u \<longleftrightarrow> list_all (\<lambda>(key, x). binding_ok key x) bs"
  by (induction bs) (auto simp: validate_binding_None [symmetric] split: option.splits)

lemma validate_bindings_Inr: "validate_bindings v = Inr u \<longleftrightarrow> bindings_ok v"
  by (auto simp: validate_bindings_def bindings_ok_def binding_loop_Inr not_less split: json.splits)

lemma version_ok:
  "Option.bind r value_as_u64 = Some 1 \<longleftrightarrow> r = Some (JNumber (PosInt 1))"
  by (cases r) (auto simp: value_as_u64_def split: json.splits number.splits)

lemma check_fields_Inr:
  "check_fields ob = Inr u \<longleftrightarrow> set (map fst ob) = set FIELDS
     \<and> imap_get ob (ustr ''type'') = Some (JString (ustr ''envelope''))
     \<and> imap_get ob (ustr ''version'') = Some (JNumber (PosInt 1))"
proof -
  have "find (\<lambda>key. key \<notin> set FIELDS) (map fst ob) = None \<longleftrightarrow> set (map fst ob) \<subseteq> set FIELDS"
    by (auto simp: find_None_iff)
  moreover have "find (\<lambda>field. \<not> contains_key ob field) FIELDS = None \<longleftrightarrow> set FIELDS \<subseteq> set (map fst ob)"
    by (auto simp: find_None_iff contains_key_iff)
  ultimately show ?thesis
    by (auto simp: check_fields_def version_ok is_u64_def simp del: set_map split: option.splits)
qed

lemma fields_present:
  assumes "set (map fst ob) = set FIELDS" and "f \<in> set FIELDS"
  shows "\<exists>v. imap_get ob f = Some v"
  using assms by (metis map_of_eq_None_iff not_None_eq set_map)

lemma parse_object_exact:
  assumes "length l \<le> ENVELOPE_MAX_BYTES" and "from_utf8 l = Some t"
    and "parse_strict_json read t = Inr (JObject ob)"
  shows "parse_envelope read sha l = Inr e \<longleftrightarrow>
    envelope_object ob e \<and> en_line e = l \<and> en_sha256 e = sha256_hex sha l \<and> en_value e = JObject ob"
    (is "?lhs \<longleftrightarrow> ?rhs")
proof (cases "set (map fst ob) = set FIELDS")
  case False
  with assms show ?thesis
    by (auto simp: parse_envelope_def check_fields_Inr envelope_object_def simp del: set_map)
next
  case True
  obtain v1 v2 v3 v4 v5 v6 v7 where v: "imap_get ob (ustr ''operationId'') = Some v1"
      "imap_get ob (ustr ''owner'') = Some v2" "imap_get ob (ustr ''origin'') = Some v3"
      "imap_get ob (ustr ''subject'') = Some v4" "imap_get ob (ustr ''runtimeId'') = Some v5"
      "imap_get ob (ustr ''expectedIncarnation'') = Some v6" "imap_get ob (ustr ''bindings'') = Some v7"
    using fields_present [OF True] by (simp add: FIELDS_def) metis
  show ?thesis
    using assms True
    by (cases e) (auto simp: parse_envelope_def check_fields_Inr envelope_object_def v field_string_Inr
        field_incarnation_Inr validate_bindings_Inr simp del: set_map)
qed

text \<open>
  C31. An envelope is accepted exactly when it is one. The line is at most 32 KiB of UTF-8, is JSON
  that is complete and repeats no key in any object, and is an object with exactly the nine fields,
  each of its type and within its limits. What is accepted carries the exact line, its hash, and the
  values of the fields; so two readers of one line cannot disagree about what was declared.
\<close>

theorem envelope_accepted_exactly:
  "parse_envelope read sha l = Inr e \<longleftrightarrow>
     length l \<le> ENVELOPE_MAX_BYTES
     \<and> (\<exists>t raw ob. from_utf8 l = Some t \<and> read t = (raw, True) \<and> raw_ok raw \<and> plain raw = JObject ob
          \<and> envelope_object ob e \<and> en_line e = l \<and> en_sha256 e = sha256_hex sha l \<and> en_value e = JObject ob)"
    (is "?lhs \<longleftrightarrow> ?rhs")
proof
  assume ?lhs
  then have len: "length l \<le> ENVELOPE_MAX_BYTES"
    by (auto simp: parse_envelope_def split: if_splits)
  from \<open>?lhs\<close> obtain t v where t: "from_utf8 l = Some t" "parse_strict_json read t = Inr v"
    by (auto simp: parse_envelope_def split: if_splits option.splits)
  with \<open>?lhs\<close> len obtain ob where "v = JObject ob"
    by (cases v) (auto simp: parse_envelope_def)
  with t have "from_utf8 l = Some t" "parse_strict_json read t = Inr (JObject ob)" by simp_all
  with len \<open>?lhs\<close> show ?rhs
    using parse_object_exact [of l t read ob sha e] by (auto simp: parse_strict_json_exact)
next
  assume ?rhs
  then obtain t raw ob where "length l \<le> ENVELOPE_MAX_BYTES" "from_utf8 l = Some t" "read t = (raw, True)"
      "raw_ok raw" "plain raw = JObject ob" and e: "envelope_object ob e" "en_line e = l"
      "en_sha256 e = sha256_hex sha l" "en_value e = JObject ob"
    by blast
  then have "parse_strict_json read t = Inr (JObject ob)" by (auto simp: parse_strict_json_exact)
  with e parse_object_exact [of l t read ob sha e] show ?lhs
    using \<open>length l \<le> ENVELOPE_MAX_BYTES\<close> \<open>from_utf8 l = Some t\<close> by simp
qed

end
