(* ===== verification/Serde_Derive.thy ===== *)
theory Serde_Derive
  imports Operation_Envelope
begin

text \<open>
  The JSON forms that \<open>#[derive(Serialize, Deserialize)]\<close> gives to the types of the launch operations.
  A document is read as a tree of \<open>raw_json\<close>, whose objects may repeat a key. A derived struct reads
  from an object or from the sequence of its fields; it refuses a repeated field, ignores other keys,
  and takes a missing optional field as absent. A unit variant reads from its name, or from an object
  with its name over null.
\<close>

section \<open>Reading\<close>

text \<open>The tree has all its closing brackets.\<close>

fun raw_complete :: "raw_json \<Rightarrow> bool" where
  "raw_complete (RArr xs closed) \<longleftrightarrow> closed \<and> list_all raw_complete xs"
| "raw_complete (RObj kvs closed) \<longleftrightarrow> closed \<and> list_all (\<lambda>(k, x). raw_complete x) kvs"
| "raw_complete RBad \<longleftrightarrow> False"
| "raw_complete _ \<longleftrightarrow> True"

text \<open>As a \<open>Value\<close>: a repeated key replaces the value in its first place.\<close>

fun raw_value :: "raw_json \<Rightarrow> json" where
  "raw_value RNull = JNull"
| "raw_value (RBool b) = JBool b"
| "raw_value (RNum n) = JNumber n"
| "raw_value (RStr s) = JString s"
| "raw_value (RArr xs closed) = JArray (map raw_value xs)"
| "raw_value (RObj kvs closed) =
     JObject (foldl (\<lambda>m (k, v). imap_insert k v m) [] (map (\<lambda>(k, x). (k, raw_value x)) kvs))"
| "raw_value RBad = JNull"

text \<open>The fields of a struct with these names, in the order of their declaration.\<close>

fun struct_fields :: "rstr list \<Rightarrow> raw_json \<Rightarrow> (rstr \<Rightarrow> raw_json option) option" where
  "struct_fields names (RObj kvs closed) =
     (if distinct (filter (\<lambda>k. k \<in> set names) (map fst kvs)) then Some (map_of kvs) else None)"
| "struct_fields names (RArr xs closed) =
     (if length xs = length names then Some (map_of (zip names xs)) else None)"
| "struct_fields names _ = None"

definition required :: "(raw_json \<Rightarrow> 'a option) \<Rightarrow> (rstr \<Rightarrow> raw_json option) \<Rightarrow> rstr \<Rightarrow> 'a option" where
  "required rd get k = Option.bind (get k) rd"

definition nullable :: "(raw_json \<Rightarrow> 'a option) \<Rightarrow> raw_json \<Rightarrow> 'a option option" where
  "nullable rd x = (if x = RNull then Some None else map_option Some (rd x))"

definition optional :: "(raw_json \<Rightarrow> 'a option) \<Rightarrow> (rstr \<Rightarrow> raw_json option) \<Rightarrow> rstr \<Rightarrow> 'a option option" where
  "optional rd get k = (case get k of None \<Rightarrow> Some None | Some x \<Rightarrow> nullable rd x)"

fun raw_string :: "raw_json \<Rightarrow> rstr option" where
  "raw_string (RStr s) = Some s"
| "raw_string _ = None"

fun raw_bool :: "raw_json \<Rightarrow> bool option" where
  "raw_bool (RBool b) = Some b"
| "raw_bool _ = None"

fun raw_u64 :: "raw_json \<Rightarrow> u64 option" where
  "raw_u64 (RNum (PosInt n)) = Some n"
| "raw_u64 _ = None"

fun raw_u32 :: "raw_json \<Rightarrow> u32 option" where
  "raw_u32 (RNum (PosInt n)) = (if unat n < 2 ^ 32 then Some (ucast n) else None)"
| "raw_u32 _ = None"

fun raw_variant :: "(rstr \<times> 'a) list \<Rightarrow> raw_json \<Rightarrow> 'a option" where
  "raw_variant names (RStr s) = map_of names s"
| "raw_variant names (RObj [(s, RNull)] closed) = map_of names s"
| "raw_variant names _ = None"

section \<open>Writing\<close>

definition json_u32 :: "u32 \<Rightarrow> json" where
  "json_u32 w = JNumber (PosInt (ucast w))"

definition json_u64 :: "u64 \<Rightarrow> json" where
  "json_u64 w = JNumber (PosInt w)"

definition json_option :: "('a \<Rightarrow> json) \<Rightarrow> 'a option \<Rightarrow> json" where
  "json_option wr v = (case v of None \<Rightarrow> JNull | Some x \<Rightarrow> wr x)"

text \<open>A value as the tree that reading its text gives.\<close>

fun raw_of :: "json \<Rightarrow> raw_json" where
  "raw_of JNull = RNull"
| "raw_of (JBool b) = RBool b"
| "raw_of (JNumber n) = RNum n"
| "raw_of (JString s) = RStr s"
| "raw_of (JArray xs) = RArr (map raw_of xs) True"
| "raw_of (JObject kvs) = RObj (map (\<lambda>(k, x). (k, raw_of x)) kvs) True"

section \<open>What is written is read\<close>

named_theorems serde_simps \<open>reading what a derived implementation wrote\<close>

lemma foldl_insert_distinct:
  "distinct (map fst (m @ kvs)) \<Longrightarrow> foldl (\<lambda>m (k, v). imap_insert k v m) m kvs = m @ kvs"
proof (induction kvs arbitrary: m)
  case (Cons e kvs)
  obtain k v where e: "e = (k, v)" by (cases e)
  have "imap_insert k v m = m @ [(k, v)]" using Cons.prems by (intro update_new) (auto simp: e)
  with Cons.IH [of "m @ [(k, v)]"] Cons.prems show ?case by (simp add: e)
qed simp

lemma raw_value_of [serde_simps]: "json_wf v \<Longrightarrow> raw_value (raw_of v) = v"
proof (induction v)
  case (JArray xs)
  then show ?case by (auto simp: list_all_iff intro: map_idI)
next
  case (JObject kvs)
  have IH: "raw_value (raw_of v) = v" if "(k, v) \<in> set kvs" for k v
    using JObject.IH [OF that, of v] JObject.prems that by (auto simp: list_all_iff)
  have m: "map ((\<lambda>(k, x). (k, raw_value x)) \<circ> (\<lambda>(k, x). (k, raw_of x))) kvs = kvs"
    by (rule map_idI) (auto simp: IH)
  show ?case using foldl_insert_distinct [of "[]" kvs] JObject.prems by (simp add: m)
qed auto

lemma raw_of_complete [serde_simps]: "raw_complete (raw_of v)"
  by (induction v) (auto simp: list_all_iff)

lemma raw_of_null [serde_simps]: "raw_of v = RNull \<longleftrightarrow> v = JNull"
  by (cases v) auto

lemma raw_u64_of [serde_simps]: "raw_u64 (raw_of (json_u64 w)) = Some w"
  by (simp add: json_u64_def)

lemma raw_u32_of [serde_simps]: "raw_u32 (raw_of (json_u32 w)) = Some w"
proof -
  have "unat w < 2 ^ 32" using unsigned_less [of w, where ?'a = nat] by simp
  moreover have "unat (ucast w :: u64) = unat w" using calculation by (simp add: unsigned_ucast_eq take_bit_nat_eq_self_iff)
  moreover have "ucast (ucast w :: u64) = w" by (rule bit_word_eqI) (simp add: bit_simps)
  ultimately show ?thesis by (simp add: json_u32_def)
qed

lemma nullable_option [serde_simps]:
  assumes "\<And>x. v = Some x \<Longrightarrow> rd (raw_of (wr x)) = Some x" and "\<And>x. v = Some x \<Longrightarrow> wr x \<noteq> JNull"
  shows "nullable rd (raw_of (json_option wr v)) = Some v"
  using assms by (cases v) (auto simp: nullable_def json_option_def raw_of_null)

lemma raw_string_of [serde_simps]: "raw_string (raw_of (JString s)) = Some s"
  by simp

lemma raw_bool_of [serde_simps]: "raw_bool (raw_of (JBool b)) = Some b"
  by simp

text \<open>The fields of what a struct was written as.\<close>

definition written :: "(rstr \<times> json) list \<Rightarrow> rstr \<Rightarrow> raw_json option" where
  "written kvs k = map_option raw_of (map_of kvs k)"

lemma struct_fields_of [serde_simps]:
  assumes d: "distinct (map fst kvs)"
  shows "struct_fields names (raw_of (JObject kvs)) = Some (written kvs)"
proof -
  have "distinct (filter (\<lambda>k. k \<in> set names) (map fst (map (\<lambda>(k, x). (k, raw_of x)) kvs)))"
    using d by (simp add: case_prod_unfold comp_def)
  moreover have "map_of (map (\<lambda>(k, x). (k, raw_of x)) kvs) = written kvs"
    by (auto simp: map_of_map written_def fun_eq_iff)
  ultimately show ?thesis by simp
qed

lemma required_written [serde_simps]:
  "map_of kvs k = Some v \<Longrightarrow> required rd (written kvs) k = rd (raw_of v)"
  by (simp add: required_def written_def)

lemma optional_written [serde_simps]:
  "map_of kvs k = Some v \<Longrightarrow> optional rd (written kvs) k = nullable rd (raw_of v)"
  by (simp add: optional_def written_def)

end
