(* ===== verification/Proc_Table.thy ===== *)
theory Proc_Table
  imports Durations Names "HOL-Library.AList"
begin

text \<open>
  The reader of the process table (\<^verbatim>\<open>crates/pty-core/src/proctable.rs\<close>): the answers that keep
  "the process is not there" apart from "it could not be found out", a snapshot of the table, and the
  readers that build one from \<open>/proc\<close> and from the output of \<open>ps\<close>. A pid is an \<open>i32\<close>, here an integer
  that the parser keeps in range. The kernel's answers are arguments. The rows of a table are kept in
  the order they were read; the source's hash map has no order of its own, and no fact below depends
  on it. The macOS readers take the bytes of the kernel's \<open>kinfo_proc\<close> structure; the machine is
  little-endian, as every macOS machine is.
\<close>

section \<open>Answers\<close>

datatype Unknown = TableUnreadable | FieldEmpty | FieldUnparsable

datatype 'a Answer = Known 'a | NotPresent | NotKnown Unknown

fun known :: "'a Answer \<Rightarrow> 'a option" where
  "known (Known v) = Some v"
| "known _ = None"

fun is_definitely_absent :: "'a Answer \<Rightarrow> bool" where
  "is_definitely_absent NotPresent \<longleftrightarrow> True"
| "is_definitely_absent _ \<longleftrightarrow> False"

fun is_unknown :: "'a Answer \<Rightarrow> bool" where
  "is_unknown (NotKnown _) \<longleftrightarrow> True"
| "is_unknown _ \<longleftrightarrow> False"

fun or_absent_when_unknown :: "'a Answer \<Rightarrow> 'a Answer" where
  "or_absent_when_unknown (NotKnown _) = NotPresent"
| "or_absent_when_unknown other = other"

fun answer_map :: "('a \<Rightarrow> 'b) \<Rightarrow> 'a Answer \<Rightarrow> 'b Answer" where
  "answer_map f (Known v) = Known (f v)"
| "answer_map f NotPresent = NotPresent"
| "answer_map f (NotKnown u) = NotKnown u"

section \<open>Rows and tables\<close>

text \<open>The percentage is a double, given by its bits.\<close>

record Row =
  r_pid :: int
  r_ppid :: int
  r_pgid :: int
  r_state :: rstr
  r_rss_kb :: "nat option"
  r_cpu_percent :: "u64 option"
  r_identity :: "rstr option"

definition starts_with :: "rchar \<Rightarrow> rstr \<Rightarrow> bool" where
  "starts_with c s \<longleftrightarrow> (case s of [] \<Rightarrow> False | x # _ \<Rightarrow> x = c)"

definition is_zombie :: "Row \<Rightarrow> bool" where
  "is_zombie r \<longleftrightarrow> starts_with 90 (r_state r) \<or> starts_with 88 (r_state r)"

definition is_exiting :: "Row \<Rightarrow> bool" where
  "is_exiting r \<longleftrightarrow> starts_with 69 (r_state r)"

definition is_stopped :: "Row \<Rightarrow> bool" where
  "is_stopped r \<longleftrightarrow> starts_with 84 (r_state r) \<or> starts_with 116 (r_state r)"

record ProcTable =
  t_rows :: "(int \<times> Row) list"
  t_readable :: bool
  t_complete :: bool

definition unreadable :: ProcTable where
  "unreadable = \<lparr>t_rows = [], t_readable = False, t_complete = False\<rparr>"

definition from_rows :: "Row list \<Rightarrow> ProcTable" where
  "from_rows rs =
     \<lparr>t_rows = foldl (\<lambda>m r. AList.update (r_pid r) r m) [] rs, t_readable = True, t_complete = True\<rparr>"

definition marked_incomplete :: "ProcTable \<Rightarrow> ProcTable" where
  "marked_incomplete t = t\<lparr>t_complete := False\<rparr>"

definition is_readable :: "ProcTable \<Rightarrow> bool" where
  "is_readable t \<longleftrightarrow> t_readable t"

definition is_complete :: "ProcTable \<Rightarrow> bool" where
  "is_complete t \<longleftrightarrow> t_readable t \<and> t_complete t"

definition rows :: "ProcTable \<Rightarrow> Row list" where
  "rows t = map snd (t_rows t)"

definition lookup :: "ProcTable \<Rightarrow> int \<Rightarrow> Row Answer" where
  "lookup t pid =
     (if \<not> t_readable t then NotKnown TableUnreadable
      else (case map_of (t_rows t) pid of Some r \<Rightarrow> Known r | None \<Rightarrow> NotPresent))"

definition row :: "ProcTable \<Rightarrow> int \<Rightarrow> Row Answer" where
  "row t pid = lookup t pid"

definition is_running :: "ProcTable \<Rightarrow> int \<Rightarrow> bool Answer" where
  "is_running t pid = answer_map (\<lambda>r. \<not> is_zombie r) (lookup t pid)"

definition identity :: "ProcTable \<Rightarrow> int \<Rightarrow> rstr Answer" where
  "identity t pid =
     (case lookup t pid of
        Known r \<Rightarrow> (case r_identity r of Some tok \<Rightarrow> Known tok | None \<Rightarrow> NotKnown FieldEmpty)
      | NotPresent \<Rightarrow> NotPresent
      | NotKnown u \<Rightarrow> NotKnown u)"

definition resources :: "ProcTable \<Rightarrow> int \<Rightarrow> (nat \<times> u64) Answer" where
  "resources t pid =
     (case lookup t pid of
        Known r \<Rightarrow>
          (case (r_rss_kb r, r_cpu_percent r) of
             (Some rss, Some cpu) \<Rightarrow> Known (rss, cpu)
           | _ \<Rightarrow> NotKnown FieldEmpty)
      | NotPresent \<Rightarrow> NotPresent
      | NotKnown u \<Rightarrow> NotKnown u)"

section \<open>Text\<close>

text \<open>\<open>str::parse\<close> for integers: an optional sign, at least one digit, and the value in range.\<close>

definition all_digits :: "rstr \<Rightarrow> bool" where
  "all_digits s \<longleftrightarrow> s \<noteq> [] \<and> list_all digit_char s"

definition parse_unsigned :: "nat \<Rightarrow> rstr \<Rightarrow> nat option" where
  "parse_unsigned limit s =
     (let ds = (case s of [] \<Rightarrow> [] | c # cs \<Rightarrow> if c = 43 then cs else s) in
      if all_digits ds \<and> digits_value ds < limit then Some (digits_value ds) else None)"

definition parse_i32 :: "rstr \<Rightarrow> int option" where
  "parse_i32 s =
     (case s of
        [] \<Rightarrow> None
      | c # cs \<Rightarrow>
          if c = 45 then
            (if all_digits cs \<and> digits_value cs \<le> 2 ^ 31 then Some (- int (digits_value cs)) else None)
          else map_option int (parse_unsigned (2 ^ 31) s))"

text \<open>\<open>str::split_whitespace\<close>: the runs of other characters.\<close>

function split_whitespace :: "rstr \<Rightarrow> rstr list" where
  "split_whitespace s =
     (let t = dropWhile is_whitespace s in
      if t = [] then []
      else takeWhile (\<lambda>c. \<not> is_whitespace c) t
           # split_whitespace (dropWhile (\<lambda>c. \<not> is_whitespace c) t))"
  by auto
termination
proof (relation "measure length")
  fix s t :: rstr
  assume t: "t = dropWhile is_whitespace s" "t \<noteq> []"
  have "\<not> is_whitespace (hd t)" using t hd_dropWhile [of is_whitespace s] by simp
  with t(2) have "length (dropWhile (\<lambda>c. \<not> is_whitespace c) t) < length t"
    by (cases t) (simp_all add: length_dropWhile_le less_Suc_eq_le)
  also have "\<dots> \<le> length s" using t by (simp add: length_dropWhile_le)
  finally show "(dropWhile (\<lambda>c. \<not> is_whitespace c) t, s) \<in> measure length" by simp
qed simp

declare split_whitespace.simps [simp del]

text \<open>\<open>str::lines\<close>: between line feeds, without a carriage return before one, and no empty last line.\<close>

definition strip_cr :: "rstr \<Rightarrow> rstr" where
  "strip_cr l = (if l \<noteq> [] \<and> last l = 13 then butlast l else l)"

function str_lines :: "rstr \<Rightarrow> rstr list" where
  "str_lines s =
     (if s = [] then []
      else
        (let l = takeWhile (\<lambda>c. c \<noteq> 10) s; rest = dropWhile (\<lambda>c. c \<noteq> 10) s in
         (if rest = [] then l else strip_cr l) # str_lines (drop 1 rest)))"
  by auto
termination
proof (relation "measure length")
  fix s l rest :: rstr
  assume s: "s \<noteq> []" and "rest = dropWhile (\<lambda>c. c \<noteq> 10) s"
  then have "length rest \<le> length s" by (simp add: length_dropWhile_le)
  then have "length (drop 1 rest) < length s" using s by (cases rest) auto
  then show "(drop 1 rest, s) \<in> measure length" by simp
qed simp

declare str_lines.simps [simp del]

definition field :: "rstr list \<Rightarrow> nat \<Rightarrow> rstr option" where
  "field f n = (if n < length f then Some (f ! n) else None)"

text \<open>After the last closing parenthesis.\<close>

definition after_rfind :: "rchar \<Rightarrow> rstr \<Rightarrow> rstr option" where
  "after_rfind c s = (if c \<in> set s then Some (after_last c s) else None)"

definition parse_proc_stat :: "nat \<Rightarrow> int \<Rightarrow> rstr \<Rightarrow> Row option" where
  "parse_proc_stat page_kb pid stat =
     (case after_rfind 41 stat of
        None \<Rightarrow> None
      | Some tail \<Rightarrow>
          (let f = split_whitespace tail in
           case (field f 0, Option.bind (field f 1) parse_i32, Option.bind (field f 2) parse_i32, field f 19) of
             (Some st, Some ppid, Some pgid, Some start_time) \<Rightarrow>
               (let rss_pages = (case Option.bind (field f 21) (parse_unsigned (2 ^ 64)) of
                                   Some n \<Rightarrow> n | None \<Rightarrow> 0)
                in Some \<lparr>r_pid = pid, r_ppid = ppid, r_pgid = pgid, r_state = st,
                         r_rss_kb = Some (rss_pages * page_kb mod 2 ^ 64), r_cpu_percent = None,
                         r_identity = Some (ustr ''linux:'' @ start_time)\<rparr>)
           | _ \<Rightarrow> None))"

fun split_leading_fields :: "rstr \<Rightarrow> nat \<Rightarrow> rstr list \<times> rstr" where
  "split_leading_fields l 0 = ([], dropWhile (\<lambda>c. c = 32) l)"
| "split_leading_fields l (Suc n) =
     (let rest = dropWhile is_whitespace l;
          f = takeWhile (\<lambda>c. \<not> is_whitespace c) rest;
          rest' = dropWhile (\<lambda>c. \<not> is_whitespace c) rest
      in
      if rest' = [] then (if rest = [] then [] else [f], [])
      else (case split_leading_fields rest' n of (fs, tail) \<Rightarrow> (f # fs, tail)))"

definition parse_ps_row :: "(rstr \<Rightarrow> u64 option) \<Rightarrow> rstr \<Rightarrow> Row option" where
  "parse_ps_row parse_f64 l =
     (case split_leading_fields l 6 of
        (f, tail) \<Rightarrow>
          (case (Option.bind (field f 0) parse_i32, Option.bind (field f 1) parse_i32,
                 Option.bind (field f 2) parse_i32) of
             (Some pid, Some ppid, Some pgid) \<Rightarrow>
               Some \<lparr>r_pid = pid, r_ppid = ppid, r_pgid = pgid,
                     r_state = (case field f 3 of Some st \<Rightarrow> st | None \<Rightarrow> []),
                     r_rss_kb = Option.bind (field f 4) (parse_unsigned (2 ^ 64)),
                     r_cpu_percent = Option.bind (field f 5) parse_f64,
                     r_identity = (if trim tail = [] then None else Some (ustr ''darwin:'' @ trim tail))\<rparr>
           | _ \<Rightarrow> None))"

section \<open>Readers\<close>

text \<open>One read of \<open>/proc/<pid>/stat\<close>: its text, no such process (\<open>NotFound\<close> or \<open>ESRCH\<close>), or refused.\<close>

datatype stat_read = StatText rstr | StatGone | StatRefused

text \<open>One entry of the directory: its name when it is text, or an error of the listing.\<close>

datatype dir_entry = EntryName "rstr option" | EntryError

fun proc_loop :: "nat \<Rightarrow> (int \<Rightarrow> stat_read) \<Rightarrow> dir_entry list \<Rightarrow> Row list \<Rightarrow> bool \<Rightarrow> Row list \<times> bool" where
  "proc_loop page_kb read_stat [] rs complete = (rs, complete)"
| "proc_loop page_kb read_stat (EntryError # es) rs complete = proc_loop page_kb read_stat es rs False"
| "proc_loop page_kb read_stat (EntryName nm # es) rs complete =
     (case Option.bind nm parse_i32 of
        None \<Rightarrow> proc_loop page_kb read_stat es rs complete
      | Some pid \<Rightarrow>
          (case read_stat pid of
             StatText stat \<Rightarrow>
               (case parse_proc_stat page_kb pid stat of
                  Some r \<Rightarrow> proc_loop page_kb read_stat es (rs @ [r]) complete
                | None \<Rightarrow> proc_loop page_kb read_stat es rs False)
           | StatGone \<Rightarrow> proc_loop page_kb read_stat es rs complete
           | StatRefused \<Rightarrow> proc_loop page_kb read_stat es rs False))"

definition from_proc_listing :: "nat \<Rightarrow> dir_entry list \<Rightarrow> (int \<Rightarrow> stat_read) \<Rightarrow> int \<Rightarrow> ProcTable" where
  "from_proc_listing page_kb entries read_stat own_pid =
     (case proc_loop page_kb read_stat entries [] True of
        (rs, complete) \<Rightarrow>
          if \<not> list_ex (\<lambda>r. r_pid r = own_pid) rs then unreadable
          else if complete then from_rows rs
          else marked_incomplete (from_rows rs))"

definition from_ps_listing_checked :: "(rstr \<Rightarrow> u64 option) \<Rightarrow> rstr \<Rightarrow> int \<Rightarrow> ProcTable" where
  "from_ps_listing_checked parse_f64 listing must_contain =
     (let rs = List.map_filter (parse_ps_row parse_f64) (str_lines listing) in
      if \<not> list_ex (\<lambda>r. r_pid r = must_contain) rs then unreadable else from_rows rs)"

definition stat_answer :: "nat \<Rightarrow> int \<Rightarrow> stat_read \<Rightarrow> Row Answer" where
  "stat_answer page_kb pid r =
     (case r of
        StatText stat \<Rightarrow>
          (case parse_proc_stat page_kb pid stat of
             Some rw \<Rightarrow> Known rw
           | None \<Rightarrow> NotKnown FieldUnparsable)
      | StatGone \<Rightarrow> NotPresent
      | StatRefused \<Rightarrow> NotKnown TableUnreadable)"

text \<open>\<open>process\<close> on Linux.\<close>

definition process :: "nat \<Rightarrow> (int \<Rightarrow> stat_read) \<Rightarrow> int \<Rightarrow> Row Answer" where
  "process page_kb read_stat pid =
     (if pid \<le> 0 then NotPresent else stat_answer page_kb pid (read_stat pid))"

definition pid_has_exited :: "nat \<Rightarrow> (int \<Rightarrow> stat_read) \<Rightarrow> int \<Rightarrow> bool Answer" where
  "pid_has_exited page_kb read_stat pid = answer_map is_zombie (process page_kb read_stat pid)"

text \<open>
  \<open>list_pids_with_slack\<close>: \<open>bytes_needed k\<close> and \<open>fill k n\<close> are the answers of the kernel at the attempt
  \<open>k\<close>, the bytes needed, and the buffer of \<open>n\<close> entries with the bytes written.
\<close>

primrec list_pids_loop ::
  "nat \<Rightarrow> (nat \<Rightarrow> int) \<Rightarrow> (nat \<Rightarrow> nat \<Rightarrow> int list \<times> int) \<Rightarrow> nat \<Rightarrow> nat \<Rightarrow> int list \<Rightarrow> (int list \<times> bool) option" where
  "list_pids_loop 0 bytes_needed fill k slack prev = Some (prev, False)"
| "list_pids_loop (Suc left) bytes_needed fill k slack prev =
     (if bytes_needed k \<le> 0 then None
      else
        (let n = nat (bytes_needed k) div 4 + slack;
             pids = fst (fill k n);
             written = snd (fill k n)
         in
         if written \<le> 0 then None
         else if min (nat written div 4) n < n then Some (take (min (nat written div 4) n) pids, True)
         else list_pids_loop left bytes_needed fill (k + 1) (slack * 8) pids))"

definition list_pids_with_slack :: "(nat \<Rightarrow> int) \<Rightarrow> (nat \<Rightarrow> nat \<Rightarrow> int list \<times> int) \<Rightarrow> (int list \<times> bool) option" where
  "list_pids_with_slack bytes_needed fill = list_pids_loop 4 bytes_needed fill 0 64 []"

section \<open>The macOS readers\<close>

record KinfoLayout =
  kl_start_sec :: nat
  kl_start_usec :: nat
  kl_p_stat :: nat
  kl_p_flag :: nat
  kl_p_pid :: nat
  kl_e_ppid :: nat
  kl_e_pgid :: nat
  kl_ruid :: nat
  kl_euid :: nat

definition KINFO_SIZE :: nat where "KINFO_SIZE = 648"
definition P_PID_OFFSET :: nat where "P_PID_OFFSET = 40"

definition KINFO :: KinfoLayout where
  "KINFO = \<lparr>kl_start_sec = 0, kl_start_usec = 8, kl_p_stat = 36, kl_p_flag = 32, kl_p_pid = P_PID_OFFSET,
            kl_e_ppid = 560, kl_e_pgid = 564, kl_ruid = 392, kl_euid = 420\<rparr>"

definition SRUN :: u8 where "SRUN = 2"
definition SSTOP :: u8 where "SSTOP = 4"
definition SZOMB :: u8 where "SZOMB = 5"
definition P_LP64 :: u32 where "P_LP64 = 0x4"
definition P_WEXIT :: u32 where "P_WEXIT = 0x2000"

text \<open>The integer in a run of bytes, least significant first.\<close>

primrec le_nat :: "bytes \<Rightarrow> nat" where
  "le_nat [] = 0"
| "le_nat (b # bs) = unat b + 256 * le_nat bs"

definition read_u32 :: "bytes \<Rightarrow> nat \<Rightarrow> u32" where
  "read_u32 buf at' = of_nat (le_nat (take 4 (drop at' buf)))"

definition read_i32 :: "bytes \<Rightarrow> nat \<Rightarrow> int" where
  "read_i32 buf at' = sint (read_u32 buf at')"

definition read_u64 :: "bytes \<Rightarrow> nat \<Rightarrow> u64" where
  "read_u64 buf at' = of_nat (le_nat (take 8 (drop at' buf)))"

definition layout_finds_itself :: "bytes \<Rightarrow> int \<Rightarrow> bool" where
  "layout_finds_itself buf pid \<longleftrightarrow> P_PID_OFFSET + 4 \<le> length buf \<and> read_i32 buf P_PID_OFFSET = pid"

definition kinfo_exiting :: "bytes \<Rightarrow> KinfoLayout \<Rightarrow> bool" where
  "kinfo_exiting buf l \<longleftrightarrow> buf ! kl_p_stat l \<noteq> SZOMB \<and> read_u32 buf (kl_p_flag l) AND P_WEXIT \<noteq> 0"

record OwnFacts =
  of_pid :: int
  of_ppid :: int
  of_pgid :: int
  of_ruid :: u32
  of_euid :: u32
  of_start_sec :: u64
  of_start_usec :: u32

definition fits :: "bytes \<Rightarrow> nat \<Rightarrow> nat \<Rightarrow> bool" where
  "fits buf at' width \<longleftrightarrow> at' + width < 2 ^ 64 \<and> at' + width \<le> length buf"

definition layout_reads_itself :: "bytes \<Rightarrow> KinfoLayout \<Rightarrow> OwnFacts \<Rightarrow> bool" where
  "layout_reads_itself buf l own \<longleftrightarrow>
     (if \<not> (fits buf (kl_start_sec l) 8 \<and> fits buf (kl_start_usec l) 4 \<and> fits buf (kl_p_stat l) 1
            \<and> list_all (\<lambda>at'. fits buf at' 4)
                [kl_p_flag l, kl_p_pid l, kl_e_ppid l, kl_e_pgid l, kl_ruid l, kl_euid l])
      then False
      else read_i32 buf (kl_p_pid l) = of_pid own
           \<and> read_i32 buf (kl_e_ppid l) = of_ppid own
           \<and> read_i32 buf (kl_e_pgid l) = of_pgid own
           \<and> read_u32 buf (kl_ruid l) = of_ruid own
           \<and> read_u32 buf (kl_euid l) = of_euid own
           \<and> read_u64 buf (kl_start_sec l) = of_start_sec own
           \<and> read_u32 buf (kl_start_usec l) = of_start_usec own
           \<and> buf ! kl_p_stat l = SRUN
           \<and> read_u32 buf (kl_p_flag l) AND (P_LP64 OR P_WEXIT) = P_LP64)"

text \<open>
  The answer of \<open>sysctl(KERN_PROC_PID)\<close>: a failure, with whether it was \<open>ESRCH\<close>, or the reported length
  and the buffer of \<open>KINFO_SIZE\<close> bytes.
\<close>

datatype sysctl_answer = SysctlFailed bool | SysctlRow nat bytes

definition kinfo_row :: "(int \<Rightarrow> sysctl_answer) \<Rightarrow> int \<Rightarrow> bytes Answer" where
  "kinfo_row sysctl pid =
     (case sysctl pid of
        SysctlFailed esrch \<Rightarrow> if esrch then NotPresent else NotKnown TableUnreadable
      | SysctlRow len buf \<Rightarrow>
          if len = 0 then NotPresent
          else if len < KINFO_SIZE then NotKnown TableUnreadable
          else if \<not> layout_finds_itself buf pid then NotKnown TableUnreadable
          else Known buf)"

text \<open>What \<open>proc_pidinfo\<close> fills in, when it answers at its full size.\<close>

record bsdinfo =
  pbi_ruid :: u32
  pbi_uid :: u32
  pbi_ppid :: u32
  pbi_pgid :: u32
  pbi_status :: u32
  pbi_start_tvsec :: u64
  pbi_start_tvusec :: u64

text \<open>One round of the process's questions about itself: the parent before and after, and the rest.\<close>

record own_answers =
  oa_pid :: int
  oa_ppid_before :: int
  oa_ppid_after :: int
  oa_pgid :: int
  oa_ruid :: u32
  oa_euid :: u32
  oa_info :: "bsdinfo option"

definition own_facts_and_row :: "(int \<Rightarrow> sysctl_answer) \<Rightarrow> own_answers \<Rightarrow> (OwnFacts \<times> bytes) option" where
  "own_facts_and_row sysctl a =
     (let kr = known (kinfo_row sysctl (oa_pid a)) in
      case oa_info a of
        None \<Rightarrow> None
      | Some info \<Rightarrow>
          if oa_ppid_before a \<noteq> oa_ppid_after a then None
          else
            (let own = \<lparr>of_pid = oa_pid a, of_ppid = oa_ppid_before a, of_pgid = oa_pgid a,
                        of_ruid = oa_ruid a, of_euid = oa_euid a, of_start_sec = pbi_start_tvsec info,
                        of_start_usec = ucast (pbi_start_tvusec info)\<rparr>
             in map_option (\<lambda>rw. (own, rw)) kr))"

text \<open>\<open>layout_verified\<close>: the first of three rounds that gives facts decides.\<close>

definition layout_verified :: "((int \<Rightarrow> sysctl_answer) \<times> own_answers) list \<Rightarrow> bool" where
  "layout_verified rounds \<longleftrightarrow>
     (case List.map_filter (\<lambda>(sysctl, a). own_facts_and_row sysctl a) (take 3 rounds) of
        [] \<Rightarrow> False
      | (own, rw) # _ \<Rightarrow> layout_reads_itself rw KINFO own)"

definition darwin_identity :: "nat \<Rightarrow> nat \<Rightarrow> rstr" where
  "darwin_identity sec usec = ustr ''darwin:'' @ dec sec @ [46] @ dec_pad 6 usec"

definition sysctl_proc :: "bool \<Rightarrow> (int \<Rightarrow> sysctl_answer) \<Rightarrow> int \<Rightarrow> Row Answer" where
  "sysctl_proc verified sysctl pid =
     (if \<not> verified then NotKnown TableUnreadable
      else
        (case kinfo_row sysctl pid of
           NotPresent \<Rightarrow> NotPresent
         | NotKnown why \<Rightarrow> NotKnown why
         | Known buf \<Rightarrow>
             Known \<lparr>r_pid = pid,
                    r_ppid = read_i32 buf (kl_e_ppid KINFO),
                    r_pgid = read_i32 buf (kl_e_pgid KINFO),
                    r_state = (if buf ! kl_p_stat KINFO = SZOMB then ustr ''Z''
                               else if kinfo_exiting buf KINFO then ustr ''E''
                               else if buf ! kl_p_stat KINFO = SSTOP then ustr ''T''
                               else ustr ''S''),
                    r_rss_kb = None, r_cpu_percent = None,
                    r_identity = Some (darwin_identity (unat (read_u64 buf (kl_start_sec KINFO)))
                                                       (unat (read_u32 buf (kl_start_usec KINFO))))\<rparr>))"

definition kinfo_owner_checked :: "bool \<Rightarrow> (int \<Rightarrow> sysctl_answer) \<Rightarrow> int \<Rightarrow> (u32 \<times> u32 \<times> bool) Answer" where
  "kinfo_owner_checked verified sysctl pid =
     (if \<not> verified then NotKnown TableUnreadable
      else
        (case kinfo_row sysctl pid of
           Known buf \<Rightarrow> Known (read_u32 buf (kl_ruid KINFO), read_u32 buf (kl_euid KINFO),
                               buf ! kl_p_stat KINFO = SZOMB)
         | NotPresent \<Rightarrow> NotPresent
         | NotKnown why \<Rightarrow> NotKnown why))"

definition read_bsdinfo :: "(int \<Rightarrow> bsdinfo option) \<Rightarrow> int \<Rightarrow> Row option" where
  "read_bsdinfo pidinfo pid =
     map_option (\<lambda>info.
       \<lparr>r_pid = pid, r_ppid = sint (pbi_ppid info), r_pgid = sint (pbi_pgid info),
        r_state = (if pbi_status info = 5 then ustr ''Z'' else if pbi_status info = 4 then ustr ''T''
                   else ustr ''S''),
        r_rss_kb = None, r_cpu_percent = None,
        r_identity = Some (darwin_identity (unat (pbi_start_tvsec info)) (unat (pbi_start_tvusec info)))\<rparr>)
       (pidinfo pid)"

text \<open>\<open>process\<close> on macOS.\<close>

definition process_macos ::
  "bool \<Rightarrow> (int \<Rightarrow> bsdinfo option) \<Rightarrow> (int \<Rightarrow> sysctl_answer) \<Rightarrow> int \<Rightarrow> Row Answer" where
  "process_macos verified pidinfo sysctl pid =
     (if pid \<le> 0 then NotPresent
      else (case read_bsdinfo pidinfo pid of Some rw \<Rightarrow> Known rw | None \<Rightarrow> sysctl_proc verified sysctl pid))"

fun libproc_loop ::
  "bool \<Rightarrow> (int \<Rightarrow> bsdinfo option) \<Rightarrow> (int \<Rightarrow> sysctl_answer) \<Rightarrow> int list \<Rightarrow> Row list \<Rightarrow> bool \<Rightarrow> Row list \<times> bool" where
  "libproc_loop verified pidinfo sysctl [] rs complete = (rs, complete)"
| "libproc_loop verified pidinfo sysctl (pid # ps) rs complete =
     (case read_bsdinfo pidinfo pid of
        Some rw \<Rightarrow> libproc_loop verified pidinfo sysctl ps (rs @ [rw]) complete
      | None \<Rightarrow>
          (case sysctl_proc verified sysctl pid of
             Known rw \<Rightarrow> libproc_loop verified pidinfo sysctl ps (rs @ [rw]) complete
           | NotPresent \<Rightarrow> libproc_loop verified pidinfo sysctl ps rs complete
           | NotKnown _ \<Rightarrow> libproc_loop verified pidinfo sysctl ps rs False))"

definition read_libproc ::
  "bool \<Rightarrow> (int \<Rightarrow> bsdinfo option) \<Rightarrow> (int \<Rightarrow> sysctl_answer) \<Rightarrow> (int list \<times> bool) option \<Rightarrow> int \<Rightarrow> ProcTable" where
  "read_libproc verified pidinfo sysctl listing own_pid =
     (case listing of
        None \<Rightarrow> unreadable
      | Some (pids, listed_whole) \<Rightarrow>
          (case libproc_loop verified pidinfo sysctl (filter (\<lambda>p. 0 < p) pids) [] listed_whole of
             (rs, complete) \<Rightarrow>
               if \<not> list_ex (\<lambda>r. r_pid r = own_pid) rs then unreadable
               else if complete then from_rows rs
               else marked_incomplete (from_rows rs)))"

section \<open>Rows of a table\<close>

lemma foldl_update_rows:
  "map_of (foldl (\<lambda>m r. AList.update (r_pid r) r m) m0 rs) pid =
     (case find (\<lambda>r. r_pid r = pid) (rev rs) of Some r \<Rightarrow> Some r | None \<Rightarrow> map_of m0 pid)"
  by (induction rs rule: rev_induct) (auto simp: update_conv)

lemma lookup_from_rows:
  "lookup (from_rows rs) pid =
     (case find (\<lambda>r. r_pid r = pid) (rev rs) of Some r \<Rightarrow> Known r | None \<Rightarrow> NotPresent)"
  by (auto simp: lookup_def from_rows_def foldl_update_rows split: option.splits)

lemma lookup_marked [simp]: "lookup (marked_incomplete t) pid = lookup t pid"
  by (simp add: lookup_def marked_incomplete_def)

lemma distinct_rows: "distinct (map fst (t_rows (from_rows rs)))"
proof -
  have "distinct (map fst (foldl (\<lambda>m r. AList.update (r_pid r) r m) m0 rs))" if "distinct (map fst m0)" for m0
    using that by (induction rs arbitrary: m0) (auto simp: distinct_update)
  then show ?thesis by (simp add: from_rows_def)
qed

section \<open>What a table proves\<close>

text \<open>
  Both readers probe every listed process and gather the answers. \<open>gathered\<close> is that, without the
  order in which the loops do it: the reference the readers are shown equal to.
\<close>

definition gathered :: "(int \<Rightarrow> Row Answer) \<Rightarrow> int list \<Rightarrow> bool \<Rightarrow> int \<Rightarrow> ProcTable" where
  "gathered probe pids whole own =
     (let rs = List.map_filter (\<lambda>p. known (probe p)) pids in
      if \<not> list_ex (\<lambda>r. r_pid r = own) rs then unreadable
      else if whole \<and> list_all (\<lambda>p. \<not> is_unknown (probe p)) pids then from_rows rs
      else marked_incomplete (from_rows rs))"

text \<open>What a reader asks of the probe of one process: a row it returns is a row of that process.\<close>

locale row_source =
  fixes probe :: "int \<Rightarrow> Row Answer"
  assumes probe_pid: "probe p = Known r \<Longrightarrow> r_pid r = p"
begin

lemma known_probe_iff: "known (probe p) = Some r \<longleftrightarrow> probe p = Known r"
  by (cases "probe p") auto

lemma gathered_rows:
  "set (List.map_filter (\<lambda>p. known (probe p)) pids) = {r. r_pid r \<in> set pids \<and> probe (r_pid r) = Known r}"
proof -
  have "r \<in> set (List.map_filter (\<lambda>p. known (probe p)) pids) \<longleftrightarrow> (\<exists>p \<in> set pids. probe p = Known r)" for r
    by (induction pids) (auto simp: List.map_filter_simps known_probe_iff split: option.split)
  then show ?thesis by (auto dest: probe_pid)
qed

lemma readable_iff:
  "is_readable (gathered probe pids whole own) \<longleftrightarrow> own \<in> set pids \<and> (\<exists>r. probe own = Known r)"
proof -
  have "list_ex (\<lambda>r. r_pid r = own) (List.map_filter (\<lambda>p. known (probe p)) pids) \<longleftrightarrow>
      own \<in> set pids \<and> (\<exists>r. probe own = Known r)"
    unfolding list_ex_iff gathered_rows by (auto dest: probe_pid)
  then show ?thesis
    by (simp add: gathered_def Let_def is_readable_def unreadable_def from_rows_def marked_incomplete_def)
qed

lemma complete_iff:
  "is_complete (gathered probe pids whole own) \<longleftrightarrow>
     is_readable (gathered probe pids whole own) \<and> whole \<and> (\<forall>p \<in> set pids. \<not> is_unknown (probe p))"
  by (auto simp: gathered_def Let_def is_readable_def is_complete_def unreadable_def from_rows_def
      marked_incomplete_def list_all_iff)

lemma find_gathered:
  "find (\<lambda>r. r_pid r = pid) (rev (List.map_filter (\<lambda>p. known (probe p)) pids)) =
     (if pid \<in> set pids then known (probe pid) else None)" (is "?f = ?v")
proof (cases ?f)
  case None
  then have "\<forall>r. \<not> (r_pid r \<in> set pids \<and> probe (r_pid r) = Known r \<and> r_pid r = pid)"
    using gathered_rows by (auto simp: find_None_iff)
  with None show ?thesis by (cases "probe pid") (auto dest: probe_pid)
next
  case (Some r)
  then have "r \<in> set (List.map_filter (\<lambda>p. known (probe p)) pids) \<and> r_pid r = pid"
    by (auto simp: find_Some_iff) (metis nth_mem set_rev length_rev)
  with Some show ?thesis unfolding gathered_rows by auto
qed

lemma lookup_gathered:
  "is_readable (gathered probe pids whole own) \<Longrightarrow>
     lookup (gathered probe pids whole own) pid =
       (if pid \<in> set pids then (case known (probe pid) of Some r \<Rightarrow> Known r | None \<Rightarrow> NotPresent) else NotPresent)"
  using find_gathered [of pid pids]
  by (auto simp: gathered_def Let_def is_readable_def unreadable_def lookup_from_rows)

theorem complete_answers:
  assumes "is_complete (gathered probe pids whole own)" and "pid \<in> set pids"
  shows "lookup (gathered probe pids whole own) pid = probe pid"
proof -
  from assms complete_iff have "is_readable (gathered probe pids whole own)" "\<not> is_unknown (probe pid)" by blast+
  then show ?thesis using assms(2) by (cases "probe pid") (simp_all add: lookup_gathered)
qed

theorem known_is_true:
  "lookup (gathered probe pids whole own) pid = Known r \<Longrightarrow> pid \<in> set pids \<and> probe pid = Known r"
proof -
  assume l: "lookup (gathered probe pids whole own) pid = Known r"
  then have "is_readable (gathered probe pids whole own)" by (auto simp: lookup_def is_readable_def split: if_splits)
  from l lookup_gathered [OF this] show ?thesis by (cases "probe pid") (auto split: if_splits)
qed

end

lemma parse_proc_stat_pid: "parse_proc_stat page_kb pid stat = Some r \<Longrightarrow> r_pid r = pid"
  by (auto simp: parse_proc_stat_def Let_def split: option.splits prod.splits)

interpretation linux: row_source "\<lambda>pid. stat_answer page_kb pid (read_stat pid)" for page_kb read_stat
  by unfold_locales (auto simp: stat_answer_def split: stat_read.splits option.splits dest: parse_proc_stat_pid)

interpretation macos: row_source "process_macos verified pidinfo sysctl" for verified pidinfo sysctl
  by unfold_locales
     (auto simp: process_macos_def read_bsdinfo_def sysctl_proc_def split: if_splits option.splits Answer.splits)

text \<open>The pids of a listing of \<open>/proc\<close>, and the two loops as a gathering.\<close>

definition entry_pids :: "dir_entry list \<Rightarrow> int list" where
  "entry_pids es =
     List.map_filter (\<lambda>e. case e of EntryName nm \<Rightarrow> Option.bind nm parse_i32 | EntryError \<Rightarrow> None) es"

lemma proc_loop_gathers:
  "proc_loop page_kb read_stat es rs c =
     (rs @ List.map_filter (\<lambda>p. known (stat_answer page_kb p (read_stat p))) (entry_pids es),
      c \<and> EntryError \<notin> set es
        \<and> list_all (\<lambda>p. \<not> is_unknown (stat_answer page_kb p (read_stat p))) (entry_pids es))"
proof (induction es arbitrary: rs c)
  case (Cons e es)
  show ?case
  proof (cases e)
    case (EntryName nm)
    show ?thesis
    proof (cases "Option.bind nm parse_i32")
      case (Some pid)
      show ?thesis
        by (cases "read_stat pid")
          (simp_all add: EntryName Some Cons.IH entry_pids_def List.map_filter_simps stat_answer_def split: option.split)
    qed (simp add: EntryName Cons.IH entry_pids_def List.map_filter_simps)
  qed (simp add: Cons.IH entry_pids_def List.map_filter_simps)
qed (simp add: entry_pids_def List.map_filter_simps)

lemma from_proc_listing_gathers:
  "from_proc_listing page_kb entries read_stat own =
     gathered (\<lambda>p. stat_answer page_kb p (read_stat p)) (entry_pids entries) (EntryError \<notin> set entries) own"
  by (simp add: from_proc_listing_def proc_loop_gathers gathered_def Let_def)

lemma libproc_loop_gathers:
  "list_all (\<lambda>p. 0 < p) ps \<Longrightarrow>
   libproc_loop verified pidinfo sysctl ps rs c =
     (rs @ List.map_filter (\<lambda>p. known (process_macos verified pidinfo sysctl p)) ps,
      c \<and> list_all (\<lambda>p. \<not> is_unknown (process_macos verified pidinfo sysctl p)) ps)"
proof (induction ps arbitrary: rs c)
  case (Cons p ps)
  then show ?case
    by (cases "sysctl_proc verified sysctl p")
       (simp_all add: process_macos_def List.map_filter_simps split: option.split)
qed (simp add: List.map_filter_simps)

lemma read_libproc_gathers:
  "read_libproc verified pidinfo sysctl (Some (pids, whole)) own =
     gathered (process_macos verified pidinfo sysctl) (filter (\<lambda>p. 0 < p) pids) whole own"
  by (simp add: read_libproc_def libproc_loop_gathers list_all_iff gathered_def Let_def)

text \<open>No field of a \<open>kinfo_proc\<close> row is believed unless the layout read this process back.\<close>

theorem kinfo_believed_when_verified:
  assumes "sysctl_proc (layout_verified rounds) sysctl pid = Known r"
  shows "(\<exists>sysctl' a own rw. (sysctl', a) \<in> set rounds \<and> own_facts_and_row sysctl' a = Some (own, rw)
            \<and> layout_reads_itself rw KINFO own)
    \<and> (\<exists>len buf. sysctl pid = SysctlRow len buf \<and> KINFO_SIZE \<le> len \<and> read_i32 buf P_PID_OFFSET = pid)"
proof
  have v: "layout_verified rounds" and k: "\<exists>buf. kinfo_row sysctl pid = Known buf"
    using assms by (auto simp: sysctl_proc_def split: if_splits Answer.splits)
  from k show "\<exists>len buf. sysctl pid = SysctlRow len buf \<and> KINFO_SIZE \<le> len \<and> read_i32 buf P_PID_OFFSET = pid"
    by (auto simp: kinfo_row_def layout_finds_itself_def split: sysctl_answer.splits if_splits)
  from v obtain own rw xs where m:
      "List.map_filter (\<lambda>(sysctl, a). own_facts_and_row sysctl a) (take 3 rounds) = (own, rw) # xs"
      and l: "layout_reads_itself rw KINFO own"
    by (auto simp: layout_verified_def split: list.splits)
  have "(own, rw) \<in> set (List.map_filter (\<lambda>(sysctl, a). own_facts_and_row sysctl a) (take 3 rounds))"
    by (simp add: m)
  then obtain p where "p \<in> set (take 3 rounds)" "own_facts_and_row (fst p) (snd p) = Some (own, rw)"
    by (auto simp: List.map_filter_def)
  with l show "\<exists>sysctl' a own rw. (sysctl', a) \<in> set rounds \<and> own_facts_and_row sysctl' a = Some (own, rw)
            \<and> layout_reads_itself rw KINFO own"
    by (metis in_set_takeD prod.collapse)
qed

text \<open>An example: a process whose name has a parenthesis, an entry that is no pid, and a process that went.\<close>

definition example_entries :: "dir_entry list" where
  "example_entries = map (EntryName \<circ> Some \<circ> ustr) [''7'', ''self'', ''9'']"

definition example_stat :: "int \<Rightarrow> stat_read" where
  "example_stat pid =
     (if pid = 7 then StatText (ustr ''7 (a) b) S 1 7 7 0 0 0 0 0 0 0 0 0 0 0 0 0 0 0 55 0 3 '') else StatGone)"

lemma example_pids: "entry_pids example_entries = [7, 9]"
  by (simp add: example_entries_def entry_pids_def List.map_filter_simps parse_i32_def parse_unsigned_def all_digits_def
      digit_char_def ustr_def digits_value_def)

lemma example_complete: "is_complete (from_proc_listing 4 example_entries example_stat 7)"
proof -
  have "split_whitespace (ustr '' S 1 7 7 0 0 0 0 0 0 0 0 0 0 0 0 0 0 0 55 0 3 '') =
      map ustr [''S'', ''1'', ''7'', ''7'', ''0'', ''0'', ''0'', ''0'', ''0'', ''0'', ''0'', ''0'', ''0'', ''0'',
        ''0'', ''0'', ''0'', ''0'', ''0'', ''55'', ''0'', ''3'']"
    by (simp add: split_whitespace.simps is_whitespace_def ustr_def)
  then have "\<exists>r. stat_answer 4 7 (example_stat 7) = Known r"
    by (simp add: example_stat_def stat_answer_def parse_proc_stat_def after_rfind_def after_last_def ustr_def field_def
        parse_i32_def parse_unsigned_def all_digits_def digit_char_def digits_value_def)
  then obtain r where "stat_answer 4 7 (example_stat 7) = Known r" by blast
  moreover have "stat_answer 4 9 (example_stat 9) = NotPresent" by (simp add: example_stat_def stat_answer_def)
  moreover have "EntryError \<notin> set example_entries" by (simp add: example_entries_def)
  ultimately show ?thesis
    unfolding from_proc_listing_gathers linux.complete_iff linux.readable_iff example_pids by simp
qed

text \<open>
  C32. Absence is proved, never inferred. A row that a table read from \<open>/proc\<close> answers with is the row
  that reading that process gave. A table that claims to be complete saw no error in the listing, and
  for every process listed it answers exactly what reading that one process answers: it says that a
  process is not there only where the kernel said so, never because a row was refused or did not parse.
\<close>

theorem absence_is_proved:
  assumes "from_proc_listing page_kb entries read_stat own = t"
  shows "(\<forall>pid r. row t pid = Known r \<longrightarrow>
            pid \<in> set (entry_pids entries) \<and> stat_answer page_kb pid (read_stat pid) = Known r)
    \<and> (is_complete t \<longrightarrow> EntryError \<notin> set entries
         \<and> (\<forall>pid \<in> set (entry_pids entries). row t pid = stat_answer page_kb pid (read_stat pid)))"
proof -
  have t: "t = gathered (\<lambda>p. stat_answer page_kb p (read_stat p)) (entry_pids entries) (EntryError \<notin> set entries) own"
    using assms by (simp add: from_proc_listing_gathers)
  note k = linux.known_is_true [of page_kb read_stat "entry_pids entries" "EntryError \<notin> set entries" own, folded t]
    and c = linux.complete_answers [of page_kb read_stat "entry_pids entries" "EntryError \<notin> set entries" own, folded t]
    and i = linux.complete_iff [of page_kb read_stat "entry_pids entries" "EntryError \<notin> set entries" own, folded t]
  show ?thesis using k c i unfolding row_def by blast
qed

theorem absence_is_proved_witness:
  "row (from_proc_listing 4 example_entries example_stat 7) 9 = NotPresent"
  using absence_is_proved [of 4 example_entries example_stat 7, OF refl] example_complete
  by (simp add: example_pids example_stat_def stat_answer_def)

end
