(* ===== verification/Operation_Record.thy ===== *)
theory Operation_Record
  imports Serde_Derive Proc_Table Polling "HOL-Library.Monad_Syntax"
begin

text \<open>
  The operation record (\<^verbatim>\<open>crates/pty-core/src/operation/record.rs\<close>): exact process identities and what a
  process table says of them, the record with its derived JSON form and its invariants, and the store
  that creates a record once and then moves it by compare-and-swap. The store is the content of one
  record file; what the file system does is an argument. The failure that a debug build injects into a
  named write is left out. Reading text as JSON and printing it are arguments.
\<close>

section \<open>Processes\<close>

record ProcessId =
  pi_pid :: u32
  pi_start_token :: rstr
  pi_boot_id :: rstr
  pi_uid :: u32

datatype Liveness = Live | Gone | LivenessUnknown rstr

definition has_prefix :: "rstr \<Rightarrow> rstr \<Rightarrow> bool" where
  "has_prefix p s \<longleftrightarrow> take (length p) s = p"

text \<open>\<open>ProcessId::of\<close>, with the boot identity, the process table's answer for the pid, and the uid.\<close>

definition process_id_of :: "rstr option \<Rightarrow> Row Answer \<Rightarrow> u32 \<Rightarrow> u32 \<Rightarrow> rstr + ProcessId" where
  "process_id_of boot_identity answer uid p =
     (case boot_identity of
        None \<Rightarrow> Inl (ustr ''the host boot identity is unavailable'')
      | Some boot_id \<Rightarrow>
          (case answer of
             Known r \<Rightarrow>
               (case r_identity r of
                  Some tok \<Rightarrow> Inr \<lparr>pi_pid = p, pi_start_token = tok, pi_boot_id = boot_id, pi_uid = uid\<rparr>
                | None \<Rightarrow> Inl (ustr ''process '' @ dec (unat p) @ ustr '' has no readable start identity''))
           | NotPresent \<Rightarrow> Inl (ustr ''process '' @ dec (unat p) @ ustr '' is not running'')
           | NotKnown _ \<Rightarrow> Inl (ustr ''process '' @ dec (unat p) @ ustr '' could not be read'')))"

definition liveness :: "ProcessId \<Rightarrow> ProcTable \<Rightarrow> rstr option \<Rightarrow> Liveness" where
  "liveness p table boot =
     (case boot of
        None \<Rightarrow> LivenessUnknown (ustr ''boot-identity-unavailable'')
      | Some boot_id \<Rightarrow>
          (let legacy = has_prefix (ustr ''darwin:{'') (pi_boot_id p) in
           if boot_id \<noteq> pi_boot_id p \<and> \<not> legacy then Gone
           else
             (case row table (sint (pi_pid p)) of
                Known r \<Rightarrow>
                  (case r_identity r of
                     Some tok \<Rightarrow>
                       if tok \<noteq> pi_start_token p then Gone
                       else if is_zombie r then Gone
                       else if is_exiting r then LivenessUnknown (ustr ''exiting'')
                       else if legacy then LivenessUnknown (ustr ''boot-identity-legacy'')
                       else Live
                   | None \<Rightarrow> LivenessUnknown (ustr ''start-identity-unreadable''))
              | NotPresent \<Rightarrow>
                  if is_complete table then Gone else LivenessUnknown (ustr ''process-table-incomplete'')
              | NotKnown _ \<Rightarrow> LivenessUnknown (ustr ''process-table-unreadable''))))"

definition table_of :: "Row Answer \<Rightarrow> ProcTable" where
  "table_of answer =
     (case answer of
        Known r \<Rightarrow> from_rows [r]
      | NotPresent \<Rightarrow> from_rows []
      | NotKnown _ \<Rightarrow> unreadable)"

definition liveness_now :: "ProcessId \<Rightarrow> Row Answer \<Rightarrow> rstr option \<Rightarrow> Liveness" where
  "liveness_now p answer boot = liveness p (table_of answer) boot"

text \<open>Microseconds.\<close>

definition AFTER_EXIT_CAP :: nat where "AFTER_EXIT_CAP = 10000"
definition AFTER_EXIT_POLL :: nat where "AFTER_EXIT_POLL = 200"

text \<open>\<open>read k\<close> is the table of the round \<open>k\<close> and \<open>clock k\<close> the time after it.\<close>

definition liveness_after_exit_with ::
  "ProcessId \<Rightarrow> rstr option \<Rightarrow> nat \<Rightarrow> nat \<Rightarrow> (nat \<Rightarrow> ProcTable) \<Rightarrow> (nat \<Rightarrow> nat) \<Rightarrow> Liveness option" where
  "liveness_after_exit_with p boot cap started read clock =
     poll_until (\<lambda>l. l = Gone) (started + cap) (\<lambda>k. liveness p (read k) boot) clock 0"

section \<open>The record\<close>

datatype WriterRole = RoleNone | RoleLauncher | RoleProducer | RoleRecovery

record Writer =
  wr_role :: WriterRole
  wr_id :: "ProcessId option"

definition writer_none :: Writer where
  "writer_none = \<lparr>wr_role = RoleNone, wr_id = None\<rparr>"

definition writer_of :: "WriterRole \<Rightarrow> ProcessId \<Rightarrow> Writer" where
  "writer_of r p = \<lparr>wr_role = r, wr_id = Some p\<rparr>"

datatype OperationState = StReserved | StPending | StCancelled | StLaunched | StTransferred

fun state_str :: "OperationState \<Rightarrow> rstr" where
  "state_str StReserved = ustr ''reserved''"
| "state_str StPending = ustr ''pending''"
| "state_str StCancelled = ustr ''cancelled''"
| "state_str StLaunched = ustr ''launched''"
| "state_str StTransferred = ustr ''transferred''"

datatype OperationPhase =
    PhReserved | PhClaimed | PhDaemonForking | PhDaemonGated | PhChildForking | PhChildPreparing | PhHeld

datatype Cause =
    CauseCancel | CauseOwnerEof | CauseMalformed | CauseOccupied | CausePredecessorMismatch
  | CauseWithdrawn | CauseProducerLost | CauseLaunch | CauseRefused

record Decision =
  dc_cause :: Cause
  dc_at :: rstr
  dc_request_id :: "rstr option"
  dc_observed :: "rstr option"

definition decision_now :: "rstr \<Rightarrow> Cause \<Rightarrow> rstr option \<Rightarrow> rstr option \<Rightarrow> Decision" where
  "decision_now now c request_id observed =
     \<lparr>dc_cause = c, dc_at = now, dc_request_id = request_id, dc_observed = observed\<rparr>"

record Participants =
  pa_launcher :: "ProcessId option"
  pa_producer :: "ProcessId option"
  pa_child :: "ProcessId option"

definition no_participants :: Participants where
  "no_participants = \<lparr>pa_launcher = None, pa_producer = None, pa_child = None\<rparr>"

record Incarnation =
  inc_id :: rstr
  inc_runtime_id :: rstr
  inc_generation :: rstr
  inc_daemon :: ProcessId
  inc_child :: "ProcessId option"

datatype RetirementPhase = RetRequested | RetVerified | RetIncomplete

record Retirement =
  rt_request_id :: rstr
  rt_phase :: RetirementPhase
  rt_evidence :: json

record Transfer =
  tr_request_id :: rstr
  tr_committed_at :: rstr
  tr_released :: "bool option"

record OperationRecord =
  op_schema :: rstr
  op_revision :: u64
  op_updated_at :: rstr
  op_operation_id :: rstr
  op_envelope :: json
  op_envelope_sha256 :: rstr
  op_writer :: Writer
  op_state :: OperationState
  op_phase :: OperationPhase
  op_decision :: "Decision option"
  op_participants :: Participants
  op_incarnation :: "Incarnation option"
  op_retirement :: "Retirement option"
  op_transfer :: "Transfer option"

definition RECORD_SCHEMA :: rstr where
  "RECORD_SCHEMA = ustr ''pty.launch-operation.v1''"

definition reserved :: "rstr \<Rightarrow> Envelope \<Rightarrow> OperationRecord" where
  "reserved now env =
     \<lparr>op_schema = RECORD_SCHEMA, op_revision = 1, op_updated_at = now, op_operation_id = en_operation_id env,
      op_envelope = en_value env, op_envelope_sha256 = en_sha256 env, op_writer = writer_none,
      op_state = StReserved, op_phase = PhReserved, op_decision = None, op_participants = no_participants,
      op_incarnation = None, op_retirement = None, op_transfer = None\<rparr>"

definition incarnation_id :: "OperationRecord \<Rightarrow> rstr option" where
  "incarnation_id r = map_option inc_id (op_incarnation r)"

definition cause_of :: "OperationRecord \<Rightarrow> Cause option" where
  "cause_of r = map_option dc_cause (op_decision r)"

definition retirement_of :: "OperationRecord \<Rightarrow> RetirementPhase option" where
  "retirement_of r = map_option rt_phase (op_retirement r)"

definition requested :: "OperationRecord \<Rightarrow> bool" where
  "requested r \<longleftrightarrow> retirement_of r = Some RetRequested"

definition retirement_done :: "OperationRecord \<Rightarrow> bool" where
  "retirement_done r \<longleftrightarrow> retirement_of r \<in> {Some RetVerified, Some RetIncomplete}"

text \<open>The table over the states.\<close>

definition state_ok :: "OperationRecord \<Rightarrow> bool" where
  "state_ok r =
     (case op_state r of
        StReserved \<Rightarrow>
          op_phase r = PhReserved \<and> cause_of r = None \<and> op_incarnation r = None \<and> op_transfer r = None
          \<and> op_participants r = no_participants \<and> wr_role (op_writer r) \<in> {RoleNone, RoleRecovery}
          \<and> \<not> retirement_done r
      | StPending \<Rightarrow>
          op_phase r \<in> {PhClaimed, PhDaemonForking, PhDaemonGated} \<and> cause_of r = None
          \<and> op_incarnation r = None \<and> op_transfer r = None \<and> pa_launcher (op_participants r) \<noteq> None
          \<and> wr_role (op_writer r) \<noteq> RoleNone \<and> \<not> retirement_done r
      | StCancelled \<Rightarrow>
          (case cause_of r of Some c \<Rightarrow> c \<noteq> CauseLaunch | None \<Rightarrow> False) \<and> op_incarnation r = None \<and> op_transfer r = None
          \<and> wr_role (op_writer r) = RoleNone \<and> \<not> requested r
      | StLaunched \<Rightarrow>
          cause_of r = Some CauseLaunch \<and> op_incarnation r \<noteq> None \<and> op_transfer r = None
          \<and> op_phase r \<in> {PhDaemonGated, PhChildForking, PhChildPreparing, PhHeld}
          \<and> (wr_role (op_writer r) \<noteq> RoleNone \<or> retirement_done r) \<and> wr_role (op_writer r) \<noteq> RoleLauncher
      | StTransferred \<Rightarrow>
          cause_of r = Some CauseLaunch \<and> op_incarnation r \<noteq> None \<and> op_transfer r \<noteq> None
          \<and> op_phase r = PhHeld \<and> retirement_of r = None
          \<and> wr_role (op_writer r) \<in> {RoleProducer, RoleNone})"

definition check :: "OperationRecord \<Rightarrow> rstr + unit" where
  "check r =
     (let fail = (\<lambda>what. Inl (ustr ''inconsistent record: '' @ what)) in
      if (wr_role (op_writer r) = RoleNone) \<noteq> (wr_id (op_writer r) = None)
      then fail (ustr ''writer role and id disagree'')
      else if wr_role (op_writer r) = RoleRecovery \<and> \<not> requested r
      then fail (ustr ''a recovery writer without a requested retirement'')
      else if wr_role (op_writer r) = RoleNone \<and> requested r
      then fail (ustr ''a requested retirement without a writer'')
      else if retirement_done r \<and> wr_role (op_writer r) \<noteq> RoleNone
      then fail (ustr ''a finished retirement still has a writer'')
      else if state_ok r then Inr ()
      else fail (ustr ''state, phase, writer and fields disagree''))"

section \<open>The derived JSON form\<close>

definition role_names :: "(rstr \<times> WriterRole) list" where
  "role_names = [(ustr ''none'', RoleNone), (ustr ''launcher'', RoleLauncher), (ustr ''producer'', RoleProducer),
     (ustr ''recovery'', RoleRecovery)]"

definition state_names :: "(rstr \<times> OperationState) list" where
  "state_names = [(ustr ''reserved'', StReserved), (ustr ''pending'', StPending), (ustr ''cancelled'', StCancelled),
     (ustr ''launched'', StLaunched), (ustr ''transferred'', StTransferred)]"

definition phase_names :: "(rstr \<times> OperationPhase) list" where
  "phase_names = [(ustr ''reserved'', PhReserved), (ustr ''claimed'', PhClaimed),
     (ustr ''daemon-forking'', PhDaemonForking), (ustr ''daemon-gated'', PhDaemonGated),
     (ustr ''child-forking'', PhChildForking), (ustr ''child-preparing'', PhChildPreparing), (ustr ''held'', PhHeld)]"

definition cause_names :: "(rstr \<times> Cause) list" where
  "cause_names = [(ustr ''cancel'', CauseCancel), (ustr ''owner-eof'', CauseOwnerEof),
     (ustr ''malformed'', CauseMalformed), (ustr ''occupied'', CauseOccupied),
     (ustr ''predecessor-mismatch'', CausePredecessorMismatch), (ustr ''withdrawn'', CauseWithdrawn),
     (ustr ''producer-lost'', CauseProducerLost), (ustr ''launch'', CauseLaunch), (ustr ''refused'', CauseRefused)]"

definition retirement_names :: "(rstr \<times> RetirementPhase) list" where
  "retirement_names = [(ustr ''requested'', RetRequested), (ustr ''verified'', RetVerified),
     (ustr ''incomplete'', RetIncomplete)]"

text \<open>The name of a variant is the first that has it.\<close>

fun variant_name :: "(rstr \<times> 'a) list \<Rightarrow> 'a \<Rightarrow> rstr" where
  "variant_name [] v = []"
| "variant_name ((k, x) # xs) v = (if x = v then k else variant_name xs v)"

definition json_variant :: "(rstr \<times> 'a) list \<Rightarrow> 'a \<Rightarrow> json" where
  "json_variant names v = JString (variant_name names v)"

definition process_id_json :: "ProcessId \<Rightarrow> json" where
  "process_id_json p =
     JObject [(ustr ''pid'', json_u32 (pi_pid p)), (ustr ''startToken'', JString (pi_start_token p)),
       (ustr ''bootId'', JString (pi_boot_id p)), (ustr ''uid'', json_u32 (pi_uid p))]"

definition raw_process_id :: "raw_json \<Rightarrow> ProcessId option" where
  "raw_process_id x =
     do { get \<leftarrow> struct_fields (map ustr [''pid'', ''startToken'', ''bootId'', ''uid'']) x;
          p \<leftarrow> required raw_u32 get (ustr ''pid'');
          t \<leftarrow> required raw_string get (ustr ''startToken'');
          b \<leftarrow> required raw_string get (ustr ''bootId'');
          u \<leftarrow> required raw_u32 get (ustr ''uid'');
          Some \<lparr>pi_pid = p, pi_start_token = t, pi_boot_id = b, pi_uid = u\<rparr> }"

definition writer_json :: "Writer \<Rightarrow> json" where
  "writer_json w =
     JObject [(ustr ''role'', json_variant role_names (wr_role w)), (ustr ''id'', json_option process_id_json (wr_id w))]"

definition raw_writer :: "raw_json \<Rightarrow> Writer option" where
  "raw_writer x =
     do { get \<leftarrow> struct_fields (map ustr [''role'', ''id'']) x;
          r \<leftarrow> required (raw_variant role_names) get (ustr ''role'');
          i \<leftarrow> optional raw_process_id get (ustr ''id'');
          Some \<lparr>wr_role = r, wr_id = i\<rparr> }"

definition decision_json :: "Decision \<Rightarrow> json" where
  "decision_json d =
     JObject [(ustr ''cause'', json_variant cause_names (dc_cause d)), (ustr ''at'', JString (dc_at d)),
       (ustr ''requestId'', json_option JString (dc_request_id d)),
       (ustr ''observed'', json_option JString (dc_observed d))]"

definition raw_decision :: "raw_json \<Rightarrow> Decision option" where
  "raw_decision x =
     do { get \<leftarrow> struct_fields (map ustr [''cause'', ''at'', ''requestId'', ''observed'']) x;
          c \<leftarrow> required (raw_variant cause_names) get (ustr ''cause'');
          a \<leftarrow> required raw_string get (ustr ''at'');
          r \<leftarrow> optional raw_string get (ustr ''requestId'');
          ob \<leftarrow> optional raw_string get (ustr ''observed'');
          Some \<lparr>dc_cause = c, dc_at = a, dc_request_id = r, dc_observed = ob\<rparr> }"

definition participants_json :: "Participants \<Rightarrow> json" where
  "participants_json p =
     JObject [(ustr ''launcher'', json_option process_id_json (pa_launcher p)),
       (ustr ''producer'', json_option process_id_json (pa_producer p)),
       (ustr ''child'', json_option process_id_json (pa_child p))]"

definition raw_participants :: "raw_json \<Rightarrow> Participants option" where
  "raw_participants x =
     do { get \<leftarrow> struct_fields (map ustr [''launcher'', ''producer'', ''child'']) x;
          l \<leftarrow> optional raw_process_id get (ustr ''launcher'');
          p \<leftarrow> optional raw_process_id get (ustr ''producer'');
          c \<leftarrow> optional raw_process_id get (ustr ''child'');
          Some \<lparr>pa_launcher = l, pa_producer = p, pa_child = c\<rparr> }"

definition incarnation_json :: "Incarnation \<Rightarrow> json" where
  "incarnation_json i =
     JObject [(ustr ''id'', JString (inc_id i)), (ustr ''runtimeId'', JString (inc_runtime_id i)),
       (ustr ''generation'', JString (inc_generation i)), (ustr ''daemon'', process_id_json (inc_daemon i)),
       (ustr ''child'', json_option process_id_json (inc_child i))]"

definition raw_incarnation :: "raw_json \<Rightarrow> Incarnation option" where
  "raw_incarnation x =
     do { get \<leftarrow> struct_fields (map ustr [''id'', ''runtimeId'', ''generation'', ''daemon'', ''child'']) x;
          i \<leftarrow> required raw_string get (ustr ''id'');
          r \<leftarrow> required raw_string get (ustr ''runtimeId'');
          g \<leftarrow> required raw_string get (ustr ''generation'');
          d \<leftarrow> required raw_process_id get (ustr ''daemon'');
          c \<leftarrow> optional raw_process_id get (ustr ''child'');
          Some \<lparr>inc_id = i, inc_runtime_id = r, inc_generation = g, inc_daemon = d, inc_child = c\<rparr> }"

definition retirement_json :: "Retirement \<Rightarrow> json" where
  "retirement_json r =
     JObject [(ustr ''requestId'', JString (rt_request_id r)),
       (ustr ''phase'', json_variant retirement_names (rt_phase r)), (ustr ''evidence'', rt_evidence r)]"

definition raw_retirement :: "raw_json \<Rightarrow> Retirement option" where
  "raw_retirement x =
     do { get \<leftarrow> struct_fields (map ustr [''requestId'', ''phase'', ''evidence'']) x;
          q \<leftarrow> required raw_string get (ustr ''requestId'');
          p \<leftarrow> required (raw_variant retirement_names) get (ustr ''phase'');
          e \<leftarrow> required (Some \<circ> raw_value) get (ustr ''evidence'');
          Some \<lparr>rt_request_id = q, rt_phase = p, rt_evidence = e\<rparr> }"

definition transfer_json :: "Transfer \<Rightarrow> json" where
  "transfer_json t =
     JObject [(ustr ''requestId'', JString (tr_request_id t)), (ustr ''committedAt'', JString (tr_committed_at t)),
       (ustr ''released'', json_option JBool (tr_released t))]"

definition raw_transfer :: "raw_json \<Rightarrow> Transfer option" where
  "raw_transfer x =
     do { get \<leftarrow> struct_fields (map ustr [''requestId'', ''committedAt'', ''released'']) x;
          q \<leftarrow> required raw_string get (ustr ''requestId'');
          c \<leftarrow> required raw_string get (ustr ''committedAt'');
          r \<leftarrow> optional raw_bool get (ustr ''released'');
          Some \<lparr>tr_request_id = q, tr_committed_at = c, tr_released = r\<rparr> }"

definition record_json :: "OperationRecord \<Rightarrow> json" where
  "record_json r =
     JObject [(ustr ''schema'', JString (op_schema r)), (ustr ''revision'', json_u64 (op_revision r)),
       (ustr ''updatedAt'', JString (op_updated_at r)), (ustr ''operationId'', JString (op_operation_id r)),
       (ustr ''envelope'', op_envelope r), (ustr ''envelopeSha256'', JString (op_envelope_sha256 r)),
       (ustr ''writer'', writer_json (op_writer r)), (ustr ''state'', json_variant state_names (op_state r)),
       (ustr ''phase'', json_variant phase_names (op_phase r)),
       (ustr ''decision'', json_option decision_json (op_decision r)),
       (ustr ''participants'', participants_json (op_participants r)),
       (ustr ''incarnation'', json_option incarnation_json (op_incarnation r)),
       (ustr ''retirement'', json_option retirement_json (op_retirement r)),
       (ustr ''transfer'', json_option transfer_json (op_transfer r))]"

definition record_keys :: "rstr list" where
  "record_keys = map ustr [''schema'', ''revision'', ''updatedAt'', ''operationId'', ''envelope'', ''envelopeSha256'',
     ''writer'', ''state'', ''phase'', ''decision'', ''participants'', ''incarnation'', ''retirement'', ''transfer'']"

definition raw_record :: "raw_json \<Rightarrow> OperationRecord option" where
  "raw_record x =
     do { get \<leftarrow> struct_fields record_keys x;
          schema \<leftarrow> required raw_string get (ustr ''schema'');
          revision \<leftarrow> required raw_u64 get (ustr ''revision'');
          updated \<leftarrow> required raw_string get (ustr ''updatedAt'');
          oid \<leftarrow> required raw_string get (ustr ''operationId'');
          env \<leftarrow> required (Some \<circ> raw_value) get (ustr ''envelope'');
          sha \<leftarrow> required raw_string get (ustr ''envelopeSha256'');
          writer \<leftarrow> required raw_writer get (ustr ''writer'');
          st \<leftarrow> required (raw_variant state_names) get (ustr ''state'');
          ph \<leftarrow> required (raw_variant phase_names) get (ustr ''phase'');
          dcn \<leftarrow> optional raw_decision get (ustr ''decision'');
          parts \<leftarrow> required raw_participants get (ustr ''participants'');
          inc \<leftarrow> optional raw_incarnation get (ustr ''incarnation'');
          ret \<leftarrow> optional raw_retirement get (ustr ''retirement'');
          tra \<leftarrow> optional raw_transfer get (ustr ''transfer'');
          Some \<lparr>op_schema = schema, op_revision = revision, op_updated_at = updated, op_operation_id = oid,
                op_envelope = env, op_envelope_sha256 = sha, op_writer = writer, op_state = st, op_phase = ph,
                op_decision = dcn, op_participants = parts, op_incarnation = inc, op_retirement = ret,
                op_transfer = tra\<rparr> }"

text \<open>Equality of records: that of JSON values is blind to the order of keys.\<close>

definition retirement_eq :: "Retirement \<Rightarrow> Retirement \<Rightarrow> bool" where
  "retirement_eq a b \<longleftrightarrow>
     rt_request_id a = rt_request_id b \<and> rt_phase a = rt_phase b \<and> json_eq (rt_evidence a) (rt_evidence b)"

definition record_eq :: "OperationRecord \<Rightarrow> OperationRecord \<Rightarrow> bool" where
  "record_eq a b \<longleftrightarrow>
     op_schema a = op_schema b \<and> op_revision a = op_revision b \<and> op_updated_at a = op_updated_at b
     \<and> op_operation_id a = op_operation_id b \<and> json_eq (op_envelope a) (op_envelope b)
     \<and> op_envelope_sha256 a = op_envelope_sha256 b \<and> op_writer a = op_writer b
     \<and> op_state a = op_state b \<and> op_phase a = op_phase b \<and> op_decision a = op_decision b
     \<and> op_participants a = op_participants b \<and> op_incarnation a = op_incarnation b
     \<and> rel_option retirement_eq (op_retirement a) (op_retirement b) \<and> op_transfer a = op_transfer b"

section \<open>The store\<close>

text \<open>
  The text of a value and the tree of a text. The content of the record file is \<open>None\<close> when there is
  none. A read may fail without that; a write may fail before the new file replaces the old one, or
  after it, when only the directory could not be synced.
\<close>

record json_text =
  jt_print :: "json \<Rightarrow> bytes"
  jt_read :: "bytes \<Rightarrow> raw_json option"

datatype malformed = BadJson | BadSchema rstr | BadRecord rstr

datatype RecordReadError = ReadIo | ReadMalformed malformed

datatype WriteError = Stale OperationRecord | Missing | WriteRead RecordReadError | WriteIo

datatype CreateError = Exists | CreateIo

datatype write_fate = WriteDone | WriteLost | WriteUnsynced

datatype create_fate = DirOrLockFails | TempFails | LinkFails | LinkDone | LinkUnsynced

definition encode_record :: "json_text \<Rightarrow> OperationRecord \<Rightarrow> bytes" where
  "encode_record jt r = jt_print jt (record_json r) @ [10]"

text \<open>\<open>OperationStore::read\<close>.\<close>

definition read_record :: "json_text \<Rightarrow> bool \<Rightarrow> bytes option \<Rightarrow> RecordReadError + OperationRecord option" where
  "read_record jt io_fails disk =
     (if io_fails then Inl ReadIo
      else
        (case disk of
           None \<Rightarrow> Inr None
         | Some bs \<Rightarrow>
             (case Option.bind (jt_read jt bs) (\<lambda>x. if raw_complete x then raw_record x else None) of
                None \<Rightarrow> Inl (ReadMalformed BadJson)
              | Some r \<Rightarrow>
                  if op_schema r \<noteq> RECORD_SCHEMA then Inl (ReadMalformed (BadSchema (op_schema r)))
                  else (case check r of Inl e \<Rightarrow> Inl (ReadMalformed (BadRecord e)) | Inr _ \<Rightarrow> Inr (Some r)))))"

definition create_exclusive ::
  "json_text \<Rightarrow> create_fate \<Rightarrow> OperationRecord \<Rightarrow> bytes option \<Rightarrow> (CreateError + unit) \<times> bytes option" where
  "create_exclusive jt fate r disk =
     (if fate = DirOrLockFails \<or> fate = TempFails then (Inl CreateIo, disk)
      else if disk \<noteq> None then (Inl Exists, disk)
      else if fate = LinkFails then (Inl CreateIo, disk)
      else (if fate = LinkUnsynced then Inl CreateIo else Inr (), Some (encode_record jt r)))"

definition next_revision :: "rstr \<Rightarrow> OperationRecord \<Rightarrow> OperationRecord \<Rightarrow> OperationRecord" where
  "next_revision now expected nxt = nxt\<lparr>op_revision := op_revision expected + 1, op_updated_at := now\<rparr>"

definition write_cas ::
  "json_text \<Rightarrow> bool \<Rightarrow> write_fate \<Rightarrow> rstr \<Rightarrow> OperationRecord \<Rightarrow> OperationRecord \<Rightarrow> bytes option \<Rightarrow>
     (WriteError + OperationRecord) \<times> bytes option" where
  "write_cas jt io_fails fate now expected nxt disk =
     (case check nxt of
        Inl _ \<Rightarrow> (Inl WriteIo, disk)
      | Inr _ \<Rightarrow>
          (case read_record jt io_fails disk of
             Inl e \<Rightarrow> (Inl (WriteRead e), disk)
           | Inr None \<Rightarrow> (Inl Missing, disk)
           | Inr (Some current) \<Rightarrow>
               if \<not> record_eq current expected then (Inl (Stale current), disk)
               else
                 (let new = next_revision now expected nxt in
                  case fate of
                    WriteDone \<Rightarrow> (Inr new, Some (encode_record jt new))
                  | WriteLost \<Rightarrow> (Inl WriteIo, disk)
                  | WriteUnsynced \<Rightarrow> (Inl WriteIo, Some (encode_record jt new)))))"

section \<open>A record is read as it was written\<close>

lemma variant_roundtrip:
  "distinct (map fst names) \<Longrightarrow> v \<in> snd ` set names \<Longrightarrow>
     raw_variant names (raw_of (json_variant names v)) = Some v"
proof -
  assume d: "distinct (map fst names)" and v: "v \<in> snd ` set names"
  then have "(variant_name names v, v) \<in> set names"
  proof (induction names)
    case (Cons e names)
    then show ?case by (cases e) (auto split: if_splits)
  qed simp
  with d show ?thesis by (simp add: json_variant_def map_of_is_SomeI)
qed

lemma role_roundtrip [serde_simps]: "raw_variant role_names (raw_of (json_variant role_names v)) = Some v"
  by (rule variant_roundtrip) (cases v; simp add: role_names_def)+

lemma state_roundtrip [serde_simps]: "raw_variant state_names (raw_of (json_variant state_names v)) = Some v"
  by (rule variant_roundtrip) (cases v; simp add: state_names_def)+

lemma phase_roundtrip [serde_simps]: "raw_variant phase_names (raw_of (json_variant phase_names v)) = Some v"
  by (rule variant_roundtrip) (cases v; simp add: phase_names_def)+

lemma cause_roundtrip [serde_simps]: "raw_variant cause_names (raw_of (json_variant cause_names v)) = Some v"
  by (rule variant_roundtrip) (cases v; simp add: cause_names_def)+

lemma retirement_phase_roundtrip [serde_simps]:
  "raw_variant retirement_names (raw_of (json_variant retirement_names v)) = Some v"
  by (rule variant_roundtrip) (cases v; simp add: retirement_names_def)+

lemma process_id_roundtrip [serde_simps]: "raw_process_id (raw_of (process_id_json p)) = Some p"
  by (simp add: raw_process_id_def process_id_json_def serde_simps del: raw_of.simps)

lemma json_not_null [simp, serde_simps]:
  "process_id_json p \<noteq> JNull" "decision_json d \<noteq> JNull" "incarnation_json i \<noteq> JNull"
  "retirement_json r \<noteq> JNull" "transfer_json t \<noteq> JNull"
  by (simp_all add: process_id_json_def decision_json_def incarnation_json_def retirement_json_def transfer_json_def)

lemma writer_roundtrip [serde_simps]: "raw_writer (raw_of (writer_json w)) = Some w"
  by (simp add: raw_writer_def writer_json_def serde_simps del: raw_of.simps)

lemma decision_roundtrip [serde_simps]: "raw_decision (raw_of (decision_json d)) = Some d"
  by (simp add: raw_decision_def decision_json_def serde_simps del: raw_of.simps)

lemma participants_roundtrip [serde_simps]: "raw_participants (raw_of (participants_json p)) = Some p"
  by (simp add: raw_participants_def participants_json_def serde_simps del: raw_of.simps)

lemma incarnation_roundtrip [serde_simps]: "raw_incarnation (raw_of (incarnation_json i)) = Some i"
  by (simp add: raw_incarnation_def incarnation_json_def serde_simps del: raw_of.simps)

lemma retirement_roundtrip [serde_simps]:
  "json_wf (rt_evidence r) \<Longrightarrow> raw_retirement (raw_of (retirement_json r)) = Some r"
  by (simp add: raw_retirement_def retirement_json_def serde_simps del: raw_of.simps)

lemma transfer_roundtrip [serde_simps]: "raw_transfer (raw_of (transfer_json t)) = Some t"
  by (simp add: raw_transfer_def transfer_json_def serde_simps del: raw_of.simps)

text \<open>The values inside a record: an object of \<open>serde_json\<close> never repeats a key.\<close>

definition record_wf :: "OperationRecord \<Rightarrow> bool" where
  "record_wf r \<longleftrightarrow> json_wf (op_envelope r) \<and> (case op_retirement r of None \<Rightarrow> True | Some t \<Rightarrow> json_wf (rt_evidence t))"

lemma record_roundtrip [serde_simps]:
  assumes "record_wf r"
  shows "raw_record (raw_of (record_json r)) = Some r"
proof -
  have "nullable raw_retirement (raw_of (json_option retirement_json (op_retirement r))) = Some (op_retirement r)"
    using assms by (intro nullable_option) (auto simp: record_wf_def retirement_roundtrip)
  moreover have "json_wf (op_envelope r)" using assms by (simp add: record_wf_def)
  ultimately show ?thesis
    by (simp add: raw_record_def record_json_def serde_simps del: raw_of.simps)
qed

section \<open>Identity\<close>

text \<open>
  Gone is proved: when the liveness of a process of this boot, by a table read from \<open>/proc\<close>, is "gone",
  then reading that pid gave either no such process, or another process, or a zombie; it was not
  refused and did not fail to parse.
\<close>

lemma gone_is_proved:
  assumes "liveness p (from_proc_listing page_kb entries read_stat own) (Some (pi_boot_id p)) = Gone"
    and "sint (pi_pid p) \<in> set (entry_pids entries)"
  shows "(case stat_answer page_kb (sint (pi_pid p)) (read_stat (sint (pi_pid p))) of
            NotPresent \<Rightarrow> True
          | Known r \<Rightarrow> (\<exists>tok. r_identity r = Some tok \<and> (tok \<noteq> pi_start_token p \<or> is_zombie r))
          | NotKnown _ \<Rightarrow> False)"
proof -
  let ?pid = "sint (pi_pid p)"
  let ?t = "from_proc_listing page_kb entries read_stat own"
  have t: "?t = gathered (\<lambda>p. stat_answer page_kb p (read_stat p)) (entry_pids entries) (EntryError \<notin> set entries) own"
    by (rule from_proc_listing_gathers)
  show ?thesis
  proof (cases "row ?t ?pid")
    case (Known r)
    then have "stat_answer page_kb ?pid (read_stat ?pid) = Known r"
      unfolding row_def t by (rule linux.known_is_true [THEN conjunct2])
    with assms(1) Known show ?thesis
      by (auto simp: liveness_def Let_def split: option.splits if_splits)
  next
    case NotPresent
    then have c: "is_complete ?t" using assms(1) by (auto simp: liveness_def Let_def split: if_splits)
    have "row ?t ?pid = stat_answer page_kb ?pid (read_stat ?pid)"
      using linux.complete_answers [OF c [unfolded t] assms(2)] by (simp add: row_def t)
    with NotPresent show ?thesis by simp
  next
    case (NotKnown u)
    with assms(1) show ?thesis by (auto simp: liveness_def Let_def split: if_splits)
  qed
qed

section \<open>Waiting for an exit\<close>

text \<open>
  Waiting for an observed exit ends. If every sleep takes at least the time asked for, the wait
  returns, after at most one read more than there are polls in the cap; it answers with its last
  reading, which is "gone" or was taken at the deadline, and no earlier reading was "gone".
\<close>

theorem liveness_after_exit_returns:
  assumes "\<And>k. clock k + AFTER_EXIT_POLL \<le> clock (Suc k)" and "started \<le> clock 0"
  shows "\<exists>n. n \<le> (cap + AFTER_EXIT_POLL - 1) div AFTER_EXIT_POLL
    \<and> liveness_after_exit_with p boot cap started read clock = Some (liveness p (read n) boot)
    \<and> (liveness p (read n) boot = Gone \<or> started + cap \<le> clock n)
    \<and> (\<forall>j<n. liveness p (read j) boot \<noteq> Gone)"
  using poll_ends [OF assms(1) _ assms(2)] by (simp add: liveness_after_exit_with_def AFTER_EXIT_POLL_def)

theorem liveness_after_exit_returns_witness:
  "liveness_after_exit_with \<lparr>pi_pid = 9, pi_start_token = [], pi_boot_id = [], pi_uid = 0\<rparr> (Some [])
       AFTER_EXIT_CAP 5 (\<lambda>k. if k < 3 then unreadable else from_rows []) (\<lambda>k. 5 + 200 * k) = Some Gone"
proof -
  let ?p = "\<lparr>pi_pid = 9, pi_start_token = [], pi_boot_id = [], pi_uid = 0\<rparr> :: ProcessId"
  let ?read = "\<lambda>k :: nat. if k < 3 then unreadable else from_rows []"
  have g: "liveness ?p (?read 3) (Some []) = Gone"
    by (simp add: liveness_def Let_def row_def lookup_def from_rows_def is_complete_def has_prefix_def ustr_def)
  obtain n where n: "n \<le> 50" "liveness_after_exit_with ?p (Some []) AFTER_EXIT_CAP 5 ?read (\<lambda>k. 5 + 200 * k)
        = Some (liveness ?p (?read n) (Some []))"
      "liveness ?p (?read n) (Some []) = Gone \<or> 5 + AFTER_EXIT_CAP \<le> 5 + 200 * n"
  proof -
    have "\<And>k. 5 + 200 * k + AFTER_EXIT_POLL \<le> 5 + 200 * Suc k" by (simp add: AFTER_EXIT_POLL_def)
    from liveness_after_exit_returns [where clock = "\<lambda>k. 5 + 200 * k" and started = 5, OF this, of AFTER_EXIT_CAP ?p "Some []" ?read]
    obtain n where "n \<le> (AFTER_EXIT_CAP + AFTER_EXIT_POLL - 1) div AFTER_EXIT_POLL"
      "liveness_after_exit_with ?p (Some []) AFTER_EXIT_CAP 5 ?read (\<lambda>k. 5 + 200 * k) = Some (liveness ?p (?read n) (Some []))"
      "liveness ?p (?read n) (Some []) = Gone \<or> 5 + AFTER_EXIT_CAP \<le> 5 + 200 * n"
      by auto
    then show thesis by (intro that [of n]) (simp_all add: AFTER_EXIT_POLL_def AFTER_EXIT_CAP_def)
  qed
  have "liveness ?p (?read n) (Some []) = Gone"
  proof (cases "n < 3")
    case True
    with n(3) show ?thesis by (simp add: AFTER_EXIT_CAP_def)
  next
    case False
    with g show ?thesis by simp
  qed
  with n(2) show ?thesis by simp
qed

section \<open>Compare and swap\<close>

lemma read_record_ok:
  "read_record jt io_fails disk = Inr (Some r) \<Longrightarrow> check r = Inr () \<and> op_schema r = RECORD_SCHEMA"
  by (auto simp: read_record_def split: if_splits option.splits sum.splits)

lemma next_revision_fields [simp]:
  "op_schema (next_revision now e n) = op_schema n" "op_operation_id (next_revision now e n) = op_operation_id n"
  "op_envelope (next_revision now e n) = op_envelope n" "op_envelope_sha256 (next_revision now e n) = op_envelope_sha256 n"
  "op_writer (next_revision now e n) = op_writer n" "op_state (next_revision now e n) = op_state n"
  "op_phase (next_revision now e n) = op_phase n" "op_decision (next_revision now e n) = op_decision n"
  "op_participants (next_revision now e n) = op_participants n" "op_incarnation (next_revision now e n) = op_incarnation n"
  "op_retirement (next_revision now e n) = op_retirement n" "op_transfer (next_revision now e n) = op_transfer n"
  "op_revision (next_revision now e n) = op_revision e + 1"
  by (simp_all add: next_revision_def)

lemma check_next [simp]: "check (next_revision now expected nxt) = check nxt"
  by (simp only: check_def state_ok_def cause_of_def retirement_of_def requested_def retirement_done_def
      next_revision_fields)

lemma record_wf_next [simp]: "record_wf (next_revision now expected nxt) = record_wf nxt"
  by (simp add: record_wf_def next_revision_def)

lemma record_eq_refl: "record_wf r \<Longrightarrow> record_eq r r"
  by (cases "op_retirement r") (simp_all add: record_eq_def record_wf_def json_eq_refl retirement_eq_def)

text \<open>What reading is relied on for: the text of a record gives back its tree.\<close>

definition prints :: "json_text \<Rightarrow> OperationRecord \<Rightarrow> bool" where
  "prints jt r \<longleftrightarrow> jt_read jt (encode_record jt r) = Some (raw_of (record_json r))"

lemma read_encoded:
  assumes "prints jt r" and "record_wf r" and "op_schema r = RECORD_SCHEMA" and "check r = Inr ()"
  shows "read_record jt False (Some (encode_record jt r)) = Inr (Some r)"
  using assms by (simp add: read_record_def prints_def record_roundtrip raw_of_complete)

text \<open>
  C13. A write of the record is a compare-and-swap. It is done only when the record in the file is the
  expected one and the new one keeps the invariants; then the file holds the new record under the next
  revision, and reading it gives exactly that. A refused write leaves the file alone, a stale one
  returns the record that is there. When the file changed at all, also under an error, it is because
  the expected record was in it, and the new one is in it now.
\<close>

theorem write_is_compare_and_swap:
  assumes "write_cas jt io_fails fate now expected nxt disk = (result, disk')"
    and "prints jt (next_revision now expected nxt)" and "record_wf nxt" and "op_schema nxt = op_schema expected"
  shows "(\<forall>new. result = Inr new \<longrightarrow> new = next_revision now expected nxt)
    \<and> (\<forall>seen. result = Inl (Stale seen) \<longrightarrow>
         disk' = disk \<and> read_record jt False disk = Inr (Some seen) \<and> \<not> record_eq seen expected)
    \<and> (result = Inl Missing \<longrightarrow> disk' = disk \<and> disk = None)
    \<and> (isl result \<and> fate \<noteq> WriteUnsynced \<longrightarrow> disk' = disk)
    \<and> (disk' \<noteq> disk \<or> \<not> isl result \<longrightarrow>
         check nxt = Inr ()
         \<and> (\<exists>current. read_record jt False disk = Inr (Some current) \<and> record_eq current expected)
         \<and> read_record jt False disk' = Inr (Some (next_revision now expected nxt)))"
proof -
  note read = read_record_ok [of jt io_fails disk]
  have same: "read_record jt io_fails disk = Inr x \<Longrightarrow> read_record jt False disk = Inr x" for x
    by (simp add: read_record_def split: if_splits)
  have none: "read_record jt False disk = Inr None \<longleftrightarrow> disk = None"
    by (auto simp: read_record_def split: option.splits sum.splits if_splits)
  have new: "read_record jt False (Some (encode_record jt (next_revision now expected nxt))) =
      Inr (Some (next_revision now expected nxt))"
    if "check nxt = Inr ()" "read_record jt io_fails disk = Inr (Some cur)" "record_eq cur expected" for cur
    using assms that read [OF that(2)] by (intro read_encoded) (simp_all add: record_eq_def)
  show ?thesis
  proof (cases "\<exists>cur. check nxt = Inr () \<and> read_record jt io_fails disk = Inr (Some cur) \<and> record_eq cur expected")
    case True
    then obtain cur where c: "check nxt = Inr ()" "read_record jt io_fails disk = Inr (Some cur)" "record_eq cur expected"
      by blast
    show ?thesis
      using assms(1) c same [OF c(2)] new [OF c] by (cases fate) (auto simp: write_cas_def Let_def)
  next
    case False
    then show ?thesis
      using assms(1) same none
      by (cases "check nxt"; cases "read_record jt io_fails disk") (auto simp: write_cas_def split: option.splits)
  qed
qed

text \<open>A reservation and its withdrawal, with a text of one byte each.\<close>

definition example_reserved :: OperationRecord where
  "example_reserved = reserved (ustr ''t0'') \<lparr>en_line = [], en_sha256 = [], en_value = JNull, en_operation_id = ustr ''o'',
     en_owner = [], en_origin = [], en_subject = [], en_runtime_id = [], en_expected_incarnation = None\<rparr>"

definition example_withdrawn :: OperationRecord where
  "example_withdrawn = example_reserved\<lparr>op_state := StCancelled,
     op_decision := Some (decision_now (ustr ''t1'') CauseWithdrawn None None)\<rparr>"

definition example_text :: json_text where
  "example_text = \<lparr>jt_print = (\<lambda>v. if v = record_json example_reserved then [0] else [1]),
     jt_read = (\<lambda>bs. Some (raw_of (record_json (if bs = [0, 10] then example_reserved
                                          else next_revision (ustr ''t1'') example_reserved example_withdrawn))))\<rparr>"

lemma example_records:
  "check example_reserved = Inr ()" "check example_withdrawn = Inr ()" "record_wf example_reserved"
  "record_wf example_withdrawn" "op_schema example_withdrawn = RECORD_SCHEMA" "op_schema example_reserved = RECORD_SCHEMA"
  by (simp_all add: example_withdrawn_def example_reserved_def reserved_def check_def state_ok_def writer_none_def
      requested_def retirement_of_def retirement_done_def cause_of_def decision_now_def record_wf_def)

lemma example_prints:
  "prints example_text example_reserved"
  "prints example_text (next_revision (ustr ''t1'') example_reserved example_withdrawn)"
  by (simp_all add: prints_def encode_record_def example_text_def record_json_def example_withdrawn_def
      example_reserved_def reserved_def json_u64_def)

theorem write_is_compare_and_swap_witness:
  "read_record example_text False (snd (write_cas example_text False WriteDone (ustr ''t1'') example_reserved example_withdrawn
       (Some (encode_record example_text example_reserved))))
   = Inr (Some (next_revision (ustr ''t1'') example_reserved example_withdrawn))"
proof -
  let ?disk = "Some (encode_record example_text example_reserved)"
  have r: "read_record example_text False ?disk = Inr (Some example_reserved)"
    by (rule read_encoded) (simp_all add: example_records example_prints)
  have e: "record_eq example_reserved example_reserved"
    by (rule record_eq_refl) (rule example_records)
  have w: "write_cas example_text False WriteDone (ustr ''t1'') example_reserved example_withdrawn ?disk =
     (Inr (next_revision (ustr ''t1'') example_reserved example_withdrawn),
      Some (encode_record example_text (next_revision (ustr ''t1'') example_reserved example_withdrawn)))"
    by (simp add: write_cas_def r e example_records Let_def)
  show ?thesis
    using write_is_compare_and_swap [OF w example_prints(2) example_records(4)] by (simp add: w example_records)
qed

end
