(* ===== verification/Operation_Frames.thy ===== *)
theory Operation_Frames
  imports Operation_Record
begin

text \<open>
  The frames of the control channel of a launch operation (\<^verbatim>\<open>crates/pty-core/src/operation/frames.rs\<close>): the
  lines an owner sends, read strictly, and the lines the producer sends, built from the record.
\<close>

section \<open>Owner frames\<close>

definition FRAME_MAX_BYTES :: nat where
  "FRAME_MAX_BYTES = 128 * 1024"

datatype RejectCode =
    WrongOperation | WrongEnvelope | WrongIncarnation | UnknownCommand | AlreadyTransferred | NotHeld
  | AlreadyDecided | MalformedCode

fun reject_str :: "RejectCode \<Rightarrow> rstr" where
  "reject_str WrongOperation = ustr ''wrong-operation''"
| "reject_str WrongEnvelope = ustr ''wrong-envelope''"
| "reject_str WrongIncarnation = ustr ''wrong-incarnation''"
| "reject_str UnknownCommand = ustr ''unknown-command''"
| "reject_str AlreadyTransferred = ustr ''already-transferred''"
| "reject_str NotHeld = ustr ''not-held''"
| "reject_str AlreadyDecided = ustr ''already-decided''"
| "reject_str MalformedCode = ustr ''malformed''"

datatype OwnerCommand =
    OwnerCancel (oc_request_id: rstr)
  | OwnerTransfer (oc_request_id: rstr) (oc_incarnation_id: rstr) (oc_generation: rstr)

datatype OwnerFrame =
    FrameCommand OwnerCommand
  | FrameRejected RejectCode "rstr option"
  | FrameMalformed

definition is_request_id :: "rstr \<Rightarrow> bool" where
  "is_request_id s \<longleftrightarrow> s \<noteq> [] \<and> utf8_len s \<le> 256 \<and> \<not> list_ex (\<lambda>c. c < 32 \<or> c = 127) s"

text \<open>\<open>Value::as_str\<close> under a key.\<close>

definition get_str :: "json imap \<Rightarrow> rstr \<Rightarrow> rstr option" where
  "get_str ob k = (case imap_get ob k of Some (JString s) \<Rightarrow> Some s | _ \<Rightarrow> None)"

definition CANCEL_KEYS :: "rstr list" where
  "CANCEL_KEYS = map ustr [''type'', ''version'', ''operationId'', ''envelopeSha256'', ''requestId'']"

definition TRANSFER_KEYS :: "rstr list" where
  "TRANSFER_KEYS = map ustr [''type'', ''version'', ''operationId'', ''envelopeSha256'', ''requestId'', ''incarnation'']"

definition owner_transfer :: "json imap \<Rightarrow> rstr \<Rightarrow> OwnerFrame" where
  "owner_transfer ob request_id =
     (case imap_get ob (ustr ''incarnation'') of
        Some (JObject inc) \<Rightarrow>
          if length inc \<noteq> 2 then FrameMalformed
          else
            (case (get_str inc (ustr ''id''), get_str inc (ustr ''generation'')) of
               (Some i, Some g) \<Rightarrow>
                 if \<not> is_incarnation_id i \<or> g = [] \<or> utf8_len g > 256 then FrameMalformed
                 else FrameCommand (OwnerTransfer request_id i g)
             | _ \<Rightarrow> FrameMalformed)
      | _ \<Rightarrow> FrameMalformed)"

text \<open>A frame of a known kind, with its request id when that is one.\<close>

definition owner_known :: "json imap \<Rightarrow> rstr \<Rightarrow> rstr option \<Rightarrow> rstr \<Rightarrow> rstr \<Rightarrow> OwnerFrame" where
  "owner_known ob kind request operation_id envelope_sha256 =
     (let allowed = if kind = ustr ''cancel'' then CANCEL_KEYS else TRANSFER_KEYS in
      if list_ex (\<lambda>k. k \<notin> set allowed) (map fst ob) \<or> list_ex (\<lambda>k. \<not> contains_key ob k) allowed
         \<or> Option.bind (imap_get ob (ustr ''version'')) value_as_u64 \<noteq> Some 1
         \<or> \<not> (case imap_get ob (ustr ''version'') of Some v \<Rightarrow> is_u64 v | None \<Rightarrow> False)
      then FrameMalformed
      else
        (case request of
           None \<Rightarrow> FrameMalformed
         | Some request_id \<Rightarrow>
             (case (get_str ob (ustr ''operationId''), get_str ob (ustr ''envelopeSha256'')) of
                (Some oid, Some sha) \<Rightarrow>
                  if oid \<noteq> operation_id then FrameRejected WrongOperation (Some request_id)
                  else if sha \<noteq> envelope_sha256 then FrameRejected WrongEnvelope (Some request_id)
                  else if kind = ustr ''cancel'' then FrameCommand (OwnerCancel request_id)
                  else owner_transfer ob request_id
              | _ \<Rightarrow> FrameMalformed)))"

definition owner_object :: "json imap \<Rightarrow> rstr \<Rightarrow> rstr \<Rightarrow> OwnerFrame" where
  "owner_object ob operation_id envelope_sha256 =
     (let request = (case get_str ob (ustr ''requestId'') of
                       Some i \<Rightarrow> if is_request_id i then Some i else None | None \<Rightarrow> None)
      in
      case get_str ob (ustr ''type'') of
        None \<Rightarrow> FrameMalformed
      | Some kind \<Rightarrow>
          if kind \<noteq> ustr ''cancel'' \<and> kind \<noteq> ustr ''transfer'' then FrameRejected UnknownCommand request
          else owner_known ob kind request operation_id envelope_sha256)"

definition parse_owner_frame :: "json_reader \<Rightarrow> bytes \<Rightarrow> rstr \<Rightarrow> rstr \<Rightarrow> OwnerFrame" where
  "parse_owner_frame read l operation_id envelope_sha256 =
     (if length l + 1 > FRAME_MAX_BYTES then FrameMalformed
      else
        (case from_utf8 l of
           None \<Rightarrow> FrameMalformed
         | Some text' \<Rightarrow>
             (case parse_strict_json read text' of
                Inr (JObject ob) \<Rightarrow> owner_object ob operation_id envelope_sha256
              | _ \<Rightarrow> FrameMalformed)))"

section \<open>Producer frames\<close>

record TicketView =
  tv_id :: u64
  tv_kind :: rstr
  tv_state :: rstr

definition ticket_json :: "TicketView \<Rightarrow> json" where
  "ticket_json t = JObject [(ustr ''id'', json_u64 (tv_id t)), (ustr ''kind'', JString (tv_kind t)),
     (ustr ''state'', JString (tv_state t))]"

definition frame_fields ::
  "rstr \<Rightarrow> u64 \<Rightarrow> rstr \<Rightarrow> rstr \<Rightarrow> json \<Rightarrow> OperationRecord option \<Rightarrow> TicketView list \<Rightarrow> json imap" where
  "frame_fields kind seq operation_id envelope_sha256 env rc tickets =
     (let of_record = (\<lambda>f. case rc of None \<Rightarrow> JNull | Some r \<Rightarrow> f r) in
      [(ustr ''type'', JString kind), (ustr ''version'', json_u64 1), (ustr ''seq'', json_u64 seq),
       (ustr ''operationId'', JString operation_id), (ustr ''envelopeSha256'', JString envelope_sha256),
       (ustr ''envelope'', env),
       (ustr ''recordRevision'', of_record (\<lambda>r. json_u64 (op_revision r))),
       (ustr ''state'', of_record (\<lambda>r. json_variant state_names (op_state r))),
       (ustr ''phase'', of_record (\<lambda>r. json_variant phase_names (op_phase r))),
       (ustr ''participants'', of_record (\<lambda>r. participants_json (op_participants r))),
       (ustr ''incarnation'', of_record (\<lambda>r. json_option incarnation_json (op_incarnation r))),
       (ustr ''tickets'', JArray (map ticket_json tickets))])"

definition producer_frame ::
  "json_text \<Rightarrow> rstr \<Rightarrow> u64 \<Rightarrow> rstr \<Rightarrow> rstr \<Rightarrow> json \<Rightarrow> OperationRecord option \<Rightarrow> TicketView list \<Rightarrow> json imap \<Rightarrow> bytes" where
  "producer_frame jt kind seq operation_id envelope_sha256 env rc tickets extra =
     jt_print jt (JObject (foldl (\<lambda>m (k, v). imap_insert k v m)
       (frame_fields kind seq operation_id envelope_sha256 env rc tickets) extra)) @ [10]"

section \<open>What a command is\<close>

definition command_object :: "json imap \<Rightarrow> rstr \<Rightarrow> rstr \<Rightarrow> OwnerCommand \<Rightarrow> bool" where
  "command_object ob operation_id envelope_sha256 c \<longleftrightarrow>
     imap_get ob (ustr ''version'') = Some (JNumber (PosInt 1))
     \<and> imap_get ob (ustr ''operationId'') = Some (JString operation_id)
     \<and> imap_get ob (ustr ''envelopeSha256'') = Some (JString envelope_sha256)
     \<and> imap_get ob (ustr ''requestId'') = Some (JString (oc_request_id c)) \<and> ident_ok (oc_request_id c)
     \<and> (case c of
           OwnerCancel _ \<Rightarrow>
             fst ` set ob = set CANCEL_KEYS \<and> imap_get ob (ustr ''type'') = Some (JString (ustr ''cancel''))
         | OwnerTransfer _ i g \<Rightarrow>
             fst ` set ob = set TRANSFER_KEYS \<and> imap_get ob (ustr ''type'') = Some (JString (ustr ''transfer''))
             \<and> is_incarnation_id i \<and> g \<noteq> [] \<and> utf8_len g \<le> 256
             \<and> (\<exists>inc. imap_get ob (ustr ''incarnation'') = Some (JObject inc) \<and> length inc = 2
                  \<and> imap_get inc (ustr ''id'') = Some (JString i)
                  \<and> imap_get inc (ustr ''generation'') = Some (JString g)))"

lemma get_str_iff: "get_str ob k = Some s \<longleftrightarrow> imap_get ob k = Some (JString s)"
  by (auto simp: get_str_def split: option.splits json.splits)

lemma request_id_ident: "is_request_id s \<longleftrightarrow> ident_ok s"
  by (simp add: is_request_id_def ident_ok_def STRING_MAX_BYTES_def)

lemma keys_exact:
  "\<not> list_ex (\<lambda>k. k \<notin> set allowed) (map fst ob) \<and> \<not> list_ex (\<lambda>k. \<not> contains_key ob k) allowed
     \<longleftrightarrow> fst ` set ob = set allowed"
  by (auto simp: list_ex_iff contains_key_iff)

lemma version_guard:
  "Option.bind v value_as_u64 \<noteq> Some 1 \<or> \<not> (case v of Some x \<Rightarrow> is_u64 x | None \<Rightarrow> False)
     \<longleftrightarrow> v \<noteq> Some (JNumber (PosInt 1))"
  by (auto simp: version_ok is_u64_def)

lemma owner_transfer_command:
  "owner_transfer ob r = FrameCommand c \<longleftrightarrow>
     (\<exists>i g inc. c = OwnerTransfer r i g \<and> is_incarnation_id i \<and> g \<noteq> [] \<and> utf8_len g \<le> 256
        \<and> imap_get ob (ustr ''incarnation'') = Some (JObject inc) \<and> length inc = 2
        \<and> imap_get inc (ustr ''id'') = Some (JString i) \<and> imap_get inc (ustr ''generation'') = Some (JString g))"
  by (auto simp: owner_transfer_def get_str_def split: option.splits json.splits if_splits)

lemma owner_known_command:
  "owner_known ob kind request oid sha = FrameCommand c \<longleftrightarrow>
     fst ` set ob = set (if kind = ustr ''cancel'' then CANCEL_KEYS else TRANSFER_KEYS)
     \<and> imap_get ob (ustr ''version'') = Some (JNumber (PosInt 1))
     \<and> (\<exists>r. request = Some r
         \<and> get_str ob (ustr ''operationId'') = Some oid \<and> get_str ob (ustr ''envelopeSha256'') = Some sha
         \<and> (if kind = ustr ''cancel'' then c = OwnerCancel r else owner_transfer ob r = FrameCommand c))"
proof -
  define allowed where "allowed = (if kind = ustr ''cancel'' then CANCEL_KEYS else TRANSFER_KEYS)"
  define good where "good \<longleftrightarrow> fst ` set ob = set allowed \<and> imap_get ob (ustr ''version'') = Some (JNumber (PosInt 1))"
  have bad: "list_ex (\<lambda>k. k \<notin> set allowed) (map fst ob) \<or> list_ex (\<lambda>k. \<not> contains_key ob k) allowed
         \<or> Option.bind (imap_get ob (ustr ''version'')) value_as_u64 \<noteq> Some 1
         \<or> \<not> (case imap_get ob (ustr ''version'') of Some v \<Rightarrow> is_u64 v | None \<Rightarrow> False) \<longleftrightarrow> \<not> good"
    using keys_exact [of allowed ob] version_guard [of "imap_get ob (ustr ''version'')"] unfolding good_def by argo
  show ?thesis
    unfolding owner_known_def allowed_def [symmetric] Let_def bad
    by (cases good; cases request; cases "get_str ob (ustr ''operationId'')";
        cases "get_str ob (ustr ''envelopeSha256'')"; simp; simp add: good_def) auto
qed

lemma owner_object_command:
  "owner_object ob oid sha = FrameCommand c \<longleftrightarrow> command_object ob oid sha c"
proof -
  have sel: "imap_get ob (ustr ''type'') = Some (JString k) \<longleftrightarrow> get_str ob (ustr ''type'') = Some k" for k
    by (simp add: get_str_iff)
  have req: "(case get_str ob (ustr ''requestId'') of Some i \<Rightarrow> if is_request_id i then Some i else None | None \<Rightarrow> None) = Some r
      \<longleftrightarrow> imap_get ob (ustr ''requestId'') = Some (JString r) \<and> ident_ok r" for r
    by (auto simp: get_str_iff [symmetric] request_id_ident split: option.splits)
  show ?thesis
  proof (cases "get_str ob (ustr ''type'')")
    case None
    then show ?thesis by (cases c) (simp_all add: owner_object_def command_object_def sel)
  next
    case (Some kind)
    show ?thesis
      unfolding owner_object_def Let_def Some option.case
      by (cases c) (auto simp: owner_known_command req command_object_def sel Some owner_transfer_command get_str_iff)
  qed
qed

text \<open>
  A line is a command exactly when it is one for this operation: it fits the frame limit, is
  strict JSON without repeated keys, is an object with exactly the keys of its kind, version 1, and
  names this operation, this envelope and a valid request; a transfer also names an incarnation and a
  generation. Every other line is rejected or malformed, and changes nothing.
\<close>

theorem owner_commands_exact:
  "parse_owner_frame read l oid sha = FrameCommand c \<longleftrightarrow>
     length l < FRAME_MAX_BYTES
     \<and> (\<exists>t raw ob. from_utf8 l = Some t \<and> read t = (raw, True) \<and> raw_ok raw \<and> plain raw = JObject ob
          \<and> command_object ob oid sha c)"
proof (cases "length l < FRAME_MAX_BYTES")
  case True
  then have len: "\<not> length l + 1 > FRAME_MAX_BYTES" by simp
  show ?thesis
  proof (cases "from_utf8 l")
    case None
    with len show ?thesis by (simp add: parse_owner_frame_def)
  next
    case (Some t)
    show ?thesis
    proof (cases "\<exists>ob. parse_strict_json read t = Inr (JObject ob)")
      case True
      then obtain ob where "parse_strict_json read t = Inr (JObject ob)" by blast
      moreover from this obtain raw where "read t = (raw, True)" "raw_ok raw" "plain raw = JObject ob"
        by (metis parse_strict_json_exact)
      ultimately show ?thesis
        using len \<open>length l < FRAME_MAX_BYTES\<close> Some by (auto simp: parse_owner_frame_def owner_object_command)
    next
      case False
      then have "parse_owner_frame read l oid sha = FrameMalformed"
        using len Some by (auto simp: parse_owner_frame_def split: sum.splits json.splits)
      moreover have "\<not> (read t = (raw, True) \<and> raw_ok raw \<and> plain raw = JObject ob)" for raw ob
        using False parse_strict_json_exact [of read t "JObject ob"] by auto
      ultimately show ?thesis using Some by auto
    qed
  qed
qed (simp add: parse_owner_frame_def)

text \<open>A producer frame carries the record as it was last written, whatever else is added to it.\<close>

lemma producer_frame_carries:
  assumes "k \<in> fst ` set (frame_fields kind seq oid sha env rc tickets)" and "k \<notin> fst ` set extra"
  shows "imap_get (foldl (\<lambda>m (k, v). imap_insert k v m) (frame_fields kind seq oid sha env rc tickets) extra) k
    = imap_get (frame_fields kind seq oid sha env rc tickets) k"
  using assms(2)
proof (induction extra rule: rev_induct)
  case (snoc e extra)
  then show ?case by (cases e) auto
qed simp

end
