(* ===== verification/Argv_Scan.thy ===== *)
theory Argv_Scan
  imports Proc_Table Utf8
begin

text \<open>
  The scan of the argument vectors of one user's processes (\<^verbatim>\<open>crates/pty-core/src/proctable/argv.rs\<close>), which
  finds every process that carries an operation's birth marker. What the kernel answers for one
  process (its status, its stat, its command line, and its status once more) is an argument.
\<close>

section \<open>Text\<close>

text \<open>
  \<open>String::from_utf8_lossy\<close>: \<open>utf8_step\<close> gives the character at the front with its length, or no
  character and the length of the longest prefix that could have begun one.
\<close>

definition second_ok :: "u8 \<Rightarrow> u8 \<Rightarrow> bool" where
  "second_ok a b \<longleftrightarrow> continuation b
     \<and> (a = 0xE0 \<longrightarrow> 0xA0 \<le> b) \<and> (a = 0xED \<longrightarrow> b \<le> 0x9F) \<and> (a = 0xF0 \<longrightarrow> 0x90 \<le> b) \<and> (a = 0xF4 \<longrightarrow> b \<le> 0x8F)"

definition lead_width :: "u8 \<Rightarrow> nat" where
  "lead_width a =
     (if a < 0x80 then 1 else if 0xC2 \<le> a \<and> a \<le> 0xDF then 2 else if 0xE0 \<le> a \<and> a \<le> 0xEF then 3
      else if 0xF0 \<le> a \<and> a \<le> 0xF4 then 4 else 0)"

fun utf8_run :: "u8 \<Rightarrow> bytes \<Rightarrow> nat" where
  "utf8_run a [] = 1"
| "utf8_run a (b # bs) =
     (if lead_width a < 2 \<or> \<not> second_ok a b then 1
      else if lead_width a = 2 then 2
      else
        (case bs of
           [] \<Rightarrow> 2
         | c # cs \<Rightarrow>
             if \<not> continuation c then 2
             else if lead_width a = 3 then 3
             else (case cs of [] \<Rightarrow> 3 | d # _ \<Rightarrow> if continuation d then 4 else 3)))"

function from_utf8_lossy :: "bytes \<Rightarrow> rstr" where
  "from_utf8_lossy [] = []"
| "from_utf8_lossy (a # bs) =
     (let n = utf8_run a bs in
      (case from_utf8 (take n (a # bs)) of Some cs \<Rightarrow> cs | None \<Rightarrow> [0xFFFD])
        @ from_utf8_lossy (drop (n - 1) bs))"
  by pat_completeness auto
termination by (relation "measure length") auto

fun split_zero :: "bytes \<Rightarrow> bytes list" where
  "split_zero [] = [[]]"
| "split_zero (b # bs) =
     (if b = 0 then [] # split_zero bs
      else (case split_zero bs of [] \<Rightarrow> [[b]] | x # xs \<Rightarrow> (b # x) # xs))"

definition split_nul_args :: "bytes \<Rightarrow> rstr list" where
  "split_nul_args bs =
     (let trimmed = if bs \<noteq> [] \<and> last bs = 0 then butlast bs else bs in
      if trimmed = [] then [] else map from_utf8_lossy (split_zero trimmed))"

section \<open>The scan\<close>

record ArgvRow =
  ar_pid :: int
  ar_identity :: "rstr option"
  ar_argv :: "rstr list"

record ArgvScan =
  as_uid :: u32
  as_source :: rstr
  as_readable :: bool
  as_complete :: bool
  as_listed :: nat
  as_zombies :: nat
  as_kernel_threads :: nat
  as_unreadable :: "int list"
  as_rows :: "ArgvRow list"

definition unreadable_listing :: "u32 \<Rightarrow> rstr \<Rightarrow> ArgvScan" where
  "unreadable_listing uid source = \<lparr>as_uid = uid, as_source = source, as_readable = False, as_complete = False,
     as_listed = 0, as_zombies = 0, as_kernel_threads = 0, as_unreadable = [], as_rows = []\<rparr>"

definition empty_scan :: "u32 \<Rightarrow> rstr \<Rightarrow> bool \<Rightarrow> ArgvScan" where
  "empty_scan uid source complete = \<lparr>as_uid = uid, as_source = source, as_readable = True, as_complete = complete,
     as_listed = 0, as_zombies = 0, as_kernel_threads = 0, as_unreadable = [], as_rows = []\<rparr>"

definition is_whole :: "ArgvScan \<Rightarrow> bool" where
  "is_whole s \<longleftrightarrow> as_readable s \<and> as_complete s \<and> as_unreadable s = []"

section \<open>Linux\<close>

datatype Class = ClsGone | ClsOtherUser | ClsZombie | ClsKernelThread | ClsLive ArgvRow | ClsUnreadable | ClsOwnerUnknown

datatype cmdline_read = CmdBytes bytes | CmdGone | CmdRefused

record linux_probe =
  lp_status :: stat_read
  lp_stat :: stat_read
  lp_cmdline :: cmdline_read
  lp_status_again :: stat_read

definition parse_uid :: "rstr \<Rightarrow> u32 option" where
  "parse_uid s = map_option of_nat (parse_unsigned (2 ^ 32) s)"

fun status_lines :: "u32 \<Rightarrow> rstr list \<Rightarrow> bool option \<Rightarrow> rchar option \<Rightarrow> bool option \<times> rchar option" where
  "status_lines uid [] owned st = (owned, st)"
| "status_lines uid (l # ls) owned st =
     (case strip_prefix (ustr ''Uid:'') l of
        Some rest \<Rightarrow>
          (let ids = map parse_uid (split_whitespace rest) in
           status_lines uid ls
             (case ids of
                Some real # Some effective # _ \<Rightarrow> Some (real = uid \<and> effective = uid)
              | _ \<Rightarrow> None) st)
      | None \<Rightarrow>
          (case strip_prefix (ustr ''State:'') l of
             Some rest \<Rightarrow>
               status_lines uid ls owned
                 (case dropWhile is_whitespace rest of [] \<Rightarrow> None | c # _ \<Rightarrow> Some c)
           | None \<Rightarrow> status_lines uid ls owned st))"

definition status_kernel_thread :: "rstr \<Rightarrow> bool option" where
  "status_kernel_thread status =
     (case List.map_filter (strip_prefix (ustr ''Kthread:'')) (str_lines status) of
        [] \<Rightarrow> None
      | rest # _ \<Rightarrow>
          if trim rest = ustr ''1'' then Some True
          else if trim rest = ustr ''0'' then Some False
          else None)"

definition PF_KTHREAD :: u64 where "PF_KTHREAD = 0x00200000"

definition stat_kernel_thread :: "rstr \<Rightarrow> bool option" where
  "stat_kernel_thread stat =
     (case after_rfind 41 stat of
        None \<Rightarrow> None
      | Some tail \<Rightarrow>
          (case Option.bind (field (split_whitespace tail) 6) (parse_unsigned (2 ^ 64)) of
             None \<Rightarrow> None
           | Some flags \<Rightarrow> Some (of_nat flags AND PF_KTHREAD \<noteq> 0)))"

text \<open>\<open>owner_and_state\<close>: \<open>Inl True\<close> when the process is gone, \<open>Inl False\<close> for any other error.\<close>

definition owner_and_state :: "u32 \<Rightarrow> stat_read \<Rightarrow> bool + bool \<times> rchar \<times> bool option" where
  "owner_and_state uid r =
     (case r of
        StatGone \<Rightarrow> Inl True
      | StatRefused \<Rightarrow> Inl False
      | StatText status \<Rightarrow>
          (case status_lines uid (str_lines status) None None of
             (Some owned, Some st) \<Rightarrow> Inr (owned, st, status_kernel_thread status)
           | _ \<Rightarrow> Inl False))"

definition classify :: "nat \<Rightarrow> u32 \<Rightarrow> int \<Rightarrow> linux_probe \<Rightarrow> Class" where
  "classify page_kb uid pid p =
     (case owner_and_state uid (lp_status p) of
        Inl gone \<Rightarrow> if gone then ClsGone else ClsOwnerUnknown
      | Inr (owned, st, kthread) \<Rightarrow>
          if \<not> owned then ClsOtherUser
          else if st = 90 then ClsZombie
          else if lp_stat p = StatGone then ClsGone
          else
            (let stat = (case lp_stat p of StatText t \<Rightarrow> Some t | _ \<Rightarrow> None) in
             if (case kthread of Some k \<Rightarrow> Some k | None \<Rightarrow> Option.bind stat stat_kernel_thread) = Some True
             then ClsKernelThread
             else
               (let ident = Option.bind (Option.bind stat (parse_proc_stat page_kb pid)) r_identity in
                case lp_cmdline p of
                  CmdBytes bs \<Rightarrow>
                    if bs \<noteq> [] then ClsLive \<lparr>ar_pid = pid, ar_identity = ident, ar_argv = split_nul_args bs\<rparr>
                    else
                      (case owner_and_state uid (lp_status_again p) of
                         Inl gone \<Rightarrow> if gone then ClsGone else ClsUnreadable
                       | Inr (_, st', _) \<Rightarrow> if st' = 90 then ClsZombie else ClsUnreadable)
                | CmdGone \<Rightarrow> ClsGone
                | CmdRefused \<Rightarrow> ClsUnreadable)))"

definition scan_class :: "int \<Rightarrow> Class \<Rightarrow> ArgvScan \<Rightarrow> ArgvScan" where
  "scan_class pid c s =
     (case c of
        ClsGone \<Rightarrow> s
      | ClsOtherUser \<Rightarrow> s
      | ClsZombie \<Rightarrow> s\<lparr>as_zombies := as_zombies s + 1\<rparr>
      | ClsKernelThread \<Rightarrow> s\<lparr>as_kernel_threads := as_kernel_threads s + 1\<rparr>
      | ClsLive r \<Rightarrow> s\<lparr>as_rows := as_rows s @ [r]\<rparr>
      | ClsUnreadable \<Rightarrow> s\<lparr>as_unreadable := as_unreadable s @ [pid]\<rparr>
      | ClsOwnerUnknown \<Rightarrow> s\<lparr>as_complete := False\<rparr>)"

fun scan_loop :: "(int \<Rightarrow> Class) \<Rightarrow> int \<Rightarrow> dir_entry list \<Rightarrow> ArgvScan \<Rightarrow> bool \<Rightarrow> ArgvScan \<times> bool" where
  "scan_loop cls own [] s saw_own = (s, saw_own)"
| "scan_loop cls own (EntryError # es) s saw_own = scan_loop cls own es (s\<lparr>as_complete := False\<rparr>) saw_own"
| "scan_loop cls own (EntryName nm # es) s saw_own =
     (case Option.bind nm parse_i32 of
        None \<Rightarrow> scan_loop cls own es s saw_own
      | Some pid \<Rightarrow>
          scan_loop cls own es (scan_class pid (cls pid) (s\<lparr>as_listed := as_listed s + 1\<rparr>)) (saw_own \<or> pid = own))"

definition sorted_scan :: "ArgvScan \<Rightarrow> ArgvScan" where
  "sorted_scan s = s\<lparr>as_rows := sort_key ar_pid (as_rows s), as_unreadable := sort (as_unreadable s)\<rparr>"

definition scan_linux :: "nat \<Rightarrow> u32 \<Rightarrow> dir_entry list option \<Rightarrow> (int \<Rightarrow> linux_probe) \<Rightarrow> int \<Rightarrow> ArgvScan" where
  "scan_linux page_kb uid dir probe own =
     (let source = ustr ''/proc/<pid>/cmdline'' in
      case dir of
        None \<Rightarrow> unreadable_listing uid source
      | Some es \<Rightarrow>
          (case scan_loop (\<lambda>pid. classify page_kb uid pid (probe pid)) own es (empty_scan uid source True) False of
             (s, saw_own) \<Rightarrow> if \<not> saw_own then unreadable_listing uid source else sorted_scan s))"

section \<open>macOS\<close>

fun take_args :: "nat \<Rightarrow> bytes \<Rightarrow> rstr list option" where
  "take_args 0 bs = Some []"
| "take_args (Suc n) bs =
     (case dropWhile (\<lambda>b. b \<noteq> 0) bs of
        [] \<Rightarrow> None
      | _ # rest \<Rightarrow>
          map_option (\<lambda>as. from_utf8_lossy (takeWhile (\<lambda>b. b \<noteq> 0) bs) # as) (take_args n rest))"

definition parse_procargs2 :: "bytes \<Rightarrow> rstr list option" where
  "parse_procargs2 buf =
     (if length buf < 4 then None
      else if read_i32 buf 0 < 0 then None
      else
        (case dropWhile (\<lambda>b. b \<noteq> 0) (drop 4 buf) of
           [] \<Rightarrow> None
         | rest \<Rightarrow> take_args (nat (read_i32 buf 0)) (dropWhile (\<lambda>b. b = 0) rest)))"

datatype procargs_answer = ArgsBuffer bytes | ArgsGone | ArgsFails

definition procargs_gone :: "procargs_answer \<Rightarrow> bool" where
  "procargs_gone a \<longleftrightarrow> a = ArgsGone"

definition procargs :: "procargs_answer \<Rightarrow> rstr list option" where
  "procargs a = (case a of ArgsBuffer buf \<Rightarrow> parse_procargs2 buf | _ \<Rightarrow> None)"

record macos_probe =
  mp_info :: "bsdinfo option"
  mp_owner :: "(u32 \<times> u32 \<times> bool) Answer"
  mp_process :: "Row Answer"
  mp_args :: procargs_answer
  mp_process_again :: "Row Answer"

definition macos_args :: "int \<Rightarrow> macos_probe \<Rightarrow> rstr option \<Rightarrow> Class" where
  "macos_args pid p ident =
     (case procargs (mp_args p) of
        Some argv \<Rightarrow> ClsLive \<lparr>ar_pid = pid, ar_identity = ident, ar_argv = argv\<rparr>
      | None \<Rightarrow>
          if procargs_gone (mp_args p) then ClsGone
          else
            (case mp_process_again p of
               Known r \<Rightarrow> if is_zombie r then ClsZombie else ClsUnreadable
             | NotPresent \<Rightarrow> ClsGone
             | NotKnown _ \<Rightarrow> ClsUnreadable))"

definition classify_macos :: "u32 \<Rightarrow> int \<Rightarrow> macos_probe \<Rightarrow> Class" where
  "classify_macos uid pid p =
     (case mp_info p of
        Some info \<Rightarrow>
          if pbi_ruid info \<noteq> uid \<or> pbi_uid info \<noteq> uid then ClsOtherUser
          else if pbi_status info = 5 then ClsZombie
          else macos_args pid p
                 (Some (darwin_identity (unat (pbi_start_tvsec info)) (unat (pbi_start_tvusec info))))
      | None \<Rightarrow>
          (case mp_owner p of
             NotPresent \<Rightarrow> ClsGone
           | Known (ruid, euid, zombie) \<Rightarrow>
               if ruid \<noteq> uid \<or> euid \<noteq> uid then ClsOtherUser
               else if zombie then ClsZombie
               else macos_args pid p (Option.bind (known (mp_process p)) r_identity)
           | NotKnown _ \<Rightarrow> ClsOwnerUnknown))"

definition scan_macos :: "u32 \<Rightarrow> (int list \<times> bool) option \<Rightarrow> (int \<Rightarrow> macos_probe) \<Rightarrow> int \<Rightarrow> ArgvScan" where
  "scan_macos uid listing probe own =
     (let source = ustr ''KERN_PROCARGS2'' in
      case listing of
        None \<Rightarrow> unreadable_listing uid source
      | Some (pids, listed_whole) \<Rightarrow>
          if own \<notin> set pids then unreadable_listing uid source
          else
            sorted_scan (foldl (\<lambda>s pid.
                scan_class pid (classify_macos uid pid (probe pid)) (s\<lparr>as_listed := as_listed s + 1\<rparr>))
              (empty_scan uid source listed_whole) (filter (\<lambda>p. 0 < p) pids)))"

section \<open>A whole scan saw every process\<close>

text \<open>What one class adds to a scan, and a scan as the classes of the pids it went through.\<close>

definition scanned :: "(int \<Rightarrow> Class) \<Rightarrow> int list \<Rightarrow> ArgvScan \<Rightarrow> ArgvScan \<Rightarrow> bool" where
  "scanned cls pids s s' \<longleftrightarrow>
     set (as_rows s') = set (as_rows s) \<union> {r. \<exists>p \<in> set pids. cls p = ClsLive r}
     \<and> set (as_unreadable s') = set (as_unreadable s) \<union> {p \<in> set pids. cls p = ClsUnreadable}
     \<and> (as_complete s' \<longleftrightarrow> as_complete s \<and> (\<forall>p \<in> set pids. cls p \<noteq> ClsOwnerUnknown))
     \<and> as_readable s' = as_readable s"

lemma scanned_Nil [simp]: "scanned cls [] s s"
  by (simp add: scanned_def)

lemma scanned_Cons:
  "scanned cls ps (scan_class p (cls p) (s\<lparr>as_listed := n\<rparr>)) s' \<Longrightarrow> scanned cls (p # ps) s s'"
  unfolding scanned_def by (cases "cls p") (auto simp: scan_class_def)

lemma scan_loop_scanned:
  "scan_loop cls own es s saw = (s', saw') \<Longrightarrow>
     scanned cls (entry_pids es) (s\<lparr>as_complete := as_complete s \<and> EntryError \<notin> set es\<rparr>) s'"
proof (induction cls own es s saw rule: scan_loop.induct)
  case (3 cls own nm es s saw)
  show ?case
  proof (cases "Option.bind nm parse_i32")
    case None
    with 3 show ?thesis by (simp add: entry_pids_def List.map_filter_simps)
  next
    case (Some p)
    have c: "(scan_class p c t)\<lparr>as_complete := as_complete (scan_class p c t) \<and> b\<rparr>
        = scan_class p c (t\<lparr>as_complete := as_complete t \<and> b\<rparr>)" for c t b
      by (cases c) (simp_all add: scan_class_def)
    have n: "s\<lparr>as_listed := m, as_complete := b\<rparr> = s\<lparr>as_complete := b, as_listed := m\<rparr>" for m b by simp
    from 3 Some have "scanned cls (entry_pids es)
        (scan_class p (cls p) ((s\<lparr>as_complete := as_complete s \<and> EntryError \<notin> set es\<rparr>)\<lparr>as_listed := as_listed s + 1\<rparr>)) s'"
      by (simp add: c) (simp add: n)
    from scanned_Cons [OF this] Some show ?thesis by (simp add: entry_pids_def List.map_filter_simps)
  qed
qed (simp_all add: entry_pids_def List.map_filter_simps)

lemma sorted_scan_fields [simp]:
  "set (as_rows (sorted_scan s)) = set (as_rows s)" "as_complete (sorted_scan s) = as_complete s"
  "as_readable (sorted_scan s) = as_readable s" "as_unreadable (sorted_scan s) = [] \<longleftrightarrow> as_unreadable s = []"
  by (auto simp: sorted_scan_def dest: arg_cong [where f = set])

text \<open>What a scan says of a process it was listed with.\<close>

definition accounted :: "Class \<Rightarrow> ArgvScan \<Rightarrow> bool" where
  "accounted c s \<longleftrightarrow>
     (case c of ClsLive r \<Rightarrow> r \<in> set (as_rows s) | ClsUnreadable \<Rightarrow> False | ClsOwnerUnknown \<Rightarrow> False | _ \<Rightarrow> True)"

lemma accounted_sorted [simp]: "accounted c (sorted_scan s) = accounted c s"
  by (cases c) (simp_all add: accounted_def)

lemma is_whole_sorted [simp]: "is_whole (sorted_scan s) = is_whole s"
  by (simp add: is_whole_def)

lemma scanned_accounted:
  "scanned cls pids (empty_scan uid source c) s \<Longrightarrow> is_whole s \<Longrightarrow> p \<in> set pids \<Longrightarrow> accounted (cls p) s"
  by (cases "cls p") (auto simp: scanned_def is_whole_def accounted_def empty_scan_def)

lemma whole_linux_scan:
  assumes "is_whole (scan_linux page_kb uid (Some es) probe own)" and "pid \<in> set (entry_pids es)"
  shows "accounted (classify page_kb uid pid (probe pid)) (scan_linux page_kb uid (Some es) probe own)"
proof -
  obtain s saw where l: "scan_loop (\<lambda>pid. classify page_kb uid pid (probe pid)) own es
      (empty_scan uid (ustr ''/proc/<pid>/cmdline'') True) False = (s, saw)"
    by fastforce
  have sc: "scan_linux page_kb uid (Some es) probe own = sorted_scan s"
    using assms(1) by (auto simp: scan_linux_def l Let_def is_whole_def unreadable_listing_def split: if_splits)
  have "scanned (\<lambda>pid. classify page_kb uid pid (probe pid)) (entry_pids es)
      (empty_scan uid (ustr ''/proc/<pid>/cmdline'') (EntryError \<notin> set es)) s"
    using scan_loop_scanned [OF l] by (simp add: empty_scan_def)
  from scanned_accounted [OF this _ assms(2)] assms(1) show ?thesis
    by (simp add: sc)
qed

lemma foldl_scanned:
  "scanned cls ps s (foldl (\<lambda>s pid. scan_class pid (cls pid) (s\<lparr>as_listed := as_listed s + 1\<rparr>)) s ps)"
  by (induction ps arbitrary: s) (auto intro: scanned_Cons)

lemma whole_macos_scan:
  assumes "is_whole (scan_macos uid (Some (pids, whole)) probe own)" and "pid \<in> set pids" and "0 < pid"
  shows "accounted (classify_macos uid pid (probe pid)) (scan_macos uid (Some (pids, whole)) probe own)"
proof -
  define s where "s = foldl (\<lambda>s pid. scan_class pid (classify_macos uid pid (probe pid)) (s\<lparr>as_listed := as_listed s + 1\<rparr>))
      (empty_scan uid (ustr ''KERN_PROCARGS2'') whole) (filter (\<lambda>p. 0 < p) pids)"
  have sc: "scan_macos uid (Some (pids, whole)) probe own = sorted_scan s"
    using assms(1) by (auto simp: scan_macos_def s_def Let_def is_whole_def unreadable_listing_def split: if_splits)
  have "scanned (\<lambda>pid. classify_macos uid pid (probe pid)) (filter (\<lambda>p. 0 < p) pids)
      (empty_scan uid (ustr ''KERN_PROCARGS2'') whole) s"
    unfolding s_def by (rule foldl_scanned)
  from scanned_accounted [OF this, of pid] assms show ?thesis by (simp add: sc)
qed

end
