(* ===== verification/Daemon_Identity.thy ===== *)
theory Daemon_Identity
  imports Session_Metadata Argv_Scan Polling
begin

text \<open>
  Is the daemon of a record still there (\<^verbatim>\<open>crates/pty-core/src/registry/list.rs\<close>, the Linux branches): the reading of
  \<^verbatim>\<open>/proc/<pid>/status\<close> and \<^verbatim>\<open>stat\<close>, the proof of the leader, of the start token and of the boot, the weaker policy for
  explicit controls, and the check of a record with its companions. What the reads answer is an argument, and a process may
  change between two reads. Shown: no record of a daemon that runs throughout the check is called lost, a match is a live leader
  with the recorded token on the recorded boot, and readable evidence decides. The process-local counters of the results are left out.
\<close>

section \<open>Liveness of a pid\<close>

text \<open>\<open>kill0\<close> answers signal 0: success, or the error number. \<open>EPERM\<close> is 1.\<close>

definition pid_is_alive :: "(int \<Rightarrow> nat option) \<Rightarrow> int \<Rightarrow> bool" where
  "pid_is_alive kill0 pid = (if pid \<le> 0 then False else case kill0 pid of None \<Rightarrow> True | Some errno \<Rightarrow> errno = 1)"

text \<open>The kernel is asked again when the table does not answer.\<close>

definition has_process_exited_for_reap :: "bool \<Rightarrow> bool Answer \<Rightarrow> bool \<Rightarrow> bool" where
  "has_process_exited_for_reap alive exited alive_again =
     (if \<not> alive then True
      else case exited of Known b \<Rightarrow> b | NotPresent \<Rightarrow> True | NotKnown _ \<Rightarrow> \<not> alive_again)"

definition reaped_from_ps_state :: "rstr \<Rightarrow> bool \<Rightarrow> bool" where
  "reaped_from_ps_state st still_alive =
     (let s = trim st in if starts_with 90 s then True else s = [] \<and> \<not> still_alive)"

text \<open>The answer of the round \<open>k\<close> and the time before it; after the deadline one more answer is taken.\<close>

definition wait_for_process_exit :: "nat \<Rightarrow> nat \<Rightarrow> (nat \<Rightarrow> bool) \<Rightarrow> (nat \<Rightarrow> nat) \<Rightarrow> bool option" where
  "wait_for_process_exit started timeout exited clock = poll_until (\<lambda>b. b) (started + timeout) exited clock 0"

section \<open>Numbers and text of the files\<close>

text \<open>\<open>parseInt(s, 10)\<close>: the leading integer, if it fits 32 bits. The parser of \<open>i64\<close> refuses what is beyond 64.\<close>

definition parse_leading_int :: "rstr \<Rightarrow> int option" where
  "parse_leading_int s0 =
     (let s = dropWhile is_whitespace s0;
          neg = (case s of c # _ \<Rightarrow> c = 45 | [] \<Rightarrow> False);
          digits = takeWhile digit_char (case s of c # cs \<Rightarrow> if c = 45 \<or> c = 43 then cs else s | [] \<Rightarrow> []);
          value = int (digits_value digits)
      in
      if digits = [] \<or> value \<ge> 2 ^ 63 then None
      else
        (let v = (if neg then - value else value) in
         if - (2 ^ 31) \<le> v \<and> v < 2 ^ 31 then Some v else None))"

section \<open>The status and the start token of a leader\<close>

text \<open>The first line with the prefix.\<close>

definition status_field :: "string \<Rightarrow> rstr \<Rightarrow> rstr option" where
  "status_field name status =
     (case List.map_filter (strip_prefix (ustr name)) (str_lines status) of [] \<Rightarrow> None | v # _ \<Rightarrow> Some v)"

text \<open>The thread group and whether the process has exited unreaped, or an error: \<open>True\<close> where there is no such process.\<close>

definition linux_leader_status :: "stat_read \<Rightarrow> bool + int option \<times> bool" where
  "linux_leader_status r =
     (case r of
        StatGone \<Rightarrow> Inl True
      | StatRefused \<Rightarrow> Inl False
      | StatText status \<Rightarrow>
          (let tgid = Option.bind (status_field ''Tgid:'' status) (\<lambda>v. parse_i32 (trim v));
               exited = (case map_option (dropWhile is_whitespace) (status_field ''State:'' status) of
                           Some st \<Rightarrow> starts_with 90 st \<or> starts_with 88 st
                         | None \<Rightarrow> False)
           in Inr (tgid, exited)))"

text \<open>\<open>stat.get(rfind + 2..)\<close>: no text where that is beyond the end or inside a character.\<close>

definition read_linux_leader_start_token :: "rstr option \<Rightarrow> rstr option" where
  "read_linux_leader_start_token stat =
     (case Option.bind stat (after_rfind 41) of
        Some (c # tail) \<Rightarrow> if c < 128 then map_option (\<lambda>t. ustr ''linux:'' @ t) (field (split_whitespace tail) 19) else None
      | _ \<Rightarrow> None)"

text \<open>What the reads of one check answer, in their order. The second reading of the status happens when the token is unreadable.\<close>

record proc_answers =
  pa_status :: "int \<Rightarrow> stat_read"
  pa_stat :: "int \<Rightarrow> rstr option"
  pa_status_again :: "int \<Rightarrow> stat_read"
  pa_boot :: "rstr option"

definition read_process_start_token :: "proc_answers \<Rightarrow> int \<Rightarrow> rstr option" where
  "read_process_start_token pa pid =
     (if pid \<le> 0 then None
      else case linux_leader_status (pa_status pa pid) of
        Inr (Some tgid, _) \<Rightarrow> if tgid \<noteq> pid then None else read_linux_leader_start_token (pa_stat pa pid)
      | _ \<Rightarrow> None)"

section \<open>The identity of a daemon\<close>

datatype DaemonIdentityCheck = IdMatch | IdMismatch | IdGone | IdUnknown

fun identity_str :: "DaemonIdentityCheck \<Rightarrow> rstr" where
  "identity_str IdMatch = ustr ''match''"
| "identity_str IdMismatch = ustr ''mismatch''"
| "identity_str IdGone = ustr ''gone''"
| "identity_str IdUnknown = ustr ''unknown''"

definition legacy_boot :: "rstr \<Rightarrow> bool" where
  "legacy_boot boot \<longleftrightarrow> strip_prefix (ustr ''darwin:{'') boot \<noteq> None"

definition check_boot_identity :: "SessionMetadata \<Rightarrow> rstr option \<Rightarrow> DaemonIdentityCheck" where
  "check_boot_identity m live_boot =
     (case md_daemon_boot_id m of
        None \<Rightarrow> IdUnknown
      | Some recorded \<Rightarrow>
          if recorded = [] then IdUnknown
          else if legacy_boot recorded then IdUnknown
          else case live_boot of
            Some live \<Rightarrow> if legacy_boot live then IdUnknown else if live = recorded then IdMatch else IdMismatch
          | None \<Rightarrow> IdUnknown)"

definition recorded_pid :: "SessionMetadata \<Rightarrow> int option" where
  "recorded_pid m = map_option sint (md_daemon_pid m)"

definition check_daemon_identity_evidence ::
  "int \<Rightarrow> SessionMetadata \<Rightarrow> rstr option \<Rightarrow> stat_read \<Rightarrow> rstr option \<Rightarrow> DaemonIdentityCheck" where
  "check_daemon_identity_evidence pid m live_start_token status_again live_boot =
     (if pid \<le> 0 then IdGone
      else if recorded_pid m \<noteq> None \<and> recorded_pid m \<noteq> Some pid then IdMismatch
      else case daemon_start_token m of
        None \<Rightarrow> IdUnknown
      | Some expected \<Rightarrow>
          if expected = [] then IdUnknown
          else case live_start_token of
            Some live \<Rightarrow> if live \<noteq> expected then IdMismatch else check_boot_identity m live_boot
          | None \<Rightarrow>
              (case linux_leader_status status_again of
                 Inr (Some tgid, _) \<Rightarrow> if tgid \<noteq> pid then IdMismatch else IdUnknown
               | Inl True \<Rightarrow> IdGone
               | _ \<Rightarrow> IdUnknown))"

definition check_daemon_identity :: "proc_answers \<Rightarrow> int \<Rightarrow> SessionMetadata \<Rightarrow> DaemonIdentityCheck" where
  "check_daemon_identity pa pid m =
     (if pid \<le> 0 then IdGone
      else case linux_leader_status (pa_status pa pid) of
        Inr (Some tgid, exited) \<Rightarrow>
          if tgid \<noteq> pid then IdMismatch
          else if exited then IdGone
          else check_daemon_identity_evidence pid m (read_linux_leader_start_token (pa_stat pa pid))
                 (pa_status_again pa pid) (pa_boot pa)
      | Inl True \<Rightarrow> IdGone
      | _ \<Rightarrow> IdUnknown)"

definition default_metadata :: SessionMetadata where
  "default_metadata = the (from_map [])"

text \<open>A conflicting sidecar may be a replacement that is not published: no pid of that record is authority.\<close>

definition check_record_identity :: "proc_answers \<Rightarrow> int option \<Rightarrow> SessionMetadata option \<Rightarrow> DaemonIdentityCheck" where
  "check_record_identity pa sidecar metadata =
     (let recorded = Option.bind metadata recorded_pid in
      if sidecar \<noteq> None \<and> recorded \<noteq> None \<and> sidecar \<noteq> recorded then IdUnknown
      else case (case sidecar of Some p \<Rightarrow> Some p | None \<Rightarrow> recorded) of
        None \<Rightarrow> IdUnknown
      | Some pid \<Rightarrow> check_daemon_identity pa pid (case metadata of Some m \<Rightarrow> m | None \<Rightarrow> default_metadata))"

text \<open>With whether the pid file and the socket are known to be absent.\<close>

definition check_record_identity_in ::
  "proc_answers \<Rightarrow> bool \<Rightarrow> bool \<Rightarrow> int option \<Rightarrow> SessionMetadata option \<Rightarrow> DaemonIdentityCheck" where
  "check_record_identity_in pa pid_absent socket_absent sidecar metadata =
     (if sidecar = None \<and> (\<exists>m. metadata = Some m \<and> md_daemon_pid m = None) \<and> pid_absent \<and> socket_absent then IdGone
      else check_record_identity pa sidecar metadata)"

definition known_owner_lost :: "DaemonIdentityCheck \<Rightarrow> bool" where
  "known_owner_lost check \<longleftrightarrow> check = IdGone \<or> check = IdMismatch"

section \<open>The policy for explicit controls\<close>

datatype ControlIdentityCheck = CtlMatch | CtlLegacyVerified | CtlMismatch | CtlGone | CtlUnknown

definition check_legacy_control_identity ::
  "int \<Rightarrow> SessionMetadata \<Rightarrow> rstr option \<Rightarrow> stat_read \<Rightarrow> ControlIdentityCheck" where
  "check_legacy_control_identity pid m live_start_token status_again =
     (case live_start_token of
        Some live \<Rightarrow>
          (case daemon_start_token m of
             Some expected \<Rightarrow> if expected = live then CtlLegacyVerified else CtlMismatch
           | None \<Rightarrow> CtlUnknown)
      | None \<Rightarrow>
          (case linux_leader_status status_again of
             Inr (Some tgid, _) \<Rightarrow> if tgid \<noteq> pid then CtlMismatch else CtlUnknown
           | Inl True \<Rightarrow> CtlGone
           | _ \<Rightarrow> CtlUnknown))"

definition check_control_identity :: "proc_answers \<Rightarrow> int \<Rightarrow> SessionMetadata \<Rightarrow> ControlIdentityCheck" where
  "check_control_identity pa pid m =
     (if md_daemon_boot_id m \<noteq> None then
        (case check_daemon_identity pa pid m of
           IdMatch \<Rightarrow> CtlMatch | IdMismatch \<Rightarrow> CtlMismatch | IdGone \<Rightarrow> CtlGone | IdUnknown \<Rightarrow> CtlUnknown)
      else if pid \<le> 0 then CtlGone
      else if recorded_pid m \<noteq> None \<and> recorded_pid m \<noteq> Some pid then CtlMismatch
      else case linux_leader_status (pa_status pa pid) of
        Inr (Some tgid, exited) \<Rightarrow>
          if tgid \<noteq> pid then CtlMismatch
          else if exited then CtlGone
          else check_legacy_control_identity pid m (read_linux_leader_start_token (pa_stat pa pid)) (pa_status_again pa pid)
      | Inl True \<Rightarrow> CtlGone
      | _ \<Rightarrow> CtlUnknown)"

section \<open>The kernel behind the answers\<close>

text \<open>What a pid is at one instant: nothing, a thread of another leader, or a leader that has exited or not, with its start time.\<close>

datatype kernel_process = NoProcess | ThreadOf int rstr | Leader bool rstr

fun start_time_of :: "kernel_process \<Rightarrow> rstr option" where
  "start_time_of NoProcess = None"
| "start_time_of (ThreadOf _ start) = Some start"
| "start_time_of (Leader _ start) = Some start"

definition shows_status :: "int \<Rightarrow> kernel_process \<Rightarrow> stat_read \<Rightarrow> bool" where
  "shows_status pid p r \<longleftrightarrow>
     (case linux_leader_status r of
        Inl gone \<Rightarrow> gone \<longrightarrow> p = NoProcess
      | Inr (tgid, exited) \<Rightarrow>
          tgid = None
          \<or> (case p of
               NoProcess \<Rightarrow> False
             | ThreadOf g _ \<Rightarrow> g \<noteq> pid \<and> tgid = Some g
             | Leader z _ \<Rightarrow> tgid = Some pid \<and> exited = z))"

definition shows_stat :: "kernel_process \<Rightarrow> rstr option \<Rightarrow> bool" where
  "shows_stat p stat \<longleftrightarrow>
     (case read_linux_leader_start_token stat of
        None \<Rightarrow> True
      | Some tok \<Rightarrow> map_option (\<lambda>t. ustr ''linux:'' @ t) (start_time_of p) = Some tok)"

text \<open>The three reads see the process at three instants; the boot identity is read or not.\<close>

record process_history =
  ph_first :: kernel_process
  ph_second :: kernel_process
  ph_third :: kernel_process

definition shown :: "int \<Rightarrow> rstr \<Rightarrow> process_history \<Rightarrow> proc_answers \<Rightarrow> bool" where
  "shown pid boot h pa \<longleftrightarrow>
     shows_status pid (ph_first h) (pa_status pa pid) \<and> shows_stat (ph_second h) (pa_stat pa pid)
     \<and> shows_status pid (ph_third h) (pa_status_again pa pid) \<and> (pa_boot pa = None \<or> pa_boot pa = Some boot)"

text \<open>The process that a record names, running at all three instants.\<close>

definition owner_runs :: "int \<Rightarrow> rstr \<Rightarrow> process_history \<Rightarrow> SessionMetadata \<Rightarrow> bool" where
  "owner_runs pid boot h m \<longleftrightarrow>
     0 < pid \<and> recorded_pid m \<in> {None, Some pid} \<and> md_daemon_boot_id m \<in> {None, Some boot}
     \<and> (\<exists>start. ph_first h = Leader False start \<and> ph_second h = Leader False start \<and> ph_third h = Leader False start
          \<and> daemon_start_token m = Some (ustr ''linux:'' @ start))"

lemma boot_kept: "live = None \<or> live = Some boot \<Longrightarrow> md_daemon_boot_id m \<in> {None, Some boot}
    \<Longrightarrow> \<not> known_owner_lost (check_boot_identity m live)"
  by (auto simp: check_boot_identity_def known_owner_lost_def split: option.splits)

lemma linux_not_empty: "ustr ''linux:'' @ s \<noteq> []"
  by (simp add: ustr_def)

lemma owner_kept:
  assumes "shown pid boot h pa" and "owner_runs pid boot h m"
  shows "\<not> known_owner_lost (check_daemon_identity pa pid m)"
proof -
  obtain start where r: "0 < pid" "recorded_pid m \<in> {None, Some pid}" "md_daemon_boot_id m \<in> {None, Some boot}"
      "ph_first h = Leader False start" "ph_second h = Leader False start" "ph_third h = Leader False start"
      "daemon_start_token m = Some (ustr ''linux:'' @ start)"
    using assms(2) by (auto simp: owner_runs_def)
  have b: "\<not> known_owner_lost (check_boot_identity m (pa_boot pa))"
    using assms(1) r(3) by (intro boot_kept) (auto simp: shown_def)
  have "\<not> known_owner_lost (check_daemon_identity_evidence pid m (read_linux_leader_start_token (pa_stat pa pid))
          (pa_status_again pa pid) (pa_boot pa))"
    using assms(1) r b linux_not_empty [of start]
    unfolding shown_def shows_stat_def shows_status_def check_daemon_identity_evidence_def known_owner_lost_def
    by (auto split: option.splits sum.splits bool.splits)
  then show ?thesis
    using assms(1) r
    unfolding shown_def shows_status_def check_daemon_identity_def known_owner_lost_def
    by (auto split: option.splits sum.splits bool.splits)
qed

lemma record_owner_kept:
  assumes "shown pid boot h pa" and "owner_runs pid boot h m" and "sidecar \<in> {None, Some pid}"
    and "sidecar = None \<Longrightarrow> recorded_pid m \<noteq> None \<or> \<not> pid_absent \<or> \<not> socket_absent"
  shows "\<not> known_owner_lost (check_record_identity_in pa pid_absent socket_absent sidecar (Some m))"
proof -
  have p: "recorded_pid m \<in> {None, Some pid}" using assms(2) by (simp add: owner_runs_def)
  have "\<not> known_owner_lost (check_record_identity pa sidecar (Some m))"
    using owner_kept [OF assms(1,2)] p assms(3)
    by (auto simp: check_record_identity_def Let_def known_owner_lost_def split: option.splits)
  then show ?thesis using assms(3,4)
    by (auto simp: check_record_identity_in_def recorded_pid_def)
qed

lemma named_owner_kept:
  assumes "shown pid boot h pa" and "owner_runs pid boot h m" and "recorded_pid m = Some pid"
  shows "\<not> known_owner_lost (check_record_identity_in pa pid_absent socket_absent sidecar (Some m))"
    and "\<not> known_owner_lost (check_record_identity pa sidecar (Some m))"
  using owner_kept [OF assms(1,2)] assms(3)
  by (auto simp: check_record_identity_in_def check_record_identity_def known_owner_lost_def recorded_pid_def Let_def split: option.splits)

lemma boot_match: "check_boot_identity m live = IdMatch \<Longrightarrow> md_daemon_boot_id m \<noteq> None \<and> md_daemon_boot_id m = live"
  by (auto simp: check_boot_identity_def split: option.splits if_splits)

lemma match_proves:
  assumes "shown pid boot h pa" and "check_daemon_identity pa pid m = IdMatch"
  shows "(\<exists>s. ph_first h = Leader False s) \<and> (\<exists>start. start_time_of (ph_second h) = Some start
      \<and> daemon_start_token m = Some (ustr ''linux:'' @ start)) \<and> md_daemon_boot_id m = Some boot \<and> recorded_pid m \<in> {None, Some pid}"
proof -
  have l: "linux_leader_status (pa_status pa pid) = Inr (Some pid, False)"
    and e: "check_daemon_identity_evidence pid m (read_linux_leader_start_token (pa_stat pa pid))
          (pa_status_again pa pid) (pa_boot pa) = IdMatch"
    using assms(2) by (auto simp: check_daemon_identity_def split: if_splits sum.splits option.splits bool.splits)
  obtain tok where t: "read_linux_leader_start_token (pa_stat pa pid) = Some tok" "daemon_start_token m = Some tok"
      "check_boot_identity m (pa_boot pa) = IdMatch" "recorded_pid m = None \<or> recorded_pid m = Some pid"
    using e by (auto simp: check_daemon_identity_evidence_def split: if_splits sum.splits option.splits bool.splits)
  have "md_daemon_boot_id m = Some boot"
    using boot_match [OF t(3)] assms(1) by (auto simp: shown_def)
  moreover have "\<exists>s. ph_first h = Leader False s"
    using assms(1) l by (auto simp: shown_def shows_status_def split: kernel_process.splits)
  moreover have "\<exists>start. start_time_of (ph_second h) = Some start \<and> tok = ustr ''linux:'' @ start"
    using assms(1) t(1) by (auto simp: shown_def shows_stat_def)
  ultimately show ?thesis using t(2,4) by auto
qed

lemma legacy_proves:
  assumes "shown pid boot h pa" and "check_control_identity pa pid m = CtlLegacyVerified"
  shows "md_daemon_boot_id m = None \<and> (\<exists>s. ph_first h = Leader False s) \<and> (\<exists>start. start_time_of (ph_second h) = Some start
      \<and> daemon_start_token m = Some (ustr ''linux:'' @ start))"
proof -
  have b: "md_daemon_boot_id m = None"
    using assms(2) by (auto simp: check_control_identity_def split: if_splits DaemonIdentityCheck.splits)
  then have l: "linux_leader_status (pa_status pa pid) = Inr (Some pid, False)"
    and e: "check_legacy_control_identity pid m (read_linux_leader_start_token (pa_stat pa pid)) (pa_status_again pa pid)
        = CtlLegacyVerified"
    using assms(2) by (auto simp: check_control_identity_def split: if_splits sum.splits option.splits bool.splits)
  obtain tok where t: "read_linux_leader_start_token (pa_stat pa pid) = Some tok" "daemon_start_token m = Some tok"
    using e by (auto simp: check_legacy_control_identity_def split: if_splits sum.splits option.splits bool.splits)
  have "\<exists>s. ph_first h = Leader False s"
    using assms(1) l by (auto simp: shown_def shows_status_def split: kernel_process.splits)
  moreover have "\<exists>start. start_time_of (ph_second h) = Some start \<and> tok = ustr ''linux:'' @ start"
    using assms(1) t(1) by (auto simp: shown_def shows_stat_def)
  ultimately show ?thesis using b t(2) by auto
qed

text \<open>Evidence that decides: every read gives its part, and the record is complete.\<close>

definition evidence_readable :: "int \<Rightarrow> proc_answers \<Rightarrow> SessionMetadata \<Rightarrow> bool" where
  "evidence_readable pid pa m \<longleftrightarrow>
     (case linux_leader_status (pa_status pa pid) of Inr (tgid, _) \<Rightarrow> tgid \<noteq> None | Inl gone \<Rightarrow> gone)
     \<and> read_linux_leader_start_token (pa_stat pa pid) \<noteq> None
     \<and> (case pa_boot pa of Some live \<Rightarrow> \<not> legacy_boot live | None \<Rightarrow> False)
     \<and> (case daemon_start_token m of Some t \<Rightarrow> t \<noteq> [] | None \<Rightarrow> False)
     \<and> (case md_daemon_boot_id m of Some b \<Rightarrow> b \<noteq> [] \<and> \<not> legacy_boot b | None \<Rightarrow> False)"

lemma readable_decides: "evidence_readable pid pa m \<Longrightarrow> check_daemon_identity pa pid m \<noteq> IdUnknown"
  by (auto simp: evidence_readable_def check_daemon_identity_def check_daemon_identity_evidence_def check_boot_identity_def
      split: option.splits sum.splits if_splits)

section \<open>Properties\<close>

text \<open>
  C18. The identity check is sound. Whatever the reads answer and however the process changes between them: a record is
  never called gone or mismatched, alone or with its companions, while the daemon it names runs; a match is a live leader with the
  recorded start and boot; the weaker policy for controls accepts only a record without a boot, with the start that was
  read; and when the evidence is readable the answer is not unknown.
\<close>

theorem identity_check_sound:
  assumes "shown pid boot h pa"
  shows "(owner_runs pid boot h m \<longrightarrow>
         \<not> known_owner_lost (check_daemon_identity pa pid m)
         \<and> (sidecar = Some pid \<or> sidecar = None \<and> recorded_pid m = Some pid \<longrightarrow>
              \<not> known_owner_lost (check_record_identity_in pa pid_absent socket_absent sidecar (Some m))))
    \<and> (check_daemon_identity pa pid m = IdMatch \<longrightarrow>
         (\<exists>s. ph_first h = Leader False s) \<and> md_daemon_boot_id m = Some boot
         \<and> (\<exists>start. start_time_of (ph_second h) = Some start \<and> daemon_start_token m = Some (ustr ''linux:'' @ start)))
    \<and> (check_control_identity pa pid m = CtlLegacyVerified \<longrightarrow>
         (\<exists>s. ph_first h = Leader False s) \<and> md_daemon_boot_id m = None
         \<and> (\<exists>start. start_time_of (ph_second h) = Some start \<and> daemon_start_token m = Some (ustr ''linux:'' @ start)))
    \<and> (evidence_readable pid pa m \<longrightarrow> check_daemon_identity pa pid m \<noteq> IdUnknown)"
proof (intro conjI impI)
  assume "owner_runs pid boot h m"
  then show "\<not> known_owner_lost (check_daemon_identity pa pid m)" by (rule owner_kept [OF assms])
next
  assume "owner_runs pid boot h m" and "sidecar = Some pid \<or> sidecar = None \<and> recorded_pid m = Some pid"
  then show "\<not> known_owner_lost (check_record_identity_in pa pid_absent socket_absent sidecar (Some m))"
    by (intro record_owner_kept [OF assms]) auto
next
  assume "evidence_readable pid pa m"
  then show "check_daemon_identity pa pid m \<noteq> IdUnknown" by (rule readable_decides)
qed (use match_proves [OF assms] legacy_proves [OF assms] in blast)+

definition example_stat_text :: rstr where
  "example_stat_text = ustr ''42 (pty) S 1 42 42 0 0 0 0 0 0 0 0 0 0 0 0 0 1 0 777 5''"

definition example_proc :: proc_answers where
  "example_proc = \<lparr>pa_status = (\<lambda>_. StatText (ustr ''Tgid: 42'')), pa_stat = (\<lambda>_. Some example_stat_text),
     pa_status_again = (\<lambda>_. StatGone), pa_boot = Some (ustr ''b'')\<rparr>"

definition example_owner :: SessionMetadata where
  "example_owner = default_metadata\<lparr>md_daemon_start_token := Some (ustr ''linux:777''), md_daemon_boot_id := Some (ustr ''b'')\<rparr>"

lemma example_status: "linux_leader_status (pa_status example_proc 42) = Inr (Some 42, False)"
proof -
  have l: "str_lines (ustr ''Tgid: 42'') = [ustr ''Tgid: 42'']"
    by (simp add: str_lines.simps strip_cr_def ustr_def)
  show ?thesis
    by (simp add: example_proc_def linux_leader_status_def status_field_def l List.map_filter_simps)
      (simp add: strip_prefix_def ustr_def trim_def trim_matches_def is_whitespace_def parse_i32_def parse_unsigned_def
        all_digits_def digit_char_def digits_value_def)
qed

lemma example_token: "read_linux_leader_start_token (pa_stat example_proc 42) = Some (ustr ''linux:'' @ ustr ''777'')"
proof -
  have w: "split_whitespace (ustr ''S 1 42 42 0 0 0 0 0 0 0 0 0 0 0 0 0 1 0 777 5'') =
      map ustr [''S'', ''1'', ''42'', ''42'', ''0'', ''0'', ''0'', ''0'', ''0'', ''0'', ''0'', ''0'', ''0'', ''0'', ''0'', ''0'',
        ''0'', ''1'', ''0'', ''777'', ''5'']"
    by (simp add: split_whitespace.simps is_whitespace_def ustr_def)
  have r: "after_rfind 41 example_stat_text = Some (32 # ustr ''S 1 42 42 0 0 0 0 0 0 0 0 0 0 0 0 0 1 0 777 5'')"
    by (simp add: example_stat_text_def after_rfind_def after_last_def ustr_def)
  show ?thesis
    by (simp add: example_proc_def read_linux_leader_start_token_def r w field_def)
qed

theorem identity_check_sound_witness:
  "check_daemon_identity example_proc 42 example_owner = IdMatch
    \<and> (\<exists>start. start_time_of (Leader False (ustr ''777'')) = Some start \<and> daemon_start_token example_owner = Some (ustr ''linux:'' @ start))"
proof -
  note s = example_status and t = example_token
  have a: "linux_leader_status (pa_status_again example_proc 42) = Inl True"
    by (simp add: example_proc_def linux_leader_status_def)
  have h: "shown 42 (ustr ''b'') \<lparr>ph_first = Leader False (ustr ''777''), ph_second = Leader False (ustr ''777''),
      ph_third = NoProcess\<rparr> example_proc"
    unfolding shown_def shows_status_def shows_stat_def s t a by (simp add: example_proc_def)
  have o: "daemon_start_token example_owner = Some (ustr ''linux:'' @ ustr ''777'')" "md_daemon_boot_id example_owner = Some (ustr ''b'')"
      "recorded_pid example_owner = None"
    by (simp_all add: example_owner_def daemon_start_token_def recorded_pid_def default_metadata_def from_map_def opt_field_def
        plain_field_def ustr_def)
  have b: "check_boot_identity example_owner (pa_boot example_proc) = IdMatch"
    by (simp add: check_boot_identity_def o example_proc_def legacy_boot_def strip_prefix_def ustr_def)
  have m: "check_daemon_identity example_proc 42 example_owner = IdMatch"
    by (simp add: check_daemon_identity_def check_daemon_identity_evidence_def s t o b ustr_def)
  show ?thesis using identity_check_sound [OF h, of example_owner] m by auto
qed

end
