(* ===== verification/Registry_Files.thy ===== *)
theory Registry_Files
  imports Daemon_Identity Operation_Envelope "HOL-Library.List_Lexorder"
begin

text \<open>
  The directory of the registry as its readers and writers see it: the paths of a session and the choice of its socket's
  name (\<^verbatim>\<open>crates/pty-core/src/registry/root.rs\<close>), temporary names (\<^verbatim>\<open>atomic.rs\<close>), reading a record and its pid file
  (\<^verbatim>\<open>metadata.rs\<close>, \<^verbatim>\<open>list.rs\<close>), and removal (\<^verbatim>\<open>cleanup.rs\<close>). A registry is the list of its files by their path below the
  root; the JSON parser and printer and the hash are arguments. A file that the system refuses to remove is one of \<open>rg_stuck\<close>.
\<close>

section \<open>Text\<close>

definition with_suffix :: "rstr \<Rightarrow> string \<Rightarrow> rstr" where
  "with_suffix s suf = s @ ustr suf"

definition without_suffix :: "string \<Rightarrow> rstr \<Rightarrow> rstr option" where
  "without_suffix suf s =
     (let n = length s - length suf in
      if length suf \<le> length s \<and> drop n s = ustr suf then Some (take n s) else None)"

definition text_contains :: "string \<Rightarrow> rstr \<Rightarrow> bool" where
  "text_contains pat s \<longleftrightarrow> list_ex (\<lambda>i. take (length pat) (drop i s) = ustr pat) [0..<Suc (length s)]"

lemma without_suffix_iff: "without_suffix suf s = Some n \<longleftrightarrow> s = with_suffix n suf"
  by (auto simp: without_suffix_def with_suffix_def ustr_def Let_def) (metis append_take_drop_id)

lemma without_with [simp]: "without_suffix suf (with_suffix n suf) = Some n"
  by (simp add: without_suffix_iff)

lemma with_suffix_inject [simp]: "with_suffix a suf = with_suffix b suf \<longleftrightarrow> a = b"
  by (simp add: with_suffix_def)

section \<open>Files\<close>

text \<open>What a path names: a regular file that can be read, directly or through a link, a socket, a link to nothing, or anything else.\<close>

datatype node = RegularFile bytes | LinkedFile bytes | SocketNode | DanglingLink | OtherNode

text \<open>An entry that is not text, or an error of the listing.\<close>

datatype odd_entry = NotText | ListingFails

datatype dir_access = DirOpens | DirMissing | DirRefused

record registry =
  rg_access :: dir_access
  rg_files :: "(rstr \<times> node) list"
  rg_stuck :: "rstr list"
  rg_odd :: "odd_entry list"

definition node_at :: "registry \<Rightarrow> rstr \<Rightarrow> node option" where
  "node_at r p = map_of (rg_files r) p"

text \<open>\<open>Path::exists\<close> follows links; \<open>symlink_metadata\<close> does not.\<close>

definition path_exists :: "registry \<Rightarrow> rstr \<Rightarrow> bool" where
  "path_exists r p \<longleftrightarrow> node_at r p \<noteq> None \<and> node_at r p \<noteq> Some DanglingLink"

definition is_socket :: "registry \<Rightarrow> rstr \<Rightarrow> bool" where
  "is_socket r p \<longleftrightarrow> node_at r p = Some SocketNode"

definition absent :: "registry \<Rightarrow> rstr \<Rightarrow> bool" where
  "absent r p \<longleftrightarrow> node_at r p = None"

text \<open>\<open>std::fs::read\<close>.\<close>

definition read_file :: "registry \<Rightarrow> rstr \<Rightarrow> bytes option" where
  "read_file r p = (case node_at r p of Some (RegularFile b) \<Rightarrow> Some b | Some (LinkedFile b) \<Rightarrow> Some b | _ \<Rightarrow> None)"

datatype removal = WasRemoved | WasMissing | WasRefused

definition remove_file :: "rstr \<Rightarrow> registry \<Rightarrow> removal \<times> registry" where
  "remove_file p r =
     (if node_at r p = None then (WasMissing, r)
      else if p \<in> set (rg_stuck r) then (WasRefused, r)
      else (WasRemoved, r\<lparr>rg_files := AList.delete p (rg_files r)\<rparr>))"

definition unlink :: "rstr \<Rightarrow> registry \<Rightarrow> registry" where
  "unlink p r = snd (remove_file p r)"

definition put_file :: "rstr \<Rightarrow> bytes \<Rightarrow> registry \<Rightarrow> registry" where
  "put_file p b r = r\<lparr>rg_files := AList.update p (RegularFile b) (rg_files r)\<rparr>"

text \<open>The entries of the root itself; the paths below a subdirectory have a slash.\<close>

definition root_entries :: "registry \<Rightarrow> rstr list" where
  "root_entries r = filter (\<lambda>p. 47 \<notin> set p) (map fst (rg_files r))"

lemma node_at_unlink:
  "node_at (unlink p r) q = (if q = p \<and> p \<notin> set (rg_stuck r) then None else node_at r q)"
  by (auto simp: node_at_def unlink_def remove_file_def delete_conv')

lemma unlink_rest [simp]:
  "rg_stuck (unlink p r) = rg_stuck r" "rg_access (unlink p r) = rg_access r" "rg_odd (unlink p r) = rg_odd r"
  by (simp_all add: unlink_def remove_file_def)

lemma node_at_put [simp]: "node_at (put_file p b r) q = (if q = p then Some (RegularFile b) else node_at r q)"
  by (simp add: node_at_def put_file_def update_conv')

section \<open>The paths of a session\<close>

definition pid_path :: "rstr \<Rightarrow> rstr" where "pid_path name = with_suffix name ''.pid''"
definition metadata_path :: "rstr \<Rightarrow> rstr" where "metadata_path name = with_suffix name ''.json''"
definition events_path :: "rstr \<Rightarrow> rstr" where "events_path name = with_suffix name ''.events.jsonl''"
definition lock_path :: "rstr \<Rightarrow> rstr" where "lock_path name = with_suffix name ''.lock''"
definition event_lock_path :: "rstr \<Rightarrow> rstr" where "event_lock_path name = with_suffix name ''.events.lock''"

definition recovery_revision_path :: "rstr \<Rightarrow> rstr" where
  "recovery_revision_path name = ustr ''.recovery/'' @ with_suffix name ''.revision.json''"

definition output_activity_path :: "rstr \<Rightarrow> rstr" where
  "output_activity_path name = ustr ''.activity/'' @ with_suffix name ''.json''"

text \<open>What the readers rely on outside the program: the path of the root, SHA-256, and the JSON library.\<close>

record registry_tools =
  re_root :: rstr
  re_digest :: "bytes \<Rightarrow> bytes"
  re_parse :: "bytes \<Rightarrow> json option"
  re_print :: "json imap \<Rightarrow> bytes"
  re_parse_record :: "bool \<Rightarrow> bytes \<Rightarrow> SessionMetadata option"

definition socket_filenames :: "registry_tools \<Rightarrow> rstr \<Rightarrow> rstr \<times> rstr" where
  "socket_filenames env name =
     (with_suffix name ''.sock'',
      64 # with_suffix (take 32 (sha256_hex (re_digest env) (as_bytes name))) ''.sock'')"

text \<open>
  The name of \<open>socket_path_in\<close> below the root. A published socket keeps its name; the alias of the root that the source
  looks for then changes the directory's spelling only.
\<close>

definition socket_file :: "registry_tools \<Rightarrow> registry \<Rightarrow> rstr \<Rightarrow> rstr" where
  "socket_file env r name =
     (case socket_filenames env name of (short, bounded) \<Rightarrow>
        if is_socket r bounded then bounded
        else if is_socket r short then short
        else if utf8_len (re_root env @ 47 # short) \<le> SUN_PATH_MAX False then short else bounded)"

definition socket_path :: "registry_tools \<Rightarrow> registry \<Rightarrow> rstr \<Rightarrow> rstr" where
  "socket_path env r name = re_root env @ 47 # socket_file env r name"

definition name_is_valid :: "registry_tools \<Rightarrow> registry \<Rightarrow> rstr \<Rightarrow> bool" where
  "name_is_valid env r name \<longleftrightarrow> validate_name False (socket_path env r) name = Inr ()"

text \<open>An entry of an atomic write in progress.\<close>

definition is_tmp_name :: "rstr \<Rightarrow> bool" where
  "is_tmp_name file_name \<longleftrightarrow> text_contains ''.tmp.'' file_name"

section \<open>Reading a record\<close>

definition read_metadata_map :: "registry_tools \<Rightarrow> registry \<Rightarrow> rstr \<Rightarrow> json imap option" where
  "read_metadata_map env r name =
     (case Option.bind (read_file r (metadata_path name)) (re_parse env) of Some (JObject m) \<Rightarrow> Some m | _ \<Rightarrow> None)"

definition read_metadata :: "registry_tools \<Rightarrow> registry \<Rightarrow> rstr \<Rightarrow> SessionMetadata option" where
  "read_metadata env r name = Option.bind (read_metadata_map env r name) from_map"

definition session_exists :: "registry \<Rightarrow> rstr \<Rightarrow> bool" where
  "session_exists r name = path_exists r (metadata_path name)"

definition read_session_pid :: "registry \<Rightarrow> rstr \<Rightarrow> int option" where
  "read_session_pid r name =
     Option.bind (Option.bind (read_file r (pid_path name)) from_utf8) (\<lambda>content. parse_leading_int (trim content))"

definition write_metadata_map :: "registry_tools \<Rightarrow> rstr \<Rightarrow> json imap \<Rightarrow> registry \<Rightarrow> registry" where
  "write_metadata_map env name m r = put_file (metadata_path name) (re_print env m) r"

section \<open>Removal\<close>

definition cleanup_socket :: "registry_tools \<Rightarrow> rstr \<Rightarrow> registry \<Rightarrow> registry" where
  "cleanup_socket env name r = unlink (pid_path name) (unlink (socket_file env r name) r)"

definition cleanup_all_while_locked :: "registry_tools \<Rightarrow> rstr \<Rightarrow> registry \<Rightarrow> registry" where
  "cleanup_all_while_locked env name r =
     unlink (output_activity_path name)
       (unlink (recovery_revision_path name)
         (unlink (events_path name) (unlink (metadata_path name) (cleanup_socket env name r))))"

lemma socket_file_sock: "\<exists>n. socket_file env r name = with_suffix n ''.sock''"
  by (auto simp: socket_file_def socket_filenames_def with_suffix_def)

lemma suffixes_differ [simp]:
  "with_suffix a ''.json'' \<noteq> with_suffix b ''.pid''" "with_suffix a ''.pid'' \<noteq> with_suffix b ''.json''"
  "with_suffix a ''.json'' \<noteq> with_suffix b ''.sock''" "with_suffix a ''.sock'' \<noteq> with_suffix b ''.json''"
  "with_suffix a ''.pid'' \<noteq> with_suffix b ''.sock''" "with_suffix a ''.sock'' \<noteq> with_suffix b ''.pid''"
  "with_suffix a ''.json'' \<noteq> with_suffix b ''.events.jsonl''" "with_suffix a ''.events.jsonl'' \<noteq> with_suffix b ''.json''"
proof -
  have d: "with_suffix a x \<noteq> with_suffix b y" if "last x \<noteq> last y" "x \<noteq> []" "y \<noteq> []" for x y
  proof
    assume "with_suffix a x = with_suffix b y"
    then have "last (a @ ustr x) = last (b @ ustr y)" by (simp add: with_suffix_def)
    then show False using that by (simp add: ustr_def last_map)
  qed
  show "with_suffix a ''.json'' \<noteq> with_suffix b ''.pid''" "with_suffix a ''.pid'' \<noteq> with_suffix b ''.json''"
    "with_suffix a ''.json'' \<noteq> with_suffix b ''.sock''" "with_suffix a ''.sock'' \<noteq> with_suffix b ''.json''"
    "with_suffix a ''.pid'' \<noteq> with_suffix b ''.sock''" "with_suffix a ''.sock'' \<noteq> with_suffix b ''.pid''"
    "with_suffix a ''.json'' \<noteq> with_suffix b ''.events.jsonl''" "with_suffix a ''.events.jsonl'' \<noteq> with_suffix b ''.json''"
    by (rule d; simp)+
qed

end
