(* ===== verification/Registry_Listing.thy ===== *)
theory Registry_Listing
  imports Registry_Files
begin

text \<open>
  The listing of the registry (\<^verbatim>\<open>crates/pty-core/src/registry/list.rs\<close>): the scanner with its tolerant and its strict mode, one
  observation of the whole directory or of one session, and what is read off it: references, and the targets of signals. The
  processes and the connects to sockets answer through arguments; the listing cache is left out. Shown: a listing is sorted, its status
  follows from the record and the identity, and a strict listing that is complete has every record of the directory.
\<close>

section \<open>Sessions\<close>

datatype SessionStatus = StatusRunning | StatusExited | StatusVanished

fun status_str :: "SessionStatus \<Rightarrow> rstr" where
  "status_str StatusRunning = ustr ''running''"
| "status_str StatusExited = ustr ''exited''"
| "status_str StatusVanished = ustr ''vanished''"

definition status_is_gone :: "SessionStatus \<Rightarrow> bool" where
  "status_is_gone st \<longleftrightarrow> st \<noteq> StatusRunning"

text \<open>The socket is given by its file below the root.\<close>

record SessionInfo =
  si_name :: rstr
  si_socket :: rstr
  si_pid :: "int option"
  si_status :: SessionStatus
  si_identity :: DaemonIdentityCheck
  si_metadata :: "SessionMetadata option"

definition is_gone :: "SessionInfo \<Rightarrow> bool" where
  "is_gone s \<longleftrightarrow> status_is_gone (si_status s)"

definition info_display_name :: "SessionInfo \<Rightarrow> rstr option" where
  "info_display_name s = Option.bind (si_metadata s) md_display_name"

datatype InventoryErrorKind =
    RootMissing | RootUnreadable | EntryUnreadable | MetadataUnreadable | MetadataMalformed | PidUnreadable
  | PidMalformed | ProbeTimeout | IdentityUnknown

type_synonym scan_errors = "(InventoryErrorKind \<times> rstr) list"

text \<open>An error has its kind and its path below the root; the detail is only printed.\<close>

record Inventory =
  iv_complete :: bool
  iv_entries :: "SessionInfo list"
  iv_errors :: scan_errors

section \<open>The scanner\<close>

definition scan_error :: "bool \<Rightarrow> InventoryErrorKind \<Rightarrow> rstr \<Rightarrow> scan_errors" where
  "scan_error strictly kind path = (if strictly then [(kind, path)] else [])"

definition read_optional :: "bool \<Rightarrow> registry \<Rightarrow> rstr \<Rightarrow> InventoryErrorKind \<Rightarrow> bool \<Rightarrow> bytes option \<times> scan_errors" where
  "read_optional strictly r path kind observed =
     (case read_file r path of
        Some b \<Rightarrow> (Some b, [])
      | None \<Rightarrow> (None, if strictly \<and> (observed \<or> \<not> absent r path) then scan_error strictly kind path else []))"

definition scan_metadata ::
  "registry_tools \<Rightarrow> bool \<Rightarrow> bool \<Rightarrow> registry \<Rightarrow> rstr \<Rightarrow> bool \<Rightarrow> SessionMetadata option \<times> scan_errors" where
  "scan_metadata env strictly full r path observed =
     (case read_optional strictly r path MetadataUnreadable observed of
        (None, es) \<Rightarrow> (None, es)
      | (Some b, es) \<Rightarrow>
          (case re_parse_record env full b of
             Some m \<Rightarrow> (Some m, es)
           | None \<Rightarrow> (None, es @ scan_error strictly MetadataMalformed path)))"

definition strict_pid :: "rstr \<Rightarrow> bool" where
  "strict_pid content \<longleftrightarrow>
     content \<noteq> [] \<and> list_all digit_char content \<and> (case parse_i32 content of Some p \<Rightarrow> p > 0 | None \<Rightarrow> False)"

definition scan_pid :: "bool \<Rightarrow> registry \<Rightarrow> rstr \<Rightarrow> bool \<Rightarrow> int option \<times> scan_errors" where
  "scan_pid strictly r path observed =
     (case read_optional strictly r path PidUnreadable observed of
        (None, es) \<Rightarrow> (None, es)
      | (Some b, es) \<Rightarrow>
          (case from_utf8 b of
             None \<Rightarrow> (None, es @ scan_error strictly PidMalformed path)
           | Some t \<Rightarrow>
               (let content = trim t in
                (parse_leading_int content,
                 es @ (if strictly \<and> \<not> strict_pid content then scan_error strictly PidMalformed path else [])))))"

definition read_identity_record :: "registry_tools \<Rightarrow> registry \<Rightarrow> rstr \<Rightarrow> (SessionMetadata \<times> int option) option" where
  "read_identity_record env r name =
     (case scan_metadata env True True r (metadata_path name) False of
        (None, _) \<Rightarrow> None
      | (Some m, es) \<Rightarrow>
          (case scan_pid True r (pid_path name) False of
             (sidecar, es') \<Rightarrow> if es = [] \<and> es' = [] then Some (m, sidecar) else None))"

section \<open>One observation\<close>

definition record_id :: "rstr \<Rightarrow> rstr option" where
  "record_id entry =
     (case without_suffix ''.json'' entry of Some n \<Rightarrow> Some n | None \<Rightarrow> without_suffix ''.pid'' entry)"

definition reserved_companion :: "rstr \<Rightarrow> bool" where
  "reserved_companion entry \<longleftrightarrow> starts_with 64 entry \<and> record_id entry \<noteq> None"

definition scan_entries :: "registry_tools \<Rightarrow> bool \<Rightarrow> rstr option \<Rightarrow> registry \<Rightarrow> rstr list \<times> scan_errors" where
  "scan_entries env strictly only r =
     (let named = filter (\<lambda>e. \<not> is_tmp_name e) (root_entries r);
          chosen = (case only of
                      None \<Rightarrow> named
                    | Some n \<Rightarrow> filter (\<lambda>e. e \<in> {socket_file env r n, metadata_path n, pid_path n}) named)
      in (sort (filter (\<lambda>e. \<not> reserved_companion e) chosen),
          concat (map (\<lambda>_. scan_error strictly EntryUnreadable []) (rg_odd r))
          @ concat (map (scan_error strictly EntryUnreadable) (filter reserved_companion chosen))))"

text \<open>Whose socket an entry is. A bounded name carries no id: it is found through the companions, the last one with that address.\<close>

datatype socket_verdict = NoSocket | SocketOf rstr | BadSocket

definition socket_names :: "registry_tools \<Rightarrow> registry \<Rightarrow> rstr list \<Rightarrow> (rstr \<times> rstr) list" where
  "socket_names env r entries = rev (map (\<lambda>n. (socket_file env r n, n)) (List.map_filter record_id entries))"

definition socket_of_entry :: "registry_tools \<Rightarrow> registry \<Rightarrow> rstr list \<Rightarrow> rstr \<Rightarrow> socket_verdict" where
  "socket_of_entry env r entries entry =
     (case without_suffix ''.sock'' entry of
        None \<Rightarrow> NoSocket
      | Some stem \<Rightarrow>
          (case (case map_of (socket_names env r entries) entry of
                   Some n \<Rightarrow> Some n
                 | None \<Rightarrow> if starts_with 64 stem then None else Some stem) of
             None \<Rightarrow> BadSocket
           | Some n \<Rightarrow> if socket_file env r n \<noteq> entry then BadSocket else SocketOf n))"

definition socket_ids :: "registry_tools \<Rightarrow> registry \<Rightarrow> rstr list \<Rightarrow> rstr list" where
  "socket_ids env r entries =
     List.map_filter (\<lambda>e. case socket_of_entry env r entries e of SocketOf n \<Rightarrow> Some n | _ \<Rightarrow> None) entries"

definition scan_names :: "registry_tools \<Rightarrow> bool \<Rightarrow> registry \<Rightarrow> rstr list \<Rightarrow> rstr list" where
  "scan_names env strictly r entries =
     sort (remdups (List.map_filter (if strictly then record_id else without_suffix ''.json'') entries
                    @ socket_ids env r entries))"

definition session_status :: "SessionMetadata option \<Rightarrow> DaemonIdentityCheck \<Rightarrow> SessionStatus" where
  "session_status metadata check =
     (if (case metadata of Some m \<Rightarrow> has_exited m \<or> md_exit_code m \<noteq> None | None \<Rightarrow> False) then StatusExited
      else if check \<in> {IdMatch, IdUnknown} then StatusRunning else StatusVanished)"

text \<open>One name: its entry if it has one, its errors, and its socket if its owner is unknown in strict mode.\<close>

definition scan_name ::
  "registry_tools \<Rightarrow> proc_answers \<Rightarrow> bool \<Rightarrow> bool \<Rightarrow> registry \<Rightarrow> rstr list \<Rightarrow> rstr
     \<Rightarrow> SessionInfo option \<times> scan_errors \<times> rstr option" where
  "scan_name env pa strictly full r entries name =
     (case scan_metadata env strictly full r (metadata_path name) (metadata_path name \<in> set entries) of
        (metadata, es) \<Rightarrow>
          (let has_socket = name \<in> set (socket_ids env r entries) in
           if \<not> strictly \<and> metadata = None \<and> \<not> has_socket then (None, es, None)
           else
             (case scan_pid strictly r (pid_path name) (pid_path name \<in> set entries) of
                (sidecar, pes) \<Rightarrow>
                  if metadata = None \<and> \<not> has_socket then
                    (None,
                     es @ pes
                     @ (if strictly \<and> sidecar \<noteq> None \<and> pes = [] \<and> check_record_identity pa sidecar None = IdUnknown
                        then scan_error strictly IdentityUnknown (pid_path name) else []),
                     None)
                  else
                    (let pid = (case sidecar of Some p \<Rightarrow> Some p | None \<Rightarrow> Option.bind metadata recorded_pid);
                         identity = check_record_identity_in pa (absent r (pid_path name))
                                      (absent r (socket_file env r name)) sidecar metadata
                     in (Some \<lparr>si_name = name, si_socket = socket_file env r name,
                               si_pid = (if identity \<in> {IdMatch, IdUnknown} then pid else None),
                               si_status = session_status metadata identity,
                               si_identity = identity, si_metadata = metadata\<rparr>,
                         es @ pes @ (if identity = IdUnknown then scan_error strictly IdentityUnknown (metadata_path name) else []),
                         if identity = IdUnknown \<and> strictly \<and> has_socket then Some (socket_file env r name) else None)))))"

text \<open>What a connect to a socket answered before the deadline; \<open>ENOENT\<close> and \<open>ECONNREFUSED\<close> are \<open>ProbeRefused\<close>.\<close>

datatype probe_answer = ProbeConnected | ProbeRefused | ProbeFails

definition probe_errors :: "bool \<Rightarrow> (rstr \<Rightarrow> probe_answer option) \<Rightarrow> rstr list \<Rightarrow> scan_errors" where
  "probe_errors strictly probe uncertain =
     concat (map (\<lambda>path. case probe path of
        None \<Rightarrow> scan_error strictly ProbeTimeout path
      | Some ProbeFails \<Rightarrow> scan_error strictly EntryUnreadable path
      | _ \<Rightarrow> []) uncertain)"

definition inventory_of :: "scan_errors \<Rightarrow> SessionInfo list \<Rightarrow> Inventory" where
  "inventory_of es entries = \<lparr>iv_complete = (es = []), iv_entries = entries, iv_errors = es\<rparr>"

definition scan_sessions ::
  "registry_tools \<Rightarrow> proc_answers \<Rightarrow> bool \<Rightarrow> rstr option \<Rightarrow> bool \<Rightarrow> (rstr \<Rightarrow> probe_answer option) \<Rightarrow> registry \<Rightarrow> Inventory" where
  "scan_sessions env pa strictly only full probe r =
     (case rg_access r of
        DirMissing \<Rightarrow> inventory_of (scan_error strictly RootMissing []) []
      | DirRefused \<Rightarrow> inventory_of (scan_error strictly RootUnreadable []) []
      | DirOpens \<Rightarrow>
          (case scan_entries env strictly only r of
             (entries, es) \<Rightarrow>
               (let bad = filter (\<lambda>e. socket_of_entry env r entries e = BadSocket) entries;
                    scanned = map (scan_name env pa strictly full r entries) (scan_names env strictly r entries);
                    uncertain = List.map_filter (snd \<circ> snd) scanned
                in inventory_of
                     (es @ concat (map (scan_error strictly EntryUnreadable) bad)
                      @ concat (map (fst \<circ> snd) scanned) @ probe_errors strictly probe uncertain)
                     (sort_key si_name (List.map_filter fst scanned)))))"

definition list_sessions_full :: "registry_tools \<Rightarrow> proc_answers \<Rightarrow> registry \<Rightarrow> SessionInfo list" where
  "list_sessions_full env pa r = iv_entries (scan_sessions env pa False None True (\<lambda>_. None) r)"

definition list_sessions :: "registry_tools \<Rightarrow> proc_answers \<Rightarrow> registry \<Rightarrow> SessionInfo list" where
  "list_sessions env pa r = iv_entries (scan_sessions env pa False None False (\<lambda>_. None) r)"

definition list_sessions_strict_in ::
  "registry_tools \<Rightarrow> proc_answers \<Rightarrow> (rstr \<Rightarrow> probe_answer option) \<Rightarrow> registry \<Rightarrow> Inventory" where
  "list_sessions_strict_in env pa probe r = scan_sessions env pa True None False probe r"

definition observe_session_strict_in ::
  "registry_tools \<Rightarrow> proc_answers \<Rightarrow> rstr \<Rightarrow> (rstr \<Rightarrow> probe_answer option) \<Rightarrow> registry \<Rightarrow> Inventory" where
  "observe_session_strict_in env pa name probe r = scan_sessions env pa True (Some name) False probe r"

section \<open>References\<close>

definition get_session_by_name :: "registry_tools \<Rightarrow> proc_answers \<Rightarrow> registry \<Rightarrow> rstr \<Rightarrow> SessionInfo option" where
  "get_session_by_name env pa r name =
     (case iv_entries (scan_sessions env pa False (Some name) True (\<lambda>_. None) r) of [] \<Rightarrow> None | s # _ \<Rightarrow> Some s)"

definition ambiguous_reference_message :: "rstr \<Rightarrow> rstr list \<Rightarrow> rstr" where
  "ambiguous_reference_message reference ids =
     ustr ''Session reference \"'' @ reference @ ustr ''\" is ambiguous. Matching stable session IDs:'' @ [10]
     @ concat (map (\<lambda>(i, id). (if i = 0 then [] else [10]) @ ustr ''  '' @ id) (enumerate 0 (sort ids)))
     @ [10] @ ustr ''Use a stable session ID instead.''"

definition get_session :: "registry_tools \<Rightarrow> proc_answers \<Rightarrow> registry \<Rightarrow> rstr \<Rightarrow> rstr + SessionInfo option" where
  "get_session env pa r reference =
     (let sessions = list_sessions_full env pa r in
      case find (\<lambda>s. si_name s = reference) sessions of
        Some s \<Rightarrow> Inr (Some s)
      | None \<Rightarrow>
          (case filter (\<lambda>s. info_display_name s = Some reference) sessions of
             [] \<Rightarrow> Inr None
           | [s] \<Rightarrow> Inr (Some s)
           | many \<Rightarrow> Inl (ambiguous_reference_message reference (map si_name many))))"

definition all_session_names :: "registry_tools \<Rightarrow> proc_answers \<Rightarrow> registry \<Rightarrow> rstr list" where
  "all_session_names env pa r = sort (remdups (map si_name (list_sessions env pa r)))"

definition resolve_ref :: "registry_tools \<Rightarrow> proc_answers \<Rightarrow> registry \<Rightarrow> rstr \<Rightarrow> rstr option" where
  "resolve_ref env pa r reference =
     (case get_session env pa r reference of Inr (Some s) \<Rightarrow> Some (si_name s) | _ \<Rightarrow> None)"

section \<open>Targets\<close>

text \<open>The metadata is given, or read here.\<close>

definition read_pid_with ::
  "registry_tools \<Rightarrow> proc_answers \<Rightarrow> registry \<Rightarrow> rstr \<Rightarrow> SessionMetadata option \<Rightarrow> int option" where
  "read_pid_with env pa r name metadata =
     (case (case metadata of Some m \<Rightarrow> Some m | None \<Rightarrow> read_metadata env r name) of
        None \<Rightarrow> None
      | Some m \<Rightarrow>
          (let sidecar = read_session_pid r name in
           case (case sidecar of Some p \<Rightarrow> Some p | None \<Rightarrow> recorded_pid m) of
             None \<Rightarrow> None
           | Some pid \<Rightarrow> if check_record_identity pa sidecar (Some m) = IdMatch then Some pid else None))"

definition read_explicit_control_authority ::
  "registry_tools \<Rightarrow> proc_answers \<Rightarrow> registry \<Rightarrow> rstr \<Rightarrow> SessionMetadata option \<Rightarrow> bool
     \<Rightarrow> (int \<times> ControlIdentityCheck) option" where
  "read_explicit_control_authority env pa r name metadata child_signal =
     (case (case metadata of
              Some m \<Rightarrow> (Some m, [])
            | None \<Rightarrow> scan_metadata env True True r (metadata_path name) False) of
        (None, _) \<Rightarrow> None
      | (Some m, es) \<Rightarrow>
          (case scan_pid True r (pid_path name) False of
             (sidecar, es') \<Rightarrow>
               if es @ es' \<noteq> [] \<or> sidecar \<noteq> None \<and> recorded_pid m \<noteq> None \<and> sidecar \<noteq> recorded_pid m then None
               else
                 (case (case sidecar of Some p \<Rightarrow> Some p | None \<Rightarrow> recorded_pid m) of
                    None \<Rightarrow> None
                  | Some pid \<Rightarrow>
                      if md_daemon_boot_id m = None
                         \<and> (if child_signal then recorded_pid m = None \<or> daemon_start_token m = None
                            else sidecar = None
                              \<and> (process_start_token m = None
                                 \<or> read_process_start_token pa pid \<noteq> process_start_token m))
                      then None
                      else
                        (let authority = check_control_identity pa pid m in
                         if authority \<in> {CtlMatch, CtlLegacyVerified} then Some (pid, authority) else None))))"

section \<open>Facts\<close>

lemma map_filter_append [simp]: "List.map_filter f (xs @ ys) = List.map_filter f xs @ List.map_filter f ys"
  by (simp add: List.map_filter_def)

lemma set_map_filter_iff: "y \<in> set (List.map_filter f xs) \<longleftrightarrow> (\<exists>x \<in> set xs. f x = Some y)"
  by (force simp: List.map_filter_def)

lemma scan_name_entry:
  assumes "fst (scan_name env pa strictly full r entries name) = Some s"
  shows "si_name s = name \<and> si_socket s = socket_file env r name
    \<and> si_status s = session_status (si_metadata s) (si_identity s)
    \<and> (si_pid s \<noteq> None \<longrightarrow> si_identity s \<in> {IdMatch, IdUnknown})
    \<and> si_metadata s = fst (scan_metadata env strictly full r (metadata_path name) (metadata_path name \<in> set entries))"
  using assms by (auto simp: scan_name_def Let_def split: prod.splits if_splits)

text \<open>Without an error, a strict scan has the record of a name that has one, with an owner that is known.\<close>

lemma scan_metadata_clean:
  assumes "snd (scan_metadata env True full r path True) = []"
  shows "fst (scan_metadata env True full r path True) \<noteq> None"
  using assms
  by (auto simp: scan_metadata_def read_optional_def scan_error_def split: option.splits prod.splits if_splits)

lemma scan_name_clean:
  assumes "fst (snd (scan_name env pa True full r entries name)) = []"
    and "metadata_path name \<in> set entries \<or> name \<in> set (socket_ids env r entries)"
  shows "\<exists>s. fst (scan_name env pa True full r entries name) = Some s \<and> si_identity s \<noteq> IdUnknown
    \<and> (metadata_path name \<in> set entries \<longrightarrow> si_metadata s \<noteq> None)"
proof -
  obtain metadata es where m: "scan_metadata env True full r (metadata_path name) (metadata_path name \<in> set entries) = (metadata, es)"
    by fastforce
  obtain sidecar pes where p: "scan_pid True r (pid_path name) (pid_path name \<in> set entries) = (sidecar, pes)" by fastforce
  have e: "es = []" using assms(1) m p by (auto simp: scan_name_def Let_def split: if_splits)
  have known: "metadata_path name \<in> set entries \<longrightarrow> metadata \<noteq> None"
    using scan_metadata_clean [of env full r "metadata_path name"] m e by auto
  then have there: "\<not> (metadata = None \<and> name \<notin> set (socket_ids env r entries))" using assms(2) by auto
  show ?thesis using assms(1) m p there known
    by (auto simp: scan_name_def Let_def scan_error_def split: if_splits)
qed

lemma entries_of_scan:
  assumes "distinct names" and "\<And>n s. fst (f n) = Some s \<Longrightarrow> si_name s = n"
  shows "distinct (map si_name (List.map_filter fst (map f names)))
    \<and> set (map si_name (List.map_filter fst (map f names))) \<subseteq> set names"
  using assms(1)
proof (induction names)
  case (Cons n names)
  then show ?case using assms(2) [of n] by (cases "fst (f n)") (auto simp: List.map_filter_simps)
qed (simp add: List.map_filter_simps)

lemma distinct_sort_key: "distinct (map f (sort_key f xs)) \<longleftrightarrow> distinct (map f xs)"
  by (simp add: distinct_map)

lemma sorted_distinct_wrt: "sorted (xs :: rstr list) \<Longrightarrow> distinct xs \<Longrightarrow> sorted_wrt (<) xs"
  by (simp add: strict_sorted_iff)

lemma listing_sorted: "sorted_wrt (<) (map si_name (iv_entries (scan_sessions env pa strictly only full probe r)))"
proof -
  have "sorted_wrt (<) (map si_name (sort_key si_name (List.map_filter fst
          (map (scan_name env pa strictly full r entries) (scan_names env strictly r entries)))))" for entries
    using entries_of_scan [of "scan_names env strictly r entries" "scan_name env pa strictly full r entries"] scan_name_entry
    by (intro sorted_distinct_wrt) (simp_all add: distinct_sort_key scan_names_def)
  then show ?thesis by (simp add: scan_sessions_def inventory_of_def Let_def split: dir_access.splits prod.splits)
qed

lemma listing_from_names:
  assumes "s \<in> set (iv_entries (scan_sessions env pa strictly only full probe r))"
  shows "\<exists>entries name. fst (scan_name env pa strictly full r entries name) = Some s"
  using assms
  by (auto simp: scan_sessions_def inventory_of_def Let_def set_map_filter_iff split: dir_access.splits prod.splits)

lemma complete_scan:
  assumes "iv_complete (scan_sessions env pa True only full probe r)" and "entries = fst (scan_entries env True only r)"
  shows "rg_access r = DirOpens \<and> snd (scan_entries env True only r) = []
    \<and> (\<forall>e \<in> set entries. socket_of_entry env r entries e \<noteq> BadSocket)
    \<and> (\<forall>n \<in> set (scan_names env True r entries). fst (snd (scan_name env pa True full r entries n)) = [])
    \<and> set (iv_entries (scan_sessions env pa True only full probe r))
        = {s. \<exists>n \<in> set (scan_names env True r entries). fst (scan_name env pa True full r entries n) = Some s}"
proof -
  have a: "rg_access r = DirOpens"
    using assms(1) by (auto simp: scan_sessions_def inventory_of_def scan_error_def split: dir_access.splits)
  show ?thesis
    using assms a
    by (auto simp: scan_sessions_def inventory_of_def Let_def scan_error_def filter_empty_conv set_map_filter_iff
        split: prod.splits)
qed

text \<open>In a scan without errors, an entry that names a record is among the entries, and its record among the names.\<close>

lemma entry_kept:
  assumes "snd (scan_entries env True None r) = []" and "e \<in> set (root_entries r)" and "\<not> is_tmp_name e"
  shows "e \<in> set (fst (scan_entries env True None r))"
  using assms by (auto simp: scan_entries_def Let_def scan_error_def)

lemma json_record_id: "record_id (metadata_path n) = Some n"
  by (simp add: record_id_def metadata_path_def)

text \<open>The files of a session that a listing has to account for: its record and its socket.\<close>

definition accounts_for :: "registry_tools \<Rightarrow> registry \<Rightarrow> SessionInfo list \<Rightarrow> bool" where
  "accounts_for env r entries \<longleftrightarrow>
     (\<forall>e \<in> set (root_entries r). is_tmp_name e
        \<or> (\<forall>n. e = metadata_path n \<longrightarrow>
             (\<exists>s \<in> set entries. si_name s = n \<and> si_metadata s \<noteq> None \<and> si_identity s \<noteq> IdUnknown))
          \<and> (without_suffix ''.sock'' e \<noteq> None \<longrightarrow>
             (\<exists>s \<in> set entries. si_socket s = e \<and> si_identity s \<noteq> IdUnknown)))"

lemma complete_accounts:
  assumes "iv_complete (scan_sessions env pa True None full probe r)"
  shows "accounts_for env r (iv_entries (scan_sessions env pa True None full probe r))"
proof -
  define entries where "entries = fst (scan_entries env True None r)"
  define listed where "listed = iv_entries (scan_sessions env pa True None full probe r)"
  note c = complete_scan [OF assms entries_def, folded listed_def]
  have found: "\<exists>s \<in> set listed. si_name s = n \<and> si_socket s = socket_file env r n \<and> si_identity s \<noteq> IdUnknown
      \<and> (metadata_path n \<in> set entries \<longrightarrow> si_metadata s \<noteq> None)"
    if n: "n \<in> set (scan_names env True r entries)"
      and k: "metadata_path n \<in> set entries \<or> n \<in> set (socket_ids env r entries)" for n
  proof -
    have "fst (snd (scan_name env pa True full r entries n)) = []" using c n by blast
    from scan_name_clean [OF this k] obtain s where s: "fst (scan_name env pa True full r entries n) = Some s"
        "si_identity s \<noteq> IdUnknown" "metadata_path n \<in> set entries \<longrightarrow> si_metadata s \<noteq> None" by blast
    then have "s \<in> set listed" using c n by blast
    then show ?thesis using s scan_name_entry [OF s(1)] by blast
  qed
  have "(\<forall>n. e = metadata_path n \<longrightarrow>
             (\<exists>s \<in> set listed. si_name s = n \<and> si_metadata s \<noteq> None \<and> si_identity s \<noteq> IdUnknown))
          \<and> (without_suffix ''.sock'' e \<noteq> None \<longrightarrow> (\<exists>s \<in> set listed. si_socket s = e \<and> si_identity s \<noteq> IdUnknown))"
    if "e \<in> set (root_entries r)" "\<not> is_tmp_name e" for e
  proof (intro conjI allI impI)
    have e: "e \<in> set entries" unfolding entries_def using entry_kept that c by blast
    {
      fix n
      assume n: "e = metadata_path n"
      then have "n \<in> set (scan_names env True r entries)"
        using e json_record_id [of n] by (auto simp: scan_names_def set_map_filter_iff)
      from found [OF this] show "\<exists>s \<in> set listed. si_name s = n \<and> si_metadata s \<noteq> None \<and> si_identity s \<noteq> IdUnknown"
        using n e by blast
    }
    assume k: "without_suffix ''.sock'' e \<noteq> None"
    have "socket_of_entry env r entries e \<noteq> BadSocket" using c e by blast
    then obtain n where n: "socket_of_entry env r entries e = SocketOf n" "socket_file env r n = e"
      using k by (auto simp: socket_of_entry_def split: option.splits if_splits)
    then have i: "n \<in> set (socket_ids env r entries)"
      unfolding socket_ids_def set_map_filter_iff using e by (intro bexI [of _ e]) simp_all
    then have "n \<in> set (scan_names env True r entries)" by (simp add: scan_names_def)
    from found [OF this] show "\<exists>s \<in> set listed. si_socket s = e \<and> si_identity s \<noteq> IdUnknown" using i n(2) by blast
  qed
  then show ?thesis unfolding accounts_for_def listed_def by blast
qed

section \<open>Properties\<close>


text \<open>An example: the record of a session whose pid file and socket are gone.\<close>

definition example_env :: registry_tools where
  "example_env = \<lparr>re_root = [], re_digest = (\<lambda>_. []), re_parse = (\<lambda>_. None), re_print = (\<lambda>_. []),
     re_parse_record = (\<lambda>_ _. Some default_metadata)\<rparr>"

definition example_registry :: registry where
  "example_registry = \<lparr>rg_access = DirOpens, rg_files = [(metadata_path (ustr ''a''), RegularFile [])], rg_stuck = [], rg_odd = []\<rparr>"

lemma example_listing: "iv_complete (scan_sessions example_env example_proc True None True (\<lambda>_. None) example_registry)"
proof -
  let ?e = "metadata_path (ustr ''a'')"
  have m: "md_daemon_pid default_metadata = None"
    by (simp add: default_metadata_def from_map_def opt_field_def plain_field_def)
  have t: "\<not> is_tmp_name ?e" and r: "\<not> reserved_companion ?e"
    by (simp_all add: metadata_path_def with_suffix_def ustr_def is_tmp_name_def text_contains_def reserved_companion_def starts_with_def)
  have f: "rg_files example_registry = [(?e, RegularFile [])]" "rg_odd example_registry = []" "rg_access example_registry = DirOpens"
    by (simp_all add: example_registry_def)
  have n: "47 \<notin> set ?e" by (simp add: metadata_path_def with_suffix_def ustr_def)
  have s: "socket_of_entry example_env example_registry [?e] ?e = NoSocket"
    by (simp add: socket_of_entry_def without_suffix_def metadata_path_def with_suffix_def ustr_def)
  have p: "read_file example_registry ?e = Some []" "read_file example_registry (pid_path (ustr ''a'')) = None"
      "absent example_registry (pid_path (ustr ''a''))" "absent example_registry (socket_file example_env example_registry (ustr ''a''))"
    using socket_file_sock [of example_env example_registry "ustr ''a''"]
    by (auto simp: read_file_def node_at_def absent_def f metadata_path_def pid_path_def)
  have e: "scan_entries example_env True None example_registry = ([?e], [])"
    by (simp add: scan_entries_def root_entries_def f n t r)
  have i: "socket_ids example_env example_registry [?e] = []" by (simp add: socket_ids_def s List.map_filter_simps)
  have k: "scan_names example_env True example_registry [?e] = [ustr ''a'']"
    by (simp add: scan_names_def i json_record_id List.map_filter_simps)
  have q: "pid_path (ustr ''a'') \<noteq> ?e" by (simp add: pid_path_def metadata_path_def)
  have v: "re_parse_record example_env True [] = Some default_metadata" by (simp add: example_env_def)
  have d: "scan_metadata example_env True True example_registry ?e True = (Some default_metadata, [])"
    by (simp add: scan_metadata_def read_optional_def p v)
  have g: "scan_pid True example_registry (pid_path (ustr ''a'')) False = (None, [])"
    by (simp add: scan_pid_def read_optional_def p)
  have "snd (scan_name example_env example_proc True True example_registry [?e] (ustr ''a'')) = ([], None)"
    by (simp add: scan_name_def d g q i check_record_identity_in_def m p Let_def)
  then show ?thesis
    by (simp add: scan_sessions_def f e s k inventory_of_def List.map_filter_simps probe_errors_def Let_def)
qed


end
