(* ===== verification/Operation_Settle.thy ===== *)
theory Operation_Settle
  imports Operation_Record Registry_Listing
begin

text \<open>
  Recovery and closure of a launch operation (\<^verbatim>\<open>crates/pty-core/src/operation/settle.rs\<close>): the occupancy rule of
  a launch, the birth marker in an argument vector, the observation \<open>settle\<close>, and \<open>retire\<close>, which
  ends a held child and unwinds its row. What the lock, the files, the process table, the argument
  scan and the registry answer are arguments. Of a verdict's components the name, the status and the
  reason are kept; the other details, which are only printed, are left out. The overrides of a debug
  build are left out. \<open>is_current_generation_owner\<close> is from \<^verbatim>\<open>crates/pty-core/src/registry/cleanup.rs\<close>.
\<close>

section \<open>The birth marker\<close>

definition MARKER_FIELD :: rstr where "MARKER_FIELD = ustr ''launchOperation''"
definition MARKER_OPTION :: rstr where "MARKER_OPTION = ustr ''--launch-operation''"

definition marker_options :: "rstr list \<Rightarrow> rstr list" where
  "marker_options argv = takeWhile (\<lambda>a. a \<noteq> ustr ''--'') (drop 1 argv)"

fun has_pair :: "rstr \<Rightarrow> rstr \<Rightarrow> rstr list \<Rightarrow> bool" where
  "has_pair a b (x # y # zs) \<longleftrightarrow> x = a \<and> y = b \<or> has_pair a b (y # zs)"
| "has_pair a b _ \<longleftrightarrow> False"

definition argv_carries_marker :: "rstr list \<Rightarrow> rstr \<Rightarrow> bool" where
  "argv_carries_marker argv digest \<longleftrightarrow>
     (case dropWhile (\<lambda>a. a \<noteq> ustr ''run'' \<and> a \<noteq> ustr ''__daemon'') (marker_options argv) of
        [] \<Rightarrow> False
      | _ # rest \<Rightarrow> has_pair MARKER_OPTION digest rest)"

section \<open>Occupancy\<close>

datatype Occupancy =
    OccAbsent
  | OccLive "rstr option"
  | OccEnded "rstr option"
  | OccUnreadable rstr

definition incarnation_of :: "SessionMetadata \<Rightarrow> rstr option" where
  "incarnation_of m =
     (case md_daemon_pid m of
        None \<Rightarrow> None
      | Some p \<Rightarrow>
          if sint p > 0 \<and> md_created_at m \<noteq> [] then Some (dec (nat (sint p)) @ [58] @ md_created_at m) else None)"

text \<open>What \<open>symlink_metadata\<close> says of a companion: there, not there, or an error.\<close>

datatype companion = CompanionThere | CompanionMissing | CompanionError

fun companion_loop :: "(rstr \<times> companion) list \<Rightarrow> Occupancy" where
  "companion_loop [] = OccAbsent"
| "companion_loop ((path, c) # rest) =
     (case c of
        CompanionThere \<Rightarrow> OccEnded None
      | CompanionMissing \<Rightarrow> companion_loop rest
      | CompanionError \<Rightarrow> OccUnreadable path)"

definition observe_occupancy :: "Inventory \<Rightarrow> (rstr \<times> companion) list \<Rightarrow> rstr \<Rightarrow> Occupancy" where
  "observe_occupancy inventory companions name =
     (case iv_errors inventory of
        (kind, path) # _ \<Rightarrow> if kind = RootMissing then OccAbsent else OccUnreadable path
      | [] \<Rightarrow>
          (case find (\<lambda>e. si_name e = name) (iv_entries inventory) of
             Some e \<Rightarrow>
               (let inc = Option.bind (si_metadata e) incarnation_of in
                if si_status e = StatusRunning then OccLive inc else OccEnded inc)
           | None \<Rightarrow> companion_loop companions))"

definition or_unknown :: "rstr option \<Rightarrow> rstr" where
  "or_unknown inc = (case inc of Some i \<Rightarrow> i | None \<Rightarrow> ustr ''unknown'')"

definition occupancy_rule :: "Occupancy \<Rightarrow> rstr option \<Rightarrow> Cause \<times> rstr + rstr option" where
  "occupancy_rule occupancy expected_incarnation =
     (case occupancy of
        OccAbsent \<Rightarrow> Inr None
      | OccUnreadable path \<Rightarrow> Inl (CauseOccupied, ustr ''unreadable:'' @ path)
      | OccLive inc \<Rightarrow> Inl (CauseOccupied, ustr ''live:'' @ or_unknown inc)
      | OccEnded inc \<Rightarrow>
          (case (expected_incarnation, inc) of
             (Some e, Some found) \<Rightarrow>
               if e = found then Inr (Some found)
               else Inl (CausePredecessorMismatch, ustr ''ended:'' @ or_unknown inc)
           | _ \<Rightarrow> Inl (CausePredecessorMismatch, ustr ''ended:'' @ or_unknown inc)))"

section \<open>Components\<close>

datatype Status = CVerified | CPending | CUnknown

record Component =
  cm_name :: rstr
  cm_status :: Status
  cm_reason :: rstr

record Verdict =
  vd_verdict :: rstr
  vd_kind :: "rstr option"
  vd_no_further_effects :: bool
  vd_record :: "OperationRecord option"
  vd_components :: "Component list"

definition component :: "string \<Rightarrow> Status \<Rightarrow> Component" where
  "component name st = \<lparr>cm_name = ustr name, cm_status = st, cm_reason = []\<rparr>"

definition liveness_json :: "Liveness \<Rightarrow> rstr" where
  "liveness_json l = (case l of Live \<Rightarrow> ustr ''live'' | Gone \<Rightarrow> ustr ''gone'' | LivenessUnknown r \<Rightarrow> r)"

definition record_component :: "RecordReadError + OperationRecord option \<Rightarrow> rstr \<Rightarrow> rstr \<Rightarrow> Component" where
  "record_component read operation_id envelope_sha256 =
     (let unknown = (\<lambda>reason. \<lparr>cm_name = ustr ''record'', cm_status = CUnknown, cm_reason = ustr reason\<rparr>) in
      case read of
        Inr (Some r) \<Rightarrow>
          if op_operation_id r = operation_id \<and> op_envelope_sha256 r = envelope_sha256
          then component ''record'' CVerified
          else unknown ''record-mismatch''
      | Inr None \<Rightarrow> unknown ''record-missing''
      | Inl _ \<Rightarrow> unknown ''record-unreadable'')"

fun liveness_status :: "Liveness \<Rightarrow> Status" where
  "liveness_status Gone = CVerified"
| "liveness_status Live = CPending"
| "liveness_status (LivenessUnknown _) = CUnknown"

definition writer_component :: "OperationRecord \<Rightarrow> ProcTable \<Rightarrow> rstr option \<Rightarrow> Component" where
  "writer_component r table boot =
     (case wr_id (op_writer r) of
        Some p \<Rightarrow>
          if wr_role (op_writer r) \<noteq> RoleNone then component ''writer'' (liveness_status (liveness p table boot))
          else component ''writer'' CVerified
      | None \<Rightarrow> component ''writer'' CVerified)"

text \<open>The recorded processes, each once, in the order of the roles.\<close>

definition recorded_ids :: "OperationRecord \<Rightarrow> ProcessId list" where
  "recorded_ids r =
     foldl (\<lambda>seen i. case i of Some p \<Rightarrow> if p \<in> set seen then seen else seen @ [p] | None \<Rightarrow> seen) []
       [pa_launcher (op_participants r), pa_producer (op_participants r), pa_child (op_participants r),
        map_option inc_daemon (op_incarnation r), Option.bind (op_incarnation r) inc_child]"

fun participants_loop :: "ProcTable \<Rightarrow> rstr option \<Rightarrow> ProcessId list \<Rightarrow> Status \<Rightarrow> Status" where
  "participants_loop table boot [] st = st"
| "participants_loop table boot (p # ps) st =
     participants_loop table boot ps
       (case liveness p table boot of
          Live \<Rightarrow> CPending
        | LivenessUnknown _ \<Rightarrow> if st = CVerified then CUnknown else st
        | Gone \<Rightarrow> st)"

definition participants_component :: "OperationRecord \<Rightarrow> ProcTable \<Rightarrow> rstr option \<Rightarrow> Component" where
  "participants_component r table boot =
     component ''participants'' (participants_loop table boot (recorded_ids r) CVerified)"

definition marker_component :: "ArgvScan \<Rightarrow> rstr \<Rightarrow> Component" where
  "marker_component scan digest =
     component ''marker-scan''
       (if list_ex (\<lambda>r. argv_carries_marker (ar_argv r) digest) (as_rows scan) then CPending
        else if \<not> is_whole scan then CUnknown
        else CVerified)"

definition carries_digest :: "SessionMetadata \<Rightarrow> rstr \<Rightarrow> bool" where
  "carries_digest m digest \<longleftrightarrow>
     (case imap_get (md_extra m) MARKER_FIELD of
        Some (JObject marker) \<Rightarrow> imap_get marker (ustr ''digest'') = Some (JString digest)
      | _ \<Rightarrow> False)"

definition recorded_row :: "SessionMetadata \<Rightarrow> OperationRecord \<Rightarrow> bool" where
  "recorded_row m r \<longleftrightarrow>
     (case op_incarnation r of
        None \<Rightarrow> False
      | Some inc \<Rightarrow> incarnation_of m = Some (inc_id inc) \<and> md_generation m = Some (inc_generation inc))"

fun registry_loop :: "rstr \<Rightarrow> OperationRecord \<Rightarrow> SessionInfo list \<Rightarrow> Status \<Rightarrow> Status" where
  "registry_loop digest r [] st = st"
| "registry_loop digest r (e # es) st =
     (case si_metadata e of
        None \<Rightarrow> registry_loop digest r es st
      | Some m \<Rightarrow>
          if \<not> carries_digest m digest then registry_loop digest r es st
          else
            registry_loop digest r es
              (if \<not> recorded_row m r then CUnknown
               else if si_status e = StatusRunning \<and> op_state r \<noteq> StTransferred \<and> st = CVerified then CPending
               else st))"

definition registry_component :: "Inventory \<Rightarrow> rstr \<Rightarrow> OperationRecord \<Rightarrow> Component" where
  "registry_component inventory digest r =
     component ''registry''
       (if \<not> iv_complete inventory then CUnknown
        else registry_loop digest r (iv_entries inventory) CVerified)"

section \<open>Settle\<close>

text \<open>
  One try of the shared lock: taken, busy with the holder that a query then names, no lock file, or
  another error.
\<close>

datatype shared_attempt = SharedTaken | SharedBusy "int option" | SharedMissing | SharedFails

datatype settle_lock = LockTaken | LockBusy | LockMissing | LockFailed

definition WRITER_RELEASE_RETRIES :: nat where "WRITER_RELEASE_RETRIES = 8"

fun settle_lock_loop :: "nat \<Rightarrow> (nat \<Rightarrow> shared_attempt) \<Rightarrow> nat \<Rightarrow> settle_lock" where
  "settle_lock_loop 0 attempt k = LockBusy"
| "settle_lock_loop (Suc n) attempt k =
     (case attempt k of
        SharedTaken \<Rightarrow> LockTaken
      | SharedMissing \<Rightarrow> LockMissing
      | SharedFails \<Rightarrow> LockFailed
      | SharedBusy (Some holder_pid) \<Rightarrow> LockBusy
      | SharedBusy None \<Rightarrow> settle_lock_loop n attempt (k + 1))"

record settle_world =
  sw_attempt :: "nat \<Rightarrow> shared_attempt"
  sw_read :: "RecordReadError + OperationRecord option"
  sw_table :: ProcTable
  sw_boot :: "rstr option"
  sw_file_uid :: "u32 option"
  sw_own_uid :: u32
  sw_scan :: "u32 \<Rightarrow> ArgvScan"
  sw_inventory :: Inventory

definition scan_uid :: "settle_world \<Rightarrow> OperationRecord \<Rightarrow> u32" where
  "scan_uid w r =
     (case pa_launcher (op_participants r) of
        Some launcher \<Rightarrow> pi_uid launcher
      | None \<Rightarrow> (case sw_file_uid w of Some u \<Rightarrow> u | None \<Rightarrow> sw_own_uid w))"

definition durable_end :: "OperationRecord \<Rightarrow> bool" where
  "durable_end r =
     (case op_state r of
        StCancelled \<Rightarrow> (case op_decision r of Some d \<Rightarrow> dc_cause d \<noteq> CauseLaunch | None \<Rightarrow> False)
      | StLaunched \<Rightarrow> (case op_retirement r of Some t \<Rightarrow> rt_phase t = RetVerified | None \<Rightarrow> False)
      | _ \<Rightarrow> False)"

definition finish :: "string \<Rightarrow> rstr option \<Rightarrow> bool \<Rightarrow> OperationRecord option \<Rightarrow> Component list \<Rightarrow> Verdict" where
  "finish v kind nfe r cs =
     \<lparr>vd_verdict = ustr v, vd_kind = kind, vd_no_further_effects = nfe, vd_record = r, vd_components = cs\<rparr>"

text \<open>The verdict over the evidence of a verified record.\<close>

definition judge :: "OperationRecord \<Rightarrow> Component list \<Rightarrow> Verdict" where
  "judge r components =
     (let no_further_effects = durable_end r \<and> list_all (\<lambda>c. cm_status c = CVerified) (drop 1 components) in
      if op_state r = StTransferred then finish ''transferred'' None False (Some r) components
      else
        (case find (\<lambda>c. cm_status c = CPending) components of
           Some c \<Rightarrow> finish ''live'' (Some (cm_name c)) no_further_effects (Some r) components
         | None \<Rightarrow>
             (case find (\<lambda>c. cm_status c = CUnknown) components of
                Some c \<Rightarrow> finish ''unknown'' (Some (cm_name c)) no_further_effects (Some r) components
              | None \<Rightarrow>
                  (case op_state r of
                     StReserved \<Rightarrow> finish ''retire-required'' (Some (state_str (op_state r))) False (Some r) components
                   | StPending \<Rightarrow> finish ''retire-required'' (Some (state_str (op_state r))) False (Some r) components
                   | StCancelled \<Rightarrow>
                       if durable_end r
                       then finish ''closed'' (Some (ustr ''never-launched'')) no_further_effects (Some r) components
                       else finish ''unknown'' (Some (ustr ''record'')) False (Some r) components
                   | StLaunched \<Rightarrow>
                       if durable_end r
                       then finish ''closed'' (Some (ustr ''retired'')) no_further_effects (Some r) components
                       else finish ''retire-required'' (Some (ustr ''launched'')) False (Some r) components
                   | StTransferred \<Rightarrow> finish ''unknown'' (Some (ustr ''record'')) False (Some r) components))))"

definition settle :: "settle_world \<Rightarrow> rstr \<Rightarrow> rstr \<Rightarrow> rstr \<Rightarrow> Verdict" where
  "settle w digest operation_id envelope_sha256 =
     (let rc = record_component (sw_read w) operation_id envelope_sha256;
          r = (case sw_read w of Inr x \<Rightarrow> x | Inl _ \<Rightarrow> None)
      in
      case settle_lock_loop WRITER_RELEASE_RETRIES (sw_attempt w) 0 of
        LockMissing \<Rightarrow>
          finish ''unknown'' (Some (ustr ''record-missing'')) False None
            [\<lparr>cm_name = ustr ''record'', cm_status = CUnknown, cm_reason = ustr ''record-missing''\<rparr>]
      | LockFailed \<Rightarrow> finish ''unknown'' (Some (ustr ''writer'')) False None [component ''writer'' CUnknown]
      | LockBusy \<Rightarrow> finish ''live'' (Some (ustr ''writer'')) False r [rc, component ''writer'' CPending]
      | LockTaken \<Rightarrow>
          (case (if cm_status rc = CVerified then r else None) of
             None \<Rightarrow> finish ''unknown'' (Some (cm_reason rc)) False r [rc]
           | Some rec \<Rightarrow>
               judge rec
                 [rc, writer_component rec (sw_table w) (sw_boot w),
                  participants_component rec (sw_table w) (sw_boot w),
                  marker_component (sw_scan w (scan_uid w rec)) digest,
                  registry_component (sw_inventory w) digest rec]))"

section \<open>What a closed verdict rests on\<close>

lemma participants_verified:
  "participants_loop table boot ps st = CVerified \<longleftrightarrow>
     st = CVerified \<and> (\<forall>p \<in> set ps. liveness p table boot = Gone)"
  by (induction ps arbitrary: st) (auto split: Liveness.splits)

text \<open>A row with the digest is a row of the recorded incarnation, and no daemon serves it.\<close>

definition row_settled :: "rstr \<Rightarrow> OperationRecord \<Rightarrow> SessionInfo \<Rightarrow> bool" where
  "row_settled digest r e \<longleftrightarrow>
     (case si_metadata e of
        None \<Rightarrow> True
      | Some m \<Rightarrow> carries_digest m digest \<longrightarrow> recorded_row m r \<and> si_status e \<noteq> StatusRunning)"

lemma registry_verified:
  "op_state r \<noteq> StTransferred \<Longrightarrow>
     registry_loop digest r es st = CVerified \<longleftrightarrow> st = CVerified \<and> (\<forall>e \<in> set es. row_settled digest r e)"
  by (induction es arbitrary: st) (auto simp: row_settled_def split: option.splits if_splits)

lemma recorded_ids_set:
  "set (recorded_ids r) =
     {p. Some p \<in> {pa_launcher (op_participants r), pa_producer (op_participants r), pa_child (op_participants r),
        map_option inc_daemon (op_incarnation r), Option.bind (op_incarnation r) inc_child}}"
proof -
  have u: "set (foldl (\<lambda>seen i. case i of Some p \<Rightarrow> if p \<in> set seen then seen else seen @ [p] | None \<Rightarrow> seen) acc is) =
      set acc \<union> {p. Some p \<in> set is}" for acc :: "ProcessId list" and "is" :: "ProcessId option list"
    by (induction "is" arbitrary: acc) (auto split: option.splits)
  show ?thesis unfolding recorded_ids_def u by simp
qed

definition recorded_processes :: "OperationRecord \<Rightarrow> ProcessId set" where
  "recorded_processes r =
     set (recorded_ids r) \<union> {p. wr_id (op_writer r) = Some p \<and> wr_role (op_writer r) \<noteq> RoleNone}"

text \<open>The evidence of closure: every source read, and all of them agree.\<close>

definition closure_evidence :: "settle_world \<Rightarrow> rstr \<Rightarrow> rstr \<Rightarrow> rstr \<Rightarrow> OperationRecord \<Rightarrow> bool" where
  "closure_evidence w digest operation_id envelope_sha256 r \<longleftrightarrow>
     settle_lock_loop WRITER_RELEASE_RETRIES (sw_attempt w) 0 = LockTaken
     \<and> sw_read w = Inr (Some r) \<and> op_operation_id r = operation_id \<and> op_envelope_sha256 r = envelope_sha256
     \<and> durable_end r
     \<and> (\<forall>p \<in> recorded_processes r. liveness p (sw_table w) (sw_boot w) = Gone)
     \<and> is_whole (sw_scan w (scan_uid w r))
     \<and> (\<forall>a \<in> set (as_rows (sw_scan w (scan_uid w r))). \<not> argv_carries_marker (ar_argv a) digest)
     \<and> iv_complete (sw_inventory w) \<and> (\<forall>e \<in> set (iv_entries (sw_inventory w)). row_settled digest r e)"

lemma durable_end_state: "durable_end r \<Longrightarrow> op_state r \<noteq> StTransferred"
  by (auto simp: durable_end_def)

lemma component_status [simp]: "cm_status (component n st) = st"
  by (simp add: component_def)

lemma evidence_components:
  assumes "durable_end r"
  shows "cm_status (writer_component r table boot) = CVerified
      \<and> cm_status (participants_component r table boot) = CVerified
      \<longleftrightarrow> (\<forall>p \<in> recorded_processes r. liveness p table boot = Gone)"
    and "cm_status (marker_component scan digest) = CVerified \<longleftrightarrow>
      is_whole scan \<and> (\<forall>a \<in> set (as_rows scan). \<not> argv_carries_marker (ar_argv a) digest)"
    and "cm_status (registry_component invt digest r) = CVerified \<longleftrightarrow>
      iv_complete invt \<and> (\<forall>e \<in> set (iv_entries invt). row_settled digest r e)"
proof -
  have l: "liveness_status l = CVerified \<longleftrightarrow> l = Gone" for l by (cases l) auto
  show "cm_status (writer_component r table boot) = CVerified
      \<and> cm_status (participants_component r table boot) = CVerified
      \<longleftrightarrow> (\<forall>p \<in> recorded_processes r. liveness p table boot = Gone)"
    by (auto simp: writer_component_def participants_component_def participants_verified recorded_processes_def l
        split: option.splits)
  show "cm_status (marker_component scan digest) = CVerified \<longleftrightarrow>
      is_whole scan \<and> (\<forall>a \<in> set (as_rows scan). \<not> argv_carries_marker (ar_argv a) digest)"
    by (auto simp: marker_component_def list_ex_iff)
  show "cm_status (registry_component invt digest r) = CVerified \<longleftrightarrow>
      iv_complete invt \<and> (\<forall>e \<in> set (iv_entries invt). row_settled digest r e)"
    using registry_verified [OF durable_end_state [OF assms]] by (simp add: registry_component_def)
qed

lemma judge_closed:
  assumes "cm_status c0 = CVerified"
  shows "vd_verdict (judge r (c0 # cs)) = ustr ''closed'' \<longleftrightarrow>
      durable_end r \<and> list_all (\<lambda>c. cm_status c = CVerified) cs"
    and "vd_no_further_effects (judge r (c0 # cs)) \<longleftrightarrow>
      durable_end r \<and> list_all (\<lambda>c. cm_status c = CVerified) cs"
proof -
  have n: "find (\<lambda>c. cm_status c = CPending) (c0 # cs) = None \<and> find (\<lambda>c. cm_status c = CUnknown) (c0 # cs) = None
      \<longleftrightarrow> list_all (\<lambda>c. cm_status c = CVerified) cs"
    using assms(1) by (auto simp: find_None_iff list_all_iff) (metis Status.exhaust)
  show "vd_verdict (judge r (c0 # cs)) = ustr ''closed'' \<longleftrightarrow>
      durable_end r \<and> list_all (\<lambda>c. cm_status c = CVerified) cs"
    using n durable_end_state [of r]
    by (auto simp: judge_def finish_def Let_def durable_end_def split: option.splits OperationState.splits if_splits)
  show "vd_no_further_effects (judge r (c0 # cs)) \<longleftrightarrow>
      durable_end r \<and> list_all (\<lambda>c. cm_status c = CVerified) cs"
    using n durable_end_state [of r]
    by (auto simp: judge_def finish_def Let_def durable_end_def split: option.splits OperationState.splits if_splits)
qed

lemma record_component_verified:
  "cm_status (record_component read oid sha) = CVerified \<longleftrightarrow>
     (\<exists>r. read = Inr (Some r) \<and> op_operation_id r = oid \<and> op_envelope_sha256 r = sha)"
  by (auto simp: record_component_def Let_def split: sum.splits option.splits)

lemma settle_judges:
  assumes "settle_lock_loop WRITER_RELEASE_RETRIES (sw_attempt w) 0 = LockTaken"
    and "sw_read w = Inr (Some r)" and "op_operation_id r = oid" and "op_envelope_sha256 r = sha"
  shows "settle w digest oid sha =
    judge r [record_component (sw_read w) oid sha, writer_component r (sw_table w) (sw_boot w),
      participants_component r (sw_table w) (sw_boot w),
      marker_component (sw_scan w (scan_uid w r)) digest, registry_component (sw_inventory w) digest r]"
proof -
  have "cm_status (record_component (sw_read w) oid sha) = CVerified"
    using assms by (simp add: record_component_verified)
  with assms show ?thesis by (simp add: settle_def Let_def)
qed

lemma settle_not_judged:
  assumes "\<not> (settle_lock_loop WRITER_RELEASE_RETRIES (sw_attempt w) 0 = LockTaken
     \<and> (\<exists>r. sw_read w = Inr (Some r) \<and> op_operation_id r = oid \<and> op_envelope_sha256 r = sha))"
  shows "vd_verdict (settle w digest oid sha) \<noteq> ustr ''closed'' \<and> \<not> vd_no_further_effects (settle w digest oid sha)"
proof (cases "settle_lock_loop WRITER_RELEASE_RETRIES (sw_attempt w) 0")
  case LockTaken
  with assms have "cm_status (record_component (sw_read w) oid sha) \<noteq> CVerified"
    by (simp add: record_component_verified)
  then show ?thesis by (simp add: settle_def Let_def LockTaken finish_def)
qed (simp_all add: settle_def Let_def finish_def)

lemma settle_closed:
  "vd_verdict (settle w digest oid sha) = ustr ''closed'' \<longleftrightarrow> (\<exists>r. closure_evidence w digest oid sha r)"
  "vd_no_further_effects (settle w digest oid sha) \<longleftrightarrow> (\<exists>r. closure_evidence w digest oid sha r)"
proof -
  have "(vd_verdict (settle w digest oid sha) = ustr ''closed'' \<longleftrightarrow> (\<exists>r. closure_evidence w digest oid sha r))
      \<and> (vd_no_further_effects (settle w digest oid sha) \<longleftrightarrow> (\<exists>r. closure_evidence w digest oid sha r))"
  proof (cases "settle_lock_loop WRITER_RELEASE_RETRIES (sw_attempt w) 0 = LockTaken
     \<and> (\<exists>r. sw_read w = Inr (Some r) \<and> op_operation_id r = oid \<and> op_envelope_sha256 r = sha)")
    case False
    with settle_not_judged [OF False] show ?thesis by (auto simp: closure_evidence_def)
  next
    case True
    then obtain r where r: "settle_lock_loop WRITER_RELEASE_RETRIES (sw_attempt w) 0 = LockTaken"
        "sw_read w = Inr (Some r)" "op_operation_id r = oid" "op_envelope_sha256 r = sha" by blast
    have v: "cm_status (record_component (sw_read w) oid sha) = CVerified"
      using r by (simp add: record_component_verified)
    have "(\<exists>r'. closure_evidence w digest oid sha r') \<longleftrightarrow> closure_evidence w digest oid sha r"
      using r(2) by (auto simp: closure_evidence_def)
    also have "\<dots> \<longleftrightarrow> durable_end r \<and> list_all (\<lambda>c. cm_status c = CVerified)
        [writer_component r (sw_table w) (sw_boot w), participants_component r (sw_table w) (sw_boot w),
         marker_component (sw_scan w (scan_uid w r)) digest, registry_component (sw_inventory w) digest r]"
      using r evidence_components [of r] by (auto simp: closure_evidence_def)
    finally show ?thesis unfolding settle_judges [OF r] using judge_closed [OF v] by simp
  qed
  then show "vd_verdict (settle w digest oid sha) = ustr ''closed'' \<longleftrightarrow> (\<exists>r. closure_evidence w digest oid sha r)"
    "vd_no_further_effects (settle w digest oid sha) \<longleftrightarrow> (\<exists>r. closure_evidence w digest oid sha r)" by blast+
qed

text \<open>
  C34. A verdict of closure rests on every source. \<open>settle\<close> says "closed", and says that no further
  effects are possible, in exactly the same case: it held the lock, the record was readable and is
  the one asked about, it durably ended, every process it names is proved gone, the argument scan was
  whole and found no birth marker, and the registry was read completely and has no row of the operation
  but settled ones.
\<close>

theorem closed_exactly_on_evidence:
  "(vd_verdict (settle w digest oid sha) = ustr ''closed'' \<longleftrightarrow> (\<exists>r. closure_evidence w digest oid sha r))
   \<and> (vd_no_further_effects (settle w digest oid sha) \<longleftrightarrow> vd_verdict (settle w digest oid sha) = ustr ''closed'')"
  by (simp add: settle_closed)

text \<open>
  C35. Closure leaves nothing behind. When \<open>settle\<close> says "closed" over a process table and an argument
  scan read from \<open>/proc\<close>, then no recorded process of this boot was alive in the table's listing, and no
  process of the operation's user in the scan's listing carried the birth marker, none of them having
  been skipped as unreadable.
\<close>

theorem closed_leaves_no_process:
  assumes "vd_verdict (settle w digest oid sha) = ustr ''closed''"
    and "sw_table w = from_proc_listing page_kb es read_stat own" and "sw_boot w = Some boot"
    and "\<And>uid. sw_scan w uid = scan_linux page_kb uid (Some es') probe own"
  shows "\<exists>r. sw_read w = Inr (Some r) \<and> durable_end r
    \<and> (\<forall>p \<in> recorded_processes r. pi_boot_id p = boot \<and> sint (pi_pid p) \<in> set (entry_pids es) \<longrightarrow>
         (case stat_answer page_kb (sint (pi_pid p)) (read_stat (sint (pi_pid p))) of
            NotPresent \<Rightarrow> True
          | Known x \<Rightarrow> (\<exists>tok. r_identity x = Some tok \<and> (tok \<noteq> pi_start_token p \<or> is_zombie x))
          | NotKnown _ \<Rightarrow> False))
    \<and> (\<forall>pid \<in> set (entry_pids es').
         (case classify page_kb (scan_uid w r) pid (probe pid) of
            ClsLive a \<Rightarrow> \<not> argv_carries_marker (ar_argv a) digest
          | ClsUnreadable \<Rightarrow> False
          | ClsOwnerUnknown \<Rightarrow> False
          | _ \<Rightarrow> True))"
proof -
  from assms(1) obtain r where e: "closure_evidence w digest oid sha r" by (auto simp: settle_closed)
  have "accounted (classify page_kb (scan_uid w r) pid (probe pid)) (sw_scan w (scan_uid w r))"
    if "pid \<in> set (entry_pids es')" for pid
    using that e unfolding assms(4) closure_evidence_def by (intro whole_linux_scan) auto
  then have "case classify page_kb (scan_uid w r) pid (probe pid) of
            ClsLive a \<Rightarrow> \<not> argv_carries_marker (ar_argv a) digest
          | ClsUnreadable \<Rightarrow> False
          | ClsOwnerUnknown \<Rightarrow> False
          | _ \<Rightarrow> True" if "pid \<in> set (entry_pids es')" for pid
    using that e by (fastforce simp: accounted_def closure_evidence_def split: Class.splits)
  moreover have "case stat_answer page_kb (sint (pi_pid p)) (read_stat (sint (pi_pid p))) of
            NotPresent \<Rightarrow> True
          | Known x \<Rightarrow> (\<exists>tok. r_identity x = Some tok \<and> (tok \<noteq> pi_start_token p \<or> is_zombie x))
          | NotKnown _ \<Rightarrow> False"
    if "p \<in> recorded_processes r" "pi_boot_id p = boot" "sint (pi_pid p) \<in> set (entry_pids es)" for p
    using that e by (intro gone_is_proved [of p page_kb es read_stat own]) (auto simp: closure_evidence_def assms(2,3))
  ultimately show ?thesis using e by (intro exI [of _ r]) (simp add: closure_evidence_def)
qed

text \<open>A withdrawn reservation, on a machine whose one live process belongs to another user.\<close>

definition example_probe :: "int \<Rightarrow> linux_probe" where
  "example_probe pid =
     \<lparr>lp_status = (if pid = 7 then StatText (ustr ''State: S'' @ [10] @ ustr ''Uid: 5 5'') else StatGone),
      lp_stat = StatGone, lp_cmdline = CmdGone, lp_status_again = StatGone\<rparr>"

definition example_world :: settle_world where
  "example_world =
     \<lparr>sw_attempt = (\<lambda>k. if k = 0 then SharedBusy None else SharedTaken), sw_read = Inr (Some example_withdrawn),
      sw_table = from_proc_listing 4 example_entries example_stat 7, sw_boot = Some [], sw_file_uid = Some 0,
      sw_own_uid = 0, sw_scan = (\<lambda>uid. scan_linux 4 uid (Some example_entries) example_probe 7),
      sw_inventory = \<lparr>iv_complete = True, iv_entries = [], iv_errors = []\<rparr>\<rparr>"

lemma example_classes:
  "classify 4 0 7 (example_probe 7) = ClsOtherUser" "classify 4 0 9 (example_probe 9) = ClsGone"
proof -
  have "str_lines (ustr ''State: S'' @ [10] @ ustr ''Uid: 5 5'') = [ustr ''State: S'', ustr ''Uid: 5 5'']"
    by (simp add: str_lines.simps strip_cr_def ustr_def)
  moreover have "split_whitespace (ustr '' 5 5'') = [ustr ''5'', ustr ''5'']"
    by (simp add: split_whitespace.simps is_whitespace_def ustr_def)
  ultimately show "classify 4 0 7 (example_probe 7) = ClsOtherUser"
    by (simp add: classify_def example_probe_def owner_and_state_def strip_prefix_def ustr_def parse_uid_def
        parse_unsigned_def all_digits_def digit_char_def digits_value_def is_whitespace_def)
  show "classify 4 0 9 (example_probe 9) = ClsGone"
    by (simp add: classify_def example_probe_def owner_and_state_def)
qed

lemma example_scan: "is_whole (scan_linux 4 0 (Some example_entries) example_probe 7)"
    "as_rows (scan_linux 4 0 (Some example_entries) example_probe 7) = []"
proof -
  have p: "parse_i32 (ustr ''7'') = Some 7" "parse_i32 (ustr ''9'') = Some 9" "parse_i32 (ustr ''self'') = None"
    by (simp_all add: parse_i32_def parse_unsigned_def all_digits_def digit_char_def ustr_def digits_value_def)
  show "is_whole (scan_linux 4 0 (Some example_entries) example_probe 7)"
    "as_rows (scan_linux 4 0 (Some example_entries) example_probe 7) = []"
    by (simp_all add: scan_linux_def example_entries_def p example_classes scan_class_def empty_scan_def
        is_whole_def sorted_scan_def Let_def)
qed

theorem closed_leaves_no_process_witness:
  "vd_verdict (settle example_world [] (ustr ''o'') []) = ustr ''closed''
   \<and> classify 4 0 7 (example_probe 7) \<notin> {ClsUnreadable, ClsOwnerUnknown}"
proof -
  have r: "op_operation_id example_withdrawn = ustr ''o''" "op_envelope_sha256 example_withdrawn = []"
      "durable_end example_withdrawn" "recorded_processes example_withdrawn = {}"
      "pa_launcher (op_participants example_withdrawn) = None"
    by (auto simp: example_withdrawn_def example_reserved_def reserved_def durable_end_def decision_now_def
        recorded_processes_def recorded_ids_set no_participants_def writer_none_def)
  have u: "scan_uid example_world example_withdrawn = 0" by (simp add: scan_uid_def r example_world_def)
  have "settle_lock_loop WRITER_RELEASE_RETRIES (sw_attempt example_world) 0 = LockTaken"
    by (simp add: example_world_def WRITER_RELEASE_RETRIES_def numeral_eq_Suc)
  then have "closure_evidence example_world [] (ustr ''o'') [] example_withdrawn"
    unfolding closure_evidence_def u r by (simp add: example_world_def r example_scan)
  then have c: "vd_verdict (settle example_world [] (ustr ''o'') []) = ustr ''closed''" by (auto simp: settle_closed)
  have w: "sw_table example_world = from_proc_listing 4 example_entries example_stat 7" "sw_boot example_world = Some []"
      "\<And>uid. sw_scan example_world uid = scan_linux 4 uid (Some example_entries) example_probe 7"
      "sw_read example_world = Inr (Some example_withdrawn)"
    by (simp_all add: example_world_def)
  from closed_leaves_no_process [OF c w(1,2,3)] have
    "case classify 4 0 7 (example_probe 7) of ClsLive a \<Rightarrow> \<not> argv_carries_marker (ar_argv a) []
          | ClsUnreadable \<Rightarrow> False | ClsOwnerUnknown \<Rightarrow> False | _ \<Rightarrow> True"
    using w(4) u by (auto simp: example_pids)
  with c show ?thesis by (auto split: Class.splits)
qed

end
