(* ===== verification/Operation_Retire.thy ===== *)
theory Operation_Retire
  imports Operation_Settle
begin

text \<open>
  \<open>retire\<close> of \<^verbatim>\<open>crates/pty-core/src/operation/settle.rs\<close>: it takes the operation from its dead writer, ends
  the recorded child and nothing else, unwinds the recorded row, and records what it proved. The
  effects are listed in the order they happen. What the lock, the files, the process table and the
  registry answer is the argument \<open>retire_world\<close>; the text of an input or output error is \<open>rw_error\<close>.
\<close>

section \<open>Ending the recorded child\<close>

text \<open>The pin of a process (a pidfd or an audit token): taken, the process is gone, or not possible.\<close>

datatype pin_answer = Pinned | PinGone | PinFails rstr

record kill_world =
  kw_first :: "Row Answer"
  kw_again :: "Row Answer"
  kw_pin :: pin_answer
  kw_signal :: "rstr option"
  kw_exited :: bool
  kw_reads :: "nat \<Rightarrow> ProcTable"
  kw_started :: nat
  kw_clock :: "nat \<Rightarrow> nat"

text \<open>The liveness afterwards and whether the signal was sent; \<open>None\<close> when the last wait does not end.\<close>

definition kill_recorded :: "ProcessId \<Rightarrow> rstr option \<Rightarrow> kill_world \<Rightarrow> (Liveness \<times> bool) option" where
  "kill_recorded p boot k =
     (if liveness_now p (kw_first k) boot \<noteq> Live then Some (liveness_now p (kw_again k) boot, False)
      else
        (case kw_pin k of
           PinGone \<Rightarrow> Some (liveness_now p (kw_again k) boot, False)
         | PinFails reason \<Rightarrow> Some (LivenessUnknown reason, False)
         | Pinned \<Rightarrow>
             (case kw_signal k of
                Some reason \<Rightarrow> Some (LivenessUnknown reason, False)
              | None \<Rightarrow>
                  if \<not> kw_exited k then Some (Live, True)
                  else map_option (\<lambda>l. (l, True))
                         (liveness_after_exit_with p boot AFTER_EXIT_CAP (kw_started k) (kw_reads k) (kw_clock k)))))"

section \<open>Unwinding the recorded row\<close>

record SessionGenerationOwner =
  so_generation :: rstr
  so_pid :: int

record row_world =
  uw_locks :: bool
  uw_metadata :: "SessionMetadata option"
  uw_session_pid :: "int option"
  uw_socket :: bool
  uw_pidfile :: bool

definition is_current_generation_owner :: "row_world \<Rightarrow> SessionGenerationOwner \<Rightarrow> bool" where
  "is_current_generation_owner u own \<longleftrightarrow>
     (if (case uw_metadata u of
            Some m \<Rightarrow> (case md_generation m of Some g \<Rightarrow> g \<noteq> so_generation own | None \<Rightarrow> False)
          | None \<Rightarrow> False) then False
      else if (case uw_session_pid u of Some p \<Rightarrow> p \<noteq> so_pid own | None \<Rightarrow> False) then False
      else True)"

text \<open>The outcome and whether the row's files were removed.\<close>

definition unwind_row :: "row_world \<Rightarrow> OperationRecord \<Rightarrow> rstr \<times> bool" where
  "unwind_row u r =
     (case op_incarnation r of
        None \<Rightarrow> (ustr ''absent'', False)
      | Some inc \<Rightarrow>
          (case Option.bind (split_once_char 58 (inc_id inc)) (\<lambda>(p, _). parse_i32 p) of
             None \<Rightarrow> (ustr ''unknown-incarnation'', False)
           | Some p \<Rightarrow>
               if \<not> uw_locks u then (ustr ''locks-busy'', False)
               else if uw_metadata u = None \<and> \<not> uw_socket u \<and> \<not> uw_pidfile u then (ustr ''absent'', False)
               else if \<not> is_current_generation_owner u \<lparr>so_generation = inc_generation inc, so_pid = p\<rparr>
                 \<or> (case uw_metadata u of Some m \<Rightarrow> md_generation m \<noteq> Some (inc_generation inc) | None \<Rightarrow> False)
               then (ustr ''other-generation'', False)
               else (ustr ''removed'', True)))"

section \<open>Retire\<close>

datatype exclusive_answer = ExclusiveTaken | ExclusiveBusy | ExclusiveMissing | ExclusiveFails

datatype retire_effect = WroteRecord OperationRecord | Signalled ProcessId | RowRemoved

datatype retire_result = RetireRefusal rstr rstr | RetireSnapshot Verdict

record retire_world =
  rw_lock :: exclusive_answer
  rw_read_fails :: bool
  rw_error :: rstr
  rw_path :: rstr
  rw_boot :: "rstr option"
  rw_table :: ProcTable
  rw_me :: "rstr + ProcessId"
  rw_now :: "nat \<Rightarrow> rstr"
  rw_fate :: "nat \<Rightarrow> write_fate"
  rw_kill :: kill_world
  rw_row :: row_world
  rw_after :: settle_world

record retire_out =
  ro_result :: retire_result
  ro_effects :: "retire_effect list"
  ro_disk :: "bytes option"

definition actors :: "OperationRecord \<Rightarrow> (rstr \<times> ProcessId) list" where
  "actors r =
     List.map_filter (\<lambda>(role, i). map_option (Pair (ustr role)) i)
       [(''writer'', wr_id (op_writer r)), (''launcher'', pa_launcher (op_participants r)),
        (''producer'', pa_producer (op_participants r)), (''daemon'', map_option inc_daemon (op_incarnation r))]"

fun actor_refusal :: "ProcTable \<Rightarrow> rstr option \<Rightarrow> (rstr \<times> ProcessId) list \<Rightarrow> (rstr \<times> rstr) option" where
  "actor_refusal table boot [] = None"
| "actor_refusal table boot ((role, p) # as) =
     (case liveness p table boot of
        Gone \<Rightarrow> actor_refusal table boot as
      | Live \<Rightarrow> Some (if role = ustr ''writer'' then ustr ''live-writer'' else ustr ''live-participant'',
                     role @ ustr '' pid '' @ dec (unat (pi_pid p)))
      | LivenessUnknown reason \<Rightarrow> Some (ustr ''participant-unknown'', role @ ustr '': '' @ reason))"

text \<open>
  The tests before any effect, in the order of the source: \<open>Inl (Some refusal)\<close> refuses, \<open>Inl None\<close>
  answers with a snapshot, \<open>Inr\<close> goes on as the given process.
\<close>

definition retire_guard ::
  "retire_world \<Rightarrow> rstr \<Rightarrow> rstr \<Rightarrow> rstr \<Rightarrow> rstr option \<Rightarrow> OperationRecord \<Rightarrow> (rstr \<times> rstr) option + ProcessId" where
  "retire_guard w operation_id envelope_sha256 request_id inc r =
     (let recorded = (case incarnation_id r of Some i \<Rightarrow> i | None \<Rightarrow> []);
          same_request = (case op_retirement r of Some t \<Rightarrow> rt_request_id t = request_id | None \<Rightarrow> False)
      in
      if op_operation_id r \<noteq> operation_id then Inl (Some (ustr ''record-mismatch'', ustr ''operationId''))
      else if op_envelope_sha256 r \<noteq> envelope_sha256 then Inl (Some (ustr ''wrong-envelope'', ustr ''envelopeSha256''))
      else if op_state r = StTransferred
      then Inl (Some (ustr ''transferred'', ustr ''a transferred operation is steady state''))
      else if op_state r = StLaunched \<and> inc = None then Inl (Some (ustr ''incarnation-required'', recorded))
      else if op_state r = StLaunched \<and> inc \<noteq> Some recorded then Inl (Some (ustr ''wrong-incarnation'', recorded))
      else if op_state r \<noteq> StLaunched \<and> inc \<noteq> None
      then Inl (Some (ustr ''wrong-incarnation'', the inc @ ustr '': nothing was launched''))
      else if retirement_of r \<noteq> None \<and> retirement_of r \<noteq> Some RetRequested \<and> same_request then Inl None
      else if op_state r = StCancelled \<or> retirement_of r = Some RetVerified then Inl None
      else
        (case actor_refusal (rw_table w) (rw_boot w) (actors r) of
           Some e \<Rightarrow> Inl (Some e)
         | None \<Rightarrow>
             (case rw_me w of
                Inl e \<Rightarrow> Inl (Some (ustr ''identity-unavailable'', e))
              | Inr me \<Rightarrow> Inr me)))"

definition requested_record :: "rstr \<Rightarrow> ProcessId \<Rightarrow> OperationRecord \<Rightarrow> OperationRecord" where
  "requested_record request_id me r =
     r\<lparr>op_writer := writer_of RoleRecovery me,
       op_retirement := Some \<lparr>rt_request_id = request_id, rt_phase = RetRequested, rt_evidence = JObject []\<rparr>\<rparr>"

definition held_child :: "OperationRecord \<Rightarrow> ProcessId option" where
  "held_child r =
     (case Option.bind (op_incarnation r) inc_child of Some c \<Rightarrow> Some c | None \<Rightarrow> pa_child (op_participants r))"

text \<open>The effects on a launched operation: what was done, the evidence, and whether all of it is proved.\<close>

definition end_launched ::
  "retire_world \<Rightarrow> OperationRecord \<Rightarrow> (retire_effect list \<times> json imap \<times> bool) option" where
  "end_launched w r =
     (let (row_outcome, removed) = unwind_row (rw_row w) r;
          row_ok = row_outcome \<in> {ustr ''removed'', ustr ''absent'', ustr ''other-generation''};
          row_effects = (if removed then [RowRemoved] else [])
      in
      case held_child r of
        None \<Rightarrow> Some (row_effects, [(ustr ''child'', JNull), (ustr ''row'', JString row_outcome)], row_ok)
      | Some c \<Rightarrow>
          map_option (\<lambda>(after, signalled).
            ((if signalled then [Signalled c] else []) @ row_effects,
             [(ustr ''child'', JObject [(ustr ''pid'', json_u32 (pi_pid c)), (ustr ''status'', JString (liveness_json after))]),
              (ustr ''row'', JString row_outcome)],
             after = Gone \<and> row_ok))
            (kill_recorded c (rw_boot w) (rw_kill w)))"

definition terminal_record :: "rstr \<Rightarrow> rstr \<Rightarrow> json imap \<Rightarrow> bool \<Rightarrow> OperationRecord \<Rightarrow> OperationRecord" where
  "terminal_record now request_id evidence verified r =
     (let r1 = (case op_state r of
                  StReserved \<Rightarrow> r\<lparr>op_state := StCancelled,
                    op_decision := Some (decision_now now CauseWithdrawn (Some request_id) None)\<rparr>
                | StPending \<Rightarrow> r\<lparr>op_state := StCancelled,
                    op_decision := Some (decision_now now CauseProducerLost (Some request_id) None)\<rparr>
                | _ \<Rightarrow> r)
      in r1\<lparr>op_writer := writer_none,
            op_retirement := Some \<lparr>rt_request_id = request_id,
              rt_phase = (if verified then RetVerified else RetIncomplete), rt_evidence = JObject evidence\<rparr>\<rparr>)"

text \<open>After the request is written. The \<open>unreachable!\<close> states were handled by the guard.\<close>

definition retire_effects ::
  "json_text \<Rightarrow> retire_world \<Rightarrow> rstr \<Rightarrow> rstr \<Rightarrow> rstr \<Rightarrow> rstr \<Rightarrow> OperationRecord \<Rightarrow> bytes option \<Rightarrow> retire_out option" where
  "retire_effects jt w digest operation_id envelope_sha256 request_id req disk =
     map_option (\<lambda>(effects, evidence, verified).
       case write_cas jt (rw_read_fails w) (rw_fate w 1) (rw_now w 2) req
              (terminal_record (rw_now w 1) request_id evidence verified req) disk of
         (Inl _, disk') \<Rightarrow>
           \<lparr>ro_result = RetireRefusal (ustr ''record-write'') (rw_error w), ro_effects = WroteRecord req # effects,
            ro_disk = disk'\<rparr>
       | (Inr final, disk') \<Rightarrow>
           \<lparr>ro_result = RetireSnapshot (settle (rw_after w) digest operation_id envelope_sha256),
            ro_effects = WroteRecord req # effects @ [WroteRecord final], ro_disk = disk'\<rparr>)
       (if op_state req = StLaunched then end_launched w req else Some ([], [], True))"

definition retire_locked ::
  "json_text \<Rightarrow> retire_world \<Rightarrow> rstr \<Rightarrow> rstr \<Rightarrow> rstr \<Rightarrow> rstr \<Rightarrow> rstr option \<Rightarrow> bytes option \<Rightarrow> retire_out option" where
  "retire_locked jt w digest operation_id envelope_sha256 request_id inc disk =
     (let refuse = (\<lambda>code detail. Some \<lparr>ro_result = RetireRefusal code detail, ro_effects = [], ro_disk = disk\<rparr>) in
      case read_record jt (rw_read_fails w) disk of
        Inl _ \<Rightarrow> refuse (ustr ''record-unreadable'') (rw_error w)
      | Inr None \<Rightarrow> refuse (ustr ''record-missing'') (rw_path w)
      | Inr (Some r) \<Rightarrow>
          (case retire_guard w operation_id envelope_sha256 request_id inc r of
             Inl (Some (code, detail)) \<Rightarrow> refuse code detail
           | Inl None \<Rightarrow>
               Some \<lparr>ro_result = RetireSnapshot (settle (rw_after w) digest operation_id envelope_sha256),
                     ro_effects = [], ro_disk = disk\<rparr>
           | Inr me \<Rightarrow>
               (case write_cas jt (rw_read_fails w) (rw_fate w 0) (rw_now w 0) r (requested_record request_id me r) disk of
                  (Inl _, disk') \<Rightarrow>
                    Some \<lparr>ro_result = RetireRefusal (ustr ''record-write'') (rw_error w), ro_effects = [], ro_disk = disk'\<rparr>
                | (Inr req, disk') \<Rightarrow>
                    retire_effects jt w digest operation_id envelope_sha256 request_id req disk')))"

definition retire ::
  "json_text \<Rightarrow> retire_world \<Rightarrow> rstr \<Rightarrow> rstr \<Rightarrow> rstr \<Rightarrow> rstr \<Rightarrow> rstr option \<Rightarrow> bytes option \<Rightarrow> retire_out option" where
  "retire jt w digest operation_id envelope_sha256 request_id inc disk =
     (let refuse = (\<lambda>code detail. Some \<lparr>ro_result = RetireRefusal code detail, ro_effects = [], ro_disk = disk\<rparr>) in
      case rw_lock w of
        ExclusiveBusy \<Rightarrow> refuse (ustr ''live-writer'') (ustr ''a writer holds the operation lock'')
      | ExclusiveMissing \<Rightarrow> refuse (ustr ''record-missing'') (rw_path w)
      | ExclusiveFails \<Rightarrow> refuse (ustr ''lock-unavailable'') (rw_error w)
      | ExclusiveTaken \<Rightarrow> retire_locked jt w digest operation_id envelope_sha256 request_id inc disk)"

section \<open>What retire may do\<close>

lemma actor_refusal_None:
  "actor_refusal table boot as = None \<longleftrightarrow> (\<forall>(role, p) \<in> set as. liveness p table boot = Gone)"
  by (induction table boot as rule: actor_refusal.induct) (auto split: Liveness.splits)

lemma actors_set:
  "snd ` set (actors r) = {p. Some p \<in> {wr_id (op_writer r), pa_launcher (op_participants r),
     pa_producer (op_participants r), map_option inc_daemon (op_incarnation r)}}"
  by (auto simp: actors_def List.map_filter_def image_iff split: option.splits)

text \<open>The guard lets through only a record whose actors are all gone and which is still to be ended.\<close>

lemma retire_guard_passes:
  assumes "retire_guard w oid sha request_id inc r = Inr me"
  shows "op_operation_id r = oid \<and> op_envelope_sha256 r = sha \<and> rw_me w = Inr me
    \<and> op_state r \<in> {StReserved, StPending, StLaunched} \<and> retirement_of r \<noteq> Some RetVerified
    \<and> (if op_state r = StLaunched then incarnation_id r \<noteq> None \<longrightarrow> inc = incarnation_id r else inc = None)
    \<and> (\<forall>p \<in> snd ` set (actors r). liveness p (rw_table w) (rw_boot w) = Gone)"
proof -
  have a: "actor_refusal (rw_table w) (rw_boot w) (actors r) = None"
    using assms by (auto simp: retire_guard_def Let_def split: if_splits option.splits)
  have s: "op_state r \<noteq> StTransferred" "op_state r \<noteq> StCancelled" "retirement_of r \<noteq> Some RetVerified"
      "op_operation_id r = oid" "op_envelope_sha256 r = sha" "rw_me w = Inr me"
    using assms by (auto simp: retire_guard_def Let_def split: if_splits option.splits sum.splits)
  have i: "if op_state r = StLaunched then incarnation_id r \<noteq> None \<longrightarrow> inc = incarnation_id r else inc = None"
    using assms by (auto simp: retire_guard_def Let_def split: if_splits option.splits)
  from a have g: "\<forall>p \<in> snd ` set (actors r). liveness p (rw_table w) (rw_boot w) = Gone"
    by (auto simp: actor_refusal_None)
  show ?thesis using s i g by (cases "op_state r") auto
qed

text \<open>The effects on processes and files: only the recorded child is signalled, and only a launched operation's row goes.\<close>

definition only_child :: "OperationRecord \<Rightarrow> retire_effect list \<Rightarrow> bool" where
  "only_child r effects \<longleftrightarrow>
     (\<forall>e \<in> set effects. case e of
        Signalled p \<Rightarrow> op_state r = StLaunched \<and> held_child r = Some p
      | RowRemoved \<Rightarrow> op_state r = StLaunched \<and> op_incarnation r \<noteq> None
      | WroteRecord _ \<Rightarrow> False)"

lemma end_launched_child:
  assumes "end_launched w r = Some (effects, evidence, verified)" and "op_state r = StLaunched"
  shows "only_child r effects"
  using assms
  by (auto simp: end_launched_def only_child_def unwind_row_def Let_def split: option.splits if_splits prod.splits)

lemma requested_fields [simp]:
  "op_state (requested_record q me r) = op_state r" "held_child (requested_record q me r) = held_child r"
  "op_incarnation (requested_record q me r) = op_incarnation r"
  by (simp_all add: requested_record_def held_child_def split: option.split)

lemma next_held_child [simp]: "held_child (next_revision now e n) = held_child n"
  by (simp add: held_child_def split: option.split)

lemma write_cas_result:
  "write_cas jt io fate now expected nxt disk = (Inr new, disk') \<Longrightarrow>
     new = next_revision now expected nxt \<and> disk' = Some (encode_record jt new)"
  by (auto simp: write_cas_def Let_def split: sum.splits option.splits if_splits write_fate.splits)

lemma retire_effects_shape:
  assumes "retire_effects jt w digest oid sha request_id req disk = Some out"
  shows "\<exists>effects evidence verified final.
    (if op_state req = StLaunched then end_launched w req else Some ([], [], True)) = Some (effects, evidence, verified)
    \<and> ro_effects out = WroteRecord req # effects @ final
    \<and> (final = [] \<or> final = [WroteRecord (next_revision (rw_now w 2) req
                                    (terminal_record (rw_now w 1) request_id evidence verified req))])"
proof -
  define x where "x = (if op_state req = StLaunched then end_launched w req else Some ([], [], True))"
  from assms obtain effects evidence verified where t: "x = Some (effects, evidence, verified)"
    by (auto simp: retire_effects_def x_def [symmetric])
  define wr where "wr = write_cas jt (rw_read_fails w) (rw_fate w 1) (rw_now w 2) req
              (terminal_record (rw_now w 1) request_id evidence verified req) disk"
  obtain res disk' where wr': "wr = (res, disk')" by fastforce
  have o: "out = (case wr of
         (Inl _, disk') \<Rightarrow>
           \<lparr>ro_result = RetireRefusal (ustr ''record-write'') (rw_error w), ro_effects = WroteRecord req # effects,
            ro_disk = disk'\<rparr>
       | (Inr final, disk') \<Rightarrow>
           \<lparr>ro_result = RetireSnapshot (settle (rw_after w) digest oid sha),
            ro_effects = WroteRecord req # effects @ [WroteRecord final], ro_disk = disk'\<rparr>)"
    using assms unfolding retire_effects_def x_def [symmetric] t by (simp add: wr_def)
  show ?thesis
  proof (cases res)
    case (Inl e)
    with o wr' t show ?thesis unfolding x_def [symmetric] by simp
  next
    case (Inr f)
    then have "f = next_revision (rw_now w 2) req (terminal_record (rw_now w 1) request_id evidence verified req)"
      using wr' write_cas_result unfolding wr_def by blast
    with Inr o wr' t show ?thesis unfolding x_def [symmetric] by simp
  qed
qed

lemma retire_shape:
  assumes "retire jt w digest oid sha request_id inc disk = Some out" and "ro_effects out \<noteq> []"
  obtains r me req disk' where "rw_lock w = ExclusiveTaken" "read_record jt (rw_read_fails w) disk = Inr (Some r)"
    "retire_guard w oid sha request_id inc r = Inr me"
    "req = next_revision (rw_now w 0) r (requested_record request_id me r)"
    "retire_effects jt w digest oid sha request_id req disk' = Some out"
proof -
  from assms have l: "rw_lock w = ExclusiveTaken"
    by (auto simp: retire_def Let_def split: exclusive_answer.splits)
  with assms(1) have o: "retire_locked jt w digest oid sha request_id inc disk = Some out" by (simp add: retire_def)
  obtain r where r: "read_record jt (rw_read_fails w) disk = Inr (Some r)"
    using o assms(2) by (auto simp: retire_locked_def Let_def split: sum.splits option.splits)
  obtain me where me: "retire_guard w oid sha request_id inc r = Inr me"
    using o assms(2) r by (auto simp: retire_locked_def Let_def split: sum.splits option.splits)
  obtain req disk' where req: "write_cas jt (rw_read_fails w) (rw_fate w 0) (rw_now w 0) r (requested_record request_id me r) disk
      = (Inr req, disk')"
    using o assms(2) r me by (auto simp: retire_locked_def Let_def split: sum.splits prod.splits)
  from o r me req have e: "retire_effects jt w digest oid sha request_id req disk' = Some out"
    by (simp add: retire_locked_def Let_def)
  from write_cas_result [OF req] show thesis by (intro that [OF l r me _ e]) simp
qed

lemma terminal_phase:
  "retirement_of (next_revision now e (terminal_record now' q evidence verified req)) =
     Some (if verified then RetVerified else RetIncomplete)"
  by (simp add: retirement_of_def terminal_record_def Let_def)

text \<open>
  C36. Retiring is fenced. Whatever \<open>retire\<close> does to a process or a row, it does after it has durably
  written, over the exact record it read, the request in its own name; the record it read is the one
  asked about, not transferred, not cancelled and not verified; its writer, launcher, producer and
  daemon are all proved gone. The one process it signals is the held child that the record names, and
  only of a launched operation.
\<close>

theorem retire_is_fenced:
  assumes "retire jt w digest oid sha request_id inc disk = Some out" and "ro_effects out \<noteq> []"
  shows "\<exists>r me req rest final.
    rw_lock w = ExclusiveTaken \<and> read_record jt (rw_read_fails w) disk = Inr (Some r)
    \<and> op_operation_id r = oid \<and> op_envelope_sha256 r = sha
    \<and> op_state r \<in> {StReserved, StPending, StLaunched} \<and> retirement_of r \<noteq> Some RetVerified
    \<and> (\<forall>p \<in> snd ` set (actors r). liveness p (rw_table w) (rw_boot w) = Gone)
    \<and> req = next_revision (rw_now w 0) r (requested_record request_id me r)
    \<and> ro_effects out = WroteRecord req # rest @ final
    \<and> only_child r rest \<and> (final = [] \<or> (\<exists>x. final = [WroteRecord x]))"
proof -
  from assms obtain r me req disk' where s: "rw_lock w = ExclusiveTaken"
      "read_record jt (rw_read_fails w) disk = Inr (Some r)" "retire_guard w oid sha request_id inc r = Inr me"
      and n: "req = next_revision (rw_now w 0) r (requested_record request_id me r)"
      and e: "retire_effects jt w digest oid sha request_id req disk' = Some out"
    by (rule retire_shape)
  from retire_effects_shape [OF e] obtain effects evidence verified final where
      x: "(if op_state req = StLaunched then end_launched w req else Some ([], [], True)) = Some (effects, evidence, verified)"
      and out: "ro_effects out = WroteRecord req # effects @ final" "final = [] \<or> (\<exists>x. final = [WroteRecord x])"
    by blast
  have "only_child req effects"
    using x end_launched_child by (cases "op_state req = StLaunched") (auto simp: only_child_def)
  then have "only_child r effects"
    by (simp only: only_child_def n next_revision_fields next_held_child requested_fields)
  with retire_guard_passes [OF s(3)] s(1,2) n out show ?thesis by blast
qed

text \<open>
  A verified retirement is proved. When \<open>retire\<close> writes that a launched operation's retirement is
  verified, the recorded child was read as gone (its exit was observed and then the process table
  showed a zombie, another process or none), and the recorded row was removed, absent, or of another
  generation.
\<close>

theorem verified_retirement_is_proved:
  assumes "retire jt w digest oid sha request_id inc disk = Some out"
    and "ro_effects out = WroteRecord req # rest @ [WroteRecord final]"
    and "op_state req = StLaunched" and "retirement_of final = Some RetVerified"
  shows "(case held_child req of
            None \<Rightarrow> True
          | Some c \<Rightarrow> \<exists>signalled. kill_recorded c (rw_boot w) (rw_kill w) = Some (Gone, signalled))
    \<and> fst (unwind_row (rw_row w) req) \<in> {ustr ''removed'', ustr ''absent'', ustr ''other-generation''}"
proof -
  from assms(2) have "ro_effects out \<noteq> []" by simp
  with assms(1) obtain r me rq disk' where e: "retire_effects jt w digest oid sha request_id rq disk' = Some out"
    by (rule retire_shape)
  from retire_effects_shape [OF e] obtain effects evidence verified fs where
      x: "(if op_state rq = StLaunched then end_launched w rq else Some ([], [], True)) = Some (effects, evidence, verified)"
      and out: "ro_effects out = WroteRecord rq # effects @ fs"
        "fs = [] \<or> fs = [WroteRecord (next_revision (rw_now w 2) rq (terminal_record (rw_now w 1) request_id evidence verified rq))]"
    by blast
  have rq: "rq = req" using assms(2) out(1) by simp
  with x assms(3) have l: "end_launched w req = Some (effects, evidence, verified)" by simp
  have "WroteRecord x \<notin> set effects" for x
    using end_launched_child [OF l assms(3)] by (auto simp: only_child_def)
  then have "fs \<noteq> []" using assms(2) out(1) by (metis append_Nil2 in_set_conv_decomp list.inject)
  with out(2) have "final = next_revision (rw_now w 2) req (terminal_record (rw_now w 1) request_id evidence verified req)"
    using assms(2) out(1) rq by auto
  with assms(4) have verified by (simp add: terminal_phase split: if_splits)
  with l show ?thesis
    by (auto simp: end_launched_def Let_def split: option.splits prod.splits)
qed

section \<open>An example\<close>

text \<open>A launched operation whose daemon and child are gone, and a text of one byte per revision.\<close>

definition example_process :: ProcessId where
  "example_process = \<lparr>pi_pid = 9, pi_start_token = ustr ''linux:8'', pi_boot_id = ustr ''b'', pi_uid = 0\<rparr>"

definition example_launched :: OperationRecord where
  "example_launched = example_reserved\<lparr>op_state := StLaunched, op_phase := PhHeld,
     op_writer := writer_of RoleProducer example_process,
     op_decision := Some (decision_now (ustr ''t0'') CauseLaunch None None),
     op_incarnation := Some \<lparr>inc_id = ustr ''9:t'', inc_runtime_id = ustr ''n'', inc_generation = ustr ''g'',
       inc_daemon = example_process, inc_child = Some example_process\<rparr>\<rparr>"

definition example_request :: OperationRecord where
  "example_request = next_revision (ustr ''t1'') example_launched (requested_record (ustr ''q'') example_process example_launched)"

definition example_retired :: OperationRecord where
  "example_retired = next_revision (ustr ''t1'') example_request
     (terminal_record (ustr ''t1'') (ustr ''q'')
       [(ustr ''child'', JObject [(ustr ''pid'', json_u32 9), (ustr ''status'', JString (ustr ''gone''))]),
        (ustr ''row'', JString (ustr ''absent''))] True example_request)"

definition revision_text :: json_text where
  "revision_text = \<lparr>jt_print = (\<lambda>v. [if v = record_json example_launched then 0 else if v = record_json example_request then 1 else 2]),
     jt_read = (\<lambda>bs. Some (raw_of (record_json
       (if bs = [0, 10] then example_launched else if bs = [1, 10] then example_request else example_retired))))\<rparr>"

definition example_retire_world :: retire_world where
  "example_retire_world =
     \<lparr>rw_lock = ExclusiveTaken, rw_read_fails = False, rw_error = [], rw_path = [], rw_boot = Some (ustr ''b''),
      rw_table = from_rows [], rw_me = Inr example_process, rw_now = (\<lambda>_. ustr ''t1''), rw_fate = (\<lambda>_. WriteDone),
      rw_kill = \<lparr>kw_first = NotPresent, kw_again = NotPresent, kw_pin = PinGone, kw_signal = None, kw_exited = False,
        kw_reads = (\<lambda>_. unreadable), kw_started = 0, kw_clock = (\<lambda>k. k)\<rparr>,
      rw_row = \<lparr>uw_locks = True, uw_metadata = None, uw_session_pid = None, uw_socket = False, uw_pidfile = False\<rparr>,
      rw_after = example_world\<rparr>"

lemma record_json_revision: "record_json a = record_json b \<Longrightarrow> op_revision a = op_revision b"
  by (simp add: record_json_def json_u64_def)

lemma example_revisions:
  "op_revision example_launched = 1" "op_revision example_request = 2" "op_revision example_retired = 3"
  by (simp_all add: example_launched_def example_reserved_def reserved_def example_request_def example_retired_def)

lemma revision_text_prints:
  "prints revision_text example_launched" "prints revision_text example_request" "prints revision_text example_retired"
proof -
  have ne: "op_revision a \<noteq> op_revision b \<Longrightarrow> record_json a \<noteq> record_json b" for a b
    using record_json_revision by blast
  have "record_json example_request \<noteq> record_json example_launched" "record_json example_retired \<noteq> record_json example_launched"
    "record_json example_retired \<noteq> record_json example_request"
    by (rule ne, simp add: example_revisions)+
  then show "prints revision_text example_launched" "prints revision_text example_request"
    "prints revision_text example_retired"
    by (simp_all add: prints_def encode_record_def revision_text_def)
qed

lemma example_retire_records:
  "check example_launched = Inr ()" "check example_request = Inr ()" "check example_retired = Inr ()"
  "record_wf example_launched" "record_wf example_request" "record_wf example_retired"
  "op_schema example_launched = RECORD_SCHEMA" "op_schema example_request = RECORD_SCHEMA" "op_schema example_retired = RECORD_SCHEMA"
  by (simp_all add: example_launched_def example_request_def example_retired_def requested_record_def terminal_record_def
      example_reserved_def reserved_def check_def state_ok_def writer_none_def writer_of_def requested_def
      retirement_of_def retirement_done_def cause_of_def decision_now_def record_wf_def json_u32_def)

lemma example_retire:
  "retire revision_text example_retire_world [] (ustr ''o'') [] (ustr ''q'') (Some (ustr ''9:t''))
     (Some (encode_record revision_text example_launched)) =
   Some \<lparr>ro_result = RetireSnapshot (settle example_world [] (ustr ''o'') []),
     ro_effects = [WroteRecord example_request, WroteRecord example_retired],
     ro_disk = Some (encode_record revision_text example_retired)\<rparr>"
proof -
  have rd: "read_record revision_text False (Some (encode_record revision_text example_launched)) = Inr (Some example_launched)"
      "read_record revision_text False (Some (encode_record revision_text example_request)) = Inr (Some example_request)"
    by (rule read_encoded; simp add: revision_text_prints example_retire_records)+
  have eq: "record_eq example_launched example_launched" "record_eq example_request example_request"
    by (rule record_eq_refl; simp add: example_retire_records)+
  have gone: "liveness example_process (from_rows []) (Some (ustr ''b'')) = Gone"
    by (simp add: liveness_def Let_def example_process_def row_def lookup_def from_rows_def is_complete_def)
  have st: "op_state example_launched = StLaunched" "op_state example_request = StLaunched" by (simp_all add: example_request_def example_launched_def)
  have guard: "retire_guard example_retire_world (ustr ''o'') [] (ustr ''q'') (Some (ustr ''9:t'')) example_launched = Inr example_process"
    by (simp add: retire_guard_def Let_def example_launched_def example_reserved_def reserved_def incarnation_id_def
        retirement_of_def actors_def List.map_filter_simps writer_of_def no_participants_def example_retire_world_def gone)
  have w1: "write_cas revision_text False WriteDone (ustr ''t1'') example_launched
      (requested_record (ustr ''q'') example_process example_launched) (Some (encode_record revision_text example_launched))
      = (Inr example_request, Some (encode_record revision_text example_request))"
    using example_retire_records(2) by (simp add: write_cas_def rd eq Let_def example_request_def)
  have child: "held_child example_request = Some example_process"
    by (simp add: held_child_def example_request_def requested_record_def example_launched_def)
  have row: "unwind_row (rw_row example_retire_world) example_request = (ustr ''absent'', False)"
  proof -
    have "split_once_char 58 (ustr ''9:t'') = Some (ustr ''9'', ustr ''t'')" by (simp add: split_once_char_def ustr_def)
    moreover have "parse_i32 (ustr ''9'') = Some 9"
      by (simp add: parse_i32_def parse_unsigned_def all_digits_def digit_char_def ustr_def digits_value_def)
    ultimately show ?thesis
      by (simp add: unwind_row_def example_request_def requested_record_def example_launched_def example_retire_world_def)
  qed
  have kill: "kill_recorded example_process (rw_boot example_retire_world) (rw_kill example_retire_world) = Some (Gone, False)"
    by (simp add: kill_recorded_def liveness_now_def table_of_def gone example_retire_world_def)
  have el: "end_launched example_retire_world example_request = Some ([],
      [(ustr ''child'', JObject [(ustr ''pid'', json_u32 9), (ustr ''status'', JString (ustr ''gone''))]),
        (ustr ''row'', JString (ustr ''absent''))], True)"
    using kill by (simp add: end_launched_def row child liveness_json_def) (simp add: example_process_def)
  have w2: "write_cas revision_text False WriteDone (ustr ''t1'') example_request
      (terminal_record (ustr ''t1'') (ustr ''q'')
       [(ustr ''child'', JObject [(ustr ''pid'', json_u32 9), (ustr ''status'', JString (ustr ''gone''))]),
        (ustr ''row'', JString (ustr ''absent''))] True example_request) (Some (encode_record revision_text example_request))
      = (Inr example_retired, Some (encode_record revision_text example_retired))"
    using example_retire_records(3) by (simp add: write_cas_def rd eq Let_def example_retired_def)
  have "rw_lock example_retire_world = ExclusiveTaken" "rw_read_fails example_retire_world = False"
      "rw_fate example_retire_world = (\<lambda>_. WriteDone)" "rw_now example_retire_world = (\<lambda>_. ustr ''t1'')"
      "rw_after example_retire_world = example_world"
    by (simp_all add: example_retire_world_def)
  then show ?thesis
    by (simp add: retire_def retire_locked_def retire_effects_def rd guard w1 w2 el st)
qed

theorem retire_is_fenced_witness:
  "\<exists>r. read_record revision_text False (Some (encode_record revision_text example_launched)) = Inr (Some r)
     \<and> (\<forall>p \<in> snd ` set (actors r). liveness p (from_rows []) (Some (ustr ''b'')) = Gone)"
  using retire_is_fenced [OF example_retire] by (auto simp: example_retire_world_def)

theorem verified_retirement_is_proved_witness:
  "\<exists>signalled. kill_recorded example_process (rw_boot example_retire_world) (rw_kill example_retire_world) = Some (Gone, signalled)"
proof -
  have st: "op_state example_request = StLaunched" by (simp add: example_request_def example_launched_def)
  have ph: "retirement_of example_retired = Some RetVerified" by (simp add: example_retired_def terminal_phase)
  have child: "held_child example_request = Some example_process"
    by (simp add: held_child_def example_request_def requested_record_def example_launched_def)
  from verified_retirement_is_proved [OF example_retire, of example_request "[]" example_retired] st ph child
  show ?thesis by simp
qed

end
