(* ===== verification/Operation_Actor.thy ===== *)
theory Operation_Actor
  imports Operation_Frames Operation_Retire
begin

text \<open>
  The actor of a launch operation (\<^verbatim>\<open>crates/pty/src/daemon/operation.rs\<close>): the one thread that makes
  transitions, writes the record and issues tickets. Each method of the source is a function on
  \<open>Actor\<close>, which also holds the content of the record file, the commands sent to the startup worker, and a log of
  the effects in their order. What the world answers while an event is handled is the argument \<open>aenv\<close>.
  A gate and a session handle are not data of the model: the log says what is done with them.
\<close>

section \<open>Data\<close>

datatype TicketKind = TkPublish | TkForkChild

datatype TicketState = TsIssued | TsCommitted | TsCompleted | TsRevoked

record Ticket =
  t_id :: u64
  t_kind :: TicketKind
  t_state :: TicketState

fun ticket_kind_str :: "TicketKind \<Rightarrow> rstr" where
  "ticket_kind_str TkPublish = ustr ''publish''"
| "ticket_kind_str TkForkChild = ustr ''fork-child''"

fun ticket_state_str :: "TicketState \<Rightarrow> rstr" where
  "ticket_state_str TsIssued = ustr ''issued''"
| "ticket_state_str TsCommitted = ustr ''committed''"
| "ticket_state_str TsCompleted = ustr ''completed''"
| "ticket_state_str TsRevoked = ustr ''revoked''"

definition ticket_view :: "Ticket \<Rightarrow> TicketView" where
  "ticket_view t = \<lparr>tv_id = t_id t, tv_kind = ticket_kind_str (t_kind t), tv_state = ticket_state_str (t_state t)\<rparr>"

datatype Ack = AckPrepared | AckFailed rstr | AckLost

datatype Completion = CompPublished | CompForked int

datatype OwnerInput = InputFrame OwnerFrame | InputEof

datatype ActorEvent =
    EvOwner OwnerInput
  | EvSynced
  | EvCommit u64
  | EvCompleted u64 "rstr + Completion"
  | EvChildAck Ack
  | EvReadyPoint
  | EvChildExited
  | EvShutdown
  | EvReleased rstr

datatype WorkerCmd =
    CmdPublish u64 rstr rstr "rstr option"
  | CmdForkChild u64
  | CmdReadyPoint
  | CmdStop int

datatype Stage = StageDeciding | StageStarting | StageHeld | StageReady | StageDone

datatype Pending =
    PendingDecide
  | PendingTransferCommit rstr
  | PendingTransferRelease
  | PendingTransferAck bool

record ChildRecord =
  ch_id :: "ProcessId option"
  ch_pid :: int

datatype actor_effect =
    SentFrame rstr bytes
  | AskedSync
  | WroteOperation OperationRecord
  | RepliedCommit u64 bool
  | RepliedReady bool
  | SentEnd int
  | SentTransferred
  | SentExternalKill
  | ReleasedCreationLock
  | ShutGate int
  | KilledSession int
  | UnwoundRow rstr
  | ReleasedGate int
  | MarkedTransferred
  | ClosedControl

record Actor =
  a_digest :: rstr
  a_locked :: bool
  a_record :: OperationRecord
  a_me :: ProcessId
  a_operation_id :: rstr
  a_envelope_sha256 :: rstr
  a_envelope :: json
  a_expected :: "rstr option"
  a_runtime_id :: rstr
  a_transferred :: bool
  a_seq :: u64
  a_tickets :: "Ticket list"
  a_stage :: Stage
  a_retiring :: bool
  a_serving :: bool
  a_published :: bool
  a_child :: "ChildRecord option"
  a_generation :: rstr
  a_pending :: "Pending option"
  a_deferred_transfer :: "rstr option"
  a_syncing :: bool
  a_disk :: "bytes option"
  a_commands :: "WorkerCmd list"
  a_log :: "actor_effect list"

text \<open>
  The world during one event. \<open>ae_tries\<close> are the tries of the registry's locks while a row is unwound, up to
  the deadline. Of the wait for the child: whether its exit was observed in the first second and after the kill,
  what the table says in each case, and whether the wait is supported.
\<close>

record aenv =
  ae_text :: json_text
  ae_read_fails :: "rstr \<Rightarrow> bool"
  ae_fate :: "rstr \<Rightarrow> write_fate"
  ae_now :: rstr
  ae_armed :: "rstr \<Rightarrow> bool"
  ae_creation_lock :: bool
  ae_occupancy :: Occupancy
  ae_new_generation :: rstr
  ae_process_id :: "ProcessId option"
  ae_observed_first :: bool
  ae_after_first :: Liveness
  ae_gone_first :: bool
  ae_observed_killed :: bool
  ae_after_killed :: Liveness
  ae_gone_killed :: bool
  ae_wait_unsupported :: bool
  ae_tries :: "row_world list"
  ae_release :: bool

section \<open>The claim on the record\<close>

definition value_str :: "json \<Rightarrow> rstr \<Rightarrow> rstr option" where
  "value_str v k = (case v of JObject ob \<Rightarrow> get_str ob k | _ \<Rightarrow> None)"

text \<open>
  The start of the actor in \<open>main\<close>, the lock held and the record read: the record must name this daemon as its
  producer. \<open>sha\<close> is the hash of the operation's digest and \<open>name\<close> the session name of the configuration.
\<close>

definition actor_claim :: "(bytes \<Rightarrow> bytes) \<Rightarrow> rstr \<Rightarrow> rstr \<Rightarrow> ProcessId \<Rightarrow> bytes option \<Rightarrow> OperationRecord \<Rightarrow> Actor option" where
  "actor_claim sha digest name me disk r =
     (case (value_str (op_envelope r) (ustr ''operationId''), value_str (op_envelope r) (ustr ''runtimeId'')) of
        (Some oid, Some rid) \<Rightarrow>
          if op_state r \<noteq> StPending \<or> op_phase r \<noteq> PhDaemonGated \<or> wr_role (op_writer r) \<noteq> RoleProducer
            \<or> wr_id (op_writer r) \<noteq> Some me \<or> operation_digest sha oid \<noteq> digest \<or> rid \<noteq> name
          then None
          else
            Some \<lparr>a_digest = digest, a_locked = True, a_record = r, a_me = me, a_operation_id = oid,
              a_envelope_sha256 = op_envelope_sha256 r, a_envelope = op_envelope r,
              a_expected = value_str (op_envelope r) (ustr ''expectedIncarnation''), a_runtime_id = rid,
              a_transferred = False, a_seq = 0, a_tickets = [], a_stage = StageDeciding, a_retiring = False,
              a_serving = False, a_published = False, a_child = None, a_generation = [], a_pending = None,
              a_deferred_transfer = None, a_syncing = False, a_disk = disk, a_commands = [], a_log = []\<rparr>
      | _ \<Rightarrow> None)"

section \<open>Frames, writes and tickets\<close>

definition logged :: "actor_effect \<Rightarrow> Actor \<Rightarrow> Actor" where
  "logged x a = a\<lparr>a_log := a_log a @ [x]\<rparr>"

definition commanded :: "WorkerCmd \<Rightarrow> Actor \<Rightarrow> Actor" where
  "commanded c a = a\<lparr>a_commands := a_commands a @ [c]\<rparr>"

definition actor_frame :: "aenv \<Rightarrow> string \<Rightarrow> json imap \<Rightarrow> Actor \<Rightarrow> Actor" where
  "actor_frame e kind added a =
     (let a1 = a\<lparr>a_seq := a_seq a + 1\<rparr> in
      logged (SentFrame (ustr kind)
        (producer_frame (ae_text e) (ustr kind) (a_seq a1) (a_operation_id a1) (a_envelope_sha256 a1) (a_envelope a1)
           (Some (a_record a1)) (map ticket_view (a_tickets a1)) added)) a1)"

definition actor_reject :: "aenv \<Rightarrow> RejectCode \<Rightarrow> rstr option \<Rightarrow> Actor \<Rightarrow> Actor" where
  "actor_reject e code request_id =
     actor_frame e ''command-rejected''
       [(ustr ''code'', JString (reject_str code)), (ustr ''requestId'', json_option JString request_id)]"

definition actor_write :: "aenv \<Rightarrow> OperationRecord \<Rightarrow> string \<Rightarrow> Actor \<Rightarrow> bool \<times> Actor" where
  "actor_write e nxt label a =
     (if \<not> a_locked a then (False, a)
      else
        (case write_cas (ae_text e) (ae_read_fails e (ustr label)) (ae_fate e (ustr label)) (ae_now e) (a_record a) nxt (a_disk a) of
           (Inr new, disk) \<Rightarrow> (True, logged (WroteOperation new) (a\<lparr>a_record := new, a_disk := disk\<rparr>))
         | (Inl _, disk) \<Rightarrow> (False, a\<lparr>a_disk := disk\<rparr>)))"

text \<open>The end of the actor, through \<open>abandon\<close> and through \<open>finish\<close>.\<close>

definition actor_end :: "int \<Rightarrow> Actor \<Rightarrow> Actor" where
  "actor_end code a =
     (let a1 = (logged ClosedControl a)\<lparr>a_locked := False, a_stage := StageDone\<rparr> in
      if a_serving a1 then logged (SentEnd code) a1 else commanded (CmdStop code) a1)"

definition actor_abandon :: "Actor \<Rightarrow> Actor" where
  "actor_abandon a = actor_end 1 a"

definition actor_finish :: "int \<Rightarrow> Actor \<Rightarrow> Actor" where
  "actor_finish code a = actor_end code a"

definition actor_hold :: "aenv \<Rightarrow> string \<Rightarrow> Pending \<Rightarrow> Actor \<Rightarrow> bool \<times> Actor" where
  "actor_hold e name p a =
     (if ae_armed e (ustr name) then (True, a\<lparr>a_pending := Some p\<rparr>) else (False, a))"

definition issue_ticket :: "TicketKind \<Rightarrow> Actor \<Rightarrow> u64 \<times> Actor" where
  "issue_ticket kind a =
     (let i = of_nat (length (a_tickets a)) + 1 in
      (i, a\<lparr>a_tickets := a_tickets a @ [\<lparr>t_id = i, t_kind = kind, t_state = TsIssued\<rparr>]\<rparr>))"

text \<open>\<open>ticket\<close> finds the first with the id; \<open>set_ticket\<close> is the assignment through that reference.\<close>

definition find_ticket :: "u64 \<Rightarrow> Actor \<Rightarrow> Ticket option" where
  "find_ticket i a = find (\<lambda>t. t_id t = i) (a_tickets a)"

fun update_ticket :: "u64 \<Rightarrow> TicketState \<Rightarrow> Ticket list \<Rightarrow> Ticket list" where
  "update_ticket i st [] = []"
| "update_ticket i st (t # ts) = (if t_id t = i then t\<lparr>t_state := st\<rparr> # ts else t # update_ticket i st ts)"

definition set_ticket :: "u64 \<Rightarrow> TicketState \<Rightarrow> Actor \<Rightarrow> Actor" where
  "set_ticket i st a = a\<lparr>a_tickets := update_ticket i st (a_tickets a)\<rparr>"

definition committed_in_flight :: "Actor \<Rightarrow> bool" where
  "committed_in_flight a \<longleftrightarrow> list_ex (\<lambda>t. t_state t = TsCommitted) (a_tickets a)"

definition is_transferred :: "Actor \<Rightarrow> bool" where
  "is_transferred a \<longleftrightarrow> op_state (a_record a) = StTransferred"

definition decision_extra :: "Decision option \<Rightarrow> json imap" where
  "decision_extra d = [(ustr ''decision'', json_option decision_json d)]"

section \<open>The decision\<close>

definition cancel_before_launch :: "aenv \<Rightarrow> Cause \<Rightarrow> rstr option \<Rightarrow> rstr option \<Rightarrow> Actor \<Rightarrow> Actor" where
  "cancel_before_launch e c request_id observed a =
     (let cancelled = (a_record a)\<lparr>op_state := StCancelled, op_writer := writer_none,
                        op_decision := Some (decision_now (ae_now e) c request_id observed)\<rparr>
      in
      case actor_write e cancelled ''decision'' a of
        (False, a1) \<Rightarrow> actor_abandon a1
      | (True, a1) \<Rightarrow>
          actor_finish 3 (logged ReleasedCreationLock
            (actor_frame e ''decision'' (decision_extra (op_decision (a_record a1))) a1)))"

definition launched_record :: "aenv \<Rightarrow> rstr option \<Rightarrow> Actor \<Rightarrow> OperationRecord" where
  "launched_record e predecessor a =
     (a_record a)\<lparr>op_state := StLaunched,
       op_decision := Some (decision_now (ae_now e) CauseLaunch None predecessor),
       op_incarnation := Some \<lparr>inc_id = dec (unat (pi_pid (a_me a))) @ [58] @ ae_now e, inc_runtime_id = a_runtime_id a,
         inc_generation = ae_new_generation e, inc_daemon = a_me a, inc_child = None\<rparr>\<rparr>"

definition actor_decide :: "aenv \<Rightarrow> Actor \<Rightarrow> Actor" where
  "actor_decide e a =
     (if \<not> ae_creation_lock e
      then cancel_before_launch e CauseRefused None (Some (ustr ''creation-lock-not-delegated'')) a
      else
        (case occupancy_rule (ae_occupancy e) (a_expected a) of
           Inl (c, observed) \<Rightarrow> cancel_before_launch e c None (Some observed) a
         | Inr predecessor \<Rightarrow>
             (case issue_ticket TkPublish a of
                (ticket, a1) \<Rightarrow>
                  (case actor_write e (launched_record e predecessor a1) ''decision'' a1 of
                     (False, a2) \<Rightarrow> actor_abandon a2
                   | (True, a2) \<Rightarrow>
                       (let a3 = a2\<lparr>a_generation := ae_new_generation e, a_stage := StageStarting\<rparr>;
                            a4 = actor_frame e ''decision'' (decision_extra (op_decision (a_record a3))) a3
                        in commanded (CmdPublish ticket (ae_new_generation e) (ae_now e) predecessor) a4)))))"

definition begin_sync :: "Actor \<Rightarrow> Actor" where
  "begin_sync a = logged AskedSync (a\<lparr>a_syncing := True\<rparr>)"

section \<open>Retirement\<close>

text \<open>\<open>verify_child_gone\<close>: the status, and whether the child was killed.\<close>

definition verify_child_gone :: "aenv \<Rightarrow> ChildRecord \<Rightarrow> rstr \<times> bool" where
  "verify_child_gone e child =
     (case ch_id child of
        None \<Rightarrow> (ustr ''unrecorded'', False)
      | Some i \<Rightarrow>
          if ae_observed_first e then (liveness_json (ae_after_first e), False)
          else if ae_gone_first e then (ustr ''gone'', False)
          else if ae_observed_killed e then (liveness_json (ae_after_killed e), True)
          else if ae_gone_killed e then (ustr ''gone'', True)
          else if ae_wait_unsupported e then (ustr ''exit-wait-unavailable'', True)
          else (ustr ''live'', True))"

text \<open>\<open>unwind_publication\<close>: the first try that has both locks decides.\<close>

definition unwind_publication :: "row_world list \<Rightarrow> rstr \<Rightarrow> int \<Rightarrow> rstr" where
  "unwind_publication tries generation p =
     (case find uw_locks tries of
        None \<Rightarrow> ustr ''locks-busy''
      | Some u \<Rightarrow>
          if \<not> (uw_metadata u \<noteq> None \<or> uw_socket u \<or> uw_pidfile u) then ustr ''absent''
          else if \<not> is_current_generation_owner u \<lparr>so_generation = generation, so_pid = p\<rparr>
            \<or> (case uw_metadata u of Some m \<Rightarrow> md_generation m \<noteq> Some generation | None \<Rightarrow> False)
          then ustr ''other-generation''
          else ustr ''removed'')"

definition row_unwound :: "rstr \<Rightarrow> bool" where
  "row_unwound outcome \<longleftrightarrow> outcome = ustr ''removed'' \<or> outcome = ustr ''absent'' \<or> outcome = ustr ''other-generation''"

definition retire_child :: "aenv \<Rightarrow> Actor \<Rightarrow> json imap \<times> bool \<times> Actor" where
  "retire_child e a =
     (case a_child a of
        None \<Rightarrow> ([], True, a)
      | Some child \<Rightarrow>
          (let (outcome, killed) = verify_child_gone e child;
               a1 = logged (ShutGate (ch_pid child)) a;
               a2 = (if killed then logged (KilledSession (ch_pid child)) a1 else a1)
           in ([(ustr ''child'', JObject [(ustr ''pid'', json_int (ch_pid child)), (ustr ''status'', JString outcome)])],
               outcome = ustr ''gone'', a2)))"

definition retire_row :: "aenv \<Rightarrow> Actor \<Rightarrow> json imap \<times> bool \<times> Actor" where
  "retire_row e a =
     (if a_published a then
        (let outcome = unwind_publication (ae_tries e) (a_generation a) (sint (pi_pid (a_me a))) in
         ([(ustr ''row'', JString outcome)], row_unwound outcome, logged (UnwoundRow outcome) a))
      else ([], True, a))"

definition terminal_retirement :: "json imap \<Rightarrow> bool \<Rightarrow> OperationRecord \<Rightarrow> OperationRecord" where
  "terminal_retirement evidence verified r =
     r\<lparr>op_writer := writer_none,
       op_retirement := Some \<lparr>rt_request_id = (case op_retirement r of Some t \<Rightarrow> rt_request_id t | None \<Rightarrow> []),
         rt_phase = (if verified then RetVerified else RetIncomplete), rt_evidence = JObject evidence\<rparr>\<rparr>"

definition complete_retirement :: "aenv \<Rightarrow> Actor \<Rightarrow> Actor" where
  "complete_retirement e a =
     (if \<not> a_retiring a \<or> a_stage a = StageDone then a
      else
        (case retire_child e a of
           (child_evidence, child_ok, a1) \<Rightarrow>
             (case retire_row e (logged ReleasedCreationLock a1) of
                (row_evidence, row_ok, a2) \<Rightarrow>
                  (case actor_write e (terminal_retirement (child_evidence @ row_evidence) (child_ok \<and> row_ok) (a_record a2))
                          ''retirement-terminal'' a2 of
                     (False, a3) \<Rightarrow> actor_abandon a3
                   | (True, a3) \<Rightarrow>
                       actor_finish 0 (actor_frame e ''retirement''
                         [(ustr ''retirement'', json_option retirement_json (op_retirement (a_record a3)))] a3)))))"

text \<open>A transfer that has not committed loses to the retirement.\<close>

definition reject_transfers :: "aenv \<Rightarrow> Actor \<Rightarrow> Actor" where
  "reject_transfers e a =
     (let a1 = (case a_pending a of
                  Some (PendingTransferCommit q) \<Rightarrow> actor_reject e NotHeld (Some q) (a\<lparr>a_pending := None\<rparr>)
                | _ \<Rightarrow> a\<lparr>a_pending := None\<rparr>)
      in
      case a_deferred_transfer a1 of
        Some q \<Rightarrow> actor_reject e NotHeld (Some q) (a1\<lparr>a_deferred_transfer := None\<rparr>)
      | None \<Rightarrow> a1)"

definition revoke_issued :: "Ticket list \<Rightarrow> Ticket list" where
  "revoke_issued ts = map (\<lambda>t. if t_state t = TsIssued then t\<lparr>t_state := TsRevoked\<rparr> else t) ts"

definition requested_retirement :: "rstr \<Rightarrow> OperationRecord \<Rightarrow> OperationRecord" where
  "requested_retirement request_id r =
     r\<lparr>op_retirement := Some \<lparr>rt_request_id = request_id, rt_phase = RetRequested, rt_evidence = JObject []\<rparr>\<rparr>"

definition actor_retire :: "aenv \<Rightarrow> Cause option \<Rightarrow> rstr \<Rightarrow> Actor \<Rightarrow> Actor" where
  "actor_retire e c request_id a =
     (if a_retiring a \<or> a_stage a = StageDone \<or> is_transferred a then a
      else
        (let a1 = reject_transfers e a;
             a2 = a1\<lparr>a_tickets := revoke_issued (a_tickets a1)\<rparr>
         in
         case actor_write e (requested_retirement request_id (a_record a2)) ''retirement-requested'' a2 of
           (False, a3) \<Rightarrow> actor_abandon a3
         | (True, a3) \<Rightarrow>
             (let a4 = (case c of
                          Some cause \<Rightarrow>
                            actor_frame e ''decision''
                              (decision_extra (Some (decision_now (ae_now e) cause
                                 (if cause = CauseCancel then Some request_id else None) None))) a3
                        | None \<Rightarrow> a3);
                  a5 = a4\<lparr>a_retiring := True\<rparr>
              in if \<not> committed_in_flight a5 then complete_retirement e a5 else a5)))"

section \<open>Transfer\<close>

definition finish_transfer :: "aenv \<Rightarrow> bool \<Rightarrow> Actor \<Rightarrow> Actor" where
  "finish_transfer e released a =
     (let a1 = logged MarkedTransferred a;
          done' = (a_record a1)\<lparr>op_writer := writer_none,
                    op_transfer := map_option (\<lambda>t. t\<lparr>tr_released := Some released\<rparr>) (op_transfer (a_record a1))\<rparr>;
          a2 = snd (actor_write e done' ''transfer-released'' a1);
          a3 = actor_frame e ''transferred''
                 [(ustr ''transfer'', json_option transfer_json (op_transfer (a_record a2)))] a2
      in (logged ClosedControl a3)\<lparr>a_locked := False, a_stage := StageDone\<rparr>)"

definition release_transfer :: "aenv \<Rightarrow> Actor \<Rightarrow> Actor" where
  "release_transfer e a =
     (let (released, a1) = (case a_child a of
                              None \<Rightarrow> (False, a)
                            | Some child \<Rightarrow> (ae_release e, logged (ReleasedGate (ch_pid child)) (a\<lparr>a_child := None\<rparr>)))
      in
      case actor_hold e ''released-before-ack'' (PendingTransferAck released) a1 of
        (True, a2) \<Rightarrow> a2
      | (False, a2) \<Rightarrow> finish_transfer e released a2)"

definition commit_transfer :: "aenv \<Rightarrow> rstr \<Rightarrow> Actor \<Rightarrow> Actor" where
  "commit_transfer e request_id a =
     (if a_retiring a \<or> a_stage a = StageDone then actor_reject e NotHeld (Some request_id) a
      else
        (let committed = (a_record a)\<lparr>op_state := StTransferred,
               op_transfer := Some \<lparr>tr_request_id = request_id, tr_committed_at = ae_now e, tr_released = None\<rparr>\<rparr>
         in
         case actor_write e committed ''transfer-commit'' a of
           (False, a1) \<Rightarrow> actor_abandon (actor_reject e NotHeld (Some request_id) a1)
         | (True, a1) \<Rightarrow>
             (case actor_hold e ''transfer-committed-before-release'' PendingTransferRelease
                     (logged SentTransferred (a1\<lparr>a_transferred := True\<rparr>)) of
                (True, a2) \<Rightarrow> a2
              | (False, a2) \<Rightarrow> release_transfer e a2)))"

definition start_transfer :: "aenv \<Rightarrow> rstr \<Rightarrow> Actor \<Rightarrow> Actor" where
  "start_transfer e request_id a =
     (case actor_hold e ''transfer-before-commit'' (PendingTransferCommit request_id) a of
        (True, a1) \<Rightarrow> a1
      | (False, a1) \<Rightarrow> commit_transfer e request_id a1)"

section \<open>Events\<close>

definition on_owner_deciding :: "aenv \<Rightarrow> OwnerInput \<Rightarrow> Actor \<Rightarrow> Actor" where
  "on_owner_deciding e input a =
     (case input of
        InputEof \<Rightarrow> cancel_before_launch e CauseOwnerEof None None a
      | InputFrame FrameMalformed \<Rightarrow>
          cancel_before_launch e CauseMalformed None None (actor_reject e MalformedCode None a)
      | InputFrame (FrameCommand (OwnerCancel q)) \<Rightarrow> cancel_before_launch e CauseCancel (Some q) None a
      | InputFrame (FrameCommand (OwnerTransfer q i g)) \<Rightarrow> actor_reject e NotHeld (Some q) a
      | InputFrame (FrameRejected code q) \<Rightarrow> actor_reject e code q a)"

definition on_transfer :: "aenv \<Rightarrow> rstr \<Rightarrow> rstr \<Rightarrow> rstr \<Rightarrow> Actor \<Rightarrow> Actor" where
  "on_transfer e q i g a =
     (if is_transferred a then actor_reject e AlreadyTransferred (Some q) a
      else if a_deferred_transfer a \<noteq> None
        \<or> (case a_pending a of Some (PendingTransferCommit _) \<Rightarrow> True | _ \<Rightarrow> False)
      then actor_reject e AlreadyDecided (Some q) a
      else if a_retiring a \<or> \<not> (op_phase (a_record a) = PhHeld \<and> a_child a \<noteq> None)
      then actor_reject e NotHeld (Some q) a
      else if \<not> (case op_incarnation (a_record a) of
                   Some inc \<Rightarrow> inc_id inc = i \<and> inc_generation inc = g | None \<Rightarrow> False)
      then actor_reject e WrongIncarnation (Some q) a
      else if a_stage a = StageHeld then a\<lparr>a_deferred_transfer := Some q\<rparr>
      else start_transfer e q a)"

definition on_owner :: "aenv \<Rightarrow> OwnerInput \<Rightarrow> Actor \<Rightarrow> Actor" where
  "on_owner e input a =
     (if a_stage a = StageDeciding then on_owner_deciding e input a
      else
        (case input of
           InputFrame (FrameCommand (OwnerCancel q)) \<Rightarrow>
             if is_transferred a then actor_reject e AlreadyTransferred (Some q) a
             else if a_retiring a then actor_reject e AlreadyDecided (Some q) a
             else actor_retire e (Some CauseCancel) q a
         | InputFrame (FrameCommand (OwnerTransfer q i g)) \<Rightarrow> on_transfer e q i g a
         | InputFrame (FrameRejected code q) \<Rightarrow>
             actor_reject e (if is_transferred a \<and> code \<noteq> MalformedCode then AlreadyTransferred else code) q a
         | InputFrame FrameMalformed \<Rightarrow>
             (let a1 = actor_reject e MalformedCode None a in
              if \<not> is_transferred a1 \<and> \<not> a_retiring a1
              then actor_retire e (Some CauseMalformed) (ustr ''owner:malformed'') a1 else a1)
         | InputEof \<Rightarrow>
             if \<not> is_transferred a \<and> \<not> a_retiring a
             then actor_retire e (Some CauseOwnerEof) (ustr ''owner:eof'') a else a))"

definition on_commit :: "u64 \<Rightarrow> Actor \<Rightarrow> Actor" where
  "on_commit ticket a =
     (case find_ticket ticket a of
        Some t \<Rightarrow>
          if t_state t = TsIssued \<and> \<not> a_retiring a then
            (let a1 = set_ticket ticket TsCommitted a;
                 a2 = (if t_kind t = TkPublish then a1\<lparr>a_published := True\<rparr> else a1)
             in logged (RepliedCommit ticket True) a2)
          else
            logged (RepliedCommit ticket False)
              (if t_state t = TsIssued then set_ticket ticket TsRevoked a else a)
      | None \<Rightarrow> logged (RepliedCommit ticket False) a)"

definition on_published :: "aenv \<Rightarrow> Actor \<Rightarrow> Actor" where
  "on_published e a =
     (let a1 = logged ReleasedCreationLock a in
      if a_retiring a1 then a1
      else
        (case issue_ticket TkForkChild a1 of
           (ticket, a2) \<Rightarrow>
             (case actor_write e ((a_record a2)\<lparr>op_phase := PhChildForking\<rparr>) ''child-forking'' a2 of
                (True, a3) \<Rightarrow> commanded (CmdForkChild ticket) a3
              | (False, a3) \<Rightarrow> actor_abandon a3)))"

definition preparing_record :: "ProcessId \<Rightarrow> OperationRecord \<Rightarrow> OperationRecord" where
  "preparing_record i r =
     r\<lparr>op_phase := PhChildPreparing, op_participants := (op_participants r)\<lparr>pa_child := Some i\<rparr>,
       op_incarnation := map_option (\<lambda>inc. inc\<lparr>inc_child := Some i\<rparr>) (op_incarnation r)\<rparr>"

definition on_forked :: "aenv \<Rightarrow> int \<Rightarrow> Actor \<Rightarrow> Actor" where
  "on_forked e p a =
     (let a1 = a\<lparr>a_child := Some \<lparr>ch_id = ae_process_id e, ch_pid = p\<rparr>\<rparr> in
      if a_retiring a1 then a1
      else
        (case ae_process_id e of
           None \<Rightarrow> actor_retire e None (ustr ''producer:child-exited'') a1
         | Some i \<Rightarrow>
             (case actor_write e (preparing_record i (a_record a1)) ''child-preparing'' a1 of
                (True, a2) \<Rightarrow> a2
              | (False, a2) \<Rightarrow> actor_abandon a2)))"

text \<open>
  The returns inside the arms of the source skip the last test: after a retirement or an abandonment it
  would do nothing, so the arms need not be told apart.
\<close>

definition on_completed :: "aenv \<Rightarrow> u64 \<Rightarrow> rstr + Completion \<Rightarrow> Actor \<Rightarrow> Actor" where
  "on_completed e i result a =
     (case find_ticket i a of
        None \<Rightarrow> a
      | Some t \<Rightarrow>
          (let a1 = set_ticket i TsCompleted a;
               a2 = (case (t_kind t, result) of
                       (TkPublish, Inr _) \<Rightarrow> on_published e a1
                     | (TkForkChild, Inr (CompForked p)) \<Rightarrow> on_forked e p a1
                     | (_, Inr _) \<Rightarrow> a1
                     | (_, Inl message) \<Rightarrow>
                         if \<not> a_retiring a1 then actor_retire e None (ustr ''producer:startup-failed'') a1 else a1)
           in if a_retiring a2 \<and> \<not> committed_in_flight a2 then complete_retirement e a2 else a2))"

definition on_ack :: "aenv \<Rightarrow> Ack \<Rightarrow> Actor \<Rightarrow> Actor" where
  "on_ack e ack a =
     (if a_retiring a \<or> a_stage a \<noteq> StageStarting then a
      else
        (case ack of
           AckPrepared \<Rightarrow>
             (case actor_write e ((a_record a)\<lparr>op_phase := PhHeld\<rparr>) ''held'' a of
                (False, a1) \<Rightarrow> actor_abandon a1
              | (True, a1) \<Rightarrow> commanded CmdReadyPoint (actor_frame e ''held'' [] (a1\<lparr>a_stage := StageHeld\<rparr>)))
         | AckFailed step \<Rightarrow> actor_retire e None (ustr ''producer:prepare-'' @ step) a
         | AckLost \<Rightarrow> actor_retire e None (ustr ''producer:child-lost'') a))"

definition on_ready_point :: "aenv \<Rightarrow> Actor \<Rightarrow> Actor" where
  "on_ready_point e a =
     (if a_stage a = StageHeld \<and> \<not> a_retiring a then
        (let a1 = logged (RepliedReady True)
                    (actor_frame e ''ready'' [] (a\<lparr>a_stage := StageReady, a_serving := True\<rparr>))
         in
         case a_deferred_transfer a1 of
           Some q \<Rightarrow> start_transfer e q (a1\<lparr>a_deferred_transfer := None\<rparr>)
         | None \<Rightarrow> a1)
      else logged (RepliedReady False) a)"

definition on_released :: "aenv \<Rightarrow> rstr \<Rightarrow> Actor \<Rightarrow> Actor" where
  "on_released e name a =
     (case a_pending a of
        Some PendingDecide \<Rightarrow>
          if name = ustr ''before-decision'' \<and> a_stage a = StageDeciding then begin_sync (a\<lparr>a_pending := None\<rparr>) else a
      | Some (PendingTransferCommit q) \<Rightarrow>
          if name = ustr ''transfer-before-commit'' then commit_transfer e q (a\<lparr>a_pending := None\<rparr>) else a
      | Some PendingTransferRelease \<Rightarrow>
          if name = ustr ''transfer-committed-before-release'' then release_transfer e (a\<lparr>a_pending := None\<rparr>) else a
      | Some (PendingTransferAck released) \<Rightarrow>
          if name = ustr ''released-before-ack'' then finish_transfer e released (a\<lparr>a_pending := None\<rparr>) else a
      | None \<Rightarrow> a)"

definition on_shutdown :: "aenv \<Rightarrow> Actor \<Rightarrow> Actor" where
  "on_shutdown e a =
     (case op_state (a_record a) of
        StLaunched \<Rightarrow> actor_retire e None (ustr ''producer:terminated'') a
      | StPending \<Rightarrow>
          if a_stage a = StageDeciding
          then cancel_before_launch e CauseRefused None (Some (ustr ''producer:terminated'')) a else a
      | StTransferred \<Rightarrow> logged SentExternalKill a
      | _ \<Rightarrow> a)"

definition on_event :: "aenv \<Rightarrow> ActorEvent \<Rightarrow> Actor \<Rightarrow> Actor" where
  "on_event e ev a =
     (case ev of
        EvSynced \<Rightarrow>
          if a_stage a = StageDeciding \<and> a_syncing a then actor_decide e (a\<lparr>a_syncing := False\<rparr>) else a
      | EvReleased name \<Rightarrow> on_released e name a
      | EvCommit ticket \<Rightarrow> on_commit ticket a
      | EvCompleted ticket result \<Rightarrow> on_completed e ticket result a
      | EvChildAck ack \<Rightarrow> on_ack e ack a
      | EvReadyPoint \<Rightarrow> on_ready_point e a
      | EvChildExited \<Rightarrow>
          if op_state (a_record a) = StLaunched then actor_retire e None (ustr ''producer:child-exited'') a else a
      | EvShutdown \<Rightarrow> on_shutdown e a
      | EvOwner input \<Rightarrow> on_owner e input a)"

text \<open>\<open>run\<close>: the opening, and the loop, which ends when the actor is done.\<close>

definition actor_start :: "aenv \<Rightarrow> Actor \<Rightarrow> Actor" where
  "actor_start e a =
     (case actor_hold e ''before-decision'' PendingDecide (actor_frame e ''accepted'' [] a) of
        (True, a1) \<Rightarrow> a1
      | (False, a1) \<Rightarrow> begin_sync a1)"

definition actor_turn :: "aenv \<Rightarrow> ActorEvent \<Rightarrow> Actor \<Rightarrow> Actor" where
  "actor_turn e ev a = (if a_stage a = StageDone then a else on_event e ev a)"

end
