(* ===== verification/Operation_Life.thy ===== *)
theory Operation_Life
  imports Operation_Actor Transitions
begin

text \<open>
  The life of a launch operation, as the daemon's actor may lead it, and the proof that the actor leads
  it, whatever events arrive in whatever order and whatever the world answers.
\<close>

section \<open>The abstract life\<close>

datatype life = LPending | LCancelled | LLaunched | LRetiring | LRetired | LCommitted | LSettled

fun record_life :: "OperationState \<Rightarrow> RetirementPhase option \<Rightarrow> Transfer option \<Rightarrow> life" where
  "record_life StCancelled _ _ = LCancelled"
| "record_life StLaunched None _ = LLaunched"
| "record_life StLaunched (Some RetRequested) _ = LRetiring"
| "record_life StLaunched (Some _) _ = LRetired"
| "record_life StTransferred _ (Some t) = (if tr_released t = None then LCommitted else LSettled)"
| "record_life StTransferred _ None = LCommitted"
| "record_life _ _ _ = LPending"

definition life_of_record :: "OperationRecord \<Rightarrow> life" where
  "life_of_record r = record_life (op_state r) (retirement_of r) (op_transfer r)"

text \<open>
  The moves of a life: it is cancelled or launched; launched, it goes through its phases, or is retired
  in two steps, or is committed to its owner and settled. Cancelled, retired and settled are final.
\<close>

fun life_moves :: "life \<Rightarrow> life \<Rightarrow> bool" where
  "life_moves LPending l \<longleftrightarrow> l = LCancelled \<or> l = LLaunched"
| "life_moves LLaunched l \<longleftrightarrow> l = LLaunched \<or> l = LRetiring \<or> l = LCommitted"
| "life_moves LRetiring l \<longleftrightarrow> l = LRetired"
| "life_moves LCommitted l \<longleftrightarrow> l = LSettled"
| "life_moves _ _ \<longleftrightarrow> False"

text \<open>
  What each effect needs: a ticket is granted only to a launched operation that nobody withdrew, the child
  is released once and only after the commit, and it is ended, and its row unwound, only while retiring.
  The flag says that the child was released.
\<close>

definition operation_step :: "life \<times> bool \<Rightarrow> actor_effect \<Rightarrow> (life \<times> bool) option" where
  "operation_step s x =
     (case s of (l, g) \<Rightarrow>
        (case x of
           WroteOperation r \<Rightarrow> if life_moves l (life_of_record r) then Some (life_of_record r, g) else None
         | RepliedCommit _ granted \<Rightarrow> if granted \<longrightarrow> l = LLaunched \<or> l = LCommitted then Some s else None
         | RepliedReady ready \<Rightarrow> if ready \<longrightarrow> l = LLaunched then Some s else None
         | ReleasedGate _ \<Rightarrow> if l = LCommitted \<and> \<not> g then Some (l, True) else None
         | ShutGate _ \<Rightarrow> if l = LRetiring then Some s else None
         | KilledSession _ \<Rightarrow> if l = LRetiring then Some s else None
         | UnwoundRow _ \<Rightarrow> if l = LRetiring then Some s else None
         | SentTransferred \<Rightarrow> if l = LCommitted then Some s else None
         | MarkedTransferred \<Rightarrow> if l = LCommitted then Some s else None
         | SentExternalKill \<Rightarrow> if l = LCommitted then Some s else None
         | _ \<Rightarrow> Some s))"

definition life_of_log :: "actor_effect list \<Rightarrow> (life \<times> bool) option" where
  "life_of_log xs = foldl (\<lambda>s x. Option.bind s (\<lambda>s. operation_step s x)) (Some (LPending, False)) xs"

lemma life_of_log_Nil [simp]: "life_of_log [] = Some (LPending, False)"
  by (simp add: life_of_log_def)

lemma life_of_log_snoc [simp]: "life_of_log (xs @ [x]) = Option.bind (life_of_log xs) (\<lambda>s. operation_step s x)"
  by (simp add: life_of_log_def)

lemma life_of_log_snoc2 [simp]:
  "life_of_log (xs @ [x, y]) = Option.bind (Option.bind (life_of_log xs) (\<lambda>s. operation_step s x)) (\<lambda>s. operation_step s y)"
  by (simp add: life_of_log_def)

section \<open>Views of the actor\<close>

lemma life_of_next [simp]: "life_of_record (next_revision now e n) = life_of_record n"
  by (simp add: life_of_record_def retirement_of_def)

lemma logged_fields [simp]:
  "a_record (logged x a) = a_record a" "a_stage (logged x a) = a_stage a" "a_retiring (logged x a) = a_retiring a"
  "a_pending (logged x a) = a_pending a" "a_deferred_transfer (logged x a) = a_deferred_transfer a"
  "a_tickets (logged x a) = a_tickets a" "a_child (logged x a) = a_child a" "a_published (logged x a) = a_published a"
  "a_locked (logged x a) = a_locked a" "a_commands (logged x a) = a_commands a" "a_log (logged x a) = a_log a @ [x]"
  "a_serving (logged x a) = a_serving a" "a_generation (logged x a) = a_generation a" "a_me (logged x a) = a_me a"
  by (simp_all add: logged_def)

lemma commanded_fields [simp]:
  "a_record (commanded c a) = a_record a" "a_stage (commanded c a) = a_stage a" "a_retiring (commanded c a) = a_retiring a"
  "a_pending (commanded c a) = a_pending a" "a_deferred_transfer (commanded c a) = a_deferred_transfer a"
  "a_tickets (commanded c a) = a_tickets a" "a_child (commanded c a) = a_child a" "a_published (commanded c a) = a_published a"
  "a_locked (commanded c a) = a_locked a" "a_commands (commanded c a) = a_commands a @ [c]" "a_log (commanded c a) = a_log a"
  "a_serving (commanded c a) = a_serving a"
  by (simp_all add: commanded_def)

lemma frame_fields_of [simp]:
  "a_record (actor_frame e k m a) = a_record a" "a_stage (actor_frame e k m a) = a_stage a"
  "a_retiring (actor_frame e k m a) = a_retiring a" "a_pending (actor_frame e k m a) = a_pending a"
  "a_deferred_transfer (actor_frame e k m a) = a_deferred_transfer a" "a_tickets (actor_frame e k m a) = a_tickets a"
  "a_child (actor_frame e k m a) = a_child a" "a_published (actor_frame e k m a) = a_published a"
  "a_locked (actor_frame e k m a) = a_locked a" "a_commands (actor_frame e k m a) = a_commands a"
  "a_serving (actor_frame e k m a) = a_serving a"
  by (simp_all add: actor_frame_def Let_def)

lemma frame_life [simp]: "life_of_log (a_log (actor_frame e k m a)) = life_of_log (a_log a)"
  by (cases "life_of_log (a_log a)") (auto simp: actor_frame_def Let_def operation_step_def)

lemma reject_fields [simp]:
  "a_record (actor_reject e c q a) = a_record a" "a_stage (actor_reject e c q a) = a_stage a"
  "a_retiring (actor_reject e c q a) = a_retiring a" "a_pending (actor_reject e c q a) = a_pending a"
  "a_deferred_transfer (actor_reject e c q a) = a_deferred_transfer a" "a_tickets (actor_reject e c q a) = a_tickets a"
  "a_child (actor_reject e c q a) = a_child a" "a_published (actor_reject e c q a) = a_published a"
  "a_locked (actor_reject e c q a) = a_locked a" "a_commands (actor_reject e c q a) = a_commands a"
  "a_serving (actor_reject e c q a) = a_serving a"
  "life_of_log (a_log (actor_reject e c q a)) = life_of_log (a_log a)"
  by (simp_all add: actor_reject_def)

text \<open>A write either lands, over a consistent record and with the lock held, or changes at most the file.\<close>

lemma actor_write_cases:
  obtains (fails) d where "actor_write e nxt label a = (False, a\<lparr>a_disk := d\<rparr>)"
  | (lands) new d where "actor_write e nxt label a = (True, logged (WroteOperation new) (a\<lparr>a_record := new, a_disk := d\<rparr>))"
      "new = next_revision (ae_now e) (a_record a) nxt" "check nxt = Inr ()" "a_locked a"
proof (cases "a_locked a")
  case False
  then have "actor_write e nxt label a = (False, a\<lparr>a_disk := a_disk a\<rparr>)" by (simp add: actor_write_def)
  then show thesis by (rule fails)
next
  case True
  define w where "w = write_cas (ae_text e) (ae_read_fails e (ustr label)) (ae_fate e (ustr label)) (ae_now e) (a_record a) nxt (a_disk a)"
  obtain res d where w: "w = (res, d)" by fastforce
  show thesis
  proof (cases res)
    case (Inl x)
    with True w have "actor_write e nxt label a = (False, a\<lparr>a_disk := d\<rparr>)" by (simp add: actor_write_def w_def)
    then show thesis by (rule fails)
  next
    case (Inr new)
    with w have "new = next_revision (ae_now e) (a_record a) nxt" unfolding w_def using write_cas_result by blast
    moreover from Inr w have "check nxt = Inr ()"
      unfolding w_def by (auto simp: write_cas_def split: sum.splits)
    moreover from Inr True w have
      "actor_write e nxt label a = (True, logged (WroteOperation new) (a\<lparr>a_record := new, a_disk := d\<rparr>))"
      by (simp add: actor_write_def w_def)
    ultimately show thesis using True lands by blast
  qed
qed

section \<open>The invariant\<close>

definition live_ok :: "life \<Rightarrow> bool \<Rightarrow> Actor \<Rightarrow> bool" where
  "live_ok l g a \<longleftrightarrow>
     (case a_stage a of
        StageDeciding \<Rightarrow> l = LPending \<and> a_tickets a = [] \<and> a_deferred_transfer a = None
          \<and> op_retirement (a_record a) = None \<and> op_phase (a_record a) \<noteq> PhHeld
          \<and> (a_pending a = None \<or> a_pending a = Some PendingDecide)
      | StageStarting \<Rightarrow> (l = LLaunched \<or> l = LRetiring) \<and> op_phase (a_record a) \<noteq> PhHeld
      | StageHeld \<Rightarrow> l = LLaunched \<or> l = LRetiring
      | StageReady \<Rightarrow> l = LLaunched \<or> l = LRetiring \<or> l = LCommitted
      | StageDone \<Rightarrow> True)
     \<and> (a_retiring a \<longleftrightarrow> l = LRetiring)
     \<and> (a_deferred_transfer a \<noteq> None \<longrightarrow> a_stage a = StageHeld \<and> l = LLaunched)
     \<and> (\<forall>q. a_pending a = Some (PendingTransferCommit q) \<longrightarrow>
          a_stage a = StageReady \<and> l = LLaunched \<and> a_deferred_transfer a = None)
     \<and> (a_pending a = Some PendingTransferRelease \<longrightarrow> l = LCommitted \<and> \<not> g)
     \<and> (\<forall>b. a_pending a = Some (PendingTransferAck b) \<longrightarrow> l = LCommitted)"

definition actor_inv :: "Actor \<Rightarrow> bool" where
  "actor_inv a \<longleftrightarrow>
     (\<exists>g. life_of_log (a_log a) = Some (life_of_record (a_record a), g)
        \<and> (a_stage a \<noteq> StageDone \<longrightarrow> live_ok (life_of_record (a_record a)) g a))"

lemma actor_end_inv:
  "life_of_log (a_log a) = Some (life_of_record (a_record a), g) \<Longrightarrow> actor_inv (actor_end code a)"
  by (auto simp: actor_inv_def actor_end_def Let_def operation_step_def)

lemma disk_fields [simp]:
  "a_record (a\<lparr>a_disk := d\<rparr>) = a_record a" by simp

lemma actor_abandon_inv:
  "life_of_log (a_log a) = Some (life_of_record (a_record a), g) \<Longrightarrow> actor_inv (actor_abandon a)"
  unfolding actor_abandon_def by (rule actor_end_inv)

lemma actor_finish_inv:
  "life_of_log (a_log a) = Some (life_of_record (a_record a), g) \<Longrightarrow> actor_inv (actor_finish code a)"
  unfolding actor_finish_def by (rule actor_end_inv)

lemma record_life_transferred: "record_life s r t = LCommitted \<or> record_life s r t = LSettled \<longleftrightarrow> s = StTransferred"
  by (cases "(s, r, t)" rule: record_life.cases) auto

lemma is_transferred_life:
  "is_transferred a \<longleftrightarrow> life_of_record (a_record a) = LCommitted \<or> life_of_record (a_record a) = LSettled"
  by (simp add: is_transferred_def life_of_record_def record_life_transferred)

lemma record_life_launched:
  "record_life s r t = LLaunched \<longleftrightarrow> s = StLaunched \<and> r = None"
  "record_life s r t = LRetiring \<longleftrightarrow> s = StLaunched \<and> r = Some RetRequested"
  by (cases "(s, r, t)" rule: record_life.cases; auto)+

section \<open>Preservation\<close>

lemma actor_invE:
  assumes "actor_inv a" and "a_stage a \<noteq> StageDone"
  obtains g where "life_of_log (a_log a) = Some (life_of_record (a_record a), g)"
    "live_ok (life_of_record (a_record a)) g a"
  using assms by (auto simp: actor_inv_def)

lemma cancel_inv:
  assumes "life_of_log (a_log a) = Some (LPending, g)" and "life_of_record (a_record a) = LPending"
  shows "actor_inv (cancel_before_launch e c q ob a)"
proof (cases rule: actor_write_cases [of e "(a_record a)\<lparr>op_state := StCancelled, op_writer := writer_none,
                        op_decision := Some (decision_now (ae_now e) c q ob)\<rparr>" "''decision''" a])
  case (fails d)
  then show ?thesis using assms by (auto simp: cancel_before_launch_def intro!: actor_abandon_inv)
next
  case (lands new d)
  then have "life_of_record new = LCancelled" by (simp add: life_of_record_def)
  with lands assms show ?thesis
    by (auto simp: cancel_before_launch_def operation_step_def intro!: actor_finish_inv)
qed

lemma issue_fields [simp]:
  "a_record (snd (issue_ticket k a)) = a_record a" "a_stage (snd (issue_ticket k a)) = a_stage a"
  "a_retiring (snd (issue_ticket k a)) = a_retiring a" "a_pending (snd (issue_ticket k a)) = a_pending a"
  "a_deferred_transfer (snd (issue_ticket k a)) = a_deferred_transfer a" "a_log (snd (issue_ticket k a)) = a_log a"
  "a_child (snd (issue_ticket k a)) = a_child a" "a_published (snd (issue_ticket k a)) = a_published a"
  "a_locked (snd (issue_ticket k a)) = a_locked a" "a_commands (snd (issue_ticket k a)) = a_commands a"
  by (simp_all add: issue_ticket_def Let_def)

lemma decide_inv:
  assumes "life_of_log (a_log a) = Some (LPending, g)" and l: "life_of_record (a_record a) = LPending"
    and k: "live_ok LPending g a" and d: "a_stage a = StageDeciding"
  shows "actor_inv (actor_decide e a)"
proof (cases "ae_creation_lock e")
  case False
  then show ?thesis using assms by (auto simp: actor_decide_def intro: cancel_inv)
next
  case True
  show ?thesis
  proof (cases "occupancy_rule (ae_occupancy e) (a_expected a)")
    case (Inl r)
    then show ?thesis using assms True by (cases r) (auto simp: actor_decide_def intro: cancel_inv)
  next
    case (Inr pred)
    obtain t a1 where it: "issue_ticket TkPublish a = (t, a1)" by fastforce
    then have a1: "a_record a1 = a_record a" "a_retiring a1 = a_retiring a" "a_pending a1 = a_pending a"
        "a_deferred_transfer a1 = a_deferred_transfer a" "a_log a1 = a_log a"
      using issue_fields [of TkPublish a] by simp_all
    show ?thesis
    proof (cases rule: actor_write_cases [of e "launched_record e pred a1" "''decision''" a1])
      case (fails dd)
      then have "actor_decide e a = actor_abandon (a1\<lparr>a_disk := dd\<rparr>)"
        using True Inr by (simp add: actor_decide_def it)
      then show ?thesis using assms a1 by (auto intro!: actor_abandon_inv)
    next
      case (lands new dd)
      have "life_of_record new = LLaunched" "op_phase new \<noteq> PhHeld"
        using k d lands(2) a1(1) by (simp_all add: live_ok_def life_of_record_def launched_record_def retirement_of_def)
      then show ?thesis
        using True Inr lands assms a1
        by (auto simp: actor_decide_def it actor_inv_def Let_def operation_step_def live_ok_def)
    qed
  qed
qed

text \<open>Retirement.\<close>

lemma reject_transfers_fields [simp]:
  "a_record (reject_transfers e a) = a_record a" "a_stage (reject_transfers e a) = a_stage a"
  "a_retiring (reject_transfers e a) = a_retiring a" "a_pending (reject_transfers e a) = None"
  "a_deferred_transfer (reject_transfers e a) = None" "a_tickets (reject_transfers e a) = a_tickets a"
  "a_child (reject_transfers e a) = a_child a" "a_published (reject_transfers e a) = a_published a"
  "a_locked (reject_transfers e a) = a_locked a" "a_commands (reject_transfers e a) = a_commands a"
  "life_of_log (a_log (reject_transfers e a)) = life_of_log (a_log a)"
  by (auto simp: reject_transfers_def Let_def split: option.splits Pending.splits)

lemma retire_child_cases:
  obtains ev ok a1 where "retire_child e a = (ev, ok, a1)" "a_record a1 = a_record a" "a_stage a1 = a_stage a"
    "a_retiring a1 = a_retiring a" "a_tickets a1 = a_tickets a" "a_published a1 = a_published a"
    "life_of_log (a_log a) = Some (LRetiring, g) \<Longrightarrow> life_of_log (a_log a1) = Some (LRetiring, g)"
  by (cases "a_child a"; cases "verify_child_gone e (the (a_child a))")
     (auto simp: retire_child_def Let_def operation_step_def split: if_splits)

lemma retire_row_cases:
  obtains ev ok a1 where "retire_row e a = (ev, ok, a1)" "a_record a1 = a_record a" "a_stage a1 = a_stage a"
    "a_retiring a1 = a_retiring a" "a_tickets a1 = a_tickets a"
    "life_of_log (a_log a) = Some (LRetiring, g) \<Longrightarrow> life_of_log (a_log a1) = Some (LRetiring, g)"
  by (cases "a_published a") (auto simp: retire_row_def Let_def operation_step_def)

lemma complete_inv:
  assumes l: "life_of_log (a_log a) = Some (LRetiring, g)" and r: "life_of_record (a_record a) = LRetiring"
    and a: "a_retiring a" "a_stage a \<noteq> StageDone"
  shows "actor_inv (complete_retirement e a)"
proof -
  obtain ev1 ok1 a1 where 1: "retire_child e a = (ev1, ok1, a1)" "a_record a1 = a_record a"
      "life_of_log (a_log a1) = Some (LRetiring, g)"
    using retire_child_cases [of e a g] l by metis
  obtain ev2 ok2 a2 where 2: "retire_row e (logged ReleasedCreationLock a1) = (ev2, ok2, a2)" "a_record a2 = a_record a1"
      "life_of_log (a_log a2) = Some (LRetiring, g)"
  proof (rule retire_row_cases [of e "logged ReleasedCreationLock a1" g])
    fix ev ok b
    assume "retire_row e (logged ReleasedCreationLock a1) = (ev, ok, b)" "a_record b = a_record (logged ReleasedCreationLock a1)"
      "life_of_log (a_log (logged ReleasedCreationLock a1)) = Some (LRetiring, g) \<Longrightarrow> life_of_log (a_log b) = Some (LRetiring, g)"
    then show thesis using that 1(3) by (simp add: operation_step_def)
  qed
  let ?t = "terminal_retirement (ev1 @ ev2) (ok1 \<and> ok2) (a_record a2)"
  have st: "op_state (a_record a) = StLaunched" using r by (simp add: life_of_record_def record_life_launched)
  have c: "complete_retirement e a = (case actor_write e ?t ''retirement-terminal'' a2 of
                     (False, a3) \<Rightarrow> actor_abandon a3
                   | (True, a3) \<Rightarrow>
                       actor_finish 0 (actor_frame e ''retirement''
                         [(ustr ''retirement'', json_option retirement_json (op_retirement (a_record a3)))] a3))"
    using a 1(1) 2(1) by (simp add: complete_retirement_def)
  show ?thesis
  proof (cases rule: actor_write_cases [of e ?t "''retirement-terminal''" a2])
    case (fails d)
    then show ?thesis unfolding c using 1 2 r by (auto intro!: actor_abandon_inv)
  next
    case (lands new d)
    have "life_of_record new = LRetired"
      using st 1(2) 2(2) lands(2) by (simp add: life_of_record_def terminal_retirement_def retirement_of_def)
    then show ?thesis unfolding c using lands 1 2 r by (auto simp: operation_step_def intro!: actor_finish_inv)
  qed
qed

lemma retire_inv:
  assumes i: "actor_inv a" and n: "a_stage a \<noteq> StageDone" "a_stage a \<noteq> StageDeciding"
  shows "actor_inv (actor_retire e c q a)"
proof (cases "a_retiring a \<or> is_transferred a")
  case True
  with i show ?thesis by (auto simp: actor_retire_def)
next
  case False
  from i n(1) obtain g where g: "life_of_log (a_log a) = Some (life_of_record (a_record a), g)"
      "live_ok (life_of_record (a_record a)) g a" by (rule actor_invE)
  have l: "life_of_record (a_record a) = LLaunched"
    using g(2) n False by (auto simp: live_ok_def is_transferred_life split: Stage.splits)
  have st: "op_state (a_record a) = StLaunched" using l by (simp add: life_of_record_def record_life_launched)
  let ?a2 = "(reject_transfers e a)\<lparr>a_tickets := revoke_issued (a_tickets (reject_transfers e a))\<rparr>"
  have rt: "actor_retire e c q a = (case actor_write e (requested_retirement q (a_record ?a2)) ''retirement-requested'' ?a2 of
           (False, a3) \<Rightarrow> actor_abandon a3
         | (True, a3) \<Rightarrow>
             (let a4 = (case c of
                          Some cause \<Rightarrow>
                            actor_frame e ''decision''
                              (decision_extra (Some (decision_now (ae_now e) cause
                                 (if cause = CauseCancel then Some q else None) None))) a3
                        | None \<Rightarrow> a3);
                  a5 = a4\<lparr>a_retiring := True\<rparr>
              in if \<not> committed_in_flight a5 then complete_retirement e a5 else a5))"
    using False n by (simp add: actor_retire_def Let_def)
  show ?thesis
  proof (cases rule: actor_write_cases [of e "requested_retirement q (a_record ?a2)" "''retirement-requested''" ?a2])
    case (fails d)
    then show ?thesis unfolding rt using g(1) by (auto intro!: actor_abandon_inv)
  next
    case (lands new d)
    define a3 where "a3 = logged (WroteOperation new) (?a2\<lparr>a_record := new, a_disk := d\<rparr>)"
    define a4 where "a4 = (case c of
                          Some cause \<Rightarrow>
                            actor_frame e ''decision''
                              (decision_extra (Some (decision_now (ae_now e) cause
                                 (if cause = CauseCancel then Some q else None) None))) a3
                        | None \<Rightarrow> a3)"
    have w: "actor_write e (requested_retirement q (a_record ?a2)) ''retirement-requested'' ?a2 = (True, a3)"
      using lands(1) a3_def by (simp only:)
    have n4: "life_of_record new = LRetiring" "op_phase new = op_phase (a_record a)"
      using st lands(2) by (simp_all add: life_of_record_def requested_retirement_def retirement_of_def)
    have f4: "a_record a4 = new" "a_stage a4 = a_stage a" "a_pending a4 = None" "a_deferred_transfer a4 = None"
        "life_of_log (a_log a4) = Some (LRetiring, g)"
      using g(1) l n4 by (auto simp: a4_def a3_def operation_step_def split: option.splits)
    have "actor_inv (a4\<lparr>a_retiring := True\<rparr>)"
      using f4 n4 n g(2) by (auto simp: actor_inv_def live_ok_def split: Stage.splits)
    moreover have "actor_inv (complete_retirement e (a4\<lparr>a_retiring := True\<rparr>))"
      using f4 n4 n by (intro complete_inv) auto
    ultimately show ?thesis unfolding rt w by (simp only: Let_def prod.case bool.case a4_def [symmetric] split: if_split) simp
  qed
qed

text \<open>Transfer.\<close>

lemma check_transferred:
  "check r = Inr () \<Longrightarrow> op_state r = StTransferred \<Longrightarrow> op_transfer r \<noteq> None \<and> op_phase r = PhHeld"
  by (simp add: check_def state_ok_def Let_def split: if_splits)

lemma life_transferred: "life_of_record r = LCommitted \<Longrightarrow> op_state r = StTransferred"
  by (metis life_of_record_def record_life_transferred)

lemma finish_transfer_inv:
  assumes "life_of_log (a_log a) = Some (LCommitted, g)" and l: "life_of_record (a_record a) = LCommitted"
  shows "actor_inv (finish_transfer e released a)"
proof -
  let ?a1 = "logged MarkedTransferred a"
  let ?n = "(a_record a)\<lparr>op_writer := writer_none,
                op_transfer := map_option (\<lambda>t. t\<lparr>tr_released := Some released\<rparr>) (op_transfer (a_record a))\<rparr>"
  have a1: "life_of_log (a_log ?a1) = Some (LCommitted, g)" using assms by (simp add: operation_step_def)
  show ?thesis
  proof (cases rule: actor_write_cases [of e ?n "''transfer-released''" ?a1])
    case (fails d)
    then show ?thesis using a1 l by (auto simp: finish_transfer_def actor_inv_def Let_def operation_step_def)
  next
    case (lands new d)
    have "op_transfer (a_record a) \<noteq> None" "op_state (a_record a) = StTransferred"
      using check_transferred [OF lands(3)] life_transferred [OF l] by simp_all
    then have "life_of_record new = LSettled"
      using lands(2) by (auto simp: life_of_record_def)
    then show ?thesis
      using lands(1) a1 l by (auto simp: finish_transfer_def actor_inv_def Let_def operation_step_def)
  qed
qed

lemma release_transfer_inv:
  assumes "life_of_log (a_log a) = Some (LCommitted, False)" and "life_of_record (a_record a) = LCommitted"
    and "a_stage a = StageReady" and "\<not> a_retiring a" and "a_deferred_transfer a = None"
  shows "actor_inv (release_transfer e a)"
proof -
  obtain released a1 g where r: "(case a_child a of None \<Rightarrow> (False, a)
        | Some child \<Rightarrow> (ae_release e, logged (ReleasedGate (ch_pid child)) (a\<lparr>a_child := None\<rparr>))) = (released, a1)"
      "life_of_log (a_log a1) = Some (LCommitted, g)" "a_record a1 = a_record a" "a_stage a1 = StageReady"
      "\<not> a_retiring a1" "a_deferred_transfer a1 = None"
    using assms by (cases "a_child a") (auto simp: operation_step_def)
  then have t: "release_transfer e a = (case actor_hold e ''released-before-ack'' (PendingTransferAck released) a1 of
        (True, a2) \<Rightarrow> a2 | (False, a2) \<Rightarrow> finish_transfer e released a2)"
    by (simp add: release_transfer_def)
  show ?thesis
  proof (cases "ae_armed e (ustr ''released-before-ack'')")
    case True
    then show ?thesis
      unfolding t using r assms(2) by (auto simp: actor_hold_def actor_inv_def live_ok_def)
  next
    case False
    then show ?thesis
      unfolding t using r assms(2) by (auto simp: actor_hold_def intro!: finish_transfer_inv)
  qed
qed

text \<open>The child is released after the commit only.\<close>

lemma released_life: "life_of_log xs = Some (l, True) \<Longrightarrow> l = LCommitted \<or> l = LSettled"
proof (induction xs arbitrary: l rule: rev_induct)
  case Nil
  then show ?case by (simp add: life_of_log_def)
next
  case (snoc x xs)
  then obtain l' g where "life_of_log xs = Some (l', g)" "operation_step (l', g) x = Some (l, True)"
    by (cases "life_of_log xs") auto
  with snoc.IH show ?case
    by (cases l') (auto simp: operation_step_def split: actor_effect.splits if_splits)
qed

lemma commit_transfer_inv:
  assumes a: "life_of_log (a_log a) = Some (LLaunched, g)" "life_of_record (a_record a) = LLaunched"
    "a_stage a = StageReady" "\<not> a_retiring a" "a_deferred_transfer a = None"
  shows "actor_inv (commit_transfer e q a)"
proof -
  have g: "\<not> g" using released_life [of "a_log a" LLaunched] a(1) by (cases g) auto
  let ?n = "(a_record a)\<lparr>op_state := StTransferred,
               op_transfer := Some \<lparr>tr_request_id = q, tr_committed_at = ae_now e, tr_released = None\<rparr>\<rparr>"
  show ?thesis
  proof (cases rule: actor_write_cases [of e ?n "''transfer-commit''" a])
    case (fails d)
    then show ?thesis using a by (auto simp: commit_transfer_def intro!: actor_abandon_inv)
  next
    case (lands new d)
    have n: "life_of_record new = LCommitted" using lands(2) by (simp add: life_of_record_def)
    define b where "b = logged SentTransferred ((logged (WroteOperation new) (a\<lparr>a_record := new, a_disk := d\<rparr>))\<lparr>a_transferred := True\<rparr>)"
    have b: "life_of_log (a_log b) = Some (LCommitted, False)" "a_record b = new" "a_stage b = StageReady"
        "\<not> a_retiring b" "a_deferred_transfer b = None"
      using a n g by (auto simp: b_def operation_step_def)
    have c: "commit_transfer e q a =
        (case actor_hold e ''transfer-committed-before-release'' PendingTransferRelease b of
           (True, a2) \<Rightarrow> a2 | (False, a2) \<Rightarrow> release_transfer e a2)"
      using a lands(1) by (simp add: commit_transfer_def b_def)
    show ?thesis
    proof (cases "ae_armed e (ustr ''transfer-committed-before-release'')")
      case True
      then show ?thesis unfolding c using b n by (auto simp: actor_hold_def actor_inv_def live_ok_def)
    next
      case False
      then show ?thesis unfolding c using b n by (auto simp: actor_hold_def intro!: release_transfer_inv)
    qed
  qed
qed

lemma start_transfer_inv:
  assumes a: "life_of_log (a_log a) = Some (LLaunched, g)" "life_of_record (a_record a) = LLaunched"
    "a_stage a = StageReady" "\<not> a_retiring a" "a_deferred_transfer a = None"
  shows "actor_inv (start_transfer e q a)"
proof (cases "ae_armed e (ustr ''transfer-before-commit'')")
  case True
  then show ?thesis using a by (auto simp: start_transfer_def actor_hold_def actor_inv_def live_ok_def)
next
  case False
  then show ?thesis using commit_transfer_inv [OF a] by (simp add: start_transfer_def actor_hold_def)
qed

text \<open>The events.\<close>

lemma reject_inv [simp]: "actor_inv (actor_reject e c q a) = actor_inv a"
  by (simp only: actor_inv_def live_ok_def reject_fields)

lemma deciding_life:
  assumes "actor_inv a" and "a_stage a = StageDeciding"
  obtains g where "life_of_log (a_log a) = Some (LPending, g)" "life_of_record (a_record a) = LPending"
    "live_ok LPending g a"
proof -
  obtain g where "life_of_log (a_log a) = Some (life_of_record (a_record a), g)"
      "live_ok (life_of_record (a_record a)) g a"
    using actor_invE [OF assms(1)] assms(2) by auto
  moreover from this assms(2) have "life_of_record (a_record a) = LPending" by (simp add: live_ok_def)
  ultimately show thesis using that by simp
qed

lemma on_owner_deciding_inv:
  assumes "actor_inv a" and "a_stage a = StageDeciding"
  shows "actor_inv (on_owner_deciding e input a)"
proof -
  obtain g where g: "life_of_log (a_log a) = Some (LPending, g)" "life_of_record (a_record a) = LPending"
    using deciding_life [OF assms] by blast
  show ?thesis
  proof (cases input)
    case InputEof
    then show ?thesis using g by (auto simp: on_owner_deciding_def intro: cancel_inv)
  next
    case (InputFrame f)
    then show ?thesis using g assms
      by (auto simp: on_owner_deciding_def intro!: cancel_inv split: OwnerFrame.split OwnerCommand.split)
  qed
qed

lemma launched_life:
  assumes "actor_inv a" and "a_stage a \<noteq> StageDone" "a_stage a \<noteq> StageDeciding" and "\<not> a_retiring a" "\<not> is_transferred a"
  obtains g where "life_of_log (a_log a) = Some (LLaunched, g)" "life_of_record (a_record a) = LLaunched"
    "live_ok LLaunched g a"
proof -
  obtain g where "life_of_log (a_log a) = Some (life_of_record (a_record a), g)"
      "live_ok (life_of_record (a_record a)) g a"
    using actor_invE [OF assms(1)] assms(2) by auto
  moreover from this assms(2-) have "life_of_record (a_record a) = LLaunched"
    by (auto simp: live_ok_def is_transferred_life split: Stage.splits)
  ultimately show thesis using that by simp
qed

lemma on_transfer_inv:
  assumes i: "actor_inv a" and n: "a_stage a \<noteq> StageDone" "a_stage a \<noteq> StageDeciding"
  shows "actor_inv (on_transfer e q id' gen a)"
proof (cases "is_transferred a \<or> a_retiring a \<or> a_deferred_transfer a \<noteq> None
    \<or> (case a_pending a of Some (PendingTransferCommit _) \<Rightarrow> True | _ \<Rightarrow> False) \<or> op_phase (a_record a) \<noteq> PhHeld")
  case True
  then show ?thesis using i by (auto simp: on_transfer_def)
next
  case False
  then obtain g where g: "life_of_log (a_log a) = Some (LLaunched, g)" "life_of_record (a_record a) = LLaunched"
      "live_ok LLaunched g a"
    using launched_life [OF i n] by blast
  have "a_stage a = StageHeld \<or> a_stage a = StageReady" using g(3) False n by (cases "a_stage a") (auto simp: live_ok_def)
  then show ?thesis
  proof
    assume h: "a_stage a = StageHeld"
    have "actor_inv (a\<lparr>a_deferred_transfer := Some q\<rparr>)" using g h by (auto simp: actor_inv_def live_ok_def)
    then show ?thesis using h i by (simp add: on_transfer_def)
  next
    assume h: "a_stage a = StageReady"
    then have "actor_inv (start_transfer e q a)" using start_transfer_inv [OF g(1,2) h] False by auto
    then show ?thesis using h i by (simp add: on_transfer_def)
  qed
qed

lemma on_owner_inv:
  assumes i: "actor_inv a" and n: "a_stage a \<noteq> StageDone"
  shows "actor_inv (on_owner e input a)"
proof (cases "a_stage a = StageDeciding")
  case True
  then show ?thesis using on_owner_deciding_inv [OF i] by (simp add: on_owner_def)
next
  case d: False
  note r = retire_inv [OF i n d] on_transfer_inv [OF i n d]
  have m: "actor_inv (actor_retire e c q (actor_reject e k w a))" for c q k w
    using retire_inv [of "actor_reject e k w a"] i n d by simp
  show ?thesis
  proof (cases input)
    case InputEof
    then show ?thesis using r i d by (simp add: on_owner_def)
  next
    case (InputFrame f)
    then show ?thesis using r i d m by (simp add: on_owner_def Let_def split: OwnerFrame.split OwnerCommand.split)
  qed
qed

lemma set_ticket_fields [simp]:
  "a_record (set_ticket i st a) = a_record a" "a_stage (set_ticket i st a) = a_stage a"
  "a_retiring (set_ticket i st a) = a_retiring a" "a_pending (set_ticket i st a) = a_pending a"
  "a_deferred_transfer (set_ticket i st a) = a_deferred_transfer a" "a_log (set_ticket i st a) = a_log a"
  by (simp_all add: set_ticket_def)

lemma set_ticket_none: "a_tickets (set_ticket i st a) = [] \<longleftrightarrow> a_tickets a = []"
  by (cases "a_tickets a") (simp_all add: set_ticket_def)

lemma live_ok_cong:
  assumes "a_stage b = a_stage a" "a_record b = a_record a" "a_retiring b = a_retiring a" "a_pending b = a_pending a"
    "a_deferred_transfer b = a_deferred_transfer a" "a_stage a = StageDeciding \<Longrightarrow> a_tickets b = [] \<longleftrightarrow> a_tickets a = []"
  shows "live_ok l g b = live_ok l g a"
  unfolding live_ok_def assms(1-5) using assms(6) by (cases "a_stage a") simp_all

lemma neutral_inv:
  assumes "actor_inv a" and "a_stage a \<noteq> StageDone"
    and "a_stage b = a_stage a" "a_record b = a_record a" "a_retiring b = a_retiring a" "a_pending b = a_pending a"
    "a_deferred_transfer b = a_deferred_transfer a" "a_stage a = StageDeciding \<Longrightarrow> a_tickets b = [] \<longleftrightarrow> a_tickets a = []"
    and x: "\<And>g. live_ok (life_of_record (a_record a)) g a \<Longrightarrow>
      life_of_log (a_log a) = Some (life_of_record (a_record a), g) \<Longrightarrow> life_of_log (a_log b) = life_of_log (a_log a)"
  shows "actor_inv b"
proof -
  obtain g where g: "life_of_log (a_log a) = Some (life_of_record (a_record a), g)"
      "live_ok (life_of_record (a_record a)) g a"
    using actor_invE [OF assms(1,2)] by blast
  then have "live_ok (life_of_record (a_record a)) g b" using live_ok_cong [OF assms(3-8)] by simp
  then show ?thesis unfolding actor_inv_def using x [OF g(2,1)] g(1) assms(4) by auto
qed

lemma set_ticket_inv: "actor_inv a \<Longrightarrow> a_stage a \<noteq> StageDone \<Longrightarrow> actor_inv (set_ticket i st a)"
  by (rule neutral_inv) (simp_all add: set_ticket_none)

lemma find_ticket_some: "find_ticket i a = Some t \<Longrightarrow> a_tickets a \<noteq> []"
  by (auto simp: find_ticket_def)

lemma on_commit_inv:
  assumes i: "actor_inv a" and n: "a_stage a \<noteq> StageDone"
  shows "actor_inv (on_commit i' a)"
proof (cases "find_ticket i' a")
  case None
  show ?thesis by (rule neutral_inv [OF i n]) (simp_all add: on_commit_def None operation_step_def)
next
  case (Some t)
  have lv: "live_ok l g a \<Longrightarrow> \<not> a_retiring a \<Longrightarrow> l = LLaunched \<or> l = LCommitted" for l g
    using find_ticket_some [OF Some] n by (cases "a_stage a") (auto simp: live_ok_def)
  show ?thesis
    by (rule neutral_inv [OF i n]) (auto simp: on_commit_def Some Let_def set_ticket_none operation_step_def dest: lv)
qed

text \<open>A phase is written over a launched record, or refused.\<close>

lemma phase_life:
  assumes "check n = Inr ()" and "op_state n = op_state r" "op_retirement n = op_retirement r" "op_phase n \<noteq> PhHeld"
    and "op_transfer n = op_transfer r" and "life_of_record r = LLaunched \<or> life_of_record r = LCommitted"
  shows "life_of_record n = LLaunched \<and> life_of_record r = LLaunched"
proof -
  have same: "life_of_record n = life_of_record r" using assms(2,3,5) by (simp add: life_of_record_def retirement_of_def)
  have "life_of_record r \<noteq> LCommitted"
  proof
    assume "life_of_record r = LCommitted"
    then have "op_state n = StTransferred" using life_transferred assms(2) by simp
    then show False using check_transferred [OF assms(1)] assms(4) by simp
  qed
  then show ?thesis using assms(6) same by simp
qed

lemma live_phase:
  assumes "live_ok LLaunched g a" and "a_stage a \<noteq> StageDeciding" and "op_phase n \<noteq> PhHeld"
    and "a_stage b = a_stage a" "a_retiring b = a_retiring a" "a_pending b = a_pending a"
    "a_deferred_transfer b = a_deferred_transfer a" "a_record b = n"
  shows "live_ok LLaunched g b"
  using assms by (cases "a_stage a") (simp_all add: live_ok_def)

lemma phase_write_inv:
  assumes i: "actor_inv a" and n: "a_stage a \<noteq> StageDone" "a_stage a \<noteq> StageDeciding" and r: "\<not> a_retiring a"
    and k: "op_state nxt = op_state (a_record a)" "op_retirement nxt = op_retirement (a_record a)"
      "op_phase nxt \<noteq> PhHeld" "op_transfer nxt = op_transfer (a_record a)"
    and w: "actor_write e nxt label a = (res, b)"
  shows "actor_inv (if res then b else actor_abandon b)"
proof -
  obtain g where g: "life_of_log (a_log a) = Some (life_of_record (a_record a), g)"
      "live_ok (life_of_record (a_record a)) g a"
    using actor_invE [OF i n(1)] by blast
  show ?thesis
  proof (cases rule: actor_write_cases [of e nxt label a])
    case (fails d)
    then show ?thesis using w g(1) by (auto intro!: actor_abandon_inv)
  next
    case (lands new d)
    have "life_of_record (a_record a) = LLaunched \<or> life_of_record (a_record a) = LCommitted"
      using g(2) n r by (cases "a_stage a") (auto simp: live_ok_def)
    then have l: "life_of_record nxt = LLaunched" "life_of_record (a_record a) = LLaunched"
      using phase_life [OF lands(3) k] by blast+
    then have "live_ok LLaunched g b"
      using g(2) n(2) k(3) lands(1,2) w by (intro live_phase [of g a new b]) auto
    then show ?thesis using lands(1,2) w g(1) l by (auto simp: actor_inv_def operation_step_def)
  qed
qed

lemma complete_keeps_inv:
  assumes "actor_inv a"
  shows "actor_inv (complete_retirement e a)"
proof (cases "\<not> a_retiring a \<or> a_stage a = StageDone")
  case True
  then show ?thesis using assms by (auto simp: complete_retirement_def)
next
  case False
  then obtain g where "life_of_log (a_log a) = Some (life_of_record (a_record a), g)"
      "live_ok (life_of_record (a_record a)) g a"
    using actor_invE [OF assms] by blast
  moreover from this False have "life_of_record (a_record a) = LRetiring" by (simp add: live_ok_def)
  ultimately show ?thesis using False by (auto intro: complete_inv)
qed

lemma on_published_inv:
  assumes i: "actor_inv a" and n: "a_stage a \<noteq> StageDone" "a_stage a \<noteq> StageDeciding"
  shows "actor_inv (on_published e a)"
proof -
  let ?a1 = "logged ReleasedCreationLock a"
  have a1: "actor_inv ?a1" by (rule neutral_inv [OF i n(1)]) (simp_all add: operation_step_def)
  obtain t a2 where it: "issue_ticket TkForkChild ?a1 = (t, a2)" by fastforce
  then have f: "a_stage a2 = a_stage a" "a_record a2 = a_record a" "a_retiring a2 = a_retiring a" "a_pending a2 = a_pending a"
      "a_deferred_transfer a2 = a_deferred_transfer a" "a_log a2 = a_log ?a1"
    using issue_fields [of TkForkChild ?a1] by simp_all
  have a2: "actor_inv a2" using f n by (intro neutral_inv [OF a1]) simp_all
  obtain res b where w: "actor_write e ((a_record a2)\<lparr>op_phase := PhChildForking\<rparr>) ''child-forking'' a2 = (res, b)"
    by fastforce
  have c: "actor_inv (commanded x b) = actor_inv b" for x
    by (simp only: actor_inv_def live_ok_def commanded_fields)
  have "actor_inv (if res then b else actor_abandon b)" if "\<not> a_retiring a"
    by (rule phase_write_inv [OF a2 _ _ _ _ _ _ _ w]) (use f n that in simp_all)
  then show ?thesis using a1 w by (auto simp: on_published_def Let_def it c split: if_splits)
qed

lemma on_forked_inv:
  assumes i: "actor_inv a" and n: "a_stage a \<noteq> StageDone" "a_stage a \<noteq> StageDeciding"
  shows "actor_inv (on_forked e p a)"
proof -
  let ?a1 = "a\<lparr>a_child := Some \<lparr>ch_id = ae_process_id e, ch_pid = p\<rparr>\<rparr>"
  have a1: "actor_inv ?a1" by (rule neutral_inv [OF i n(1)]) simp_all
  show ?thesis
  proof (cases "ae_process_id e")
    case None
    then show ?thesis using a1 n retire_inv [OF a1] by (simp add: on_forked_def Let_def)
  next
    case (Some j)
    obtain res b where w: "actor_write e (preparing_record j (a_record ?a1)) ''child-preparing'' ?a1 = (res, b)"
      by fastforce
    have "actor_inv (if res then b else actor_abandon b)" if "\<not> a_retiring a"
      by (rule phase_write_inv [OF a1 _ _ _ _ _ _ _ w]) (use n that in \<open>simp_all add: preparing_record_def\<close>)
    then show ?thesis using a1 w Some by (auto simp: on_forked_def Let_def split: if_splits)
  qed
qed

lemma on_completed_inv:
  assumes i: "actor_inv a" and n: "a_stage a \<noteq> StageDone"
  shows "actor_inv (on_completed e j result a)"
proof (cases "find_ticket j a")
  case None
  then show ?thesis using i by (simp add: on_completed_def)
next
  case (Some t)
  have d: "a_stage a \<noteq> StageDeciding"
    using find_ticket_some [OF Some] deciding_life [OF i] by (fastforce simp: live_ok_def)
  let ?a1 = "set_ticket j TsCompleted a"
  have a1: "actor_inv ?a1" "a_stage ?a1 \<noteq> StageDone" "a_stage ?a1 \<noteq> StageDeciding"
    using set_ticket_inv [OF i n] n d by simp_all
  note all = on_published_inv [OF a1] on_forked_inv [OF a1] retire_inv [OF a1] a1(1)
  define a2 where "a2 = (case (t_kind t, result) of
                       (TkPublish, Inr _) \<Rightarrow> on_published e ?a1
                     | (TkForkChild, Inr (CompForked p)) \<Rightarrow> on_forked e p ?a1
                     | (_, Inr _) \<Rightarrow> ?a1
                     | (_, Inl message) \<Rightarrow>
                         if \<not> a_retiring ?a1 then actor_retire e None (ustr ''producer:startup-failed'') ?a1 else ?a1)"
  have "actor_inv a2"
    unfolding a2_def using all by (auto split: TicketKind.split sum.split Completion.split)
  moreover have "on_completed e j result a =
      (if a_retiring a2 \<and> \<not> committed_in_flight a2 then complete_retirement e a2 else a2)"
    unfolding on_completed_def Some Let_def option.case a2_def ..
  ultimately show ?thesis using complete_keeps_inv by simp
qed

lemma on_ack_inv:
  assumes i: "actor_inv a" and n: "a_stage a \<noteq> StageDone"
  shows "actor_inv (on_ack e ack a)"
proof (cases "a_retiring a \<or> a_stage a \<noteq> StageStarting")
  case True
  then show ?thesis using i by (auto simp: on_ack_def)
next
  case False
  have t: "\<not> is_transferred a"
    using actor_invE [OF i n] False by (fastforce simp: live_ok_def is_transferred_life)
  obtain g where g: "life_of_log (a_log a) = Some (LLaunched, g)" "life_of_record (a_record a) = LLaunched"
      "live_ok LLaunched g a"
    by (rule launched_life [OF i n]) (use False t in auto)
  have "actor_inv (on_ack e AckPrepared a)"
  proof (cases rule: actor_write_cases [of e "(a_record a)\<lparr>op_phase := PhHeld\<rparr>" "''held''" a])
    case (fails d)
    then show ?thesis using False g by (auto simp: on_ack_def intro!: actor_abandon_inv)
  next
    case (lands new d)
    have "life_of_record new = LLaunched" using lands(2) g(2) by (simp add: life_of_record_def retirement_of_def)
    then show ?thesis
      using False g lands by (auto simp: on_ack_def actor_inv_def operation_step_def live_ok_def)
  qed
  then show ?thesis using retire_inv [OF i n] False by (cases ack) (simp_all add: on_ack_def)
qed

lemma on_ready_point_inv:
  assumes i: "actor_inv a" and n: "a_stage a \<noteq> StageDone"
  shows "actor_inv (on_ready_point e a)"
proof (cases "a_stage a = StageHeld \<and> \<not> a_retiring a")
  case False
  then show ?thesis by (intro neutral_inv [OF i n]) (auto simp: on_ready_point_def operation_step_def)
next
  case True
  then have t: "\<not> is_transferred a"
    using actor_invE [OF i n] by (fastforce simp: live_ok_def is_transferred_life)
  obtain g where g: "life_of_log (a_log a) = Some (LLaunched, g)" "life_of_record (a_record a) = LLaunched"
      "live_ok LLaunched g a"
    by (rule launched_life [OF i n]) (use True t in auto)
  define a1 where "a1 = logged (RepliedReady True) (actor_frame e ''ready'' [] (a\<lparr>a_stage := StageReady, a_serving := True\<rparr>))"
  have a1: "life_of_log (a_log a1) = Some (LLaunched, g)" "a_record a1 = a_record a" "a_stage a1 = StageReady"
      "a_retiring a1 = a_retiring a" "a_pending a1 = a_pending a" "a_deferred_transfer a1 = a_deferred_transfer a"
    using g by (simp_all add: a1_def operation_step_def)
  have o: "on_ready_point e a = (case a_deferred_transfer a1 of
           Some q \<Rightarrow> start_transfer e q (a1\<lparr>a_deferred_transfer := None\<rparr>) | None \<Rightarrow> a1)"
    using True by (simp add: on_ready_point_def a1_def Let_def split: option.split)
  show ?thesis
  proof (cases "a_deferred_transfer a1")
    case None
    then show ?thesis unfolding o using a1 g True by (auto simp: actor_inv_def live_ok_def)
  next
    case (Some q)
    have "actor_inv (start_transfer e q (a1\<lparr>a_deferred_transfer := None\<rparr>))"
      using a1 g True by (intro start_transfer_inv [of _ g]) simp_all
    then show ?thesis unfolding o using Some by simp
  qed
qed

lemma on_released_inv:
  assumes i: "actor_inv a" and n: "a_stage a \<noteq> StageDone"
  shows "actor_inv (on_released e name a)"
proof -
  obtain g where g: "life_of_log (a_log a) = Some (life_of_record (a_record a), g)"
      "live_ok (life_of_record (a_record a)) g a"
    using actor_invE [OF i n] by blast
  show ?thesis
  proof (cases "a_pending a")
    case None
    then show ?thesis using i by (simp add: on_released_def)
  next
    case (Some p)
    note d = on_released_def Some
    show ?thesis
    proof (cases p)
      case PendingDecide
      have "actor_inv (begin_sync (a\<lparr>a_pending := None\<rparr>))" if "a_stage a = StageDeciding"
        using g that by (auto simp: actor_inv_def live_ok_def begin_sync_def operation_step_def)
      then show ?thesis using i PendingDecide by (simp add: d)
    next
      case (PendingTransferCommit q)
      have "actor_inv (commit_transfer e q (a\<lparr>a_pending := None\<rparr>))"
        using g Some PendingTransferCommit by (intro commit_transfer_inv [of _ g]) (auto simp: live_ok_def)
      then show ?thesis using i PendingTransferCommit by (simp add: d)
    next
      case PendingTransferRelease
      have "actor_inv (release_transfer e (a\<lparr>a_pending := None\<rparr>))"
        using g n Some PendingTransferRelease
        by (intro release_transfer_inv) (auto simp: live_ok_def split: Stage.splits)
      then show ?thesis using i PendingTransferRelease by (simp add: d)
    next
      case (PendingTransferAck b)
      have "actor_inv (finish_transfer e b (a\<lparr>a_pending := None\<rparr>))"
        using g Some PendingTransferAck by (intro finish_transfer_inv [of _ g]) (auto simp: live_ok_def)
      then show ?thesis using i PendingTransferAck by (simp add: d)
    qed
  qed
qed

lemma launched_not_deciding:
  assumes "actor_inv a" and "op_state (a_record a) = StLaunched"
  shows "a_stage a \<noteq> StageDeciding"
proof
  assume "a_stage a = StageDeciding"
  then have "life_of_record (a_record a) = LPending" using deciding_life [OF assms(1)] by blast
  then show False using assms(2) by (auto simp: life_of_record_def elim: record_life.elims)
qed

lemma on_shutdown_inv:
  assumes i: "actor_inv a" and n: "a_stage a \<noteq> StageDone"
  shows "actor_inv (on_shutdown e a)"
proof (cases "op_state (a_record a)")
  case StLaunched
  then show ?thesis using retire_inv [OF i n] launched_not_deciding [OF i] by (simp add: on_shutdown_def)
next
  case StPending
  have "actor_inv (cancel_before_launch e c q ob a)" if "a_stage a = StageDeciding" for c q ob
    using deciding_life [OF i that] cancel_inv by metis
  then show ?thesis using i StPending by (simp add: on_shutdown_def)
next
  case StTransferred
  have "actor_inv (logged SentExternalKill a)"
    by (rule neutral_inv [OF i n])
       (use n StTransferred is_transferred_life [of a] in
         \<open>auto simp: operation_step_def live_ok_def is_transferred_def split: Stage.splits\<close>)
  then show ?thesis using StTransferred by (simp add: on_shutdown_def)
qed (use i in \<open>simp_all add: on_shutdown_def\<close>)

lemma on_synced_inv:
  assumes i: "actor_inv a" and d: "a_stage a = StageDeciding"
  shows "actor_inv (actor_decide e (a\<lparr>a_syncing := False\<rparr>))"
proof -
  have "actor_inv (a\<lparr>a_syncing := False\<rparr>)" by (rule neutral_inv [OF i]) (simp_all add: d)
  then obtain g where "life_of_log (a_log (a\<lparr>a_syncing := False\<rparr>)) = Some (LPending, g)"
      "life_of_record (a_record (a\<lparr>a_syncing := False\<rparr>)) = LPending" "live_ok LPending g (a\<lparr>a_syncing := False\<rparr>)"
    using deciding_life [of "a\<lparr>a_syncing := False\<rparr>"] d by auto
  then show ?thesis using d by (intro decide_inv) auto
qed

lemma actor_turn_inv:
  assumes "actor_inv a"
  shows "actor_inv (actor_turn e ev a)"
proof (cases "a_stage a = StageDone")
  case True
  then show ?thesis using assms by (simp add: actor_turn_def)
next
  case False
  note all = on_owner_inv [OF assms False] on_commit_inv [OF assms False] on_completed_inv [OF assms False]
    on_ack_inv [OF assms False] on_ready_point_inv [OF assms False] on_released_inv [OF assms False]
    on_shutdown_inv [OF assms False] on_synced_inv [OF assms] retire_inv [OF assms False launched_not_deciding [OF assms]]
  show ?thesis using False all assms by (cases ev) (simp_all add: actor_turn_def on_event_def)
qed

section \<open>Every run\<close>

text \<open>
  An actor begins over a record read from the store, which names this daemon as producer and which nobody began to
  retire: a recovery that does takes the writer of the record away.
\<close>

definition actor_begins :: "Actor \<Rightarrow> bool" where
  "actor_begins a \<longleftrightarrow>
     (\<exists>sha digest name me disk r e a0. read_record (ae_text e) False disk = Inr (Some r)
        \<and> actor_claim sha digest name me disk r = Some a0 \<and> op_retirement r = None \<and> a = actor_start e a0)"

definition actor_steps :: "Actor \<Rightarrow> Actor \<Rightarrow> bool" where
  "actor_steps a b \<longleftrightarrow> (\<exists>e ev. b = actor_turn e ev a)"

lemma claim_inv:
  assumes "actor_claim sha digest name me disk r = Some a" and "op_retirement r = None"
  shows "actor_inv (actor_start e a)"
proof -
  have f: "a_stage a = StageDeciding" "a_log a = []" "a_record a = r" "a_tickets a = []" "a_deferred_transfer a = None"
      "a_pending a = None" "\<not> a_retiring a" "op_phase r = PhDaemonGated" "op_state r = StPending"
    using assms(1) by (auto simp: actor_claim_def split: option.splits if_splits)
  then have "life_of_record r = LPending" by (simp add: life_of_record_def)
  then show ?thesis
    using f assms(2)
    by (auto simp: actor_start_def actor_hold_def begin_sync_def actor_inv_def live_ok_def operation_step_def)
qed

interpretation actor_life: invariant_system actor_begins actor_steps actor_inv
proof
  show "actor_begins a \<Longrightarrow> actor_inv a" for a by (auto simp: actor_begins_def claim_inv)
  show "actor_inv a \<Longrightarrow> actor_steps a b \<Longrightarrow> actor_inv b" for a b by (auto simp: actor_steps_def actor_turn_inv)
qed

lemma log_prefix:
  assumes "life_of_log (xs @ x # ys) = Some s"
  obtains t u where "life_of_log xs = Some t" "operation_step t x = Some u" "life_of_log (xs @ [x]) = Some u"
proof -
  have stuck: "foldl (\<lambda>s x. Option.bind s (\<lambda>s. operation_step s x)) None zs = None" for zs by (induction zs) auto
  have "life_of_log (xs @ x # ys) = foldl (\<lambda>s x. Option.bind s (\<lambda>s. operation_step s x)) (life_of_log (xs @ [x])) ys"
    by (simp add: life_of_log_def)
  then obtain u where "life_of_log (xs @ [x]) = Some u" using assms stuck by (cases "life_of_log (xs @ [x])") auto
  then show thesis using that by (cases "life_of_log xs") auto
qed

lemma committed_before:
  assumes "life_of_log (us @ ReleasedGate q # vs) = Some s"
  shows "life_of_log us = Some (LCommitted, False)"
  using assms by (rule log_prefix) (auto simp: operation_step_def split: if_splits)

definition ends_child :: "actor_effect \<Rightarrow> bool" where
  "ends_child x = (case x of ShutGate _ \<Rightarrow> True | KilledSession _ \<Rightarrow> True | UnwoundRow _ \<Rightarrow> True | _ \<Rightarrow> False)"

definition releases_child :: "actor_effect \<Rightarrow> bool" where
  "releases_child x = (case x of ReleasedGate _ \<Rightarrow> True | _ \<Rightarrow> False)"

lemma releases_iff: "releases_child x \<longleftrightarrow> (\<exists>p. x = ReleasedGate p)"
  by (cases x) (simp_all add: releases_child_def)

definition writes_record :: "actor_effect \<Rightarrow> bool" where
  "writes_record x = (case x of WroteOperation _ \<Rightarrow> True | _ \<Rightarrow> False)"

text \<open>What a log says of the life it leads to.\<close>

lemma log_says:
  "life_of_log xs = Some (l, g) \<Longrightarrow>
     (list_ex ends_child xs \<longrightarrow> l = LRetiring \<or> l = LRetired) \<and> (list_ex releases_child xs \<longleftrightarrow> g)"
proof (induction xs arbitrary: l g rule: rev_induct)
  case Nil
  then show ?case by simp
next
  case (snoc x xs)
  then obtain l' g' where p: "life_of_log xs = Some (l', g')" "operation_step (l', g') x = Some (l, g)"
    by (cases "life_of_log xs") auto
  show ?case using snoc.IH [OF p(1)] p(2)
    by (cases l') (auto simp: operation_step_def ends_child_def releases_child_def split: actor_effect.splits if_splits)
qed

lemma log_last_write:
  "life_of_log xs = Some (l, g) \<Longrightarrow> l \<noteq> LPending \<Longrightarrow>
     \<exists>ws r zs. xs = ws @ WroteOperation r # zs \<and> life_of_record r = l \<and> \<not> list_ex writes_record zs"
proof (induction xs arbitrary: l g rule: rev_induct)
  case Nil
  then show ?case by simp
next
  case (snoc x xs)
  then obtain l' g' where p: "life_of_log xs = Some (l', g')" "operation_step (l', g') x = Some (l, g)"
    by (cases "life_of_log xs") auto
  show ?case
  proof (cases "writes_record x")
    case True
    then show ?thesis using p(2) by (force simp: writes_record_def operation_step_def split: actor_effect.splits if_splits)
  next
    case False
    then have "l' = l" using p(2) by (auto simp: writes_record_def operation_step_def split: actor_effect.splits if_splits)
    then obtain ws r zs where "xs = ws @ WroteOperation r # zs" "life_of_record r = l" "\<not> list_ex writes_record zs"
      using snoc.IH [OF p(1)] snoc.prems(2) by blast
    then show ?thesis using False by (intro exI [of _ ws] exI [of _ r] exI [of _ "zs @ [x]"]) simp
  qed
qed

text \<open>
  C12. Whatever arrives in whatever order, and whatever the world answers, the actor leads the life of an operation:
  the effects it has, from the first, are moves of the abstract machine, which ends in the life its record says.
  So a record that is cancelled, finished retiring or settled is never written again; a ticket is granted only while
  the operation is launched and not retiring; the child is ended and the row unwound only after the retirement was
  written, and the child is released only after the commit was.
\<close>

theorem actor_leads_operation_life:
  assumes "reachable actor_begins actor_steps a"
  shows "\<exists>g. life_of_log (a_log a) = Some (life_of_record (a_record a), g)"
  using actor_life.inv_reachable [OF assms] by (auto simp: actor_inv_def)

text \<open>
  C16. A child released to its owner was released once, when the last record written said that the transfer is
  committed; and in no run of the actor is a released child shut, killed or its row unwound, before or after.
\<close>

theorem released_child_stays_released:
  assumes "reachable actor_begins actor_steps a" and "a_log a = xs @ ReleasedGate p # ys"
  shows "(\<exists>ws r zs. xs = ws @ WroteOperation r # zs \<and> op_state r = StTransferred \<and> \<not> list_ex writes_record zs)
    \<and> \<not> list_ex releases_child (xs @ ys) \<and> \<not> list_ex ends_child (xs @ ys)"
proof -
  obtain g where g: "life_of_log (xs @ ReleasedGate p # ys) = Some (life_of_record (a_record a), g)"
    using actor_life.inv_reachable [OF assms(1)] assms(2) by (auto simp: actor_inv_def)
  have x: "life_of_log xs = Some (LCommitted, False)" using committed_before [OF g] .
  have "list_ex releases_child (xs @ ReleasedGate p # ys)" by (simp add: releases_child_def)
  then have "g" using log_says [OF g] by blast
  then have "\<not> list_ex ends_child (xs @ ReleasedGate p # ys)" using log_says [OF g] released_life g by fastforce
  moreover have "\<not> list_ex releases_child xs" using log_says [OF x] by simp
  moreover have "\<not> list_ex releases_child ys"
  proof
    assume "list_ex releases_child ys"
    then obtain q where "ReleasedGate q \<in> set ys"
      by (auto simp: list_ex_iff releases_iff)
    then obtain us vs where "ys = us @ ReleasedGate q # vs" by (meson split_list)
    then have "life_of_log (xs @ ReleasedGate p # us) = Some (LCommitted, False)"
      using committed_before [of "xs @ ReleasedGate p # us"] g by simp
    then show False using log_says by (fastforce simp: releases_child_def)
  qed
  moreover have "\<exists>ws r zs. xs = ws @ WroteOperation r # zs \<and> op_state r = StTransferred \<and> \<not> list_ex writes_record zs"
    using log_last_write [OF x] life_transferred by blast
  ultimately show ?thesis by simp
qed

text \<open>
  A run to the end: the decision, the publication and its ticket, the fork and its ticket, the child that is held, the
  ready point, and the transfer its owner asked for.
\<close>

definition ex_daemon :: ProcessId where
  "ex_daemon = \<lparr>pi_pid = 5, pi_start_token = [], pi_boot_id = [], pi_uid = 0\<rparr>"

definition ex_child :: ProcessId where
  "ex_child = \<lparr>pi_pid = 7, pi_start_token = [], pi_boot_id = [], pi_uid = 0\<rparr>"

definition ex_record :: OperationRecord where
  "ex_record = (reserved [0] \<lparr>en_line = [], en_sha256 = [],
       en_value = JObject [(ustr ''operationId'', JString [1]), (ustr ''runtimeId'', JString [2])], en_operation_id = [1],
       en_owner = [], en_origin = [], en_subject = [], en_runtime_id = [2], en_expected_incarnation = None\<rparr>)
     \<lparr>op_state := StPending, op_phase := PhDaemonGated, op_writer := \<lparr>wr_role = RoleProducer, wr_id = Some ex_daemon\<rparr>,
      op_participants := \<lparr>pa_launcher = Some ex_daemon, pa_producer = Some ex_daemon, pa_child = None\<rparr>\<rparr>"

definition ex_env :: "OperationRecord \<Rightarrow> aenv" where
  "ex_env r =
     \<lparr>ae_text = \<lparr>jt_print = (\<lambda>v. []), jt_read = (\<lambda>bs. Some (raw_of (record_json r)))\<rparr>,
      ae_read_fails = (\<lambda>_. False), ae_fate = (\<lambda>_. WriteDone), ae_now = [9], ae_armed = (\<lambda>_. False),
      ae_creation_lock = True, ae_occupancy = OccAbsent, ae_new_generation = [3], ae_process_id = Some ex_child,
      ae_observed_first = False, ae_after_first = Live, ae_gone_first = False, ae_observed_killed = False,
      ae_after_killed = Live, ae_gone_killed = False, ae_wait_unsupported = False, ae_tries = [], ae_release = True\<rparr>"

definition ex_turn :: "ActorEvent \<Rightarrow> Actor \<Rightarrow> Actor" where
  "ex_turn ev a = actor_turn (ex_env (a_record a)) ev a"

definition ex_start :: Actor where
  "ex_start = actor_start (ex_env ex_record)
     (the (actor_claim (\<lambda>bs. bs) (operation_digest (\<lambda>bs. bs) [1]) [2] ex_daemon (Some []) ex_record))"

definition ex_transferred :: Actor where
  "ex_transferred = foldl (\<lambda>a ev. ex_turn ev a) ex_start
     [EvSynced, EvCommit 1, EvCompleted 1 (Inr CompPublished), EvCommit 2, EvCompleted 2 (Inr (CompForked 7)),
      EvChildAck AckPrepared, EvReadyPoint, EvOwner (InputFrame (FrameCommand (OwnerTransfer [4] [53, 58, 9] [3])))]"

lemmas ex_check = check_def state_ok_def requested_def retirement_done_def retirement_of_def cause_of_def

lemma ex_record_ok:
  "check ex_record = Inr ()" "record_wf ex_record" "op_schema ex_record = RECORD_SCHEMA"
  "op_state ex_record = StPending" "op_retirement ex_record = None" "op_transfer ex_record = None"
  "op_phase ex_record = PhDaemonGated" "op_incarnation ex_record = None" "wr_role (op_writer ex_record) = RoleProducer"
  "wr_id (op_writer ex_record) = Some ex_daemon"
  by (simp_all add: ex_record_def reserved_def ex_check Let_def record_wf_def imap_wf_def)

lemma ex_reads: "read_record (ae_text (ex_env ex_record)) False (Some []) = Inr (Some ex_record)"
  using ex_record_ok by (simp add: read_record_def ex_env_def record_roundtrip raw_of_complete)

lemma ex_turn_steps: "actor_steps a (ex_turn ev a)"
  unfolding actor_steps_def ex_turn_def by blast

lemma ex_begins: "actor_begins ex_start"
    unfolding actor_begins_def ex_start_def
    by (rule exI [of _ "\<lambda>bs. bs"], rule exI [of _ "operation_digest (\<lambda>bs. bs) [1]"], rule exI [of _ "[2]"],
        rule exI [of _ ex_daemon], rule exI [of _ "Some []"], rule exI [of _ ex_record], rule exI [of _ "ex_env ex_record"])
       (use ex_reads in \<open>simp add: actor_claim_def ex_record_def reserved_def value_str_def get_str_def\<close>)

lemma ex_reaches: "reachable actor_begins actor_steps ex_transferred"
proof -
  have "reachable actor_begins actor_steps (foldl (\<lambda>a ev. ex_turn ev a) ex_start evs)" for evs
    by (induction evs rule: rev_induct)
       (auto intro: reachable_init ex_begins elim!: reachable_step simp: ex_turn_steps)
  then show ?thesis unfolding ex_transferred_def .
qed

lemma ex_writes:
  assumes "a_locked a" "a_disk a \<noteq> None" "record_wf (a_record a)" "op_schema (a_record a) = RECORD_SCHEMA"
    "check (a_record a) = Inr ()" "check nxt = Inr ()"
  shows "\<exists>d. actor_write (ex_env (a_record a)) nxt label a =
    (True, logged (WroteOperation (next_revision [9] (a_record a) nxt)) (a\<lparr>a_record := next_revision [9] (a_record a) nxt, a_disk := Some d\<rparr>))"
proof -
  have "read_record (ae_text (ex_env (a_record a))) False (a_disk a) = Inr (Some (a_record a))"
    using assms by (auto simp: read_record_def ex_env_def record_roundtrip raw_of_complete)
  then show ?thesis
    using assms record_eq_refl
    by (intro exI [of _ "encode_record (ae_text (ex_env (a_record a))) (next_revision [9] (a_record a) nxt)"])
       (simp add: actor_write_def write_cas_def ex_env_def Let_def)
qed

definition ex_view :: "Actor \<Rightarrow> OperationRecord \<Rightarrow> Stage \<Rightarrow> Ticket list \<Rightarrow> ChildRecord option \<Rightarrow> bool" where
  "ex_view a r st ts c \<longleftrightarrow> a_record a = r \<and> a_stage a = st \<and> a_tickets a = ts \<and> a_child a = c \<and> a_locked a
     \<and> (\<exists>d. a_disk a = Some d) \<and> \<not> a_retiring a \<and> a_pending a = None \<and> a_deferred_transfer a = None
     \<and> record_wf r \<and> op_schema r = RECORD_SCHEMA \<and> check r = Inr () \<and> a_expected a = None \<and> a_me a = ex_daemon"

definition ex_launched :: OperationRecord where
  "ex_launched = next_revision [9] ex_record
     (ex_record\<lparr>op_state := StLaunched, op_decision := Some (decision_now [9] CauseLaunch None None),
        op_incarnation := Some \<lparr>inc_id = dec 5 @ [58, 9], inc_runtime_id = [2], inc_generation = [3], inc_daemon = ex_daemon,
          inc_child = None\<rparr>\<rparr>)"

definition ex_forking :: OperationRecord where
  "ex_forking = next_revision [9] ex_launched (ex_launched\<lparr>op_phase := PhChildForking\<rparr>)"

definition ex_preparing :: OperationRecord where
  "ex_preparing = next_revision [9] ex_forking (preparing_record ex_child ex_forking)"

definition ex_held :: OperationRecord where
  "ex_held = next_revision [9] ex_preparing (ex_preparing\<lparr>op_phase := PhHeld\<rparr>)"

lemma ex_records_ok:
  "check ex_launched = Inr ()" "record_wf ex_launched" "op_schema ex_launched = RECORD_SCHEMA"
  "check ex_forking = Inr ()" "record_wf ex_forking" "op_schema ex_forking = RECORD_SCHEMA"
  "check ex_preparing = Inr ()" "record_wf ex_preparing" "op_schema ex_preparing = RECORD_SCHEMA"
  "check ex_held = Inr ()" "record_wf ex_held" "op_schema ex_held = RECORD_SCHEMA"
  using ex_record_ok
  by (simp_all add: ex_launched_def ex_forking_def ex_preparing_def ex_held_def preparing_record_def ex_check Let_def
      record_wf_def decision_now_def)

lemma ex_writes_over:
  assumes "ex_view a r st ts c" and "check nxt = Inr ()" and "record_wf nxt" "op_schema nxt = RECORD_SCHEMA"
  obtains b d where "actor_write (ex_env r) nxt label a = (True, b)"
    "b = logged (WroteOperation (next_revision [9] r nxt)) (a\<lparr>a_record := next_revision [9] r nxt, a_disk := Some d\<rparr>)"
    "ex_view b (next_revision [9] r nxt) st ts c"
proof -
  have r: "a_record a = r" using assms(1) by (simp add: ex_view_def)
  obtain d where w: "actor_write (ex_env r) nxt label a =
      (True, logged (WroteOperation (next_revision [9] r nxt)) (a\<lparr>a_record := next_revision [9] r nxt, a_disk := Some d\<rparr>))"
    using ex_writes [of a nxt label] assms(1,2) r by (auto simp: ex_view_def)
  have "ex_view (logged (WroteOperation (next_revision [9] r nxt)) (a\<lparr>a_record := next_revision [9] r nxt, a_disk := Some d\<rparr>))
      (next_revision [9] r nxt) st ts c"
    using assms by (simp add: ex_view_def) (simp add: logged_def)
  then show thesis using that w by blast
qed

lemma ex_frame_view: "ex_view (actor_frame e k m a) r st ts c = ex_view a r st ts c"
  by (simp add: ex_view_def) (simp add: actor_frame_def logged_def Let_def)

lemma ex_env_fields:
  "ae_armed (ex_env r) n = False" "ae_creation_lock (ex_env r)" "ae_occupancy (ex_env r) = OccAbsent" "ae_now (ex_env r) = [9]"
  "ae_new_generation (ex_env r) = [3]" "ae_process_id (ex_env r) = Some ex_child" "ae_release (ex_env r)"
  by (simp_all add: ex_env_def)

definition ex_ticket :: "u64 \<Rightarrow> TicketKind \<Rightarrow> TicketState \<Rightarrow> Ticket" where
  "ex_ticket i k st = \<lparr>t_id = i, t_kind = k, t_state = st\<rparr>"

lemma ex_step0: "ex_view ex_start ex_record StageDeciding [] None \<and> a_syncing ex_start \<and> a_runtime_id ex_start = [2]"
  using ex_record_ok
  by (simp add: ex_start_def actor_claim_def actor_start_def actor_hold_def ex_env_fields begin_sync_def ex_view_def
      logged_def actor_frame_def Let_def ex_record_def reserved_def value_str_def get_str_def)

lemma ex_start_commands: "a_commands ex_start = []"
  by (simp add: ex_start_def actor_claim_def actor_start_def actor_hold_def ex_env_fields begin_sync_def
      ex_record_def reserved_def value_str_def get_str_def)

lemma ex_step1:
  assumes v: "ex_view a ex_record StageDeciding [] None" and s: "a_syncing a" "a_runtime_id a = [2]"
  shows "ex_view (ex_turn EvSynced a) ex_launched StageStarting [ex_ticket 1 TkPublish TsIssued] None
    \<and> a_commands (ex_turn EvSynced a) = a_commands a @ [CmdPublish 1 [3] [9] None]"
proof -
  let ?b = "a\<lparr>a_syncing := False, a_tickets := [ex_ticket 1 TkPublish TsIssued]\<rparr>"
  have "ex_view ?b ex_record StageDeciding [ex_ticket 1 TkPublish TsIssued] None"
    using v by (simp add: ex_view_def)
  moreover have l: "next_revision [9] ex_record (launched_record (ex_env ex_record) None ?b) = ex_launched"
    using v s by (simp add: launched_record_def ex_launched_def ex_view_def ex_env_fields ex_daemon_def)
  then have "check (launched_record (ex_env ex_record) None ?b) = Inr ()" "record_wf (launched_record (ex_env ex_record) None ?b)"
    "op_schema (launched_record (ex_env ex_record) None ?b) = RECORD_SCHEMA"
    using ex_records_ok(1-3) by (metis check_next record_wf_next next_revision_fields(1))+
  ultimately obtain b d where b: "actor_write (ex_env ex_record) (launched_record (ex_env ex_record) None ?b) ''decision'' ?b = (True, b)"
      "ex_view b ex_launched StageDeciding [ex_ticket 1 TkPublish TsIssued] None"
    using ex_writes_over [of ?b ex_record StageDeciding "[ex_ticket 1 TkPublish TsIssued]" None] l by metis
  have "issue_ticket TkPublish (a\<lparr>a_syncing := False\<rparr>) = (1, ?b)"
    using v by (simp add: issue_ticket_def ex_ticket_def ex_view_def)
  then have "ex_turn EvSynced a = commanded (CmdPublish 1 [3] [9] None)
      (actor_frame (ex_env ex_record) ''decision'' (decision_extra (op_decision ex_launched)) (b\<lparr>a_generation := [3], a_stage := StageStarting\<rparr>))"
    using v s b by (simp add: ex_turn_def actor_turn_def on_event_def actor_decide_def ex_env_fields ex_view_def occupancy_rule_def)
  moreover have "a_commands b = a_commands a"
    using b(1) by (cases rule: actor_write_cases [of "ex_env ex_record" "launched_record (ex_env ex_record) None ?b" "''decision''" ?b]) auto
  ultimately show ?thesis using b(2) by (simp add: ex_view_def commanded_def actor_frame_def logged_def Let_def)
qed

lemma ex_grant:
  assumes v: "ex_view a r st ts c" and n: "st \<noteq> StageDone" and t: "find_ticket i a = Some t" "t_state t = TsIssued"
  shows "ex_view (ex_turn (EvCommit i) a) r st (update_ticket i TsCommitted ts) c"
  using v n t
  by (simp add: ex_turn_def actor_turn_def on_event_def on_commit_def ex_view_def Let_def)
     (simp add: logged_def set_ticket_def)

lemma ex_step3:
  assumes v: "ex_view a ex_launched StageStarting [ex_ticket 1 TkPublish TsCommitted] None"
  shows "ex_view (ex_turn (EvCompleted 1 (Inr CompPublished)) a) ex_forking StageStarting
    [ex_ticket 1 TkPublish TsCompleted, ex_ticket 2 TkForkChild TsIssued] None"
proof -
  let ?ts = "[ex_ticket 1 TkPublish TsCompleted, ex_ticket 2 TkForkChild TsIssued]"
  let ?a1 = "logged ReleasedCreationLock (set_ticket 1 TsCompleted a)"
  let ?b = "?a1\<lparr>a_tickets := ?ts\<rparr>"
  have b: "ex_view ?b ex_launched StageStarting ?ts None"
    using v by (simp add: ex_view_def) (simp add: logged_def set_ticket_def)
  moreover have "check (ex_launched\<lparr>op_phase := PhChildForking\<rparr>) = Inr ()" "record_wf (ex_launched\<lparr>op_phase := PhChildForking\<rparr>)"
    "op_schema (ex_launched\<lparr>op_phase := PhChildForking\<rparr>) = RECORD_SCHEMA"
    using ex_records_ok(4-6) by (simp_all add: ex_forking_def)
  ultimately obtain d where d: "actor_write (ex_env ex_launched) (ex_launched\<lparr>op_phase := PhChildForking\<rparr>) ''child-forking'' ?b = (True, d)"
      "ex_view d ex_forking StageStarting ?ts None"
    using ex_writes_over [of ?b] by (metis ex_forking_def)
  have it: "issue_ticket TkForkChild ?a1 = (2, ?b)"
    using v by (simp add: issue_ticket_def ex_view_def set_ticket_def ex_ticket_def logged_def)
  have "find_ticket 1 a = Some (ex_ticket 1 TkPublish TsCommitted)"
    using v by (simp add: find_ticket_def ex_view_def ex_ticket_def)
  moreover have "on_published (ex_env ex_launched) (set_ticket 1 TsCompleted a) = commanded (CmdForkChild 2) d"
    using v b d it by (simp add: on_published_def Let_def ex_view_def)
  ultimately have "ex_turn (EvCompleted 1 (Inr CompPublished)) a = commanded (CmdForkChild 2) d"
    using v d(2) by (simp add: ex_turn_def actor_turn_def on_event_def on_completed_def ex_view_def ex_ticket_def Let_def)
  then show ?thesis using d(2) by (simp add: ex_view_def commanded_def)
qed

lemma ex_step5:
  assumes v: "ex_view a ex_forking StageStarting [ex_ticket 1 TkPublish TsCompleted, ex_ticket 2 TkForkChild TsCommitted] None"
  shows "ex_view (ex_turn (EvCompleted 2 (Inr (CompForked 7))) a) ex_preparing StageStarting
    [ex_ticket 1 TkPublish TsCompleted, ex_ticket 2 TkForkChild TsCompleted] (Some \<lparr>ch_id = Some ex_child, ch_pid = 7\<rparr>)"
proof -
  let ?ts = "[ex_ticket 1 TkPublish TsCompleted, ex_ticket 2 TkForkChild TsCompleted]"
  let ?c = "Some \<lparr>ch_id = Some ex_child, ch_pid = 7\<rparr>"
  let ?b = "(set_ticket 2 TsCompleted a)\<lparr>a_child := ?c\<rparr>"
  have b: "ex_view ?b ex_forking StageStarting ?ts ?c"
    using v by (simp add: ex_view_def) (simp add: set_ticket_def ex_ticket_def)
  moreover have "check (preparing_record ex_child ex_forking) = Inr ()" "record_wf (preparing_record ex_child ex_forking)"
    "op_schema (preparing_record ex_child ex_forking) = RECORD_SCHEMA"
    using ex_records_ok(7-9) by (simp_all add: ex_preparing_def)
  ultimately obtain d where d: "actor_write (ex_env ex_forking) (preparing_record ex_child ex_forking) ''child-preparing'' ?b = (True, d)"
      "ex_view d ex_preparing StageStarting ?ts ?c"
    using ex_writes_over [of ?b] by (metis ex_preparing_def)
  have "find_ticket 2 a = Some (ex_ticket 2 TkForkChild TsCommitted)"
    using v by (simp add: find_ticket_def ex_view_def ex_ticket_def)
  moreover have "on_forked (ex_env ex_forking) 7 (set_ticket 2 TsCompleted a) = d"
    using v d by (simp add: on_forked_def Let_def ex_view_def ex_env_fields)
  ultimately have "ex_turn (EvCompleted 2 (Inr (CompForked 7))) a = d"
    using v d(2) by (simp add: ex_turn_def actor_turn_def on_event_def on_completed_def ex_view_def ex_ticket_def Let_def)
  then show ?thesis using d(2) by simp
qed

lemma ex_step6:
  assumes v: "ex_view a ex_preparing StageStarting ts c"
  shows "ex_view (ex_turn (EvChildAck AckPrepared) a) ex_held StageHeld ts c"
proof -
  have "check (ex_preparing\<lparr>op_phase := PhHeld\<rparr>) = Inr ()" "record_wf (ex_preparing\<lparr>op_phase := PhHeld\<rparr>)"
    "op_schema (ex_preparing\<lparr>op_phase := PhHeld\<rparr>) = RECORD_SCHEMA"
    using ex_records_ok(10-12) by (simp_all add: ex_held_def)
  then obtain d where d: "actor_write (ex_env ex_preparing) (ex_preparing\<lparr>op_phase := PhHeld\<rparr>) ''held'' a = (True, d)"
      "ex_view d ex_held StageStarting ts c"
    using ex_writes_over [OF v] by (metis ex_held_def)
  have "ex_turn (EvChildAck AckPrepared) a =
      commanded CmdReadyPoint (actor_frame (ex_env ex_preparing) ''held'' [] (d\<lparr>a_stage := StageHeld\<rparr>))"
    using v d(1) by (simp add: ex_turn_def actor_turn_def on_event_def on_ack_def ex_view_def)
  then show ?thesis using d(2) by (simp add: ex_view_def commanded_def actor_frame_def logged_def Let_def)
qed

lemma ex_step7:
  assumes v: "ex_view a ex_held StageHeld ts c"
  shows "ex_view (ex_turn EvReadyPoint a) ex_held StageReady ts c"
  using v by (simp add: ex_turn_def actor_turn_def on_event_def on_ready_point_def ex_view_def Let_def)
     (simp add: actor_frame_def logged_def Let_def)

lemma write_extends: "\<exists>zs. a_log (snd (actor_write e nxt label a)) = a_log a @ zs"
  by (rule actor_write_cases [of e nxt label a]) auto

lemma ex_step8:
  assumes v: "ex_view a ex_held StageReady ts (Some \<lparr>ch_id = i, ch_pid = p\<rparr>)"
  shows "\<exists>xs ys. a_log (ex_turn (EvOwner (InputFrame (FrameCommand (OwnerTransfer [4] [53, 58, 9] [3])))) a) = xs @ ReleasedGate p # ys"
proof -
  let ?n = "ex_held\<lparr>op_state := StTransferred, op_transfer := Some \<lparr>tr_request_id = [4], tr_committed_at = [9], tr_released = None\<rparr>\<rparr>"
  have "dec 5 = [53]" by (simp add: dec.simps)
  then have inc: "\<exists>inc. op_incarnation ex_held = Some inc \<and> inc_id inc = [53, 58, 9] \<and> inc_generation inc = [3]"
    and h: "op_phase ex_held = PhHeld" "op_state ex_held = StLaunched"
    by (simp_all add: ex_held_def ex_preparing_def ex_forking_def ex_launched_def preparing_record_def)
  have "check ?n = Inr ()" "record_wf ?n" "op_schema ?n = RECORD_SCHEMA"
    using ex_record_ok
    by (simp_all add: ex_launched_def ex_forking_def ex_preparing_def ex_held_def preparing_record_def ex_check Let_def
      record_wf_def decision_now_def)
  then obtain b d where d: "actor_write (ex_env ex_held) ?n ''transfer-commit'' a = (True, b)"
      "ex_view b (next_revision [9] ex_held ?n) StageReady ts (Some \<lparr>ch_id = i, ch_pid = p\<rparr>)"
    using ex_writes_over [OF v] by metis
  have t: "ex_turn (EvOwner (InputFrame (FrameCommand (OwnerTransfer [4] [53, 58, 9] [3])))) a =
      finish_transfer (ex_env ex_held) True
        (logged (ReleasedGate p) ((logged SentTransferred (b\<lparr>a_transferred := True\<rparr>))\<lparr>a_child := None\<rparr>))"
    using v d inc h
    by (auto simp: ex_turn_def actor_turn_def on_event_def on_owner_def on_transfer_def is_transferred_def ex_view_def
        start_transfer_def commit_transfer_def release_transfer_def actor_hold_def ex_env_fields)
  have l: "\<exists>zs. a_log (finish_transfer e f x) = a_log x @ zs" for e f x
    by (rule exE [OF write_extends [of e "(a_record x)\<lparr>op_writer := writer_none,
            op_transfer := map_option (\<lambda>t. t\<lparr>tr_released := Some f\<rparr>) (op_transfer (a_record x))\<rparr>"
          "''transfer-released''" "logged MarkedTransferred x"]])
       (simp add: finish_transfer_def Let_def actor_frame_def)
  obtain zs where "a_log (finish_transfer (ex_env ex_held) True
        (logged (ReleasedGate p) ((logged SentTransferred (b\<lparr>a_transferred := True\<rparr>))\<lparr>a_child := None\<rparr>)))
      = (a_log b @ [SentTransferred]) @ ReleasedGate p # zs"
    using l [of "ex_env ex_held" True
        "logged (ReleasedGate p) ((logged SentTransferred (b\<lparr>a_transferred := True\<rparr>))\<lparr>a_child := None\<rparr>)"] by auto
  then show ?thesis unfolding t by blast
qed

lemma ex_released: "\<exists>xs ys. a_log ex_transferred = xs @ ReleasedGate 7 # ys"
proof -
  define a1 where "a1 = ex_turn EvSynced ex_start"
  define a2 where "a2 = ex_turn (EvCommit 1) a1"
  define a3 where "a3 = ex_turn (EvCompleted 1 (Inr CompPublished)) a2"
  define a4 where "a4 = ex_turn (EvCommit 2) a3"
  define a5 where "a5 = ex_turn (EvCompleted 2 (Inr (CompForked 7))) a4"
  have v1: "ex_view a1 ex_launched StageStarting [ex_ticket 1 TkPublish TsIssued] None"
    unfolding a1_def using ex_step0 ex_step1 by blast
  have v2: "ex_view a2 ex_launched StageStarting [ex_ticket 1 TkPublish TsCommitted] None"
    unfolding a2_def using ex_grant [OF v1, of 1 "ex_ticket 1 TkPublish TsIssued"] v1
    by (simp add: ex_view_def find_ticket_def ex_ticket_def)
  have v3: "ex_view a3 ex_forking StageStarting [ex_ticket 1 TkPublish TsCompleted, ex_ticket 2 TkForkChild TsIssued] None"
    unfolding a3_def using ex_step3 [OF v2] .
  have v4: "ex_view a4 ex_forking StageStarting [ex_ticket 1 TkPublish TsCompleted, ex_ticket 2 TkForkChild TsCommitted] None"
    unfolding a4_def using ex_grant [OF v3, of 2 "ex_ticket 2 TkForkChild TsIssued"] v3
    by (simp add: ex_view_def find_ticket_def ex_ticket_def)
  show ?thesis
    using ex_step8 [OF ex_step7 [OF ex_step6 [OF ex_step5 [OF v4]]]]
    by (simp add: ex_transferred_def a1_def a2_def a3_def a4_def)
qed

theorem actor_leads_operation_life_witness: "\<exists>g. life_of_log (a_log ex_transferred) = Some (life_of_record (a_record ex_transferred), g)"
  by (rule actor_leads_operation_life [OF ex_reaches])

theorem released_child_stays_released_witness:
  "list_ex releases_child (a_log ex_transferred) \<and> \<not> list_ex ends_child (a_log ex_transferred)"
proof -
  obtain xs ys where l: "a_log ex_transferred = xs @ ReleasedGate 7 # ys" using ex_released by blast
  then show ?thesis
    using released_child_stays_released [OF ex_reaches l] by (simp add: releases_child_def ends_child_def)
qed

end
