(* ===== verification/Operation_Startup.thy ===== *)
theory Operation_Startup
  imports Operation_Life
begin

text \<open>
  The startup worker of a launch operation (\<^verbatim>\<open>Worker\<close> in \<^verbatim>\<open>crates/pty/src/daemon/operation.rs\<close>), and the worker and
  the actor together: the channel of events to the actor, the channel of commands to the worker, and the answer
  the worker waits for. Every interleaving of the two threads and of what the other threads send is a run.
\<close>

section \<open>The worker\<close>

text \<open>
  Where the worker is: at the head of its loop, waiting for an answer, in an effect its ticket was committed for,
  reading the acknowledgement of the child, serving, or returned.
\<close>

datatype worker_point =
    WkIdle
  | WkPublishAsked u64
  | WkPublishing u64
  | WkForkAsked u64
  | WkForking u64
  | WkAcking
  | WkReadyAsked
  | WkServing
  | WkReturned int

record Worker =
  wk_point :: worker_point
  wk_published :: bool
  wk_serving :: "int option"
  wk_generation :: rstr

datatype startup_effect =
    DidPublish u64
  | DidFork u64 int
  | DidEndUnowned u64 int
  | DidNotify

text \<open>How the fork goes once it is committed.\<close>

datatype fork_outcome =
    ForkRefused rstr
  | ForkUnowned int rstr
  | ForkOwned int

text \<open>Both threads. \<open>su_taken\<close> counts the commands the worker has received.\<close>

record Startup =
  su_actor :: Actor
  su_inbox :: "ActorEvent list"
  su_taken :: nat
  su_reply :: "bool option"
  su_worker :: Worker
  su_effects :: "startup_effect list"

definition tell :: "ActorEvent \<Rightarrow> Startup \<Rightarrow> Startup" where
  "tell ev s = s\<lparr>su_inbox := su_inbox s @ [ev]\<rparr>"

definition goes :: "worker_point \<Rightarrow> Startup \<Rightarrow> Startup" where
  "goes p s = s\<lparr>su_worker := (su_worker s)\<lparr>wk_point := p\<rparr>\<rparr>"

definition worker_complete :: "u64 \<Rightarrow> rstr + Completion \<Rightarrow> Startup \<Rightarrow> Startup" where
  "worker_complete ticket result s = tell (EvCompleted ticket result) s"

text \<open>\<open>commit\<close> up to its wait.\<close>

definition worker_commit :: "u64 \<Rightarrow> worker_point \<Rightarrow> Startup \<Rightarrow> Startup" where
  "worker_commit ticket p s = goes p (tell (EvCommit ticket) s)"

text \<open>
  A command, up to the first wait: \<open>prepared\<close> is the outcome of what is prepared before the commit is asked for, which
  is \<open>prepare\<close> for a publication and the building of the specification for a fork.
\<close>

definition worker_takes :: "rstr option \<Rightarrow> WorkerCmd \<Rightarrow> Startup \<Rightarrow> Startup" where
  "worker_takes prepared cmd s =
     (case cmd of
        CmdPublish ticket chosen created predecessor \<Rightarrow>
          (let s1 = s\<lparr>su_worker := (su_worker s)\<lparr>wk_generation := chosen\<rparr>\<rparr> in
           case prepared of
             Some message \<Rightarrow> worker_complete ticket (Inl message) s1
           | None \<Rightarrow> worker_commit ticket (WkPublishAsked ticket) s1)
      | CmdForkChild ticket \<Rightarrow>
          if \<not> wk_published (su_worker s) then worker_complete ticket (Inl (ustr ''nothing was published'')) s
          else
            (case prepared of
               Some message \<Rightarrow> worker_complete ticket (Inl message) s
             | None \<Rightarrow> worker_commit ticket (WkForkAsked ticket) s)
      | CmdReadyPoint \<Rightarrow> goes WkReadyAsked (tell EvReadyPoint s)
      | CmdStop code \<Rightarrow> goes (WkReturned code) s)"

text \<open>The answer to a wait; a ticket that is refused leaves what was published where it is.\<close>

definition worker_answered :: "bool \<Rightarrow> Startup \<Rightarrow> Startup" where
  "worker_answered granted s =
     (case wk_point (su_worker s) of
        WkPublishAsked ticket \<Rightarrow> goes (if granted then WkPublishing ticket else WkIdle) s
      | WkForkAsked ticket \<Rightarrow> goes (if granted then WkForking ticket else WkIdle) s
      | WkReadyAsked \<Rightarrow>
          if \<not> granted then goes WkIdle s
          else
            (case wk_serving (su_worker s) of
               None \<Rightarrow> goes (WkReturned 1) s
             | Some p \<Rightarrow>
                 goes WkServing
                   (s\<lparr>su_worker := (su_worker s)\<lparr>wk_serving := None\<rparr>, su_effects := su_effects s @ [DidNotify]\<rparr>))
      | _ \<Rightarrow> s)"

definition worker_publishes :: "rstr option \<Rightarrow> u64 \<Rightarrow> Startup \<Rightarrow> Startup" where
  "worker_publishes failed ticket s =
     (let s1 = goes WkIdle s in
      case failed of
        Some message \<Rightarrow> worker_complete ticket (Inl message) s1
      | None \<Rightarrow>
          worker_complete ticket (Inr CompPublished)
            (s1\<lparr>su_worker := (su_worker s1)\<lparr>wk_published := True\<rparr>, su_effects := su_effects s1 @ [DidPublish ticket]\<rparr>))"

definition worker_forks :: "fork_outcome \<Rightarrow> u64 \<Rightarrow> Startup \<Rightarrow> Startup" where
  "worker_forks outcome ticket s =
     (case outcome of
        ForkRefused message \<Rightarrow> worker_complete ticket (Inl message) (goes WkIdle s)
      | ForkUnowned p message \<Rightarrow>
          worker_complete ticket (Inl message)
            (goes WkIdle (s\<lparr>su_worker := (su_worker s)\<lparr>wk_published := False\<rparr>,
                            su_effects := su_effects s @ [DidFork ticket p, DidEndUnowned ticket p]\<rparr>))
      | ForkOwned p \<Rightarrow>
          worker_complete ticket (Inr (CompForked p))
            (goes WkAcking (s\<lparr>su_worker := (su_worker s)\<lparr>wk_published := False, wk_serving := Some p\<rparr>,
                              su_effects := su_effects s @ [DidFork ticket p]\<rparr>)))"

definition worker_acks :: "Ack \<Rightarrow> Startup \<Rightarrow> Startup" where
  "worker_acks ack s = tell (EvChildAck ack) (goes WkIdle s)"

section \<open>Both threads\<close>

text \<open>The answer the actor sent while it handled an event the worker waits on.\<close>

fun reply_in :: "actor_effect list \<Rightarrow> bool option" where
  "reply_in [] = None"
| "reply_in (RepliedCommit _ b # _) = Some b"
| "reply_in (RepliedReady b # _) = Some b"
| "reply_in (_ # xs) = reply_in xs"

definition asks :: "ActorEvent \<Rightarrow> bool" where
  "asks ev = (case ev of EvCommit _ \<Rightarrow> True | EvReadyPoint \<Rightarrow> True | _ \<Rightarrow> False)"

definition answer_of :: "ActorEvent \<Rightarrow> Actor \<Rightarrow> Actor \<Rightarrow> bool option" where
  "answer_of ev a b = (if asks ev then reply_in (drop (length (a_log a)) (a_log b)) else None)"

definition waiting :: "worker_point \<Rightarrow> bool" where
  "waiting p = (case p of WkPublishAsked _ \<Rightarrow> True | WkForkAsked _ \<Rightarrow> True | WkReadyAsked \<Rightarrow> True | _ \<Rightarrow> False)"

text \<open>What the control channel, the signals, the tests' barriers and the serving daemon send.\<close>

definition outside :: "ActorEvent \<Rightarrow> bool" where
  "outside ev =
     (case ev of EvOwner _ \<Rightarrow> True | EvSynced \<Rightarrow> True | EvChildExited \<Rightarrow> True | EvShutdown \<Rightarrow> True | EvReleased _ \<Rightarrow> True
      | _ \<Rightarrow> False)"

text \<open>
  The steps. An actor that is done is gone: the events it did not take are dropped, with the channel of the answer in
  them, so what the worker asks of it is refused, and its end of the commands is closed.
\<close>

inductive startup_step :: "Startup \<Rightarrow> Startup \<Rightarrow> bool" where
  step_outside: "outside ev \<Longrightarrow> startup_step s (tell ev s)"
| step_turn: "su_inbox s = ev # evs \<Longrightarrow> a_stage (su_actor s) \<noteq> StageDone \<Longrightarrow> b = actor_turn e ev (su_actor s) \<Longrightarrow>
    startup_step s (s\<lparr>su_inbox := evs, su_actor := b,
      su_reply := (case answer_of ev (su_actor s) b of None \<Rightarrow> su_reply s | Some r \<Rightarrow> Some r)\<rparr>)"
| step_take: "wk_point (su_worker s) = WkIdle \<Longrightarrow> su_taken s < length (a_commands (su_actor s)) \<Longrightarrow>
    startup_step s (worker_takes prepared (a_commands (su_actor s) ! su_taken s) (s\<lparr>su_taken := Suc (su_taken s)\<rparr>))"
| step_hangup: "wk_point (su_worker s) = WkIdle \<Longrightarrow> su_taken s = length (a_commands (su_actor s)) \<Longrightarrow>
    a_stage (su_actor s) = StageDone \<Longrightarrow> startup_step s (goes (WkReturned 1) s)"
| step_answered: "waiting (wk_point (su_worker s)) \<Longrightarrow> su_reply s = Some r \<Longrightarrow>
    startup_step s (worker_answered r (s\<lparr>su_reply := None\<rparr>))"
| step_drop: "a_stage (su_actor s) = StageDone \<Longrightarrow> startup_step s (s\<lparr>su_inbox := []\<rparr>)"
| step_unanswered: "waiting (wk_point (su_worker s)) \<Longrightarrow> su_reply s = None \<Longrightarrow> a_stage (su_actor s) = StageDone \<Longrightarrow>
    filter asks (su_inbox s) = [] \<Longrightarrow> startup_step s (worker_answered False s)"
| step_publish: "wk_point (su_worker s) = WkPublishing ticket \<Longrightarrow> startup_step s (worker_publishes failed ticket s)"
| step_fork: "wk_point (su_worker s) = WkForking ticket \<Longrightarrow> startup_step s (worker_forks outcome ticket s)"
| step_ack: "wk_point (su_worker s) = WkAcking \<Longrightarrow> startup_step s (worker_acks ack s)"

definition startup_begins :: "Startup \<Rightarrow> bool" where
  "startup_begins s \<longleftrightarrow> actor_begins (su_actor s) \<and> su_inbox s = [] \<and> su_taken s = 0 \<and> su_reply s = None
     \<and> su_worker s = \<lparr>wk_point = WkIdle, wk_published = False, wk_serving = None, wk_generation = []\<rparr> \<and> su_effects s = []"

section \<open>What the actor does with tickets\<close>

definition shape :: "Actor \<Rightarrow> (u64 \<times> TicketKind) list" where
  "shape a = map (\<lambda>t. (t_id t, t_kind t)) (a_tickets a)"

fun cmd_ticket :: "WorkerCmd \<Rightarrow> (u64 \<times> TicketKind) list" where
  "cmd_ticket (CmdPublish t _ _ _) = [(t, TkPublish)]"
| "cmd_ticket (CmdForkChild t) = [(t, TkForkChild)]"
| "cmd_ticket _ = []"

definition in_flight :: "u64 \<Rightarrow> Actor \<Rightarrow> bool" where
  "in_flight i a \<longleftrightarrow> (\<exists>t. find_ticket i a = Some t \<and> t_state t = TsCommitted)"

text \<open>No ticket is issued, ordered or taken out of flight, and the record stays consistent.\<close>

definition consistent :: "Actor \<Rightarrow> bool" where
  "consistent a \<longleftrightarrow> check (a_record a) = Inr ()"

lemma consistent_fields [simp]:
  "consistent (commanded c a) = consistent a" "consistent (set_ticket i st a) = consistent a"
  "consistent (logged d a) = consistent a" "consistent (a\<lparr>a_syncing := x\<rparr>) = consistent a"
  by (simp_all add: consistent_def)

definition calm :: "Actor \<Rightarrow> Actor \<Rightarrow> bool" where
  "calm a b \<longleftrightarrow> shape b = shape a \<and> (\<forall>i. in_flight i a \<longrightarrow> in_flight i b)
     \<and> (\<exists>cs. a_commands b = a_commands a @ cs \<and> concat (map cmd_ticket cs) = [])
     \<and> (consistent a \<longrightarrow> consistent b)"

named_theorems calm_rules

lemma calm_refl [simp, calm_rules]: "calm a a" by (simp add: calm_def)

lemma calm_trans: "calm a b \<Longrightarrow> calm b c \<Longrightarrow> calm a c"
  unfolding calm_def by fastforce

lemma calm_same:
  assumes "calm a b" and "a_tickets c = a_tickets b" and "a_commands c = a_commands b" and "a_record c = a_record b"
  shows "calm a c"
  using assms by (simp add: calm_def shape_def in_flight_def find_ticket_def consistent_def)

lemma calm_logged [calm_rules]: "calm a b \<Longrightarrow> calm a (logged x b)" by (erule calm_same) simp_all
lemma calm_frame [calm_rules]: "calm a b \<Longrightarrow> calm a (actor_frame e k m b)" by (erule calm_same) simp_all
lemma calm_reject [calm_rules]: "calm a b \<Longrightarrow> calm a (actor_reject e c q b)" by (erule calm_same) simp_all
lemma calm_stage [calm_rules]: "calm a b \<Longrightarrow> calm a (b\<lparr>a_stage := s\<rparr>)" by (erule calm_same) simp_all
lemma calm_pending [calm_rules]: "calm a b \<Longrightarrow> calm a (b\<lparr>a_pending := s\<rparr>)" by (erule calm_same) simp_all
lemma calm_deferred [calm_rules]: "calm a b \<Longrightarrow> calm a (b\<lparr>a_deferred_transfer := s\<rparr>)" by (erule calm_same) simp_all
lemma calm_child [calm_rules]: "calm a b \<Longrightarrow> calm a (b\<lparr>a_child := s\<rparr>)" by (erule calm_same) simp_all
lemma calm_serving [calm_rules]: "calm a b \<Longrightarrow> calm a (b\<lparr>a_serving := s\<rparr>)" by (erule calm_same) simp_all
lemma calm_syncing [calm_rules]: "calm a b \<Longrightarrow> calm a (b\<lparr>a_syncing := s\<rparr>)" by (erule calm_same) simp_all
lemma calm_retiring [calm_rules]: "calm a b \<Longrightarrow> calm a (b\<lparr>a_retiring := s\<rparr>)" by (erule calm_same) simp_all
lemma calm_transferred [calm_rules]: "calm a b \<Longrightarrow> calm a (b\<lparr>a_transferred := s\<rparr>)" by (erule calm_same) simp_all
lemma calm_published [calm_rules]: "calm a b \<Longrightarrow> calm a (b\<lparr>a_published := s\<rparr>)" by (erule calm_same) simp_all
lemma calm_locked [calm_rules]: "calm a b \<Longrightarrow> calm a (b\<lparr>a_locked := s\<rparr>)" by (erule calm_same) simp_all

lemma calm_if [calm_rules]: "calm a x \<Longrightarrow> calm a y \<Longrightarrow> calm a (if c then x else y)" by simp

lemma calm_option [calm_rules]: "calm a x \<Longrightarrow> (\<And>v. calm a (f v)) \<Longrightarrow> calm a (case opt of None \<Rightarrow> x | Some v \<Rightarrow> f v)"
  by (cases opt) simp_all

lemma calm_commanded [calm_rules]:
  "calm a b \<Longrightarrow> cmd_ticket c = [] \<Longrightarrow> calm a (commanded c b)"
  by (auto simp: calm_def shape_def in_flight_def find_ticket_def consistent_def)

lemma calm_end: "calm a b \<Longrightarrow> calm a (actor_end code b)"
  by (auto simp: actor_end_def Let_def intro!: calm_rules)

lemma calm_abandon [calm_rules]: "calm a b \<Longrightarrow> calm a (actor_abandon b)"
  by (simp add: actor_abandon_def calm_end)

lemma calm_finish [calm_rules]: "calm a b \<Longrightarrow> calm a (actor_finish code b)"
  by (simp add: actor_finish_def calm_end)

lemma calm_write:
  assumes "actor_write e n l b = (r, c)" and "calm a b"
  shows "calm a c"
  using assms
  by (cases rule: actor_write_cases [of e n l b])
     (auto simp: calm_def shape_def in_flight_def find_ticket_def consistent_def)

lemma calm_write_case [calm_rules]:
  assumes "calm a b" and "\<And>c. calm a c \<Longrightarrow> calm a (f c)" and "\<And>c. calm a c \<Longrightarrow> calm a (g c)"
  shows "calm a (case actor_write e n l b of (False, c) \<Rightarrow> f c | (True, c) \<Rightarrow> g c)"
    "calm a (case actor_write e n l b of (True, c) \<Rightarrow> g c | (False, c) \<Rightarrow> f c)"
  using assms calm_write [of e n l b _ _ a] by (auto split: prod.split bool.split)

lemma calm_hold_case [calm_rules]:
  assumes "calm a b" and "\<And>c. calm a c \<Longrightarrow> calm a (f c)" and "\<And>c. calm a c \<Longrightarrow> calm a (g c)"
  shows "calm a (case actor_hold e n p b of (True, c) \<Rightarrow> f c | (False, c) \<Rightarrow> g c)"
  using assms by (auto simp: actor_hold_def intro: calm_pending)

lemma calm_cancel [calm_rules]: "calm a b \<Longrightarrow> calm a (cancel_before_launch e c q ob b)"
  by (auto simp: cancel_before_launch_def intro!: calm_rules)

lemma calm_reject_transfers [calm_rules]: "calm a b \<Longrightarrow> calm a (reject_transfers e b)"
  by (erule calm_same) simp_all

lemma calm_finish_transfer [calm_rules]: "calm a b \<Longrightarrow> calm a (finish_transfer e r b)"
  by (auto simp: finish_transfer_def Let_def intro!: calm_rules calm_write [OF prod.collapse [symmetric]])

lemma calm_release_transfer [calm_rules]: "calm a b \<Longrightarrow> calm a (release_transfer e b)"
  by (cases "a_child b") (auto simp: release_transfer_def intro!: calm_rules)

lemma calm_commit_transfer [calm_rules]: "calm a b \<Longrightarrow> calm a (commit_transfer e q b)"
  by (auto simp: commit_transfer_def Let_def intro!: calm_rules)

lemma calm_start_transfer [calm_rules]: "calm a b \<Longrightarrow> calm a (start_transfer e q b)"
  by (auto simp: start_transfer_def intro!: calm_rules)

lemma calm_retire_child: "retire_child e b = (ev, r, c) \<Longrightarrow> calm a b \<Longrightarrow> calm a c"
  by (auto simp: retire_child_def Let_def split: option.splits prod.splits if_splits intro!: calm_rules)

lemma calm_retire_row: "retire_row e b = (ev, r, c) \<Longrightarrow> calm a b \<Longrightarrow> calm a c"
  by (auto simp: retire_row_def Let_def split: if_splits intro!: calm_rules)

lemma calm_complete [calm_rules]:
  assumes "calm a b"
  shows "calm a (complete_retirement e b)"
proof -
  obtain ev1 r1 c1 where 1: "retire_child e b = (ev1, r1, c1)" by (cases "retire_child e b")
  obtain ev2 r2 c2 where 2: "retire_row e (logged ReleasedCreationLock c1) = (ev2, r2, c2)"
    by (cases "retire_row e (logged ReleasedCreationLock c1)")
  have "calm a c1" using calm_retire_child [OF 1 assms] .
  then have "calm a c2" using calm_retire_row [OF 2] calm_logged by blast
  then show ?thesis using assms
    by (simp only: complete_retirement_def 1 2 prod.case split: if_split) (auto intro!: calm_rules)
qed

lemma revoke_calm: "calm a b \<Longrightarrow> calm a (b\<lparr>a_tickets := revoke_issued (a_tickets b)\<rparr>)"
proof -
  have "map (\<lambda>t. (t_id t, t_kind t)) (revoke_issued ts) = map (\<lambda>t. (t_id t, t_kind t)) ts" for ts
    by (simp add: revoke_issued_def)
  moreover have "find (\<lambda>t. t_id t = i) ts = Some t \<Longrightarrow> t_state t = TsCommitted \<Longrightarrow>
      \<exists>t. find (\<lambda>t. t_id t = i) (revoke_issued ts) = Some t \<and> t_state t = TsCommitted" for i t ts
    by (induction ts) (auto simp: revoke_issued_def split: if_splits)
  ultimately show "calm a b \<Longrightarrow> calm a (b\<lparr>a_tickets := revoke_issued (a_tickets b)\<rparr>)"
    by (fastforce simp: calm_def shape_def in_flight_def find_ticket_def consistent_def)
qed

lemma calm_retire [calm_rules]:
  assumes "calm a b"
  shows "calm a (actor_retire e c q b)"
proof -
  let ?b2 = "(reject_transfers e b)\<lparr>a_tickets := revoke_issued (a_tickets (reject_transfers e b))\<rparr>"
  have b2: "calm a ?b2" using assms by (intro revoke_calm calm_reject_transfers)
  show ?thesis
    unfolding actor_retire_def Let_def by (intro calm_rules b2 assms)
qed

lemma calm_owner_deciding [calm_rules]: "calm a b \<Longrightarrow> calm a (on_owner_deciding e i b)"
  by (auto simp: on_owner_deciding_def split: OwnerInput.split OwnerFrame.split OwnerCommand.split intro!: calm_rules)

lemma calm_transfer [calm_rules]: "calm a b \<Longrightarrow> calm a (on_transfer e q i g b)"
  unfolding on_transfer_def by (intro calm_rules)

lemma calm_owner [calm_rules]:
  assumes "calm a b"
  shows "calm a (on_owner e i b)"
proof -
  have "calm a (on_owner e (InputFrame (FrameCommand c)) b)" for c
    by (cases c) (simp_all only: on_owner_def OwnerInput.case OwnerFrame.case OwnerCommand.case, (intro calm_rules assms)+)
  moreover have "calm a (on_owner e (InputFrame (FrameRejected c q)) b)" "calm a (on_owner e (InputFrame FrameMalformed) b)"
    "calm a (on_owner e InputEof b)" for c q
    by (simp_all only: on_owner_def OwnerInput.case OwnerFrame.case Let_def, (intro calm_rules assms)+)
  ultimately show ?thesis by (cases i; cases "case i of InputFrame f \<Rightarrow> f | _ \<Rightarrow> FrameMalformed") auto
qed

lemma calm_ack [calm_rules]: "calm a b \<Longrightarrow> calm a (on_ack e k b)"
  by (cases k; simp only: on_ack_def Ack.case; intro calm_rules) simp_all

lemma calm_ready_point [calm_rules]: "calm a b \<Longrightarrow> calm a (on_ready_point e b)"
  unfolding on_ready_point_def Let_def by (intro calm_rules)

lemma calm_released [calm_rules]: "calm a b \<Longrightarrow> calm a (on_released e n b)"
  by (cases "a_pending b"; cases "the (a_pending b)"; simp only: on_released_def begin_sync_def option.case option.sel Pending.case;
      intro calm_rules)

lemma calm_shutdown [calm_rules]: "calm a b \<Longrightarrow> calm a (on_shutdown e b)"
  by (cases "op_state (a_record b)"; simp only: on_shutdown_def OperationState.case; intro calm_rules)

lemma find_update:
  "find (\<lambda>t. t_id t = j) (update_ticket i st ts) =
     map_option (\<lambda>t. if j = i then t\<lparr>t_state := st\<rparr> else t) (find (\<lambda>t. t_id t = j) ts)"
  by (induction ts) (auto simp: option.map_ident)

lemma shape_update [simp]: "shape (set_ticket i st a) = shape a"
proof -
  have "map (\<lambda>t. (t_id t, t_kind t)) (update_ticket i st ts) = map (\<lambda>t. (t_id t, t_kind t)) ts" for ts
    by (induction ts) auto
  then show ?thesis by (simp add: shape_def set_ticket_def)
qed

lemma find_set_ticket:
  "find_ticket j (set_ticket i st a) = map_option (\<lambda>t. if j = i then t\<lparr>t_state := st\<rparr> else t) (find_ticket j a)"
  by (simp add: find_ticket_def set_ticket_def find_update)

lemma set_ticket_commands [simp]: "a_commands (set_ticket i st a) = a_commands a"
  by (simp add: set_ticket_def)

lemma calm_commit: "calm a (on_commit i a)"
proof (cases "find_ticket i a")
  case None
  then show ?thesis by (auto simp: on_commit_def intro!: calm_rules)
next
  case (Some t)
  have c: "calm a (set_ticket i TsCommitted a)"
    by (force simp: calm_def in_flight_def find_set_ticket consistent_def)
  have r: "calm a (set_ticket i TsRevoked a)" if "t_state t = TsIssued"
    using that Some by (force simp: calm_def in_flight_def find_set_ticket consistent_def)
  show ?thesis using c r
    by (auto simp: on_commit_def Some Let_def intro!: calm_rules)
qed

text \<open>The answer to a commit is the last thing the actor did, and a granted ticket is in flight.\<close>

lemma commit_answer:
  obtains granted where "a_log (on_commit i a) = a_log a @ [RepliedCommit i granted]"
    "granted \<Longrightarrow> in_flight i (on_commit i a)"
proof (cases "find_ticket i a")
  case None
  then show ?thesis using that [of False] by (simp add: on_commit_def)
next
  case (Some t)
  show ?thesis
  proof (cases "t_state t = TsIssued \<and> \<not> a_retiring a")
    case True
    then have "in_flight i (on_commit i a)"
      using Some by (simp add: on_commit_def Let_def in_flight_def find_ticket_def set_ticket_def find_update)
    then show ?thesis using that [of True] True Some by (simp add: on_commit_def Let_def)
  next
    case False
    then show ?thesis using that [of False] Some by (auto simp: on_commit_def)
  qed
qed

text \<open>At most one ticket is added, with its command or without.\<close>

definition issues :: "(u64 \<times> TicketKind) list \<Rightarrow> Actor \<Rightarrow> Actor \<Rightarrow> bool" where
  "issues new a b \<longleftrightarrow> shape b = shape a @ new \<and> (consistent a \<longrightarrow> consistent b)
     \<and> (\<exists>cs. a_commands b = a_commands a @ cs \<and> concat (map cmd_ticket cs) \<in> {[], new})"

lemma calm_issues: "calm a b \<Longrightarrow> issues [] a b"
  by (auto simp: calm_def issues_def)

lemma issues_calm: "issues new a b \<Longrightarrow> calm b c \<Longrightarrow> issues new a c"
  unfolding issues_def calm_def by fastforce

lemma find_prefix: "find P xs = Some x \<Longrightarrow> find P (xs @ ys) = Some x"
  by (induction xs) auto

lemma issue_calm:
  assumes "issue_ticket k a = (i, b)"
  shows "shape b = shape a @ [(i, k)]" "i = of_nat (length (a_tickets a)) + 1" "a_commands b = a_commands a"
    "in_flight j a \<Longrightarrow> in_flight j b" "consistent b = consistent a"
  using assms by (auto simp: consistent_def issue_ticket_def Let_def shape_def in_flight_def find_ticket_def find_prefix)

text \<open>The decision issues the ticket of the publication, its completion that of the fork.\<close>

lemma decide_issues:
  assumes "a_tickets a = []"
  obtains new where "issues new a (actor_decide e a)" "new = [] \<or> new = [(1, TkPublish)]"
proof -
  have c: "calm a (cancel_before_launch e x q ob a)" for x q ob by (simp add: calm_rules)
  obtain i a1 where it: "issue_ticket TkPublish a = (i, a1)" by fastforce
  note f = issue_calm [OF it]
  have i: "i = 1" using f(2) assms by simp
  have "\<exists>new. issues new a (actor_decide e a) \<and> (new = [] \<or> new = [(1, TkPublish)])"
  proof (cases "ae_creation_lock e")
    case False
    then show ?thesis using calm_issues [OF c] by (auto simp: actor_decide_def)
  next
    case True
    show ?thesis
    proof (cases "occupancy_rule (ae_occupancy e) (a_expected a)")
      case (Inl r)
      then show ?thesis using calm_issues [OF c] True by (cases r) (auto simp: actor_decide_def)
    next
      case (Inr pred)
      have one: "issues [(1, TkPublish)] a a1" using f i by (simp add: issues_def)
      obtain r b where w: "actor_write e (launched_record e pred a1) ''decision'' a1 = (r, b)" by fastforce
      have b: "calm a1 b" using calm_write [OF w] by simp
      show ?thesis
      proof (cases r)
        case False
        then have "actor_decide e a = actor_abandon b" using True Inr it w by (simp add: actor_decide_def)
        then show ?thesis using issues_calm [OF one calm_abandon [OF b]] by auto
      next
        case l: True
        define b4 where "b4 = actor_frame e ''decision''
            (decision_extra (op_decision (a_record b))) (b\<lparr>a_generation := ae_new_generation e, a_stage := StageStarting\<rparr>)"
        have "actor_decide e a = commanded (CmdPublish i (ae_new_generation e) (ae_now e) pred) b4"
          using True Inr it w l by (simp add: actor_decide_def b4_def Let_def)
        moreover have "calm a1 b4" using b unfolding b4_def by (intro calm_frame) (erule calm_same; simp)
        then have "shape b4 = shape a @ [(1, TkPublish)]" "\<exists>cs. a_commands b4 = a_commands a @ cs \<and> concat (map cmd_ticket cs) = []"
            "consistent a \<longrightarrow> consistent b4"
          using f i by (auto simp: calm_def)
        ultimately have "issues [(1, TkPublish)] a (actor_decide e a)" using i by (auto simp: issues_def shape_def)
        then show ?thesis by blast
      qed
    qed
  qed
  then show thesis using that by blast
qed

lemma published_issues:
  obtains new where "issues new a (on_published e a)" "new = [] \<or> new = [(of_nat (length (shape a)) + 1, TkForkChild)]"
    "\<And>j. in_flight j a \<Longrightarrow> in_flight j (on_published e a)"
proof -
  let ?l = "logged ReleasedCreationLock a"
  obtain i a1 where it: "issue_ticket TkForkChild ?l = (i, a1)" by fastforce
  note f = issue_calm [OF it]
  have l: "calm a ?l" by (simp add: calm_rules)
  obtain r b where w: "actor_write e ((a_record a1)\<lparr>op_phase := PhChildForking\<rparr>) ''child-forking'' a1 = (r, b)" by fastforce
  have b: "calm a1 b" using calm_write [OF w] by simp
  have one: "issues [(i, TkForkChild)] a a1" using f l by (auto simp: issues_def calm_def)
  have i: "i = of_nat (length (shape a)) + 1" using f(2) by (simp add: shape_def)
  have k: "calm a1 c \<Longrightarrow> in_flight j a \<Longrightarrow> in_flight j c" for c j
    using f(4) [of j] l by (simp add: calm_def)
  consider "a_retiring a" | "\<not> a_retiring a" "\<not> r" | "\<not> a_retiring a" r by blast
  then show thesis
  proof cases
    case 1
    then have "on_published e a = ?l" by (simp add: on_published_def)
    then show thesis using that [of "[]"] calm_issues [OF l] l by (simp add: calm_def)
  next
    case 2
    then have p: "on_published e a = actor_abandon b" by (simp add: on_published_def it w)
    show thesis
      using that [of "[(i, TkForkChild)]"] issues_calm [OF one calm_abandon [OF b]] k [OF calm_abandon [OF b]] i by (simp add: p)
  next
    case 3
    then have p: "on_published e a = commanded (CmdForkChild i) b" by (simp add: on_published_def it w)
    have "shape b = shape a @ [(i, TkForkChild)]" "\<exists>cs. a_commands b = a_commands a @ cs \<and> concat (map cmd_ticket cs) = []"
        "consistent a \<longrightarrow> consistent b"
      using b f l by (auto simp: calm_def)
    then have "issues [(i, TkForkChild)] a (commanded (CmdForkChild i) b)" by (auto simp: issues_def shape_def)
    moreover have "in_flight j (commanded (CmdForkChild i) b)" if "in_flight j a" for j
      using k [OF b that] by (simp add: in_flight_def find_ticket_def)
    ultimately show thesis using that [of "[(i, TkForkChild)]"] i by (simp add: p)
  qed
qed

lemma calm_forked [calm_rules]: "calm a b \<Longrightarrow> calm a (on_forked e p b)"
  unfolding on_forked_def Let_def by (intro calm_rules)

lemma completed_issues:
  obtains new where "issues new a (on_completed e i r a)"
    "new = [] \<or> (i, TkPublish) \<in> set (shape a) \<and> new = [(of_nat (length (shape a)) + 1, TkForkChild)]"
    "\<And>j. in_flight j a \<Longrightarrow> j \<noteq> i \<Longrightarrow> in_flight j (on_completed e i r a)"
proof (cases "find_ticket i a")
  case None
  then show ?thesis using that [of "[]"] by (simp add: on_completed_def calm_issues)
next
  case (Some t)
  let ?a1 = "set_ticket i TsCompleted a"
  define a2 where "a2 = (case (t_kind t, r) of
                       (TkPublish, Inr _) \<Rightarrow> on_published e ?a1
                     | (TkForkChild, Inr (CompForked p)) \<Rightarrow> on_forked e p ?a1
                     | (_, Inr _) \<Rightarrow> ?a1
                     | (_, Inl message) \<Rightarrow>
                         if \<not> a_retiring ?a1 then actor_retire e None (ustr ''producer:startup-failed'') ?a1 else ?a1)"
  have c: "on_completed e i r a = (if a_retiring a2 \<and> \<not> committed_in_flight a2 then complete_retirement e a2 else a2)"
    unfolding on_completed_def Some Let_def option.case a2_def ..
  have k: "in_flight j ?a1" if "in_flight j a" "j \<noteq> i" for j
    using that by (auto simp: in_flight_def find_set_ticket option.map_ident)
  have t: "(i, t_kind t) \<in> set (shape a)"
    using Some by (force simp: find_ticket_def shape_def find_Some_iff in_set_conv_nth)
  have i1: "issues n ?a1 b \<Longrightarrow> issues n a b" for n b
    by (simp add: issues_def)
  obtain new where n: "issues new a a2" "new = [] \<or> (i, TkPublish) \<in> set (shape a) \<and> new = [(of_nat (length (shape a)) + 1, TkForkChild)]"
    "\<And>j. in_flight j ?a1 \<Longrightarrow> in_flight j a2"
  proof (cases "t_kind t = TkPublish \<and> (\<exists>x. r = Inr x)")
    case True
    then have "a2 = on_published e ?a1" by (auto simp: a2_def)
    then show thesis using published_issues [of ?a1 e] that i1 t True by (metis shape_update)
  next
    case False
    have "calm ?a1 a2"
      unfolding a2_def using False
      by (auto split: TicketKind.split sum.split Completion.split intro!: calm_rules)
    then show thesis using that [of "[]"] i1 [OF calm_issues] by (simp add: calm_def)
  qed
  have c2: "calm a2 (on_completed e i r a)" unfolding c by (intro calm_rules)
  show thesis
    using that [OF issues_calm [OF n(1) c2] n(2)] k n(3) c2 by (simp add: calm_def)
qed

section \<open>Nothing is in flight once the record is closed\<close>

definition closed :: "OperationRecord \<Rightarrow> bool" where
  "closed r \<longleftrightarrow> life_of_record r = LCancelled \<or> life_of_record r = LRetired"

lemma closed_iff:
  "closed r \<longleftrightarrow> op_state r = StCancelled
     \<or> op_state r = StLaunched \<and> (retirement_of r = Some RetVerified \<or> retirement_of r = Some RetIncomplete)"
  unfolding closed_def life_of_record_def
  by (cases "(op_state r, retirement_of r, op_transfer r)" rule: record_life.cases; simp; cases "the (retirement_of r)"; simp)

definition unclosed :: "Actor \<Rightarrow> bool" where
  "unclosed a \<longleftrightarrow> \<not> closed (a_record a)"

definition fence :: "Actor \<Rightarrow> bool" where
  "fence a \<longleftrightarrow> (closed (a_record a) \<longrightarrow> \<not> committed_in_flight a)"

named_theorems open_rules
named_theorems fence_rules

lemma open_same: "unclosed a \<Longrightarrow> a_record b = a_record a \<Longrightarrow> unclosed b" by (simp add: unclosed_def)

lemma fence_same: "fence a \<Longrightarrow> a_record b = a_record a \<Longrightarrow> a_tickets b = a_tickets a \<Longrightarrow> fence b"
  by (simp add: fence_def committed_in_flight_def)

lemma open_fence [fence_rules]: "unclosed a \<Longrightarrow> fence a" by (simp add: unclosed_def fence_def)

lemma open_updates [open_rules]:
  assumes "unclosed a"
  shows "unclosed (logged x a)" "unclosed (commanded c a)" "unclosed (actor_frame e k m a)" "unclosed (actor_reject e co q a)"
    "unclosed (actor_abandon a)" "unclosed (actor_finish code a)" "unclosed (reject_transfers e a)" "unclosed (set_ticket i st a)"
    "unclosed (a\<lparr>a_stage := stg\<rparr>)" "unclosed (a\<lparr>a_pending := pn\<rparr>)" "unclosed (a\<lparr>a_deferred_transfer := df\<rparr>)" "unclosed (a\<lparr>a_child := ch\<rparr>)"
    "unclosed (a\<lparr>a_serving := sv\<rparr>)" "unclosed (a\<lparr>a_retiring := rt\<rparr>)" "unclosed (a\<lparr>a_transferred := tr\<rparr>)" "unclosed (a\<lparr>a_locked := lk\<rparr>)"
    "unclosed (a\<lparr>a_published := pb\<rparr>)" "unclosed (a\<lparr>a_syncing := sy\<rparr>)" "unclosed (a\<lparr>a_tickets := ts\<rparr>)"
    "unclosed (a\<lparr>a_generation := gn\<rparr>)"
  by (rule open_same [OF assms]; simp add: actor_abandon_def actor_finish_def actor_end_def Let_def)+

lemma open_if [open_rules]: "unclosed x \<Longrightarrow> unclosed y \<Longrightarrow> unclosed (if c then x else y)" by simp

lemma open_option [open_rules]: "unclosed x \<Longrightarrow> (\<And>v. unclosed (f v)) \<Longrightarrow> unclosed (case opt of None \<Rightarrow> x | Some v \<Rightarrow> f v)"
  by (cases opt) simp_all

lemma open_write:
  assumes "actor_write e n l b = (r, c)" and "unclosed b" and "\<not> closed n"
  shows "unclosed c"
  using assms
  by (cases rule: actor_write_cases [of e n l b]) (auto simp: unclosed_def closed_def)

lemma open_write_case [open_rules]:
  assumes "unclosed b" and "\<not> closed n" and "\<And>c. unclosed c \<Longrightarrow> unclosed (f c)" and "\<And>c. unclosed c \<Longrightarrow> unclosed (g c)"
  shows "unclosed (case actor_write e n l b of (False, c) \<Rightarrow> f c | (True, c) \<Rightarrow> g c)"
    "unclosed (case actor_write e n l b of (True, c) \<Rightarrow> g c | (False, c) \<Rightarrow> f c)"
  using assms open_write [of e n l b] by (auto split: prod.split bool.split)

lemma fence_write_case:
  assumes "unclosed b" and "\<not> closed n" and "\<And>c. unclosed c \<Longrightarrow> fence (f c)" and "\<And>c. unclosed c \<Longrightarrow> fence (g c)"
  shows "fence (case actor_write e n l b of (False, c) \<Rightarrow> f c | (True, c) \<Rightarrow> g c)"
    "fence (case actor_write e n l b of (True, c) \<Rightarrow> g c | (False, c) \<Rightarrow> f c)"
  using assms open_write [of e n l b] by (auto split: prod.split bool.split)

lemma open_hold_case [open_rules]:
  assumes "unclosed b" and "\<And>c. unclosed c \<Longrightarrow> unclosed (f c)" and "\<And>c. unclosed c \<Longrightarrow> unclosed (g c)"
  shows "unclosed (case actor_hold e n p b of (True, c) \<Rightarrow> f c | (False, c) \<Rightarrow> g c)"
  using assms by (auto simp: actor_hold_def intro: open_rules)

lemma open_finish_transfer [open_rules]:
  assumes "unclosed b"
  shows "unclosed (finish_transfer e r b)"
proof -
  let ?n = "(a_record b)\<lparr>op_writer := writer_none,
                op_transfer := map_option (\<lambda>t. t\<lparr>tr_released := Some r\<rparr>) (op_transfer (a_record b))\<rparr>"
  obtain x c where w: "actor_write e ?n ''transfer-released'' (logged MarkedTransferred b) = (x, c)" by fastforce
  have "\<not> closed ?n" using assms by (simp add: unclosed_def closed_iff retirement_of_def)
  then have "unclosed c" using open_write [OF w] assms by (simp add: open_rules)
  then show ?thesis by (auto simp: finish_transfer_def Let_def w intro!: open_rules)
qed

lemma open_release_transfer [open_rules]: "unclosed b \<Longrightarrow> unclosed (release_transfer e b)"
  by (cases "a_child b") (auto simp: release_transfer_def intro!: open_rules)

lemma open_commit_transfer [open_rules]: "unclosed b \<Longrightarrow> unclosed (commit_transfer e q b)"
  unfolding commit_transfer_def Let_def by (intro open_rules) (simp_all add: closed_iff)

lemma open_start_transfer [open_rules]: "unclosed b \<Longrightarrow> unclosed (start_transfer e q b)"
  unfolding start_transfer_def by (intro open_rules)

lemma open_transfer [open_rules]: "unclosed b \<Longrightarrow> unclosed (on_transfer e q i g b)"
  unfolding on_transfer_def by (intro open_rules)

lemma open_ready_point [open_rules]: "unclosed b \<Longrightarrow> unclosed (on_ready_point e b)"
  unfolding on_ready_point_def Let_def by (intro open_rules)

lemma open_released [open_rules]: "unclosed b \<Longrightarrow> unclosed (on_released e n b)"
  by (cases "a_pending b"; cases "the (a_pending b)"; simp only: on_released_def begin_sync_def option.case option.sel Pending.case;
      intro open_rules)

lemma fence_if [fence_rules]: "fence x \<Longrightarrow> fence y \<Longrightarrow> fence (if c then x else y)" by simp

lemma fence_cancel:
  assumes "a_tickets b = []"
  shows "fence (cancel_before_launch e c q ob b)"
proof -
  have "shape (cancel_before_launch e c q ob b) = shape b" using calm_cancel [of b b] by (simp add: calm_def)
  then show ?thesis using assms by (simp add: fence_def committed_in_flight_def shape_def)
qed

lemma fence_ended: "fence b \<Longrightarrow> fence (actor_abandon b)" "fence b \<Longrightarrow> fence (actor_finish code b)"
  by (erule fence_same; simp add: actor_abandon_def actor_finish_def actor_end_def Let_def)+

lemma fence_frame: "fence b \<Longrightarrow> fence (actor_frame e k m b)" by (erule fence_same) simp_all

lemma fence_complete:
  assumes "fence b" and "a_retiring b \<Longrightarrow> \<not> committed_in_flight b"
  shows "fence (complete_retirement e b)"
proof (cases "\<not> a_retiring b \<or> a_stage b = StageDone")
  case True
  then show ?thesis using assms(1) by (auto simp: complete_retirement_def)
next
  case False
  obtain ev1 r1 c1 where 1: "retire_child e b = (ev1, r1, c1)" "a_tickets c1 = a_tickets b"
    using retire_child_cases [of e b] by metis
  obtain ev2 r2 c2 where 2: "retire_row e (logged ReleasedCreationLock c1) = (ev2, r2, c2)" "a_tickets c2 = a_tickets c1"
    using retire_row_cases [of e "logged ReleasedCreationLock c1"] by (metis logged_fields(6))
  have n: "\<not> committed_in_flight c2" using assms(2) False 1 2 by (simp add: committed_in_flight_def)
  define nxt where "nxt = terminal_retirement (ev1 @ ev2) (r1 \<and> r2) (a_record c2)"
  obtain r c where w: "actor_write e nxt ''retirement-terminal'' c2 = (r, c)" by fastforce
  have "\<not> committed_in_flight c"
    using n w by (cases rule: actor_write_cases [of e nxt "''retirement-terminal''" c2])
      (auto simp: committed_in_flight_def)
  then have "fence c" by (simp add: fence_def)
  then show ?thesis
    using False by (cases r) (simp_all add: complete_retirement_def 1 2 w nxt_def [symmetric] fence_ended fence_frame)
qed

lemma closed_requested: "\<not> closed r \<Longrightarrow> \<not> closed (requested_retirement q r)"
  by (simp add: closed_iff requested_retirement_def retirement_of_def)

lemma fence_retire [fence_rules]:
  assumes "unclosed b"
  shows "fence (actor_retire e c q b)"
proof -
  have r: "\<not> closed (requested_retirement q (a_record b))"
    using assms closed_requested by (simp add: unclosed_def)
  have k: "fence (if \<not> committed_in_flight x then complete_retirement e x else x)" if "unclosed x" for x
    using that fence_complete open_fence by simp
  show ?thesis
    unfolding actor_retire_def Let_def
    by (intro fence_rules fence_write_case k open_rules assms fence_ended) (simp_all add: r)
qed

lemma fence_ack [fence_rules]: "unclosed b \<Longrightarrow> fence (on_ack e k b)"
proof -
  assume b: "unclosed b"
  then have "\<not> closed ((a_record b)\<lparr>op_phase := PhHeld\<rparr>)" by (simp add: unclosed_def closed_iff retirement_of_def)
  with b show ?thesis
    by (cases k; simp only: on_ack_def Ack.case) (intro fence_rules open_rules fence_write_case fence_ended; simp)+
qed

lemma open_published [open_rules]:
  assumes "unclosed b"
  shows "unclosed (on_published e b)"
proof -
  obtain i a1 where it: "issue_ticket TkForkChild (logged ReleasedCreationLock b) = (i, a1)" by fastforce
  have r: "a_record a1 = a_record b" using issue_fields(1) [of TkForkChild "logged ReleasedCreationLock b"] it by simp
  then have "\<not> closed ((a_record a1)\<lparr>op_phase := PhChildForking\<rparr>)" "unclosed a1"
    using assms by (simp_all add: unclosed_def closed_iff retirement_of_def)
  then show ?thesis
    using assms unfolding on_published_def Let_def it prod.case by (intro open_rules)
qed

lemma fence_forked [fence_rules]:
  assumes "unclosed b"
  shows "fence (on_forked e p b)"
proof (cases "ae_process_id e")
  case None
  then show ?thesis using assms by (auto simp: on_forked_def Let_def intro!: fence_rules open_rules)
next
  case (Some i)
  have "\<not> closed (preparing_record i (a_record b))"
    using assms by (simp add: unclosed_def closed_iff retirement_of_def preparing_record_def)
  then show ?thesis
    using assms unfolding on_forked_def Let_def Some option.case
    by (intro fence_rules open_rules fence_write_case fence_ended) simp_all
qed

lemma fence_completed [fence_rules]:
  assumes b: "unclosed b"
  shows "fence (on_completed e i r b)"
proof (cases "find_ticket i b")
  case None
  then show ?thesis using b by (simp add: on_completed_def fence_rules)
next
  case (Some t)
  let ?a1 = "set_ticket i TsCompleted b"
  define a2 where "a2 = (case (t_kind t, r) of
                       (TkPublish, Inr _) \<Rightarrow> on_published e ?a1
                     | (TkForkChild, Inr (CompForked p)) \<Rightarrow> on_forked e p ?a1
                     | (_, Inr _) \<Rightarrow> ?a1
                     | (_, Inl message) \<Rightarrow>
                         if \<not> a_retiring ?a1 then actor_retire e None (ustr ''producer:startup-failed'') ?a1 else ?a1)"
  have c: "on_completed e i r b = (if a_retiring a2 \<and> \<not> committed_in_flight a2 then complete_retirement e a2 else a2)"
    unfolding on_completed_def Some Let_def option.case a2_def ..
  have a1: "unclosed ?a1" using b by (rule open_rules)
  have "fence a2"
    unfolding a2_def using a1 by (auto split: TicketKind.split sum.split Completion.split intro!: fence_rules open_rules)
  moreover from this have "fence (complete_retirement e a2)" if "\<not> committed_in_flight a2"
    using that by (intro fence_complete)
  ultimately show ?thesis unfolding c by simp
qed

lemma fence_owner [fence_rules]:
  assumes "unclosed b" and "a_stage b = StageDeciding \<Longrightarrow> a_tickets b = []"
  shows "fence (on_owner e i b)"
proof (cases "a_stage b = StageDeciding")
  case True
  then have t: "a_tickets b = []" using assms(2) by simp
  have "fence (on_owner_deciding e i b)"
    using t assms(1)
    by (auto simp: on_owner_deciding_def fence_cancel split: OwnerInput.split OwnerFrame.split OwnerCommand.split
        intro!: fence_rules open_rules)
  then show ?thesis using True by (simp add: on_owner_def)
next
  case False
  have "fence (on_owner e (InputFrame (FrameCommand c)) b)" for c
    by (cases c) (simp_all only: on_owner_def False if_False OwnerInput.case OwnerFrame.case OwnerCommand.case,
      (intro fence_rules open_rules assms)+)
  moreover have "fence (on_owner e (InputFrame (FrameRejected c q)) b)" "fence (on_owner e (InputFrame FrameMalformed) b)"
    "fence (on_owner e InputEof b)" for c q
    by (simp_all only: on_owner_def False if_False OwnerInput.case OwnerFrame.case Let_def, (intro fence_rules open_rules assms)+)
  ultimately show ?thesis by (cases i; cases "case i of InputFrame f \<Rightarrow> f | _ \<Rightarrow> FrameMalformed") auto
qed

lemma fence_shutdown [fence_rules]:
  assumes "unclosed b" and "a_stage b = StageDeciding \<Longrightarrow> a_tickets b = []"
  shows "fence (on_shutdown e b)"
proof (cases "op_state (a_record b)")
  case StPending
  then show ?thesis using assms fence_cancel by (simp add: on_shutdown_def fence_rules)
qed (use assms in \<open>simp_all add: on_shutdown_def fence_rules open_rules\<close>)

lemma fence_decide:
  assumes "unclosed b" and "a_tickets b = []" and "op_retirement (a_record b) = None"
  shows "fence (actor_decide e b)"
proof (cases "occupancy_rule (ae_occupancy e) (a_expected b)")
  case (Inl r)
  then show ?thesis using assms(2) by (cases r) (simp add: actor_decide_def fence_cancel)
next
  case (Inr pred)
  obtain i a1 where it: "issue_ticket TkPublish b = (i, a1)" by fastforce
  have "a_record a1 = a_record b" using issue_fields(1) [of TkPublish b] it by simp
  then have "unclosed a1" "\<not> closed (launched_record e pred a1)"
    using assms(1,3) by (simp_all add: unclosed_def closed_iff launched_record_def retirement_of_def)
  then have "fence (actor_decide e b)" if "ae_creation_lock e"
    using that unfolding actor_decide_def Inr it Let_def prod.case sum.case
    by (simp only: not_True_eq_False if_False) (intro fence_rules open_rules fence_write_case fence_ended; simp)
  then show ?thesis using assms(2) by (cases "ae_creation_lock e") (simp_all add: actor_decide_def fence_cancel)
qed

text \<open>An actor that goes on has an open record, and none of its tickets is there before the decision.\<close>

lemma going_on:
  assumes "actor_inv a" and "a_stage a \<noteq> StageDone"
  shows "unclosed a" "a_stage a = StageDeciding \<Longrightarrow> a_tickets a = [] \<and> op_retirement (a_record a) = None"
    "op_state (a_record a) = StLaunched \<Longrightarrow> a_stage a \<noteq> StageDeciding"
proof -
  obtain g where "live_ok (life_of_record (a_record a)) g a" using actor_invE [OF assms] by blast
  then show "unclosed a" "a_stage a = StageDeciding \<Longrightarrow> a_tickets a = [] \<and> op_retirement (a_record a) = None"
    using assms(2) by (auto simp: unclosed_def closed_def live_ok_def split: Stage.splits)
  show "op_state (a_record a) = StLaunched \<Longrightarrow> a_stage a \<noteq> StageDeciding" using launched_not_deciding [OF assms(1)] .
qed

lemma turn_fence:
  assumes "actor_inv a" and "fence a"
  shows "fence (actor_turn e ev a)"
proof (cases "a_stage a = StageDone")
  case True
  then show ?thesis using assms by (simp add: actor_turn_def)
next
  case False
  note g = going_on [OF assms(1) False]
  have "unclosed (on_commit i a)" for i
    using g(1) by (auto simp: on_commit_def Let_def intro!: open_rules split: option.split)
  moreover have "fence (actor_decide e (a\<lparr>a_syncing := False\<rparr>))" if "a_stage a = StageDeciding"
    using g(1) g(2) [OF that] by (intro fence_decide open_rules) simp_all
  moreover have "fence (on_owner e i a)" "fence (on_shutdown e a)" for i using fence_owner fence_shutdown g by auto
  ultimately show ?thesis
    using False g(1) by (cases ev) (simp_all add: actor_turn_def on_event_def fence_rules open_rules)
qed

text \<open>What one event does to the tickets.\<close>

lemma turn_issues:
  assumes "actor_inv a" and "a_stage a \<noteq> StageDone"
  obtains new where "issues new a (actor_turn e ev a)"
    "new = [] \<or> shape a = [] \<and> new = [(1, TkPublish)]
       \<or> (\<exists>i r. ev = EvCompleted i r \<and> (i, TkPublish) \<in> set (shape a) \<and> new = [(of_nat (length (shape a)) + 1, TkForkChild)])"
    "\<forall>j. in_flight j a \<and> (\<forall>r. ev \<noteq> EvCompleted j r) \<longrightarrow> in_flight j (actor_turn e ev a)"
proof (cases "\<exists>i r. ev = EvCompleted i r")
  case True
  then obtain i r where ev: "ev = EvCompleted i r" by blast
  then have t: "actor_turn e ev a = on_completed e i r a" using assms(2) by (simp add: actor_turn_def on_event_def)
  show ?thesis by (rule completed_issues [of a e i r]) (use that t ev in auto)
next
  case False
  show ?thesis
  proof (cases "ev = EvSynced \<and> a_stage a = StageDeciding \<and> a_syncing a")
    case True
    then have t: "actor_turn e ev a = actor_decide e (a\<lparr>a_syncing := False\<rparr>)" and ts: "a_tickets a = []"
      using going_on [OF assms] by (simp_all add: actor_turn_def on_event_def)
    obtain new where n: "issues new (a\<lparr>a_syncing := False\<rparr>) (actor_decide e (a\<lparr>a_syncing := False\<rparr>))" "new = [] \<or> new = [(1, TkPublish)]"
      using decide_issues [of "a\<lparr>a_syncing := False\<rparr>" e] ts by auto
    have "issues new a (actor_turn e ev a)" using n(1) by (simp add: t issues_def shape_def)
    moreover have "\<not> in_flight j a" for j using ts by (simp add: in_flight_def find_ticket_def)
    ultimately show ?thesis using that n(2) ts by (auto simp: shape_def)
  next
    case calm: False
    have "calm a (actor_turn e ev a)"
      unfolding actor_turn_def on_event_def using False calm calm_commit
      by (cases ev) (auto intro!: calm_rules)
    then show ?thesis using that [of "[]"] calm_issues by (simp add: calm_def)
  qed
qed

lemma turn_answer:
  assumes "a_stage a \<noteq> StageDone" and "answer_of (EvCommit i) a (actor_turn e (EvCommit i) a) = Some True"
  shows "in_flight i (actor_turn e (EvCommit i) a)"
proof -
  have t: "actor_turn e (EvCommit i) a = on_commit i a" using assms(1) by (simp add: actor_turn_def on_event_def)
  show ?thesis using assms(2) unfolding t
    by (rule_tac commit_answer [of i a]) (auto simp: answer_of_def asks_def)
qed

text \<open>The record the actor holds, in every run of it.\<close>

interpretation actor_record: invariant_system actor_begins actor_steps "\<lambda>a. actor_inv a \<and> consistent a"
proof
  show "actor_inv a \<and> consistent a" if b: "actor_begins a" for a
  proof -
    obtain sha digest name me disk r e a0 where a: "read_record (ae_text e) False disk = Inr (Some r)"
        "actor_claim sha digest name me disk r = Some a0" "a = actor_start e a0"
      using b by (auto simp: actor_begins_def)
    have "a_record a0 = r" using a(2) by (auto simp: actor_claim_def split: option.splits if_splits)
    then have "consistent a0" using read_record_ok [OF a(1)] by (simp add: consistent_def)
    moreover have "calm a0 a" unfolding a(3) actor_start_def begin_sync_def by (intro calm_rules)
    ultimately show ?thesis using actor_life.inv_init [OF b] by (simp add: calm_def)
  qed
  show "actor_inv b \<and> consistent b" if i: "actor_inv a \<and> consistent a" and s: "actor_steps a b" for a b
  proof -
    obtain e ev where b: "b = actor_turn e ev a" using s by (auto simp: actor_steps_def)
    have "consistent b"
    proof (cases "a_stage a = StageDone")
      case True
      then show ?thesis using i by (simp add: b actor_turn_def)
    next
      case False
      show ?thesis
        using turn_issues [of a e ev] i False unfolding b issues_def by blast
    qed
    then show ?thesis using actor_turn_inv i by (simp add: b)
  qed
qed

text \<open>
  C38. The record the daemon holds is well formed in every state the actor reaches: its state, phase, decision, writer,
  incarnation, retirement and transfer agree as the record's table asks, whatever was refused or failed on the way.
\<close>

theorem actor_record_well_formed:
  assumes "reachable actor_begins actor_steps a"
  shows "check (a_record a) = Inr ()"
  using actor_record.inv_reachable [OF assms] by (simp add: consistent_def)

theorem actor_record_well_formed_witness: "check (a_record ex_transferred) = Inr ()"
  by (rule actor_record_well_formed [OF ex_reaches])

section \<open>The invariant of both threads\<close>

fun busy_ticket :: "worker_point \<Rightarrow> (u64 \<times> TicketKind) list" where
  "busy_ticket (WkPublishAsked t) = [(t, TkPublish)]"
| "busy_ticket (WkPublishing t) = [(t, TkPublish)]"
| "busy_ticket (WkForkAsked t) = [(t, TkForkChild)]"
| "busy_ticket (WkForking t) = [(t, TkForkChild)]"
| "busy_ticket _ = []"

fun completed_ticket :: "ActorEvent \<Rightarrow> u64 list" where
  "completed_ticket (EvCompleted t _) = [t]"
| "completed_ticket _ = []"

definition ordered :: "Startup \<Rightarrow> (u64 \<times> TicketKind) list" where
  "ordered s = concat (map cmd_ticket (drop (su_taken s) (a_commands (su_actor s)))) @ busy_ticket (wk_point (su_worker s))"

definition completing :: "Startup \<Rightarrow> u64 list" where
  "completing s = concat (map completed_ticket (su_inbox s))"

definition ticket_of_actor :: "Startup \<Rightarrow> bool" where
  "ticket_of_actor s \<longleftrightarrow>
     shape (su_actor s) \<in> {[], [(1, TkPublish)], [(1, TkPublish), (2, TkForkChild)]}
     \<and> set (ordered s) \<subseteq> set (shape (su_actor s))
     \<and> (map fst (ordered s) @ completing s = []
        \<or> shape (su_actor s) \<noteq> [] \<and> map fst (ordered s) @ completing s = [of_nat (length (shape (su_actor s)))])"

definition acting :: "worker_point \<Rightarrow> bool option \<Rightarrow> u64 option" where
  "acting p r =
     (case p of
        WkPublishing t \<Rightarrow> Some t
      | WkForking t \<Rightarrow> Some t
      | WkPublishAsked t \<Rightarrow> if r = Some True then Some t else None
      | WkForkAsked t \<Rightarrow> if r = Some True then Some t else None
      | _ \<Rightarrow> None)"

definition question_ok :: "Startup \<Rightarrow> bool" where
  "question_ok s \<longleftrightarrow>
     (filter asks (su_inbox s) = []
      \<or> su_reply s = None \<and> (\<exists>t. filter asks (su_inbox s) = [EvCommit t]
            \<and> (wk_point (su_worker s) = WkPublishAsked t \<or> wk_point (su_worker s) = WkForkAsked t))
      \<or> su_reply s = None \<and> filter asks (su_inbox s) = [EvReadyPoint] \<and> wk_point (su_worker s) = WkReadyAsked)
     \<and> (su_reply s \<noteq> None \<longrightarrow> waiting (wk_point (su_worker s)))"

definition flight_ok :: "Startup \<Rightarrow> bool" where
  "flight_ok s \<longleftrightarrow> (\<forall>t. acting (wk_point (su_worker s)) (su_reply s) = Some t \<longrightarrow> in_flight t (su_actor s))"

definition deeds :: "Startup \<Rightarrow> startup_effect list" where
  "deeds s = filter (\<lambda>x. x \<noteq> DidNotify) (su_effects s)"

definition effects_in_order :: "startup_effect list \<Rightarrow> bool" where
  "effects_in_order xs \<longleftrightarrow> xs = [] \<or> xs = [DidPublish 1] \<or> (\<exists>p. xs = [DidPublish 1, DidFork 2 p])
     \<or> (\<exists>p. xs = [DidPublish 1, DidFork 2 p, DidEndUnowned 2 p])"

definition deeds_ok :: "Startup \<Rightarrow> bool" where
  "deeds_ok s \<longleftrightarrow> effects_in_order (deeds s)
     \<and> (shape (su_actor s) = [] \<or> (1, TkPublish) \<in> set (ordered s) \<longrightarrow> deeds s = [])
     \<and> (wk_published (su_worker s) \<longrightarrow> deeds s = [DidPublish 1])
     \<and> ((\<exists>t. wk_point (su_worker s) = WkForkAsked t \<or> wk_point (su_worker s) = WkForking t) \<longrightarrow> wk_published (su_worker s))"

definition startup_inv :: "Startup \<Rightarrow> bool" where
  "startup_inv s \<longleftrightarrow> actor_inv (su_actor s) \<and> fence (su_actor s) \<and> su_taken s \<le> length (a_commands (su_actor s))
     \<and> ticket_of_actor s \<and> question_ok s \<and> flight_ok s \<and> deeds_ok s"

lemma drop_middle: "xs @ ys @ zs = [n] \<Longrightarrow> xs @ zs = [] \<or> xs @ zs = [n]"
  by (cases xs; cases ys) auto

lemma turn_keeps:
  assumes i: "startup_inv s" and x: "su_inbox s = ev # evs" and n: "a_stage (su_actor s) \<noteq> StageDone"
    and b: "b = actor_turn e ev (su_actor s)"
    and s': "s' = s\<lparr>su_inbox := evs, su_actor := b,
      su_reply := (case answer_of ev (su_actor s) b of None \<Rightarrow> su_reply s | Some r \<Rightarrow> Some r)\<rparr>"
  shows "startup_inv s'"
proof -
  let ?a = "su_actor s"
  have a: "actor_inv ?a" "fence ?a" "su_taken s \<le> length (a_commands ?a)" and tk: "ticket_of_actor s" and q: "question_ok s"
    and fl: "flight_ok s" and dd: "deeds_ok s"
    using i by (simp_all add: startup_inv_def)
  obtain new where new: "issues new ?a b"
      "new = [] \<or> shape ?a = [] \<and> new = [(1, TkPublish)]
       \<or> (\<exists>i r. ev = EvCompleted i r \<and> (i, TkPublish) \<in> set (shape ?a) \<and> new = [(of_nat (length (shape ?a)) + 1, TkForkChild)])"
      "\<forall>j. in_flight j ?a \<and> (\<forall>r. ev \<noteq> EvCompleted j r) \<longrightarrow> in_flight j b"
    by (rule turn_issues [OF a(1) n, of e ev, folded b])
  obtain cs where cs: "a_commands b = a_commands ?a @ cs" "concat (map cmd_ticket cs) \<in> {[], new}"
    and sh: "shape b = shape ?a @ new"
    using new(1) by (auto simp: issues_def)
  let ?rest = "concat (map cmd_ticket (drop (su_taken s) (a_commands ?a)))"
  let ?busy = "busy_ticket (wk_point (su_worker s))"
  have o': "ordered s' = ?rest @ concat (map cmd_ticket cs) @ ?busy" and o: "ordered s = ?rest @ ?busy"
    using cs(1) a(3) by (simp_all add: ordered_def s')
  have c: "completing s = completed_ticket ev @ completing s'" by (simp add: completing_def s' x)
  have work: "map fst (ordered s) @ completing s = []
        \<or> shape ?a \<noteq> [] \<and> map fst (ordered s) @ completing s = [of_nat (length (shape ?a))]"
    and shp: "shape ?a \<in> {[], [(1, TkPublish)], [(1, TkPublish), (2, TkForkChild)]}"
    and sub: "set (ordered s) \<subseteq> set (shape ?a)"
    using tk by (auto simp: ticket_of_actor_def)
  have nc: "ev \<noteq> EvCompleted t r" if "acting (wk_point (su_worker s)) (su_reply s) = Some t" for t r
  proof
    assume "ev = EvCompleted t r"
    moreover have "?busy \<noteq> []"
      using that by (cases "wk_point (su_worker s)") (auto simp: acting_def split: if_splits)
    moreover have "length (ordered s) + length (completing s) \<le> 1"
      using work by (elim disjE conjE; drule_tac f = length in arg_cong; simp)
    ultimately show False using c o by (cases ?busy) auto
  qed
  have "ticket_of_actor s'"
    using new(2)
  proof (elim disjE conjE exE)
    assume "new = []"
    then have same: "ordered s' = ordered s" "shape b = shape ?a" using cs(2) sh o o' by auto
    have "map fst (ordered s) @ completing s' = [] \<or> shape ?a \<noteq> [] \<and> map fst (ordered s) @ completing s' = [of_nat (length (shape ?a))]"
      using work drop_middle [of "map fst (ordered s)" "completed_ticket ev" "completing s'" "of_nat (length (shape ?a))"]
      unfolding c by auto
    then show ?thesis using shp sub by (simp only: ticket_of_actor_def same) (simp add: s' same)
  next
    assume k: "shape ?a = []" "new = [(1, TkPublish)]"
    then have e: "ordered s = []" "completing s' = []" using work c by auto
    then have os: "ordered s' = [] \<or> ordered s' = [(1, TkPublish)]"
      using cs(2) k(2) e(1) unfolding o' o by (metis append_Nil append_Nil2 append_is_Nil_conv insertE singletonD)
    have "su_actor s' = b" "shape b = [(1, TkPublish)]" using sh k by (simp_all add: s')
    then show ?thesis using e(2) os by (auto simp: ticket_of_actor_def)
  next
    fix i r
    assume k: "ev = EvCompleted i r" "(i, TkPublish) \<in> set (shape ?a)" "new = [(of_nat (length (shape ?a)) + 1, TkForkChild)]"
    have w1: "ordered s = []" "completing s' = []" "i = of_nat (length (shape ?a))"
      using work c k(1) by (auto simp: append_eq_Cons_conv)
    have sh1: "shape ?a = [(1, TkPublish)]" using shp w1(3) k(2) by auto
    have os: "ordered s' = [] \<or> ordered s' = [(2, TkForkChild)]"
      using cs(2) k(3) w1(1) sh1 unfolding o' o
      by (metis append_Nil append_Nil2 append_is_Nil_conv insertE singletonD length_Cons list.size(3) of_nat_1 One_nat_def one_add_one)
    have "su_actor s' = b" "shape b = [(1, TkPublish), (2, TkForkChild)]" using sh k(3) sh1 by (simp_all add: s')
    then show ?thesis using w1(2) os by (auto simp: ticket_of_actor_def)
  qed
  moreover have "question_ok s'"
    using q by (cases "asks ev") (auto simp: question_ok_def s' x answer_of_def waiting_def split: option.split)
  moreover have "flight_ok s'"
  proof (cases "\<exists>t. ev = EvCommit t")
    case True
    then obtain t where ev: "ev = EvCommit t" by blast
    then have p: "su_reply s = None" "wk_point (su_worker s) = WkPublishAsked t \<or> wk_point (su_worker s) = WkForkAsked t"
      using q x by (auto simp: question_ok_def asks_def)
    show ?thesis
      using p turn_answer [OF n, of t e] unfolding ev [symmetric] b [symmetric]
      by (auto simp: flight_ok_def acting_def s' split: option.splits if_splits)
  next
    case False
    have "acting (wk_point (su_worker s)) (su_reply s') = acting (wk_point (su_worker s)) (su_reply s)"
    proof (cases "ev = EvReadyPoint")
      case True
      then have "wk_point (su_worker s) = WkReadyAsked" using q x by (auto simp: question_ok_def asks_def)
      then show ?thesis by (simp add: acting_def)
    next
      case f: False
      then have "answer_of ev ?a b = None" using False by (cases ev) (simp_all add: answer_of_def asks_def)
      then show ?thesis by (simp add: s')
    qed
    then show ?thesis using fl new(3) nc by (auto simp: flight_ok_def s')
  qed
  moreover have "deeds_ok s'"
  proof -
    have d: "deeds s' = deeds s" "su_worker s' = su_worker s" by (simp_all add: deeds_def s')
    have "shape ?a = []" if "(1, TkPublish) \<in> set (concat (map cmd_ticket cs))"
    proof -
      have "(1, TkPublish) \<in> set new" using that cs(2) by (metis empty_iff empty_set insertE singletonD)
      then show ?thesis using new(2) by auto
    qed
    then have "shape b = [] \<or> (1, TkPublish) \<in> set (ordered s') \<Longrightarrow> shape ?a = [] \<or> (1, TkPublish) \<in> set (ordered s)"
      unfolding o' o sh set_append by blast
    then have "deeds s = []" if "shape b = [] \<or> (1, TkPublish) \<in> set (ordered s')"
      using that dd unfolding deeds_ok_def by blast
    then show ?thesis using dd by (simp add: deeds_ok_def d) (simp add: s')
  qed
  ultimately show ?thesis
    using actor_turn_inv [OF a(1), of e ev] turn_fence [OF a(1,2), of e ev] a(3) cs(1)
    by (simp add: startup_inv_def s' b)
qed

lemma worker_fields [simp]:
  "su_actor (tell ev s) = su_actor s" "su_taken (tell ev s) = su_taken s" "su_worker (tell ev s) = su_worker s"
  "su_reply (tell ev s) = su_reply s" "su_effects (tell ev s) = su_effects s" "su_inbox (tell ev s) = su_inbox s @ [ev]"
  "su_actor (goes p s) = su_actor s" "su_taken (goes p s) = su_taken s" "su_reply (goes p s) = su_reply s"
  "su_effects (goes p s) = su_effects s" "su_inbox (goes p s) = su_inbox s" "wk_point (su_worker (goes p s)) = p"
  "wk_published (su_worker (goes p s)) = wk_published (su_worker s)" "wk_serving (su_worker (goes p s)) = wk_serving (su_worker s)"
  by (simp_all add: tell_def goes_def)

text \<open>The invariant, over what the worker's steps change.\<close>

definition startup_ok :: "Actor \<Rightarrow> WorkerCmd list \<Rightarrow> ActorEvent list \<Rightarrow> bool option \<Rightarrow> worker_point \<Rightarrow> bool \<Rightarrow> startup_effect list \<Rightarrow> bool" where
  "startup_ok a left inbox reply p published did \<longleftrightarrow>
     (let os = concat (map cmd_ticket left) @ busy_ticket p; es = concat (map completed_ticket inbox) in
      shape a \<in> {[], [(1, TkPublish)], [(1, TkPublish), (2, TkForkChild)]}
      \<and> set os \<subseteq> set (shape a)
      \<and> (map fst os @ es = [] \<or> shape a \<noteq> [] \<and> map fst os @ es = [of_nat (length (shape a))])
      \<and> (filter asks inbox = []
         \<or> reply = None \<and> (\<exists>t. filter asks inbox = [EvCommit t] \<and> (p = WkPublishAsked t \<or> p = WkForkAsked t))
         \<or> reply = None \<and> filter asks inbox = [EvReadyPoint] \<and> p = WkReadyAsked)
      \<and> (reply \<noteq> None \<longrightarrow> waiting p)
      \<and> (\<forall>t. acting p reply = Some t \<longrightarrow> in_flight t a)
      \<and> effects_in_order did
      \<and> (shape a = [] \<or> (1, TkPublish) \<in> set os \<longrightarrow> did = [])
      \<and> (published \<longrightarrow> did = [DidPublish 1])
      \<and> ((\<exists>t. p = WkForkAsked t \<or> p = WkForking t) \<longrightarrow> published))"

lemma startup_inv_ok:
  "startup_inv s \<longleftrightarrow> actor_inv (su_actor s) \<and> fence (su_actor s) \<and> su_taken s \<le> length (a_commands (su_actor s))
     \<and> startup_ok (su_actor s) (drop (su_taken s) (a_commands (su_actor s))) (su_inbox s) (su_reply s)
         (wk_point (su_worker s)) (wk_published (su_worker s)) (deeds s)"
  unfolding startup_inv_def ticket_of_actor_def question_ok_def flight_ok_def deeds_ok_def startup_ok_def Let_def
    ordered_def completing_def by blast

lemma take_keeps:
  assumes i: "startup_ok a (cmd # left) inbox reply WkIdle published did"
  shows "cmd = CmdPublish t g n pr \<Longrightarrow> startup_ok a left (inbox @ [EvCommit t]) reply (WkPublishAsked t) published did"
    and "cmd = CmdForkChild t \<Longrightarrow> published \<Longrightarrow> startup_ok a left (inbox @ [EvCommit t]) reply (WkForkAsked t) published did"
    and "cmd = CmdPublish t g n pr \<or> cmd = CmdForkChild t \<Longrightarrow>
      startup_ok a left (inbox @ [EvCompleted t r]) reply WkIdle published did"
    and "cmd = CmdReadyPoint \<Longrightarrow> startup_ok a left (inbox @ [EvReadyPoint]) reply WkReadyAsked published did"
    and "cmd = CmdStop code \<Longrightarrow> startup_ok a left inbox reply (WkReturned code) published did"
proof -
  have w: "concat (map cmd_ticket left) = [] \<and> concat (map completed_ticket inbox) = []" if "cmd_ticket cmd = [x]" for x
    using i that unfolding startup_ok_def Let_def by (cases "concat (map cmd_ticket left)"; cases "concat (map completed_ticket inbox)") (auto simp del: concat_eq_Nil_conv)
  note d = startup_ok_def Let_def asks_def waiting_def acting_def
  show "cmd = CmdPublish t g n pr \<Longrightarrow> startup_ok a left (inbox @ [EvCommit t]) reply (WkPublishAsked t) published did"
    using i w by (auto simp: d simp del: concat_eq_Nil_conv)
  show "cmd = CmdForkChild t \<Longrightarrow> published \<Longrightarrow> startup_ok a left (inbox @ [EvCommit t]) reply (WkForkAsked t) published did"
    using i w by (auto simp: d simp del: concat_eq_Nil_conv)
  show "cmd = CmdPublish t g n pr \<or> cmd = CmdForkChild t \<Longrightarrow>
      startup_ok a left (inbox @ [EvCompleted t r]) reply WkIdle published did"
    using i w by (auto simp: d simp del: concat_eq_Nil_conv)
  show "cmd = CmdReadyPoint \<Longrightarrow> startup_ok a left (inbox @ [EvReadyPoint]) reply WkReadyAsked published did"
    using i by (auto simp: d)
  show "cmd = CmdStop code \<Longrightarrow> startup_ok a left inbox reply (WkReturned code) published did"
    using i by (auto simp: d)
qed

lemma answered_keeps:
  assumes i: "startup_ok a left inbox reply p published did" and q: "filter asks inbox = []"
    and f: "p \<noteq> WkIdle"
  shows "startup_ok a left inbox None WkIdle published did" and "startup_ok a left inbox None (WkReturned code) published did"
    and "startup_ok a left inbox None WkServing published did"
    and "p = WkPublishAsked t \<Longrightarrow> reply = Some True \<Longrightarrow> startup_ok a left inbox None (WkPublishing t) published did"
    and "p = WkForkAsked t \<Longrightarrow> reply = Some True \<Longrightarrow> startup_ok a left inbox None (WkForking t) published did"
proof -
  have less: "map fst xs @ zs = [] \<or> S \<noteq> [] \<and> map fst xs @ zs = [n]"
    if "map fst (xs @ ys) @ zs = [] \<or> S \<noteq> [] \<and> map fst (xs @ ys) @ zs = [n]" for xs ys and zs :: "u64 list" and n and S :: "(u64 \<times> TicketKind) list"
    using that drop_middle [of "map fst xs" "map fst ys" zs n] by auto
  have idle: "startup_ok a left inbox None p' published did" if "busy_ticket p' = []" "acting p' None = None" "\<forall>t. p' \<noteq> WkForkAsked t \<and> p' \<noteq> WkForking t" for p'
  proof -
    let ?l = "concat (map cmd_ticket left)" and ?e = "concat (map completed_ticket inbox)"
    have o: "map fst (?l @ busy_ticket p) @ ?e = [] \<or> shape a \<noteq> [] \<and> map fst (?l @ busy_ticket p) @ ?e = [of_nat (length (shape a))]"
      and sh: "shape a \<in> {[], [(1, TkPublish)], [(1, TkPublish), (2, TkForkChild)]}" "set (?l @ busy_ticket p) \<subseteq> set (shape a)"
      and d: "effects_in_order did" "shape a = [] \<or> (1, TkPublish) \<in> set (?l @ busy_ticket p) \<longrightarrow> did = []"
        "published \<longrightarrow> did = [DidPublish 1]"
      using i unfolding startup_ok_def Let_def by blast+
    have "set ?l \<subseteq> set (shape a)" "(1, TkPublish) \<in> set ?l \<longrightarrow> did = []" "shape a = [] \<longrightarrow> did = []"
      using sh(2) d(2) by (auto simp del: set_concat)
    then show ?thesis
      unfolding startup_ok_def Let_def that(1) append_Nil2
      using less [OF o] sh(1) d q that(2,3) by (simp del: set_concat map_concat concat_eq_Nil_conv)
  qed
  show "startup_ok a left inbox None WkIdle published did" "startup_ok a left inbox None (WkReturned code) published did"
    "startup_ok a left inbox None WkServing published did"
    by (rule idle; simp add: acting_def)+
  show "p = WkPublishAsked t \<Longrightarrow> reply = Some True \<Longrightarrow> startup_ok a left inbox None (WkPublishing t) published did"
    using i q unfolding startup_ok_def Let_def by (auto simp: acting_def)
  show "p = WkForkAsked t \<Longrightarrow> reply = Some True \<Longrightarrow> startup_ok a left inbox None (WkForking t) published did"
    using i q unfolding startup_ok_def Let_def by (auto simp: acting_def)
qed

lemma publish_keeps:
  assumes i: "startup_ok a left inbox reply (WkPublishing t) published did"
  shows "startup_ok a left (inbox @ [EvCompleted t r]) reply WkIdle published did"
    and "startup_ok a left (inbox @ [EvCompleted t r]) reply WkIdle True (did @ [DidPublish t])"
proof -
  have w: "concat (map cmd_ticket left) = [] \<and> concat (map completed_ticket inbox) = []"
    using i unfolding startup_ok_def Let_def
    by (cases "concat (map cmd_ticket left)"; cases "concat (map completed_ticket inbox)") (auto simp del: concat_eq_Nil_conv)
  note d = startup_ok_def Let_def asks_def waiting_def acting_def effects_in_order_def
  show "startup_ok a left (inbox @ [EvCompleted t r]) reply WkIdle published did"
    using i w by (auto simp: d simp del: concat_eq_Nil_conv)
  show "startup_ok a left (inbox @ [EvCompleted t r]) reply WkIdle True (did @ [DidPublish t])"
    using i w by (auto simp: d simp del: concat_eq_Nil_conv)
qed

lemma fork_keeps:
  assumes i: "startup_ok a left inbox reply (WkForking t) published did"
  shows "startup_ok a left (inbox @ [EvCompleted t r]) reply WkIdle published did"
    and "startup_ok a left (inbox @ [EvCompleted t r]) reply WkIdle False (did @ [DidFork t n, DidEndUnowned t n])"
    and "startup_ok a left (inbox @ [EvCompleted t r]) reply WkAcking False (did @ [DidFork t n])"
proof -
  have w: "concat (map cmd_ticket left) = [] \<and> concat (map completed_ticket inbox) = []"
    using i unfolding startup_ok_def Let_def
    by (cases "concat (map cmd_ticket left)"; cases "concat (map completed_ticket inbox)") (auto simp del: concat_eq_Nil_conv)
  note d = startup_ok_def Let_def asks_def waiting_def acting_def effects_in_order_def
  show "startup_ok a left (inbox @ [EvCompleted t r]) reply WkIdle published did"
    using i w by (auto simp: d simp del: concat_eq_Nil_conv)
  show "startup_ok a left (inbox @ [EvCompleted t r]) reply WkIdle False (did @ [DidFork t n, DidEndUnowned t n])"
    using i w by (auto simp: d simp del: concat_eq_Nil_conv)
  show "startup_ok a left (inbox @ [EvCompleted t r]) reply WkAcking False (did @ [DidFork t n])"
    using i w by (auto simp: d simp del: concat_eq_Nil_conv)
qed

lemma tell_keeps:
  assumes "startup_ok a left inbox reply p published did" and "\<not> asks ev" and "completed_ticket ev = []"
  shows "startup_ok a left (inbox @ [ev]) reply p published did"
  using assms by (simp add: startup_ok_def)

lemma deeds_fields [simp]:
  "deeds (tell ev s) = deeds s" "deeds (goes p s) = deeds s" "deeds (s\<lparr>su_inbox := i\<rparr>) = deeds s"
  "deeds (s\<lparr>su_taken := n\<rparr>) = deeds s" "deeds (s\<lparr>su_reply := r\<rparr>) = deeds s" "deeds (s\<lparr>su_worker := w\<rparr>) = deeds s"
  by (simp_all add: deeds_def tell_def goes_def)

lemma takes_inv:
  assumes i: "startup_inv s" and p: "wk_point (su_worker s) = WkIdle" and l: "su_taken s < length (a_commands (su_actor s))"
  shows "startup_inv (worker_takes prepared (a_commands (su_actor s) ! su_taken s) (s\<lparr>su_taken := Suc (su_taken s)\<rparr>))"
proof -
  let ?cmd = "a_commands (su_actor s) ! su_taken s"
  have dr: "drop (su_taken s) (a_commands (su_actor s)) = ?cmd # drop (Suc (su_taken s)) (a_commands (su_actor s))"
    using l by (simp add: Cons_nth_drop_Suc)
  have a: "actor_inv (su_actor s)" "fence (su_actor s)"
    and ok: "startup_ok (su_actor s) (?cmd # drop (Suc (su_taken s)) (a_commands (su_actor s))) (su_inbox s) (su_reply s) WkIdle
       (wk_published (su_worker s)) (deeds s)"
    using i dr p by (simp_all add: startup_inv_ok)
  note keeps = take_keeps [OF ok]
  show ?thesis
  proof (cases ?cmd)
    case (CmdPublish t g n pr)
    then show ?thesis
      using keeps(1) [OF CmdPublish] keeps(3) a l p
      by (cases prepared) (auto simp: startup_inv_ok worker_takes_def worker_complete_def worker_commit_def Let_def)
  next
    case (CmdForkChild t)
    then show ?thesis
      using keeps(2) [OF CmdForkChild] keeps(3) a l p
      by (cases prepared) (auto simp: startup_inv_ok worker_takes_def worker_complete_def worker_commit_def Let_def)
  next
    case CmdReadyPoint
    then show ?thesis using keeps(4) [OF CmdReadyPoint] a l by (simp add: startup_inv_ok worker_takes_def)
  next
    case (CmdStop c)
    then show ?thesis using keeps(5) [OF CmdStop] a l by (simp add: startup_inv_ok worker_takes_def)
  qed
qed

lemma answered_inv:
  assumes i: "startup_inv s" and w: "waiting (wk_point (su_worker s))" and q: "filter asks (su_inbox s) = []"
    and r: "g \<Longrightarrow> su_reply s = Some True"
  shows "startup_inv (worker_answered g (s\<lparr>su_reply := None\<rparr>))"
proof -
  have a: "actor_inv (su_actor s)" "fence (su_actor s)" "su_taken s \<le> length (a_commands (su_actor s))"
    and ok: "startup_ok (su_actor s) (drop (su_taken s) (a_commands (su_actor s))) (su_inbox s) (su_reply s)
       (wk_point (su_worker s)) (wk_published (su_worker s)) (deeds s)"
    using i by (simp_all add: startup_inv_ok)
  have f: "wk_point (su_worker s) \<noteq> WkIdle" using w by (auto simp: waiting_def)
  note keeps = answered_keeps [OF ok q f]
  have d: "deeds (s\<lparr>su_reply := x, su_worker := y, su_effects := su_effects s @ [DidNotify]\<rparr>) = deeds s" for x y
    by (simp add: deeds_def)
  show ?thesis
    using w a r keeps
    by (cases "wk_point (su_worker s)"; cases g; cases "wk_serving (su_worker s)")
       (simp_all add: startup_inv_ok worker_answered_def waiting_def d)
qed

lemma startup_step_inv:
  assumes "startup_step s t" and i: "startup_inv s"
  shows "startup_inv t"
  using assms(1)
proof cases
  case (step_outside ev)
  then have "\<not> asks ev" "completed_ticket ev = []" by (auto simp: outside_def asks_def split: ActorEvent.splits)
  then show ?thesis using i tell_keeps step_outside by (simp add: startup_inv_ok)
next
  case (step_turn ev evs b e)
  then show ?thesis using turn_keeps [OF i] by blast
next
  case (step_take prepared)
  then show ?thesis using takes_inv [OF i] by blast
next
  case step_hangup
  have ok: "startup_ok (su_actor s) (drop (su_taken s) (a_commands (su_actor s))) (su_inbox s) (su_reply s) WkIdle
       (wk_published (su_worker s)) (deeds s)"
    using i step_hangup by (simp add: startup_inv_ok)
  then have "startup_ok (su_actor s) (drop (su_taken s) (a_commands (su_actor s))) (su_inbox s) (su_reply s) (WkReturned 1)
       (wk_published (su_worker s)) (deeds s)"
    unfolding startup_ok_def Let_def by (simp add: acting_def waiting_def)
  then show ?thesis using i step_hangup by (simp add: startup_inv_ok)
next
  case (step_answered r)
  have "filter asks (su_inbox s) = []" using i step_answered by (auto simp: startup_inv_def question_ok_def)
  then show ?thesis using answered_inv [OF i] step_answered by simp
next
  case step_drop
  have "startup_ok (su_actor s) (drop (su_taken s) (a_commands (su_actor s))) (su_inbox s) (su_reply s)
       (wk_point (su_worker s)) (wk_published (su_worker s)) (deeds s)"
    using i by (simp add: startup_inv_ok)
  then have "startup_ok (su_actor s) (drop (su_taken s) (a_commands (su_actor s))) [] (su_reply s)
       (wk_point (su_worker s)) (wk_published (su_worker s)) (deeds s)"
    unfolding startup_ok_def Let_def
    by (cases "concat (map cmd_ticket (drop (su_taken s) (a_commands (su_actor s))))"; cases "busy_ticket (wk_point (su_worker s))")
       (auto simp del: concat_eq_Nil_conv)
  then show ?thesis using i step_drop by (simp add: startup_inv_ok)
next
  case step_unanswered
  then have "s = s\<lparr>su_reply := None\<rparr>" by simp
  then have "startup_inv (worker_answered False s)" using answered_inv [OF i, of False] step_unanswered by metis
  then show ?thesis using step_unanswered by simp
next
  case (step_publish ticket failed)
  have ok: "startup_ok (su_actor s) (drop (su_taken s) (a_commands (su_actor s))) (su_inbox s) (su_reply s) (WkPublishing ticket)
       (wk_published (su_worker s)) (deeds s)"
    using i step_publish by (simp add: startup_inv_ok)
  have d: "deeds (s\<lparr>su_worker := w, su_effects := su_effects s @ [DidPublish ticket]\<rparr>) = deeds s @ [DidPublish ticket]" for w
    by (simp add: deeds_def)
  show ?thesis
    using publish_keeps [OF ok] i step_publish
    by (cases failed) (auto simp: startup_inv_ok worker_publishes_def worker_complete_def Let_def goes_def tell_def d deeds_def)
next
  case (step_fork ticket outcome)
  have ok: "startup_ok (su_actor s) (drop (su_taken s) (a_commands (su_actor s))) (su_inbox s) (su_reply s) (WkForking ticket)
       (wk_published (su_worker s)) (deeds s)"
    using i step_fork by (simp add: startup_inv_ok)
  show ?thesis
    using fork_keeps [OF ok] i step_fork
    by (cases outcome) (auto simp: startup_inv_ok worker_forks_def worker_complete_def goes_def tell_def deeds_def)
next
  case (step_ack ack)
  have "startup_ok (su_actor s) (drop (su_taken s) (a_commands (su_actor s))) (su_inbox s) (su_reply s) WkAcking
       (wk_published (su_worker s)) (deeds s)"
    using i step_ack by (simp add: startup_inv_ok)
  then have "startup_ok (su_actor s) (drop (su_taken s) (a_commands (su_actor s))) (su_inbox s @ [EvChildAck ack]) (su_reply s) WkIdle
       (wk_published (su_worker s)) (deeds s)"
    unfolding startup_ok_def Let_def by (simp add: acting_def waiting_def asks_def)
  then show ?thesis using i step_ack by (simp add: startup_inv_ok worker_acks_def)
qed

lemma begins_inv:
  assumes "startup_begins s"
  shows "startup_inv s"
proof -
  obtain sha digest name me disk r e a0 where a: "actor_claim sha digest name me disk r = Some a0" "op_retirement r = None"
      "su_actor s = actor_start e a0"
    using assms by (auto simp: startup_begins_def actor_begins_def)
  have f: "a_tickets a0 = []" "a_commands a0 = []"
    using a(1) by (auto simp: actor_claim_def split: option.splits if_splits)
  have "calm a0 (su_actor s)" unfolding a(3) actor_start_def begin_sync_def by (intro calm_rules)
  then have sh: "shape (su_actor s) = []" and ts: "a_tickets (su_actor s) = []"
    and cmds: "concat (map cmd_ticket (a_commands (su_actor s))) = []"
    using f by (auto simp: calm_def shape_def)
  have "actor_inv (su_actor s)" unfolding a(3) by (rule claim_inv [OF a(1,2)])
  moreover have "fence (su_actor s)" using ts by (simp add: fence_def committed_in_flight_def)
  ultimately show ?thesis
    using assms sh cmds
    by (simp add: startup_inv_ok startup_begins_def startup_ok_def acting_def effects_in_order_def deeds_def)
qed

interpretation startup: invariant_system startup_begins startup_step startup_inv
  by unfold_locales (auto intro: begins_inv startup_step_inv)

section \<open>Properties of both threads\<close>

lemma find_ticket_in: "find_ticket i a = Some t \<Longrightarrow> t \<in> set (a_tickets a)"
  by (auto simp: find_ticket_def find_Some_iff)

lemma closed_is_done:
  assumes "startup_inv s" and "closed (a_record (su_actor s))"
  shows "a_stage (su_actor s) = StageDone" and "acting (wk_point (su_worker s)) (su_reply s) = None"
proof -
  show "a_stage (su_actor s) = StageDone"
    using assms going_on(1) [of "su_actor s"] by (auto simp: startup_inv_def unclosed_def)
  have "\<not> in_flight t (su_actor s)" for t
    using assms find_ticket_in by (fastforce simp: startup_inv_def fence_def committed_in_flight_def in_flight_def list_ex_iff)
  then show "acting (wk_point (su_worker s)) (su_reply s) = None"
    using assms(1) by (cases "acting (wk_point (su_worker s)) (su_reply s)") (auto simp: startup_inv_def flight_ok_def)
qed

lemma closed_step:
  assumes "startup_step s t" and "startup_inv s" and "closed (a_record (su_actor s))"
  shows "su_actor t = su_actor s \<and> deeds t = deeds s"
  using assms(1)
proof cases
  case (step_take prepared)
  then show ?thesis
    by (cases "a_commands (su_actor s) ! su_taken s"; cases prepared)
       (auto simp: worker_takes_def worker_complete_def worker_commit_def Let_def)
next
  case (step_answered r)
  then show ?thesis
    by (cases "wk_point (su_worker s)"; cases "wk_serving (su_worker s)") (auto simp: worker_answered_def deeds_def goes_def)
next
  case step_unanswered
  then show ?thesis by (cases "wk_point (su_worker s)") (auto simp: worker_answered_def)
next
  case (step_turn ev evs b e)
  then show ?thesis using closed_is_done(1) [OF assms(2,3)] by simp
next
  case (step_publish ticket failed)
  then show ?thesis using closed_is_done(2) [OF assms(2,3)] by (simp add: acting_def)
next
  case (step_fork ticket outcome)
  then show ?thesis using closed_is_done(2) [OF assms(2,3)] by (simp add: acting_def)
qed (simp_all add: worker_acks_def)

text \<open>
  C11. The record that says the operation was cancelled, or that its retirement is finished, is a fence for the startup
  worker: from that moment, in every interleaving of the worker, the actor and the other threads, the worker publishes
  nothing and forks no child, and none of these effects was under way when the record was written.
\<close>

theorem closed_record_fences_startup:
  assumes "reachable startup_begins startup_step s" and "closed (a_record (su_actor s))" and "startup_step\<^sup>*\<^sup>* s t"
  shows "deeds t = deeds s \<and> a_record (su_actor t) = a_record (su_actor s)
    \<and> (\<forall>i. wk_point (su_worker t) \<noteq> WkPublishing i \<and> wk_point (su_worker t) \<noteq> WkForking i)"
proof -
  have "startup_inv s" using startup.inv_reachable [OF assms(1)] .
  with assms(3) have "startup_inv t \<and> su_actor t = su_actor s \<and> deeds t = deeds s"
  proof (induction rule: rtranclp_induct)
    case base
    then show ?case by simp
  next
    case (step u v)
    then show ?case using closed_step [of u v] startup_step_inv [of u v] assms(2) by auto
  qed
  moreover from this have "acting (wk_point (su_worker t)) (su_reply t) = None" using closed_is_done(2) assms(2) by auto
  ultimately show ?thesis by (auto simp: acting_def)
qed


text \<open>Two runs: an operation that is terminated before its decision, and one up to its publication.\<close>

definition ex_startup :: Startup where
  "ex_startup = \<lparr>su_actor = ex_start, su_inbox = [], su_taken = 0, su_reply = None,
     su_worker = \<lparr>wk_point = WkIdle, wk_published = False, wk_serving = None, wk_generation = []\<rparr>, su_effects = []\<rparr>"

definition ex_cancelled :: Startup where
  "ex_cancelled = ex_startup\<lparr>su_actor := ex_turn EvShutdown ex_start\<rparr>"

definition ex_asked :: Startup where
  "ex_asked = worker_takes None (CmdPublish 1 [3] [9] None) (ex_startup\<lparr>su_actor := ex_turn EvSynced ex_start, su_taken := 1\<rparr>)"

definition ex_published :: Startup where
  "ex_published = worker_publishes None 1 (worker_answered True
     (ex_asked\<lparr>su_inbox := [], su_actor := ex_turn (EvCommit 1) (su_actor ex_asked), su_reply := None\<rparr>))"

lemma ex_startup_begins: "startup_begins ex_startup"
  using ex_begins by (simp add: startup_begins_def ex_startup_def)

lemma ex_turn_reached:
  assumes "reachable startup_begins startup_step s" and "su_inbox s = [ev]" and "a_stage (su_actor s) \<noteq> StageDone"
    and "answer_of ev (su_actor s) (ex_turn ev (su_actor s)) = r" and "su_reply s = None"
  shows "reachable startup_begins startup_step (s\<lparr>su_inbox := [], su_actor := ex_turn ev (su_actor s), su_reply := r\<rparr>)"
proof -
  have "startup_step s (s\<lparr>su_inbox := [], su_actor := ex_turn ev (su_actor s),
      su_reply := (case answer_of ev (su_actor s) (ex_turn ev (su_actor s)) of None \<Rightarrow> su_reply s | Some r \<Rightarrow> Some r)\<rparr>)"
    unfolding ex_turn_def by (rule step_turn [OF assms(2,3) refl])
  then show ?thesis using assms by (cases r) (auto intro: reachable_step)
qed

lemma ex_first_turn:
  assumes "outside ev"
  shows "reachable startup_begins startup_step (ex_startup\<lparr>su_actor := ex_turn ev ex_start\<rparr>)"
proof -
  have "reachable startup_begins startup_step (tell ev ex_startup)"
    by (rule reachable_step, rule reachable_init, rule ex_startup_begins, rule step_outside, rule assms)
  then have "reachable startup_begins startup_step ((tell ev ex_startup)\<lparr>su_inbox := [],
      su_actor := ex_turn ev (su_actor (tell ev ex_startup)), su_reply := None\<rparr>)"
    using ex_step0 assms
    by (intro ex_turn_reached) (auto simp: ex_startup_def ex_view_def answer_of_def outside_def asks_def split: ActorEvent.splits)
  then show ?thesis by (simp add: ex_startup_def tell_def)
qed

lemma ex_cancelled_closed: "closed (a_record (su_actor ex_cancelled))"
proof -
  let ?n = "ex_record\<lparr>op_state := StCancelled, op_writer := writer_none,
              op_decision := Some (decision_now [9] CauseRefused None (Some (ustr ''producer:terminated'')))\<rparr>"
  have v: "ex_view ex_start ex_record StageDeciding [] None" using ex_step0 by simp
  have "check ?n = Inr ()" "record_wf ?n" "op_schema ?n = RECORD_SCHEMA"
    using ex_record_ok by (simp_all add: ex_check record_wf_def decision_now_def writer_none_def)
  then obtain b where b: "actor_write (ex_env ex_record) ?n ''decision'' ex_start = (True, b)" "a_record b = next_revision [9] ex_record ?n"
    by (rule ex_writes_over [OF v, of ?n "''decision''"]) (auto simp: ex_view_def)
  have "ex_turn EvShutdown ex_start = actor_finish 3 (logged ReleasedCreationLock
      (actor_frame (ex_env ex_record) ''decision'' (decision_extra (op_decision (a_record b))) b))"
    using v b(1) ex_record_ok(4)
    by (simp add: ex_turn_def actor_turn_def on_event_def on_shutdown_def cancel_before_launch_def ex_view_def ex_env_fields)
  then have "a_record (su_actor ex_cancelled) = next_revision [9] ex_record ?n"
    using b(2) by (simp add: ex_cancelled_def actor_finish_def actor_end_def Let_def)
  then show ?thesis by (simp add: closed_iff)
qed

theorem closed_record_fences_startup_witness:
  "deeds (goes (WkReturned 3) ex_cancelled) = [] \<and> closed (a_record (su_actor ex_cancelled))
   \<and> {t. startup_step\<^sup>*\<^sup>* ex_cancelled t} \<subseteq> {t. deeds t = []}"
proof -
  have r: "reachable startup_begins startup_step ex_cancelled"
    unfolding ex_cancelled_def by (rule ex_first_turn) (simp add: outside_def)
  have d: "deeds ex_cancelled = []" by (simp add: ex_cancelled_def ex_startup_def deeds_def)
  have "deeds t = []" if "startup_step\<^sup>*\<^sup>* ex_cancelled t" for t
    using closed_record_fences_startup [OF r ex_cancelled_closed that] d by simp
  then show ?thesis using ex_cancelled_closed d by auto
qed

lemma ex_published_reached:
  "reachable startup_begins startup_step ex_published" "deeds ex_published = [DidPublish 1]"
proof -
  let ?a = "ex_turn EvSynced ex_start"
  have v: "ex_view ?a ex_launched StageStarting [ex_ticket 1 TkPublish TsIssued] None"
    and c: "a_commands ?a = [CmdPublish 1 [3] [9] None]"
    using ex_step1 [of ex_start] ex_step0 ex_start_commands by auto
  have "reachable startup_begins startup_step (ex_startup\<lparr>su_actor := ?a\<rparr>)"
    by (rule ex_first_turn) (simp add: outside_def)
  then have "reachable startup_begins startup_step
      (worker_takes None (a_commands (su_actor (ex_startup\<lparr>su_actor := ?a\<rparr>)) ! su_taken (ex_startup\<lparr>su_actor := ?a\<rparr>))
        ((ex_startup\<lparr>su_actor := ?a\<rparr>)\<lparr>su_taken := Suc (su_taken (ex_startup\<lparr>su_actor := ?a\<rparr>))\<rparr>))"
    by (rule reachable_step) (rule step_take; simp add: ex_startup_def c)
  then have asked: "reachable startup_begins startup_step ex_asked"
    by (simp add: ex_asked_def ex_startup_def c)
  have f: "su_inbox ex_asked = [EvCommit 1]" "su_actor ex_asked = ?a" "su_reply ex_asked = None" "su_effects ex_asked = []"
    "wk_point (su_worker ex_asked) = WkPublishAsked 1"
    by (simp_all add: ex_asked_def worker_takes_def worker_commit_def ex_startup_def goes_def tell_def)
  have t: "find_ticket 1 ?a = Some (ex_ticket 1 TkPublish TsIssued)"
    using v by (simp add: ex_view_def find_ticket_def ex_ticket_def)
  have "ex_turn (EvCommit 1) ?a = on_commit 1 ?a"
    using v by (simp add: ex_turn_def actor_turn_def on_event_def ex_view_def)
  then have "answer_of (EvCommit 1) ?a (ex_turn (EvCommit 1) ?a) = Some True"
    using t v by (simp add: answer_of_def asks_def on_commit_def Let_def ex_view_def ex_ticket_def)
  then have "reachable startup_begins startup_step
      (ex_asked\<lparr>su_inbox := [], su_actor := ex_turn (EvCommit 1) ?a, su_reply := Some True\<rparr>)"
    using ex_turn_reached [OF asked, of "EvCommit 1" "Some True"] f v by (simp add: ex_view_def)
  moreover have "startup_step (ex_asked\<lparr>su_inbox := [], su_actor := ex_turn (EvCommit 1) ?a, su_reply := Some True\<rparr>)
      (worker_answered True (ex_asked\<lparr>su_inbox := [], su_actor := ex_turn (EvCommit 1) ?a, su_reply := None\<rparr>))"
    using step_answered [of "ex_asked\<lparr>su_inbox := [], su_actor := ex_turn (EvCommit 1) ?a, su_reply := Some True\<rparr>" True] f
    by (simp add: waiting_def)
  ultimately have "reachable startup_begins startup_step
      (worker_answered True (ex_asked\<lparr>su_inbox := [], su_actor := ex_turn (EvCommit 1) (su_actor ex_asked), su_reply := None\<rparr>))"
    unfolding f(2) by (rule reachable_step)
  moreover have "wk_point (su_worker (worker_answered True (ex_asked\<lparr>su_inbox := [],
      su_actor := ex_turn (EvCommit 1) (su_actor ex_asked), su_reply := None\<rparr>))) = WkPublishing 1"
    using f by (simp add: worker_answered_def)
  ultimately show "reachable startup_begins startup_step ex_published"
    unfolding ex_published_def by (elim reachable_step step_publish)
  show "deeds ex_published = [DidPublish 1]"
    using f by (simp add: ex_published_def worker_publishes_def worker_answered_def worker_complete_def deeds_def Let_def)
qed


end
