(* ===== verification/Operation_Control.thy ===== *)
theory Operation_Control
  imports Operation_Actor "HOL-Library.Sublist"
begin

text \<open>
  The control channel of a launch operation (\<^verbatim>\<open>control_io\<close> in \<^verbatim>\<open>crates/pty/src/daemon/operation.rs\<close>): the thread that reads
  the owner's lines and writes the producer's frames. What the system calls answer is an argument: the answers of
  \<open>recv\<close> and of \<open>send\<close>, in their order, the clock, and the events of \<open>poll\<close>. The reading of the owner's bytes does not depend on
  how they are cut, and the owner receives the frames in their order, whole and in one piece, up to where it stops.
\<close>

section \<open>Reading\<close>

text \<open>Answers of \<open>recv\<close>: bytes, at least one; end of file; an interrupt; nothing there; another error.\<close>

datatype recv_answer = RecvBytes bytes | RecvEof | RecvInterrupted | RecvWouldBlock | RecvFailed

record OwnerReader =
  or_input :: bytes
  or_reading :: bool
  or_events :: "ActorEvent list"

text \<open>\<open>input.iter().position\<close> of the newline.\<close>

fun newline_at :: "bytes \<Rightarrow> nat option" where
  "newline_at [] = None"
| "newline_at (b # bs) = (if b = 10 then Some 0 else map_option Suc (newline_at bs))"

lemma newline_at_less: "newline_at bs = Some n \<Longrightarrow> n < length bs"
  by (induction bs arbitrary: n) (auto split: if_splits)

definition owner_event :: "OwnerFrame \<Rightarrow> ActorEvent" where
  "owner_event f = EvOwner (InputFrame f)"

text \<open>
  The lines in the buffer: the events, and what is left of it, or None when a malformed frame ended the reading. The
  frames are parsed by \<open>parse\<close>, which is \<open>parse_owner_frame\<close> for this operation.
\<close>

function owner_lines :: "(bytes \<Rightarrow> OwnerFrame) \<Rightarrow> bytes \<Rightarrow> ActorEvent list \<times> bytes option" where
  "owner_lines parse input =
     (case newline_at input of
        None \<Rightarrow> ([], Some input)
      | Some n \<Rightarrow>
          (let frame = parse (take n input) in
           if frame = FrameMalformed then ([owner_event frame], None)
           else
             (case owner_lines parse (drop (Suc n) input) of
                (evs, rest) \<Rightarrow> (owner_event frame # evs, rest))))"
  by pat_completeness auto
termination
  by (relation "measure (\<lambda>(parse, input). length input)") (auto dest: newline_at_less)

declare owner_lines.simps [simp del]

text \<open>One read of at least one byte.\<close>

definition took_bytes :: "(bytes \<Rightarrow> OwnerFrame) \<Rightarrow> bytes \<Rightarrow> OwnerReader \<Rightarrow> OwnerReader" where
  "took_bytes parse bs r =
     (case owner_lines parse (or_input r @ bs) of
        (evs, None) \<Rightarrow> r\<lparr>or_input := [], or_reading := False, or_events := or_events r @ evs\<rparr>
      | (evs, Some rest) \<Rightarrow>
          if length rest \<ge> FRAME_MAX_BYTES
          then r\<lparr>or_input := [], or_reading := False, or_events := or_events r @ evs @ [owner_event FrameMalformed]\<rparr>
          else r\<lparr>or_input := rest, or_events := or_events r @ evs\<rparr>)"

definition owner_gone :: "OwnerReader \<Rightarrow> OwnerReader" where
  "owner_gone r = r\<lparr>or_reading := False, or_events := or_events r @ [EvOwner InputEof]\<rparr>"

fun read_available :: "(bytes \<Rightarrow> OwnerFrame) \<Rightarrow> recv_answer list \<Rightarrow> OwnerReader \<Rightarrow> OwnerReader" where
  "read_available parse [] r = r"
| "read_available parse (a # as) r =
     (if \<not> or_reading r then r
      else
        (case a of
           RecvBytes bs \<Rightarrow> read_available parse as (took_bytes parse bs r)
         | RecvEof \<Rightarrow> owner_gone r
         | RecvInterrupted \<Rightarrow> read_available parse as r
         | RecvWouldBlock \<Rightarrow> r
         | RecvFailed \<Rightarrow> owner_gone r))"

definition new_owner_reader :: OwnerReader where
  "new_owner_reader = \<lparr>or_input = [], or_reading = True, or_events = []\<rparr>"

section \<open>Writing\<close>

datatype send_answer = SendTook nat | SendInterrupted | SendWouldBlock | SendFailed

text \<open>The queue, how much of its head is sent, and whether the owner still takes anything; \<open>ow_sent\<close> is what it took.\<close>

record OwnerWriter =
  ow_out :: "bytes list"
  ow_offset :: nat
  ow_writable :: bool
  ow_sent :: bytes

definition new_owner_writer :: OwnerWriter where
  "new_owner_writer = \<lparr>ow_out = [], ow_offset = 0, ow_writable = True, ow_sent = []\<rparr>"

definition queue_frame :: "bytes \<Rightarrow> OwnerWriter \<Rightarrow> OwnerWriter" where
  "queue_frame frame w = (if ow_writable w then w\<lparr>ow_out := ow_out w @ [frame]\<rparr> else w)"

text \<open>
  The flush, over the answers of \<open>send\<close> on the unsent tail of the head: it takes at least one byte and at most that tail,
  \<open>SendTook n\<close> being one more than \<open>n\<close> where there is as much. A frame is never empty, it ends with a newline.
\<close>

definition send_takes :: "nat \<Rightarrow> bytes \<Rightarrow> nat" where
  "send_takes n tail' = min (Suc n) (length tail')"

fun flush_frames :: "send_answer list \<Rightarrow> OwnerWriter \<Rightarrow> OwnerWriter" where
  "flush_frames [] w = w"
| "flush_frames (a # as) w =
     (case ow_out w of
        [] \<Rightarrow> w
      | front # out' \<Rightarrow>
          (case a of
             SendTook n \<Rightarrow>
               (let unsent = drop (ow_offset w) front;
                    offset' = ow_offset w + send_takes n unsent;
                    w1 = w\<lparr>ow_sent := ow_sent w @ take (send_takes n unsent) unsent\<rparr>
                in if offset' = length front then flush_frames as (w1\<lparr>ow_out := out', ow_offset := 0\<rparr>)
                   else flush_frames as (w1\<lparr>ow_offset := offset'\<rparr>))
           | SendInterrupted \<Rightarrow> flush_frames as w
           | SendWouldBlock \<Rightarrow> w
           | SendFailed \<Rightarrow> w\<lparr>ow_writable := False, ow_out := [], ow_offset := 0\<rparr>))"

section \<open>The thread\<close>

definition CLOSE_FLUSH :: nat where
  "CLOSE_FLUSH = 2000"

datatype IoCmd = IoSend bytes | IoSync | IoClose

record ControlIo =
  ci_reader :: OwnerReader
  ci_writer :: OwnerWriter
  ci_closing :: "nat option"

definition starts_closing :: "nat \<Rightarrow> ControlIo \<Rightarrow> ControlIo" where
  "starts_closing now c = (case ci_closing c of None \<Rightarrow> c\<lparr>ci_closing := Some (now + CLOSE_FLUSH)\<rparr> | Some _ \<Rightarrow> c)"

text \<open>\<open>Sync\<close> reads what is there first, then answers.\<close>

definition io_command :: "(bytes \<Rightarrow> OwnerFrame) \<Rightarrow> nat \<Rightarrow> recv_answer list \<Rightarrow> IoCmd \<Rightarrow> ControlIo \<Rightarrow> ControlIo" where
  "io_command parse now answers cmd c =
     (case cmd of
        IoSend frame \<Rightarrow> c\<lparr>ci_writer := queue_frame frame (ci_writer c)\<rparr>
      | IoSync \<Rightarrow>
          (let r = read_available parse answers (ci_reader c)
           in c\<lparr>ci_reader := r\<lparr>or_events := or_events r @ [EvSynced]\<rparr>\<rparr>)
      | IoClose \<Rightarrow> starts_closing now c)"

text \<open>The end of the loop: the queue is out, or nobody takes it, or the time for it is over.\<close>

definition io_ends :: "nat \<Rightarrow> ControlIo \<Rightarrow> bool" where
  "io_ends now c =
     (case ci_closing c of
        None \<Rightarrow> False
      | Some deadline \<Rightarrow> ow_out (ci_writer c) = [] \<or> \<not> ow_writable (ci_writer c) \<or> now \<ge> deadline)"

text \<open>The timeout of \<open>poll\<close>, in milliseconds; -1 waits for ever.\<close>

definition poll_timeout :: "nat \<Rightarrow> ControlIo \<Rightarrow> int" where
  "poll_timeout now c =
     (case ci_closing c of None \<Rightarrow> -1 | Some deadline \<Rightarrow> min (int (deadline - now)) 2147483647)"

definition watches_socket :: "ControlIo \<Rightarrow> bool" where
  "watches_socket c \<longleftrightarrow> or_reading (ci_reader c) \<or> ow_writable (ci_writer c) \<and> ow_out (ci_writer c) \<noteq> []"

text \<open>What \<open>poll\<close> says of the socket: something to read, or an error or hangup; room to write, or an error or hangup.\<close>

definition io_ready ::
  "(bytes \<Rightarrow> OwnerFrame) \<Rightarrow> bool \<Rightarrow> bool \<Rightarrow> recv_answer list \<Rightarrow> send_answer list \<Rightarrow> ControlIo \<Rightarrow> ControlIo" where
  "io_ready parse can_read can_write received sent c =
     (let c1 = (if watches_socket c \<and> can_read \<and> or_reading (ci_reader c)
                then c\<lparr>ci_reader := read_available parse received (ci_reader c)\<rparr> else c)
      in if watches_socket c \<and> can_write then c1\<lparr>ci_writer := flush_frames sent (ci_writer c1)\<rparr> else c1)"

section \<open>Reading does not depend on the cuts\<close>

lemma newline_at_append:
  "newline_at (xs @ ys) =
     (case newline_at xs of Some n \<Rightarrow> Some n | None \<Rightarrow> map_option (\<lambda>n. length xs + n) (newline_at ys))"
  by (induction xs; cases "newline_at ys") (auto split: option.split)

text \<open>A buffer that goes on, and one that ended.\<close>

lemma owner_lines_append:
  "owner_lines parse (xs @ ys) =
     (case owner_lines parse xs of
        (evs, None) \<Rightarrow> (evs, None)
      | (evs, Some rest) \<Rightarrow> (case owner_lines parse (rest @ ys) of (evs', rest') \<Rightarrow> (evs @ evs', rest')))"
proof (induction parse xs rule: owner_lines.induct)
  case (1 parse xs)
  show ?case
  proof (cases "newline_at xs")
    case None
    then show ?thesis by (simp add: owner_lines.simps [of parse xs] split: prod.split)
  next
    case (Some n)
    have n: "n < length xs" using newline_at_less [OF Some] .
    have s: "newline_at (xs @ ys) = Some n" by (simp add: newline_at_append Some)
    show ?thesis
    proof (cases "parse (take n xs) = FrameMalformed")
      case True
      then show ?thesis using n by (simp add: owner_lines.simps [of parse "xs @ ys"] owner_lines.simps [of parse xs] s Some)
    next
      case False
      have d: "drop (Suc n) (xs @ ys) = drop (Suc n) xs @ ys" using n by simp
      show ?thesis
        using n False "1.IH" [OF Some refl False]
        by (simp add: owner_lines.simps [of parse "xs @ ys"] owner_lines.simps [of parse xs] s Some d Let_def
            split: prod.split option.split)
    qed
  qed
qed

lemma owner_lines_rest: "owner_lines parse xs = (evs, Some rest) \<Longrightarrow> newline_at rest = None"
proof (induction parse xs arbitrary: evs rule: owner_lines.induct)
  case (1 parse xs)
  then show ?case
    by (cases "newline_at xs")
       (auto simp: owner_lines.simps [of parse xs] Let_def split: if_splits prod.splits)
qed

text \<open>What refuses every line that is too long.\<close>

definition refuses_long :: "(bytes \<Rightarrow> OwnerFrame) \<Rightarrow> bool" where
  "refuses_long parse \<longleftrightarrow> (\<forall>l. FRAME_MAX_BYTES \<le> length l \<longrightarrow> parse l = FrameMalformed)"

lemma owner_frame_refuses_long: "refuses_long (\<lambda>l. parse_owner_frame read l operation_id envelope_sha256)"
  by (simp add: refuses_long_def parse_owner_frame_def)

definition keeps_reading :: "OwnerReader \<Rightarrow> bool" where
  "keeps_reading r \<longleftrightarrow> or_reading r \<and> newline_at (or_input r) = None"

lemma took_bytes_append:
  assumes "refuses_long parse" and "or_reading (took_bytes parse xs r)"
  shows "took_bytes parse (xs @ ys) r = took_bytes parse ys (took_bytes parse xs r)"
proof (cases "owner_lines parse (or_input r @ xs)")
  case (Pair evs rest)
  show ?thesis
  proof (cases rest)
    case None
    then show ?thesis using assms(2) Pair by (simp add: took_bytes_def)
  next
    case (Some rs)
    then have "length rs < FRAME_MAX_BYTES" using assms(2) Pair by (auto simp: took_bytes_def split: if_splits)
    then show ?thesis using Pair Some owner_lines_append [of parse "or_input r @ xs" ys]
      by (simp add: took_bytes_def split: prod.split option.split)
  qed
qed

lemma took_bytes_stops:
  assumes "refuses_long parse" and "\<not> or_reading (took_bytes parse xs r)" and "or_reading r"
  shows "took_bytes parse (xs @ ys) r = took_bytes parse xs r"
proof (cases "owner_lines parse (or_input r @ xs)")
  case (Pair evs rest)
  show ?thesis
  proof (cases rest)
    case None
    then show ?thesis using Pair owner_lines_append [of parse "or_input r @ xs" ys] by (simp add: took_bytes_def)
  next
    case (Some rs)
    then have long: "FRAME_MAX_BYTES \<le> length rs" using assms(2,3) Pair by (auto simp: took_bytes_def split: if_splits)
    have nl: "newline_at rs = None" using owner_lines_rest Pair Some by blast
    have "owner_lines parse (rs @ ys) = ([], Some (rs @ ys)) \<or> owner_lines parse (rs @ ys) = ([owner_event FrameMalformed], None)"
    proof (cases "newline_at ys")
      case None
      then show ?thesis using nl by (simp add: owner_lines.simps [of parse "rs @ ys"] newline_at_append)
    next
      case s: (Some n)
      have "parse (take (length rs + n) (rs @ ys)) = FrameMalformed"
        using assms(1) long newline_at_less [OF s] by (simp add: refuses_long_def)
      then show ?thesis using nl s by (simp add: owner_lines.simps [of parse "rs @ ys"] newline_at_append)
    qed
    then show ?thesis using Pair Some long owner_lines_append [of parse "or_input r @ xs" ys]
      by (auto simp: took_bytes_def)
  qed
qed

text \<open>Only bytes and interrupts: \<open>received\<close> are the bytes of the answers.\<close>

fun received :: "recv_answer list \<Rightarrow> bytes" where
  "received [] = []"
| "received (RecvBytes bs # as) = bs @ received as"
| "received (_ # as) = received as"

definition only_bytes :: "recv_answer list \<Rightarrow> bool" where
  "only_bytes as \<longleftrightarrow> list_all (\<lambda>a. case a of RecvBytes _ \<Rightarrow> True | RecvInterrupted \<Rightarrow> True | _ \<Rightarrow> False) as"

definition took_ok :: "OwnerReader \<Rightarrow> bool" where
  "took_ok r \<longleftrightarrow> (or_reading r \<longrightarrow> newline_at (or_input r) = None \<and> length (or_input r) < FRAME_MAX_BYTES)"

lemma took_bytes_ok: "or_reading r \<Longrightarrow> took_ok (took_bytes parse bs r)"
  using owner_lines_rest by (fastforce simp: took_ok_def took_bytes_def split: prod.split option.split)

lemma took_nothing: "took_ok r \<Longrightarrow> or_reading r \<Longrightarrow> took_bytes parse [] r = r"
  by (simp add: took_ok_def took_bytes_def owner_lines.simps [of parse "or_input r"])

lemma read_stopped: "\<not> or_reading r \<Longrightarrow> read_available parse as r = r"
  by (cases as) simp_all

lemma read_available_bytes:
  assumes "refuses_long parse"
  shows "only_bytes as \<Longrightarrow> took_ok r \<Longrightarrow> or_reading r \<Longrightarrow>
    read_available parse as r = took_bytes parse (received as) r"
proof (induction as arbitrary: r)
  case Nil
  then show ?case by (simp add: took_nothing)
next
  case (Cons a as)
  show ?case
  proof (cases a)
    case (RecvBytes bs)
    let ?r = "took_bytes parse bs r"
    show ?thesis
    proof (cases "or_reading ?r")
      case True
      then show ?thesis
        using Cons RecvBytes took_bytes_ok [OF Cons.prems(3), of parse bs] took_bytes_append [OF assms True]
        by (simp add: only_bytes_def)
    next
      case False
      then show ?thesis
        using Cons RecvBytes took_bytes_stops [OF assms False] by (simp add: read_stopped)
    qed
  qed (use Cons in \<open>simp_all add: only_bytes_def\<close>)
qed

text \<open>Any number of rounds of reading, the thread doing something else in between.\<close>

lemma read_rounds:
  assumes "refuses_long parse" and "list_all only_bytes rounds" and "took_ok r" and "or_reading r"
  shows "foldl (\<lambda>r as. read_available parse as r) r rounds = took_bytes parse (concat (map received rounds)) r"
  using assms(2-)
proof (induction rounds arbitrary: r)
  case Nil
  then show ?case by (simp add: took_nothing)
next
  case (Cons as rounds)
  let ?r = "took_bytes parse (received as) r"
  have one: "read_available parse as r = ?r" using read_available_bytes [OF assms(1)] Cons.prems by simp
  have stopped: "\<not> or_reading r \<Longrightarrow> foldl (\<lambda>r as. read_available parse as r) r xs = r" for xs r
    by (induction xs) (simp_all add: read_stopped)
  show ?case
  proof (cases "or_reading ?r")
    case True
    then show ?thesis
      using one Cons.IH [of ?r] Cons.prems took_bytes_ok [of r parse "received as"] took_bytes_append [OF assms(1) True] by simp
  next
    case False
    then show ?thesis using one stopped took_bytes_stops [OF assms(1) False] Cons.prems by simp
  qed
qed

text \<open>
  C15. What the actor hears from the owner does not depend on how the socket delivers it: over any number of rounds
  of reading, each any number of reads and interrupts, the reader is in the state, and has sent the events, of one read
  of all the bytes. So a line is one event however it is cut, lines after a malformed or too long one are never
  parsed, and a line that is too long is refused alike when it is found while it is still incomplete.
\<close>

theorem owner_reading_ignores_cuts:
  assumes "list_all only_bytes rounds"
  shows "foldl (\<lambda>r as. read_available (\<lambda>l. parse_owner_frame read l oid sha) as r) new_owner_reader rounds
    = took_bytes (\<lambda>l. parse_owner_frame read l oid sha) (concat (map received rounds)) new_owner_reader"
  by (rule read_rounds [OF owner_frame_refuses_long assms])
    (simp_all add: took_ok_def new_owner_reader_def FRAME_MAX_BYTES_def)

theorem owner_reading_ignores_cuts_witness:
  "foldl (\<lambda>r as. read_available (\<lambda>l. parse_owner_frame (\<lambda>t. (RBad, False)) l [] []) as r) new_owner_reader
     [[RecvBytes [123], RecvInterrupted], [RecvBytes [125], RecvBytes [10, 123]]]
   = \<lparr>or_input = [], or_reading = False, or_events = [EvOwner (InputFrame FrameMalformed)]\<rparr>"
proof -
  have "newline_at [123, 125, 10, 123] = Some 2" by simp
  moreover have "parse_owner_frame (\<lambda>t. (RBad, False)) [123, 125] [] [] = FrameMalformed"
    by (simp add: parse_owner_frame_def parse_strict_json_def FRAME_MAX_BYTES_def strict.simps split: option.split)
  ultimately have "took_bytes (\<lambda>l. parse_owner_frame (\<lambda>t. (RBad, False)) l [] []) [123, 125, 10, 123] new_owner_reader
      = \<lparr>or_input = [], or_reading = False, or_events = [EvOwner (InputFrame FrameMalformed)]\<rparr>"
    by (simp add: took_bytes_def new_owner_reader_def owner_lines.simps [of _ "[123, 125, 10, 123]"] owner_event_def)
  then show ?thesis
    using owner_reading_ignores_cuts [of "[[RecvBytes [123], RecvInterrupted], [RecvBytes [125], RecvBytes [10, 123]]]"]
    by (simp add: only_bytes_def)
qed

section \<open>The owner receives the frames in their order\<close>

datatype writer_op = OpQueue bytes | OpFlush "send_answer list"

definition writer_does :: "OwnerWriter \<Rightarrow> writer_op \<Rightarrow> OwnerWriter" where
  "writer_does w x = (case x of OpQueue f \<Rightarrow> queue_frame f w | OpFlush as \<Rightarrow> flush_frames as w)"

fun queued_of :: "writer_op list \<Rightarrow> bytes" where
  "queued_of [] = []"
| "queued_of (OpQueue f # xs) = f @ queued_of xs"
| "queued_of (OpFlush _ # xs) = queued_of xs"

lemma queued_of_append: "queued_of (xs @ ys) = queued_of xs @ queued_of ys"
  by (induction xs rule: queued_of.induct) simp_all

definition unsent :: "OwnerWriter \<Rightarrow> bytes" where
  "unsent w = drop (ow_offset w) (concat (ow_out w))"

definition writer_ok :: "OwnerWriter \<Rightarrow> bytes \<Rightarrow> bool" where
  "writer_ok w all \<longleftrightarrow>
     (case ow_out w of [] \<Rightarrow> ow_offset w = 0 | f # _ \<Rightarrow> ow_offset w < length f \<or> ow_offset w = 0)
     \<and> (if ow_writable w then ow_sent w @ unsent w = all else prefix (ow_sent w) all \<and> ow_out w = [])"

lemma flush_ok: "writer_ok w all \<Longrightarrow> writer_ok (flush_frames as w) all"
proof (induction as w rule: flush_frames.induct)
  case (1 w)
  then show ?case by simp
next
  case (2 a as w)
  show ?case
  proof (cases "ow_out w")
    case Nil
    then show ?thesis using 2 by simp
  next
    case (Cons front out')
    have wr: "ow_writable w" using "2.prems" Cons by (auto simp: writer_ok_def split: if_splits)
    have off: "ow_offset w \<le> length front" using "2.prems" Cons by (auto simp: writer_ok_def)
    have all: "ow_sent w @ drop (ow_offset w) front @ concat out' = all"
      using "2.prems" Cons wr off by (simp add: writer_ok_def unsent_def)
    show ?thesis
    proof (cases a)
      case (SendTook n)
      let ?tail = "drop (ow_offset w) front" and ?k = "send_takes n (drop (ow_offset w) front)"
      let ?w1 = "w\<lparr>ow_sent := ow_sent w @ take ?k ?tail\<rparr>"
      have k: "?k \<le> length front - ow_offset w" by (simp add: send_takes_def)
      show ?thesis
      proof (cases "ow_offset w + ?k = length front")
        case True
        then have t: "take ?k ?tail = ?tail" by simp
        have "writer_ok (?w1\<lparr>ow_out := out', ow_offset := 0\<rparr>) all"
          using all wr t by (auto simp: writer_ok_def unsent_def split: list.split)
        then show ?thesis using "2.IH"(1) [OF Cons SendTook refl refl refl True] True Cons SendTook by (simp add: Let_def)
      next
        case False
        have "take ?k ?tail @ drop ?k ?tail = ?tail" by (rule append_take_drop_id)
        then have "take ?k ?tail @ drop (ow_offset w + ?k) front @ concat out' = ?tail @ concat out'"
          by (simp add: add.commute)
        then have "writer_ok (?w1\<lparr>ow_offset := ow_offset w + ?k\<rparr>) all"
          using all wr Cons k False off by (auto simp: writer_ok_def unsent_def)
        then show ?thesis using "2.IH"(2) [OF Cons SendTook refl refl refl False] False Cons SendTook by (simp add: Let_def)
      qed
    next
      case SendFailed
      then show ?thesis using Cons all by (auto simp: writer_ok_def prefix_def)
    qed (use 2 Cons in simp_all)
  qed
qed

lemma writer_op_ok: "writer_ok w all \<Longrightarrow> writer_ok (writer_does w x) (all @ queued_of [x])"
proof (cases x)
  case (OpQueue f)
  assume w: "writer_ok w all"
  show ?thesis
  proof (cases "ow_writable w")
    case True
    then show ?thesis using w OpQueue
      by (cases "ow_out w") (auto simp: writer_does_def queue_frame_def writer_ok_def unsent_def)
  next
    case False
    then show ?thesis using w OpQueue by (auto simp: writer_does_def queue_frame_def writer_ok_def)
  qed
qed (simp add: writer_does_def flush_ok)

text \<open>
  Whatever the socket takes at a time, interrupts, blocks or refuses, what the owner receives is a beginning of the
  frames one after another in the order they were queued: none is lost, repeated, reordered or cut in the middle of
  the stream; and while the socket takes anything at all, the rest is still queued, byte for byte.
\<close>

theorem owner_receives_frames_in_order:
  "prefix (ow_sent (foldl writer_does new_owner_writer ops)) (queued_of ops)
   \<and> (ow_writable (foldl writer_does new_owner_writer ops) \<longrightarrow>
        ow_sent (foldl writer_does new_owner_writer ops) @ unsent (foldl writer_does new_owner_writer ops) = queued_of ops)"
proof -
  have "writer_ok (foldl writer_does new_owner_writer ops) (queued_of ops)"
  proof (induction ops rule: rev_induct)
    case Nil
    show ?case by (simp add: writer_ok_def new_owner_writer_def unsent_def)
  next
    case (snoc x ops)
    then show ?case using writer_op_ok by (simp add: queued_of_append)
  qed
  then show ?thesis by (auto simp: writer_ok_def intro: prefixI [OF sym] split: if_splits)
qed

theorem owner_receives_frames_in_order_witness:
  "ow_sent (foldl writer_does new_owner_writer [OpQueue [1, 2], OpFlush [SendTook 0], OpQueue [3], OpFlush [SendInterrupted]])
     @ unsent (foldl writer_does new_owner_writer [OpQueue [1, 2], OpFlush [SendTook 0], OpQueue [3], OpFlush [SendInterrupted]])
   = [1, 2, 3]"
proof -
  let ?ops = "[OpQueue [1, 2], OpFlush [SendTook 0], OpQueue [3], OpFlush [SendInterrupted]]"
  have "ow_writable (foldl writer_does new_owner_writer ?ops)" by code_simp
  then show ?thesis using owner_receives_frames_in_order [of ?ops] by simp
qed

end
