(* ===== verification/Held_Child.thy ===== *)
theory Held_Child
  imports Operation_Actor
begin

text \<open>
  The held child of a launch operation (\<^verbatim>\<open>crates/pty/src/daemon/held.rs\<close>): what is built before the fork, the child side
  with every system call it makes, and the daemon's end of the gate. What the calls answer is an argument. The child
  runs the command only when it was prepared in full, said so and then read the release byte; and the daemon reads
  its acknowledgement as it was meant, however the socket cuts it.
\<close>

section \<open>The gate's bytes\<close>

definition PREPARED :: u8 where "PREPARED = 80"
definition RELEASE :: u8 where "RELEASE = 82"
definition FAILED :: u8 where "FAILED = 70"
definition NOT_RELEASED :: int where "NOT_RELEASED = 70"
definition PREPARE_FAILED :: int where "PREPARE_FAILED = 71"

datatype Step = Setsid | OpenSlave | ControllingTty | Stdio | Chdir

fun step_code :: "Step \<Rightarrow> u8" where
  "step_code Setsid = 1"
| "step_code OpenSlave = 2"
| "step_code ControllingTty = 3"
| "step_code Stdio = 4"
| "step_code Chdir = 5"

definition step_name :: "u8 \<Rightarrow> rstr" where
  "step_name code =
     (if code = 1 then ustr ''setsid'' else if code = 2 then ustr ''open-slave''
      else if code = 3 then ustr ''controlling-tty'' else if code = 4 then ustr ''stdio''
      else if code = 5 then ustr ''chdir'' else ustr ''unknown'')"

section \<open>Before the fork\<close>

definition cstring :: "rstr \<Rightarrow> string \<Rightarrow> rstr + bytes" where
  "cstring s what = (if list_ex (\<lambda>b. b = 0) (as_bytes s) then Inl (ustr what @ ustr '' contains a NUL byte'') else Inr (as_bytes s))"

text \<open>\<open>shell_exec\<close> of the spawn crate.\<close>

definition shell_exec :: "rstr \<Rightarrow> rstr list \<Rightarrow> rstr list" where
  "shell_exec command args = [ustr ''/bin/sh'', ustr ''-c'', ustr ''exec \"$@\"'', ustr ''sh'', command] @ args"

fun cstrings :: "string \<Rightarrow> rstr list \<Rightarrow> rstr + bytes list" where
  "cstrings what [] = Inr []"
| "cstrings what (s # ss) =
     (case cstring s what of
        Inl e \<Rightarrow> Inl e
      | Inr c \<Rightarrow> (case cstrings what ss of Inl e \<Rightarrow> Inl e | Inr cs \<Rightarrow> Inr (c # cs)))"

datatype handler = SigDfl | SigIgn | SigCaught

text \<open>The signals of Linux: \<open>SIGCHLD\<close>, \<open>SIGHUP\<close>, \<open>SIGINT\<close>, \<open>SIGQUIT\<close>, \<open>SIGTERM\<close>, \<open>SIGALRM\<close>, \<open>SIGPIPE\<close>.\<close>

definition RESET_SIGNALS :: "nat list" where "RESET_SIGNALS = [17, 1, 2, 3, 15, 14, 13]"
definition SIGNAL_LIMIT :: nat where "SIGNAL_LIMIT = 65"
definition SIGKILL_NUMBER :: nat where "SIGKILL_NUMBER = 9"
definition SIGSTOP_NUMBER :: nat where "SIGSTOP_NUMBER = 19"

definition disposition :: "nat \<Rightarrow> handler \<Rightarrow> handler" where
  "disposition signal current = (if signal \<notin> set RESET_SIGNALS \<and> current = SigIgn then SigIgn else SigDfl)"

text \<open>\<open>current\<close> is what \<open>sigaction\<close> answers, None being a refusal.\<close>

definition exec_dispositions :: "(nat \<Rightarrow> handler option) \<Rightarrow> (nat \<times> handler) list" where
  "exec_dispositions current =
     concat (map (\<lambda>signal.
       if signal = SIGKILL_NUMBER \<or> signal = SIGSTOP_NUMBER then []
       else (case current signal of None \<Rightarrow> [] | Some h \<Rightarrow> [(signal, disposition signal h)]))
     [1..<SIGNAL_LIMIT])"

definition FD_CAP :: nat where "FD_CAP = 1048576"

definition descriptor_limit :: "nat option \<Rightarrow> nat list option \<Rightarrow> nat" where
  "descriptor_limit soft_limit listed =
     (let soft = (case soft_limit of Some l \<Rightarrow> min l FD_CAP | None \<Rightarrow> FD_CAP);
          highest = (case listed of Some fds \<Rightarrow> foldr max fds 0 | None \<Rightarrow> 0)
      in max soft (highest + 1))"

record HeldSpec =
  hs_argv :: "bytes list"
  hs_dispositions :: "(nat \<times> handler) list"
  hs_fd_limit :: nat

section \<open>The child side\<close>

text \<open>
  What the child's calls answer. The descriptors it was forked with are \<open>cw_open\<close>; \<open>close_range\<close> may be refused; \<open>open\<close>
  gives a descriptor; the answers of \<open>write\<close> and \<open>read\<close> on the gate are lists.
\<close>

datatype write_answer = WriteTook nat | WriteInterrupted | WriteRefused

datatype gate_answer = GateBytes bytes | GateInterrupted | GateEnd | GateFailed

record child_world =
  cw_open :: "nat set"
  cw_close_range :: bool
  cw_setsid :: bool
  cw_tty :: "nat option"
  cw_ctty :: bool
  cw_dup :: "nat \<Rightarrow> bool"
  cw_chdir :: bool
  cw_errno :: u32
  cw_fail_writes :: "write_answer list"
  cw_ack_writes :: "write_answer list"
  cw_gate :: "gate_answer list"

datatype child_end = ChildExits int | ChildExecs "nat set"

text \<open>\<open>close_all_except\<close>: by range where the kernel can, else one by one below the limit.\<close>

definition close_all_except :: "bool \<Rightarrow> nat \<Rightarrow> nat \<Rightarrow> nat set \<Rightarrow> nat set" where
  "close_all_except by_range limit keep open_fds =
     (if by_range then open_fds \<inter> {keep} else {fd \<in> open_fds. fd = keep \<or> limit \<le> fd})"

text \<open>
  \<open>write_all_raw\<close>: what is on the gate, and whether all of it is. A write takes at least one byte and at most what is
  left. The answers may run out: then the child is still in the call.
\<close>

fun write_all_raw :: "write_answer list \<Rightarrow> bytes \<Rightarrow> bytes \<times> bool option" where
  "write_all_raw answers [] = ([], Some True)"
| "write_all_raw [] (b # bs) = ([], None)"
| "write_all_raw (WriteTook n # answers) (b # bs) =
     (case write_all_raw answers (drop n bs) of (wrote, done) \<Rightarrow> (b # take n bs @ wrote, done))"
| "write_all_raw (WriteInterrupted # answers) (b # bs) = write_all_raw answers (b # bs)"
| "write_all_raw (WriteRefused # answers) (b # bs) = ([], Some False)"

definition u32_to_le_bytes :: "u32 \<Rightarrow> bytes" where
  "u32_to_le_bytes w = rev (u32_to_be_bytes w)"

definition fail_message :: "Step \<Rightarrow> u32 \<Rightarrow> bytes" where
  "fail_message s errno = [FAILED, step_code s] @ u32_to_le_bytes errno"

text \<open>The child, up to where it is: what it wrote on the gate, and its end where it has one.\<close>

definition child_fail :: "child_world \<Rightarrow> Step \<Rightarrow> bytes \<times> child_end option" where
  "child_fail w s =
     (case write_all_raw (cw_fail_writes w) (fail_message s (cw_errno w)) of
        (wrote, None) \<Rightarrow> (wrote, None)
      | (wrote, Some _) \<Rightarrow> (wrote, Some (ChildExits PREPARE_FAILED)))"

fun await_release :: "gate_answer list \<Rightarrow> bool option" where
  "await_release [] = None"
| "await_release (GateInterrupted # as) = await_release as"
| "await_release (GateBytes bs # as) = Some (bs = [RELEASE])"
| "await_release (_ # as) = Some False"

definition tty_fds :: "nat \<Rightarrow> nat set \<Rightarrow> nat set" where
  "tty_fds tty open_fds = (let fds = insert tty open_fds \<union> {0, 1, 2} in if tty > 2 then fds - {tty} else fds)"

definition held_prepared :: "child_world \<Rightarrow> nat \<Rightarrow> nat set \<Rightarrow> bytes \<times> child_end option" where
  "held_prepared w gate fds =
     (case write_all_raw (cw_ack_writes w) [PREPARED] of
        (wrote, None) \<Rightarrow> (wrote, None)
      | (wrote, Some False) \<Rightarrow> (wrote, Some (ChildExits NOT_RELEASED))
      | (wrote, Some True) \<Rightarrow>
          (case await_release (cw_gate w) of
             None \<Rightarrow> (wrote, None)
           | Some False \<Rightarrow> (wrote, Some (ChildExits NOT_RELEASED))
           | Some True \<Rightarrow> (wrote, Some (ChildExecs (fds - {gate})))))"

definition held_child_body :: "child_world \<Rightarrow> HeldSpec \<Rightarrow> nat \<Rightarrow> bytes \<times> child_end option" where
  "held_child_body w spec gate =
     (let fds = close_all_except (cw_close_range w) (hs_fd_limit spec) gate (cw_open w) in
      if \<not> cw_setsid w then child_fail w Setsid
      else
        (case cw_tty w of
           None \<Rightarrow> child_fail w OpenSlave
         | Some tty \<Rightarrow>
             if \<not> cw_ctty w then child_fail w ControllingTty
             else if list_ex (\<lambda>target. tty \<noteq> target \<and> \<not> cw_dup w target) [0, 1, 2] then child_fail w Stdio
             else if \<not> cw_chdir w then child_fail w Chdir
             else held_prepared w gate (tty_fds tty fds)))"

section \<open>The daemon's end\<close>

datatype HeldAck = Prepared | Failed rstr u32 | Lost

definition u32_from_le_bytes :: "u8 \<Rightarrow> u8 \<Rightarrow> u8 \<Rightarrow> u8 \<Rightarrow> u32" where
  "u32_from_le_bytes a b c d = u32_from_be_bytes d c b a"

text \<open>What the bytes so far say; None reads on.\<close>

definition ack_of_bytes :: "bytes \<Rightarrow> HeldAck option" where
  "ack_of_bytes buf =
     (case buf of
        b # rest \<Rightarrow>
          if b = PREPARED then Some Prepared
          else if b = FAILED then
            (case rest of
               [s, e0, e1, e2, e3] \<Rightarrow> Some (Failed (step_name s) (u32_from_le_bytes e0 e1 e2 e3))
             | _ \<Rightarrow> None)
          else Some Lost
      | [] \<Rightarrow> None)"

text \<open>\<open>read_ack\<close>: a read asks for what is missing of six bytes and gets at least one of them.\<close>

fun read_ack :: "gate_answer list \<Rightarrow> bytes \<Rightarrow> HeldAck option" where
  "read_ack [] buf = None"
| "read_ack (GateInterrupted # as) buf = read_ack as buf"
| "read_ack (GateBytes bs # as) buf =
     (let buf' = buf @ take (6 - length buf) bs in
      case ack_of_bytes buf' of Some a \<Rightarrow> Some a | None \<Rightarrow> read_ack as buf')"
| "read_ack (_ # as) buf = Some Lost"

text \<open>\<open>release\<close>, over the answers of \<open>send\<close>: one byte, or none.\<close>

fun release :: "write_answer list \<Rightarrow> bool option" where
  "release [] = None"
| "release (WriteTook _ # as) = Some True"
| "release (WriteInterrupted # as) = release as"
| "release (WriteRefused # as) = Some False"

text \<open>What the actor hears.\<close>

fun actor_ack :: "HeldAck \<Rightarrow> Ack" where
  "actor_ack Prepared = AckPrepared"
| "actor_ack (Failed s errno) = AckFailed s"
| "actor_ack Lost = AckLost"

section \<open>What the child runs\<close>

lemma write_all_done: "write_all_raw as bs = (wrote, Some True) \<Longrightarrow> wrote = bs"
  by (induction as bs arbitrary: wrote rule: write_all_raw.induct) (auto split: prod.splits)

definition released :: "gate_answer list \<Rightarrow> bool" where
  "released as \<longleftrightarrow> (\<exists>rest. dropWhile (\<lambda>a. a = GateInterrupted) as = GateBytes [RELEASE] # rest)"

lemma await_release_iff: "await_release as = Some True \<longleftrightarrow> released as"
  by (induction as rule: await_release.induct) (auto simp: released_def)

lemma child_fail_exits: "snd (child_fail w s) \<noteq> Some (ChildExecs fds)"
  by (auto simp: child_fail_def split: prod.split option.split)


definition example_child :: child_world where
  "example_child = \<lparr>cw_open = {0, 1, 2, 9, 12}, cw_close_range = False, cw_setsid = True, cw_tty = Some 0, cw_ctty = True,
     cw_dup = (\<lambda>_. True), cw_chdir = True, cw_errno = 0, cw_fail_writes = [], cw_ack_writes = [WriteInterrupted, WriteTook 0],
     cw_gate = [GateInterrupted, GateBytes [82]]\<rparr>"


section \<open>The acknowledgement\<close>

fun gate_bytes :: "gate_answer list \<Rightarrow> bytes" where
  "gate_bytes [] = []"
| "gate_bytes (GateBytes bs # as) = bs @ gate_bytes as"
| "gate_bytes (_ # as) = gate_bytes as"

definition only_gate_bytes :: "gate_answer list \<Rightarrow> bool" where
  "only_gate_bytes as \<longleftrightarrow> list_all (\<lambda>a. case a of GateBytes bs \<Rightarrow> bs \<noteq> [] | GateInterrupted \<Rightarrow> True | _ \<Rightarrow> False) as"

lemma u32_le_roundtrip:
  "u32_to_le_bytes w = [e0, e1, e2, e3] \<Longrightarrow> u32_from_le_bytes e0 e1 e2 e3 = w"
  by (auto simp: u32_to_le_bytes_def u32_to_be_bytes_def u32_from_le_bytes_def)

lemma ack_of_part:
  assumes "xs @ ys = fail_message s e" and "ys \<noteq> []"
  shows "ack_of_bytes xs = None"
proof -
  have "length xs < 6"
  proof -
    have "length xs + length ys = 6" using arg_cong [OF assms(1), of length] by (simp add: fail_message_def u32_to_le_bytes_def)
    then show ?thesis using assms(2) by (cases ys) auto
  qed
  then show ?thesis
    using assms(1)
    by (cases xs) (auto simp: ack_of_bytes_def fail_message_def PREPARED_def FAILED_def split: list.splits)
qed

lemma ack_of_whole: "ack_of_bytes (fail_message s e) = Some (Failed (step_name (step_code s)) e)"
  by (auto simp: ack_of_bytes_def fail_message_def PREPARED_def FAILED_def u32_to_le_bytes_def u32_to_be_bytes_def
      u32_from_le_bytes_def)

lemma read_fail:
  assumes "only_gate_bytes as" and "buf @ gate_bytes as = fail_message s e" and "gate_bytes as \<noteq> []"
  shows "read_ack (as @ more') buf = Some (Failed (step_name (step_code s)) e)"
  using assms
proof (induction as arbitrary: buf)
  case Nil
  then show ?case by simp
next
  case (Cons a as)
  show ?case
  proof (cases a)
    case (GateBytes bs)
    have len: "length (buf @ bs @ gate_bytes as) = 6"
      using Cons.prems(2) GateBytes by (simp add: fail_message_def u32_to_le_bytes_def)
    then have t: "take (6 - length buf) bs = bs" by simp
    show ?thesis
    proof (cases "gate_bytes as = []")
      case True
      then show ?thesis using GateBytes Cons.prems(2) t ack_of_whole by (simp add: Let_def)
    next
      case False
      then have "ack_of_bytes (buf @ bs) = None"
        using ack_of_part [of "buf @ bs" "gate_bytes as" s e] Cons.prems(2) GateBytes by simp
      then show ?thesis using GateBytes t Cons.IH [of "buf @ bs"] Cons.prems False by (simp add: Let_def only_gate_bytes_def)
    qed
  qed (use Cons in \<open>simp_all add: only_gate_bytes_def\<close>)
qed

text \<open>
  The daemon reads an acknowledgement as the child meant it, however the gate cuts and interrupts it and whatever
  follows: the prepared byte as prepared, and the message of a failed step as this step with this error. If the gate
  ends or fails before the acknowledgement is whole, the child is lost.
\<close>

theorem acknowledgement_roundtrip:
  assumes "only_gate_bytes as"
  shows "(\<forall>rest. gate_bytes as = PREPARED # rest \<longrightarrow> read_ack as [] = Some Prepared)
    \<and> (\<forall>s e. gate_bytes as = fail_message s e \<longrightarrow> read_ack (as @ more') [] = Some (Failed (step_name (step_code s)) e))
    \<and> (\<forall>s e b bs. gate_bytes as @ b # bs = fail_message s e \<longrightarrow>
          read_ack (as @ GateEnd # more') [] = Some Lost \<and> read_ack (as @ GateFailed # more') [] = Some Lost)"
proof (intro conjI allI impI)
  fix rest
  assume "gate_bytes as = PREPARED # rest"
  then show "read_ack as [] = Some Prepared"
    using assms
  proof (induction as)
    case (Cons a as)
    show ?case
    proof (cases a)
      case (GateBytes bs)
      then obtain cs where "bs = PREPARED # cs" using Cons.prems by (cases bs) (auto simp: only_gate_bytes_def)
      then show ?thesis using GateBytes by (simp add: ack_of_bytes_def Let_def)
    qed (use Cons in \<open>simp_all add: only_gate_bytes_def\<close>)
  qed simp
next
  fix s e
  assume m: "gate_bytes as = fail_message s e"
  then have "gate_bytes as \<noteq> []" by (simp add: fail_message_def)
  then show "read_ack (as @ more') [] = Some (Failed (step_name (step_code s)) e)"
    using read_fail [OF assms, of "[]" s e] m by simp
next
  fix s e b bs
  assume m: "gate_bytes as @ b # bs = fail_message s e"
  have lost: "read_ack (as @ x # more') buf = Some Lost"
    if "only_gate_bytes as" "buf @ gate_bytes as @ b # bs = fail_message s e" "x = GateEnd \<or> x = GateFailed" for as buf x
    using that
  proof (induction as arbitrary: buf)
    case Nil
    then show ?case by auto
  next
    case (Cons a as)
    show ?case
    proof (cases a)
      case (GateBytes cs)
      have "length (buf @ cs @ gate_bytes as @ b # bs) = 6"
        using Cons.prems(2) GateBytes by (simp add: fail_message_def u32_to_le_bytes_def)
      then have t: "take (6 - length buf) cs = cs" by simp
      have "ack_of_bytes (buf @ cs) = None"
        using ack_of_part [of "buf @ cs" "gate_bytes as @ b # bs" s e] Cons.prems(2) GateBytes by simp
      then show ?thesis using GateBytes t Cons.IH [of "buf @ cs"] Cons.prems by (simp add: Let_def only_gate_bytes_def)
    qed (use Cons in \<open>simp_all add: only_gate_bytes_def\<close>)
  qed
  show "read_ack (as @ GateEnd # more') [] = Some Lost" "read_ack (as @ GateFailed # more') [] = Some Lost"
    using lost [OF assms, of "[]"] m by simp_all
qed

theorem acknowledgement_roundtrip_witness:
  "read_ack [GateBytes [70, 5], GateInterrupted, GateBytes [2, 0, 0, 0], GateEnd] [] = Some (Failed (ustr ''chdir'') 2)"
proof -
  let ?as = "[GateBytes [70, 5], GateInterrupted, GateBytes [2, 0, 0, 0]]"
  have "gate_bytes ?as = fail_message Chdir 2"
    by (simp add: fail_message_def FAILED_def u32_to_le_bytes_def u32_to_be_bytes_def drop_bit_eq_div)
  then have "read_ack (?as @ [GateEnd]) [] = Some (Failed (step_name (step_code Chdir)) 2)"
    using acknowledgement_roundtrip [of ?as "[GateEnd]"] by (simp add: only_gate_bytes_def)
  then show ?thesis by (simp add: step_name_def)
qed

end
