(* ===== verification/Process_Tree.thy ===== *)
theory Process_Tree
  imports Proc_Table Polling Kill Text_Numbers "HOL-Library.Product_Lexorder"
begin

text \<open>
  Process trees (\<^verbatim>\<open>crates/pty-core/src/process_tree.rs\<close>): the descendants of a process in one table, the snapshot that
  knows whether it is complete, the freezing of a running tree, and the termination of what was found, by
  identity or by group. The tables, the answers about one process, the results of the signals and the clock are
  arguments, by the number of the read. A depth is a natural number: it is below the number of rows.
  Shown: the walk is breadth first and reaches exactly the descendants, a complete snapshot
  is the live tree, a tree that is reported frozen was seen whole and stopped twice, and no signal goes to a process that
  was not just recognised or to the caller's own group.
\<close>

section \<open>The walk\<close>

record ProcessIdentity =
  pi_pid :: int
  pi_identity :: rstr
  pi_depth :: nat

definition children :: "ProcTable \<Rightarrow> int \<Rightarrow> int list" where
  "children t ppid = map r_pid (filter (\<lambda>r. r_ppid r = ppid) (rows t))"

definition pids :: "ProcTable \<Rightarrow> int set" where
  "pids t = r_pid ` set (rows t)"

lemma children_pids: "c \<in> set (children t p) \<Longrightarrow> c \<in> pids t"
  by (auto simp: children_def pids_def)

text \<open>The loop of \<open>walk\<close>: \<open>seen\<close> and \<open>queue\<close> are its variables; it ends because every round sees a pid or shortens the queue.\<close>

function walk_from :: "ProcTable \<Rightarrow> int list \<Rightarrow> (int \<times> nat) list \<Rightarrow> (int \<times> nat) list" where
  "walk_from t seen [] = []"
| "walk_from t seen ((pid, depth) # queue) =
     (if pid \<in> set seen then walk_from t seen queue
      else (pid, depth) # walk_from t (pid # seen) (queue @ map (\<lambda>c. (c, Suc depth)) (children t pid)))"
  by pat_completeness auto
termination
proof (relation "measures [\<lambda>(t, seen, queue). card ((pids t \<union> fst ` set queue) - set seen), \<lambda>(t, seen, queue). length queue]",
    goal_cases)
  case 1
  then show ?case by simp
next
  case (2 t seen pid depth queue)
  have "(pids t \<union> fst ` set ((pid, depth) # queue)) - set seen = (pids t \<union> fst ` set queue) - set seen" using 2 by auto
  then show ?case by simp
next
  case (3 t seen pid depth queue)
  let ?a = "(pids t \<union> fst ` set ((pid, depth) # queue)) - set seen"
  let ?b = "(pids t \<union> fst ` set (queue @ map (\<lambda>c. (c, Suc depth)) (children t pid))) - set (pid # seen)"
  have "finite ?a" by (simp add: pids_def)
  moreover have "?b \<subset> ?a" using 3 children_pids [of _ t pid] by auto
  ultimately have "card ?b < card ?a" by (rule psubset_card_mono)
  then show ?case by simp
qed

definition walk :: "int \<Rightarrow> ProcTable \<Rightarrow> (int \<times> nat) list" where
  "walk root t = walk_from t [root] (map (\<lambda>p. (p, Suc 0)) (children t root))"

section \<open>The walk is breadth first\<close>

definition child :: "ProcTable \<Rightarrow> int \<Rightarrow> int \<Rightarrow> bool" where
  "child t p c \<longleftrightarrow> c \<in> set (children t p)"

text \<open>What a queue leads to, with the length of the way, through pids that are not yet seen.\<close>

inductive leads :: "ProcTable \<Rightarrow> int set \<Rightarrow> (int \<times> nat) list \<Rightarrow> int \<Rightarrow> nat \<Rightarrow> bool" for t seen queue where
  queued: "(p, d) \<in> set queue \<Longrightarrow> p \<notin> seen \<Longrightarrow> leads t seen queue p d"
| further: "leads t seen queue p d \<Longrightarrow> child t p c \<Longrightarrow> c \<notin> seen \<Longrightarrow> leads t seen queue c (Suc d)"

lemma leads_not_seen: "leads t seen queue p d \<Longrightarrow> p \<notin> seen"
  by (induction rule: leads.induct) auto

lemma leads_bound: "leads t seen queue p d \<Longrightarrow> \<forall>x \<in> set queue. m \<le> snd x \<Longrightarrow> m \<le> d"
  by (induction rule: leads.induct) auto

definition layered :: "(int \<times> nat) list \<Rightarrow> bool" where
  "layered queue \<longleftrightarrow> sorted (map snd queue)
     \<and> (case queue of [] \<Rightarrow> True | x # _ \<Rightarrow> \<forall>y \<in> set queue. snd y \<le> snd x + 1)"

definition nearest :: "ProcTable \<Rightarrow> int set \<Rightarrow> (int \<times> nat) list \<Rightarrow> int \<Rightarrow> nat \<Rightarrow> bool" where
  "nearest t seen queue p d \<longleftrightarrow> leads t seen queue p d \<and> (\<forall>n. leads t seen queue p n \<longrightarrow> d \<le> n)"

lemma sorted_const [simp]: "sorted (map (\<lambda>x. k :: nat) xs)"
  by (induction xs) auto

lemma layeredI:
  "sorted (map snd queue) \<Longrightarrow> \<forall>y \<in> set queue. m \<le> snd y \<and> snd y \<le> m + 1 \<Longrightarrow> layered queue"
  unfolding layered_def by (cases queue) auto

lemma layered_first: "layered (map (\<lambda>p. (p, Suc 0)) ps)"
  by (rule layeredI [of _ 1]) (auto simp: comp_def)

lemma layered_tail: "layered (x # queue) \<Longrightarrow> layered queue"
  unfolding layered_def by (cases queue) fastforce+

lemma layered_step:
  assumes "layered ((pid, d) # queue)"
  shows "layered (queue @ map (\<lambda>c. (c, Suc d)) cs)"
proof -
  have b: "\<forall>y \<in> set queue. d \<le> snd y \<and> snd y \<le> d + 1" and s: "sorted (map snd queue)"
    using assms by (auto simp: layered_def)
  then have "sorted (map snd (queue @ map (\<lambda>c. (c, Suc d)) cs))"
    by (auto simp: sorted_append comp_def)
  moreover have "\<forall>y \<in> set (queue @ map (\<lambda>c. (c, Suc d)) cs). d \<le> snd y \<and> snd y \<le> d + 1" using b by auto
  ultimately show ?thesis by (rule layeredI)
qed

lemma leads_tail:
  assumes "pid \<in> seen"
  shows "leads t seen ((pid, d) # queue) p n \<longleftrightarrow> leads t seen queue p n"
proof
  show "leads t seen ((pid, d) # queue) p n \<Longrightarrow> leads t seen queue p n"
    by (induction rule: leads.induct) (use assms in \<open>auto intro: leads.intros\<close>)
  show "leads t seen queue p n \<Longrightarrow> leads t seen ((pid, d) # queue) p n"
    by (induction rule: leads.induct) (auto intro: leads.intros)
qed

lemma leads_step_old:
  assumes "pid \<notin> seen"
  shows "leads t (insert pid seen) (queue @ map (\<lambda>c. (c, Suc d)) (children t pid)) p n
    \<Longrightarrow> leads t seen ((pid, d) # queue) p n"
proof (induction rule: leads.induct)
  case (queued p n)
  show ?case
  proof (cases "(p, n) \<in> set queue")
    case False
    then have "child t pid p" "n = Suc d" using queued by (auto simp: child_def)
    moreover have "leads t seen ((pid, d) # queue) pid d" using assms by (auto intro: leads.queued)
    ultimately show ?thesis using queued(2) by (auto intro: leads.further)
  qed (use queued in \<open>auto intro: leads.queued\<close>)
qed (auto intro: leads.further)

lemma leads_step_new:
  assumes "\<forall>x \<in> set queue. d \<le> snd x"
  shows "leads t seen ((pid, d) # queue) p n \<Longrightarrow> p \<noteq> pid \<Longrightarrow>
    \<exists>m \<le> n. leads t (insert pid seen) (queue @ map (\<lambda>c. (c, Suc d)) (children t pid)) p m"
proof (induction rule: leads.induct)
  case (queued p n)
  then show ?case by (intro exI [of _ n]) (auto intro: leads.queued)
next
  case (further p n c)
  have "d \<le> n" using leads_bound [OF further(1), of d] assms by simp
  show ?case
  proof (cases "p = pid")
    case True
    then have "leads t (insert pid seen) (queue @ map (\<lambda>c. (c, Suc d)) (children t pid)) c (Suc d)"
      using further by (intro leads.queued) (auto simp: child_def)
    then show ?thesis using \<open>d \<le> n\<close> by (intro exI [of _ "Suc d"]) simp
  next
    case False
    with further obtain m where "m \<le> n"
        "leads t (insert pid seen) (queue @ map (\<lambda>c. (c, Suc d)) (children t pid)) p m" by blast
    then show ?thesis using further by (intro exI [of _ "Suc m"]) (auto intro: leads.further)
  qed
qed

lemma least_transfer:
  fixes n :: nat
  assumes "\<And>m. new m \<Longrightarrow> old m" and "\<And>m. old m \<Longrightarrow> \<exists>k \<le> m. new k"
  shows "old n \<and> (\<forall>m. old m \<longrightarrow> n \<le> m) \<longleftrightarrow> new n \<and> (\<forall>m. new m \<longrightarrow> n \<le> m)"
proof
  assume o: "old n \<and> (\<forall>m. old m \<longrightarrow> n \<le> m)"
  then obtain k where "k \<le> n" "new k" using assms(2) by blast
  then have "k = n" using o assms(1) [of k] by auto
  then show "new n \<and> (\<forall>m. new m \<longrightarrow> n \<le> m)" using o assms(1) \<open>new k\<close> by auto
next
  assume n: "new n \<and> (\<forall>m. new m \<longrightarrow> n \<le> m)"
  have "n \<le> m" if "old m" for m using assms(2) [OF that] n by force
  then show "old n \<and> (\<forall>m. old m \<longrightarrow> n \<le> m)" using n assms(1) by blast
qed

lemma nearest_step:
  assumes l: "layered ((pid, d) # queue)" and s: "pid \<notin> seen"
  shows "nearest t seen ((pid, d) # queue) p n \<longleftrightarrow>
    p = pid \<and> n = d \<or> nearest t (insert pid seen) (queue @ map (\<lambda>c. (c, Suc d)) (children t pid)) p n"
proof -
  let ?new = "leads t (insert pid seen) (queue @ map (\<lambda>c. (c, Suc d)) (children t pid))"
  let ?old = "leads t seen ((pid, d) # queue)"
  have b: "\<forall>x \<in> set queue. d \<le> snd x" using l by (auto simp: layered_def)
  have first: "?old pid d" using s by (auto intro: leads.queued)
  have least: "?old q m \<Longrightarrow> d \<le> m" for q m using leads_bound [of t seen "(pid, d) # queue" q m d] b by simp
  show ?thesis
  proof (cases "p = pid")
    case True
    moreover have "\<not> ?new pid m" for m using leads_not_seen by blast
    ultimately show ?thesis using first least unfolding nearest_def by (auto intro: antisym)
  next
    case False
    have "?new p m \<Longrightarrow> ?old p m" for m by (rule leads_step_old [OF s])
    moreover have "?old p m \<Longrightarrow> \<exists>k \<le> m. ?new p k" for m using leads_step_new [OF b] False by blast
    ultimately have "nearest t seen ((pid, d) # queue) p n \<longleftrightarrow>
        nearest t (insert pid seen) (queue @ map (\<lambda>c. (c, Suc d)) (children t pid)) p n"
      unfolding nearest_def by (rule least_transfer)
    then show ?thesis using False by simp
  qed
qed

lemma walk_from_nearest:
  "layered queue \<Longrightarrow> (p, d) \<in> set (walk_from t seen queue) \<longleftrightarrow> nearest t (set seen) queue p d"
proof (induction t seen queue rule: walk_from.induct)
  case (1 t seen)
  have "\<not> leads t (set seen) [] p d"
  proof
    show "leads t (set seen) [] p d \<Longrightarrow> False" by (induction rule: leads.induct) auto
  qed
  then show ?case by (simp add: nearest_def)
next
  case (2 t seen pid depth queue)
  show ?case
  proof (cases "pid \<in> set seen")
    case True
    then have "nearest t (set seen) ((pid, depth) # queue) p d \<longleftrightarrow> nearest t (set seen) queue p d"
      by (simp only: nearest_def leads_tail)
    then show ?thesis using 2(1) [OF True layered_tail [OF 2(3)]] True by simp
  next
    case False
    have "layered (queue @ map (\<lambda>c. (c, Suc depth)) (children t pid))" by (rule layered_step [OF 2(3)])
    from 2(2) [OF False this] show ?thesis using False nearest_step [OF 2(3), of "set seen" t p d] by auto
  qed
qed

lemma walk_from_order:
  "layered queue \<Longrightarrow> distinct (map fst (walk_from t seen queue)) \<and> sorted (map snd (walk_from t seen queue))
     \<and> fst ` set (walk_from t seen queue) \<inter> set seen = {}"
proof (induction t seen queue rule: walk_from.induct)
  case (2 t seen pid depth queue)
  show ?case
  proof (cases "pid \<in> set seen")
    case True
    then show ?thesis using 2 layered_tail by simp
  next
    case False
    let ?q = "queue @ map (\<lambda>c. (c, Suc depth)) (children t pid)"
    have l: "layered ?q" by (rule layered_step [OF 2(3)])
    have b: "\<forall>x \<in> set ?q. depth \<le> snd x" using 2(3) by (auto simp: layered_def)
    have "depth \<le> e" if "(q, e) \<in> set (walk_from t (pid # seen) ?q)" for q e
      using that leads_bound [OF _ b] unfolding walk_from_nearest [OF l] nearest_def by blast
    then show ?thesis using 2(2) [OF False l] False by (auto simp: image_iff)
  qed
qed simp

lemma leads_way:
  "leads t seen (map (\<lambda>p. (p, Suc 0)) (children t root)) p n \<Longrightarrow> (child t ^^ n) root p"
proof (induction rule: leads.induct)
  case (queued p d)
  then show ?case by (auto simp: child_def)
next
  case (further p d c)
  then show ?case by auto
qed

lemma way_leads:
  "(child t ^^ n) root p \<Longrightarrow> p \<noteq> root \<Longrightarrow> \<exists>m \<le> n. leads t {root} (map (\<lambda>p. (p, Suc 0)) (children t root)) p m"
proof (induction n arbitrary: p)
  case (Suc n)
  then obtain q where q: "(child t ^^ n) root q" "child t q p" by auto
  show ?case
  proof (cases "q = root")
    case True
    then show ?thesis using q Suc.prems by (intro exI [of _ "Suc 0"]) (auto simp: child_def intro!: leads.queued)
  next
    case False
    from Suc.IH [OF q(1) False] obtain m where "m \<le> n" "leads t {root} (map (\<lambda>p. (p, Suc 0)) (children t root)) q m" by blast
    then show ?thesis using q(2) Suc.prems by (intro exI [of _ "Suc m"]) (auto intro: leads.further)
  qed
qed simp

lemma walk_reaches:
  "(p, d) \<in> set (walk root t) \<longleftrightarrow> p \<noteq> root \<and> (child t ^^ d) root p \<and> (\<forall>n < d. \<not> (child t ^^ n) root p)"
proof -
  let ?q = "map (\<lambda>p. (p, Suc 0)) (children t root)"
  note l = layered_first [of "children t root"]
  have "(p, d) \<in> set (walk root t) \<longleftrightarrow> nearest t {root} ?q p d"
    unfolding walk_def using walk_from_nearest [OF l, of p d t "[root]"] by simp
  also have "\<dots> \<longleftrightarrow> p \<noteq> root \<and> (child t ^^ d) root p \<and> (\<forall>n < d. \<not> (child t ^^ n) root p)" (is "_ \<longleftrightarrow> ?r")
  proof
    assume n: "nearest t {root} ?q p d"
    then have "p \<noteq> root" using leads_not_seen unfolding nearest_def by blast
    then show ?r using n leads_way [of t "{root}" root p d] way_leads [of _ t root p]
      unfolding nearest_def by (meson le_trans not_le)
  next
    assume r: ?r
    then obtain m where m: "m \<le> d" "leads t {root} ?q p m" using way_leads by blast
    then have "m = d" using r leads_way [OF m(2)] by (meson le_neq_implies_less)
    moreover have "d \<le> n" if "leads t {root} ?q p n" for n using leads_way [OF that] r by (meson not_le)
    ultimately show "nearest t {root} ?q p d" using m(2) unfolding nearest_def by blast
  qed
  finally show ?thesis .
qed

text \<open>The descendants of the root, other than itself where the parents run in a circle.\<close>

definition descendant :: "ProcTable \<Rightarrow> int \<Rightarrow> int \<Rightarrow> bool" where
  "descendant t root p \<longleftrightarrow> p \<noteq> root \<and> (child t)\<^sup>*\<^sup>* root p"

lemma walk_descendants: "fst ` set (walk root t) = {p. descendant t root p}"
proof -
  have "(\<exists>d. (child t ^^ d) root p \<and> (\<forall>n < d. \<not> (child t ^^ n) root p)) \<longleftrightarrow> (child t)\<^sup>*\<^sup>* root p" for p
  proof -
    have "(\<exists>d. (child t ^^ d) root p) \<longleftrightarrow> (\<exists>d. (child t ^^ d) root p \<and> (\<forall>n < d. \<not> (child t ^^ n) root p))"
      using exists_least_iff [of "\<lambda>d. (child t ^^ d) root p"] by blast
    then show ?thesis by (simp add: rtranclp_power)
  qed
  then have "(\<exists>d. (p, d) \<in> set (walk root t)) \<longleftrightarrow> descendant t root p" for p
    unfolding walk_reaches descendant_def by metis
  moreover have "fst ` set (walk root t) = {p. \<exists>d. (p, d) \<in> set (walk root t)}" by force
  ultimately show ?thesis by simp
qed

lemma walk_order: "distinct (map fst (walk root t))" "sorted (map snd (walk root t))"
  using walk_from_order [of "map (\<lambda>p. (p, Suc 0)) (children t root)" t "[root]"]
  by (simp_all add: walk_def layered_first)

section \<open>Groups\<close>

definition SIGTERM :: int where "SIGTERM = 15"
definition SIGKILL :: int where "SIGKILL = 9"

text \<open>The map of a pid to its group: a later row replaces an earlier one.\<close>

definition pgid_of :: "ProcTable \<Rightarrow> int \<Rightarrow> int option" where
  "pgid_of t pid = map_option r_pgid (find (\<lambda>r. r_pid r = pid) (rev (rows t)))"

definition groups_in_tree :: "int \<Rightarrow> ProcTable \<Rightarrow> int list" where
  "groups_in_tree root t =
     (let root_group = pgid_of t root in
      sort (foldl (\<lambda>groups (pid, _).
        (case pgid_of t pid of
           Some g \<Rightarrow> if Some g \<noteq> root_group \<and> g > 1 \<and> g \<notin> set groups then groups @ [g] else groups
         | None \<Rightarrow> groups)) [] (walk root t)))"

definition members_of_groups :: "int list \<Rightarrow> ProcTable \<Rightarrow> int list" where
  "members_of_groups groups t =
     sort (map r_pid (filter (\<lambda>r. \<not> is_zombie r \<and> \<not> is_exiting r \<and> r_pgid r \<in> set groups) (rows t)))"

text \<open>
  What the world answers between two signals: the question \<open>k\<close> after a signal, and the time after it. The result is None
  while the loop has not returned.
\<close>

datatype after = AfterTerm | AfterKill

record sweep_world =
  sw_untargeted :: "int list \<Rightarrow> int list"
  sw_live :: "after \<Rightarrow> nat \<Rightarrow> int list \<Rightarrow> int list"
  sw_signalled :: "after \<Rightarrow> nat"
  sw_clock :: "after \<Rightarrow> nat \<Rightarrow> nat"

definition sweep_groups ::
  "sweep_world \<Rightarrow> int list \<Rightarrow> int \<Rightarrow> nat \<Rightarrow> nat \<Rightarrow> (int \<times> int) list \<times> int list option" where
  "sweep_groups w groups own_group term_wait kill_wait =
     (let targets = filter (\<lambda>g. g > 1 \<and> g \<noteq> own_group) groups;
          await = (\<lambda>a wait. poll_until (\<lambda>remaining. remaining = []) (sw_signalled w a + wait)
                     (\<lambda>k. sw_live w a k targets) (sw_clock w a) 0);
          terms = map (\<lambda>g. (g, SIGTERM)) targets
      in
      if targets = [] then ([], Some (sw_untargeted w groups))
      else
        (case await AfterTerm term_wait of
           None \<Rightarrow> (terms, None)
         | Some [] \<Rightarrow> (terms, Some [])
         | Some _ \<Rightarrow> (terms @ map (\<lambda>g. (g, SIGKILL)) targets, await AfterKill kill_wait)))"

text \<open>\<open>terminate_process_group_with\<close>: the existence of the group before each signal, after it, and at the end.\<close>

record group_world =
  gw_before :: "int \<Rightarrow> bool"
  gw_exists :: "int \<Rightarrow> nat \<Rightarrow> bool"
  gw_signalled :: "int \<Rightarrow> nat"
  gw_clock :: "int \<Rightarrow> nat \<Rightarrow> nat"
  gw_finally :: bool

fun terminate_rounds :: "group_world \<Rightarrow> int \<Rightarrow> (int \<times> nat) list \<Rightarrow> (int \<times> int) list \<times> bool option" where
  "terminate_rounds w pgid [] = ([], Some (\<not> gw_finally w))"
| "terminate_rounds w pgid ((sig, wait) # rounds) =
     (if \<not> gw_before w sig then ([], Some True)
      else
        (case poll_until Not (gw_signalled w sig + wait) (gw_exists w sig) (gw_clock w sig) 0 of
           None \<Rightarrow> ([(pgid, sig)], None)
         | Some _ \<Rightarrow> (case terminate_rounds w pgid rounds of (sent, r) \<Rightarrow> ((pgid, sig) # sent, r))))"

definition terminate_process_group :: "group_world \<Rightarrow> int \<Rightarrow> nat \<Rightarrow> nat \<Rightarrow> (int \<times> int) list \<times> bool option" where
  "terminate_process_group w pgid term_wait kill_wait =
     terminate_rounds w pgid [(SIGTERM, term_wait), (SIGKILL, kill_wait)]"

text \<open>\<open>group_exists\<close>, over the answer of \<open>kill(2)\<close>: an error number, or none.\<close>

definition EPERM :: nat where "EPERM = 1"

definition group_exists :: "(i32 \<Rightarrow> i32 \<Rightarrow> nat) \<Rightarrow> i32 \<Rightarrow> bool" where
  "group_exists kill pgid =
     (if sint pgid \<le> 1 then False
      else (case snd (kill_group kill pgid 0) of Inr _ \<Rightarrow> True | Inl error \<Rightarrow> error = EPERM))"

section \<open>Snapshots\<close>

definition sort_identities :: "ProcessIdentity list \<Rightarrow> ProcessIdentity list" where
  "sort_identities = sort_key (\<lambda>i. (- int (pi_depth i), - pi_pid i))"

definition snapshot_from_table :: "int \<Rightarrow> ProcTable \<Rightarrow> ProcessIdentity list" where
  "snapshot_from_table root t =
     sort_identities (List.map_filter
       (\<lambda>(pid, depth). map_option (\<lambda>i. \<lparr>pi_pid = pid, pi_identity = i, pi_depth = depth\<rparr>) (known (identity t pid)))
       (walk root t))"

datatype TreeSnapshot = Complete "ProcessIdentity list" | Unavailable rstr "ProcessIdentity list"

fun identities :: "TreeSnapshot \<Rightarrow> ProcessIdentity list" where
  "identities (Complete ids) = ids"
| "identities (Unavailable _ ids) = ids"

definition observed_identity :: "ProcTable \<Rightarrow> int \<times> nat \<Rightarrow> ProcessIdentity option" where
  "observed_identity t x =
     (case known (row t (fst x)) of
        None \<Rightarrow> None
      | Some r \<Rightarrow>
          if is_zombie r then None
          else map_option (\<lambda>i. \<lparr>pi_pid = fst x, pi_identity = i, pi_depth = snd x\<rparr>) (r_identity r))"

definition observed_identities :: "int \<Rightarrow> ProcTable \<Rightarrow> ProcessIdentity list" where
  "observed_identities root t = sort_identities (List.map_filter (observed_identity t) (walk root t))"

definition unnamed :: "ProcTable \<Rightarrow> int \<Rightarrow> bool" where
  "unnamed t pid = (case known (row t pid) of Some r \<Rightarrow> \<not> is_zombie r \<and> r_identity r = None | None \<Rightarrow> False)"

definition root_named :: "ProcTable \<Rightarrow> int \<Rightarrow> bool" where
  "root_named t root = (case known (row t root) of Some r \<Rightarrow> \<not> is_zombie r \<and> r_identity r \<noteq> None | None \<Rightarrow> False)"

definition complete_snapshot_from_table :: "int \<Rightarrow> ProcTable \<Rightarrow> TreeSnapshot" where
  "complete_snapshot_from_table root t =
     (if \<not> is_readable t then Unavailable (ustr ''process-table-unreadable'') []
      else
        (let observed = observed_identities root t in
         if \<not> is_complete t then Unavailable (ustr ''process-table-incomplete'') observed
         else if \<not> root_named t root then Unavailable (ustr ''root-identity-unavailable'') observed
         else
           (case find (\<lambda>x. unnamed t (fst x)) (walk root t) of
              Some (pid, _) \<Rightarrow> Unavailable (ustr ''process-identity-unavailable:'' @ dec_int pid) observed
            | None \<Rightarrow> Complete observed)))"

section \<open>Freezing\<close>

definition same_process :: "ProcessIdentity \<Rightarrow> ProcessIdentity \<Rightarrow> bool" where
  "same_process a b \<longleftrightarrow> pi_pid a = pi_pid b \<and> pi_identity a = pi_identity b"

definition merge_identities :: "ProcessIdentity list \<Rightarrow> ProcessIdentity list \<Rightarrow> ProcessIdentity list" where
  "merge_identities into added =
     sort_identities (foldl (\<lambda>acc c. if list_ex (\<lambda>k. same_process k c) acc then acc else acc @ [c]) into added)"

definition same_identities :: "ProcessIdentity list \<Rightarrow> ProcessIdentity list \<Rightarrow> bool" where
  "same_identities a b \<longleftrightarrow> list_all2 same_process a b"

text \<open>The first identity that cannot be judged ends it.\<close>

fun still_live_from :: "ProcTable \<Rightarrow> ProcessIdentity list \<Rightarrow> int + ProcessIdentity list" where
  "still_live_from t [] = Inr []"
| "still_live_from t (i # is) =
     (case row t (pi_pid i) of
        NotPresent \<Rightarrow> still_live_from t is
      | NotKnown _ \<Rightarrow> Inl (pi_pid i)
      | Known r \<Rightarrow>
          if is_zombie r then still_live_from t is
          else
            (case r_identity r of
               None \<Rightarrow> Inl (pi_pid i)
             | Some current \<Rightarrow>
                 if current = pi_identity i then map_sum id ((#) i) (still_live_from t is) else still_live_from t is))"

definition still_live_identities :: "ProcessIdentity list \<Rightarrow> ProcTable \<Rightarrow> int + ProcessIdentity list" where
  "still_live_identities observed t = map_sum id sort_identities (still_live_from t observed)"

definition FREEZE_ATTEMPTS :: nat where "FREEZE_ATTEMPTS = 16"

definition stopped_in :: "ProcTable \<Rightarrow> int \<Rightarrow> bool" where
  "stopped_in t pid = (case known (row t pid) of Some r \<Rightarrow> is_stopped r | None \<Rightarrow> False)"

definition all_stopped :: "int \<Rightarrow> ProcessIdentity list \<Rightarrow> ProcTable \<Rightarrow> bool" where
  "all_stopped root ids t = list_all (stopped_in t) (root # map pi_pid ids)"

text \<open>
  What the world answers: whether the root could be stopped, the tables in the order they are read, and the pids
  that the stop \<open>k\<close> was sent to. The sleeps between the attempts have no part in the answer.
\<close>

record freeze_world =
  fw_stop_root :: bool
  fw_read :: "nat \<Rightarrow> ProcTable"
  fw_stop :: "nat \<Rightarrow> ProcessIdentity list \<Rightarrow> int list"

definition failed_to_stop :: "ProcessIdentity list \<Rightarrow> ProcessIdentity list \<Rightarrow> int list \<Rightarrow> ProcTable \<Rightarrow> bool" where
  "failed_to_stop targeted ids signalled t =
     list_ex (\<lambda>target. list_ex (\<lambda>live. same_process live target \<and> pi_pid live \<notin> set signalled
                                  \<and> \<not> stopped_in t (pi_pid live)) ids) targeted"

text \<open>The loop, with the identities that each attempt asked to stop.\<close>

fun freeze_loop :: "freeze_world \<Rightarrow> int \<Rightarrow> rstr option \<Rightarrow> nat \<Rightarrow> nat \<Rightarrow> ProcessIdentity list \<Rightarrow>
    ProcessIdentity list option \<Rightarrow> bool \<Rightarrow> ProcessIdentity list list \<times> TreeSnapshot" where
  "freeze_loop w root first_unavailable 0 attempt observed previous seen_running =
     ([], Unavailable
        (case first_unavailable of
           Some reason \<Rightarrow> reason
         | None \<Rightarrow> if seen_running then ustr ''process-tree-not-stopped'' else ustr ''process-tree-did-not-quiesce'')
        observed)"
| "freeze_loop w root first_unavailable (Suc left) attempt observed previous seen_running =
     (let signalled = fw_stop w attempt observed;
          t = fw_read w (attempt + 1);
          next = complete_snapshot_from_table root t;
          observed' = merge_identities observed (identities next);
          go_on = (\<lambda>previous' running.
            case freeze_loop w root first_unavailable left (attempt + 1) observed' previous' running of
              (stops, r) \<Rightarrow> (observed # stops, r))
      in
      (case next of
         Unavailable reason _ \<Rightarrow> ([observed], Unavailable reason observed')
       | Complete _ \<Rightarrow>
           (case still_live_identities observed' t of
              Inl pid \<Rightarrow> ([observed], Unavailable (ustr ''observed-identity-unavailable:'' @ dec_int pid) observed')
            | Inr ids \<Rightarrow>
                if failed_to_stop observed ids signalled t then
                  ([observed], Unavailable (ustr ''descendant-freeze-unverified'') observed')
                else if \<not> all_stopped root ids t then go_on None True
                else if (case previous of Some p \<Rightarrow> same_identities p ids | None \<Rightarrow> False) then
                  ([observed],
                   case first_unavailable of Some reason \<Rightarrow> Unavailable reason observed' | None \<Rightarrow> Complete ids)
                else go_on (Some ids) seen_running)))"

definition freeze_descendants :: "freeze_world \<Rightarrow> int \<Rightarrow> ProcessIdentity list list \<times> TreeSnapshot" where
  "freeze_descendants w root =
     (let first = complete_snapshot_from_table root (fw_read w 0);
          observed = identities first;
          first_unavailable = (case first of Complete _ \<Rightarrow> None | Unavailable reason _ \<Rightarrow> Some reason)
      in
      if \<not> fw_stop_root w then ([], Unavailable (ustr ''root-freeze-failed'') observed)
      else
        freeze_loop w root first_unavailable (if first_unavailable = None then FREEZE_ATTEMPTS else 1) 0 observed None False)"

section \<open>Terminating identities\<close>

text \<open>
  The answers about one process, by the number of the question: when a signal is about to be sent, when a wait asks again.
  \<open>pw_kill\<close> says whether the call of \<open>kill(2)\<close> succeeded.
\<close>

datatype asked = ToSignal int | Waiting int nat

record proc_world =
  pw_process :: "asked \<Rightarrow> int \<Rightarrow> Row Answer"
  pw_kill :: "int \<Rightarrow> int \<Rightarrow> bool"
  pw_signalled :: "int \<Rightarrow> nat"
  pw_clock :: "int \<Rightarrow> nat \<Rightarrow> nat"

definition is_same_process :: "proc_world \<Rightarrow> asked \<Rightarrow> ProcessIdentity \<Rightarrow> bool" where
  "is_same_process w a i =
     (case pw_process w a (pi_pid i) of
        Known r \<Rightarrow> \<not> is_zombie r \<and> r_identity r = Some (pi_identity i)
      | _ \<Rightarrow> False)"

text \<open>The calls of \<open>kill(2)\<close> and the pids that were signalled.\<close>

definition signal_process_identities :: "proc_world \<Rightarrow> ProcessIdentity list \<Rightarrow> int \<Rightarrow> (int \<times> int) list \<times> int list" where
  "signal_process_identities w ids sig =
     (let known_ids = filter (is_same_process w (ToSignal sig)) ids in
      (map (\<lambda>i. (pi_pid i, sig)) known_ids, map pi_pid (filter (\<lambda>i. pw_kill w (pi_pid i) sig) known_ids)))"

primrec survivors_after :: "proc_world \<Rightarrow> int \<Rightarrow> ProcessIdentity list \<Rightarrow> nat \<Rightarrow> ProcessIdentity list" where
  "survivors_after w sig ids 0 = filter (is_same_process w (Waiting sig 0)) ids"
| "survivors_after w sig ids (Suc k) = filter (is_same_process w (Waiting sig (Suc k))) (survivors_after w sig ids k)"

definition wait_for_identities_to_exit ::
  "proc_world \<Rightarrow> int \<Rightarrow> ProcessIdentity list \<Rightarrow> nat \<Rightarrow> ProcessIdentity list option" where
  "wait_for_identities_to_exit w sig ids timeout =
     poll_until (\<lambda>survivors. survivors = []) (pw_signalled w sig + timeout) (survivors_after w sig ids) (pw_clock w sig) 0"

definition terminate_process_identities ::
  "proc_world \<Rightarrow> ProcessIdentity list \<Rightarrow> nat \<Rightarrow> nat \<Rightarrow> (int \<times> int) list \<times> ProcessIdentity list option" where
  "terminate_process_identities w ids term_wait kill_wait =
     (if ids = [] then ([], Some [])
      else
        (let terms = fst (signal_process_identities w ids SIGTERM) in
         (case wait_for_identities_to_exit w SIGTERM ids term_wait of
            None \<Rightarrow> (terms, None)
          | Some [] \<Rightarrow> (terms, Some [])
          | Some after_term \<Rightarrow>
              (terms @ fst (signal_process_identities w after_term SIGKILL),
               wait_for_identities_to_exit w SIGKILL after_term kill_wait))))"

definition terminate_process_identities_after_hangup ::
  "proc_world \<Rightarrow> ProcessIdentity list \<Rightarrow> nat \<Rightarrow> nat \<Rightarrow> nat \<Rightarrow> (int \<times> int) list \<times> ProcessIdentity list option" where
  "terminate_process_identities_after_hangup w ids hup_wait term_wait kill_wait =
     (case wait_for_identities_to_exit w 1 ids hup_wait of
        None \<Rightarrow> ([], None)
      | Some survivors \<Rightarrow> terminate_process_identities w survivors term_wait kill_wait)"

section \<open>A snapshot is the tree\<close>

lemma sort_identities_set [simp]: "set (sort_identities ids) = set ids"
  by (simp add: sort_identities_def)

text \<open>Deepest first, then the higher pid first.\<close>

definition deeper :: "ProcessIdentity \<Rightarrow> ProcessIdentity \<Rightarrow> bool" where
  "deeper a b \<longleftrightarrow> pi_depth b < pi_depth a \<or> pi_depth a = pi_depth b \<and> pi_pid b < pi_pid a"

lemma sort_identities_deeper:
  assumes "distinct (map pi_pid ids)"
  shows "sorted_wrt deeper (sort_identities ids)"
proof -
  let ?k = "\<lambda>i. (- int (pi_depth i), - pi_pid i)"
  let ?s = "sort_identities ids"
  have d: "distinct (map pi_pid ?s)"
    using assms by (simp add: sort_identities_def distinct_map)
  have s: "sorted (map ?k ?s)" by (simp add: sort_identities_def)
  show ?thesis
  proof (subst sorted_wrt_iff_nth_less, intro allI impI)
    fix i j
    assume ij: "i < j" "j < length ?s"
    then have "?k (?s ! i) \<le> ?k (?s ! j)" using s by (simp add: sorted_wrt_iff_nth_less sorted_map)
    moreover have "pi_pid (?s ! i) \<noteq> pi_pid (?s ! j)"
      using d ij by (simp add: distinct_conv_nth)
    ultimately show "deeper (?s ! i) (?s ! j)" by (auto simp: deeper_def less_eq_prod_def)
  qed
qed

text \<open>A live process of the table, by its identity, and the length of the shortest way to it.\<close>

definition live_as :: "ProcTable \<Rightarrow> int \<Rightarrow> rstr \<Rightarrow> bool" where
  "live_as t pid i \<longleftrightarrow> (\<exists>r. row t pid = Known r \<and> \<not> is_zombie r \<and> r_identity r = Some i)"

definition at_depth :: "ProcTable \<Rightarrow> int \<Rightarrow> int \<Rightarrow> nat \<Rightarrow> bool" where
  "at_depth t root p d \<longleftrightarrow> p \<noteq> root \<and> (child t ^^ d) root p \<and> (\<forall>n < d. \<not> (child t ^^ n) root p)"

text \<open>A list of the live, named descendants at their depths, deepest first, each once.\<close>

definition lists_tree :: "ProcTable \<Rightarrow> int \<Rightarrow> ProcessIdentity list \<Rightarrow> bool" where
  "lists_tree t root ids \<longleftrightarrow> sorted_wrt deeper ids \<and> distinct (map pi_pid ids)
     \<and> set ids = {i. at_depth t root (pi_pid i) (pi_depth i) \<and> live_as t (pi_pid i) (pi_identity i)}"

definition sees_tree :: "ProcTable \<Rightarrow> int \<Rightarrow> bool" where
  "sees_tree t root \<longleftrightarrow> is_complete t \<and> root_named t root \<and> (\<forall>p \<in> {p. descendant t root p}. \<not> unnamed t p)"

lemma observed_identity_Some:
  "observed_identity t x = Some i \<longleftrightarrow> x = (pi_pid i, pi_depth i) \<and> live_as t (pi_pid i) (pi_identity i)"
  by (cases "row t (fst x)"; cases x; cases i) (auto simp: observed_identity_def live_as_def split: if_splits)

lemma set_map_filter: "set (List.map_filter f xs) = {y. \<exists>x \<in> set xs. f x = Some y}"
  by (induction xs) (auto simp: List.map_filter_simps split: option.splits)

lemma map_filter_pids: "distinct (map fst xs) \<Longrightarrow> distinct (map pi_pid (List.map_filter (observed_identity t) xs))"
  by (induction xs)
     (auto simp: List.map_filter_simps set_map_filter observed_identity_Some rev_image_eqI split: option.splits)

lemma observed_lists_tree: "lists_tree t root (observed_identities root t)"
proof -
  have d: "distinct (map pi_pid (List.map_filter (observed_identity t) (walk root t)))"
    by (rule map_filter_pids [OF walk_order(1)])
  have "distinct (map pi_pid (observed_identities root t))"
    using d by (simp add: observed_identities_def sort_identities_def distinct_map)
  then show ?thesis
    using sort_identities_deeper [OF d]
    by (auto simp: lists_tree_def observed_identities_def set_map_filter observed_identity_Some walk_reaches at_depth_def)
qed

lemma find_unnamed: "find (\<lambda>x. unnamed t (fst x)) (walk root t) = None \<longleftrightarrow> (\<forall>p \<in> {p. descendant t root p}. \<not> unnamed t p)"
  unfolding walk_descendants [symmetric] by (auto simp: find_None_iff)

text \<open>
  C23. A snapshot that says it is complete is the tree, and one that cannot see the whole tree says so. The answer is
  complete exactly when the table is whole, the root is alive and named, and every descendant alive in it is named; then
  it lists every live descendant of the root once, with its identity and the length of the shortest way
  to it, deepest first. Otherwise it is unavailable, and what it lists is empty or still exact.
\<close>

theorem complete_snapshot_is_the_tree:
  "(case complete_snapshot_from_table root t of
      Complete ids \<Rightarrow> sees_tree t root \<and> lists_tree t root ids
    | Unavailable _ ids \<Rightarrow> \<not> sees_tree t root \<and> (ids = [] \<or> lists_tree t root ids))"
  using observed_lists_tree [of t root] find_unnamed [of t root]
  by (auto simp: complete_snapshot_from_table_def sees_tree_def is_complete_def is_readable_def Let_def
      split: option.splits prod.splits)

section \<open>A frozen tree was seen whole and stopped\<close>

lemma same_process_refl [simp]: "same_process i i"
  by (simp add: same_process_def)

definition knows :: "ProcessIdentity list \<Rightarrow> ProcessIdentity \<Rightarrow> bool" where
  "knows ids i \<longleftrightarrow> (\<exists>k \<in> set ids. same_process k i)"

lemma merge_knows: "knows (merge_identities ids new) i \<longleftrightarrow> knows ids i \<or> knows new i"
proof -
  let ?add = "\<lambda>acc c. if list_ex (\<lambda>k. same_process k c) acc then acc else acc @ [c]"
  have "knows (foldl ?add ids new) i \<longleftrightarrow> knows ids i \<or> knows new i" for ids
  proof (induction new arbitrary: ids)
    case (Cons c new)
    have "knows (?add ids c) i \<longleftrightarrow> knows ids i \<or> same_process c i"
      by (auto simp: knows_def list_ex_iff same_process_def)
    then show ?case using Cons.IH [of "?add ids c"] by (auto simp: knows_def)
  qed (simp add: knows_def)
  then show ?thesis by (simp add: merge_identities_def knows_def)
qed

text \<open>A process of which the table says that it is gone, dead, or another one by now.\<close>

definition over :: "ProcTable \<Rightarrow> ProcessIdentity \<Rightarrow> bool" where
  "over t i \<longleftrightarrow> row t (pi_pid i) = NotPresent
     \<or> (\<exists>r. row t (pi_pid i) = Known r \<and> (is_zombie r \<or> (\<exists>other. r_identity r = Some other \<and> other \<noteq> pi_identity i)))"

lemma still_live_from_Inr:
  "still_live_from t ids = Inr live \<Longrightarrow>
     set live = {i \<in> set ids. live_as t (pi_pid i) (pi_identity i)} \<and> (\<forall>i \<in> set ids. i \<in> set live \<or> over t i)"
proof (induction ids arbitrary: live)
  case (Cons i ids)
  show ?case
  proof (cases "row t (pi_pid i)")
    case (Known r)
    show ?thesis
    proof (cases "is_zombie r \<or> (\<exists>o'. r_identity r = Some o' \<and> o' \<noteq> pi_identity i)")
      case True
      then have "still_live_from t ids = Inr live" using Cons.prems Known by (auto split: option.splits if_splits)
      moreover have "over t i" "\<not> live_as t (pi_pid i) (pi_identity i)" using Known True by (auto simp: over_def live_as_def)
      ultimately show ?thesis using Cons.IH by auto
    next
      case False
      then obtain rest where r: "still_live_from t ids = Inr rest" "live = i # rest" and i: "r_identity r = Some (pi_identity i)"
        using Cons.prems Known by (cases "still_live_from t ids") (auto split: option.splits if_splits)
      moreover have "live_as t (pi_pid i) (pi_identity i)" using Known False i by (simp add: live_as_def)
      ultimately show ?thesis using Cons.IH [OF r(1)] by auto
    qed
  next
    case NotPresent
    then have "over t i" "\<not> live_as t (pi_pid i) (pi_identity i)" by (simp_all add: live_as_def over_def)
    then show ?thesis using Cons NotPresent by auto
  next
    case NotKnown
    then show ?thesis using Cons by simp
  qed
qed simp

lemma still_live_Inr:
  "still_live_identities ids t = Inr live \<Longrightarrow>
     set live = {i \<in> set ids. live_as t (pi_pid i) (pi_identity i)} \<and> (\<forall>i \<in> set ids. i \<in> set live \<or> over t i)"
  using still_live_from_Inr [of t ids] by (cases "still_live_from t ids") (auto simp: still_live_identities_def)

text \<open>The table shows the root and these processes, each the one it was, and all of them stopped.\<close>

definition holds_still :: "ProcTable \<Rightarrow> int \<Rightarrow> ProcessIdentity list \<Rightarrow> bool" where
  "holds_still t root ids \<longleftrightarrow> sees_tree t root \<and> stopped_in t root
     \<and> (\<forall>i \<in> set ids. live_as t (pi_pid i) (pi_identity i) \<and> stopped_in t (pi_pid i))"

lemma list_all2_same_member: "list_all2 P a b \<Longrightarrow> y \<in> set b \<Longrightarrow> \<exists>x \<in> set a. P x y"
  by (induction rule: list_all2_induct) auto

lemma same_identities_holds: "same_identities a b \<Longrightarrow> holds_still t root a \<Longrightarrow> holds_still t root b"
  unfolding same_identities_def holds_still_def by (fastforce dest: list_all2_same_member simp: same_process_def)

text \<open>What was seen up to the read \<open>k\<close>: every read was complete, and everything in it is known.\<close>

definition seen_upto :: "freeze_world \<Rightarrow> int \<Rightarrow> nat \<Rightarrow> ProcessIdentity list \<Rightarrow> bool" where
  "seen_upto w root k observed \<longleftrightarrow>
     (\<forall>j \<le> k. sees_tree (fw_read w j) root
        \<and> (\<forall>i. i \<in> set (observed_identities root (fw_read w j)) \<longrightarrow> knows observed i))"

definition frozen :: "freeze_world \<Rightarrow> int \<Rightarrow> nat \<Rightarrow> ProcessIdentity list \<Rightarrow> bool" where
  "frozen w root a ids \<longleftrightarrow>
     holds_still (fw_read w a) root ids \<and> holds_still (fw_read w (Suc a)) root ids
     \<and> (\<forall>j \<le> Suc a. sees_tree (fw_read w j) root
          \<and> (\<forall>i. i \<in> set (observed_identities root (fw_read w j)) \<longrightarrow> knows ids i \<or> over (fw_read w (Suc a)) i))"

lemma complete_observes:
  "complete_snapshot_from_table root t = Complete ids \<Longrightarrow> sees_tree t root \<and> ids = observed_identities root t"
  using observed_lists_tree [of t root] find_unnamed [of t root]
  by (auto simp: complete_snapshot_from_table_def sees_tree_def is_complete_def is_readable_def Let_def
      split: if_splits option.splits prod.splits)

lemma over_same: "same_process k i \<Longrightarrow> over t k \<longleftrightarrow> over t i"
  by (simp add: over_def same_process_def)

lemma freeze_loop_frozen:
  "freeze_loop w root first left k observed previous running = (stops, Complete ids) \<Longrightarrow>
   seen_upto w root k observed \<Longrightarrow> (case previous of None \<Rightarrow> True | Some p \<Rightarrow> 0 < k \<and> holds_still (fw_read w k) root p) \<Longrightarrow>
     first = None \<and> (\<exists>a. 0 < a \<and> a < k + left \<and> frozen w root a ids)"
proof (induction left arbitrary: k observed previous running stops)
  case (Suc left)
  let ?t = "fw_read w (Suc k)"
  let ?new = "merge_identities observed (identities (complete_snapshot_from_table root ?t))"
  show ?case
  proof (cases "complete_snapshot_from_table root ?t")
    case u: (Unavailable reason x)
    then show ?thesis using Suc.prems(1) by (simp add: Let_def)
  next
    case c: (Complete x)
    note sees = complete_observes [OF c]
    have upto: "seen_upto w root (Suc k) ?new"
      using Suc.prems(2) sees c unfolding seen_upto_def le_Suc_eq merge_knows
      by (auto simp: knows_def intro: same_process_refl)
    show ?thesis
    proof (cases "still_live_identities ?new ?t")
      case (Inl pid)
      then show ?thesis using Suc.prems(1) c by (simp add: Let_def)
    next
      case live: (Inr lives)
      note l = still_live_Inr [OF live]
      show ?thesis
      proof (cases "failed_to_stop observed lives (fw_stop w k observed) ?t")
        case True
        then show ?thesis using Suc.prems(1) c live by (simp add: Let_def)
      next
        case ok: False
        have still: "holds_still ?t root lives" if "all_stopped root lives ?t"
          using that sees l by (auto simp: holds_still_def all_stopped_def list_all_iff)
        show ?thesis
        proof (cases "all_stopped root lives ?t \<and> (case previous of Some p \<Rightarrow> same_identities p lives | None \<Rightarrow> False)")
          case True
          then obtain p where p: "previous = Some p" "same_identities p lives" by (auto split: option.splits)
          have "first = None \<and> ids = lives"
            using Suc.prems(1) c live ok True by (auto simp: Let_def split: option.splits)
          moreover have "holds_still (fw_read w k) root lives" "0 < k"
            using Suc.prems(3) p same_identities_holds by auto
          moreover have "knows lives i \<or> over ?t i" if "j \<le> Suc k" "i \<in> set (observed_identities root (fw_read w j))" for i j
          proof -
            have "knows ?new i" using upto that unfolding seen_upto_def by simp
            then obtain q where "q \<in> set ?new" "same_process q i" unfolding knows_def by metis
            then show ?thesis using l over_same unfolding knows_def by metis
          qed
          ultimately show ?thesis using still True upto unfolding frozen_def seen_upto_def
            by (intro conjI exI [of _ k]) auto
        next
          case False
          define previous' where "previous' = (if all_stopped root lives ?t then Some lives else None)"
          obtain running' stops' where
              "freeze_loop w root first left (Suc k) ?new previous' running' = (stops', Complete ids)"
            using Suc.prems(1) c live ok False
            by (auto simp: Let_def previous'_def split: if_splits prod.splits)
          moreover have "case previous' of None \<Rightarrow> True | Some p \<Rightarrow> 0 < Suc k \<and> holds_still ?t root p"
            using still by (simp add: previous'_def)
          ultimately show ?thesis using Suc.IH [OF _ upto] by fastforce
        qed
      qed
    qed
  qed
qed simp

lemma freeze_loop_unavailable:
  "freeze_loop w root (Some reason) left k observed previous running \<noteq> (stops, Complete ids)"
  by (induction left arbitrary: k observed previous running stops)
     (auto simp: Let_def split: TreeSnapshot.split sum.split prod.split)

lemma seen_is_listed:
  assumes "sees_tree t root" and "descendant t root p" and "live_as t p i"
  shows "\<exists>k \<in> set (observed_identities root t). pi_pid k = p \<and> pi_identity k = i"
proof -
  obtain d where "(p, d) \<in> set (walk root t)" using assms(2) walk_descendants [of root t] by force
  then have "at_depth t root p d" by (simp add: walk_reaches at_depth_def)
  then have "\<lparr>pi_pid = p, pi_identity = i, pi_depth = d\<rparr> \<in> set (observed_identities root t)"
    using observed_lists_tree [of t root] assms(3) by (simp add: lists_tree_def)
  then show ?thesis by force
qed

text \<open>
  C22. A tree that is reported frozen was contained. When \<open>freeze_descendants\<close> answers complete, the root was stopped,
  every table read on the way was whole, and two successive ones, the last, show the root and every listed process as the
  process it was and stopped. The last holds no other live descendant of the root; and whatever
  descendant was seen alive in any earlier one is in the list, or the last shows it gone, dead or
  replaced, even where it was given another parent meanwhile.
\<close>

theorem frozen_tree_is_contained:
  assumes "snd (freeze_descendants w root) = Complete ids"
  shows "fw_stop_root w \<and> (\<exists>a. 0 < a \<and> a < FREEZE_ATTEMPTS
    \<and> holds_still (fw_read w a) root ids \<and> holds_still (fw_read w (Suc a)) root ids
    \<and> (\<forall>p i. descendant (fw_read w (Suc a)) root p \<and> live_as (fw_read w (Suc a)) p i \<longrightarrow>
          (\<exists>k \<in> set ids. pi_pid k = p \<and> pi_identity k = i))
    \<and> (\<forall>j \<le> Suc a. sees_tree (fw_read w j) root
          \<and> (\<forall>i. i \<in> set (observed_identities root (fw_read w j)) \<longrightarrow> knows ids i \<or> over (fw_read w (Suc a)) i)))"
proof -
  let ?first = "complete_snapshot_from_table root (fw_read w 0)"
  have r: "fw_stop_root w" using assms by (auto simp: freeze_descendants_def Let_def split: if_splits)
  obtain x where c: "?first = Complete x"
  proof (cases ?first)
    case (Unavailable reason x)
    then have "snd (freeze_loop w root (Some reason) 1 0 x None False) = Complete ids"
      using assms r by (simp add: freeze_descendants_def Let_def del: freeze_loop.simps)
    then show thesis using freeze_loop_unavailable by (metis prod.collapse)
  qed (use that in blast)
  note sees = complete_observes [OF c]
  obtain stops where "freeze_loop w root None FREEZE_ATTEMPTS 0 x None False = (stops, Complete ids)"
    using assms r c by (cases "freeze_loop w root None FREEZE_ATTEMPTS 0 x None False") (simp add: freeze_descendants_def)
  moreover have "seen_upto w root 0 x" using sees by (auto simp: seen_upto_def knows_def intro: same_process_refl)
  ultimately obtain a where a: "0 < a" "a < FREEZE_ATTEMPTS" and f: "frozen w root a ids"
    using freeze_loop_frozen [of w root None FREEZE_ATTEMPTS 0 x None False stops ids] by auto
  let ?t = "fw_read w (Suc a)"
  have "\<exists>k \<in> set ids. pi_pid k = p \<and> pi_identity k = i" if d: "descendant ?t root p" and l: "live_as ?t p i" for p i
  proof -
    obtain k where k: "k \<in> set (observed_identities root ?t)" "pi_pid k = p" "pi_identity k = i"
      using seen_is_listed [OF _ d l] f unfolding frozen_def holds_still_def by blast
    moreover have "\<not> over ?t k" using l k by (auto simp: over_def live_as_def)
    ultimately have "knows ids k" using f unfolding frozen_def by blast
    then show ?thesis using k by (auto simp: knows_def same_process_def)
  qed
  then show ?thesis using r a f unfolding frozen_def by blast
qed

text \<open>An example: a stopped root with a stopped child, and one that was running at the first two reads.\<close>

definition example_row :: "int \<Rightarrow> int \<Rightarrow> string \<Rightarrow> Row" where
  "example_row pid ppid state =
     \<lparr>r_pid = pid, r_ppid = ppid, r_pgid = pid, r_state = ustr state, r_rss_kb = None, r_cpu_percent = None,
      r_identity = Some (dec_int pid)\<rparr>"

definition example_freeze :: freeze_world where
  "example_freeze = \<lparr>fw_stop_root = True,
     fw_read = (\<lambda>k. from_rows (example_row 7 1 ''T'' # example_row 9 7 (if k < 2 then ''S'' else ''T'')
                  # (if k = 0 then [] else [example_row 12 9 ''T'']))),
     fw_stop = (\<lambda>_. map pi_pid)\<rparr>"

definition example_tree :: "ProcessIdentity list" where
  "example_tree =
     [\<lparr>pi_pid = 12, pi_identity = dec_int 12, pi_depth = 2\<rparr>, \<lparr>pi_pid = 9, pi_identity = dec_int 9, pi_depth = 1\<rparr>]"

lemma example_freezes: "snd (freeze_descendants example_freeze 7) = Complete example_tree"
  by code_simp

theorem frozen_tree_is_contained_witness:
  "\<exists>a. 0 < a \<and> a < FREEZE_ATTEMPTS \<and> holds_still (fw_read example_freeze (Suc a)) 7 example_tree"
  using frozen_tree_is_contained [OF example_freezes] by blast

section \<open>Signals go to what was just recognised\<close>

lemma survivors_filter:
  "survivors_after w sig ids n = filter (\<lambda>i. \<forall>k \<le> n. is_same_process w (Waiting sig k) i) ids"
  by (induction n) (auto simp: le_Suc_eq intro!: filter_cong)

text \<open>A process that every question until the deadline found to be there.\<close>

definition outlived :: "proc_world \<Rightarrow> int \<Rightarrow> nat \<Rightarrow> ProcessIdentity \<Rightarrow> bool" where
  "outlived w sig timeout i \<longleftrightarrow>
     (\<exists>n. pw_signalled w sig + timeout \<le> pw_clock w sig n \<and> (\<forall>k \<le> n. is_same_process w (Waiting sig k) i))"

definition gone_after :: "proc_world \<Rightarrow> int \<Rightarrow> ProcessIdentity \<Rightarrow> bool" where
  "gone_after w sig i \<longleftrightarrow> (\<exists>k. \<not> is_same_process w (Waiting sig k) i)"

text \<open>A sleep takes at least the time asked for, and the clock does not run backwards.\<close>

definition clock_runs :: "nat \<Rightarrow> (nat \<Rightarrow> nat) \<Rightarrow> bool" where
  "clock_runs start clock \<longleftrightarrow> start \<le> clock 0 \<and> (\<forall>j. clock j + 25 \<le> clock (Suc j))"

lemma wait_returns:
  assumes "clock_runs (pw_signalled w sig) (pw_clock w sig)"
  obtains left where "wait_for_identities_to_exit w sig ids timeout = Some left" "set left \<subseteq> set ids"
    "\<forall>i \<in> set left. outlived w sig timeout i" "\<forall>i \<in> set ids - set left. gone_after w sig i"
proof -
  obtain n where n: "wait_for_identities_to_exit w sig ids timeout = Some (survivors_after w sig ids n)"
      "survivors_after w sig ids n = [] \<or> pw_signalled w sig + timeout \<le> pw_clock w sig n"
    using poll_ends [of "pw_clock w sig" 25 "pw_signalled w sig" timeout "\<lambda>s. s = []" "survivors_after w sig ids"] assms
    unfolding clock_runs_def wait_for_identities_to_exit_def by auto
  show thesis
  proof (rule that [OF n(1)])
    show "\<forall>i \<in> set (survivors_after w sig ids n). outlived w sig timeout i"
      using n(2) by (cases "survivors_after w sig ids n = []") (auto simp: survivors_filter outlived_def)
    show "\<forall>i \<in> set ids - set (survivors_after w sig ids n). gone_after w sig i"
      by (auto simp: survivors_filter gone_after_def)
  qed (auto simp: survivors_filter)
qed

text \<open>
  C39. Termination returns, and signals only what it just recognised. If every sleep takes at least its 25 milliseconds,
  \<open>terminate_process_identities\<close> returns. Every TERM and every KILL went to the pid of an identity it was given which at
  that moment was alive under that identity; KILL only to one that was found there at every question until
  the TERM wait was over; what it returns outlived both waits, and every other identity was found gone.
\<close>

theorem termination_signals_the_recognised:
  assumes "\<forall>sig \<in> {SIGTERM, SIGKILL}. clock_runs (pw_signalled w sig) (pw_clock w sig)"
  shows "\<exists>sent left. terminate_process_identities w ids term_wait kill_wait = (sent, Some left)
    \<and> (\<forall>(p, sig) \<in> set sent. \<exists>i \<in> set ids. pi_pid i = p \<and> is_same_process w (ToSignal sig) i
          \<and> (sig = SIGTERM \<or> sig = SIGKILL \<and> outlived w SIGTERM term_wait i))
    \<and> set left \<subseteq> set ids
    \<and> (\<forall>i \<in> set left. outlived w SIGTERM term_wait i \<and> outlived w SIGKILL kill_wait i)
    \<and> (\<forall>i \<in> set ids - set left. gone_after w SIGTERM i \<or> gone_after w SIGKILL i)"
proof -
  obtain l1 where l1: "wait_for_identities_to_exit w SIGTERM ids term_wait = Some l1" "set l1 \<subseteq> set ids"
      "\<forall>i \<in> set l1. outlived w SIGTERM term_wait i" "\<forall>i \<in> set ids - set l1. gone_after w SIGTERM i"
    using wait_returns assms by blast
  obtain l2 where l2: "wait_for_identities_to_exit w SIGKILL l1 kill_wait = Some l2" "set l2 \<subseteq> set l1"
      "\<forall>i \<in> set l2. outlived w SIGKILL kill_wait i" "\<forall>i \<in> set l1 - set l2. gone_after w SIGKILL i"
    using wait_returns assms by blast
  have s: "(p, g) \<in> set (fst (signal_process_identities w is sig)) \<Longrightarrow>
      g = sig \<and> (\<exists>i \<in> set is. pi_pid i = p \<and> is_same_process w (ToSignal sig) i)" for p g "is" sig
    by (auto simp: signal_process_identities_def Let_def)
  consider "ids = []" | "ids \<noteq> []" "l1 = []" | "ids \<noteq> []" "l1 \<noteq> []" by blast
  then show ?thesis
  proof cases
    case 1
    then show ?thesis by (simp add: terminate_process_identities_def)
  next
    case 2
    then have "terminate_process_identities w ids term_wait kill_wait
        = (fst (signal_process_identities w ids SIGTERM), Some [])"
      by (simp add: terminate_process_identities_def Let_def l1)
    then show ?thesis using 2 l1 s [of _ _ ids SIGTERM] by fastforce
  next
    case 3
    then have "terminate_process_identities w ids term_wait kill_wait
        = (fst (signal_process_identities w ids SIGTERM) @ fst (signal_process_identities w l1 SIGKILL), Some l2)"
      using l1(1) l2(1) by (cases l1) (simp_all add: terminate_process_identities_def Let_def)
    moreover have "\<exists>i \<in> set ids. pi_pid i = p \<and> is_same_process w (ToSignal sig) i
          \<and> (sig = SIGTERM \<or> sig = SIGKILL \<and> outlived w SIGTERM term_wait i)"
      if "(p, sig) \<in> set (fst (signal_process_identities w ids SIGTERM) @ fst (signal_process_identities w l1 SIGKILL))" for p sig
      using that s [of p sig ids SIGTERM] s [of p sig l1 SIGKILL] l1(2,3) by auto
    ultimately show ?thesis using l1 l2 by (intro exI conjI) (assumption | blast)+
  qed
qed

definition example_procs :: proc_world where
  "example_procs = \<lparr>pw_process = (\<lambda>a p. if p = 9 \<and> a = Waiting SIGKILL 0 then NotPresent else Known (example_row p 1 ''S'')),
     pw_kill = (\<lambda>_ _. True), pw_signalled = (\<lambda>_. 0), pw_clock = (\<lambda>_ k. 25 * k)\<rparr>"

theorem termination_signals_the_recognised_witness:
  "\<exists>sent left. terminate_process_identities example_procs example_tree 1500 500 = (sent, Some left) \<and> set left \<subseteq> set example_tree"
proof -
  have "\<forall>sig \<in> {SIGTERM, SIGKILL}. clock_runs (pw_signalled example_procs sig) (pw_clock example_procs sig)"
    by (simp add: example_procs_def clock_runs_def)
  from termination_signals_the_recognised [OF this, of example_tree 1500 500] show ?thesis by blast
qed

section \<open>A sweep spares its caller\<close>

theorem sweep_spares_own_group:
  assumes "\<forall>a. clock_runs (sw_signalled w a) (sw_clock w a)"
  shows "\<exists>sent left. sweep_groups w groups own term_wait kill_wait = (sent, Some left)
    \<and> (\<forall>(g, sig) \<in> set sent. g \<in> set groups \<and> g > 1 \<and> g \<noteq> own \<and> (sig = SIGTERM \<or> sig = SIGKILL
          \<and> (\<exists>n. sw_signalled w AfterTerm + term_wait \<le> sw_clock w AfterTerm n
               \<and> (\<forall>k \<le> n. sw_live w AfterTerm k (filter (\<lambda>g. g > 1 \<and> g \<noteq> own) groups) \<noteq> []))))"
proof -
  let ?targets = "filter (\<lambda>g. g > 1 \<and> g \<noteq> own) groups"
  let ?live = "\<lambda>a k. sw_live w a k ?targets"
  have r: "\<exists>n. poll_until (\<lambda>r. r = []) (sw_signalled w a + wait) (?live a) (sw_clock w a) 0 = Some (?live a n)
      \<and> (?live a n = [] \<or> sw_signalled w a + wait \<le> sw_clock w a n) \<and> (\<forall>j < n. ?live a j \<noteq> [])" for a wait
    using poll_ends [of "sw_clock w a" 25 "sw_signalled w a" wait "\<lambda>r. r = []" "?live a"] assms
    unfolding clock_runs_def by auto
  obtain n where n: "poll_until (\<lambda>r. r = []) (sw_signalled w AfterTerm + term_wait) (?live AfterTerm) (sw_clock w AfterTerm) 0
        = Some (?live AfterTerm n)"
      "?live AfterTerm n = [] \<or> sw_signalled w AfterTerm + term_wait \<le> sw_clock w AfterTerm n"
      "\<forall>j < n. ?live AfterTerm j \<noteq> []"
    using r by blast
  obtain m where m: "poll_until (\<lambda>r. r = []) (sw_signalled w AfterKill + kill_wait) (?live AfterKill) (sw_clock w AfterKill) 0
        = Some (?live AfterKill m)"
    using r by blast
  show ?thesis
  proof (cases "?targets = [] \<or> ?live AfterTerm n = []")
    case True
    then show ?thesis by (auto simp: sweep_groups_def Let_def n)
  next
    case False
    then have "sweep_groups w groups own term_wait kill_wait
        = (map (\<lambda>g. (g, SIGTERM)) ?targets @ map (\<lambda>g. (g, SIGKILL)) ?targets, Some (?live AfterKill m))"
      by (simp add: sweep_groups_def Let_def n(1) m split: list.split)
    moreover have "\<forall>k \<le> n. ?live AfterTerm k \<noteq> []" using n(3) False by (auto simp: le_less)
    moreover have "sw_signalled w AfterTerm + term_wait \<le> sw_clock w AfterTerm n" using n(2) False by blast
    ultimately show ?thesis by auto
  qed
qed

end
