(* ===== verification/Event_Log.thy ===== *)
theory Event_Log
  imports Session_Metadata Proc_Table Utf8 Output_Scanner
begin

text \<open>
  The event log of a session (\<^verbatim>\<open>crates/pty-core/src/events/mod.rs\<close>): the events, the file of one JSON line per event with
  its retention, the appends of one record and of a batch, the readers, and the background writer of the daemon. The printer
  of an event is an argument \<open>to_json\<close>; what the file system answers is an argument of each operation. Shown:
  retention keeps exactly the newest lines, a batch leaves the file that single appends would leave and publishes
  only extensions or shorter files, and the writer publishes every event once, in order, before it answers a flush.
\<close>

section \<open>Events\<close>

record Event =
  ev_session :: rstr
  ev_type :: rstr
  ev_ts :: rstr
  ev_payload :: "json imap"

datatype EvNotificationSource = Osc9 | Osc99 | Osc777

fun notification_source_str :: "EvNotificationSource \<Rightarrow> rstr" where
  "notification_source_str Osc9 = ustr ''osc9''"
| "notification_source_str Osc99 = ustr ''osc99''"
| "notification_source_str Osc777 = ustr ''osc777''"

datatype AbandonReason = CwdGone | Idle

fun abandon_reason_str :: "AbandonReason \<Rightarrow> rstr" where
  "abandon_reason_str CwdGone = ustr ''cwd-gone''"
| "abandon_reason_str Idle = ustr ''idle''"

definition SESSION_EXIT :: rstr where "SESSION_EXIT = ustr ''session_exit''"
definition USER_PREFIX :: rstr where "USER_PREFIX = ustr ''user.''"

text \<open>The first argument is the time of day that \<open>now_iso8601\<close> gives.\<close>

definition event_new :: "rstr \<Rightarrow> rstr \<Rightarrow> rstr \<Rightarrow> Event" where
  "event_new now session typ = \<lparr>ev_session = session, ev_type = typ, ev_ts = now, ev_payload = []\<rparr>"

definition with_ts :: "rstr \<Rightarrow> Event \<Rightarrow> Event" where
  "with_ts ts e = e\<lparr>ev_ts := ts\<rparr>"

definition with_field :: "string \<Rightarrow> json \<Rightarrow> Event \<Rightarrow> Event" where
  "with_field key value e = e\<lparr>ev_payload := imap_insert (ustr key) value (ev_payload e)\<rparr>"

definition with_optional :: "string \<Rightarrow> json option \<Rightarrow> Event \<Rightarrow> Event" where
  "with_optional key value e = (case value of Some v \<Rightarrow> with_field key v e | None \<Rightarrow> e)"

definition ev_get :: "Event \<Rightarrow> string \<Rightarrow> json option" where
  "ev_get e key = imap_get (ev_payload e) (ustr key)"

definition is_user_event :: "Event \<Rightarrow> bool" where
  "is_user_event e \<longleftrightarrow> take (length USER_PREFIX) (ev_type e) = USER_PREFIX"

definition tag_map_value :: "TagMap \<Rightarrow> json" where
  "tag_map_value tags = JObject (map (\<lambda>(k, v). (k, JString v)) tags)"

definition ev_bell :: "rstr \<Rightarrow> rstr \<Rightarrow> Event" where
  "ev_bell now session = event_new now session (ustr ''bell'')"

definition ev_title_change :: "rstr \<Rightarrow> rstr \<Rightarrow> rstr \<Rightarrow> Event" where
  "ev_title_change now session value = with_field ''value'' (JString value) (event_new now session (ustr ''title_change''))"

definition ev_notification :: "rstr \<Rightarrow> rstr \<Rightarrow> rstr option \<Rightarrow> rstr option \<Rightarrow> EvNotificationSource option \<Rightarrow> Event" where
  "ev_notification now session title body source =
     with_optional ''source'' (map_option (JString \<circ> notification_source_str) source)
       (with_optional ''body'' (map_option JString body)
         (with_optional ''title'' (map_option JString title) (event_new now session (ustr ''notification''))))"

definition ev_focus_request :: "rstr \<Rightarrow> rstr \<Rightarrow> Event" where
  "ev_focus_request now session = event_new now session (ustr ''focus_request'')"

definition ev_cursor_visible :: "rstr \<Rightarrow> rstr \<Rightarrow> Event" where
  "ev_cursor_visible now session = event_new now session (ustr ''cursor_visible'')"

definition ev_session_start :: "rstr \<Rightarrow> rstr \<Rightarrow> TagMap option \<Rightarrow> Event" where
  "ev_session_start now session tags =
     with_optional ''tags''
       (case tags of Some t \<Rightarrow> if t = [] then None else Some (tag_map_value t) | None \<Rightarrow> None)
       (event_new now session (ustr ''session_start''))"

definition ev_session_exit :: "rstr \<Rightarrow> rstr \<Rightarrow> int \<Rightarrow> int option \<Rightarrow> Event" where
  "ev_session_exit now session exit_code signal =
     with_optional ''signal'' (case signal of Some s \<Rightarrow> if s = 0 then None else Some (json_int s) | None \<Rightarrow> None)
       (with_field ''exitCode'' (json_int exit_code) (event_new now session SESSION_EXIT))"

definition ev_session_descendants_survived :: "rstr \<Rightarrow> rstr \<Rightarrow> int list \<Rightarrow> Event" where
  "ev_session_descendants_survived now session pids =
     with_field ''data'' (JObject [(ustr ''pids'', JArray (map json_int pids))])
       (event_new now session (ustr ''session_descendants_survived''))"

definition ev_session_exec :: "rstr \<Rightarrow> rstr \<Rightarrow> rstr \<Rightarrow> rstr \<Rightarrow> Event" where
  "ev_session_exec now session previous_command command =
     with_field ''command'' (JString command)
       (with_field ''previousCommand'' (JString previous_command) (event_new now session (ustr ''session_exec'')))"

definition ev_session_respawn :: "rstr \<Rightarrow> rstr \<Rightarrow> Event" where
  "ev_session_respawn now session = event_new now session (ustr ''session_respawn'')"

definition ev_session_abandoned :: "rstr \<Rightarrow> rstr \<Rightarrow> AbandonReason \<Rightarrow> u64 option \<Rightarrow> Event" where
  "ev_session_abandoned now session reason idle_days =
     with_optional ''idleDays'' (map_option (JNumber \<circ> PosInt) idle_days)
       (with_field ''reason'' (JString (abandon_reason_str reason)) (event_new now session (ustr ''session_abandoned'')))"

definition ev_session_flapping :: "rstr \<Rightarrow> rstr \<Rightarrow> u64 \<Rightarrow> u64 \<Rightarrow> u64 \<Rightarrow> Event" where
  "ev_session_flapping now session counter limit window =
     with_field ''window'' (JNumber (PosInt window))
       (with_field ''limit'' (JNumber (PosInt limit))
         (with_field ''counter'' (JNumber (PosInt counter)) (event_new now session (ustr ''session_flapping''))))"

definition ev_user :: "rstr \<Rightarrow> rstr \<Rightarrow> rstr \<Rightarrow> json option \<Rightarrow> rstr option \<Rightarrow> Event" where
  "ev_user now session typ data txt =
     with_optional ''text'' (map_option JString txt) (with_optional ''data'' data (event_new now session typ))"

definition ev_display_name_change :: "rstr \<Rightarrow> rstr \<Rightarrow> rstr option \<Rightarrow> rstr option \<Rightarrow> Event" where
  "ev_display_name_change now session previous value =
     (let text_or_null = (\<lambda>s. case s of Some t \<Rightarrow> JString t | None \<Rightarrow> JNull) in
      with_field ''value'' (text_or_null value)
        (with_field ''previous'' (text_or_null previous) (event_new now session (ustr ''display_name_change''))))"

definition ev_tags_change :: "rstr \<Rightarrow> rstr \<Rightarrow> TagMap \<Rightarrow> TagMap \<Rightarrow> Event" where
  "ev_tags_change now session previous value =
     with_field ''value'' (tag_map_value value)
       (with_field ''previous'' (tag_map_value previous) (event_new now session (ustr ''tags_change'')))"

text \<open>Which types a user may publish; the message of a refusal is given by its kind.\<close>

datatype user_type_error = TypeEmpty | TypeNotUser rstr | TypeNoSuffix | TypeSpace

definition validate_user_event_type :: "rstr \<Rightarrow> user_type_error option" where
  "validate_user_event_type typ =
     (if typ = [] then Some TypeEmpty
      else if take (length USER_PREFIX) typ \<noteq> USER_PREFIX then Some (TypeNotUser typ)
      else if typ = USER_PREFIX then Some TypeNoSuffix
      else if list_ex (\<lambda>c. is_js_whitespace c \<or> c < 0x20) typ then Some TypeSpace
      else None)"

section \<open>The file\<close>

definition MAX_LINES :: nat where "MAX_LINES = 1000"
definition KEEP_LINES :: nat where "KEEP_LINES = 500"
definition TRUNCATE_CHECK_INTERVAL :: nat where "TRUNCATE_CHECK_INTERVAL = 100"
definition TRUNCATE_SIZE_THRESHOLD :: nat where "TRUNCATE_SIZE_THRESHOLD = MAX_LINES * 40"

definition event_line :: "(Event \<Rightarrow> rstr) \<Rightarrow> Event \<Rightarrow> bytes" where
  "event_line to_json e = as_bytes (to_json e) @ [10]"

text \<open>\<open>retained_suffix\<close>: the suffix starts where the first line that is kept starts, after the bytes of those before it.\<close>

definition retained_suffix :: "bytes \<Rightarrow> bytes option" where
  "retained_suffix content =
     (case from_utf8 content of
        None \<Rightarrow> None
      | Some t \<Rightarrow>
          (let ls = split_on 10 (trim_end_matches is_whitespace t) in
           if length ls < MAX_LINES then None
           else Some (drop (length (as_bytes (concat (map (\<lambda>l. l @ [10]) (take (length ls - KEEP_LINES) ls))))) content)))"

text \<open>What reading the file answers, and whether the replacement of the file succeeds.\<close>

datatype log_read = LogBytes bytes | LogMissing | LogUnreadable rstr

definition append_line ::
  "(Event \<Rightarrow> rstr) \<Rightarrow> (bytes \<Rightarrow> rstr option) \<Rightarrow> log_read \<Rightarrow> Event \<Rightarrow> (nat \<Rightarrow> bool) \<Rightarrow> bytes option \<times> (rstr + unit)" where
  "append_line to_json refused read e should_check_retention =
     (case (case read of LogBytes b \<Rightarrow> Inr b | LogMissing \<Rightarrow> Inr [] | LogUnreadable m \<Rightarrow> Inl m) of
        Inl m \<Rightarrow> (None, Inl m)
      | Inr old \<Rightarrow>
          (let content = old @ event_line to_json e;
               published = (if should_check_retention (length content)
                            then (case retained_suffix content of Some s \<Rightarrow> s | None \<Rightarrow> content) else content)
           in
           (case refused published of Some m \<Rightarrow> (None, Inl m) | None \<Rightarrow> (Some published, Inr ()))))"

definition append_event_locked ::
  "(Event \<Rightarrow> rstr) \<Rightarrow> (bytes \<Rightarrow> rstr option) \<Rightarrow> log_read \<Rightarrow> Event \<Rightarrow> bytes option \<times> (rstr + unit)" where
  "append_event_locked to_json refused read e = append_line to_json refused read e (\<lambda>size. TRUNCATE_SIZE_THRESHOLD \<le> size)"

text \<open>\<open>append_event_sync\<close> and \<open>append_event\<close>, once the lock has answered: without waiting, or having waited.\<close>

definition append_event ::
  "(Event \<Rightarrow> rstr) \<Rightarrow> rstr + unit \<Rightarrow> (bytes \<Rightarrow> rstr option) \<Rightarrow> log_read \<Rightarrow> Event \<Rightarrow> bytes option \<times> (rstr + unit)" where
  "append_event to_json lock refused read e =
     (case lock of Inl m \<Rightarrow> (None, Inl m) | Inr _ \<Rightarrow> append_event_locked to_json refused read e)"

definition emit_user_event ::
  "(Event \<Rightarrow> rstr) \<Rightarrow> rstr + unit \<Rightarrow> (bytes \<Rightarrow> rstr option) \<Rightarrow> log_read \<Rightarrow> rstr \<Rightarrow> rstr \<Rightarrow> rstr \<Rightarrow> json option \<Rightarrow> rstr option
    \<Rightarrow> bytes option \<times> ((user_type_error + rstr) + Event)" where
  "emit_user_event to_json lock refused read now name typ data txt =
     (case validate_user_event_type typ of
        Some e \<Rightarrow> (None, Inl (Inl e))
      | None \<Rightarrow>
          (let e = ev_user now name typ data txt in
           (case append_event to_json lock refused read e of
              (file, Inl m) \<Rightarrow> (file, Inl (Inr m))
            | (file, Inr _) \<Rightarrow> (file, Inr e))))"

text \<open>
  \<open>append_batch\<close>: the content in memory, the length last published, whether something is unpublished, the count since the
  last check. \<open>refused\<close> answers for a replacement by the given bytes. The result is what was published, in order, the
  count, and whether all went well.
\<close>

record Batch =
  ba_content :: bytes
  ba_published_len :: nat
  ba_dirty :: bool
  ba_count :: nat
  ba_out :: "bytes list"

definition publish_snapshot :: "(bytes \<Rightarrow> bool) \<Rightarrow> Batch \<Rightarrow> Batch \<times> bool" where
  "publish_snapshot refused b =
     (if refused (ba_content b) then (b, False) else (b\<lparr>ba_out := ba_out b @ [ba_content b]\<rparr>, True))"

definition batch_shrink :: "(bytes \<Rightarrow> bool) \<Rightarrow> bytes \<Rightarrow> Batch \<Rightarrow> Batch \<times> bool" where
  "batch_shrink refused suffix b =
     (let start = length (ba_content b) - length suffix;
          retained_len = length (ba_content b) - start
      in
      (case (if retained_len \<ge> ba_published_len b then publish_snapshot refused b else (b, True)) of
         (b1, False) \<Rightarrow> (b1, False)
       | (b1, True) \<Rightarrow>
           (case publish_snapshot refused (b1\<lparr>ba_content := drop start (ba_content b1)\<rparr>) of
              (b2, False) \<Rightarrow> (b2, False)
            | (b2, True) \<Rightarrow> (b2\<lparr>ba_published_len := length (ba_content b2), ba_dirty := False\<rparr>, True))))"

definition batch_step :: "(Event \<Rightarrow> rstr) \<Rightarrow> (bytes \<Rightarrow> bool) \<Rightarrow> Event \<Rightarrow> Batch \<Rightarrow> Batch \<times> bool" where
  "batch_step to_json refused e b =
     (let b1 = b\<lparr>ba_content := ba_content b @ event_line to_json e, ba_dirty := True, ba_count := ba_count b + 1\<rparr> in
      if ba_count b1 \<ge> TRUNCATE_CHECK_INTERVAL then
        (case (case retained_suffix (ba_content b1) of Some s \<Rightarrow> batch_shrink refused s b1 | None \<Rightarrow> (b1, True)) of
           (b2, False) \<Rightarrow> (b2, False)
         | (b2, True) \<Rightarrow> (b2\<lparr>ba_count := 0\<rparr>, True))
      else (b1, True))"

fun batch_loop :: "(Event \<Rightarrow> rstr) \<Rightarrow> (bytes \<Rightarrow> bool) \<Rightarrow> Event list \<Rightarrow> Batch \<Rightarrow> Batch \<times> bool" where
  "batch_loop to_json refused [] b = (if ba_dirty b then publish_snapshot refused b else (b, True))"
| "batch_loop to_json refused (e # es) b =
     (case batch_step to_json refused e b of
        (b1, False) \<Rightarrow> (b1, False)
      | (b1, True) \<Rightarrow> batch_loop to_json refused es b1)"

definition append_batch ::
  "(Event \<Rightarrow> rstr) \<Rightarrow> (bytes \<Rightarrow> bool) \<Rightarrow> log_read \<Rightarrow> Event list \<Rightarrow> nat \<Rightarrow> bytes list \<times> nat \<times> bool" where
  "append_batch to_json refused read es count =
     (case (case read of LogBytes b \<Rightarrow> Some b | LogMissing \<Rightarrow> Some [] | LogUnreadable _ \<Rightarrow> None) of
        None \<Rightarrow> ([], count, False)
      | Some content \<Rightarrow>
          (case batch_loop to_json refused es
                  \<lparr>ba_content = content, ba_published_len = length content, ba_dirty = False, ba_count = count, ba_out = []\<rparr> of
             (b, ok) \<Rightarrow> (ba_out b, ba_count b, ok)))"

section \<open>Reading\<close>

text \<open>\<open>parse\<close> is the JSON reader of one line. From the end, until enough are found or one does not parse.\<close>

fun recent_loop :: "(rstr \<Rightarrow> Event option) \<Rightarrow> nat \<Rightarrow> rstr option \<Rightarrow> rstr list \<Rightarrow> Event list \<Rightarrow> Event list option" where
  "recent_loop parse count typ [] found = Some found"
| "recent_loop parse count typ (l # ls) found =
     (case parse l of
        None \<Rightarrow> None
      | Some e \<Rightarrow>
          if (case typ of None \<Rightarrow> True | Some t \<Rightarrow> ev_type e = t) then
            (if length found + 1 = count then Some (found @ [e]) else recent_loop parse count typ ls (found @ [e]))
          else recent_loop parse count typ ls found)"

definition read_recent_events_at :: "(rstr \<Rightarrow> Event option) \<Rightarrow> rstr option \<Rightarrow> nat \<Rightarrow> rstr option \<Rightarrow> Event list" where
  "read_recent_events_at parse content count typ =
     (if count = 0 then []
      else
        (case content of
           None \<Rightarrow> []
         | Some t \<Rightarrow>
             (case recent_loop parse count typ
                     (rev (filter (\<lambda>l. l \<noteq> []) (split_on 10 (trim_end_matches is_whitespace t)))) [] of
                None \<Rightarrow> []
              | Some found \<Rightarrow> rev found)))"

definition read_all_events_at :: "(rstr \<Rightarrow> Event option) \<Rightarrow> rstr option \<Rightarrow> Event list" where
  "read_all_events_at parse content =
     (case content of
        None \<Rightarrow> []
      | Some t \<Rightarrow> List.map_filter parse (filter (\<lambda>l. l \<noteq> []) (str_lines t)))"

section \<open>The background writer\<close>

text \<open>
  The writer's thread. \<open>WrAppend\<close> and \<open>WrFlush\<close> are what it is sent, \<open>WrTimeout\<close> and \<open>WrDisconnected\<close> what waiting
  can answer instead. A turn of its loop reads the clock at its head, and again when a deadline starts. \<open>wr_offered\<close> is
  every batch it tried to publish: whether the lock was free and the append succeeded is the argument \<open>publish\<close>.
\<close>

datatype WriterMsg = WrAppend Event | WrFlush | WrTimeout | WrDisconnected

record EventWriter =
  wr_count :: nat
  wr_pending :: "Event list"
  wr_deadline :: "nat option"
  wr_offered :: "Event list list"
  wr_replies :: nat
  wr_running :: bool

definition new_writer :: EventWriter where
  "new_writer = \<lparr>wr_count = 0, wr_pending = [], wr_deadline = None, wr_offered = [], wr_replies = 0, wr_running = True\<rparr>"

text \<open>\<open>publish es count\<close> is the count after a batch that was appended, None where the lock or the append failed.\<close>

definition writer_publish :: "(Event list \<Rightarrow> nat \<Rightarrow> nat option) \<Rightarrow> EventWriter \<Rightarrow> EventWriter" where
  "writer_publish publish w =
     (if wr_pending w = [] then w
      else w\<lparr>wr_count := (case publish (wr_pending w) (wr_count w) of Some n \<Rightarrow> n | None \<Rightarrow> wr_count w),
             wr_offered := wr_offered w @ [wr_pending w], wr_pending := []\<rparr>)"

definition BATCH_WAIT :: nat where "BATCH_WAIT = 250"

definition writer_due :: "(Event list \<Rightarrow> nat \<Rightarrow> nat option) \<Rightarrow> nat \<Rightarrow> EventWriter \<Rightarrow> EventWriter" where
  "writer_due publish now w =
     (case wr_deadline w of
        Some until \<Rightarrow> if until \<le> now then (writer_publish publish w)\<lparr>wr_deadline := None\<rparr> else w
      | None \<Rightarrow> w)"

definition writer_takes :: "(Event list \<Rightarrow> nat \<Rightarrow> nat option) \<Rightarrow> nat \<Rightarrow> WriterMsg \<Rightarrow> EventWriter \<Rightarrow> EventWriter" where
  "writer_takes publish now msg w =
     (case msg of
        WrAppend e \<Rightarrow>
          (let w1 = w\<lparr>wr_pending := wr_pending w @ [e],
                      wr_deadline := (case wr_deadline w of None \<Rightarrow> Some (now + BATCH_WAIT) | d \<Rightarrow> d)\<rparr>
           in if ev_type e = SESSION_EXIT then (writer_publish publish w1)\<lparr>wr_deadline := None\<rparr> else w1)
      | WrFlush \<Rightarrow> (let w1 = (writer_publish publish w)\<lparr>wr_deadline := None\<rparr> in w1\<lparr>wr_replies := wr_replies w1 + 1\<rparr>)
      | WrTimeout \<Rightarrow> (writer_publish publish w)\<lparr>wr_deadline := None\<rparr>
      | WrDisconnected \<Rightarrow> (writer_publish publish w)\<lparr>wr_running := False\<rparr>)"

text \<open>One turn: the time at its head, what waiting answered, and the time after it.\<close>

definition writer_turn :: "(Event list \<Rightarrow> nat \<Rightarrow> nat option) \<Rightarrow> nat \<times> WriterMsg \<times> nat \<Rightarrow> EventWriter \<Rightarrow> EventWriter" where
  "writer_turn publish x w =
     (if \<not> wr_running w then w
      else (case x of (now, msg, after) \<Rightarrow> writer_takes publish after msg (writer_due publish now w)))"

section \<open>Retention keeps the newest lines\<close>

text \<open>A line as the log holds it: text without a line feed that does not end in white space, as a JSON object does not.\<close>

definition log_line :: "rstr \<Rightarrow> bool" where
  "log_line l \<longleftrightarrow> list_all scalar l \<and> 10 \<notin> set l \<and> l \<noteq> [] \<and> \<not> is_whitespace (last l)"

definition text_of :: "rstr list \<Rightarrow> rstr" where
  "text_of ls = concat (map (\<lambda>l. l @ [10]) ls)"

definition log_of :: "rstr list \<Rightarrow> bytes" where
  "log_of ls = as_bytes (text_of ls)"

lemma text_of_simps [simp]:
  "text_of [] = []" "text_of (l # ls) = l @ 10 # text_of ls" "text_of (ls @ ms) = text_of ls @ text_of ms"
  by (simp_all add: text_of_def)

lemma as_bytes_append [simp]: "as_bytes (a @ b) = as_bytes a @ as_bytes b"
  by (simp add: as_bytes_def)

lemma log_of_append [simp]: "log_of (ls @ ms) = log_of ls @ log_of ms"
  by (simp add: log_of_def)

lemma log_of_line: "log_of [l] = as_bytes l @ [10]"
  by (simp add: log_of_def as_bytes_def char_bytes_def byte_def)

lemma log_of_Nil [simp]: "log_of [] = []"
  by (simp add: log_of_def as_bytes_def)

lemma log_of_empty: "log_of ls = [] \<longleftrightarrow> ls = []"
  by (cases ls) (simp_all add: log_of_def as_bytes_def char_bytes_def)

lemma read_log: "list_all log_line ls \<Longrightarrow> from_utf8 (log_of ls) = Some (text_of ls)"
proof -
  assume "list_all log_line ls"
  then have "list_all scalar (text_of ls)"
    by (induction ls) (auto simp: log_line_def scalar_def)
  then show ?thesis by (simp add: log_of_def from_utf8_as_bytes)
qed

lemma split_text:
  assumes "list_all log_line (ls @ [l])"
  shows "split_on 10 (trim_end_matches is_whitespace (text_of (ls @ [l]))) = ls @ [l]"
proof -
  have "is_whitespace 10" by (simp add: is_whitespace_def)
  moreover have "dropWhile is_whitespace (rev l) = rev l"
    using assms by (cases l rule: rev_cases) (auto simp: log_line_def)
  ultimately have "trim_end_matches is_whitespace (text_of (ls @ [l])) = text_of ls @ l"
    using assms by (cases l rule: rev_cases) (auto simp: trim_end_matches_def log_line_def)
  moreover have "split_on 10 (text_of ls @ l) = ls @ [l]"
    using assms by (induction ls) (auto simp: log_line_def split_on_field split_on_none)
  ultimately show ?thesis by simp
qed

text \<open>The newest lines of a log that is due.\<close>

definition keep_newest :: "rstr list \<Rightarrow> rstr list" where
  "keep_newest ls = (if length ls < MAX_LINES then ls else drop (length ls - KEEP_LINES) ls)"

lemma retained_log:
  assumes "list_all log_line ls" and "ls \<noteq> []"
  shows "retained_suffix (log_of ls) =
    (if length ls < MAX_LINES then None else Some (log_of (drop (length ls - KEEP_LINES) ls)))"
proof -
  have "split_on 10 (trim_end_matches is_whitespace (text_of ls)) = ls"
    using assms split_text by (cases ls rule: rev_cases) auto
  moreover have "drop (length (log_of (take n ls))) (log_of ls) = log_of (drop n ls)" for n
  proof -
    have "log_of ls = log_of (take n ls) @ log_of (drop n ls)" by (simp flip: log_of_append)
    then show ?thesis by simp
  qed
  ultimately show ?thesis
    using read_log [OF assms(1)] by (simp add: retained_suffix_def log_of_def text_of_def)
qed

section \<open>A batch is its single appends\<close>

text \<open>The reference: one record after another, with the check at every hundredth.\<close>

definition append_counted :: "(Event \<Rightarrow> rstr) \<Rightarrow> rstr list \<times> nat \<Rightarrow> Event \<Rightarrow> rstr list \<times> nat" where
  "append_counted to_json s e =
     (let ls = fst s @ [to_json e] in
      if snd s + 1 \<ge> TRUNCATE_CHECK_INTERVAL then (keep_newest ls, 0) else (ls, snd s + 1))"

text \<open>A follower that remembers an offset recognises the next file: it extends the last one or is shorter.\<close>

definition recognisable :: "bytes \<Rightarrow> bytes \<Rightarrow> bool" where
  "recognisable a b \<longleftrightarrow> take (length a) b = a \<or> length b < length a"

definition whole_log :: "bytes \<Rightarrow> bool" where
  "whole_log b \<longleftrightarrow> (\<exists>ls. list_all log_line ls \<and> b = log_of ls)"

text \<open>The state of a batch that started on \<open>first\<close>, with the lines that single appends would have left.\<close>

definition batch_inv :: "bytes \<Rightarrow> rstr list \<Rightarrow> Batch \<Rightarrow> bool" where
  "batch_inv first ls b \<longleftrightarrow>
     ba_content b = log_of ls \<and> list_all log_line ls
     \<and> successively recognisable (first # ba_out b) \<and> list_all whole_log (ba_out b)
     \<and> ba_published_len b = length (last (first # ba_out b))
     \<and> take (length (last (first # ba_out b))) (ba_content b) = last (first # ba_out b)
     \<and> (ba_dirty b \<or> ba_content b = last (first # ba_out b))"

definition published_ok :: "bytes \<Rightarrow> Batch \<Rightarrow> bool" where
  "published_ok first b \<longleftrightarrow> successively recognisable (first # ba_out b) \<and> list_all whole_log (ba_out b)"

lemma batch_inv_ok: "batch_inv first ls b \<Longrightarrow> published_ok first b"
  by (simp add: batch_inv_def published_ok_def)

lemma batch_recognisable: "batch_inv first ls b \<Longrightarrow> recognisable (last (first # ba_out b)) (ba_content b)"
  unfolding batch_inv_def recognisable_def by blast

lemma successively_snoc: "successively P (x # xs @ [y]) \<longleftrightarrow> successively P (x # xs) \<and> P (last (x # xs)) y"
  using successively_append_iff [of P "x # xs" "[y]"] by simp

text \<open>Publishing what the batch holds, whether it extends what was published or is shorter.\<close>

lemma publish_snapshot_inv:
  assumes "published_ok first b" and "ba_content b = log_of ls" and "list_all log_line ls"
    and "recognisable (last (first # ba_out b)) (ba_content b)" and "publish_snapshot refused b = (b', done)"
  shows "published_ok first b' \<and> ba_count b' = ba_count b \<and> ba_content b' = ba_content b
    \<and> ba_published_len b' = ba_published_len b \<and> (done \<longrightarrow> last (first # ba_out b') = ba_content b)"
proof (cases "refused (ba_content b)")
  case False
  then have b': "b' = b\<lparr>ba_out := ba_out b @ [ba_content b]\<rparr>" "done" using assms(5) by (auto simp: publish_snapshot_def)
  have "whole_log (ba_content b)" using assms(2,3) by (auto simp: whole_log_def)
  then show ?thesis using assms(1,4) b' successively_snoc [of recognisable first "ba_out b" "ba_content b"]
    by (simp add: published_ok_def del: successively.simps)
qed (use assms in \<open>auto simp: publish_snapshot_def\<close>)

lemma drop_to_suffix: "drop (length x - length s) x = s" if "x = p @ s" for x p s :: bytes
  using that by simp

lemma batch_shrink_inv:
  assumes inv: "batch_inv first ls b" and due: "MAX_LINES \<le> length ls"
    and run: "batch_shrink refused (log_of (drop (length ls - KEEP_LINES) ls)) b = (b', done)"
  shows "published_ok first b' \<and> (done \<longrightarrow> batch_inv first (keep_newest ls) b') \<and> ba_count b' = ba_count b"
proof -
  let ?new = "drop (length ls - KEEP_LINES) ls"
  let ?s = "log_of ?new"
  have c: "ba_content b = log_of ls" "list_all log_line ls" using inv by (simp_all add: batch_inv_def)
  have split: "log_of ls = log_of (take (length ls - KEEP_LINES) ls) @ ?s" by (simp flip: log_of_append)
  have "take (length ls - KEEP_LINES) ls \<noteq> []" using due by (auto simp: MAX_LINES_def KEEP_LINES_def)
  then have short: "length ?s < length (log_of ls)" using split by (auto simp: log_of_empty)
  have lines: "list_all log_line ?new" using c(2) by (auto simp: list_all_iff dest: in_set_dropD)
  define start where "start = length (ba_content b) - length ?s"
  have start: "drop start (ba_content b) = ?s" "length (ba_content b) - start = length ?s"
    using drop_to_suffix [OF split] short by (simp_all add: start_def c(1))
  obtain b1 ok1 where one: "(if length ?s \<ge> ba_published_len b then publish_snapshot refused b else (b, True)) = (b1, ok1)"
    by fastforce
  have b1: "published_ok first b1" "ba_content b1 = ba_content b" "ba_count b1 = ba_count b"
      "ok1 \<longrightarrow> length ?s < length (last (first # ba_out b1))"
  proof -
    note r = batch_recognisable [OF inv]
    have pub: "ba_published_len b = length (last (first # ba_out b))" using inv by (simp only: batch_inv_def)
    have "published_ok first b1 \<and> ba_content b1 = ba_content b \<and> ba_count b1 = ba_count b
      \<and> (ok1 \<longrightarrow> length ?s < length (last (first # ba_out b1)))"
    proof (cases "ba_published_len b \<le> length ?s")
      case True
      then have "publish_snapshot refused b = (b1, ok1)" using one by simp
      from publish_snapshot_inv [OF batch_inv_ok [OF inv] c r this] show ?thesis using short c(1) by auto
    next
      case False
      then have "b1 = b" using one by simp
      then show ?thesis using batch_inv_ok [OF inv] False pub by simp
    qed
    then show "published_ok first b1" "ba_content b1 = ba_content b" "ba_count b1 = ba_count b"
      "ok1 \<longrightarrow> length ?s < length (last (first # ba_out b1))" by blast+
  qed
  obtain b2 ok2 where two: "publish_snapshot refused (b1\<lparr>ba_content := drop start (ba_content b1)\<rparr>) = (b2, ok2)" by fastforce
  have run': "batch_shrink refused ?s b = (if \<not> ok1 then (b1, False) else if \<not> ok2 then (b2, False)
      else (b2\<lparr>ba_published_len := length (ba_content b2), ba_dirty := False\<rparr>, True))"
    unfolding batch_shrink_def Let_def start_def [symmetric] start(2) one by (simp add: two split: bool.split)
  show ?thesis
  proof (cases ok1)
    case False
    then show ?thesis using run run' b1 by auto
  next
    case True
    let ?b1 = "b1\<lparr>ba_content := drop start (ba_content b1)\<rparr>"
    have "published_ok first ?b1" "ba_content ?b1 = log_of ?new" "recognisable (last (first # ba_out ?b1)) (ba_content ?b1)"
      using b1 True start(1) by (auto simp: published_ok_def recognisable_def)
    from publish_snapshot_inv [OF this(1,2) lines this(3) two]
    have b2: "published_ok first b2" "ba_count b2 = ba_count b" "ba_content b2 = ?s" "ok2 \<longrightarrow> last (first # ba_out b2) = ?s"
      using b1 start(1) by auto
    show ?thesis
    proof (cases ok2)
      case False
      then have "b' = b2" "\<not> done" using run run' True by simp_all
      then show ?thesis using b2 by simp
    next
      case ok2: True
      then have b': "b' = b2\<lparr>ba_published_len := length (ba_content b2), ba_dirty := False\<rparr>"
        using run run' True by simp
      have l: "last (first # ba_out b') = ?s" using b2(4) ok2 unfolding b' by simp
      have "batch_inv first ?new b'"
        unfolding batch_inv_def l using b2(1,3) lines by (simp add: b' published_ok_def)
      then show ?thesis using b2 due batch_inv_ok by (auto simp: keep_newest_def b')
    qed
  qed
qed

lemma take_longer: "take (length a) b = a \<Longrightarrow> take (length a) (b @ c) = a"
  by (metis append.assoc append_eq_conv_conj append_take_drop_id)

lemma batch_grow:
  assumes "batch_inv first ls b" and "log_line l"
  shows "batch_inv first (ls @ [l]) (b\<lparr>ba_content := ba_content b @ as_bytes l @ [10], ba_dirty := True, ba_count := k\<rparr>)"
proof -
  let ?last = "last (first # ba_out b)"
  have a: "ba_content b = log_of ls" "list_all log_line ls" "successively recognisable (first # ba_out b)"
    "list_all whole_log (ba_out b)" "ba_published_len b = length ?last" "take (length ?last) (ba_content b) = ?last"
    using assms(1) unfolding batch_inv_def by blast+
  have t: "take (length ?last) (log_of ls @ as_bytes l @ [10]) = ?last" using a(6) unfolding a(1) by (rule take_longer)
  show ?thesis unfolding batch_inv_def
    by (intro conjI) (use a(1-5) t assms(2) in \<open>simp_all add: log_of_line del: last.simps take_append successively.simps\<close>)
qed

lemma batch_inv_count [simp]: "batch_inv first ls (b\<lparr>ba_count := k\<rparr>) = batch_inv first ls b"
  by (simp add: batch_inv_def)

lemma batch_step_inv:
  assumes inv: "batch_inv first ls b" and line: "log_line (to_json e)" and run: "batch_step to_json refused e b = (b', done)"
  shows "published_ok first b' \<and> (done \<longrightarrow> batch_inv first (fst (append_counted to_json (ls, ba_count b) e)) b'
    \<and> ba_count b' = snd (append_counted to_json (ls, ba_count b) e))"
proof -
  let ?ls = "ls @ [to_json e]"
  let ?b1 = "b\<lparr>ba_content := ba_content b @ event_line to_json e, ba_dirty := True, ba_count := ba_count b + 1\<rparr>"
  have b1: "batch_inv first ?ls ?b1"
    unfolding event_line_def using inv line by (rule batch_grow)
  show ?thesis
  proof (cases "TRUNCATE_CHECK_INTERVAL \<le> ba_count b + 1")
    case False
    then show ?thesis using run b1 batch_inv_ok [OF b1] by (auto simp: batch_step_def append_counted_def Let_def)
  next
    case True
    have r: "retained_suffix (ba_content ?b1) =
        (if length ?ls < MAX_LINES then None else Some (log_of (drop (length ?ls - KEEP_LINES) ?ls)))"
      using b1 retained_log [of ?ls] by (simp add: batch_inv_def)
    show ?thesis
    proof (cases "length ?ls < MAX_LINES")
      case l: True
      then have "b' = ?b1\<lparr>ba_count := 0\<rparr>" "done" using run r True by (auto simp: batch_step_def Let_def)
      moreover have "batch_inv first ?ls (?b1\<lparr>ba_count := 0\<rparr>)" using b1 by (subst batch_inv_count)
      ultimately show ?thesis using batch_inv_ok True l by (auto simp: append_counted_def Let_def keep_newest_def)
    next
      case l: False
      obtain b2 ok where two: "batch_shrink refused (log_of (drop (length ?ls - KEEP_LINES) ?ls)) ?b1 = (b2, ok)" by fastforce
      have i: "published_ok first b2" "ok \<longrightarrow> batch_inv first (keep_newest ?ls) b2"
        using batch_shrink_inv [OF b1 _ two] l by auto
      have "b' = (if ok then b2\<lparr>ba_count := 0\<rparr> else b2)" "done = ok"
        using run r True l two by (auto simp: batch_step_def Let_def split: bool.splits)
      moreover have "ok \<longrightarrow> batch_inv first (keep_newest ?ls) (b2\<lparr>ba_count := 0\<rparr>)" using i by simp
      ultimately show ?thesis using i True by (auto simp: append_counted_def Let_def published_ok_def)
    qed
  qed
qed

lemma batch_loop_inv:
  "batch_inv first ls b \<Longrightarrow> \<forall>e \<in> set es. log_line (to_json e) \<Longrightarrow> batch_loop to_json refused es b = (b', done) \<Longrightarrow>
     published_ok first b' \<and> (done \<longrightarrow>
       last (first # ba_out b') = log_of (fst (foldl (append_counted to_json) (ls, ba_count b) es))
       \<and> ba_count b' = snd (foldl (append_counted to_json) (ls, ba_count b) es))"
proof (induction es arbitrary: ls b)
  case Nil
  note r = batch_recognisable [OF Nil.prems(1)]
  have c: "ba_content b = log_of ls" "list_all log_line ls" using Nil.prems(1) by (simp_all add: batch_inv_def)
  show ?case
  proof (cases "ba_dirty b")
    case True
    then show ?thesis using Nil.prems(3) publish_snapshot_inv [OF batch_inv_ok [OF Nil.prems(1)] c r, of refused b' "done"] c
      by simp
  next
    case False
    then show ?thesis using Nil.prems c batch_inv_ok [OF Nil.prems(1)] by (auto simp: batch_inv_def)
  qed
next
  case (Cons e es)
  obtain b1 ok where one: "batch_step to_json refused e b = (b1, ok)" by fastforce
  note i = batch_step_inv [OF Cons.prems(1) _ one]
  show ?case
  proof (cases ok)
    case False
    then have "b' = b1" "\<not> done" using Cons.prems(3) by (simp_all add: one)
    then show ?thesis using Cons.prems(2) i by simp
  next
    case True
    then have "batch_loop to_json refused es b1 = (b', done)" using Cons.prems by (simp add: one)
    moreover have "append_counted to_json (ls, ba_count b) e
        = (fst (append_counted to_json (ls, ba_count b) e), ba_count b1)" using i True Cons.prems by (simp add: prod_eq_iff)
    moreover have "batch_inv first (fst (append_counted to_json (ls, ba_count b) e)) b1" using i True Cons.prems(2) by simp
    ultimately show ?thesis using Cons.IH [of _ b1] Cons.prems(2) by simp
  qed
qed

text \<open>
  C24. A batch does to the log what its records would have done one by one. Whatever replacement of the file is refused
  on the way, every file it publishes is a log of whole lines which extends the one before it or is shorter, so that a
  follower recognises a retention rewrite. When none is refused, the last file and the count
  for the next check are those of appending record after record, keeping the newest lines at every hundredth.
\<close>

theorem batch_is_single_appends:
  assumes "list_all log_line ls" and "\<forall>e \<in> set es. log_line (to_json e)"
    and "append_batch to_json refused (LogBytes (log_of ls)) es n = (files, n', done)"
  shows "successively recognisable (log_of ls # files) \<and> list_all whole_log files
    \<and> (done \<longrightarrow> (last (log_of ls # files), n') = map_prod log_of id (foldl (append_counted to_json) (ls, n) es))"
proof -
  let ?b = "\<lparr>ba_content = log_of ls, ba_published_len = length (log_of ls), ba_dirty = False, ba_count = n, ba_out = []\<rparr>"
  have "batch_inv (log_of ls) ls ?b" using assms(1) by (simp add: batch_inv_def)
  moreover obtain b ok where l: "batch_loop to_json refused es ?b = (b, ok)" by fastforce
  ultimately have i: "published_ok (log_of ls) b \<and> (ok \<longrightarrow>
       last (log_of ls # ba_out b) = log_of (fst (foldl (append_counted to_json) (ls, n) es))
       \<and> ba_count b = snd (foldl (append_counted to_json) (ls, n) es))"
    using batch_loop_inv [of "log_of ls" ls ?b es to_json refused b ok] assms(2) by simp
  moreover have "files = ba_out b" "n' = ba_count b" "done = ok"
    using assms(3) l by (auto simp: append_batch_def)
  ultimately show ?thesis by (simp add: published_ok_def prod_eq_iff del: successively.simps last.simps)
qed

definition example_event :: "string \<Rightarrow> Event" where
  "example_event typ = event_new [] [] (ustr typ)"

theorem batch_is_single_appends_witness:
  "\<exists>files. append_batch ev_type (\<lambda>_. False) (LogBytes []) [example_event ''bell'', example_event ''title''] 99
       = (files, 1, True) \<and> last files = log_of [ustr ''bell'', ustr ''title'']"
proof -
  let ?es = "[example_event ''bell'', example_event ''title'']"
  obtain files n' "done" where r: "append_batch ev_type (\<lambda>_. False) (LogBytes (log_of [])) ?es 99 = (files, n', done)"
    by (metis prod_cases3)
  have "snd (snd (append_batch ev_type (\<lambda>_. False) (LogBytes []) ?es 99))" by code_simp
  then have d: "done" using r by simp
  have "log_line (ev_type e)" if "e \<in> set ?es" for e
    using that by (auto simp: log_line_def example_event_def event_new_def ustr_def scalar_def is_whitespace_def)
  then have "(last (log_of [] # files), n') = map_prod log_of id (foldl (append_counted ev_type) ([], 99) ?es)"
    using batch_is_single_appends [of "[]" ?es ev_type "\<lambda>_. False" 99 files n' "done"] r d by auto
  then have l: "last ([] # files) = log_of [ustr ''bell'', ustr ''title'']" "n' = 1"
    by (simp_all add: append_counted_def keep_newest_def MAX_LINES_def TRUNCATE_CHECK_INTERVAL_def example_event_def event_new_def
        del: last.simps)
  moreover have "log_of [ustr ''bell'', ustr ''title''] \<noteq> []" by (simp only: log_of_empty) simp
  ultimately have "files \<noteq> []" by auto
  then show ?thesis using l r d by simp
qed

section \<open>The size gate\<close>

lemma log_of_length: "\<forall>l \<in> set ls. k \<le> length (as_bytes l) + 1 \<Longrightarrow> length ls * k \<le> length (log_of ls)"
proof (induction ls)
  case (Cons l ls)
  have "log_of (l # ls) = log_of [l] @ log_of ls" using log_of_append [of "[l]" ls] by simp
  then show ?case using Cons by (simp add: log_of_line)
qed simp

lemma keep_newest_short: "length (keep_newest ls) < MAX_LINES"
  by (auto simp: keep_newest_def MAX_LINES_def KEEP_LINES_def)

text \<open>
  A one-shot append keeps the log bounded although it counts lines only above a size. If no line is shorter than the
  40 bytes the gate assumes, appending to any log of whole lines publishes exactly the newest lines of the old log and the
  new record: all of them while they are fewer than a thousand, else the last five hundred.
\<close>

theorem one_shot_log_bounded:
  assumes "list_all log_line (ls @ [to_json e])" and "\<forall>l \<in> set (ls @ [to_json e]). 40 \<le> length (as_bytes l) + 1"
  shows "append_event_locked to_json (\<lambda>_. None) (LogBytes (log_of ls)) e = (Some (log_of (keep_newest (ls @ [to_json e]))), Inr ())
    \<and> length (keep_newest (ls @ [to_json e])) < MAX_LINES"
proof -
  let ?ls = "ls @ [to_json e]"
  have c: "log_of ls @ event_line to_json e = log_of ?ls" by (simp add: event_line_def log_of_line)
  have "length ?ls < MAX_LINES" if "\<not> TRUNCATE_SIZE_THRESHOLD \<le> length (log_of ?ls)"
    using that log_of_length [OF assms(2)] by (simp add: TRUNCATE_SIZE_THRESHOLD_def MAX_LINES_def del: log_of_append)
  then have "append_event_locked to_json (\<lambda>_. None) (LogBytes (log_of ls)) e = (Some (log_of (keep_newest ?ls)), Inr ())"
    using retained_log [OF assms(1)] unfolding append_event_locked_def append_line_def
    by (auto simp: c keep_newest_def Let_def simp del: log_of_append length_append)
  then show ?thesis using keep_newest_short by simp
qed

theorem one_shot_log_bounded_witness:
  "append_event_locked (\<lambda>_. replicate 39 97) (\<lambda>_. None) (LogBytes []) (example_event ''bell'')
     = (Some (log_of [replicate 39 97]), Inr ())"
proof -
  have "length (as_bytes (replicate 39 97)) = 39" by (simp add: as_bytes_def char_bytes_def)
  then show ?thesis
    using one_shot_log_bounded [of "[]" "\<lambda>_. replicate 39 97" "example_event ''bell''"]
    by (simp add: log_line_def scalar_def is_whitespace_def keep_newest_def MAX_LINES_def list_all_iff)
qed

section \<open>The writer offers every event once\<close>

text \<open>What was sent before the channel closed.\<close>

definition sent_events :: "(nat \<times> WriterMsg \<times> nat) list \<Rightarrow> Event list" where
  "sent_events turns =
     List.map_filter (\<lambda>(_, m, _). case m of WrAppend e \<Rightarrow> Some e | _ \<Rightarrow> None)
       (takeWhile (\<lambda>(_, m, _). m \<noteq> WrDisconnected) turns)"

definition writer_inv :: "Event list \<Rightarrow> EventWriter \<Rightarrow> bool" where
  "writer_inv sent w \<longleftrightarrow>
     concat (wr_offered w) @ wr_pending w = sent \<and> (wr_running w \<longrightarrow> (wr_deadline w = None \<longleftrightarrow> wr_pending w = []))
     \<and> (\<not> wr_running w \<longrightarrow> wr_pending w = []) \<and> list_all (\<lambda>b. b \<noteq> []) (wr_offered w)
     \<and> list_all (\<lambda>e. ev_type e \<noteq> SESSION_EXIT) (wr_pending w)"

lemma writer_publish_fields:
  "wr_pending (writer_publish publish w) = []" "wr_running (writer_publish publish w) = wr_running w"
  "concat (wr_offered (writer_publish publish w)) = concat (wr_offered w) @ wr_pending w"
  "list_all (\<lambda>b. b \<noteq> []) (wr_offered w) \<Longrightarrow> list_all (\<lambda>b. b \<noteq> []) (wr_offered (writer_publish publish w))"
  by (simp_all add: writer_publish_def)

lemma writer_due_inv: "writer_inv sent w \<Longrightarrow> wr_running w \<Longrightarrow> writer_inv sent (writer_due publish now w)"
  by (auto simp: writer_inv_def writer_due_def writer_publish_fields split: option.split)

lemma writer_takes_inv:
  "writer_inv sent w \<Longrightarrow> wr_running w \<Longrightarrow>
     writer_inv (sent @ (case m of WrAppend e \<Rightarrow> [e] | _ \<Rightarrow> [])) (writer_takes publish now m w)
     \<and> wr_running (writer_takes publish now m w) = (m \<noteq> WrDisconnected)"
  by (cases m) (auto simp: writer_inv_def writer_takes_def Let_def writer_publish_fields split: option.split)

lemma writer_due_running [simp]: "wr_running (writer_due publish now w) = wr_running w"
  by (simp add: writer_due_def writer_publish_fields split: option.split)

text \<open>
  The writer loses and repeats nothing. After any turns of its thread, with whatever timeouts, the batches it has
  offered for publication and the events still pending are together exactly what it was sent, in order, until the
  channel closed; no batch is empty; a deadline is set while something is pending; and no exit record is ever left
  pending, nor anything once the channel is closed.
\<close>

theorem writer_offers_in_order:
  "writer_inv (sent_events turns) (foldl (\<lambda>w x. writer_turn publish x w) new_writer turns)
   \<and> wr_running (foldl (\<lambda>w x. writer_turn publish x w) new_writer turns)
     = (WrDisconnected \<notin> (\<lambda>x. fst (snd x)) ` set turns)"
proof (induction turns rule: rev_induct)
  case Nil
  show ?case by (simp add: writer_inv_def new_writer_def sent_events_def List.map_filter_simps)
next
  case (snoc x xs)
  let ?w = "foldl (\<lambda>w x. writer_turn publish x w) new_writer xs"
  obtain now m after where x: "x = (now, m, after)" by (cases x)
  show ?case
  proof (cases "WrDisconnected \<in> (\<lambda>x. fst (snd x)) ` set xs")
    case True
    then have "\<not> wr_running ?w" using snoc by simp
    moreover have "sent_events (xs @ [x]) = sent_events xs"
    proof -
      have "takeWhile (\<lambda>(_, m, _). m \<noteq> WrDisconnected) (xs @ [x]) = takeWhile (\<lambda>(_, m, _). m \<noteq> WrDisconnected) xs"
        using True by (auto simp: takeWhile_append case_prod_unfold)
      then show ?thesis by (simp add: sent_events_def)
    qed
    ultimately show ?thesis using snoc True by (simp add: writer_turn_def)
  next
    case False
    then have r: "wr_running ?w" and i: "writer_inv (sent_events xs) ?w" using snoc by auto
    have t1: "takeWhile (\<lambda>(_, m, _). m \<noteq> WrDisconnected) (xs @ [x]) = xs @ takeWhile (\<lambda>(_, m, _). m \<noteq> WrDisconnected) [x]"
      using False by (intro takeWhile_append2) (force simp: case_prod_unfold)
    have t2: "takeWhile (\<lambda>(_, m, _). m \<noteq> WrDisconnected) xs = xs"
      using False by (force simp: takeWhile_eq_all_conv case_prod_unfold)
    have "sent_events (xs @ [x]) = sent_events xs @ (case m of WrAppend e \<Rightarrow> [e] | _ \<Rightarrow> [])"
      unfolding sent_events_def t1 t2 by (cases m) (simp_all add: x List.map_filter_def)
    then show ?thesis
      using writer_takes_inv [OF writer_due_inv [OF i r], where m = m and publish = publish and now = after] r False
      by (simp add: x writer_turn_def image_iff) blast
  qed
qed

end
