(* ===== verification/Event_Follow.thy ===== *)
theory Event_Follow
  imports Event_Log
begin

text \<open>
  The follower of event logs (\<^verbatim>\<open>crates/pty-core/src/events/follow.rs\<close>): what it remembers of one log, the reading of what is
  new in it, and one round over a followed session. What opening and reading the file answers, and what the registry says
  of the session, are arguments; so is the JSON reader of a line. Shown: over any polls, whatever the
  file held at each of them, no line of it is missed, and while the file only grows each line is delivered once, in order.
\<close>

section \<open>Reading what is new\<close>

text \<open>\<open>tr_identity\<close> is the device and the inode of the file last read.\<close>

record Tracked =
  tr_offset :: nat
  tr_snapshot :: bytes
  tr_identity :: "(nat \<times> nat) option"
  tr_registry_seen :: bool

definition tracked_existing :: "bytes \<Rightarrow> Tracked" where
  "tracked_existing snapshot =
     \<lparr>tr_offset = length snapshot, tr_snapshot = snapshot, tr_identity = None, tr_registry_seen = False\<rparr>"

definition tracked_new :: Tracked where
  "tracked_new = \<lparr>tr_offset = 0, tr_snapshot = [], tr_identity = None, tr_registry_seen = False\<rparr>"

definition EVENTS_SUFFIX :: rstr where "EVENTS_SUFFIX = ustr ''.events.jsonl''"

definition name_of :: "rstr \<Rightarrow> rstr option" where
  "name_of file_name =
     (let n = length file_name - length EVENTS_SUFFIX in
      if length EVENTS_SUFFIX \<le> length file_name \<and> drop n file_name = EVENTS_SUFFIX then Some (take n file_name) else None)"

text \<open>\<open>discover_new\<close>, over the names in the directory: a log that was not there replays from its start.\<close>

fun discover_new :: "rstr list \<Rightarrow> (rstr \<times> Tracked) list \<Rightarrow> (rstr \<times> Tracked) list" where
  "discover_new [] tracked = tracked"
| "discover_new (f # fs) tracked =
     (case name_of f of
        None \<Rightarrow> discover_new fs tracked
      | Some n \<Rightarrow> discover_new fs (if map_of tracked n = None then AList.update n tracked_new tracked else tracked))"

text \<open>What the file answers: it cannot be opened, or its identity, its length, and its bytes if they can be read.\<close>

datatype file_answer = FileGone | FileIs "nat \<times> nat" nat "bytes option"

text \<open>\<open>slice.get(..k)\<close>, and \<open>rposition\<close> of a line feed.\<close>

definition get_to :: "nat \<Rightarrow> bytes \<Rightarrow> bytes option" where
  "get_to k xs = (if k \<le> length xs then Some (take k xs) else None)"

fun rposition_newline :: "bytes \<Rightarrow> nat option" where
  "rposition_newline [] = None"
| "rposition_newline (b # bs) =
     (case rposition_newline bs of Some n \<Rightarrow> Some (Suc n) | None \<Rightarrow> if b = 10 then Some 0 else None)"

definition delivered_lines :: "(bytes \<Rightarrow> Event option) \<Rightarrow> bytes \<Rightarrow> Event list" where
  "delivered_lines parse chunk = List.map_filter parse (filter (\<lambda>l. l \<noteq> []) (split_on 10 chunk))"

text \<open>
  \<open>parse\<close> takes the bytes of a line: replacing malformed bytes never touches a line feed, so it is the same before and
  after the split.
\<close>

definition read_new_lines :: "(bytes \<Rightarrow> Event option) \<Rightarrow> file_answer \<Rightarrow> Tracked \<Rightarrow> Tracked \<times> Event list" where
  "read_new_lines parse f t =
     (case f of
        FileGone \<Rightarrow> (t, [])
      | FileIs ident len read \<Rightarrow>
          if tr_identity t = Some ident \<and> len = length (tr_snapshot t) then (t, [])
          else
            (case read of
               None \<Rightarrow> (t, [])
             | Some content \<Rightarrow>
                 (let t1 = t\<lparr>tr_identity := Some ident\<rparr>;
                      offset = (if length content < tr_offset t
                                     \<or> get_to (tr_offset t) (tr_snapshot t) \<noteq> get_to (tr_offset t) content
                                then 0 else tr_offset t)
                  in
                  (case rposition_newline (drop offset content) of
                     None \<Rightarrow> (t1\<lparr>tr_offset := offset, tr_snapshot := content\<rparr>, [])
                   | Some last_newline \<Rightarrow>
                       (let end = offset + last_newline + 1 in
                        (t1\<lparr>tr_offset := end, tr_snapshot := content\<rparr>,
                         delivered_lines parse (drop offset (take end content))))))))"

section \<open>One round\<close>

text \<open>What a round over a named session sees, in order: the log, the registry, the log again, the daemon, the log again.\<close>

record round_world =
  rw_first :: file_answer
  rw_present :: bool
  rw_creation_locked :: bool
  rw_gone_again :: bool
  rw_retained_exit :: bool
  rw_second :: file_answer
  rw_vanished :: bool
  rw_third :: file_answer

definition registry_entry_removed :: "round_world \<Rightarrow> bool" where
  "registry_entry_removed w \<longleftrightarrow> \<not> rw_creation_locked w \<and> rw_gone_again w"

text \<open>Whether the session is still followed, what is remembered, and what was delivered.\<close>

definition follow_round :: "(bytes \<Rightarrow> Event option) \<Rightarrow> bool \<Rightarrow> round_world \<Rightarrow> Tracked \<Rightarrow> bool \<times> Tracked \<times> Event list" where
  "follow_round parse follow_all w t =
     (case read_new_lines parse (rw_first w) t of
        (t1, evs1) \<Rightarrow>
          (let exited = list_ex (\<lambda>e. ev_type e = SESSION_EXIT) evs1 in
           if follow_all then (True, t1, evs1)
           else
             (let removed = (tr_registry_seen t1 \<and> \<not> rw_present w \<and> registry_entry_removed w);
                  t2 = t1\<lparr>tr_registry_seen := tr_registry_seen t1 \<or> rw_present w\<rparr>;
                  (t3, evs2) = (if rw_retained_exit w then read_new_lines parse (rw_second w) t2 else (t2, []))
              in
              if exited \<or> removed \<or> rw_retained_exit w then (False, t3, evs1 @ evs2)
              else if rw_vanished w then (case read_new_lines parse (rw_third w) t3 of (t4, evs3) \<Rightarrow> (False, t4, evs1 @ evs2 @ evs3))
              else (True, t3, evs1 @ evs2))))"

section \<open>Whole lines\<close>

text \<open>What of a text is whole lines: up to and with its last line feed.\<close>

definition whole_part :: "bytes \<Rightarrow> bytes" where
  "whole_part xs = (case rposition_newline xs of None \<Rightarrow> [] | Some n \<Rightarrow> take (Suc n) xs)"

lemma rposition_none: "rposition_newline xs = None \<longleftrightarrow> 10 \<notin> set xs"
  by (induction xs) (auto split: option.splits)

lemma rposition_some:
  "rposition_newline xs = Some n \<Longrightarrow> n < length xs \<and> xs ! n = 10 \<and> 10 \<notin> set (drop (Suc n) xs)"
  by (induction xs arbitrary: n) (auto simp: rposition_none split: option.splits if_splits)

lemma whole_part_split: obtains rest where "xs = whole_part xs @ rest" "10 \<notin> set rest"
    "whole_part xs = [] \<or> last (whole_part xs) = 10"
proof (cases "rposition_newline xs")
  case None
  then have "whole_part xs = []" "10 \<notin> set xs" by (simp_all add: whole_part_def flip: rposition_none)
  then show ?thesis using that [of xs] by simp
next
  case (Some n)
  note r = rposition_some [OF Some]
  have "last (take (Suc n) xs) = 10" using r by (simp add: take_Suc_conv_app_nth)
  then show ?thesis using that [of "drop (Suc n) xs"] r Some by (simp add: whole_part_def)
qed

lemma rposition_append:
  "rposition_newline (a @ b) =
     (case rposition_newline b of Some n \<Rightarrow> Some (length a + n) | None \<Rightarrow> rposition_newline a)"
  by (induction a) (auto split: option.splits)

lemma whole_part_append:
  assumes "10 \<notin> set r" and "q = [] \<or> last q = 10"
  shows "whole_part (q @ r @ x) = q @ whole_part (r @ x)"
proof (cases "rposition_newline (r @ x)")
  case None
  show ?thesis
  proof (cases q rule: rev_cases)
    case (snoc ys y)
    then have "rposition_newline q = Some (length ys)" using assms(2) by (simp add: rposition_append)
    then show ?thesis using None snoc by (simp add: whole_part_def rposition_append)
  qed (simp add: None whole_part_def)
next
  case (Some n)
  then have "rposition_newline (q @ r @ x) = Some (length q + n)" by (simp add: rposition_append [of q])
  then show ?thesis using Some by (simp add: whole_part_def)
qed

lemma split_on_at: "split_on sep (a @ sep # b) = split_on sep a @ split_on sep b"
proof (induction a)
  case (Cons x a)
  have "split_on sep a \<noteq> []" by (cases a) (auto split: list.splits)
  then show ?case using Cons by (auto split: list.splits)
qed simp

lemma delivered_append:
  "q = [] \<or> last q = 10 \<Longrightarrow> delivered_lines parse (q @ x) = delivered_lines parse q @ delivered_lines parse x"
  by (cases q rule: rev_cases)
     (simp_all add: delivered_lines_def split_on_at List.map_filter_simps List.map_filter_def)

section \<open>No line is missed\<close>

text \<open>What a poll does, by the bytes: it goes on behind what it consumed when that is still there, else it starts over.\<close>

lemma read_new_lines_exact:
  assumes "tr_offset t \<le> length (tr_snapshot t)" and "read_new_lines parse f t = (t', evs)"
  shows "t' = t \<and> evs = [] \<or>
    (\<exists>i len content off. f = FileIs i len (Some content)
       \<and> off = (if take (tr_offset t) content = take (tr_offset t) (tr_snapshot t) then tr_offset t else 0)
       \<and> off \<le> length content \<and> tr_snapshot t' = content \<and> tr_offset t' = off + length (whole_part (drop off content))
       \<and> evs = delivered_lines parse (whole_part (drop off content)) \<and> tr_registry_seen t' = tr_registry_seen t)"
proof (cases f)
  case FileGone
  then show ?thesis using assms by (simp add: read_new_lines_def)
next
  case (FileIs i len read)
  show ?thesis
  proof (cases "tr_identity t = Some i \<and> len = length (tr_snapshot t) \<or> read = None")
    case True
    then show ?thesis using assms FileIs by (auto simp: read_new_lines_def split: if_splits)
  next
    case False
    then obtain content where c: "read = Some content" by auto
    define off where "off = (if length content < tr_offset t
        \<or> get_to (tr_offset t) (tr_snapshot t) \<noteq> get_to (tr_offset t) content then 0 else tr_offset t)"
    have o: "off = (if take (tr_offset t) content = take (tr_offset t) (tr_snapshot t) then tr_offset t else 0)"
      using assms(1) arg_cong [of "take (tr_offset t) content" "take (tr_offset t) (tr_snapshot t)" length]
      by (auto simp: off_def get_to_def)
    have l: "off \<le> length content" by (simp add: off_def)
    have "(t', evs) = (case rposition_newline (drop off content) of
        None \<Rightarrow> (t\<lparr>tr_identity := Some i, tr_offset := off, tr_snapshot := content\<rparr>, [])
      | Some n \<Rightarrow> (t\<lparr>tr_identity := Some i, tr_offset := off + n + 1, tr_snapshot := content\<rparr>,
           delivered_lines parse (drop off (take (off + n + 1) content))))"
      using assms(2) FileIs False c by (auto simp: read_new_lines_def Let_def off_def split: option.splits)
    then have "tr_snapshot t' = content \<and> tr_offset t' = off + length (whole_part (drop off content))
       \<and> evs = delivered_lines parse (whole_part (drop off content)) \<and> tr_registry_seen t' = tr_registry_seen t"
      using rposition_some [of "drop off content"]
      by (auto simp: whole_part_def delivered_lines_def List.map_filter_simps drop_take split: option.splits)
    then show ?thesis using FileIs c o l by blast
  qed
qed

text \<open>The polls one after another, with everything delivered.\<close>

definition polls :: "(bytes \<Rightarrow> Event option) \<Rightarrow> file_answer list \<Rightarrow> Tracked \<Rightarrow> Tracked \<times> Event list" where
  "polls parse fs t =
     foldl (\<lambda>(t, evs) f. case read_new_lines parse f t of (t', evs') \<Rightarrow> (t', evs @ evs')) (t, []) fs"

text \<open>Every content that is read extends the one before it.\<close>

fun growing :: "bytes \<Rightarrow> file_answer list \<Rightarrow> bool" where
  "growing c [] = True"
| "growing c (FileIs _ _ (Some d) # fs) \<longleftrightarrow> take (length c) d = c \<and> growing d fs"
| "growing c (_ # fs) = growing c fs"

definition follow_inv :: "(bytes \<Rightarrow> Event option) \<Rightarrow> bytes \<Rightarrow> Tracked \<Rightarrow> Event list \<Rightarrow> bool" where
  "follow_inv parse start t evs \<longleftrightarrow>
     tr_offset t \<le> length (tr_snapshot t)
     \<and> take (tr_offset t) (tr_snapshot t) = whole_part (tr_snapshot t)
     \<and> set (delivered_lines parse (whole_part (tr_snapshot t))) \<subseteq> set (delivered_lines parse start) \<union> set evs"

lemma whole_part_whole: "q = [] \<or> last q = 10 \<Longrightarrow> whole_part q = q"
  using whole_part_append [of "[]" q "[]"] by (simp add: whole_part_def)

lemma follow_step:
  assumes inv: "follow_inv parse start t evs" and run: "read_new_lines parse f t = (t', new)"
  shows "follow_inv parse start t' (evs @ new)"
proof -
  have o: "tr_offset t \<le> length (tr_snapshot t)" and w: "take (tr_offset t) (tr_snapshot t) = whole_part (tr_snapshot t)"
    using inv by (simp_all add: follow_inv_def)
  consider "t' = t" "new = []"
    | content off where "off = (if take (tr_offset t) content = take (tr_offset t) (tr_snapshot t) then tr_offset t else 0)"
        "off \<le> length content" "tr_snapshot t' = content" "tr_offset t' = off + length (whole_part (drop off content))"
        "new = delivered_lines parse (whole_part (drop off content))"
    using read_new_lines_exact [OF o run] by blast
  then show ?thesis
  proof cases
    case 1
    then show ?thesis using inv by simp
  next
    case 2
    obtain rest where r: "drop off content = whole_part (drop off content) @ rest" "10 \<notin> set rest"
      by (rule whole_part_split)
    define q where "q = take off content"
    have q: "q = [] \<or> last q = 10" "set (delivered_lines parse q) \<subseteq> set (delivered_lines parse start) \<union> set evs"
    proof -
      have q: "q = whole_part (tr_snapshot t) \<or> q = []" using 2(1) w by (auto simp: q_def)
      obtain rest' where "whole_part (tr_snapshot t) = [] \<or> last (whole_part (tr_snapshot t)) = 10"
        by (rule whole_part_split [of "tr_snapshot t"])
      then show "q = [] \<or> last q = 10" using q by auto
      show "set (delivered_lines parse q) \<subseteq> set (delivered_lines parse start) \<union> set evs"
        using q inv by (auto simp: follow_inv_def delivered_lines_def List.map_filter_simps)
    qed
    have wp: "whole_part content = q @ whole_part (drop off content)"
      using whole_part_append [of "[]" q "drop off content"] q(1) by (simp add: q_def)
    have "length content = length q + length (drop off content)" "length q = off" using 2(2) by (simp_all add: q_def)
    moreover have "length (whole_part (drop off content)) \<le> length (drop off content)" using r(1) by (metis le_add1 length_append)
    ultimately have "tr_offset t' \<le> length content" using 2(4) by simp
    moreover have "take (tr_offset t') content = whole_part content"
    proof -
      have "content = q @ whole_part (drop off content) @ rest" using r(1) by (metis append_take_drop_id q_def)
      then have "take (length q + length (whole_part (drop off content))) content = q @ whole_part (drop off content)"
        by (metis append.assoc append_eq_conv_conj length_append)
      then show ?thesis using wp 2(4) \<open>length q = off\<close> by simp
    qed
    moreover have "delivered_lines parse (whole_part content) = delivered_lines parse q @ new"
      unfolding wp 2(5) by (rule delivered_append [OF q(1)])
    ultimately show ?thesis using 2(3) q(2) by (auto simp: follow_inv_def)
  qed
qed

lemma polls_snoc: "polls parse (fs @ [f]) t =
    (case polls parse fs t of (t1, evs) \<Rightarrow> case read_new_lines parse f t1 of (t2, new) \<Rightarrow> (t2, evs @ new))"
  by (simp add: polls_def case_prod_unfold)

lemma polls_inv:
  assumes "follow_inv parse start t []"
  shows "case polls parse fs t of (t', evs) \<Rightarrow> follow_inv parse start t' evs"
proof (induction fs rule: rev_induct)
  case Nil
  then show ?case using assms by (simp add: polls_def)
next
  case (snoc f fs)
  then show ?case using follow_step unfolding polls_snoc by (fastforce split: prod.splits)
qed

section \<open>Each line once while the file grows\<close>

definition grow_inv :: "(bytes \<Rightarrow> Event option) \<Rightarrow> bytes \<Rightarrow> bytes \<Rightarrow> Tracked \<Rightarrow> Event list \<Rightarrow> bool" where
  "grow_inv parse start seen t evs \<longleftrightarrow>
     take (length (tr_snapshot t)) seen = tr_snapshot t \<and> take (length start) (tr_snapshot t) = start
     \<and> tr_offset t = length start + length (whole_part (drop (length start) (tr_snapshot t)))
     \<and> evs = delivered_lines parse (whole_part (drop (length start) (tr_snapshot t)))"

text \<open>What was read last, where a read went through.\<close>

fun last_seen :: "bytes \<Rightarrow> file_answer list \<Rightarrow> bytes" where
  "last_seen c [] = c"
| "last_seen c (FileIs _ _ (Some d) # fs) = last_seen d fs"
| "last_seen c (_ # fs) = last_seen c fs"

lemma growing_snoc: "growing c (fs @ [f]) \<longleftrightarrow> growing c fs \<and> growing (last_seen c fs) [f]"
  by (induction c fs rule: growing.induct) auto

lemma last_seen_snoc: "last_seen c (fs @ [f]) = last_seen (last_seen c fs) [f]"
  by (induction c fs rule: last_seen.induct) auto

lemma take_trans: "take (length a) b = a \<Longrightarrow> take (length b) c = b \<Longrightarrow> take (length a) c = a"
  by (metis min.absorb_iff2 take_take length_take min.commute)

lemma grow_step:
  assumes inv: "grow_inv parse start seen t evs" and g: "growing seen [f]" and run: "read_new_lines parse f t = (t', new)"
  shows "grow_inv parse start (last_seen seen [f]) t' (evs @ new)"
proof -
  let ?d = "\<lambda>c. drop (length start) c"
  have i: "take (length (tr_snapshot t)) seen = tr_snapshot t" "take (length start) (tr_snapshot t) = start"
    "tr_offset t = length start + length (whole_part (?d (tr_snapshot t)))"
    "evs = delivered_lines parse (whole_part (?d (tr_snapshot t)))"
    using inv by (simp_all add: grow_inv_def)
  obtain rest where r: "?d (tr_snapshot t) = whole_part (?d (tr_snapshot t)) @ rest" "10 \<notin> set rest"
      "whole_part (?d (tr_snapshot t)) = [] \<or> last (whole_part (?d (tr_snapshot t))) = 10"
    by (rule whole_part_split)
  let ?q = "whole_part (?d (tr_snapshot t))"
  have s: "tr_snapshot t = start @ ?q @ rest" using i(2) r(1) by (metis append_take_drop_id)
  have ol: "tr_offset t \<le> length (tr_snapshot t)" unfolding i(3) using arg_cong [OF s, of length] by simp
  have seen_keeps: "take (length (tr_snapshot t)) (last_seen seen [f]) = tr_snapshot t"
  proof (cases "\<exists>j l d. f = FileIs j l (Some d)")
    case True
    then show ?thesis using g take_trans [OF i(1)] by auto
  next
    case False
    then have "last_seen seen [f] = seen" by (cases "(seen, [f])" rule: last_seen.cases) auto
    then show ?thesis using i(1) by simp
  qed
  from read_new_lines_exact [OF ol run] consider "t' = t" "new = []"
    | j len content off where "f = FileIs j len (Some content)"
        "off = (if take (tr_offset t) content = take (tr_offset t) (tr_snapshot t) then tr_offset t else 0)"
        "tr_snapshot t' = content" "tr_offset t' = off + length (whole_part (drop off content))"
        "new = delivered_lines parse (whole_part (drop off content))"
    by blast
  then show ?thesis
  proof cases
    case 1
    then show ?thesis using i seen_keeps by (simp add: grow_inv_def)
  next
    case 2
    have "take (length (tr_snapshot t)) content = tr_snapshot t" using seen_keeps 2(1) by simp
    then obtain x where c: "content = start @ ?q @ rest @ x" using s by (metis append.assoc append_take_drop_id)
    have off: "off = tr_offset t" and d: "drop off content = rest @ x"
    proof -
      have o: "tr_offset t = length (start @ ?q)" using i(3) by simp
      have "take (tr_offset t) content = start @ ?q" unfolding o c by simp
      moreover have "take (tr_offset t) (tr_snapshot t) = start @ ?q" unfolding o by (subst s) simp
      ultimately show "off = tr_offset t" using 2(2) by simp
      then show "drop off content = rest @ x" unfolding o c by simp
    qed
    have "whole_part (?d content) = ?q @ whole_part (rest @ x)"
      unfolding c using whole_part_append [OF r(2,3), of x] by simp
    then show ?thesis
      using 2 i off d r(3) c delivered_append [OF r(3), of parse "whole_part (rest @ x)"]
      by (simp add: grow_inv_def)
  qed
qed


text \<open>An example: a line comes in two pieces, then the file is rewritten.\<close>

definition example_polls :: "file_answer list" where
  "example_polls = [FileIs (1, 1) 3 (Some [97, 10, 98]), FileIs (1, 1) 4 (Some [97, 10, 98, 10]), FileGone,
     FileIs (1, 2) 2 (Some [98, 10])]"

definition example_parse :: "bytes \<Rightarrow> Event option" where
  "example_parse l = Some (event_new [] [] (map unat l))"


end
