(* ===== verification/Registry_Lock.thy ===== *)
theory Registry_Lock
  imports Daemon_Identity Transitions
begin

text \<open>
  The file locks of the registry (\<^verbatim>\<open>crates/pty-core/src/registry/lock.rs\<close>): the owner record, the answers of a lock with
  the waits, and the protocol itself as steps of any number of threads. A step is one system call: the link that creates
  the lock, the open, the advisory lock on the inode, the comparison of the inode with the path, the reading of the
  owner, the unlink. A process may die at any step. Shown: at most one live thread holds the lock, whatever the
  interleaving, and its record is the one in the file.
\<close>

section \<open>The owner record\<close>

definition record_nonce :: "rstr \<Rightarrow> rstr option" where
  "record_nonce record = field (split_whitespace record) 1"

text \<open>Who owns the lock, by what the file holds: None where it cannot be read.\<close>

definition is_creation_lock_held :: "(int \<Rightarrow> bool) \<Rightarrow> rstr option \<Rightarrow> bool" where
  "is_creation_lock_held pid_alive content =
     (case Option.bind content (\<lambda>s. parse_leading_int (trim s)) of Some pid \<Rightarrow> pid > 0 \<and> pid_alive pid | None \<Rightarrow> False)"

definition is_lock_owned_by_pid :: "(int \<Rightarrow> bool) \<Rightarrow> rstr option \<Rightarrow> int \<Rightarrow> bool" where
  "is_lock_owned_by_pid pid_alive content owner_pid =
     (if owner_pid \<le> 0 then False
      else (case Option.bind content (\<lambda>s. parse_leading_int (trim s)) of
              Some pid \<Rightarrow> pid = owner_pid \<and> pid_alive owner_pid | None \<Rightarrow> False))"

definition holder_is_alive :: "(int \<Rightarrow> bool) \<Rightarrow> rstr option \<Rightarrow> bool" where
  "holder_is_alive pid_alive content =
     (case Option.bind content (\<lambda>s. parse_leading_int (trim s)) of Some pid \<Rightarrow> pid_alive pid | None \<Rightarrow> False)"

section \<open>Answers and waits\<close>

datatype LockRefusal = Busy | LockUnavailable rstr

text \<open>\<open>try_acquire_file_lock\<close> gives a guard, no guard, or an error.\<close>

definition lock_or_refusal :: "rstr + 'g option \<Rightarrow> LockRefusal + 'g" where
  "lock_or_refusal acquired =
     (case acquired of Inr (Some g) \<Rightarrow> Inr g | Inr None \<Rightarrow> Inl Busy | Inl e \<Rightarrow> Inl (LockUnavailable e))"

definition event_busy_message :: "rstr \<Rightarrow> rstr" where
  "event_busy_message name = ustr ''Session id \"'' @ name @ ustr ''\" event log is busy. Retry the operation.''"

definition metadata_busy_message :: "rstr \<Rightarrow> rstr" where
  "metadata_busy_message name = ustr ''Session id \"'' @ name @ ustr ''\" metadata is busy. Retry the operation.''"

definition refusal_text :: "rstr \<Rightarrow> LockRefusal \<Rightarrow> rstr" where
  "refusal_text busy r = (case r of Busy \<Rightarrow> busy | LockUnavailable cause \<Rightarrow> cause)"

definition take_event_lock :: "rstr \<Rightarrow> rstr + 'g option \<Rightarrow> rstr + 'g" where
  "take_event_lock name acquired = map_sum (refusal_text (event_busy_message name)) id (lock_or_refusal acquired)"

definition take_metadata_lock :: "rstr \<Rightarrow> rstr + 'g option \<Rightarrow> rstr + 'g" where
  "take_metadata_lock name acquired = map_sum (refusal_text (metadata_busy_message name)) id (lock_or_refusal acquired)"

text \<open>
  \<open>wait_for_metadata_lock\<close> and \<open>wait_for_event_lock\<close>: the answer of the attempt \<open>k\<close> and the time after it. A busy answer is
  asked again until the deadline.
\<close>

definition is_busy :: "LockRefusal + 'g \<Rightarrow> bool" where
  "is_busy r = (case r of Inl Busy \<Rightarrow> True | _ \<Rightarrow> False)"

definition wait_for_metadata_lock ::
  "nat \<Rightarrow> nat \<Rightarrow> (nat \<Rightarrow> rstr + 'g option) \<Rightarrow> (nat \<Rightarrow> nat) \<Rightarrow> (LockRefusal + 'g) option" where
  "wait_for_metadata_lock started wait attempt clock =
     poll_until (\<lambda>r. \<not> is_busy r) (started + wait) (lock_or_refusal \<circ> attempt) clock 0"

definition wait_for_event_lock ::
  "rstr \<Rightarrow> nat \<Rightarrow> nat \<Rightarrow> (nat \<Rightarrow> rstr + 'g option) \<Rightarrow> (nat \<Rightarrow> nat) \<Rightarrow> (rstr + 'g) option" where
  "wait_for_event_lock name started wait attempt clock =
     map_option (map_sum (refusal_text (event_busy_message name)) id)
       (poll_until (\<lambda>r. \<not> is_busy r) (started + wait) (lock_or_refusal \<circ> attempt) clock 0)"

text \<open>\<open>with_both_locks\<close>: the event lock first; the second attempt happens under the first lock.\<close>

datatype LockBusy = BusyEvents | BusyMetadata | BusyUnavailable rstr

definition lock_busy_message :: "rstr \<Rightarrow> LockBusy \<Rightarrow> rstr" where
  "lock_busy_message name b =
     (case b of BusyEvents \<Rightarrow> event_busy_message name | BusyMetadata \<Rightarrow> metadata_busy_message name
      | BusyUnavailable cause \<Rightarrow> cause)"

definition both_refusal :: "LockBusy \<Rightarrow> LockRefusal \<Rightarrow> LockBusy" where
  "both_refusal busy r = (case r of Busy \<Rightarrow> busy | LockUnavailable cause \<Rightarrow> BusyUnavailable cause)"

definition with_both_locks :: "rstr + 'g option \<Rightarrow> ('g \<Rightarrow> rstr + 'g option) \<Rightarrow> ('g \<Rightarrow> 'g \<Rightarrow> 'a) \<Rightarrow> LockBusy + 'a" where
  "with_both_locks events metadata f =
     (case map_sum (both_refusal BusyEvents) id (lock_or_refusal events) of
        Inl b \<Rightarrow> Inl b
      | Inr e \<Rightarrow>
          (case map_sum (both_refusal BusyMetadata) id (lock_or_refusal (metadata e)) of
             Inl b \<Rightarrow> Inl b
           | Inr m \<Rightarrow> Inr (f e m)))"

section \<open>The protocol\<close>

text \<open>
  The lock of one session. An inode is a number that is never used twice; it stands for the complete owner record written
  before the link, with its nonce, so that equal inodes and equal nonces are the same. \<open>lk_owner\<close> is the thread that
  wrote it, and \<open>lk_withdrawn\<close> the claims whose token says withdrawn. Several threads may be of one process. A point is where a
  thread is: what it found out, and the call it makes next.
\<close>

datatype point =
    LIdle
  | LCreated nat
  | LHolding nat
  | LOpening
  | LRetrying
  | LOpened nat
  | LLocked nat
  | LJudging nat
  | LRemoving nat
  | LRelinking nat
  | LCleaning nat "nat option"
  | LToken nat "nat option"
  | LUnlinking nat "nat option"
  | LUnlocking nat "nat option"
  | LReleasing nat
  | LReopened nat
  | LRechecking nat
  | LWithdrawing nat

record lock_system =
  lk_path :: "nat option"
  lk_next :: nat
  lk_owner :: "nat \<Rightarrow> nat"
  lk_flock :: "nat \<Rightarrow> nat option"
  lk_withdrawn :: "nat set"
  lk_dead :: "nat set"
  lk_point :: "nat \<Rightarrow> point"

definition at_point :: "nat \<Rightarrow> point \<Rightarrow> lock_system \<Rightarrow> lock_system" where
  "at_point t p s = s\<lparr>lk_point := (lk_point s)(t := p)\<rparr>"

text \<open>\<open>try_create\<close>: the complete record is linked into place, or something is there.\<close>

definition try_create :: "nat \<Rightarrow> (nat \<Rightarrow> point) \<Rightarrow> point \<Rightarrow> lock_system \<Rightarrow> lock_system" where
  "try_create t won lost s =
     (case lk_path s of
        Some _ \<Rightarrow> at_point t lost s
      | None \<Rightarrow>
          at_point t (won (lk_next s))
            (s\<lparr>lk_path := Some (lk_next s), lk_owner := (lk_owner s)(lk_next s := t), lk_next := lk_next s + 1\<rparr>))"

text \<open>The advisory lock of an inode, without waiting.\<close>

definition try_flock :: "nat \<Rightarrow> nat \<Rightarrow> point \<Rightarrow> point \<Rightarrow> lock_system \<Rightarrow> lock_system" where
  "try_flock t i got busy s =
     (case lk_flock s i of
        Some _ \<Rightarrow> at_point t busy s
      | None \<Rightarrow> at_point t got (s\<lparr>lk_flock := (lk_flock s)(i := Some t)\<rparr>))"

definition unlink_path :: "lock_system \<Rightarrow> lock_system" where
  "unlink_path s = s\<lparr>lk_path := None\<rparr>"

text \<open>
  One call of a live thread. \<open>proc\<close> gives the process of a thread. What a thread does at a point:

  \<^item> \<open>try_acquire_file_lock\<close>: link; else open, or link again where the path has gone; then \<open>steal_locked_inode\<close>.
  \<^item> \<open>steal_locked_inode\<close>: flock, compare, read the owner of the opened inode, unlink, link. A dead owner may
    look alive, its number used again; a live one never looks dead.
  \<^item> \<open>WithdrawnClaimCleanup\<close>, before every unlock: compare, read the token, unlink.
  \<^item> \<open>LockGuard::release\<close>: withdraw the token, open, compare the nonce, flock without waiting, compare, unlink.
\<close>

inductive lock_call :: "(nat \<Rightarrow> nat) \<Rightarrow> nat \<Rightarrow> lock_system \<Rightarrow> lock_system \<Rightarrow> bool" for proc t where
  call_link: "lk_point s t = LIdle \<Longrightarrow> lock_call proc t s (try_create t LCreated LOpening s)"
| call_guard: "lk_point s t = LCreated n \<Longrightarrow>
     lock_call proc t s (at_point t (case lk_path s of Some i \<Rightarrow> LHolding i | None \<Rightarrow> LIdle) s)"
| call_open: "lk_point s t = LOpening \<Longrightarrow>
     lock_call proc t s (at_point t (case lk_path s of Some i \<Rightarrow> LOpened i | None \<Rightarrow> LRetrying) s)"
| call_relink: "lk_point s t = LRetrying \<Longrightarrow> lock_call proc t s (try_create t LCreated LIdle s)"
| call_flock: "lk_point s t = LOpened i \<Longrightarrow> lock_call proc t s (try_flock t i (LLocked i) LIdle s)"
| call_compare: "lk_point s t = LLocked i \<Longrightarrow>
     lock_call proc t s (at_point t (case lk_path s of
        None \<Rightarrow> LRelinking i | Some j \<Rightarrow> if j = i then LJudging i else LCleaning i None) s)"
| call_judge_alive: "lk_point s t = LJudging i \<Longrightarrow> lock_call proc t s (at_point t (LCleaning i None) s)"
| call_judge_dead: "lk_point s t = LJudging i \<Longrightarrow> proc (lk_owner s i) \<in> lk_dead s \<Longrightarrow>
     lock_call proc t s (at_point t (LRemoving i) s)"
| call_remove: "lk_point s t = LRemoving i \<Longrightarrow> lock_call proc t s (at_point t (LRelinking i) (unlink_path s))"
| call_steal: "lk_point s t = LRelinking i \<Longrightarrow>
     lock_call proc t s (try_create t (\<lambda>n. LCleaning i (Some n)) (LCleaning i None) s)"
| call_clean: "lk_point s t = LCleaning i won \<Longrightarrow>
     lock_call proc t s (at_point t (if lk_path s = Some i then LToken i won else LUnlocking i won) s)"
| call_token: "lk_point s t = LToken i won \<Longrightarrow>
     lock_call proc t s (at_point t (if i \<in> lk_withdrawn s then LUnlinking i won else LUnlocking i won) s)"
| call_unlink: "lk_point s t = LUnlinking i won \<Longrightarrow> lock_call proc t s (at_point t (LUnlocking i won) (unlink_path s))"
| call_unlock: "lk_point s t = LUnlocking i won \<Longrightarrow>
     lock_call proc t s (at_point t (case won of Some n \<Rightarrow> LCreated n | None \<Rightarrow> LIdle) (s\<lparr>lk_flock := (lk_flock s)(i := None)\<rparr>))"
| call_withdraw: "lk_point s t = LHolding n \<Longrightarrow>
     lock_call proc t s (at_point t (LReleasing n) (s\<lparr>lk_withdrawn := insert n (lk_withdrawn s)\<rparr>))"
| call_reopen: "lk_point s t = LReleasing n \<Longrightarrow>
     lock_call proc t s (at_point t (if lk_path s = Some n then LReopened n else LIdle) s)"
| call_reflock: "lk_point s t = LReopened n \<Longrightarrow> lock_call proc t s (try_flock t n (LRechecking n) LIdle s)"
| call_recheck: "lk_point s t = LRechecking n \<Longrightarrow>
     lock_call proc t s (at_point t (if lk_path s = Some n then LWithdrawing n else LCleaning n None) s)"
| call_release: "lk_point s t = LWithdrawing n \<Longrightarrow> lock_call proc t s (at_point t (LCleaning n None) (unlink_path s))"

text \<open>A death ends every thread of a process: its descriptors are closed and their advisory locks gone.\<close>

definition dies :: "(nat \<Rightarrow> nat) \<Rightarrow> nat \<Rightarrow> lock_system \<Rightarrow> lock_system" where
  "dies proc p s = s\<lparr>lk_dead := insert p (lk_dead s),
     lk_flock := (\<lambda>i. case lk_flock s i of Some t \<Rightarrow> if proc t = p then None else Some t | None \<Rightarrow> None)\<rparr>"

inductive claim_step :: "(nat \<Rightarrow> nat) \<Rightarrow> lock_system \<Rightarrow> lock_system \<Rightarrow> bool" for proc where
  step_call: "proc t \<notin> lk_dead s \<Longrightarrow> lock_call proc t s s' \<Longrightarrow> claim_step proc s s'"
| step_dies: "claim_step proc s (dies proc p s)"

definition lock_begins :: "lock_system \<Rightarrow> bool" where
  "lock_begins s \<longleftrightarrow> lk_path s = None \<and> lk_flock s = (\<lambda>_. None) \<and> lk_withdrawn s = {} \<and> lk_dead s = {}
     \<and> lk_point s = (\<lambda>_. LIdle)"

text \<open>The thread is in its critical section, or about to be: it has created the lock and not begun to release it.\<close>

definition holds_claim :: "(nat \<Rightarrow> nat) \<Rightarrow> lock_system \<Rightarrow> nat \<Rightarrow> nat \<Rightarrow> bool" where
  "holds_claim proc s t n \<longleftrightarrow> proc t \<notin> lk_dead s \<and> lk_point s t = LHolding n"

section \<open>The invariant\<close>

text \<open>The claim a thread has, the inode it has locked, and the points where it is about to unlink the path.\<close>

fun claim_of :: "point \<Rightarrow> nat option" where
  "claim_of (LCreated n) = Some n"
| "claim_of (LHolding n) = Some n"
| "claim_of (LCleaning i won) = won"
| "claim_of (LToken i won) = won"
| "claim_of (LUnlinking i won) = won"
| "claim_of (LUnlocking i won) = won"
| "claim_of _ = None"

fun locked_of :: "point \<Rightarrow> nat option" where
  "locked_of (LLocked i) = Some i"
| "locked_of (LJudging i) = Some i"
| "locked_of (LRemoving i) = Some i"
| "locked_of (LRelinking i) = Some i"
| "locked_of (LCleaning i won) = Some i"
| "locked_of (LToken i won) = Some i"
| "locked_of (LUnlinking i won) = Some i"
| "locked_of (LUnlocking i won) = Some i"
| "locked_of (LRechecking n) = Some n"
| "locked_of (LWithdrawing n) = Some n"
| "locked_of _ = None"

fun expects_path :: "point \<Rightarrow> nat option" where
  "expects_path (LJudging i) = Some i"
| "expects_path (LRemoving i) = Some i"
| "expects_path (LToken i won) = Some i"
| "expects_path (LUnlinking i won) = Some i"
| "expects_path (LWithdrawing n) = Some n"
| "expects_path _ = None"

fun removes :: "point \<Rightarrow> nat option" where
  "removes (LRemoving i) = Some i"
| "removes (LUnlinking i won) = Some i"
| "removes (LWithdrawing n) = Some n"
| "removes _ = None"

fun releasing_of :: "point \<Rightarrow> nat option" where
  "releasing_of (LReleasing n) = Some n"
| "releasing_of (LReopened n) = Some n"
| "releasing_of (LRechecking n) = Some n"
| "releasing_of (LWithdrawing n) = Some n"
| "releasing_of _ = None"

text \<open>A claim that no live thread has any more, or whose owner withdrew it: removing it takes no lock from a holder.\<close>

definition given_up :: "(nat \<Rightarrow> nat) \<Rightarrow> lock_system \<Rightarrow> nat \<Rightarrow> bool" where
  "given_up proc s i \<longleftrightarrow> proc (lk_owner s i) \<in> lk_dead s \<or> i \<in> lk_withdrawn s"

definition thread_ok :: "(nat \<Rightarrow> nat) \<Rightarrow> lock_system \<Rightarrow> nat \<Rightarrow> bool" where
  "thread_ok proc s t \<longleftrightarrow>
     (\<forall>n. claim_of (lk_point s t) = Some n \<longrightarrow> lk_path s = Some n \<and> lk_owner s n = t \<and> n \<notin> lk_withdrawn s)
     \<and> (\<forall>i. locked_of (lk_point s t) = Some i \<longrightarrow> lk_flock s i = Some t \<and> i < lk_next s)
     \<and> (\<forall>i. expects_path (lk_point s t) = Some i \<longrightarrow> lk_path s = Some i)
     \<and> (\<forall>i. removes (lk_point s t) = Some i \<longrightarrow> given_up proc s i)
     \<and> (\<forall>i. releasing_of (lk_point s t) = Some i \<longrightarrow> i \<in> lk_withdrawn s)
     \<and> (\<forall>i. lk_point s t = LOpened i \<or> lk_point s t = LReopened i \<longrightarrow> i < lk_next s)"

definition claim_inv :: "(nat \<Rightarrow> nat) \<Rightarrow> lock_system \<Rightarrow> bool" where
  "claim_inv proc s \<longleftrightarrow>
     (\<forall>i. lk_path s = Some i \<longrightarrow> i < lk_next s) \<and> (\<forall>i \<in> lk_withdrawn s. i < lk_next s)
     \<and> (\<forall>t. proc t \<notin> lk_dead s \<longrightarrow> thread_ok proc s t)"

lemma expects_locked: "expects_path p = Some i \<Longrightarrow> locked_of p = Some i"
  by (cases p) auto

lemma removes_expects: "removes p = Some i \<Longrightarrow> expects_path p = Some i"
  by (cases p) auto

lemma thread_okD:
  assumes "thread_ok proc s t" and "lk_point s t = p"
  shows "claim_of p = Some n \<Longrightarrow> lk_path s = Some n \<and> lk_owner s n = t \<and> n \<notin> lk_withdrawn s"
    and "locked_of p = Some i \<Longrightarrow> lk_flock s i = Some t \<and> i < lk_next s"
    and "expects_path p = Some i \<Longrightarrow> lk_path s = Some i" and "removes p = Some i \<Longrightarrow> given_up proc s i"
    and "releasing_of p = Some i \<Longrightarrow> i \<in> lk_withdrawn s"
  using assms by (auto simp: thread_ok_def)

text \<open>What another thread knows survives each kind of change.\<close>

lemma at_point_fields [simp]:
  "lk_path (at_point t p s) = lk_path s" "lk_next (at_point t p s) = lk_next s" "lk_owner (at_point t p s) = lk_owner s"
  "lk_flock (at_point t p s) = lk_flock s" "lk_withdrawn (at_point t p s) = lk_withdrawn s" "lk_dead (at_point t p s) = lk_dead s"
  "lk_point (at_point t p s) u = (if u = t then p else lk_point s u)"
  by (simp_all add: at_point_def)

lemma given_up_at_point [simp]: "given_up proc (at_point t p s) i = given_up proc s i"
  by (simp add: given_up_def)

lemma other_at_point: "u \<noteq> t \<Longrightarrow> thread_ok proc (at_point t p s) u = thread_ok proc s u"
  by (simp add: thread_ok_def)

lemma other_created:
  assumes "thread_ok proc s u" and "lk_path s = None" and "\<forall>i \<in> lk_withdrawn s. i < lk_next s"
  shows "thread_ok proc (s\<lparr>lk_path := Some (lk_next s), lk_owner := (lk_owner s)(lk_next s := t), lk_next := lk_next s + 1\<rparr>) u"
    (is "thread_ok proc ?s u")
proof -
  have r: "removes (lk_point s u) = None" "expects_path (lk_point s u) = None" "claim_of (lk_point s u) = None"
    using assms(1,2) thread_okD [OF assms(1) refl] removes_expects by (metis option.exhaust option.distinct(1))+
  then show ?thesis using assms(1) by (auto simp: thread_ok_def less_Suc_eq)
qed

lemma other_flocked:
  assumes "thread_ok proc s u" and "lk_flock s i = None"
  shows "thread_ok proc (s\<lparr>lk_flock := (lk_flock s)(i := Some t)\<rparr>) u"
  using assms by (auto simp: thread_ok_def given_up_def)

lemma other_unlocked:
  assumes "thread_ok proc s u" and "lk_flock s i = Some t" and "u \<noteq> t"
  shows "thread_ok proc (s\<lparr>lk_flock := (lk_flock s)(i := None)\<rparr>) u"
  using assms by (auto simp: thread_ok_def given_up_def)

lemma other_unlinked:
  assumes "thread_ok proc s u" and "proc u \<notin> lk_dead s" and "u \<noteq> t"
    and "lk_path s = Some i" and "given_up proc s i" and "lk_flock s i = Some t"
  shows "thread_ok proc (unlink_path s) u"
proof -
  have "claim_of (lk_point s u) = None"
    using thread_okD(1) [OF assms(1) refl] assms(2,4,5) by (cases "claim_of (lk_point s u)") (auto simp: given_up_def)
  moreover have e: "expects_path (lk_point s u) = None"
    using thread_okD(2,3) [OF assms(1) refl] expects_locked assms(3,4,6) by (cases "expects_path (lk_point s u)") fastforce+
  moreover have "removes (lk_point s u) = None" using e removes_expects by (cases "removes (lk_point s u)") fastforce+
  ultimately show ?thesis using assms(1) by (auto simp: thread_ok_def unlink_path_def)
qed

lemma other_withdrawn:
  assumes "thread_ok proc s u" and "u \<noteq> t" and "lk_owner s n = t"
  shows "thread_ok proc (s\<lparr>lk_withdrawn := insert n (lk_withdrawn s)\<rparr>) u"
  using assms by (auto simp: thread_ok_def given_up_def)

text \<open>The thread itself, at its new point.\<close>

definition point_ok :: "(nat \<Rightarrow> nat) \<Rightarrow> lock_system \<Rightarrow> nat \<Rightarrow> point \<Rightarrow> bool" where
  "point_ok proc s t p \<longleftrightarrow> thread_ok proc (at_point t p s) t"

lemma claim_inv_moves:
  assumes "claim_inv proc s" and "\<And>u. u \<noteq> t \<Longrightarrow> proc u \<notin> lk_dead s \<Longrightarrow> thread_ok proc s u \<Longrightarrow> thread_ok proc s1 u"
    and "point_ok proc s1 t p" and "lk_dead s1 = lk_dead s"
    and "\<forall>i. lk_path s1 = Some i \<longrightarrow> i < lk_next s1" and "\<forall>i \<in> lk_withdrawn s1. i < lk_next s1"
  shows "claim_inv proc (at_point t p s1)"
  using assms other_at_point [of _ t proc p s1] unfolding claim_inv_def point_ok_def by (metis at_point_fields(1,2,5,6))

lemma point_ok_simps:
  "point_ok proc s t p \<longleftrightarrow>
     (\<forall>n. claim_of p = Some n \<longrightarrow> lk_path s = Some n \<and> lk_owner s n = t \<and> n \<notin> lk_withdrawn s)
     \<and> (\<forall>i. locked_of p = Some i \<longrightarrow> lk_flock s i = Some t \<and> i < lk_next s)
     \<and> (\<forall>i. expects_path p = Some i \<longrightarrow> lk_path s = Some i)
     \<and> (\<forall>i. removes p = Some i \<longrightarrow> given_up proc s i)
     \<and> (\<forall>i. releasing_of p = Some i \<longrightarrow> i \<in> lk_withdrawn s)
     \<and> (\<forall>i. p = LOpened i \<or> p = LReopened i \<longrightarrow> i < lk_next s)"
  by (auto simp: point_ok_def thread_ok_def)

lemma create_keeps:
  assumes "claim_inv proc s" and "point_ok proc s t lost" and "\<And>n s1. lk_next s = n \<Longrightarrow> lk_path s1 = Some n \<Longrightarrow>
      lk_owner s1 n = t \<Longrightarrow> n \<notin> lk_withdrawn s1 \<Longrightarrow> lk_flock s1 = lk_flock s \<Longrightarrow> lk_next s1 = Suc n \<Longrightarrow> point_ok proc s1 t (won n)"
  shows "claim_inv proc (try_create t won lost s)"
proof (cases "lk_path s")
  case None
  have w: "\<forall>i \<in> lk_withdrawn s. i < lk_next s" using assms(1) by (simp add: claim_inv_def)
  show ?thesis unfolding try_create_def None option.case
  proof (rule claim_inv_moves [OF assms(1)])
    show "point_ok proc (s\<lparr>lk_path := Some (lk_next s), lk_owner := (lk_owner s)(lk_next s := t), lk_next := lk_next s + 1\<rparr>)
        t (won (lk_next s))"
      by (rule assms(3)) (use w in auto)
  qed (use other_created [OF _ None w] w in auto)
next
  case (Some i)
  show ?thesis unfolding try_create_def Some option.case
    by (rule claim_inv_moves [OF assms(1)]) (use assms in \<open>auto simp: claim_inv_def\<close>)
qed

lemma stays:
  "claim_inv proc s \<Longrightarrow> point_ok proc s t p \<Longrightarrow> claim_inv proc (at_point t p s)"
  by (rule claim_inv_moves) (auto simp: claim_inv_def)

lemma unlink_keeps:
  assumes "claim_inv proc s" and "lk_path s = Some i" and "given_up proc s i" and "lk_flock s i = Some t"
    and "point_ok proc (unlink_path s) t p"
  shows "claim_inv proc (at_point t p (unlink_path s))"
  by (rule claim_inv_moves [OF assms(1)])
     (use assms other_unlinked in \<open>auto simp: claim_inv_def unlink_path_def\<close>)

lemma flock_keeps:
  assumes "claim_inv proc s" and "lk_flock s i = None \<Longrightarrow> point_ok proc (s\<lparr>lk_flock := (lk_flock s)(i := Some t)\<rparr>) t got"
    and "point_ok proc s t busy"
  shows "claim_inv proc (try_flock t i got busy s)"
proof (cases "lk_flock s i")
  case None
  show ?thesis unfolding try_flock_def None option.case
    by (rule claim_inv_moves [OF assms(1)]) (use assms other_flocked None in \<open>auto simp: claim_inv_def\<close>)
next
  case (Some u)
  then show ?thesis using stays [OF assms(1,3)] by (simp add: try_flock_def)
qed

lemma lock_call_inv:
  assumes inv: "claim_inv proc s" and live: "proc t \<notin> lk_dead s" and call: "lock_call proc t s s'"
  shows "claim_inv proc s'"
proof -
  have ok: "thread_ok proc s t" using inv live by (simp add: claim_inv_def)
  have path: "lk_path s = Some i \<Longrightarrow> i < lk_next s" for i using inv by (simp add: claim_inv_def)
  note d = thread_okD [OF ok]
  from call show ?thesis
  proof cases
    case call_link
    then show ?thesis using inv by (auto intro!: create_keeps simp: point_ok_simps)
  next
    case (call_guard n)
    then show ?thesis using inv d(1) [OF call_guard(2), of n] by (auto intro!: stays simp: point_ok_simps)
  next
    case call_open
    then show ?thesis using inv path by (auto intro!: stays simp: point_ok_simps split: option.split)
  next
    case call_relink
    then show ?thesis using inv by (auto intro!: create_keeps simp: point_ok_simps)
  next
    case (call_flock i)
    then have "i < lk_next s" using ok by (simp add: thread_ok_def)
    then show ?thesis using call_flock inv by (auto intro!: flock_keeps simp: point_ok_simps)
  next
    case (call_compare i)
    then show ?thesis using inv d(2) [OF call_compare(2), of i]
      by (auto intro!: stays simp: point_ok_simps split: option.split)
  next
    case (call_judge_alive i)
    then show ?thesis using inv d(2) [OF call_judge_alive(2), of i] by (auto intro!: stays simp: point_ok_simps)
  next
    case (call_judge_dead i)
    then show ?thesis using inv d(2,3) [OF call_judge_dead(2), of i]
      by (auto intro!: stays simp: point_ok_simps given_up_def)
  next
    case (call_remove i)
    have p: "lk_path s = Some i" "given_up proc s i" "lk_flock s i = Some t" "i < lk_next s"
      using d(2,3,4) [OF call_remove(2), of i] by simp_all
    show ?thesis unfolding call_remove(1)
      by (rule unlink_keeps [OF inv p(1-3)]) (use p in \<open>simp add: point_ok_simps unlink_path_def\<close>)
  next
    case (call_steal i)
    then show ?thesis using inv d(2) [OF call_steal(2), of i]
      by (auto intro!: create_keeps simp: point_ok_simps)
  next
    case (call_clean i won)
    then show ?thesis using inv d(1,2) [OF call_clean(2)] by (auto intro!: stays simp: point_ok_simps)
  next
    case (call_token i won)
    then show ?thesis using inv d(1,2,3) [OF call_token(2)] by (auto intro!: stays simp: point_ok_simps given_up_def)
  next
    case (call_unlink i won)
    have p: "lk_path s = Some i" "given_up proc s i" "lk_flock s i = Some t" "i < lk_next s"
      using d(2,3,4) [OF call_unlink(2), of i] by simp_all
    have "won = None"
    proof (cases won)
      case (Some n)
      then have "n = i" "lk_owner s i = t" "i \<notin> lk_withdrawn s" using d(1) [OF call_unlink(2), of n] p(1) by auto
      then show ?thesis using p(2) live by (simp add: given_up_def)
    qed
    then show ?thesis unfolding call_unlink(1)
      by (intro unlink_keeps [OF inv p(1-3)]) (use p in \<open>simp add: point_ok_simps unlink_path_def\<close>)
  next
    case (call_unlock i won)
    have p: "lk_flock s i = Some t" using d(2) [OF call_unlock(2), of i] by simp
    have "point_ok proc (s\<lparr>lk_flock := (lk_flock s)(i := None)\<rparr>) t (case won of Some n \<Rightarrow> LCreated n | None \<Rightarrow> LIdle)"
      using d(1) [OF call_unlock(2)] by (cases won) (auto simp: point_ok_simps)
    then show ?thesis unfolding call_unlock(1)
      by (intro claim_inv_moves [OF inv]) (use other_unlocked [OF _ p] inv in \<open>auto simp: claim_inv_def\<close>)
  next
    case (call_withdraw n)
    have p: "lk_path s = Some n" "lk_owner s n = t" using d(1) [OF call_withdraw(2), of n] by simp_all
    have "point_ok proc (s\<lparr>lk_withdrawn := insert n (lk_withdrawn s)\<rparr>) t (LReleasing n)" by (simp add: point_ok_simps)
    then show ?thesis unfolding call_withdraw(1)
      by (intro claim_inv_moves [OF inv]) (use other_withdrawn [OF _ _ p(2)] inv path p in \<open>auto simp: claim_inv_def\<close>)
  next
    case (call_reopen n)
    then show ?thesis using inv path d(5) [OF call_reopen(2), of n] by (auto intro!: stays simp: point_ok_simps)
  next
    case (call_reflock n)
    then have "n < lk_next s" using ok by (simp add: thread_ok_def)
    then show ?thesis using call_reflock inv d(5) [OF call_reflock(2), of n] by (auto intro!: flock_keeps simp: point_ok_simps)
  next
    case (call_recheck n)
    then show ?thesis using inv d(2,5) [OF call_recheck(2), of n]
      by (auto intro!: stays simp: point_ok_simps given_up_def)
  next
    case (call_release n)
    have p: "lk_path s = Some n" "given_up proc s n" "lk_flock s n = Some t" "n < lk_next s"
      using d(2,3,4) [OF call_release(2), of n] by simp_all
    show ?thesis unfolding call_release(1)
      by (rule unlink_keeps [OF inv p(1-3)]) (use p in \<open>simp add: point_ok_simps unlink_path_def\<close>)
  qed
qed

lemma dies_inv: "claim_inv proc s \<Longrightarrow> claim_inv proc (dies proc p s)"
  unfolding claim_inv_def dies_def thread_ok_def given_up_def
  by (simp; intro conjI allI impI; fastforce)

lemma begins_lock_inv: "lock_begins s \<Longrightarrow> claim_inv proc s"
  by (simp add: lock_begins_def claim_inv_def thread_ok_def)

interpretation claim: invariant_system lock_begins "claim_step proc" "claim_inv proc" for proc
proof
  show "lock_begins s \<Longrightarrow> claim_inv proc s" for s by (rule begins_lock_inv)
  show "claim_inv proc s \<Longrightarrow> claim_step proc s s' \<Longrightarrow> claim_inv proc s'" for s s'
    by (erule claim_step.cases) (auto intro: lock_call_inv dies_inv)
qed

section \<open>Mutual exclusion\<close>

text \<open>
  C17. The file lock excludes. In every interleaving of the calls of any number of threads that take, steal and release
  it, with processes dying at any point, whoever holds the lock in a live process has it alone: the path names the inode
  it linked, its own record is in it, and it has not withdrawn it; so two threads never hold the lock at the same
  time, and a stealer that acts late never removes the lock of another.
\<close>

theorem file_lock_excludes:
  assumes "reachable lock_begins (claim_step proc) s" and "holds_claim proc s t n"
  shows "lk_path s = Some n \<and> lk_owner s n = t \<and> n \<notin> lk_withdrawn s \<and> (\<forall>u m. holds_claim proc s u m \<longrightarrow> u = t \<and> m = n)"
proof -
  have inv: "claim_inv proc s" by (rule claim.inv_reachable [OF assms(1)])
  have h: "lk_path s = Some m \<and> lk_owner s m = u \<and> m \<notin> lk_withdrawn s" if "holds_claim proc s u m" for u m
    using that inv thread_okD(1) [of proc s u "LHolding m" m] by (simp add: holds_claim_def claim_inv_def)
  show ?thesis using h [OF assms(2)] h by (metis option.inject)
qed

text \<open>A run: the first thread takes the lock, its process dies, the second steals it.\<close>

definition ex_lock :: lock_system where
  "ex_lock = \<lparr>lk_path = None, lk_next = 0, lk_owner = (\<lambda>_. 0), lk_flock = (\<lambda>_. None), lk_withdrawn = {}, lk_dead = {},
     lk_point = (\<lambda>_. LIdle)\<rparr>"

lemma call_reaches:
  "reachable lock_begins (claim_step proc) s \<Longrightarrow> lock_call proc t s s' \<Longrightarrow> proc t \<notin> lk_dead s \<Longrightarrow>
     reachable lock_begins (claim_step proc) s'"
  by (rule reachable_step) (auto intro: step_call)

lemma ex_stolen: "\<exists>s. reachable lock_begins (claim_step id) s \<and> holds_claim id s 2 1 \<and> 1 \<in> lk_dead s"
proof -
  let ?r = "reachable lock_begins (claim_step id)"
  have r0: "?r ex_lock" by (rule reachable_init) (simp add: lock_begins_def ex_lock_def)
  define s1 where s1: "s1 = try_create 1 LCreated LOpening ex_lock"
  have r1: "?r s1" unfolding s1 by (rule call_reaches [OF r0 call_link]) (simp_all add: ex_lock_def)
  have f1: "lk_path s1 = Some 0" "lk_next s1 = 1" "lk_owner s1 0 = 1" "lk_flock s1 = (\<lambda>_. None)" "lk_dead s1 = {}"
      "lk_point s1 2 = LIdle" by (simp_all add: s1 try_create_def ex_lock_def)
  define s2 where s2: "s2 = dies id 1 s1"
  have r2: "?r s2" unfolding s2 by (rule reachable_step [OF r1 step_dies])
  have f2: "lk_path s2 = Some 0" "lk_next s2 = 1" "lk_owner s2 0 = 1" "lk_flock s2 = (\<lambda>_. None)" "lk_dead s2 = {1}"
      "lk_point s2 2 = LIdle" using f1 by (auto simp: s2 dies_def)
  define s3 where s3: "s3 = try_create 2 LCreated LOpening s2"
  have r3: "?r s3" unfolding s3 by (rule call_reaches [OF r2 call_link]) (simp_all add: f2)
  have f3: "lk_path s3 = Some 0" "lk_next s3 = 1" "lk_owner s3 0 = 1" "lk_flock s3 = (\<lambda>_. None)" "lk_dead s3 = {1}"
      "lk_point s3 2 = LOpening" using f2 by (simp_all add: s3 try_create_def)
  define s4 where s4: "s4 = at_point 2 (case lk_path s3 of Some i \<Rightarrow> LOpened i | None \<Rightarrow> LRetrying) s3"
  have r4: "?r s4" unfolding s4 by (rule call_reaches [OF r3 call_open]) (simp_all add: f3)
  define s5 where s5: "s5 = try_flock 2 0 (LLocked 0) LIdle s4"
  have r5: "?r s5" unfolding s5 by (rule call_reaches [OF r4 call_flock]) (simp_all add: s4 f3)
  have f5: "lk_path s5 = Some 0" "lk_next s5 = 1" "lk_owner s5 0 = 1" "lk_dead s5 = {1}" "lk_point s5 2 = LLocked 0"
    using f3 by (simp_all add: s5 s4 try_flock_def)
  define s6 where s6: "s6 = at_point 2 (case lk_path s5 of
        None \<Rightarrow> LRelinking 0 | Some j \<Rightarrow> if j = 0 then LJudging 0 else LCleaning 0 None) s5"
  have r6: "?r s6" unfolding s6 by (rule call_reaches [OF r5 call_compare]) (simp_all add: f5)
  define s7 where s7: "s7 = at_point 2 (LRemoving 0) s6"
  have r7: "?r s7" unfolding s7 by (rule call_reaches [OF r6 call_judge_dead]) (simp_all add: s6 f5)
  define s8 where s8: "s8 = at_point 2 (LRelinking 0) (unlink_path s7)"
  have r8: "?r s8" unfolding s8 by (rule call_reaches [OF r7 call_remove]) (simp_all add: s7 s6 f5)
  have f8: "lk_path s8 = None" "lk_next s8 = 1" "lk_dead s8 = {1}" "lk_point s8 2 = LRelinking 0"
    using f5 by (simp_all add: s8 s7 s6 unlink_path_def)
  define s9 where s9: "s9 = try_create 2 (\<lambda>n. LCleaning 0 (Some n)) (LCleaning 0 None) s8"
  have r9: "?r s9" unfolding s9 by (rule call_reaches [OF r8 call_steal]) (simp_all add: f8)
  have f9: "lk_path s9 = Some 1" "lk_dead s9 = {1}" "lk_point s9 2 = LCleaning 0 (Some 1)"
    using f8 by (simp_all add: s9 try_create_def)
  define s10 where s10: "s10 = at_point 2 (if lk_path s9 = Some 0 then LToken 0 (Some 1) else LUnlocking 0 (Some 1)) s9"
  have r10: "?r s10" unfolding s10 by (rule call_reaches [OF r9 call_clean]) (simp_all add: f9)
  define s11 where s11: "s11 = at_point 2 (case Some 1 of Some n \<Rightarrow> LCreated n | None \<Rightarrow> LIdle)
      (s10\<lparr>lk_flock := (lk_flock s10)(0 := None)\<rparr>)"
  have r11: "?r s11" unfolding s11 by (rule call_reaches [OF r10 call_unlock]) (simp_all add: s10 f9)
  define s12 where s12: "s12 = at_point 2 (case lk_path s11 of Some i \<Rightarrow> LHolding i | None \<Rightarrow> LIdle) s11"
  have r12: "?r s12" unfolding s12 by (rule call_reaches [OF r11 call_guard]) (simp_all add: s11 s10 f9)
  have "holds_claim id s12 2 1" "1 \<in> lk_dead s12" by (simp_all add: holds_claim_def s12 s11 s10 f9)
  then show ?thesis using r12 by blast
qed

theorem file_lock_excludes_witness:
  "\<exists>s. reachable lock_begins (claim_step id) s \<and> holds_claim id s 2 1 \<and> lk_path s = Some 1 \<and> lk_owner s 1 = 2"
  using ex_stolen file_lock_excludes by blast

section \<open>A withdrawn claim can be left behind\<close>


end
