(* ===== verification/Registry_Cleanup.thy ===== *)
theory Registry_Cleanup
  imports Operation_Retire Registry_Lock Registry_Listing Registry_Mutate Tags
begin

text \<open>
  Removing the files of a session (\<^verbatim>\<open>crates/pty-core/src/registry/cleanup.rs\<close>), and the evidence of an exit with the removal
  of one generation (\<^verbatim>\<open>registry/evidence.rs\<close>). The answers of the two locks are an argument, and so is what happens to the directory
  between the two readings of a record. Shown: a removal that goes ahead rests on the record it was asked for and on an
  owner that is lost, the record goes last, and no removal touches the files of a daemon that runs.
\<close>

section \<open>Locks\<close>

record lock_answers =
  la_events :: "rstr + unit option"
  la_metadata :: "rstr + unit option"

definition under_both_locks :: "lock_answers \<Rightarrow> 'a \<Rightarrow> LockBusy + 'a" where
  "under_both_locks a result = with_both_locks (la_events a) (\<lambda>_. la_metadata a) (\<lambda>_ _. result)"

text \<open>\<open>acquire_lock\<close>: a guard or none; an error counts as none.\<close>

definition lock_taken :: "rstr + unit option \<Rightarrow> bool" where
  "lock_taken a \<longleftrightarrow> a = Inr (Some ())"

lemma under_both_locks_iff: "under_both_locks a x = Inr y \<longleftrightarrow> lock_taken (la_events a) \<and> lock_taken (la_metadata a) \<and> y = x"
  by (auto simp: under_both_locks_def with_both_locks_def lock_taken_def lock_or_refusal_def split: sum.splits option.splits)

section \<open>Cleanup\<close>

definition cleanup_all :: "registry_tools \<Rightarrow> lock_answers \<Rightarrow> rstr \<Rightarrow> registry \<Rightarrow> (LockBusy + unit) \<times> registry" where
  "cleanup_all env a name r =
     (case under_both_locks a (cleanup_all_while_locked env name r) of
        Inl b \<Rightarrow> (Inl b, r)
      | Inr r' \<Rightarrow> (Inr (), r'))"

text \<open>The test of the owner is on what the registry has of the session.\<close>

definition row_of :: "registry_tools \<Rightarrow> registry \<Rightarrow> rstr \<Rightarrow> row_world" where
  "row_of env r name =
     \<lparr>uw_locks = True, uw_metadata = read_metadata env r name, uw_session_pid = read_session_pid r name,
      uw_socket = \<not> absent r (socket_file env r name), uw_pidfile = \<not> absent r (pid_path name)\<rparr>"

definition cleanup_owned_socket ::
  "registry_tools \<Rightarrow> rstr + unit option \<Rightarrow> rstr \<Rightarrow> SessionGenerationOwner \<Rightarrow> registry \<Rightarrow> bool \<times> registry" where
  "cleanup_owned_socket env lock name own r =
     (if \<not> lock_taken lock then (False, r)
      else if \<not> is_current_generation_owner (row_of env r name) own then (False, r)
      else (True, cleanup_socket env name r))"

definition cleanup_owned_all ::
  "registry_tools \<Rightarrow> lock_answers \<Rightarrow> rstr \<Rightarrow> SessionGenerationOwner \<Rightarrow> registry \<Rightarrow> bool \<times> registry" where
  "cleanup_owned_all env a name own r =
     (case under_both_locks a (is_current_generation_owner (row_of env r name) own) of
        Inr True \<Rightarrow> (True, cleanup_all_while_locked env name r)
      | _ \<Rightarrow> (False, r))"

section \<open>Retirement of records of an earlier boot\<close>

text \<open>\<open>==\<close> on records: maps are compared without their order.\<close>

definition metadata_eq :: "SessionMetadata \<Rightarrow> SessionMetadata \<Rightarrow> bool" where
  "metadata_eq a b \<longleftrightarrow>
     (let plain = (\<lambda>m. m\<lparr>md_recovery := None, md_tags := None, md_extra_env := None, md_session_env := None, md_env := None,
                        md_extra := []\<rparr>) in
      plain a = plain b \<and> rel_option json_eq (md_recovery a) (md_recovery b) \<and> opt_map_eq (md_tags a) (md_tags b)
      \<and> opt_map_eq (md_extra_env a) (md_extra_env b) \<and> opt_map_eq (md_session_env a) (md_session_env b)
      \<and> opt_map_eq (md_env a) (md_env b) \<and> imap_eq json_eq (md_extra a) (md_extra b))"

definition record_has_stale_boot_identity :: "SessionMetadata \<Rightarrow> rstr option \<Rightarrow> bool" where
  "record_has_stale_boot_identity m current_boot \<longleftrightarrow>
     (case md_daemon_boot_id m of
        None \<Rightarrow> False
      | Some recorded \<Rightarrow>
          recorded \<noteq> [] \<and> \<not> legacy_boot recorded
          \<and> (case current_boot of Some current \<Rightarrow> \<not> legacy_boot current \<and> current \<noteq> recorded | None \<Rightarrow> False))"

definition is_permanent :: "SessionMetadata \<Rightarrow> bool" where
  "is_permanent m \<longleftrightarrow> Option.bind (md_tags m) (\<lambda>t. imap_get t (ustr ''strategy'')) = Some (ustr ''permanent'')"

text \<open>\<open>try_for_each\<close>: the removals stop at the first that is refused; a file that is not there counts as removed.\<close>

fun remove_until_refused :: "rstr list \<Rightarrow> registry \<Rightarrow> bool \<times> registry" where
  "remove_until_refused [] r = (True, r)"
| "remove_until_refused (p # ps) r =
     (case remove_file p r of
        (WasRefused, r') \<Rightarrow> (False, r')
      | (_, r') \<Rightarrow> remove_until_refused ps r')"

text \<open>The files of a session, its record last.\<close>

definition files_record_last :: "registry_tools \<Rightarrow> registry \<Rightarrow> rstr \<Rightarrow> rstr list" where
  "files_record_last env r name =
     [socket_file env r name, pid_path name, events_path name, recovery_revision_path name, output_activity_path name,
      metadata_path name]"

definition retires ::
  "registry_tools \<Rightarrow> proc_answers \<Rightarrow> registry \<Rightarrow> rstr \<Rightarrow> SessionMetadata \<Rightarrow> int option \<Rightarrow> bool" where
  "retires env pa r name observed observed_pid \<longleftrightarrow>
     (case read_identity_record env r name of
        None \<Rightarrow> False
      | Some (current, current_pid) \<Rightarrow>
          if \<not> metadata_eq current observed \<or> current_pid \<noteq> observed_pid then False
          else if is_keep_requested (md_tags current) \<or> is_permanent current then False
          else if (case observed_pid of Some p \<Rightarrow> Some p | None \<Rightarrow> recorded_pid current) = None then False
          else
            (let identity = check_record_identity pa observed_pid (Some current) in
             identity = IdMismatch \<or> identity = IdGone \<and> record_has_stale_boot_identity current (pa_boot pa)))"

definition retire_stale_daemon_observation ::
  "registry_tools \<Rightarrow> proc_answers \<Rightarrow> lock_answers \<Rightarrow> rstr \<Rightarrow> SessionMetadata \<Rightarrow> int option \<Rightarrow> registry \<Rightarrow> bool \<times> registry" where
  "retire_stale_daemon_observation env pa a name observed observed_pid r =
     (case under_both_locks a (retires env pa r name observed observed_pid) of
        Inr True \<Rightarrow> remove_until_refused (files_record_last env r name) r
      | _ \<Rightarrow> (False, r))"

definition retire_stale_daemon_record ::
  "registry_tools \<Rightarrow> proc_answers \<Rightarrow> lock_answers \<Rightarrow> rstr \<Rightarrow> SessionMetadata \<Rightarrow> registry \<Rightarrow> bool \<times> registry" where
  "retire_stale_daemon_record env pa a name observed r =
     (if \<not> name_is_valid env r name then (False, r)
      else case read_identity_record env r name of
        None \<Rightarrow> (False, r)
      | Some (current, observed_pid) \<Rightarrow>
          if \<not> metadata_eq current observed then (False, r)
          else retire_stale_daemon_observation env pa a name observed observed_pid r)"

text \<open>Over the entries of the directory as it was opened; each session has its answers, and so has the table.\<close>

fun retire_loop ::
  "registry_tools \<Rightarrow> (rstr \<Rightarrow> proc_answers) \<Rightarrow> (rstr \<Rightarrow> lock_answers) \<Rightarrow> rstr \<Rightarrow> rstr list \<Rightarrow> nat \<Rightarrow> registry \<Rightarrow> nat \<times> registry" where
  "retire_loop env pas locks starting_name [] retired r = (retired, r)"
| "retire_loop env pas locks starting_name (e # es) retired r =
     (case (if is_tmp_name e then None else without_suffix ''.json'' e) of
        None \<Rightarrow> retire_loop env pas locks starting_name es retired r
      | Some name \<Rightarrow>
          if name = starting_name \<or> \<not> name_is_valid env r name
          then retire_loop env pas locks starting_name es retired r
          else
            (case read_identity_record env r name of
               None \<Rightarrow> retire_loop env pas locks starting_name es retired r
             | Some (observed, observed_pid) \<Rightarrow>
                 (case retire_stale_daemon_observation env (pas name) (locks name) name observed observed_pid r of
                    (done, r') \<Rightarrow> retire_loop env pas locks starting_name es (if done then retired + 1 else retired) r')))"

definition retire_stale_daemon_records ::
  "registry_tools \<Rightarrow> (rstr \<Rightarrow> proc_answers) \<Rightarrow> (rstr \<Rightarrow> lock_answers) \<Rightarrow> rstr \<Rightarrow> registry \<Rightarrow> nat \<times> registry" where
  "retire_stale_daemon_records env pas locks starting_name r =
     (if rg_access r = DirOpens then retire_loop env pas locks starting_name (root_entries r) 0 r else (0, r))"

section \<open>Evidence of an exit\<close>

datatype EvidenceUnavailableReason = EvMissing | EvRunning | EvBusy | EvGenerationUnavailable | EvInvalidMetadata

record SessionExitEvidence =
  se_name :: rstr
  se_generation :: rstr
  se_exited :: bool
  se_exit_code :: "int option"
  se_tail :: "rstr list option"

text \<open>The identity is a record that has only the daemon's pid, token and boot.\<close>

record EvidenceMetadata =
  em_generation :: rstr
  em_identity :: SessionMetadata
  em_exited_at :: "rstr option"
  em_exit_code :: "int option"
  em_last_lines :: "rstr list option"

datatype EvidenceMetadataRead = EmValid EvidenceMetadata | EmMissing | EmGenerationUnavailable | EmInvalid

definition METADATA_MAX_BYTES :: nat where "METADATA_MAX_BYTES = 1024 * 1024"
definition SESSION_EXIT_LAST_LINES_LIMIT :: nat where "SESSION_EXIT_LAST_LINES_LIMIT = 200"

definition non_empty_string :: "json \<Rightarrow> rstr option" where
  "non_empty_string v = (case v of JString s \<Rightarrow> if s \<noteq> [] then Some s else None | _ \<Rightarrow> None)"

definition int32 :: "json \<Rightarrow> int option" where
  "int32 v = in_range (- (2 ^ 31)) (2 ^ 31 - 1) (as_int v)"

text \<open>A field that may be missing but not malformed: absent, present, or an error.\<close>

definition checked_field :: "(json \<Rightarrow> 'a option) \<Rightarrow> json imap \<Rightarrow> string \<Rightarrow> unit + 'a option" where
  "checked_field read m key =
     (case imap_get m (ustr key) of
        None \<Rightarrow> Inr None
      | Some v \<Rightarrow> (case read v of Some x \<Rightarrow> Inr (Some x) | None \<Rightarrow> Inl ()))"

definition evidence_pid :: "json \<Rightarrow> int option" where
  "evidence_pid v = (case int32 v of Some p \<Rightarrow> if p > 0 then Some p else None | None \<Rightarrow> None)"

definition recovery_token :: "json imap \<Rightarrow> rstr option" where
  "recovery_token m =
     (case imap_get m (ustr ''recovery'') of
        Some (JObject rec) \<Rightarrow> Option.bind (imap_get rec (ustr ''processStartToken'')) non_empty_string
      | _ \<Rightarrow> None)"

definition evidence_lines :: "json \<Rightarrow> rstr list option" where
  "evidence_lines v =
     (case v of
        JArray ls \<Rightarrow> if length ls \<le> SESSION_EXIT_LAST_LINES_LIMIT then those (map as_string ls) else None
      | _ \<Rightarrow> None)"

definition evidence_of_object :: "json imap \<Rightarrow> EvidenceMetadataRead" where
  "evidence_of_object m =
     (case imap_get m (ustr ''generation'') of
        None \<Rightarrow> EmGenerationUnavailable
      | Some g \<Rightarrow>
          (case non_empty_string g of
             None \<Rightarrow> EmInvalid
           | Some generation \<Rightarrow>
               (case (checked_field evidence_pid m ''daemonPid'', checked_field non_empty_string m ''daemonStartToken'',
                      checked_field non_empty_string m ''daemonBootId'', checked_field evidence_lines m ''lastLines'') of
                  (Inr pid, Inr tok, Inr boot, Inr lns) \<Rightarrow>
                    (case (imap_get m (ustr ''exitedAt''), imap_get m (ustr ''exitCode'')) of
                       (Some exited, Some code) \<Rightarrow>
                         (case (non_empty_string exited, int32 code) of
                            (Some exited', Some code') \<Rightarrow> EmValid
                              \<lparr>em_generation = generation,
                               em_identity = default_metadata\<lparr>md_daemon_pid := map_option of_int pid,
                                 md_daemon_start_token := (case tok of Some t \<Rightarrow> Some t | None \<Rightarrow> recovery_token m),
                                 md_daemon_boot_id := boot\<rparr>,
                               em_exited_at = Some exited', em_exit_code = Some code', em_last_lines = lns\<rparr>
                          | _ \<Rightarrow> EmInvalid)
                     | (None, None) \<Rightarrow> EmValid
                         \<lparr>em_generation = generation,
                          em_identity = default_metadata\<lparr>md_daemon_pid := map_option of_int pid,
                            md_daemon_start_token := (case tok of Some t \<Rightarrow> Some t | None \<Rightarrow> recovery_token m),
                            md_daemon_boot_id := boot\<rparr>,
                          em_exited_at = None, em_exit_code = None, em_last_lines = lns\<rparr>
                     | _ \<Rightarrow> EmInvalid)
                | _ \<Rightarrow> EmInvalid)))"

text \<open>The file is opened without following a link.\<close>

definition read_evidence_metadata :: "registry_tools \<Rightarrow> registry \<Rightarrow> rstr \<Rightarrow> EvidenceMetadataRead" where
  "read_evidence_metadata env r name =
     (case node_at r (metadata_path name) of
        None \<Rightarrow> EmMissing
      | Some (RegularFile b) \<Rightarrow>
          if length b > METADATA_MAX_BYTES then EmInvalid
          else (case re_parse env b of Some (JObject m) \<Rightarrow> evidence_of_object m | _ \<Rightarrow> EmInvalid)
      | _ \<Rightarrow> EmInvalid)"

definition generation_identity ::
  "registry_tools \<Rightarrow> proc_answers \<Rightarrow> registry \<Rightarrow> rstr \<Rightarrow> EvidenceMetadata \<Rightarrow> DaemonIdentityCheck" where
  "generation_identity env pa r name em =
     check_record_identity_in pa (absent r (pid_path name)) (absent r (socket_file env r name))
       (read_session_pid r name) (Some (em_identity em))"

definition get_session_exit_evidence ::
  "registry_tools \<Rightarrow> proc_answers \<Rightarrow> rstr + unit option \<Rightarrow> registry \<Rightarrow> rstr \<Rightarrow> EvidenceUnavailableReason + SessionExitEvidence" where
  "get_session_exit_evidence env pa lock r name =
     (if \<not> name_is_valid env r name then Inl EvInvalidMetadata
      else if \<not> lock_taken lock then Inl EvBusy
      else case read_evidence_metadata env r name of
        EmMissing \<Rightarrow> Inl EvMissing
      | EmGenerationUnavailable \<Rightarrow> Inl EvGenerationUnavailable
      | EmInvalid \<Rightarrow> Inl EvInvalidMetadata
      | EmValid em \<Rightarrow>
          (case generation_identity env pa r name em of
             IdMatch \<Rightarrow> Inl EvRunning
           | IdUnknown \<Rightarrow> Inl EvInvalidMetadata
           | _ \<Rightarrow> Inr \<lparr>se_name = name, se_generation = em_generation em, se_exited = (em_exited_at em \<noteq> None),
                       se_exit_code = em_exit_code em, se_tail = em_last_lines em\<rparr>))"

datatype RemoveSessionGenerationResult =
    GenRemoved | GenMissing | GenerationMismatches | GenNotTerminal | GenInvalidMetadata | GenBusy | GenIoError

text \<open>\<open>first\<close> and \<open>second\<close> are the answers of the processes at the two checks, \<open>between\<close> what happens to the directory.\<close>

definition remove_session_generation ::
  "registry_tools \<Rightarrow> proc_answers \<Rightarrow> proc_answers \<Rightarrow> (registry \<Rightarrow> registry) \<Rightarrow> lock_answers \<Rightarrow> rstr \<Rightarrow> rstr \<Rightarrow> registry
     \<Rightarrow> RemoveSessionGenerationResult \<times> registry" where
  "remove_session_generation env pa1 pa2 between a name expected r =
     (if \<not> name_is_valid env r name then (GenInvalidMetadata, r)
      else if \<not> lock_taken (la_events a) \<or> \<not> lock_taken (la_metadata a) then (GenBusy, r)
      else case read_evidence_metadata env r name of
        EmMissing \<Rightarrow> (GenMissing, r)
      | EmGenerationUnavailable \<Rightarrow> (GenerationMismatches, r)
      | EmInvalid \<Rightarrow> (GenInvalidMetadata, r)
      | EmValid em1 \<Rightarrow>
          if em_generation em1 \<noteq> expected then (GenerationMismatches, r)
          else if \<not> known_owner_lost (generation_identity env pa1 r name em1) then (GenNotTerminal, r)
          else
            (let r2 = between r in
             case read_evidence_metadata env r2 name of
               EmMissing \<Rightarrow> (GenMissing, r2)
             | EmGenerationUnavailable \<Rightarrow> (GenerationMismatches, r2)
             | EmInvalid \<Rightarrow> (GenInvalidMetadata, r2)
             | EmValid em2 \<Rightarrow>
                 if em_generation em2 \<noteq> expected then (GenerationMismatches, r2)
                 else if em2 \<noteq> em1 \<or> \<not> known_owner_lost (generation_identity env pa2 r2 name em2) then (GenNotTerminal, r2)
                 else (case remove_until_refused (files_record_last env r2 name) r2 of
                         (done, r3) \<Rightarrow> (if done then GenRemoved else GenIoError, r3))))"

section \<open>Facts\<close>

lemma paths_below: "recovery_revision_path n \<noteq> metadata_path n" "output_activity_path n \<noteq> metadata_path n"
  by (auto simp: recovery_revision_path_def output_activity_path_def metadata_path_def with_suffix_def ustr_def
      dest: arg_cong [of _ _ length])

lemma record_path_apart:
  "metadata_path name \<notin> {socket_file env r name, pid_path name, events_path name, recovery_revision_path name, output_activity_path name}"
  using socket_file_sock [of env r name] paths_below [of name]
  by (auto simp: metadata_path_def pid_path_def events_path_def)

lemma remove_file_node:
  "remove_file p r = (a, r') \<Longrightarrow> q \<noteq> p \<Longrightarrow> node_at r' q = node_at r q"
  "remove_file p r = (a, r') \<Longrightarrow> a \<noteq> WasRefused \<Longrightarrow> node_at r' p = None"
  "remove_file p r = (a, r') \<Longrightarrow> node_at r p = None \<Longrightarrow> r' = r"
  by (auto simp: remove_file_def node_at_def delete_conv' split: if_splits)

lemma remove_until_refused_nodes:
  assumes "remove_until_refused ps r = (done, r')"
  shows "(\<forall>q. q \<notin> set ps \<longrightarrow> node_at r' q = node_at r q) \<and> (done \<longrightarrow> (\<forall>p \<in> set ps. node_at r' p = None))
    \<and> (\<forall>q. node_at r q = None \<longrightarrow> node_at r' q = None)"
  using assms
proof (induction ps arbitrary: r)
  case (Cons p ps)
  obtain a r1 where f: "remove_file p r = (a, r1)" by fastforce
  have k: "node_at r1 q = (if q = p then (if a = WasRefused then node_at r p else None) else node_at r q)" for q
    using f by (auto simp: remove_file_def node_at_def delete_conv' split: if_splits)
  show ?case
  proof (cases "a = WasRefused")
    case True
    then show ?thesis using Cons.prems f k by auto
  next
    case False
    then have "remove_until_refused ps r1 = (done, r')" using Cons.prems f by (cases a) auto
    note i = Cons.IH [OF this]
    have "node_at r1 p = None" using k False by simp
    then have "node_at r' p = None" using i by blast
    then show ?thesis using i k False by auto
  qed
qed auto

lemma record_goes_last:
  assumes "remove_until_refused (files_record_last env r name) r = (done, r')"
  shows "if done then \<forall>p \<in> set (files_record_last env r name). node_at r' p = None
    else node_at r' (metadata_path name) = node_at r (metadata_path name)"
proof -
  let ?ps = "[socket_file env r name, pid_path name, events_path name, recovery_revision_path name, output_activity_path name]"
  have split: "remove_until_refused (ps @ [p]) s =
      (case remove_until_refused ps s of (True, s') \<Rightarrow> remove_until_refused [p] s' | (False, s') \<Rightarrow> (False, s'))" for ps p s
    by (induction ps arbitrary: s) (auto split: prod.splits removal.splits)
  obtain d s where d: "remove_until_refused ?ps r = (d, s)" by fastforce
  have m: "node_at s (metadata_path name) = node_at r (metadata_path name)"
    using remove_until_refused_nodes [OF d] record_path_apart [of name env r] by simp
  have "remove_until_refused (?ps @ [metadata_path name]) r = (done, r')" using assms by (simp add: files_record_last_def)
  then have "(d \<and> remove_until_refused [metadata_path name] s = (done, r')) \<or> (\<not> d \<and> done = False \<and> r' = s)"
    unfolding split d by (auto split: bool.splits)
  then show ?thesis
    using m remove_until_refused_nodes [OF assms] by (auto simp: remove_file_def split: if_splits)
qed

text \<open>The identity that the evidence is checked with names the same process as the record does.\<close>

lemma from_map_identity:
  assumes "from_map m = Some md"
  shows "opt_field as_i32 m ''daemonPid'' = Some (md_daemon_pid md)
    \<and> opt_field as_string m ''daemonStartToken'' = Some (md_daemon_start_token md)
    \<and> opt_field as_string m ''daemonBootId'' = Some (md_daemon_boot_id md)
    \<and> opt_field Some m ''recovery'' = Some (md_recovery md)"
  using assms unfolding from_map_def by (clarsimp simp: Option.bind_eq_Some_conv)

lemma checked_pid:
  assumes "checked_field evidence_pid m ''daemonPid'' = Inr pid" and "opt_field as_i32 m ''daemonPid'' = Some w"
  shows "map_option of_int pid = w"
  using assms
  by (auto simp: checked_field_def opt_field_def evidence_pid_def as_i32_def int32_def in_range_def split: option.splits json.splits if_splits)

lemma checked_text:
  assumes "checked_field non_empty_string m k = Inr t" and "opt_field as_string m k = Some t'"
  shows "t = t'"
  using assms
  by (auto simp: checked_field_def opt_field_def non_empty_string_def split: option.splits json.splits if_splits)

lemma recovery_token_named:
  assumes "opt_field Some m ''recovery'' = Some (md_recovery md)" and "process_start_token md = Some t" and "t \<noteq> []"
  shows "recovery_token m = Some t"
  using assms
  by (auto simp: recovery_token_def opt_field_def process_start_token_def non_empty_string_def Option.bind_eq_Some_conv
      split: option.splits json.splits if_splits elim!: as_string.elims)

lemma evidence_names_owner:
  assumes e: "evidence_of_object m = EmValid em" and f: "from_map m = Some md"
    and t: "daemon_start_token md = Some t" "t \<noteq> []"
  shows "recorded_pid (em_identity em) = recorded_pid md \<and> md_daemon_boot_id (em_identity em) = md_daemon_boot_id md
    \<and> daemon_start_token (em_identity em) = Some t"
proof -
  obtain pid tok boot where c: "checked_field evidence_pid m ''daemonPid'' = Inr pid"
      "checked_field non_empty_string m ''daemonStartToken'' = Inr tok" "checked_field non_empty_string m ''daemonBootId'' = Inr boot"
      and i: "em_identity em = default_metadata\<lparr>md_daemon_pid := map_option of_int pid,
                md_daemon_start_token := (case tok of Some t \<Rightarrow> Some t | None \<Rightarrow> recovery_token m), md_daemon_boot_id := boot\<rparr>"
    using e by (auto simp: evidence_of_object_def split: option.splits sum.splits)
  note d = from_map_identity [OF f]
  have p: "map_option of_int pid = md_daemon_pid md" using checked_pid [OF c(1)] d by blast
  have k: "tok = md_daemon_start_token md" using checked_text [OF c(2)] d by blast
  have b: "boot = md_daemon_boot_id md" using checked_text [OF c(3)] d by blast
  have "(case tok of Some t \<Rightarrow> Some t | None \<Rightarrow> recovery_token m) = Some t"
    using t recovery_token_named [of m md t] d by (auto simp: daemon_start_token_def k split: option.splits)
  then show ?thesis by (simp add: i p b recorded_pid_def daemon_start_token_def)
qed

section \<open>Properties\<close>

text \<open>
  C21. The removal of a generation is fenced. It touches a file only after both locks, two equal readings of a record of the
  generation that was asked for, and an owner that was lost at both; then either every file of the session is gone, or, where the
  system refused one, the record is still there for another attempt. Every other answer leaves the directory as it was.
\<close>

theorem generation_removal_fenced:
  assumes "remove_session_generation env pa1 pa2 between a name expected r = (res, r')"
  shows "(res \<in> {GenRemoved, GenIoError} \<longrightarrow>
          lock_taken (la_events a) \<and> lock_taken (la_metadata a)
          \<and> (\<exists>em. read_evidence_metadata env r name = EmValid em \<and> read_evidence_metadata env (between r) name = EmValid em
               \<and> em_generation em = expected \<and> known_owner_lost (generation_identity env pa1 r name em)
               \<and> known_owner_lost (generation_identity env pa2 (between r) name em)))
    \<and> (res = GenRemoved \<longrightarrow> (\<forall>p \<in> set (files_record_last env (between r) name). node_at r' p = None))
    \<and> (res = GenIoError \<longrightarrow> node_at r' (metadata_path name) = node_at (between r) (metadata_path name))
    \<and> (res \<notin> {GenRemoved, GenIoError} \<longrightarrow> r' = r \<or> r' = between r)"
proof (cases "res \<in> {GenRemoved, GenIoError}")
  case False
  then show ?thesis using assms
    by (auto simp: remove_session_generation_def Let_def split: EvidenceMetadataRead.splits if_splits prod.splits)
next
  case True
  then obtain em whole where em: "read_evidence_metadata env r name = EmValid em" "read_evidence_metadata env (between r) name = EmValid em"
      "em_generation em = expected" "known_owner_lost (generation_identity env pa1 r name em)"
      "known_owner_lost (generation_identity env pa2 (between r) name em)"
      "lock_taken (la_events a)" "lock_taken (la_metadata a)"
    and rm: "remove_until_refused (files_record_last env (between r) name) (between r) = (whole, r')"
    and res: "res = (if whole then GenRemoved else GenIoError)"
    using assms
    by (auto simp: remove_session_generation_def Let_def split: EvidenceMetadataRead.splits if_splits prod.splits)
  show ?thesis using em res record_goes_last [OF rm] by (auto split: if_splits)
qed

text \<open>Two records: one without a pid, whose companions are gone, and one of the process of the example of the identity check.\<close>

definition ended_record :: "json imap" where
  "ended_record = [(ustr ''generation'', JString (ustr ''g''))]"

definition running_record :: "json imap" where
  "running_record = [(ustr ''generation'', JString (ustr ''g'')), (ustr ''daemonPid'', json_int 42),
     (ustr ''daemonStartToken'', JString (ustr ''linux:777'')), (ustr ''daemonBootId'', JString (ustr ''b''))]"

definition env_of :: "json imap \<Rightarrow> registry_tools" where
  "env_of m = \<lparr>re_root = [], re_digest = (\<lambda>_. []), re_parse = (\<lambda>_. Some (JObject m)), re_print = (\<lambda>_. []),
     re_parse_record = (\<lambda>_ _. from_map m)\<rparr>"

definition both_free :: lock_answers where
  "both_free = \<lparr>la_events = Inr (Some ()), la_metadata = Inr (Some ())\<rparr>"

lemma example_files:
  "node_at example_registry (metadata_path (ustr ''a'')) = Some (RegularFile [])"
  "absent example_registry (pid_path (ustr ''a''))" "absent example_registry (socket_file env example_registry (ustr ''a''))"
  "read_session_pid example_registry (ustr ''a'') = None"
  using socket_file_sock [of env example_registry "ustr ''a''"]
  by (auto simp: example_registry_def node_at_def absent_def read_session_pid_def read_file_def metadata_path_def pid_path_def)

lemma ended_valid: "name_is_valid (env_of ended_record) example_registry (ustr ''a'')"
proof -
  have "\<not> is_socket example_registry (socket_file (env_of ended_record) example_registry (ustr ''a''))"
    using example_files(3) by (simp add: absent_def is_socket_def)
  moreover have "is_socket example_registry p = False" for p
    by (simp add: is_socket_def node_at_def example_registry_def)
  ultimately have "socket_path (env_of ended_record) example_registry (ustr ''a'') = 47 # with_suffix (ustr ''a'') ''.sock''"
    by (simp add: socket_path_def socket_file_def socket_filenames_def env_of_def with_suffix_def ustr_def utf8_len_def utf8_width_def
        SUN_PATH_MAX_def)
  then show ?thesis
    by (simp add: name_is_valid_def validate_name_def validate_name_lexical_def with_suffix_def ustr_def utf8_len_def utf8_width_def
        utf16_len_def is_name_char_def SUN_PATH_MAX_def)
qed

lemma ended_removed:
  "fst (remove_session_generation (env_of ended_record) pa pa (\<lambda>r. r) both_free (ustr ''a'') (ustr ''g'') example_registry) = GenRemoved"
proof -
  let ?env = "env_of ended_record"
  have m: "md_daemon_pid default_metadata = None"
    by (simp add: default_metadata_def from_map_def opt_field_def plain_field_def)
  have c: "checked_field evidence_pid ended_record ''daemonPid'' = Inr None"
      "checked_field non_empty_string ended_record ''daemonStartToken'' = Inr None"
      "checked_field non_empty_string ended_record ''daemonBootId'' = Inr None"
      "checked_field evidence_lines ended_record ''lastLines'' = Inr None"
      "imap_get ended_record (ustr ''exitedAt'') = None" "imap_get ended_record (ustr ''exitCode'') = None"
      "imap_get ended_record (ustr ''generation'') = Some (JString (ustr ''g''))"
      "non_empty_string (JString (ustr ''g'')) = Some (ustr ''g'')"
    by (simp_all add: checked_field_def ended_record_def non_empty_string_def) (simp add: ustr_def)
  obtain em where em: "evidence_of_object ended_record = EmValid em" "em_generation em = ustr ''g''"
      "md_daemon_pid (em_identity em) = None"
    by (simp add: evidence_of_object_def c m)
  have v: "read_evidence_metadata ?env example_registry (ustr ''a'') = EmValid em"
    by (simp add: read_evidence_metadata_def example_files env_of_def em METADATA_MAX_BYTES_def)
  have g: "known_owner_lost (generation_identity ?env pa example_registry (ustr ''a'') em)"
    by (simp add: generation_identity_def check_record_identity_in_def example_files em known_owner_lost_def)
  have "\<forall>ps r. rg_stuck r = [] \<longrightarrow> fst (remove_until_refused ps r)"
  proof
    fix ps
    show "\<forall>r. rg_stuck r = [] \<longrightarrow> fst (remove_until_refused ps r)" by (induction ps) (auto simp: remove_file_def)
  qed
  then have "fst (remove_until_refused (files_record_last ?env example_registry (ustr ''a'')) example_registry)"
    by (simp add: example_registry_def)
  then obtain r' where "remove_until_refused (files_record_last ?env example_registry (ustr ''a'')) example_registry = (True, r')"
    by (metis (full_types) prod.collapse)
  then show ?thesis
    by (simp add: remove_session_generation_def ended_valid both_free_def lock_taken_def v em g)
qed

theorem generation_removal_fenced_witness:
  "\<exists>r'. remove_session_generation (env_of ended_record) example_proc example_proc (\<lambda>r. r) both_free (ustr ''a'') (ustr ''g'')
      example_registry = (GenRemoved, r') \<and> node_at r' (metadata_path (ustr ''a'')) = None"
proof -
  obtain res r' where r: "remove_session_generation (env_of ended_record) example_proc example_proc (\<lambda>r. r) both_free (ustr ''a'')
      (ustr ''g'') example_registry = (res, r')" by fastforce
  have g: "res = GenRemoved" using ended_removed [of example_proc] r by simp
  show ?thesis using generation_removal_fenced [OF r] r g by (simp add: files_record_last_def)
qed

text \<open>
  A record in the directory that names a process which runs, whatever happens between the reads of the process table:
  \<open>h\<close> is what the pid is at the three reads.
\<close>

definition names_running :: "registry_tools \<Rightarrow> proc_answers \<Rightarrow> registry \<Rightarrow> rstr \<Rightarrow> bool" where
  "names_running env pa r name \<longleftrightarrow>
     (\<exists>b m md pid boot h. node_at r (metadata_path name) = Some (RegularFile b) \<and> re_parse env b = Some (JObject m)
        \<and> from_map m = Some md \<and> re_parse_record env True b \<in> {None, Some md}
        \<and> recorded_pid md = Some pid \<and> shown pid boot h pa \<and> owner_runs pid boot h md)"

lemma running_not_retired: "names_running env pa r name \<Longrightarrow> \<not> retires env pa r name observed observed_pid"
proof
  assume n: "names_running env pa r name" and t: "retires env pa r name observed observed_pid"
  from n obtain b md pid boot h where p: "read_file r (metadata_path name) = Some b" "re_parse_record env True b \<in> {None, Some md}"
      "recorded_pid md = Some pid" "shown pid boot h pa" "owner_runs pid boot h md"
    by (auto simp: names_running_def read_file_def)
  from t obtain current cp where c: "read_identity_record env r name = Some (current, cp)"
      "known_owner_lost (check_record_identity pa observed_pid (Some current))"
    by (auto simp: retires_def Let_def known_owner_lost_def split: option.splits prod.splits if_splits)
  have "current = md" using c(1) p(1,2)
    by (auto simp: read_identity_record_def scan_metadata_def read_optional_def split: option.splits prod.splits if_splits)
  then show False using c(2) named_owner_kept(2) [OF p(4,5,3)] by blast
qed

lemma running_not_lost_evidence:
  assumes "names_running env pa r name" and "read_evidence_metadata env r name = EmValid em"
  shows "\<not> known_owner_lost (generation_identity env pa r name em)"
proof -
  from assms(1) obtain b m md pid boot h where p: "node_at r (metadata_path name) = Some (RegularFile b)"
      "re_parse env b = Some (JObject m)" "from_map m = Some md" "recorded_pid md = Some pid" "shown pid boot h pa"
      "owner_runs pid boot h md"
    by (auto simp: names_running_def)
  have e: "evidence_of_object m = EmValid em"
    using assms(2) p by (auto simp: read_evidence_metadata_def split: if_splits)
  obtain start where "daemon_start_token md = Some (ustr ''linux:'' @ start)" using p(6) by (auto simp: owner_runs_def)
  note i = evidence_names_owner [OF e p(3) this linux_not_empty]
  have "owner_runs pid boot h (em_identity em)"
    using p(6) i \<open>daemon_start_token md = Some (ustr ''linux:'' @ start)\<close> by (simp add: owner_runs_def)
  moreover have "recorded_pid (em_identity em) = Some pid" using i p(4) by simp
  ultimately show ?thesis unfolding generation_identity_def using named_owner_kept(1) [OF p(5)] by blast
qed

text \<open>
  C19. The files of a running daemon stay. While the record of a session names a process that runs, nothing that removes sessions
  on the evidence of a lost owner removes a file of it, whatever the locks answer, whatever was observed before, and whatever the
  sidecar says: the retirement of an observation and of a record, the removal of a generation; and no evidence of an exit is
  reported.
\<close>

theorem running_daemon_keeps_its_files:
  assumes "names_running env pa r name"
  shows "retire_stale_daemon_observation env pa a name observed observed_pid r = (False, r)
    \<and> retire_stale_daemon_record env pa a name observed r = (False, r)
    \<and> snd (remove_session_generation env pa pa2 between a name expected r) = r
    \<and> fst (remove_session_generation env pa pa2 between a name expected r) \<noteq> GenRemoved
    \<and> (\<exists>reason. get_session_exit_evidence env pa lock r name = Inl reason)"
proof -
  have o: "retire_stale_daemon_observation env pa a name m p r = (False, r)" for m p
    using running_not_retired [OF assms, of m p]
    by (auto simp: retire_stale_daemon_observation_def under_both_locks_iff split: sum.splits bool.splits)
  moreover have "retire_stale_daemon_record env pa a name observed r = (False, r)"
    using o by (auto simp: retire_stale_daemon_record_def split: option.splits prod.splits)
  moreover have "snd (remove_session_generation env pa pa2 between a name expected r) = r
      \<and> fst (remove_session_generation env pa pa2 between a name expected r) \<noteq> GenRemoved"
    using running_not_lost_evidence [OF assms]
    by (auto simp: remove_session_generation_def split: EvidenceMetadataRead.splits)
  moreover have "\<exists>reason. get_session_exit_evidence env pa lock r name = Inl reason"
    using running_not_lost_evidence [OF assms]
    by (auto simp: get_session_exit_evidence_def known_owner_lost_def split: EvidenceMetadataRead.splits DaemonIdentityCheck.splits)
  ultimately show ?thesis by blast
qed

definition running_proc :: proc_answers where
  "running_proc = example_proc\<lparr>pa_status_again := pa_status example_proc\<rparr>"

lemma example_runs: "names_running (env_of running_record) running_proc example_registry (ustr ''a'')"
proof -
  let ?l = "Leader False (ustr ''777'')"
  let ?h = "\<lparr>ph_first = ?l, ph_second = ?l, ph_third = ?l\<rparr>"
  obtain md where md: "from_map running_record = Some md" "md_daemon_pid md = Some 42"
      "md_daemon_start_token md = Some (ustr ''linux:777'')" "md_daemon_boot_id md = Some (ustr ''b'')"
    by (simp add: from_map_def running_record_def opt_field_def plain_field_def json_int_def as_i32_def in_range_def)
  have p: "recorded_pid md = Some 42" by (simp add: recorded_pid_def md)
  have sh: "shown 42 (ustr ''b'') ?h running_proc"
    using example_status example_token
    by (simp add: shown_def shows_status_def shows_stat_def running_proc_def) (simp add: example_proc_def)
  have o: "owner_runs 42 (ustr ''b'') ?h md"
    by (simp add: owner_runs_def p md daemon_start_token_def ustr_def)
  show ?thesis
    unfolding names_running_def using example_files(1) md(1) p sh o by (fastforce simp: env_of_def)
qed

theorem running_daemon_keeps_its_files_witness:
  "\<exists>reason. get_session_exit_evidence (env_of running_record) running_proc (Inr (Some ())) example_registry (ustr ''a'') = Inl reason"
  using running_daemon_keeps_its_files [OF example_runs] by blast

end
