(* ===== verification/Spec2Isabelle.thy ===== *)
theory Spec2Isabelle
  imports Wire_Protocol Output_Scanner Time_Format Durations Names Metadata_Diff Registry_Mutate Registry_Patch
    Tags Input_Parser Key_Specs Kill Startup_Lease Daemon_Observers Session_Lifecycle Input_Budget
    Enhanced_Paste Tui_Scroll Tui_Fuzzy Tui_Line_Edit Operation_Lock Operation_Frames Operation_Retire
    Operation_Startup Operation_Control Held_Child Process_Tree Event_Follow Registry_Lock Registry_Cleanup
begin

text \<open>
  A verification library for \<^verbatim>\<open>pty\<close>, a program that keeps terminal sessions alive behind a daemon. Paths
  below are relative to \<^verbatim>\<open>src/crates/\<close>.

  The program. A launcher starts a daemon per session. The daemon owns the child's terminal, feeds
  its output to an emulator, and serves clients over a socket: clients attach (writable), peek
  (read-only) or send one command. The session is described by a JSON record in a registry
  directory, which the daemon, the command line and the garbage collector read and rewrite under a
  lock. The parts modelled here, in the order of the layers:

  \<^item> \<open>Pty_Prelude\<close>, \<open>Text_Numbers\<close>, \<open>Transitions\<close>, \<open>Btree_Map\<close>, \<open>Json_Values\<close>: shared vocabulary.
    Machine integers are words, bytes are lists of 8-bit words, a Rust string is the list of its
    scalar values. The locales are the interfaces: a codec and a chunked reader (interpreted by the
    wire protocol, base64 and the scanner), an ordered map (the daemon's table of connections), an
    invariant system (a connection's queue, the input budget, a scroll region, the whole daemon).
  \<^item> \<open>Wire_Protocol\<close> (\<^verbatim>\<open>pty-core/src/protocol.rs\<close>): message types, frame and payload codecs, the
    streaming \<open>PacketReader\<close> and the blocking \<open>read_packet\<close>. Shown: packets survive any chunking,
    nothing is lost or invented, an oversized header ends the stream, both readers agree, payloads
    are read back and stay readable under suffixes.
  \<^item> \<open>Output_Scanner\<close> (\<^verbatim>\<open>pty-terminal/src/strip.rs\<close>): the tokenizer of terminal output and the removal
    of queries. Shown: no byte is lost, what is held back is bounded, chunking does not matter,
    the daemon's streaming removal is the one-shot function, every listed query is removed; and
    that a removal can join its surroundings into a query.
  \<^item> \<open>Base64_Codec\<close>, \<open>Enhanced_Paste\<close> (\<^verbatim>\<open>pty-terminal/src/enhanced_paste.rs\<close>, \<open>base64\<close> of \<^verbatim>\<open>graphics.rs\<close>): the
    clipboard protocol: read requests, the packets that answer them, strict base64. Shown: the
    decoder accepts exactly the encodings, requests are valid or refused, packets cannot break out
    of their sequences or be taken for requests, data survives the scanner, a full answer fits.
  \<^item> \<open>Time_Format\<close>, \<open>Durations\<close>, \<open>Names\<close>, \<open>Tags\<close> (\<^verbatim>\<open>pty-core/src/registry/time.rs\<close>, \<^verbatim>\<open>duration.rs\<close>,
    \<^verbatim>\<open>registry/names.rs\<close>, \<^verbatim>\<open>registry/tags.rs\<close>, and the stamp choice of \<^verbatim>\<open>registry/activity.rs\<close>): the
    calendar and its text, durations with their overflow checks, session ids and display names,
    the retention rules.
  \<^item> \<open>Session_Metadata\<close>, \<open>Metadata_Diff\<close>, \<open>Registry_Mutate\<close>, \<open>Registry_Patch\<close>
    (\<^verbatim>\<open>pty-core/src/registry/metadata.rs\<close>, \<^verbatim>\<open>mutate.rs\<close>): the record and its derived JSON form, the
    rewrite that keeps unknown fields and order, the guarded mutation under the lock, the
    compare-and-set of a tag, and the presentation patches with their events. What the lock, the
    two reads and the write do is the argument \<open>mutate_io\<close>, so the theorems hold for every
    behaviour of the file system and of other writers.
  \<^item> \<open>Input_Parser\<close>, \<open>Key_Specs\<close>, \<open>Kill\<close> (\<^verbatim>\<open>pty-core/src/input.rs\<close>, \<^verbatim>\<open>keys.rs\<close>, \<^verbatim>\<open>paste.rs\<close>, \<^verbatim>\<open>kill.rs\<close>):
    decoding of keys and mouse reports, resolution of key names (what it produces is decoded back),
    and the guard in front of \<open>kill(2)\<close>.
  \<^item> \<open>Startup_Lease\<close> (\<^verbatim>\<open>pty-lifecycle/src/startup.rs\<close>), \<open>Client_Queue\<close>, \<open>Daemon_State\<close>, \<open>Daemon_Lease\<close>,
    \<open>Daemon_Clients\<close>, \<open>Daemon_Exit\<close> (\<^verbatim>\<open>pty/src/daemon/clients.rs\<close>, \<^verbatim>\<open>geometry.rs\<close>, \<^verbatim>\<open>events.rs\<close>, \<^verbatim>\<open>status.rs\<close>,
    \<^verbatim>\<open>lifecycle.rs\<close>, and the link of \<^verbatim>\<open>operation.rs\<close>): the daemon. \<open>Daemon\<close> is its state, each handler of
    the source is a function on it with the whole of its body, \<open>handle\<close> dispatches a message,
    \<open>service_timers\<close> runs the timers, \<open>serve_turn\<close> is one turn of the loop.
  \<^item> \<open>Daemon_Laws\<close>, \<open>Daemon_Views\<close>: what each handler leaves alone (the connections without their
    queues, the exit, the lease), stated once and used by every property.
  \<^item> \<open>Daemon_Session\<close>, \<open>Daemon_Properties\<close>, \<open>Daemon_Geometry\<close>, \<open>Daemon_Observers\<close>: the daemon as a state
    machine whose steps are messages, timers and the writer threads, with any answer of the
    outside world at each step. Shown for every reachable state: connections are consistent, the
    exit is recorded once with its code, the session ends in time, the startup deadline is fenced,
    due screens are sent, the size is the minimum, observers leave the record alone, and messages
    keep their order.
  \<^item> \<open>Session_Lifecycle\<close>: an abstract life of a session (the child ends, the exit is recorded, the
    daemon stops) and the proof that every step of the daemon is a sequence of its transitions.
  \<^item> \<open>Input_Budget\<close> (\<^verbatim>\<open>pty/src/daemon/input_budget.rs\<close>): the bytes of input that may be in flight; the
    condition variable is the guard of a step. Shown: the counter is exact and bounded.
  \<^item> \<open>Tui_Scroll\<close>, \<open>Tui_Fuzzy\<close>, \<open>Tui_Line_Edit\<close> (\<^verbatim>\<open>pty-tui/src/scroll.rs\<close>, \<^verbatim>\<open>fuzzy.rs\<close>, \<^verbatim>\<open>line_edit.rs\<close>): the
    logic of the user interface. Shown: the selection stays visible, a target matches exactly when
    the query is a subsequence of it, editing refines a pair of lists around the cursor.
  \<^item> \<open>Utf8\<close>, \<open>Polling\<close>, \<open>Serde_Derive\<close>: the standard library's UTF-8 decoding, the loop that
    asks again until an answer or a deadline, and the derived JSON forms of the operation's types, each used by
    several of the theories below.
  \<^item> \<open>Proc_Table\<close>, \<open>Argv_Scan\<close> (\<^verbatim>\<open>pty-core/src/proctable.rs\<close>, \<^verbatim>\<open>proctable/argv.rs\<close>): the rows of \<^verbatim>\<open>/proc\<close>, the identity of
    a process, and the scan of its argument area. The locale \<open>row_source\<close> is what its readers rely on.
  \<^item> \<open>Operation_Envelope\<close>, \<open>Operation_Record\<close>, \<open>Operation_Lock\<close>, \<open>Operation_Frames\<close>, \<open>Operation_Settle\<close>,
    \<open>Operation_Retire\<close> (\<^verbatim>\<open>pty-core/src/operation/\<close>): a launch operation as files and frames: the envelope its
    owner writes, the record and its store, the lock of an operation, the frames of the control channel, the
    verdict on what is left of an operation, and retirement. Shown: what an accepted envelope and an accepted command
    are, that a write of the record is a compare-and-swap, that a held lock survives what other threads do, that the wait
    for an exit ends, that a verdict of closure rests on every source and leaves no process behind, and that
    retirement is fenced by the record.
  \<^item> \<open>Operation_Actor\<close>, \<open>Operation_Life\<close> (\<^verbatim>\<open>pty/src/daemon/operation.rs\<close>): the actor that owns an operation in
    the daemon, each event with the whole of its handler and the effects it sends in order, and an abstract life
    of the operation (its child is held, released, handed over or torn down). Shown: every event is a path of the
    abstract life, so a child that was released is never held again.
  \<^item> \<open>Operation_Startup\<close>: the startup worker, and both threads with the record they share as one step
    relation. Shown of every reachable state: the startup takes effects in order, the actor's record stays well
    formed, and a record that is closed fences the startup.
  \<^item> \<open>Operation_Control\<close>: the reader and the writer of the owner's channel. Shown: where the bytes are cut does not
    matter, and the owner receives the frames in the order the actor sent them.
  \<^item> \<open>Held_Child\<close> (\<^verbatim>\<open>pty/src/daemon/held.rs\<close>): the child between \<^verbatim>\<open>fork\<close> and \<^verbatim>\<open>exec\<close>, and the two bytes it
    exchanges with the daemon. Shown: it runs the command exactly when every step succeeded and the release byte
    came, with only the terminal open; and the daemon reads the acknowledgement it wrote, however it is cut.
  \<^item> \<open>Process_Tree\<close> (\<^verbatim>\<open>pty-core/src/process_tree.rs\<close>): the descendants of a process, the snapshot that knows
    whether it is complete, freezing and termination. Shown: the walk is breadth first, a complete snapshot is the live
    tree, a tree reported frozen was seen whole and stopped twice, termination returns and signals only
    what it just recognised, a sweep spares its caller.
  \<^item> \<open>Event_Log\<close>, \<open>Event_Follow\<close> (\<^verbatim>\<open>pty-core/src/events/mod.rs\<close>, \<^verbatim>\<open>events/follow.rs\<close>): a session's log of events: the
    append of a batch and its retention, the readers, the bounded queue in front of the file, and the follower that reads what
    was added since it last looked. Shown: a batch is the single appends, the log stays bounded, the writer
    keeps its order, and a follower that looks between two shrinkings misses no line.
  \<^item> \<open>Daemon_Identity\<close>, \<open>Registry_Files\<close>, \<open>Registry_Listing\<close> (\<^verbatim>\<open>pty-core/src/registry/list.rs\<close>, \<^verbatim>\<open>root.rs\<close>): is the daemon of a
    record still there, the directory of the registry, and its listing. The reads of \<^verbatim>\<open>/proc\<close> are answers that may see
    a process at different instants. Shown: the check never calls the owner of a record lost while it runs, and a strict listing that
    claims to be complete has every record and socket. \<open>Operation_Settle\<close> judges by these listings.
  \<^item> \<open>Registry_Cleanup\<close> (\<^verbatim>\<open>pty-core/src/registry/cleanup.rs\<close>, \<^verbatim>\<open>evidence.rs\<close>): the removal of a session's files, the retirement of
    records of an earlier boot, the evidence of an exit and the removal of one generation. Shown: a removal is
    fenced by the generation and by the loss of the owner, the record goes last, and the files of a running daemon stay.
  \<^item> \<open>Registry_Lock\<close> (\<^verbatim>\<open>pty-core/src/registry/lock.rs\<close>): the lock files of the registry: create, claim, take over of a
    stale lock, release, as one step relation on the directory and any number of threads. Shown: at most one thread
    holds a lock; and that a withdrawn claim can be left behind.

  Choices. The emulator is a library; its state is a type variable and its operations are the record
  \<open>term_ops\<close>. One handler runs at one instant, so the several readings of the clock inside one
  handler agree. Sequence counters of 64 bits that only grow by one per message are natural numbers.
  The JSON printer and parser, the vector capacity of the allocator, the registry's answers and the
  inspection of the process table are fields of \<open>env\<close>. No definition uses fuel except the scan of the
  message queue, whose bound 8192 is the source's. Loops over strings are structural or have a
  termination proof; a loop that polls is a partial function, and that it returns is a theorem about the clock. Where the code calls the kernel again
  and again, the answers are a list that may run out: then the thread is still in the call, which is a value of its own.

  Not modelled, and why: of the registry, the choice of its root, the steps of an atomic write, and its caches and keyed index
  (directories and file descriptors); of the reads of a process, the branches of other systems than Linux; of the locks, the
  delegation, pinning and hand-over of a claim and the waiting release of an event lock; the command line that launches an operation and the client end of its
  channel; of a held child, \<^verbatim>\<open>fork\<close> itself and the
  environment it is given; the clearing of an event log, the text form of its events and the thread that watches its
  file; the threads that move bytes between sockets, terminal and
  channels; the terminal emulator, its serialisation and its graphics; the garbage
  collector, the retention sweep and the launcher, which compose the modelled registry with processes; the client library and the command line,
  which are I/O around the wire protocol; the drawing of the user interface and its widgets; the test harnesses.
  Of \<^verbatim>\<open>lifecycle.rs\<close> the publication of a session, the helper threads and \<open>close\<close> are left out; of
  \<^verbatim>\<open>mutate.rs\<close> the wait of \<open>patch_metadata_by_id\<close>.
\<close>

end
